(* ===== verification/Prelude.thy ===== *)
theory Prelude
  imports Main "HOL-Library.AList" "HOL-Library.List_Lexorder" "HOL-Library.Char_ord"
 "HOL-Library.Multiset"
    "HOL-Library.Product_Lexorder" "HOL-Library.Option_ord"
begin

text \<open>
  Shared vocabulary of the development: Python's exceptions as a datatype, a result type with its
  bind, Python dictionaries as association lists in insertion order, and generic lemmas on lists
  and options that several components use.  Comparison of strings, tuples and optional keys follows
  the lexicographic instances of the library, which is the order Python's \<open>sorted\<close> uses.
\<close>

named_theorems result_simps \<open>evaluation of the result type\<close>
named_theorems dict_simps \<open>lookup and update of insertion-ordered dictionaries\<close>

subsection \<open>Exceptions and results\<close>

datatype pyerr = ValueError | IndexError | KeyError | TypeError | OverflowError | OSError
  | ZeroDivisionError | UnicodeError | RuntimeError | AttributeError | BadZipFile | StructError | ProtocolError

type_synonym 'a res = "pyerr + 'a"

fun bindE :: "'e + 'a \<Rightarrow> ('a \<Rightarrow> 'e + 'b) \<Rightarrow> 'e + 'b" where
  "bindE (Inl e) f = Inl e"
| "bindE (Inr a) f = f a"

fun mapE :: "('a \<Rightarrow> 'e + 'b) \<Rightarrow> 'a list \<Rightarrow> 'e + 'b list" where
  "mapE f [] = Inr []"
| "mapE f (x # xs) = bindE (f x) (\<lambda>y. bindE (mapE f xs) (\<lambda>ys. Inr (y # ys)))"

lemma bindE_Inr_iff [simp, result_simps]:
  "bindE m f = Inr b \<longleftrightarrow> (\<exists>a. m = Inr a \<and> f a = Inr b)"
  by (cases m) auto

lemma bindE_Inl_iff [result_simps]:
  "bindE m f = Inl e \<longleftrightarrow> m = Inl e \<or> (\<exists>a. m = Inr a \<and> f a = Inl e)"
  by (cases m) auto

lemma bindE_cong [fundef_cong]:
  "m = m' \<Longrightarrow> (\<And>a. m' = Inr a \<Longrightarrow> f a = f' a) \<Longrightarrow> bindE m f = bindE m' f'"
  by (cases m') auto

lemma mapE_Inr_map:
  "(\<And>x. x \<in> set xs \<Longrightarrow> f x = Inr (g x)) \<Longrightarrow> mapE f xs = Inr (map g xs)"
  by (induction xs) auto

lemma mapE_Inr_conv:
  "mapE f xs = Inr ys \<longleftrightarrow> list_all2 (\<lambda>x y. f x = Inr y) xs ys"
  by (induction xs arbitrary: ys) (auto simp: list_all2_Cons1)

lemma mapE_append:
  "mapE f (xs @ ys) = bindE (mapE f xs) (\<lambda>us. bindE (mapE f ys) (\<lambda>vs. Inr (us @ vs)))"
proof (induction xs)
  case Nil
  show ?case by (cases "mapE f ys") simp_all
next
  case (Cons x xs)
  then show ?case
    by (cases "f x"; cases "mapE f xs"; cases "mapE f ys") simp_all
qed

subsection \<open>Dictionaries in insertion order\<close>

text \<open>
  A Python \<open>dict\<close> is an association list with distinct keys, oldest key first:
  assignment to a present key keeps its position, assignment to a new key appends it.  That is
  \<^const>\<open>AList.update\<close>; lookup is \<^const>\<open>map_of\<close>.
\<close>

type_synonym ('k, 'v) dict = "('k \<times> 'v) list"

abbreviation dict_get :: "('k, 'v) dict \<Rightarrow> 'k \<Rightarrow> 'v option" where
  "dict_get d k \<equiv> map_of d k"

abbreviation dict_set :: "('k, 'v) dict \<Rightarrow> 'k \<Rightarrow> 'v \<Rightarrow> ('k, 'v) dict" where
  "dict_set d k v \<equiv> AList.update k v d"

abbreviation dict_del :: "('k, 'v) dict \<Rightarrow> 'k \<Rightarrow> ('k, 'v) dict" where
  "dict_del d k \<equiv> AList.delete k d"

abbreviation dict_keys :: "('k, 'v) dict \<Rightarrow> 'k list" where
  "dict_keys d \<equiv> map fst d"

definition wf_dict :: "('k, 'v) dict \<Rightarrow> bool" where
  "wf_dict d \<longleftrightarrow> distinct (dict_keys d)"

definition dict_setdefault :: "('k, 'v) dict \<Rightarrow> 'k \<Rightarrow> 'v \<Rightarrow> ('k, 'v) dict" where
  "dict_setdefault d k v = (case dict_get d k of None \<Rightarrow> d @ [(k, v)] | Some _ \<Rightarrow> d)"

lemma dict_get_set [dict_simps]:
  "dict_get (dict_set d k v) k' = (if k' = k then Some v else dict_get d k')"
  by (simp add: update_conv')

lemma wf_dict_Nil [simp]: "wf_dict []"
  by (simp add: wf_dict_def)

lemma wf_dict_set [simp, dict_simps]: "wf_dict d \<Longrightarrow> wf_dict (dict_set d k v)"
  by (simp add: wf_dict_def distinct_update)

lemma wf_dict_del [simp, dict_simps]: "wf_dict d \<Longrightarrow> wf_dict (dict_del d k)"
  by (simp add: wf_dict_def distinct_delete)

lemma dict_keys_set: "set (dict_keys (dict_set d k v)) = insert k (set (dict_keys d))"
  using dom_update[of k v d] by (simp add: dom_map_of_conv_image_fst)

lemma length_dict_set:
  "length (dict_set d k v) = (if k \<in> set (dict_keys d) then length d else Suc (length d))"
  by (induction d) auto

lemma dict_set_new: "k \<notin> set (dict_keys d) \<Longrightarrow> dict_set d k v = d @ [(k, v)]"
  by (induction d) auto

lemma wf_dict_setdefault [simp, dict_simps]: "wf_dict d \<Longrightarrow> wf_dict (dict_setdefault d k v)"
  by (auto simp: wf_dict_def dict_setdefault_def map_of_eq_None_iff split: option.split)

lemma dict_get_setdefault [dict_simps]:
  "dict_get (dict_setdefault d k v) k' =
     (if k' = k then Some (case dict_get d k of None \<Rightarrow> v | Some w \<Rightarrow> w) else dict_get d k')"
  by (auto simp: dict_setdefault_def map_add_def split: option.split)

lemma dict_get_in: "dict_get d k = Some v \<Longrightarrow> (k, v) \<in> set d"
  by (rule map_of_SomeD)

lemma dict_get_filter:
  "wf_dict d \<Longrightarrow> dict_get (filter P d) k =
     (case dict_get d k of None \<Rightarrow> None | Some v \<Rightarrow> if P (k, v) then Some v else None)"
proof (induction d)
  case Nil
  show ?case by simp
next
  case (Cons kv d)
  obtain k0 v0 where kv: "kv = (k0, v0)" by (cases kv)
  from Cons.prems kv have "dict_get (filter P d) k0 = None"
    by (auto simp: wf_dict_def map_of_eq_None_iff)
  with Cons kv show ?case
    by (auto simp: wf_dict_def split: option.split)
qed

subsection \<open>Grouping (\<open>defaultdict(list)\<close>)\<close>

definition dict_append :: "'k \<Rightarrow> 'v \<Rightarrow> ('k, 'v list) dict \<Rightarrow> ('k, 'v list) dict" where
  \<comment> \<open>\<open>d[k].append(v)\<close>\<close>
  "dict_append k v d = dict_set d k ((case dict_get d k of None \<Rightarrow> [] | Some vs \<Rightarrow> vs) @ [v])"

definition group_by :: "('e \<Rightarrow> 'k option) \<Rightarrow> 'e list \<Rightarrow> ('k, 'e list) dict" where
  \<comment> \<open>elements without a key are left out\<close>
  "group_by key es = foldl (\<lambda>d e. case key e of None \<Rightarrow> d | Some k \<Rightarrow> dict_append k e d) [] es"

lemma group_by_snoc:
  "group_by key (es @ [e]) = (case key e of None \<Rightarrow> group_by key es | Some k \<Rightarrow> dict_append k e (group_by key es))"
  by (cases "key e") (simp_all add: group_by_def)

lemma group_by_Nil [simp]: "group_by key [] = []"
  by (simp add: group_by_def)

lemma wf_dict_group_by [simp]: "wf_dict (group_by key es)"
  by (induction es rule: rev_induct)
    (auto simp: group_by_snoc dict_append_def split: option.split)

lemma dict_get_group_by:
  "dict_get (group_by key es) k =
     (let vs = filter (\<lambda>e. key e = Some k) es in if vs = [] then None else Some vs)"
  by (induction es rule: rev_induct)
    (auto simp: group_by_snoc dict_append_def dict_simps Let_def split: option.split)

lemma group_by_iff:
  "(k, vs) \<in> set (group_by key es) \<longleftrightarrow> vs \<noteq> [] \<and> vs = filter (\<lambda>e. key e = Some k) es"
  using map_of_eq_Some_iff[of "group_by key es" k vs] wf_dict_group_by[of key es]
  by (auto simp: wf_dict_def dict_get_group_by Let_def split: if_splits)

lemma mset_dict_append:
  "mset (concat (map snd (dict_append k v d))) = add_mset v (mset (concat (map snd d)))"
  unfolding dict_append_def by (induction d) auto

lemma mset_group_by: "mset (concat (map snd (group_by key es))) = mset (filter (\<lambda>e. key e \<noteq> None) es)"
  by (induction es rule: rev_induct) (auto simp: group_by_snoc mset_dict_append split: option.split)

subsection \<open>Lists\<close>

text \<open>\<open>max\<close> and \<open>min\<close> of a non-empty list, the first best element winning as in Python.\<close>

fun argmax :: "('a \<Rightarrow> 'b::linorder) \<Rightarrow> 'a \<Rightarrow> 'a list \<Rightarrow> 'a" where
  "argmax f best [] = best"
| "argmax f best (x # xs) = argmax f (if f best < f x then x else best) xs"

lemma argmax_in: "argmax f b xs = b \<or> argmax f b xs \<in> set xs"
proof (induction xs arbitrary: b)
  case Nil
  then show ?case by simp
next
  case (Cons x xs)
  from Cons.IH[of "if f b < f x then x else b"] show ?case by (auto split: if_splits)
qed

lemma argmax_ge: "x \<in> insert b (set xs) \<Longrightarrow> f x \<le> f (argmax f b xs)"
proof (induction xs arbitrary: b x)
  case Nil
  then show ?case by simp
next
  case (Cons y ys)
  let ?b = "if f b < f y then y else b"
  have best: "f ?b \<le> f (argmax f ?b ys)" by (rule Cons.IH) simp
  moreover have "f b \<le> f ?b" "f y \<le> f ?b" by (auto simp: not_less)
  ultimately show ?case
    using Cons.prems Cons.IH[of x ?b] by (auto dest: order_trans)
qed

definition max_of :: "'a::linorder list \<Rightarrow> 'a option" where
  \<comment> \<open>\<open>max(xs, default=None)\<close>\<close>
  "max_of xs = (case xs of [] \<Rightarrow> None | x # ys \<Rightarrow> Some (argmax id x ys))"

lemma max_of_conv: "max_of xs = (if xs = [] then None else Some (Max (set xs)))"
proof (cases xs)
  case (Cons x ys)
  have "Max (set xs) = argmax id x ys"
    using argmax_in[of id x ys] argmax_ge[of _ x ys id] Cons by (intro Max_eqI) auto
  then show ?thesis using Cons by (simp add: max_of_def)
qed (simp add: max_of_def)

lemma filter_idem_imp: "(\<And>x. x \<in> set xs \<Longrightarrow> Q x \<Longrightarrow> P x) \<Longrightarrow> filter Q (filter P xs) = filter Q xs"
  by (induction xs) auto

lemma length_filter_le_mono:
  "(\<And>x. x \<in> set xs \<Longrightarrow> P x \<Longrightarrow> Q x) \<Longrightarrow> length (filter P xs) \<le> length (filter Q xs)"
  by (induction xs) auto

end
