(* ===== verification/PyText.thy ===== *)
theory PyText
  imports Prelude
begin

text \<open>
  Python text as \<^typ>\<open>string\<close>: the splitting, joining, printing and parsing that the modelled
  code uses.  The character classes are those of ASCII text; \<open>int(s)\<close> strips white space, takes
  one sign and lets single underscores stand between digits, as the language reference says.
\<close>

subsection \<open>split and join\<close>

fun split_on :: "char \<Rightarrow> string \<Rightarrow> string list" where
  "split_on c [] = [[]]"
| "split_on c (x # xs) =
     (if x = c then [] # split_on c xs
      else (case split_on c xs of [] \<Rightarrow> [[x]] | w # ws \<Rightarrow> (x # w) # ws))"

fun join_with :: "string \<Rightarrow> string list \<Rightarrow> string" where
  "join_with sep [] = []"
| "join_with sep [w] = w"
| "join_with sep (w # ws) = w @ sep @ join_with sep ws"

lemma split_on_ne [simp]: "split_on c xs \<noteq> []"
  by (cases xs) (auto split: list.splits)

lemma split_on_no_sep: "c \<notin> set w \<Longrightarrow> split_on c w = [w]"
  by (induction w) auto

lemma split_on_append: "c \<notin> set w \<Longrightarrow> split_on c (w @ c # xs) = w # split_on c xs"
  by (induction w) auto

lemma split_on_join:
  assumes "ws \<noteq> []" and "\<And>w. w \<in> set ws \<Longrightarrow> c \<notin> set w"
  shows "split_on c (join_with [c] ws) = ws"
  using assms by (induction "[c]" ws rule: join_with.induct) (auto simp: split_on_no_sep split_on_append)

lemma split_on_parts_no_sep: "w \<in> set (split_on c xs) \<Longrightarrow> c \<notin> set w"
proof (induction xs arbitrary: w)
  case Nil
  then show ?case by simp
next
  case (Cons x xs)
  show ?case
  proof (cases "split_on c xs")
    case Nil
    then show ?thesis by simp
  next
    case (Cons v vs)
    with Cons.IH Cons.prems show ?thesis by (auto split: if_splits)
  qed
qed

lemma join_split_on: "join_with [c] (split_on c xs) = xs"
proof (induction xs)
  case Nil
  show ?case by simp
next
  case (Cons x xs)
  obtain w ws where s: "split_on c xs = w # ws"
    using split_on_ne[of c xs] by (cases "split_on c xs") auto
  with Cons.IH show ?case by (cases ws) auto
qed

subsection \<open>Decimal numbers\<close>

definition digit_char :: "nat \<Rightarrow> char" where
  "digit_char d = char_of (48 + d)"

definition is_digit :: "char \<Rightarrow> bool" where
  "is_digit c \<longleftrightarrow> 48 \<le> (of_char c :: nat) \<and> (of_char c :: nat) \<le> 57"

definition digit_val :: "char \<Rightarrow> nat" where
  "digit_val c = of_char c - 48"

fun nat_str :: "nat \<Rightarrow> string" where
  "nat_str n = (if n < 10 then [digit_char n] else nat_str (n div 10) @ [digit_char (n mod 10)])"

declare nat_str.simps [simp del]

definition int_str :: "int \<Rightarrow> string" where
  "int_str i = (if i < 0 then ''-'' @ nat_str (nat (- i)) else nat_str (nat i))"

definition dec_val :: "string \<Rightarrow> nat" where
  "dec_val s = foldl (\<lambda>a c. 10 * a + digit_val c) 0 s"

lemma is_digit_digit_char [simp]: "d < 10 \<Longrightarrow> is_digit (digit_char d)"
  by (simp add: is_digit_def digit_char_def take_bit_nat_eq_self)

lemma digit_val_digit_char [simp]: "d < 10 \<Longrightarrow> digit_val (digit_char d) = d"
  by (simp add: digit_val_def digit_char_def take_bit_nat_eq_self)

lemma nat_str_digits: "c \<in> set (nat_str n) \<Longrightarrow> is_digit c"
proof (induction n rule: nat_str.induct)
  case (1 n)
  then show ?case by (subst (asm) nat_str.simps) (auto split: if_splits)
qed

lemma nat_str_ne [simp]: "nat_str n \<noteq> []"
  by (subst nat_str.simps) simp

lemma dec_val_append: "dec_val (s @ [c]) = 10 * dec_val s + digit_val c"
  by (simp add: dec_val_def)

lemma dec_val_nat_str [simp]: "dec_val (nat_str n) = n"
proof (induction n rule: nat_str.induct)
  case (1 n)
  show ?case
  proof (cases "n < 10")
    case True
    then show ?thesis by (subst nat_str.simps) (simp add: dec_val_def)
  next
    case False
    with 1 show ?thesis by (subst nat_str.simps) (simp add: dec_val_append)
  qed
qed

lemma nat_str_inj: "nat_str m = nat_str n \<Longrightarrow> m = n"
  by (metis dec_val_nat_str)

definition isdigit :: "string \<Rightarrow> bool" where
  "isdigit s \<longleftrightarrow> s \<noteq> [] \<and> list_all is_digit s"

lemma isdigit_nat_str [simp]: "isdigit (nat_str n)"
  by (auto simp: isdigit_def list_all_iff nat_str_digits)

subsection \<open>\<open>int(s)\<close>\<close>

definition is_space :: "char \<Rightarrow> bool" where
  "is_space c \<longleftrightarrow> (let n = (of_char c :: nat) in n \<in> {32, 133, 160} \<or> (9 \<le> n \<and> n \<le> 13) \<or> (28 \<le> n \<and> n \<le> 31))"

definition strip :: "string \<Rightarrow> string" where
  "strip s = rev (dropWhile is_space (rev (dropWhile is_space s)))"

fun digits_us :: "string \<Rightarrow> bool" where
  \<comment> \<open>a non-empty digit string in which single underscores may stand between digits\<close>
  "digits_us [] = False"
| "digits_us [c] = is_digit c"
| "digits_us (c # d # cs) =
     (is_digit c \<and> (if d = CHR ''_'' then digits_us cs else digits_us (d # cs)))"

definition py_int :: "string \<Rightarrow> int res" where
  "py_int s0 =
     (let s = strip s0;
          neg = (s \<noteq> [] \<and> hd s = CHR ''-'');
          body = (if s \<noteq> [] \<and> (hd s = CHR ''-'' \<or> hd s = CHR ''+'') then tl s else s)
      in if digits_us body
         then Inr (let v = int (dec_val (filter (\<lambda>c. c \<noteq> CHR ''_'') body)) in if neg then - v else v)
         else Inl ValueError)"

lemma is_digit_not_space: "is_digit c \<Longrightarrow> \<not> is_space c"
  by (auto simp: is_digit_def is_space_def Let_def)

lemma is_digit_not_sign:
  "is_digit c \<Longrightarrow> c \<noteq> CHR ''-'' \<and> c \<noteq> CHR ''+'' \<and> c \<noteq> CHR ''_'' \<and> c \<noteq> CHR ''.''"
  by (auto simp: is_digit_def)


lemma strip_id: "(\<And>c. c \<in> set s \<Longrightarrow> \<not> is_space c) \<Longrightarrow> strip s = s"
proof -
  assume ns: "\<And>c. c \<in> set s \<Longrightarrow> \<not> is_space c"
  then have "dropWhile is_space s = s" by (cases s) auto
  moreover have "dropWhile is_space (rev s) = rev s"
    using ns by (auto simp: dropWhile_eq_self_iff hd_rev)
  ultimately show ?thesis by (simp add: strip_def)
qed

lemma digits_us_digits: "s \<noteq> [] \<Longrightarrow> list_all is_digit s \<Longrightarrow> digits_us s"
  by (induction s rule: digits_us.induct) (auto dest: is_digit_not_sign)

lemma py_int_isdigit: "isdigit s \<Longrightarrow> py_int s = Inr (int (dec_val s))"
proof -
  assume d: "isdigit s"
  then have dig: "\<And>c. c \<in> set s \<Longrightarrow> is_digit c" and ne: "s \<noteq> []"
    by (auto simp: isdigit_def list_all_iff)
  have st: "strip s = s" by (rule strip_id) (auto dest: dig is_digit_not_space)
  have h: "hd s \<noteq> CHR ''-'' \<and> hd s \<noteq> CHR ''+''"
    using dig[of "hd s"] ne is_digit_not_sign by auto
  have f: "filter (\<lambda>c. c \<noteq> CHR ''_'') s = s"
    by (rule filter_True) (auto dest: dig is_digit_not_sign)
  have "digits_us s" using d by (simp add: isdigit_def digits_us_digits)
  with st h f show ?thesis by (simp add: py_int_def Let_def)
qed

lemma py_int_nat_str [simp]: "py_int (nat_str n) = Inr (int n)"
  by (simp add: py_int_isdigit)

lemma dot_notin_nat_str [simp]: "CHR ''.'' \<notin> set (nat_str n)"
  using nat_str_digits is_digit_not_sign by blast

subsection \<open>Dotted numbers\<close>

definition dotted :: "nat list \<Rightarrow> string" where
  "dotted ns = join_with ''.'' (map nat_str ns)"

lemma split_dotted: "ns \<noteq> [] \<Longrightarrow> split_on CHR ''.'' (dotted ns) = map nat_str ns"
  unfolding dotted_def by (rule split_on_join) auto

lemma dotted_inj: "ns \<noteq> [] \<Longrightarrow> ms \<noteq> [] \<Longrightarrow> dotted ns = dotted ms \<Longrightarrow> ns = ms"
proof -
  assume ne: "ns \<noteq> []" "ms \<noteq> []" and eq: "dotted ns = dotted ms"
  from eq ne have "map nat_str ns = map nat_str ms" by (metis split_dotted)
  then show "ns = ms" by (metis list.inj_map_strong nat_str_inj)
qed

lemma dotted_ne [simp]: "ns \<noteq> [] \<Longrightarrow> dotted ns \<noteq> []"
  unfolding dotted_def by (cases ns; cases "tl ns") auto

end
