(* ===== verification/Ber.thy ===== *)
theory Ber
  imports PyText "HOL-Library.Word"
begin

unbundle bit_operations_syntax

text \<open>
  The BER codec of \<open>server/printers/ber.py\<close>.  A Python \<open>bytes\<close> value is a list of 8-bit words;
  \<open>bytes([...])\<close> of integers is \<open>mk_bytes\<close>, which raises \<open>ValueError\<close> outside
  \<open>0..255\<close>.  Python's unbounded integers are \<^typ>\<open>int\<close>: \<open>x & 0xFF\<close> is \<open>x mod 256\<close>,
  \<open>x >> 8\<close> is \<open>x div 256\<close> (both floor, as in Python, also below zero), and
  \<open>x & 0x80\<close> tests \<open>bit x 7\<close>.  Reading past the end raises \<open>IndexError\<close>.
\<close>

type_synonym bytes = "8 word list"

definition to_byte :: "int \<Rightarrow> 8 word res" where
  "to_byte x = (if 0 \<le> x \<and> x < 256 then Inr (word_of_int x) else Inl ValueError)"

definition mk_bytes :: "int list \<Rightarrow> bytes res" where
  "mk_bytes xs = mapE to_byte xs"

definition from_be :: "bytes \<Rightarrow> int" where
  \<comment> \<open>\<open>int.from_bytes(b, "big", signed=False)\<close>\<close>
  "from_be bs = foldl (\<lambda>a b. 256 * a + uint b) 0 bs"

definition from_be_signed :: "bytes \<Rightarrow> int" where
  \<comment> \<open>\<open>int.from_bytes(b, "big", signed=True)\<close>\<close>
  "from_be_signed bs =
     (if bs \<noteq> [] \<and> bit (hd bs) 7 then from_be bs - 256 ^ length bs else from_be bs)"

subsection \<open>Lengths\<close>

fun len_loop :: "int \<Rightarrow> int list \<Rightarrow> int list" where
  "len_loop n body = (if n > 0 then len_loop (n div 256) ((n mod 256) # body) else body)"

declare len_loop.simps [simp del]

definition encode_length :: "int \<Rightarrow> bytes res" where
  "encode_length n =
     (if n < 0x80 then mk_bytes [n]
      else let body = len_loop n []
           in bindE (mk_bytes [0x80 OR int (length body)]) (\<lambda>h.
              bindE (mk_bytes body) (\<lambda>b. Inr (h @ b))))"

definition decode_length :: "bytes \<Rightarrow> nat \<Rightarrow> (int \<times> nat) res" where
  "decode_length data pos =
     (if length data \<le> pos then Inl IndexError
      else let first = uint (data ! pos)
           in if first < 0x80 then Inr (first, 1)
              else let num = nat (first mod 128)
                   in if pos + 1 + num > length data then Inl ValueError
                      else Inr (from_be (take num (drop (pos + 1) data)), 1 + num))"

subsection \<open>Tag, length, value\<close>

definition encode_tlv :: "int \<Rightarrow> bytes \<Rightarrow> bytes res" where
  "encode_tlv tag body =
     bindE (mk_bytes [tag]) (\<lambda>t.
     bindE (encode_length (int (length body))) (\<lambda>l. Inr (t @ l @ body)))"

definition decode_tlv :: "bytes \<Rightarrow> nat \<Rightarrow> (int \<times> bytes \<times> nat) res" where
  "decode_tlv data pos =
     (if length data \<le> pos then Inl IndexError
      else let tag = uint (data ! pos)
           in bindE (decode_length data (pos + 1)) (\<lambda>(len, lsize).
              let start = pos + 1 + lsize
              in if int start + len > int (length data) then Inl ValueError
                 else Inr (tag, take (nat len) (drop start data), start + nat len)))"

subsection \<open>Integers, strings, null\<close>

function int_loop :: "int \<Rightarrow> int list \<Rightarrow> int list" where
  "int_loop v body =
     (if v = 0 \<or> v = - 1 then body else int_loop (v div 256) ((v mod 256) # body))"
  by pat_completeness auto
termination
proof (relation "measure (\<lambda>(v, body). nat \<bar>v\<bar>)")
  fix v :: int and body :: "int list"
  assume "\<not> (v = 0 \<or> v = - 1)"
  then have "\<bar>v div 256\<bar> < \<bar>v\<bar>" by linarith
  then show "((v div 256, v mod 256 # body), (v, body)) \<in> measure (\<lambda>(v, body). nat \<bar>v\<bar>)"
    by simp
qed simp

declare int_loop.simps [simp del]

definition int_body :: "int \<Rightarrow> int list" where
  \<comment> \<open>the content octets: \<open>encode_integer\<close> up to its final \<open>encode_tlv\<close>\<close>
  "int_body value =
     (if value = 0 then [0]
      else let body = int_loop value []
           in if value > 0
              then (if body \<noteq> [] \<and> bit (hd body) 7 then 0 # body else body)
              else (if body \<noteq> [] \<and> \<not> bit (hd body) 7 then 0xFF # body
                    else if body = [] then body @ [0xFF] else body))"

definition encode_integer :: "int \<Rightarrow> bytes res" where
  "encode_integer value = bindE (mk_bytes (int_body value)) (encode_tlv 0x02)"

definition encode_octet_string :: "bytes \<Rightarrow> bytes res" where
  "encode_octet_string value = encode_tlv 0x04 value"

definition encode_null :: "bytes res" where
  "encode_null = encode_tlv 0x05 []"

subsection \<open>Object identifiers\<close>

fun arc_loop :: "int \<Rightarrow> int list \<Rightarrow> int list" where
  "arc_loop arc chunk =
     (if arc > 0 then arc_loop (arc div 128) (((arc mod 128) OR 0x80) # chunk) else chunk)"

declare arc_loop.simps [simp del]

definition arc_bytes :: "int \<Rightarrow> int list" where
  "arc_bytes arc = (if arc < 0x80 then [arc] else arc_loop (arc div 128) [arc mod 128])"

definition encode_arcs :: "int list \<Rightarrow> bytes res" where
  "encode_arcs arcs =
     (case arcs of
        a0 # a1 # rest \<Rightarrow> bindE (mk_bytes ((40 * a0 + a1) # concat (map arc_bytes rest))) (encode_tlv 0x06)
      | _ \<Rightarrow> Inl IndexError)"

definition encode_oid :: "string \<Rightarrow> bytes res" where
  "encode_oid oid = bindE (mapE py_int (split_on CHR ''.'' oid)) encode_arcs"

definition max_oid_bytes :: nat where
  "max_oid_bytes = 128"

fun oid_loop :: "int \<Rightarrow> bytes \<Rightarrow> nat list" where
  "oid_loop val [] = []"
| "oid_loop val (b # bs) =
     (let val' = val * 128 + uint b mod 128
      in if \<not> bit b 7 then nat val' # oid_loop 0 bs else oid_loop val' bs)"

definition decode_oid :: "bytes \<Rightarrow> string" where
  "decode_oid body =
     (case body of
        [] \<Rightarrow> ''''
      | first # rest \<Rightarrow>
          if length body > max_oid_bytes then ''''
          else dotted (nat (uint first div 40) # nat (uint first mod 40) # oid_loop 0 rest))"

subsection \<open>Sequences\<close>

lemma from_be_nonneg: "0 \<le> from_be bs"
proof -
  have "0 \<le> a \<Longrightarrow> 0 \<le> foldl (\<lambda>a b. 256 * a + uint b) a (bs :: bytes)" for a :: int
    by (induction bs arbitrary: a) auto
  then show ?thesis by (simp add: from_be_def)
qed

lemma decode_length_bounds:
  assumes "decode_length data pos = Inr (len, n)"
  shows "0 \<le> len \<and> 1 \<le> n \<and> pos + n \<le> length data"
  using assms by (auto simp: decode_length_def Let_def from_be_nonneg split: if_splits)

lemma decode_tlv_progress:
  assumes "decode_tlv data pos = Inr (tag, val, nxt)"
  shows "pos < nxt" and "nxt \<le> length data"
  using assms by (auto simp: decode_tlv_def Let_def split: if_splits dest!: decode_length_bounds)

function decode_items :: "bytes \<Rightarrow> nat \<Rightarrow> (int \<times> bytes) list res" where
  "decode_items body pos =
     (if pos < length body
      then bindE (decode_tlv body pos) (\<lambda>(tag, val, nxt).
           bindE (decode_items body nxt) (\<lambda>items. Inr ((tag, val) # items)))
      else Inr [])"
  by pat_completeness auto
termination
  by (relation "measure (\<lambda>(body, pos). length body - pos)")
    (auto dest: decode_tlv_progress)

declare decode_items.simps [simp del]

definition decode_sequence :: "bytes \<Rightarrow> (int \<times> bytes) list res" where
  "decode_sequence body = decode_items body 0"

subsection \<open>Octet lists\<close>

definition octets :: "int list \<Rightarrow> bool" where
  "octets xs = list_all (\<lambda>x. 0 \<le> x \<and> x < 256) xs"

lemma octets_simps [simp]:
  "octets []"
  "octets (x # xs) \<longleftrightarrow> 0 \<le> x \<and> x < 256 \<and> octets xs"
  "octets (xs @ ys) \<longleftrightarrow> octets xs \<and> octets ys"
  by (auto simp: octets_def)

abbreviation words :: "int list \<Rightarrow> bytes" where
  "words xs \<equiv> map word_of_int xs"

lemma mk_bytes_words [simp]: "octets xs \<Longrightarrow> mk_bytes xs = Inr (words xs)"
  unfolding mk_bytes_def octets_def by (rule mapE_Inr_map) (simp add: to_byte_def list_all_iff)

lemma mk_bytes_InrD: "mk_bytes xs = Inr bs \<Longrightarrow> octets xs \<and> bs = words xs"
  unfolding mk_bytes_def
  by (induction xs arbitrary: bs) (auto simp: to_byte_def split: if_splits)

lemma uint_octet [simp]: "0 \<le> x \<Longrightarrow> x < 256 \<Longrightarrow> uint (word_of_int x :: 8 word) = x"
  by (simp add: uint_word_of_int)

lemma uint_byte: "0 \<le> uint (b :: 8 word) \<and> uint b < 256"
  using uint_range_size[of b] by (simp add: word_size)

lemma bit_word_octet: "0 \<le> x \<Longrightarrow> x < 256 \<Longrightarrow> bit (word_of_int x :: 8 word) 7 = bit x 7"
  by (simp add: bit_word_of_int_iff)

lemma bit7_octet: "0 \<le> x \<Longrightarrow> x < 256 \<Longrightarrow> bit (x::int) 7 \<longleftrightarrow> 128 \<le> x"
proof (cases "x < 128")
  case False
  assume x: "0 \<le> x" "x < 256"
  with False have "x div 128 = 1" by linarith
  with False show ?thesis by (simp add: bit_iff_odd)
qed (simp add: bit_iff_odd)

lemma bit7_byte: "bit (b :: 8 word) 7 \<longleftrightarrow> 128 \<le> uint b"
  using uint_byte[of b] bit7_octet[of "uint b"] by (simp add: bit_uint_iff)

lemma or128: "0 \<le> x \<Longrightarrow> x < 128 \<Longrightarrow> x OR 128 = x + (128::int)"
proof -
  assume x: "0 \<le> x" "x < 128"
  have b: "bit (128::int) n \<longleftrightarrow> n = 7" for n
    using bit_exp_iff[of 7 n, where 'a = int] by auto
  have nb: "\<not> bit x 7" using bit7_octet[of x] x by simp
  have "\<not> bit x n \<or> \<not> bit (128::int) n" for n
    using nb by (cases "n = 7") (simp_all add: b)
  then have "x + 128 = x OR 128" by (rule disjunctive_add)
  then show ?thesis by simp
qed

lemma from_be_Nil [simp]: "from_be [] = 0"
  by (simp add: from_be_def)

lemma from_be_snoc: "from_be (xs @ [y]) = 256 * from_be xs + uint y"
  by (simp add: from_be_def)

lemma foldl_be:
  "foldl (\<lambda>a b. 256 * a + uint b) a ys = a * 256 ^ length ys + from_be (ys :: bytes)"
proof (induction ys rule: rev_induct)
  case Nil
  show ?case by simp
next
  case (snoc y ys)
  have "foldl (\<lambda>a b. 256 * a + uint b) a (ys @ [y])
      = 256 * foldl (\<lambda>a b. 256 * a + uint b) a ys + uint y"
    by (simp only: foldl_append foldl.simps)
  also have "\<dots> = a * 256 ^ length (ys @ [y]) + (256 * from_be ys + uint y)"
    by (simp only: snoc.IH) simp
  finally show ?case by (simp only: from_be_snoc)
qed

lemma from_be_append: "from_be (xs @ ys) = from_be xs * 256 ^ length ys + from_be ys"
proof -
  have "from_be (xs @ ys) = foldl (\<lambda>a b. 256 * a + uint b) (from_be xs) ys"
    by (simp add: from_be_def)
  then show ?thesis by (simp only: foldl_be)
qed

lemma from_be_Cons: "from_be (x # xs) = uint x * 256 ^ length xs + from_be xs"
  using from_be_append[of "[x]" xs] by (simp add: from_be_def)

subsection \<open>Lengths: encode then decode\<close>

lemma len_loop_octets: "octets body \<Longrightarrow> octets (len_loop n body)"
proof (induction n body rule: len_loop.induct)
  case (1 n body)
  show ?case
  proof (cases "n > 0")
    case True
    with "1.prems" have "octets (len_loop (n div 256) (n mod 256 # body))" by (intro "1.IH") auto
    with True show ?thesis by (subst len_loop.simps) simp
  next
    case False
    with "1.prems" show ?thesis by (subst len_loop.simps) simp
  qed
qed

lemma len_loop_value:
  "0 \<le> n \<Longrightarrow> octets body \<Longrightarrow>
   from_be (words (len_loop n body)) = n * 256 ^ length body + from_be (words body)"
proof (induction n body rule: len_loop.induct)
  case (1 n body)
  show ?case
  proof (cases "n > 0")
    case True
    let ?P = "256 ^ length body :: int"
    have "n * ?P = (n div 256 * 256 + n mod 256) * ?P" by (simp only: div_mult_mod_eq)
    then have e: "n * ?P = n div 256 * (256 * ?P) + n mod 256 * ?P"
      by (simp only: distrib_right mult.assoc)
    have "from_be (words (len_loop n body)) = from_be (words (len_loop (n div 256) (n mod 256 # body)))"
      using True by (subst len_loop.simps) simp
    also have "\<dots> = n div 256 * 256 ^ length (n mod 256 # body) + from_be (words (n mod 256 # body))"
      using True "1.prems" by (intro "1.IH") auto
    finally show ?thesis by (simp add: from_be_Cons e)
  next
    case False
    with "1.prems" show ?thesis by (subst len_loop.simps) simp
  qed
qed

lemma len_loop_length:
  "n < 256 ^ k \<Longrightarrow> length (len_loop n body) \<le> k + length body"
proof (induction n body arbitrary: k rule: len_loop.induct)
  case (1 n body)
  show ?case
  proof (cases "n > 0")
    case True
    with "1.prems" obtain j where k: "k = Suc j" by (cases k) auto
    with "1.prems" have "n div 256 < 256 ^ j" by auto
    from "1.IH"[OF True this] True k show ?thesis by (subst len_loop.simps) simp
  next
    case False
    then show ?thesis by (subst len_loop.simps) simp
  qed
qed

lemma len_loop_ge: "length body \<le> length (len_loop n body)"
proof (induction n body rule: len_loop.induct)
  case (1 n body)
  then show ?case by (subst len_loop.simps) auto
qed

lemma or_len: "k < 128 \<Longrightarrow> 0x80 OR int k = 128 + int k"
  using or128[of "int k"] by (simp add: or.commute)

lemma encode_length_long:
  assumes "0x80 \<le> n" and "n < 256 ^ 127"
  shows "\<exists>body. encode_length n = Inr (word_of_int (128 + int (length body)) # words body) \<and>
    octets body \<and> length body < 128 \<and> from_be (words body) = n"
proof -
  let ?b = "len_loop n []"
  have l: "length ?b \<le> 127" using len_loop_length[OF assms(2), of "[]"] by simp
  have o: "octets ?b" by (rule len_loop_octets) simp
  have "from_be (words ?b) = n" using len_loop_value[of n "[]"] assms(1) by simp
  moreover have "encode_length n = Inr (word_of_int (128 + int (length ?b)) # words ?b)"
    using assms l o or_len[of "length ?b"] by (simp add: encode_length_def Let_def)
  ultimately show ?thesis using l o by (intro exI[of _ ?b]) auto
qed

lemma encode_decode_length:
  assumes "0 \<le> n" and "n < 256 ^ 127"
  shows "\<exists>bs. encode_length n = Inr bs \<and> bs \<noteq> [] \<and>
    decode_length (pre @ bs @ post) (length pre) = Inr (n, length bs)"
proof (cases "n < 0x80")
  case True
  with assms show ?thesis
    by (auto simp: encode_length_def decode_length_def nth_append)
next
  case False
  with assms obtain body where b: "encode_length n = Inr (word_of_int (128 + int (length body)) # words body)"
    "octets body" "length body < 128" "from_be (words body) = n"
    using encode_length_long[of n] by auto
  let ?h = "word_of_int (128 + int (length body)) :: 8 word"
  from b(3) have h: "uint ?h = 128 + int (length body)" by (intro uint_octet) auto
  then have "decode_length (pre @ (?h # words body) @ post) (length pre) = Inr (n, Suc (length body))"
    using b(3,4) by (simp add: decode_length_def Let_def nth_append del: of_int_add)
  with b(1) show ?thesis by simp
qed

subsection \<open>The codec interface and streams of records\<close>

text \<open>
  What \<open>decode_sequence\<close> needs of a codec: an encoding read back at its own offset, whatever
  surrounds it.  \<open>parses dec data pos ts\<close> says that the loop
  \<open>while pos < len(data)\<close> over \<open>dec\<close> collects exactly \<open>ts\<close>.
\<close>

inductive parses :: "(bytes \<Rightarrow> nat \<Rightarrow> ('t \<times> nat) res) \<Rightarrow> bytes \<Rightarrow> nat \<Rightarrow> 't list \<Rightarrow> bool"
  for dec data where
  parses_end: "length data \<le> pos \<Longrightarrow> parses dec data pos []"
| parses_item: "pos < length data \<Longrightarrow> dec data pos = Inr (t, nxt) \<Longrightarrow> parses dec data nxt ts
    \<Longrightarrow> parses dec data pos (t # ts)"

inductive_cases parses_NilE: "parses dec data pos []"
inductive_cases parses_ConsE: "parses dec data pos (t # ts)"

locale prefix_codec =
  fixes enc :: "'t \<Rightarrow> bytes res"
    and dec :: "bytes \<Rightarrow> nat \<Rightarrow> ('t \<times> nat) res"
    and ok :: "'t \<Rightarrow> bool"
  assumes dec_enc: "ok t \<Longrightarrow> enc t = Inr bs \<Longrightarrow>
      dec (pre @ bs @ post) (length pre) = Inr (t, length pre + length bs)"
    and enc_ne: "enc t = Inr bs \<Longrightarrow> bs \<noteq> []"
begin

lemma parses_concat:
  assumes "list_all ok ts" and "mapE enc ts = Inr bss"
  shows "parses dec (pre @ concat bss) (length pre) ts"
  using assms
proof (induction ts arbitrary: pre bss)
  case Nil
  then show ?case by (auto intro: parses_end)
next
  case (Cons t ts)
  then obtain bs rest where bs: "enc t = Inr bs" "mapE enc ts = Inr rest" "bss = bs # rest"
    by auto
  have "parses dec ((pre @ bs) @ concat rest) (length (pre @ bs)) ts"
    using Cons.prems bs by (intro Cons.IH) auto
  moreover have "dec (pre @ concat bss) (length pre) = Inr (t, length pre + length bs)"
    using dec_enc[of t bs pre "concat rest"] Cons.prems bs by simp
  moreover have "length pre < length (pre @ concat bss)"
    using enc_ne[OF bs(1)] bs(3) by (cases bs) auto
  ultimately show ?case using bs(3) by (auto intro!: parses_item)
qed

lemma enc_inj: "ok t \<Longrightarrow> ok u \<Longrightarrow> enc t = Inr bs \<Longrightarrow> enc u = Inr bs \<Longrightarrow> t = u"
  using dec_enc[of t bs "[]" "[]"] dec_enc[of u bs "[]" "[]"] by simp

end

definition tlv_at :: "bytes \<Rightarrow> nat \<Rightarrow> ((int \<times> bytes) \<times> nat) res" where
  "tlv_at data pos = bindE (decode_tlv data pos) (\<lambda>(tag, val, nxt). Inr ((tag, val), nxt))"

definition tlv_ok :: "int \<times> bytes \<Rightarrow> bool" where
  "tlv_ok tv \<longleftrightarrow> int (length (snd tv)) < 256 ^ 127"

lemma decode_items_parses: "decode_items body pos = Inr items \<longleftrightarrow> parses tlv_at body pos items"
proof (induction body pos arbitrary: items rule: decode_items.induct)
  case (1 body pos)
  show ?case
  proof (cases "pos < length body")
    case False
    then have "decode_items body pos = Inr items \<longleftrightarrow> items = []"
      by (subst decode_items.simps) auto
    with False show ?thesis by (auto intro: parses_end elim: parses.cases)
  next
    case True
    show ?thesis
    proof (cases "decode_tlv body pos")
      case (Inl e)
      with True have "decode_items body pos = Inl e" by (subst decode_items.simps) simp
      moreover have "\<not> parses tlv_at body pos items"
        using True Inl by (auto simp: tlv_at_def elim: parses.cases)
      ultimately show ?thesis by simp
    next
      case (Inr r)
      obtain tag val nxt where r: "r = (tag, val, nxt)" by (cases r) auto
      have "decode_items body pos = Inr items \<longleftrightarrow>
          (\<exists>rest. items = (tag, val) # rest \<and> decode_items body nxt = Inr rest)"
        using True Inr r by (subst decode_items.simps) auto
      also have "\<dots> \<longleftrightarrow> (\<exists>rest. items = (tag, val) # rest \<and> parses tlv_at body nxt rest)"
        using "1.IH"[OF True Inr] r by auto
      also have "\<dots> \<longleftrightarrow> parses tlv_at body pos items"
        using True Inr r
        by (auto simp: tlv_at_def intro!: parses_item elim: parses.cases)
      finally show ?thesis .
    qed
  qed
qed

lemma decode_encode_tlv:
  assumes "int (length body) < 256 ^ 127" and "encode_tlv tag body = Inr bs"
  shows "decode_tlv (pre @ bs @ post) (length pre) = Inr (tag, body, length pre + length bs)"
    and "\<exists>h. h \<noteq> [] \<and> bs = h @ body"
proof -
  from assms(2) have t: "0 \<le> tag" "tag < 256"
    by (auto simp: encode_tlv_def dest!: mk_bytes_InrD)
  obtain l where l: "encode_length (int (length body)) = Inr l"
    and dl: "\<And>pre post. decode_length (pre @ l @ post) (length pre) = Inr (int (length body), length l)"
    using encode_decode_length[OF _ assms(1)] encode_decode_length[OF _ assms(1), of "[]" "[]"]
    by (metis Inr_inject of_nat_0_le_iff)
  from assms(2) l t have bs: "bs = word_of_int tag # l @ body"
    by (auto simp: encode_tlv_def)
  have "decode_length (pre @ bs @ post) (length pre + 1) = Inr (int (length body), length l)"
    using dl[of "pre @ [word_of_int tag]" "body @ post"] bs by simp
  with bs t show "decode_tlv (pre @ bs @ post) (length pre) = Inr (tag, body, length pre + length bs)"
    by (simp add: decode_tlv_def Let_def nth_append)
  show "\<exists>h. h \<noteq> [] \<and> bs = h @ body"
    using bs by (intro exI[of _ "word_of_int tag # l"]) simp
qed

interpretation tlv: prefix_codec "\<lambda>(t, b). encode_tlv t b" tlv_at tlv_ok
proof
  fix t :: "int \<times> bytes" and bs pre post
  assume "tlv_ok t" "(case t of (t, b) \<Rightarrow> encode_tlv t b) = Inr bs"
  then show "tlv_at (pre @ bs @ post) (length pre) = Inr (t, length pre + length bs)"
    by (cases t) (simp add: tlv_at_def tlv_ok_def decode_encode_tlv(1))
next
  fix t :: "int \<times> bytes" and bs
  assume "(case t of (t, b) \<Rightarrow> encode_tlv t b) = Inr bs"
  then show "bs \<noteq> []"
    by (cases t) (auto simp: encode_tlv_def mk_bytes_def)
qed

lemma decode_sequence_concat:
  assumes "list_all tlv_ok items" and "mapE (\<lambda>(t, b). encode_tlv t b) items = Inr parts"
  shows "decode_sequence (concat parts) = Inr items"
  using tlv.parses_concat[OF assms, of "[]"]
  by (simp add: decode_sequence_def decode_items_parses)

lemma encode_tlv_total:
  assumes "0 \<le> tag" "tag < 256" "int (length body) < 256 ^ 127"
  shows "\<exists>bs. encode_tlv tag body = Inr bs"
  using assms encode_decode_length[of "int (length body)" "[]" "[]"]
  by (auto simp: encode_tlv_def)

subsection \<open>What the decoder guarantees on untrusted bytes\<close>

lemma decode_tlv_inside:
  assumes "decode_tlv data pos = Inr (tag, val, nxt)"
  shows "\<exists>h. data = take pos data @ h @ val @ drop nxt data \<and> h \<noteq> [] \<and>
    nxt = pos + length h + length val \<and> 0 \<le> tag \<and> tag < 256"
proof -
  from assms obtain len lsize where dl: "decode_length data (pos + 1) = Inr (len, lsize)"
    and pos: "pos < length data" and tag: "tag = uint (data ! pos)"
    and v: "val = take (nat len) (drop (pos + 1 + lsize) data)"
    and n: "nxt = pos + 1 + lsize + nat len"
    and le: "int (pos + 1 + lsize) + len \<le> int (length data)"
    by (auto simp: decode_tlv_def Let_def split: if_splits)
  from decode_length_bounds[OF dl] have len: "0 \<le> len" "1 \<le> lsize" by auto
  let ?h = "take (1 + lsize) (drop pos data)"
  have lv: "length val = nat len" using v le len by auto
  have lh: "length ?h = 1 + lsize" using le len by auto
  have "drop pos data = ?h @ drop (pos + 1 + lsize) data"
    by (metis append_take_drop_id drop_drop add.commute add.left_commute)
  also have "drop (pos + 1 + lsize) data = val @ drop nxt data"
    using v n by (metis append_take_drop_id drop_drop add.commute)
  finally have "data = take pos data @ ?h @ val @ drop nxt data"
    by (metis append_take_drop_id)
  with lh lv n tag uint_byte[of "data ! pos"] show ?thesis
    by (intro exI[of _ ?h]) (auto simp del: append_take_drop_id take_drop)
qed

lemma decode_length_error: "decode_length data pos = Inl e \<Longrightarrow> e \<in> {ValueError, IndexError}"
  by (auto simp: decode_length_def Let_def split: if_splits)

lemma decode_tlv_error: "decode_tlv data pos = Inl e \<Longrightarrow> e \<in> {ValueError, IndexError}"
  by (auto simp: decode_tlv_def Let_def bindE_Inl_iff split: if_splits dest: decode_length_error)

lemma decode_items_error: "decode_items data pos = Inl e \<Longrightarrow> e \<in> {ValueError, IndexError}"
proof (induction data pos rule: decode_items.induct)
  case (1 body pos)
  from "1.prems" have pos: "pos < length body" by (subst (asm) decode_items.simps) (auto split: if_splits)
  show ?case
  proof (cases "decode_tlv body pos")
    case (Inl e')
    with "1.prems" pos have "e = e'" by (subst (asm) decode_items.simps) simp
    with Inl show ?thesis using decode_tlv_error by simp
  next
    case (Inr r)
    obtain tag val nxt where r: "r = (tag, val, nxt)" by (cases r) auto
    have "decode_items body nxt = Inl e"
      using "1.prems" pos Inr r by (subst (asm) decode_items.simps) (auto simp: bindE_Inl_iff)
    with "1.IH"[OF pos Inr] r show ?thesis by auto
  qed
qed

subsection \<open>Integers: two's complement, shortest form\<close>

lemma from_be_bound: "from_be bs < 256 ^ length bs"
proof (induction bs)
  case (Cons b bs)
  have "uint b * 256 ^ length bs \<le> 255 * 256 ^ length bs"
    using uint_byte[of b] by (intro mult_right_mono) auto
  from add_le_less_mono[OF this Cons] show ?case by (simp add: from_be_Cons)
qed simp

lemma scaled_le:
  fixes P :: int
  assumes "0 < P" and "a * P < b * P + P"
  shows "a \<le> b"
proof (rule ccontr)
  assume "\<not> a \<le> b"
  then have "(b + 1) * P \<le> a * P" using assms(1) by (intro mult_right_mono) auto
  with assms(2) show False by (simp add: distrib_right)
qed

lemma int_loop_octets: "octets body \<Longrightarrow> octets (int_loop v body)"
proof (induction v body rule: int_loop.induct)
  case (1 v body)
  show ?case
  proof (cases "v = 0 \<or> v = - 1")
    case False
    with "1.prems" have "octets (int_loop (v div 256) (v mod 256 # body))" by (intro "1.IH") auto
    with False show ?thesis by (subst int_loop.simps) simp
  next
    case True
    with "1.prems" show ?thesis by (subst int_loop.simps) simp
  qed
qed

definition sign_ext :: "int \<Rightarrow> int" where
  "sign_ext v = (if v < 0 then - 1 else 0)"

lemma int_loop_value:
  "octets body \<Longrightarrow>
   v * 256 ^ length body + from_be (words body) =
   sign_ext v * 256 ^ length (int_loop v body) + from_be (words (int_loop v body))"
proof (induction v body rule: int_loop.induct)
  case (1 v body)
  show ?case
  proof (cases "v = 0 \<or> v = - 1")
    case True
    then show ?thesis by (subst (1 2) int_loop.simps) (auto simp: sign_ext_def)
  next
    case False
    let ?P = "256 ^ length body :: int"
    let ?l = "int_loop (v div 256) (v mod 256 # body)"
    have s: "sign_ext (v div 256) = sign_ext v" by (simp add: sign_ext_def pos_imp_zdiv_neg_iff)
    have "v * ?P = (v div 256 * 256 + v mod 256) * ?P" by (simp only: div_mult_mod_eq)
    then have e: "v * ?P = v div 256 * (256 * ?P) + v mod 256 * ?P"
      by (simp only: distrib_right mult.assoc)
    have "v div 256 * 256 ^ length (v mod 256 # body) + from_be (words (v mod 256 # body)) =
        sign_ext (v div 256) * 256 ^ length ?l + from_be (words ?l)"
      using "1.prems" by (intro "1.IH" False) auto
    moreover have "int_loop v body = ?l" using False by (subst int_loop.simps) simp
    ultimately show ?thesis by (simp add: from_be_Cons e s)
  qed
qed

lemma int_loop_length:
  "- (256 ^ k) \<le> v \<Longrightarrow> v < 256 ^ k \<Longrightarrow> length (int_loop v body) \<le> k + length body"
proof (induction v body arbitrary: k rule: int_loop.induct)
  case (1 v body)
  show ?case
  proof (cases "v = 0 \<or> v = - 1")
    case True
    then show ?thesis by (subst int_loop.simps) simp
  next
    case False
    with "1.prems" obtain j where k: "k = Suc j" by (cases k) auto
    with "1.prems" have "- (256 ^ j) \<le> v div 256" "v div 256 < 256 ^ j" by auto
    from "1.IH"[OF False this] False k show ?thesis by (subst int_loop.simps) simp
  qed
qed

lemma int_loop_ne: "v \<noteq> 0 \<Longrightarrow> v \<noteq> - 1 \<Longrightarrow> int_loop v body \<noteq> []"
proof (induction v body rule: int_loop.induct)
  case (1 v body)
  then have "int_loop v body = int_loop (v div 256) (v mod 256 # body)"
    by (subst int_loop.simps) simp
  moreover have "int_loop (v div 256) (v mod 256 # body) \<noteq> []"
  proof (cases "v div 256 = 0 \<or> v div 256 = - 1")
    case True
    then show ?thesis by (subst int_loop.simps) auto
  next
    case False
    with 1 show ?thesis by auto
  qed
  ultimately show ?case by simp
qed

lemma int_body_octets: "octets (int_body v)"
  using int_loop_octets[of "[]" v] by (auto simp: int_body_def Let_def)

lemma from_be_signed_Cons:
  "from_be_signed (b # bs) =
     (if 128 \<le> uint b then uint b - 256 else uint b) * 256 ^ length bs + from_be bs"
  by (simp add: from_be_signed_def bit7_byte from_be_Cons left_diff_distrib)

lemma int_body_value: "from_be_signed (words (int_body v)) = v"
proof -
  let ?b = "int_loop v []"
  have o: "octets ?b" by (rule int_loop_octets) simp
  have val: "v = sign_ext v * 256 ^ length ?b + from_be (words ?b)"
    using int_loop_value[of "[]" v] by simp
  consider "v = 0" | "v = - 1" | "v \<noteq> 0" "v \<noteq> - 1" by blast
  then show ?thesis
  proof cases
    case 1
    then show ?thesis by (simp add: int_body_def from_be_signed_Cons)
  next
    case 2
    then show ?thesis
      by (subst int_body_def, subst int_loop.simps) (simp add: from_be_signed_Cons)
  next
    case 3
    then obtain x xs where b: "?b = x # xs" using int_loop_ne[of v "[]"] by (cases ?b) auto
    with o have x: "0 \<le> x" "x < 256" by auto
    have "from_be (words ?b) = x * 256 ^ length xs + from_be (words xs)"
      using b x by (simp add: from_be_Cons)
    with 3 b x val show ?thesis
      by (auto simp: int_body_def Let_def bit7_octet from_be_signed_Cons from_be_Cons sign_ext_def
          left_diff_distrib)
  qed
qed

lemma from_be_signed_range:
  assumes "bs \<noteq> []"
  shows "- (128 * 256 ^ (length bs - 1)) \<le> from_be_signed bs
       \<and> from_be_signed bs < 128 * 256 ^ (length bs - 1)"
proof -
  obtain b r where bs: "bs = b # r" using assms by (cases bs) auto
  define P where "P = (256 ^ length r :: int)"
  obtain x where v: "from_be_signed bs = x * P + from_be r" and x: "- 128 \<le> x" "x \<le> 127"
  proof -
    obtain u where u: "u = uint b" "0 \<le> u" "u < 256" using uint_byte[of b] by auto
    let ?x = "if 128 \<le> u then u - 256 else u"
    have "from_be_signed bs = ?x * P + from_be r" by (simp add: bs from_be_signed_Cons P_def u(1))
    with u(2,3) show thesis by (intro that[of ?x]) auto
  qed
  have "- 128 * P \<le> x * P" "x * P \<le> 127 * P"
    using x by (intro mult_right_mono; simp add: P_def)+
  moreover have "0 \<le> from_be r" "from_be r < P" using from_be_nonneg from_be_bound by (auto simp: P_def)
  ultimately have "- (128 * P) \<le> from_be_signed bs" "from_be_signed bs < 128 * P"
    unfolding v by linarith+
  then show ?thesis by (simp add: bs P_def)
qed

lemma int_body_fits:
  assumes v: "- (128 * 256 ^ k) \<le> v" "v < 128 * 256 ^ k"
  shows "length (int_body v) \<le> Suc k"
proof (cases "v = 0 \<or> v = - 1")
  case True
  then show ?thesis
    by (subst int_body_def, subst int_loop.simps) auto
next
  case False
  let ?b = "int_loop v []"
  from False obtain x xs where b: "?b = x # xs" using int_loop_ne[of v "[]"] by (cases ?b) auto
  have o: "octets ?b" by (rule int_loop_octets) simp
  with b have x: "0 \<le> x" "x < 256" by auto
  have "- (256 ^ Suc k) \<le> v" "v < 256 ^ Suc k" using v by auto
  from int_loop_length[OF this, of "[]"] b have len: "length xs \<le> k" by simp
  have val: "v = (sign_ext v * 256 + x) * 256 ^ length xs + from_be (words xs)"
    using int_loop_value[of "[]" v] b x by (simp add: from_be_Cons distrib_right)
  show ?thesis
  proof (cases "length xs = k")
    case False
    with len b show ?thesis by (auto simp: int_body_def Let_def)
  next
    case True
    define P where "P = (256 ^ k :: int)"
    have P: "0 < P" by (simp add: P_def)
    have fb: "0 \<le> from_be (words xs)" "from_be (words xs) < P"
      using from_be_nonneg from_be_bound[of "words xs"] True by (auto simp: P_def)
    have "bit x 7 \<longleftrightarrow> v < 0"
    proof (cases "v < 0")
      case neg: True
      have "v = (x - 256) * P + from_be (words xs)"
        using val True neg by (simp add: sign_ext_def P_def left_diff_distrib)
      with v(1)[folded P_def] fb have "- 128 * P < (x - 256) * P + P" by linarith
      from scaled_le[OF P this] neg x show ?thesis by (simp add: bit7_octet)
    next
      case pos: False
      have "v = x * P + from_be (words xs)"
        using val True pos by (simp add: sign_ext_def P_def)
      with v(2)[folded P_def] fb have "x * P < 127 * P + P" by linarith
      from scaled_le[OF P this] pos x show ?thesis by (simp add: bit7_octet)
    qed
    with False b True show ?thesis by (auto simp: int_body_def Let_def)
  qed
qed

lemma int_body_minimal:
  assumes "bs \<noteq> []" and "from_be_signed bs = v"
  shows "length (int_body v) \<le> length bs"
  using int_body_fits[of "length bs - 1" v] from_be_signed_range[OF assms(1)] assms
  by (cases bs) auto

subsection \<open>Object identifiers: base 128 and back\<close>

lemma oid_loop_cont:
  "0 \<le> c \<Longrightarrow> c < 128 \<Longrightarrow> oid_loop val (word_of_int (c OR 128) # bs) = oid_loop (val * 128 + c) bs"
  by (simp add: or128 bit7_byte Let_def uint_word_of_int del: of_int_add)

lemma oid_loop_last:
  "0 \<le> c \<Longrightarrow> c < 128 \<Longrightarrow> oid_loop val (word_of_int c # bs) = nat (val * 128 + c) # oid_loop 0 bs"
  by (simp add: bit7_byte Let_def)

lemma arc_loop_octets: "0 \<le> arc \<Longrightarrow> octets chunk \<Longrightarrow> octets (arc_loop arc chunk)"
proof (induction arc chunk rule: arc_loop.induct)
  case (1 arc chunk)
  have m: "0 \<le> (arc mod 128) OR 128" "(arc mod 128) OR 128 < 256"
    using or128[of "arc mod 128"] by auto
  show ?case
  proof (cases "arc > 0")
    case True
    have "octets (arc_loop (arc div 128) (((arc mod 128) OR 0x80) # chunk))"
      using True "1.prems" m by (intro "1.IH") auto
    with True show ?thesis by (subst arc_loop.simps) simp
  next
    case False
    with "1.prems" show ?thesis by (subst arc_loop.simps) simp
  qed
qed

lemma arc_loop_decode:
  "0 \<le> arc \<Longrightarrow> \<exists>n. \<forall>val. oid_loop val (words (arc_loop arc chunk) @ rest) =
     oid_loop (val * 128 ^ n + arc) (words chunk @ rest)"
proof (induction arc chunk rule: arc_loop.induct)
  case (1 arc chunk)
  show ?case
  proof (cases "arc > 0")
    case False
    with "1.prems" show ?thesis by (subst arc_loop.simps) (auto intro: exI[of _ 0])
  next
    case True
    let ?c = "arc mod 128"
    obtain n where n: "\<forall>val. oid_loop val (words (arc_loop (arc div 128) ((?c OR 128) # chunk)) @ rest)
        = oid_loop (val * 128 ^ n + arc div 128) (words ((?c OR 128) # chunk) @ rest)"
      using "1.IH"[OF True] True by (auto simp: pos_imp_zdiv_nonneg_iff)
    have "oid_loop val (words (arc_loop arc chunk) @ rest)
        = oid_loop (val * 128 ^ Suc n + arc) (words chunk @ rest)" for val
    proof -
      have "oid_loop val (words (arc_loop arc chunk) @ rest)
          = oid_loop (val * 128 ^ n + arc div 128) (word_of_int (?c OR 128) # words chunk @ rest)"
        using n True by (subst arc_loop.simps) simp
      also have "\<dots> = oid_loop ((val * 128 ^ n + arc div 128) * 128 + ?c) (words chunk @ rest)"
        by (rule oid_loop_cont) auto
      also have "(val * 128 ^ n + arc div 128) * 128 + ?c = val * 128 ^ Suc n + arc"
        by (simp add: distrib_right)
      finally show ?thesis .
    qed
    then show ?thesis by blast
  qed
qed

lemma arc_bytes_octets: "0 \<le> arc \<Longrightarrow> octets (arc_bytes arc)"
  by (auto simp: arc_bytes_def intro!: arc_loop_octets)

lemma arc_bytes_decode:
  assumes "0 \<le> arc"
  shows "oid_loop 0 (words (arc_bytes arc) @ rest) = nat arc # oid_loop 0 rest"
proof (cases "arc < 0x80")
  case True
  with assms oid_loop_last[of arc 0 rest] show ?thesis
    by (simp add: arc_bytes_def del: oid_loop.simps)
next
  case False
  then have "0 \<le> arc div 128" by (simp add: pos_imp_zdiv_nonneg_iff)
  from arc_loop_decode[OF this, of "[arc mod 128]" rest]
  obtain n where n: "\<forall>val. oid_loop val (words (arc_loop (arc div 128) [arc mod 128]) @ rest)
      = oid_loop (val * 128 ^ n + arc div 128) (words [arc mod 128] @ rest)"
    by blast
  with False oid_loop_last[of "arc mod 128" "arc div 128" rest] show ?thesis
    by (simp add: arc_bytes_def del: oid_loop.simps)
qed

lemma arcs_decode:
  "\<forall>a\<in>set arcs. 0 \<le> a \<Longrightarrow> oid_loop 0 (words (concat (map arc_bytes arcs))) = map nat arcs"
  by (induction arcs) (auto simp: arc_bytes_decode)

lemma arcs_octets: "\<forall>a\<in>set arcs. 0 \<le> a \<Longrightarrow> octets (concat (map arc_bytes arcs))"
  by (induction arcs) (auto simp: arc_bytes_octets)

lemma arc_loop_length: "0 \<le> arc \<Longrightarrow> arc < 128 ^ k \<Longrightarrow> length (arc_loop arc chunk) \<le> k + length chunk"
proof (induction arc chunk arbitrary: k rule: arc_loop.induct)
  case (1 arc chunk)
  show ?case
  proof (cases "arc > 0")
    case True
    with "1.prems" obtain j where k: "k = Suc j" by (cases k) auto
    with "1.prems" have "0 \<le> arc div 128" "arc div 128 < 128 ^ j"
      by (auto simp: pos_imp_zdiv_nonneg_iff)
    from "1.IH"[OF True this] True k show ?thesis by (subst arc_loop.simps) simp
  next
    case False
    then show ?thesis by (subst arc_loop.simps) simp
  qed
qed

lemma arc_bytes_length: "0 \<le> arc \<Longrightarrow> arc < 128 ^ Suc k \<Longrightarrow> length (arc_bytes arc) \<le> Suc k"
  using arc_loop_length[of "arc div 128" k "[arc mod 128]"]
  by (auto simp: arc_bytes_def pos_imp_zdiv_nonneg_iff)

lemma oid_loop_length:
  "0 \<le> val \<Longrightarrow> val < 128 ^ j \<Longrightarrow>
   length (concat (map arc_bytes (map int (oid_loop val bs)))) \<le> j + length bs"
proof (induction val bs arbitrary: j rule: oid_loop.induct)
  case (1 val)
  then show ?case by simp
next
  case (2 val b bs)
  let ?v = "val * 128 + uint b mod 128"
  have v: "0 \<le> ?v" "?v < 128 ^ Suc j"
  proof -
    show "0 \<le> ?v" using "2.prems" by simp
    have "?v \<le> (128 ^ j - 1) * 128 + uint b mod 128" using "2.prems" by simp
    also have "\<dots> < 128 ^ Suc j" by (simp add: left_diff_distrib)
    finally show "?v < 128 ^ Suc j" .
  qed
  show ?case
  proof (cases "bit b 7")
    case True
    with "2.IH"(2)[OF refl] v show ?thesis by fastforce
  next
    case False
    have "length (arc_bytes ?v) \<le> Suc j" by (rule arc_bytes_length[OF v])
    moreover have "length (concat (map arc_bytes (map int (oid_loop 0 bs)))) \<le> 0 + length bs"
      using False by (intro "2.IH"(1)[OF refl]) auto
    ultimately show ?thesis using False v(1) by (simp add: Let_def)
  qed
qed

definition oid_body :: "int list \<Rightarrow> int list" where
  "oid_body arcs = (40 * hd arcs + hd (tl arcs)) # concat (map arc_bytes (tl (tl arcs)))"

lemma encode_oid_dotted: "ns \<noteq> [] \<Longrightarrow> encode_oid (dotted ns) = encode_arcs (map int ns)"
proof -
  assume "ns \<noteq> []"
  moreover have "mapE py_int (map nat_str ns) = Inr (map int ns)"
    by (induction ns) auto
  ultimately show ?thesis by (simp add: encode_oid_def split_dotted)
qed

lemma encode_arcs_body:
  assumes "40 * a + b < 256" and "length (oid_body (map int (a # b # rest))) \<le> n"
    and "int n < 256 ^ 127"
  shows "\<exists>bs. encode_arcs (map int (a # b # rest)) = Inr bs \<and>
     encode_tlv 0x06 (words (oid_body (map int (a # b # rest)))) = Inr bs"
proof -
  let ?b = "oid_body (map int (a # b # rest))"
  have o: "octets ?b"
    using assms(1) arcs_octets[of "map int rest"] by (simp add: oid_body_def)
  then have "mk_bytes ?b = Inr (words ?b)" by simp
  then have "encode_arcs (map int (a # b # rest)) = encode_tlv 0x06 (words ?b)"
    by (simp add: encode_arcs_def oid_body_def)
  moreover have "\<exists>bs. encode_tlv 0x06 (words ?b) = Inr bs"
    using assms(2,3) by (intro encode_tlv_total) auto
  ultimately show ?thesis by auto
qed

lemma decode_oid_body:
  assumes "40 * a + b < 256" and "length (oid_body (map int (a # b # rest))) \<le> max_oid_bytes"
  shows "decode_oid (words (oid_body (map int (a # b # rest)))) =
    dotted ((40 * a + b) div 40 # (40 * a + b) mod 40 # rest)"
proof -
  have u: "uint (word_of_int (40 * int a + int b) :: 8 word) = int (40 * a + b)"
    using assms(1) uint_octet[of "40 * int a + int b"] by simp
  have "oid_loop 0 (words (concat (map arc_bytes (map int rest)))) = rest"
    using arcs_decode[of "map int rest"] by (simp add: o_def)
  moreover have "nat (int (40 * a + b) div 40) = (40 * a + b) div 40"
    "nat (int (40 * a + b) mod 40) = (40 * a + b) mod 40"
    by (simp_all add: nat_div_distrib nat_mod_distrib del: of_nat_add)
  ultimately show ?thesis
    using assms(2) u by (simp add: decode_oid_def oid_body_def del: of_int_add of_nat_add)
qed

lemma decode_oid_reencode:
  assumes "decode_oid body \<noteq> ''''"
  shows "\<exists>ns bs b. decode_oid body = dotted ns \<and> 2 \<le> length ns \<and>
    encode_oid (decode_oid body) = Inr bs \<and> encode_tlv 0x06 b = Inr bs \<and>
    length b \<le> length body \<and> decode_oid b = decode_oid body"
proof -
  from assms obtain f r where body: "body = f # r" "length body \<le> max_oid_bytes"
    by (auto simp: decode_oid_def split: list.splits if_splits)
  let ?a = "nat (uint f div 40)" and ?b = "nat (uint f mod 40)" and ?r = "oid_loop 0 r"
  let ?ns = "?a # ?b # ?r"
  have d: "decode_oid body = dotted ?ns" using body by (simp add: decode_oid_def)
  have "0 \<le> uint f" "uint f < 256" using uint_byte by auto
  then have f: "40 * ?a + ?b = nat (uint f)" by (simp add: nat_div_distrib nat_mod_distrib)
  have "unat f < 256" using unsigned_less[of f] by simp
  with f have lt: "40 * ?a + ?b < 256" by simp
  have "length (concat (map arc_bytes (map int ?r))) \<le> 0 + length r"
    by (rule oid_loop_length) auto
  then have l: "length (oid_body (map int ?ns)) \<le> length body"
    using body(1) by (simp add: oid_body_def)
  with body(2) have l2: "length (oid_body (map int ?ns)) \<le> max_oid_bytes" by simp
  have lim: "int max_oid_bytes < 256 ^ 127" by (simp add: max_oid_bytes_def)
  obtain bs where bs: "encode_arcs (map int ?ns) = Inr bs"
    "encode_tlv 0x06 (words (oid_body (map int ?ns))) = Inr bs"
    using encode_arcs_body[OF lt l2 lim] by blast
  have "decode_oid (words (oid_body (map int ?ns))) = dotted ?ns"
    unfolding decode_oid_body[OF lt l2] f
    using \<open>0 \<le> uint f\<close> by (simp add: nat_div_distrib nat_mod_distrib)
  with d bs l show ?thesis
    using encode_oid_dotted[of ?ns]
    by (intro exI[of _ ?ns] exI[of _ bs] exI[of _ "words (oid_body (map int ?ns))"]) simp
qed

subsection \<open>Properties of the codec\<close>

lemma decode_length_positive: "decode_length data pos = Inr (len, n) \<Longrightarrow> 1 \<le> n"
  using decode_length_bounds by blast

lemma decode_tlv_header:
  assumes "decode_tlv data pos = Inr (tag, val, nxt)"
  shows "\<exists>h. 2 \<le> length h \<and> drop pos data = h @ val @ drop nxt data"
proof -
  obtain h where h: "data = take pos data @ h @ val @ drop nxt data"
    "nxt = pos + length h + length val" using decode_tlv_inside[OF assms] by blast
  have "pos < nxt" "nxt \<le> length data" using decode_tlv_progress[OF assms] by auto
  then have "drop pos (take pos data @ h @ val @ drop nxt data) = h @ val @ drop nxt data" by simp
  with h(1) have d: "drop pos data = h @ val @ drop nxt data" by metis
  from assms obtain len lsize where "decode_length data (pos + 1) = Inr (len, lsize)"
    and n: "nxt = pos + 1 + lsize + nat len" "length val = nat len"
    by (auto simp: decode_tlv_def Let_def split: if_splits dest: decode_length_bounds)
  then have "1 \<le> lsize" by (blast dest: decode_length_positive)
  with n h(2) have "2 \<le> length h" by simp
  with d show ?thesis by blast
qed

lemma parses_partition:
  "parses tlv_at body pos items \<Longrightarrow>
   \<exists>hs. length hs = length items \<and> (\<forall>h\<in>set hs. 2 \<le> length h) \<and>
     drop pos body = concat (map2 (\<lambda>h tv. h @ snd tv) hs items)"
proof (induction rule: parses.induct)
  case (parses_end pos)
  then show ?case by (auto intro: exI[of _ "[]"])
next
  case (parses_item pos t nxt ts)
  from parses_item.hyps(2) obtain tag val where t: "t = (tag, val)"
    and d: "decode_tlv body pos = Inr (tag, val, nxt)" by (auto simp: tlv_at_def)
  from parses_item.IH obtain hs where hs: "length hs = length ts" "\<forall>h\<in>set hs. 2 \<le> length h"
    "drop nxt body = concat (map2 (\<lambda>h tv. h @ snd tv) hs ts)" by blast
  from decode_tlv_header[OF d] obtain h where "2 \<le> length h" "drop pos body = h @ val @ drop nxt body"
    by blast
  with hs t show ?case by (intro exI[of _ "h # hs"]) simp
qed

text \<open>Encoding a list of tagged values with \<open>encode_tlv\<close> succeeds whenever every tag is a
  byte, and \<open>decode_sequence\<close> on the concatenated encodings returns exactly the list: lengths
  in short and long form are read back, and no record swallows bytes of its neighbour.\<close>
theorem ber_sequence_roundtrip:
  assumes "\<forall>(tag, body)\<in>set items. 0 \<le> tag \<and> tag < 256 \<and> int (length body) < 256 ^ 127"
  shows "\<exists>parts. mapE (\<lambda>(tag, body). encode_tlv tag body) items = Inr parts \<and>
    decode_sequence (concat parts) = Inr items"
proof -
  have "\<exists>parts. mapE (\<lambda>(tag, body). encode_tlv tag body) items = Inr parts"
    using assms by (induction items) (auto dest!: encode_tlv_total)
  moreover have "list_all tlv_ok items" using assms by (auto simp: list_all_iff tlv_ok_def)
  ultimately show ?thesis using decode_sequence_concat by blast
qed

theorem ber_sequence_roundtrip_witness:
  "\<exists>parts. mapE (\<lambda>(tag, body). encode_tlv tag body) [(2, [5]), (0x30, replicate 200 7)] = Inr parts \<and>
    decode_sequence (concat parts) = Inr [(2, [5]), (0x30, replicate 200 7)]"
  by (rule ber_sequence_roundtrip) simp

text \<open>Every integer survives \<open>encode_integer\<close> and the signed read-back, positive, negative
  and zero, and the content octets are the fewest that can hold it (the DER rule): no other
  non-empty byte string that reads as the same integer is shorter.\<close>
theorem ber_integer_roundtrip:
  assumes "\<bar>v\<bar> < 128 * 256 ^ k" and "int k + 1 < 256 ^ 127"
  shows "\<exists>bs body. encode_integer v = Inr bs \<and> decode_tlv bs 0 = Inr (0x02, body, length bs) \<and>
    from_be_signed body = v \<and> length body \<le> k + 1 \<and>
    (\<forall>other. other \<noteq> [] \<and> from_be_signed other = v \<longrightarrow> length body \<le> length other)"
proof -
  let ?b = "words (int_body v)"
  have fit: "length ?b \<le> Suc k" using int_body_fits[of k v] assms(1) by simp
  with assms(2) have small: "int (length ?b) < 256 ^ 127" by simp
  obtain bs where bs: "encode_tlv 0x02 ?b = Inr bs"
    using encode_tlv_total[of "0x02" ?b] small by auto
  have "encode_integer v = Inr bs" using bs int_body_octets by (simp add: encode_integer_def)
  moreover have "decode_tlv bs 0 = Inr (0x02, ?b, length bs)"
    using decode_encode_tlv(1)[OF small bs, of "[]" "[]"] by simp
  ultimately show ?thesis using int_body_value int_body_minimal fit by auto
qed

theorem ber_integer_roundtrip_witness:
  "\<exists>bs body. encode_integer (- 129) = Inr bs \<and> decode_tlv bs 0 = Inr (0x02, body, length bs) \<and>
    from_be_signed body = - 129 \<and> length body \<le> 1 + 1 \<and>
    (\<forall>other. other \<noteq> [] \<and> from_be_signed other = - 129 \<longrightarrow> length body \<le> length other)"
  by (rule ber_integer_roundtrip) simp_all

text \<open>An object identifier given as dotted text encodes and decodes to itself exactly when its
  second arc is below 40.  The first two arcs share one octet, so \<open>40*a+b\<close> must fit a byte, and
  for \<open>b\<close> of 40 or more the decoder's division by 40 reports other arcs than were sent.\<close>
theorem ber_oid_roundtrip:
  assumes "40 * a + b < 256" and "length (oid_body (map int (a # b # rest))) \<le> max_oid_bytes"
  shows "\<exists>bs body. encode_oid (dotted (a # b # rest)) = Inr bs \<and>
    decode_tlv bs 0 = Inr (0x06, body, length bs) \<and>
    (decode_oid body = dotted (a # b # rest) \<longleftrightarrow> b < 40)"
proof -
  define body where "body = words (oid_body (map int (a # b # rest)))"
  have lim: "int max_oid_bytes < 256 ^ 127" by (simp add: max_oid_bytes_def)
  from encode_arcs_body[OF assms lim] obtain bs where bs:
    "encode_arcs (map int (a # b # rest)) = Inr bs" "encode_tlv 0x06 body = Inr bs"
    unfolding body_def by blast
  have "int (length body) \<le> int max_oid_bytes"
    using assms(2) unfolding body_def by (simp only: length_map of_nat_le_iff)
  from le_less_trans[OF this lim] have "int (length body) < 256 ^ 127" .
  from decode_encode_tlv(1)[OF this bs(2), of "[]" "[]"]
  have "decode_tlv bs 0 = Inr (0x06, body, length bs)" by simp
  moreover have dec: "decode_oid body = dotted ((40 * a + b) div 40 # (40 * a + b) mod 40 # rest)"
    unfolding body_def by (rule decode_oid_body[OF assms])
  have "decode_oid body = dotted (a # b # rest) \<longleftrightarrow> b < 40"
  proof
    assume "decode_oid body = dotted (a # b # rest)"
    with dec have "(40 * a + b) div 40 # (40 * a + b) mod 40 # rest = a # b # rest"
      by (intro dotted_inj) auto
    then have "(40 * a + b) mod 40 = b" by simp
    then show "b < 40" by (metis mod_less_divisor zero_less_numeral)
  next
    assume "b < 40"
    then have "(40 * a + b) div 40 = a" "(40 * a + b) mod 40 = b" by auto
    then show "decode_oid body = dotted (a # b # rest)" by (simp only: dec)
  qed
  moreover have "encode_oid (dotted (a # b # rest)) = Inr bs"
    using bs(1) encode_oid_dotted[of "a # b # rest"] by simp
  ultimately show ?thesis by blast
qed

theorem ber_oid_roundtrip_witness:
  "\<exists>bs body. encode_oid (dotted [1, 3, 6, 1, 2]) = Inr bs \<and>
    decode_tlv bs 0 = Inr (0x06, body, length bs) \<and>
    (decode_oid body = dotted [1, 3, 6, 1, 2] \<longleftrightarrow> (3::nat) < 40)"
  by (rule ber_oid_roundtrip) (simp_all add: oid_body_def max_oid_bytes_def arc_bytes_def)

text \<open>On any bytes at all \<open>decode_sequence\<close> returns: either one of the two exceptions its
  callers catch, or a list of records whose headers (two octets at least) and values, laid end to
  end, are the input; it invents no byte, drops none and reads none twice.\<close>
theorem ber_decode_sequence_partition:
  "case decode_sequence body of
     Inl e \<Rightarrow> e \<in> {ValueError, IndexError}
   | Inr items \<Rightarrow> \<exists>hs. length hs = length items \<and> (\<forall>h\<in>set hs. 2 \<le> length h) \<and>
       body = concat (map2 (\<lambda>h tv. h @ snd tv) hs items)"
proof (cases "decode_sequence body")
  case (Inl e)
  then show ?thesis using decode_items_error by (auto simp: decode_sequence_def)
next
  case (Inr items)
  then have "parses tlv_at body 0 items" by (simp add: decode_sequence_def decode_items_parses)
  from parses_partition[OF this] Inr show ?thesis by simp
qed

theorem ber_decode_sequence_partition_witness:
  "case decode_sequence [4, 1, 9, 5] of
     Inl e \<Rightarrow> e \<in> {ValueError, IndexError}
   | Inr items \<Rightarrow> \<exists>hs. length hs = length items \<and> (\<forall>h\<in>set hs. 2 \<le> length h) \<and>
       [4, 1, 9, 5] = concat (map2 (\<lambda>h tv. h @ snd tv) hs items)"
  by (rule ber_decode_sequence_partition)

end
