(* ===== verification/Utf8.thy ===== *)
theory Utf8
  imports Prelude "HOL-Library.Word"
begin

text \<open>
  Strict UTF-8 and Latin-1 as Python's \<open>str.encode\<close> and \<open>bytes.decode\<close> have them, for the
  places where the code moves text through \<open>bytes\<close>.  A text with arbitrary code points is a list
  of naturals; \<open>ustr\<close> embeds the \<^typ>\<open>string\<close> literals.
\<close>

type_synonym utext = "nat list"

definition ustr :: "string \<Rightarrow> utext" where
  "ustr s = map of_char s"

definition scalar :: "nat \<Rightarrow> bool" where
  \<comment> \<open>a code point that UTF-8 can carry: no surrogate, at most \<open>U+10FFFF\<close>\<close>
  "scalar c \<longleftrightarrow> c < 0xD800 \<or> (0xE000 \<le> c \<and> c < 0x110000)"

definition utf8_char :: "nat \<Rightarrow> nat list" where
  "utf8_char c =
     (if c < 0x80 then [c]
      else if c < 0x800 then [0xC0 + c div 64, 0x80 + c mod 64]
      else if c < 0x10000 then [0xE0 + c div 4096, 0x80 + c div 64 mod 64, 0x80 + c mod 64]
      else [0xF0 + c div 262144, 0x80 + c div 4096 mod 64, 0x80 + c div 64 mod 64, 0x80 + c mod 64])"

definition utf8_encode :: "utext \<Rightarrow> 8 word list res" where
  "utf8_encode s = (if list_all scalar s then Inr (map word_of_nat (concat (map utf8_char s)))
                    else Inl UnicodeError)"

definition cont :: "nat \<Rightarrow> bool" where
  "cont b \<longleftrightarrow> 0x80 \<le> b \<and> b \<le> 0xBF"

definition snd3 :: "nat \<Rightarrow> nat \<Rightarrow> bool" where
  \<comment> \<open>the second octet of a three-octet sequence: no overlong form, no surrogate\<close>
  "snd3 a b \<longleftrightarrow> cont b \<and> (a = 0xE0 \<longrightarrow> 0xA0 \<le> b) \<and> (a = 0xED \<longrightarrow> b \<le> 0x9F)"

definition snd4 :: "nat \<Rightarrow> nat \<Rightarrow> bool" where
  "snd4 a b \<longleftrightarrow> cont b \<and> (a = 0xF0 \<longrightarrow> 0x90 \<le> b) \<and> (a = 0xF4 \<longrightarrow> b \<le> 0x8F)"

fun utf8_loop :: "nat list \<Rightarrow> utext option" where
  "utf8_loop [] = Some []"
| "utf8_loop (a # bs) =
     (if a < 0x80 then map_option (Cons a) (utf8_loop bs)
      else if 0xC2 \<le> a \<and> a \<le> 0xDF then
        (case bs of b # r \<Rightarrow>
           if cont b then map_option (Cons ((a - 0xC0) * 64 + (b - 0x80))) (utf8_loop r) else None
         | _ \<Rightarrow> None)
      else if 0xE0 \<le> a \<and> a \<le> 0xEF then
        (case bs of b # c # r \<Rightarrow>
           if snd3 a b \<and> cont c
           then map_option (Cons ((a - 0xE0) * 4096 + (b - 0x80) * 64 + (c - 0x80))) (utf8_loop r)
           else None
         | _ \<Rightarrow> None)
      else if 0xF0 \<le> a \<and> a \<le> 0xF4 then
        (case bs of b # c # d # r \<Rightarrow>
           if snd4 a b \<and> cont c \<and> cont d
           then map_option (Cons ((a - 0xF0) * 262144 + (b - 0x80) * 4096 + (c - 0x80) * 64 + (d - 0x80)))
                  (utf8_loop r)
           else None
         | _ \<Rightarrow> None)
      else None)"

definition utf8_decode :: "8 word list \<Rightarrow> utext option" where
  \<comment> \<open>\<^const>\<open>None\<close> is \<open>UnicodeDecodeError\<close>\<close>
  "utf8_decode bs = utf8_loop (map unat bs)"

definition latin1_decode :: "8 word list \<Rightarrow> utext" where
  "latin1_decode bs = map unat bs"

subsection \<open>White space\<close>

definition u_space :: "nat \<Rightarrow> bool" where
  "u_space c \<longleftrightarrow> 9 \<le> c \<and> c \<le> 13 \<or> 28 \<le> c \<and> c \<le> 32 \<or>
     c \<in> {0x85, 0xa0, 0x1680, 0x2028, 0x2029, 0x202f, 0x205f, 0x3000} \<or> 0x2000 \<le> c \<and> c \<le> 0x200a"

definition u_strip :: "utext \<Rightarrow> utext" where
  "u_strip s = rev (dropWhile u_space (rev (dropWhile u_space s)))"

subsection \<open>Encode, then decode\<close>

lemma utf8_char_small: "scalar c \<Longrightarrow> b \<in> set (utf8_char c) \<Longrightarrow> b < 256"
  by (auto simp: utf8_char_def scalar_def split: if_splits)

lemma utf8_loop3:
  "A < 16 \<Longrightarrow> C < 64 \<Longrightarrow> snd3 (0xE0 + A) (0x80 + B) \<Longrightarrow>
   utf8_loop ([0xE0 + A, 0x80 + B, 0x80 + C] @ r) =
     map_option (Cons (A * 4096 + B * 64 + C)) (utf8_loop r)"
  by (simp add: cont_def)

lemma utf8_loop4:
  "A \<le> 4 \<Longrightarrow> C < 64 \<Longrightarrow> D < 64 \<Longrightarrow> snd4 (0xF0 + A) (0x80 + B) \<Longrightarrow>
   utf8_loop ([0xF0 + A, 0x80 + B, 0x80 + C, 0x80 + D] @ r) =
     map_option (Cons (A * 262144 + B * 4096 + C * 64 + D)) (utf8_loop r)"
  by (simp add: cont_def)

lemma utf8_loop_char:
  assumes "scalar c"
  shows "utf8_loop (utf8_char c @ r) = map_option (Cons c) (utf8_loop r)"
proof -
  consider "c < 0x80" | "0x80 \<le> c" "c < 0x800" | "0x800 \<le> c" "c < 0x10000" | "0x10000 \<le> c"
    by linarith
  then show ?thesis
  proof cases
    case 1
    then show ?thesis by (simp add: utf8_char_def)
  next
    case 2
    then have "2 \<le> c div 64" "c div 64 < 32" by (auto simp: less_mult_imp_div_less)
    moreover have "c mod 64 \<le> 63" using mod_less_divisor[of 64 c] by linarith
    ultimately show ?thesis using 2 by (simp add: utf8_char_def cont_def)
  next
    case 3
    have q: "c div 4096 = c div 64 div 64" by (simp add: div_mult2_eq[symmetric])
    from 3 have hi: "c div 4096 < 16" by (auto simp: less_mult_imp_div_less)
    have m: "c div 64 mod 64 < 64" "c mod 64 < 64" by auto
    have e0: "c div 4096 = 0 \<Longrightarrow> 32 \<le> c div 64 mod 64"
      using 3(1) unfolding q by (simp add: div_eq_0_iff le_div_geq less_eq_div_iff_mult_less_eq)
    have ed: "c div 4096 = 13 \<Longrightarrow> c div 64 mod 64 < 32"
    proof -
      assume d: "c div 4096 = 13"
      then have "c div 64 = 13 * 64 + c div 64 mod 64" unfolding q by (metis mult.commute mult_div_mod_eq)
      moreover have "c < 0xD800"
        using assms d 3 by (auto simp: scalar_def)
      then have "c div 64 < 864" by (auto simp: less_mult_imp_div_less)
      ultimately show ?thesis by linarith
    qed
    have "snd3 (0xE0 + c div 4096) (0x80 + c div 64 mod 64)"
      using m e0 ed by (auto simp: snd3_def cont_def)
    moreover have "c div 4096 * 4096 + c div 64 mod 64 * 64 + c mod 64 = c"
    proof -
      obtain p r1 where p: "c = 64 * p + r1" "c div 64 = p" "c mod 64 = r1"
        by (metis mult_div_mod_eq)
      obtain a r2 where a: "p = 64 * a + r2" "p div 64 = a" "p mod 64 = r2"
        by (metis mult_div_mod_eq)
      have "a * 4096 + r2 * 64 + r1 = c" using p(1) a(1) by simp
      then show ?thesis by (simp only: q p(2,3) a(2,3))
    qed
    moreover have "utf8_char c = [0xE0 + c div 4096, 0x80 + c div 64 mod 64, 0x80 + c mod 64]"
      using 3 by (simp add: utf8_char_def)
    ultimately show ?thesis using utf8_loop3[OF hi m(2)] by (simp only:)
  next
    case 4
    with assms have c: "c < 0x110000" by (simp add: scalar_def)
    obtain p r1 where p: "c = 64 * p + r1" "r1 < 64" "c div 64 = p" "c mod 64 = r1"
      by (metis mod_less_divisor mult_div_mod_eq zero_less_numeral)
    obtain q r2 where q: "p = 64 * q + r2" "r2 < 64" "p div 64 = q" "p mod 64 = r2"
      by (metis mod_less_divisor mult_div_mod_eq zero_less_numeral)
    obtain a r3 where a: "q = 64 * a + r3" "r3 < 64" "q div 64 = a" "q mod 64 = r3"
      by (metis mod_less_divisor mult_div_mod_eq zero_less_numeral)
    have "c div (64 * 64) = q" "c div (64 * (64 * 64)) = a"
      by (simp_all only: div_mult2_eq p(3) q(3) a(3))
    then have d: "c div 4096 = q" "c div 262144 = a" by simp_all
    have "a = 0 \<Longrightarrow> 16 \<le> r3" using p(1,2) q(1,2) a(1) 4 by linarith
    moreover have "a = 4 \<Longrightarrow> r3 < 16" using p(1) q(1) a(1) c by linarith
    ultimately have "snd4 (0xF0 + a) (0x80 + r3)"
      using a(2) by (auto simp: snd4_def cont_def)
    moreover have "a \<le> 4" using p(1) q(1) a(1) c by linarith
    moreover have "a * 262144 + r3 * 4096 + r2 * 64 + r1 = c" using p(1) q(1) a(1) by simp
    moreover have "utf8_char c = [0xF0 + a, 0x80 + r3, 0x80 + r2, 0x80 + r1]"
      using 4 p(3,4) q(4) a(4) d by (simp add: utf8_char_def)
    ultimately show ?thesis using utf8_loop4[OF _ q(2) p(2)] by (simp only:)
  qed
qed

lemma utf8_decode_encode:
  assumes "utf8_encode s = Inr bs"
  shows "utf8_decode bs = Some s"
proof -
  have sc: "list_all scalar s" and bs: "bs = map word_of_nat (concat (map utf8_char s))"
    using assms by (auto simp: utf8_encode_def split: if_splits)
  have "unat (word_of_nat b :: 8 word) = b" if "b \<in> set (concat (map utf8_char s))" for b
    using that sc utf8_char_small by (auto simp: list_all_iff unat_of_nat)
  then have "map (\<lambda>b. unat (word_of_nat b :: 8 word)) (concat (map utf8_char s)) =
      concat (map utf8_char s)"
    by (rule map_idI)
  then have "map unat bs = concat (map utf8_char s)" by (simp add: bs o_def)
  moreover have "utf8_loop (concat (map utf8_char s)) = Some s"
    using sc by (induction s) (auto simp: utf8_loop_char)
  ultimately show ?thesis by (simp add: utf8_decode_def)
qed

lemma utf8_encode_ascii: "list_all (\<lambda>c. c < 128) s \<Longrightarrow> utf8_encode s = Inr (map word_of_nat s)"
proof -
  assume a: "list_all (\<lambda>c. c < 128) s"
  then have "concat (map utf8_char s) = s" by (induction s) (auto simp: utf8_char_def)
  moreover have "list_all scalar s" using a by (auto simp: list_all_iff scalar_def)
  ultimately show ?thesis by (simp add: utf8_encode_def)
qed

end
