(* ===== verification/Snmp.thy ===== *)
theory Snmp
  imports Ber Utf8
begin

text \<open>
  The SNMP client of \<open>server/printers/snmp.py\<close>: requests, the parser for untrusted replies, one
  transaction with its retries, and the table walk.  The network is not under the client's control,
  so it is a parameter: what each receive attempt yields is an arbitrary stream, and the theorems
  hold for every stream.  A Python exception is a value of \<^typ>\<open>pyerr\<close>; the parser's outer
  \<open>except Exception\<close> is the case distinction of \<open>parse_message\<close>.
\<close>

datatype snmp_val = VNone | VInt int | VStr utext

definition GET :: int where "GET = 0xA0"
definition GETNEXT :: int where "GETNEXT = 0xA1"
definition GETRESPONSE :: int where "GETRESPONSE = 0xA2"
definition GETBULK :: int where "GETBULK = 0xA5"
definition SEQUENCE :: int where "SEQUENCE = 0x30"

lemmas snmp_tags = GET_def GETNEXT_def GETRESPONSE_def GETBULK_def SEQUENCE_def

subsection \<open>Requests\<close>

definition varbind :: "string \<Rightarrow> bytes res" where
  "varbind oid = bindE (encode_oid oid) (\<lambda>e. bindE encode_null (\<lambda>n. encode_tlv SEQUENCE (e @ n)))"

definition build_request ::
  "int \<Rightarrow> string list \<Rightarrow> utext \<Rightarrow> int \<Rightarrow> int \<Rightarrow> int \<Rightarrow> int \<Rightarrow> bytes res" where
  "build_request pdu_type oids community version request_id non_repeaters max_repetitions =
     bindE (mapE varbind oids) (\<lambda>vbs.
     bindE (encode_tlv SEQUENCE (concat vbs)) (\<lambda>vb_seq.
     bindE (encode_integer request_id) (\<lambda>rid.
     bindE (encode_integer (if pdu_type = GETBULK then non_repeaters else 0)) (\<lambda>f1.
     bindE (encode_integer (if pdu_type = GETBULK then max_repetitions else 0)) (\<lambda>f2.
     bindE (encode_tlv pdu_type (rid @ f1 @ f2 @ vb_seq)) (\<lambda>pdu.
     bindE (encode_integer version) (\<lambda>ver.
     bindE (utf8_encode community) (\<lambda>comm.
     bindE (encode_octet_string comm) (\<lambda>cs.
     encode_tlv SEQUENCE (ver @ cs @ pdu))))))))))"

subsection \<open>Replies\<close>

definition decode_value :: "int \<Rightarrow> bytes \<Rightarrow> snmp_val" where
  "decode_value tag body =
     (if tag = 0x02 then VInt (if body \<noteq> [] then from_be_signed body else 0)
      else if tag \<in> {0x41, 0x42, 0x43, 0x46} then VInt (if body \<noteq> [] then from_be body else 0)
      else if tag = 0x04 then
        VStr (case utf8_decode body of Some s \<Rightarrow> s | None \<Rightarrow> latin1_decode body)
      else if tag = 0x06 then VStr (if body \<noteq> [] then ustr (decode_oid body) else [])
      else if tag = 0x40 then VStr (ustr (dotted (map unat body)))
      else VNone)"

fun find_first :: "(int \<times> bytes) list \<Rightarrow> int set \<Rightarrow> bytes" where
  "find_first [] wanted = []"
| "find_first ((tag, val) # items) wanted =
     (if tag \<in> wanted then val else find_first items wanted)"

type_synonym reply = "(string, snmp_val) dict"

fun vb_loop :: "(int \<times> bytes) list \<Rightarrow> reply \<Rightarrow> reply res" where
  "vb_loop [] result = Inr result"
| "vb_loop ((vbtag, vbval) # rest) result =
     (if vbtag \<noteq> SEQUENCE then vb_loop rest result
      else bindE (decode_sequence vbval) (\<lambda>fields.
        case fields of
          (t0, b0) # (t1, b1) # _ \<Rightarrow>
            if t0 \<noteq> 0x06 then vb_loop rest result
            else let oid = decode_oid b0
                 in if oid = '''' then vb_loop rest result
                    else vb_loop rest (dict_set result oid (decode_value t1 b1))
        | _ \<Rightarrow> vb_loop rest result))"

definition parse_body :: "bytes \<Rightarrow> (int option \<times> reply) res" where
  \<comment> \<open>the \<open>try\<close> block of \<open>_parse_message\<close>\<close>
  "parse_body data =
     bindE (decode_tlv data 0) (\<lambda>(tag, msg_body, nxt).
     if tag \<noteq> SEQUENCE then Inr (None, [])
     else bindE (decode_sequence msg_body) (\<lambda>items.
       let pdu_body = find_first items {GET, GETNEXT, GETRESPONSE, GETBULK}
       in if pdu_body = [] then Inr (None, [])
          else bindE (decode_sequence pdu_body) (\<lambda>pdu_items.
            let request_id = (case pdu_items of
                  (t, b) # _ \<Rightarrow> if t = 0x02 then Some (from_be_signed b) else None
                | [] \<Rightarrow> None);
                varbinds_seq = find_first pdu_items {SEQUENCE}
            in if varbinds_seq = [] then Inr (request_id, [])
               else bindE (decode_sequence varbinds_seq) (\<lambda>vbs.
                    bindE (vb_loop vbs []) (\<lambda>result. Inr (request_id, result))))))"

definition parse_message :: "bytes \<Rightarrow> int option \<times> reply" where
  "parse_message data = (case parse_body data of Inl _ \<Rightarrow> (None, []) | Inr r \<Rightarrow> r)"

definition parse_response :: "bytes \<Rightarrow> reply" where
  "parse_response data = snd (parse_message data)"

subsection \<open>One transaction\<close>

text \<open>
  One pass of the retry loop sees either a transport failure (\<open>OSError\<close> from \<open>sendto\<close> or
  \<open>recvfrom\<close>) or a datagram with its source address.  \<open>net i\<close> is what pass \<open>i\<close> sees.
\<close>

datatype udp = NoReply | Datagram string bytes

fun transact_loop :: "nat \<Rightarrow> (nat \<Rightarrow> udp) \<Rightarrow> string \<Rightarrow> int \<Rightarrow> nat \<Rightarrow> reply" where
  "transact_loop 0 net target_ip request_id i = []"
| "transact_loop (Suc left) net target_ip request_id i =
     (case net i of
        NoReply \<Rightarrow> transact_loop left net target_ip request_id (Suc i)
      | Datagram src data \<Rightarrow>
          if src \<noteq> target_ip then transact_loop left net target_ip request_id (Suc i)
          else let (rid, parsed) = parse_message data
               in if rid \<noteq> None \<and> rid \<noteq> Some request_id
                  then transact_loop left net target_ip request_id (Suc i)
                  else parsed)"

definition transact :: "string option \<Rightarrow> (nat \<Rightarrow> udp) \<Rightarrow> int \<Rightarrow> int \<Rightarrow> reply" where
  \<comment> \<open>the first argument is what \<open>gethostbyname\<close> returned, \<^const>\<open>None\<close> for \<open>OSError\<close>\<close>
  "transact resolved net retries request_id =
     (case resolved of
        None \<Rightarrow> []
      | Some target_ip \<Rightarrow> transact_loop (nat (retries + 1)) net target_ip request_id 0)"

definition snmp_get ::
  "string option \<Rightarrow> (nat \<Rightarrow> udp) \<Rightarrow> int \<Rightarrow> string list \<Rightarrow> utext \<Rightarrow> int \<Rightarrow> int \<Rightarrow> reply res" where
  \<comment> \<open>\<open>request_id\<close> is the draw of \<open>_new_request_id\<close>\<close>
  "snmp_get resolved net request_id oids community version retries =
     bindE (build_request GET oids community version request_id 0 0) (\<lambda>pkt.
     Inr (transact resolved net retries request_id))"

subsection \<open>The walk\<close>

definition getbulk_max_repetitions :: int where
  "getbulk_max_repetitions = 25"

definition oid_key :: "string \<Rightarrow> int list res" where
  "oid_key oid = mapE py_int (split_on CHR ''.'' oid)"

definition walk_pdu :: "string \<Rightarrow> utext \<Rightarrow> int \<Rightarrow> int \<Rightarrow> bool \<Rightarrow> int \<Rightarrow> bytes res" where
  "walk_pdu current community version request_id use_getbulk remaining =
     (if use_getbulk
      then build_request GETBULK [current] community version request_id 0
             (min getbulk_max_repetitions remaining)
      else build_request GETNEXT [current] community version request_id 0 0)"

definition starts_with :: "string \<Rightarrow> string \<Rightarrow> bool" where
  "starts_with s p \<longleftrightarrow> take (length p) s = p"

definition under :: "string \<Rightarrow> string \<Rightarrow> bool" where
  "under base_oid oid \<longleftrightarrow> oid = base_oid \<or> starts_with oid (base_oid @ ''.'')"

definition is_newer :: "string \<Rightarrow> string option \<Rightarrow> bool" where
  "is_newer oid next_current =
     (case next_current of
        None \<Rightarrow> True
      | Some c \<Rightarrow> (case bindE (oid_key oid) (\<lambda>a. bindE (oid_key c) (\<lambda>b. Inr (b < a))) of
                    Inl _ \<Rightarrow> False | Inr r \<Rightarrow> r))"

fun row_loop :: "string \<Rightarrow> int \<Rightarrow> reply \<Rightarrow> reply \<Rightarrow> string option \<Rightarrow> bool
    \<Rightarrow> reply \<times> string option \<times> bool" where
  "row_loop base_oid max_rows [] result next_current left_subtree = (result, next_current, left_subtree)"
| "row_loop base_oid max_rows ((oid, val) # rest) result next_current left_subtree =
     (if max_rows \<le> int (length result) then (result, next_current, left_subtree)
      else if under base_oid oid then
        if oid \<in> set (dict_keys result)
        then row_loop base_oid max_rows rest result next_current left_subtree
        else row_loop base_oid max_rows rest (dict_set result oid val)
               (if is_newer oid next_current then Some oid else next_current) left_subtree
      else row_loop base_oid max_rows rest result next_current True)"

lemma row_loop_grows:
  "row_loop base mx parsed result nc left = (result', nc', left') \<Longrightarrow>
   length result \<le> length result' \<and> (nc = None \<and> nc' \<noteq> None \<longrightarrow> length result < length result')"
proof (induction base mx parsed result nc left rule: row_loop.induct)
  case (2 base mx oid val rest result nc left)
  then show ?case
    by (auto simp: length_dict_set split: if_splits)
qed auto

text \<open>
  \<open>query i pkt rid\<close> is the reply of transaction \<open>i\<close> of the walk, \<open>rids i\<close> the request id drawn
  for it.  The loop ends for every \<open>query\<close>: a pass either adds a row or gives up \<open>GETBULK\<close>.
\<close>

function walk_loop ::
  "(nat \<Rightarrow> bytes \<Rightarrow> int \<Rightarrow> reply) \<Rightarrow> (nat \<Rightarrow> int) \<Rightarrow> string \<Rightarrow> utext \<Rightarrow> int \<Rightarrow> int \<Rightarrow>
   nat \<Rightarrow> reply \<Rightarrow> string \<Rightarrow> bool \<Rightarrow> reply res" where
  "walk_loop query rids base_oid community version max_rows i result current use_getbulk =
     (if int (length result) < max_rows
      then bindE (walk_pdu current community version (rids i) use_getbulk
                    (max_rows - int (length result))) (\<lambda>pkt.
        let parsed = query i pkt (rids i)
        in if parsed = []
           then (if use_getbulk
                 then walk_loop query rids base_oid community version max_rows (Suc i) result current False
                 else Inr result)
           else (case row_loop base_oid max_rows parsed result None False of
                   (result', next_current, left_subtree) \<Rightarrow>
                     (case next_current of
                        None \<Rightarrow> Inr result'
                      | Some nxt \<Rightarrow>
                          if left_subtree \<or> nxt = current then Inr result'
                          else walk_loop query rids base_oid community version max_rows (Suc i)
                                 result' nxt use_getbulk)))
      else Inr result)"
  by pat_completeness auto
termination
proof (relation "measure (\<lambda>(query, rids, base, comm, ver, mx, i, result, current, bulk).
    2 * nat (mx - int (length result)) + (if bulk then 1 else 0))", goal_cases)
  case 1
  show ?case by simp
qed (auto dest!: row_loop_grows[OF sym])

declare walk_loop.simps [simp del]

definition snmp_walk ::
  "string option \<Rightarrow> (nat \<Rightarrow> nat \<Rightarrow> udp) \<Rightarrow> (nat \<Rightarrow> int) \<Rightarrow> string \<Rightarrow> utext \<Rightarrow> int \<Rightarrow> int \<Rightarrow> int \<Rightarrow> reply res" where
  \<comment> \<open>\<open>net i\<close> is the network during transaction \<open>i\<close>; the packet only leaves the host\<close>
  "snmp_walk resolved net rids base_oid community version retries max_rows =
     walk_loop (\<lambda>i pkt rid. transact resolved (net i) retries rid) rids base_oid community version
       max_rows 0 [] base_oid (version \<noteq> 0)"

subsection \<open>Sessions\<close>

record snmp_session =
  host :: string
  sess_community :: utext
  sess_version :: int
  sess_port :: int
  sess_retries :: int

definition session_get ::
  "(string \<Rightarrow> string option) \<Rightarrow> (nat \<Rightarrow> udp) \<Rightarrow> int \<Rightarrow> snmp_session \<Rightarrow> string list \<Rightarrow> reply res" where
  "session_get gethostbyname net request_id s oids =
     snmp_get (gethostbyname (host s)) net request_id oids (sess_community s) (sess_version s)
       (sess_retries s)"

definition session_walk ::
  "(string \<Rightarrow> string option) \<Rightarrow> (nat \<Rightarrow> nat \<Rightarrow> udp) \<Rightarrow> (nat \<Rightarrow> int) \<Rightarrow> snmp_session \<Rightarrow> string \<Rightarrow> int \<Rightarrow> reply res" where
  "session_walk gethostbyname net rids s base_oid max_rows =
     snmp_walk (gethostbyname (host s)) net rids base_oid (sess_community s) (sess_version s)
       (sess_retries s) max_rows"

subsection \<open>Requests never fail on well-formed arguments, and parse back\<close>

definition byte_cap :: nat where
  "byte_cap = 1000000"

lemma byte_cap_lt: "n \<le> byte_cap \<Longrightarrow> int n < 256 ^ 127"
proof -
  assume "n \<le> byte_cap"
  then have "int n \<le> 1000000" by (simp add: byte_cap_def)
  also have "(1000000::int) < 256 ^ 127" by simp
  finally show ?thesis .
qed

lemma encode_length_le:
  assumes "0 \<le> n" and "n < 256 ^ 127"
  shows "\<exists>bs. encode_length n = Inr bs \<and> length bs \<le> 128"
proof (cases "n < 0x80")
  case True
  with assms show ?thesis by (auto simp: encode_length_def)
next
  case False
  then show ?thesis using encode_length_long[of n] assms by auto
qed

lemma encode_tlv_le:
  assumes "0 \<le> tag" "tag < 256" "length body \<le> byte_cap"
  shows "\<exists>bs. encode_tlv tag body = Inr bs \<and> length bs \<le> 129 + length body"
  using encode_length_le[of "int (length body)"] byte_cap_lt[OF assms(3)] assms
  by (auto simp: encode_tlv_def)

definition int64 :: "int \<Rightarrow> bool" where
  "int64 v \<longleftrightarrow> - (2 ^ 63) \<le> v \<and> v < 2 ^ 63"

lemma encode_integer_le:
  assumes "int64 v"
  shows "\<exists>bs. encode_integer v = Inr bs \<and> length bs \<le> 137"
proof -
  have l: "length (int_body v) \<le> 8"
    using int_body_fits[of 7 v] assms by (simp add: int64_def)
  then have "length (words (int_body v)) \<le> byte_cap" by (simp add: byte_cap_def)
  from encode_tlv_le[OF _ _ this, of 2] l int_body_octets[of v]
  show ?thesis by (auto simp: encode_integer_def)
qed

text \<open>An identifier the client can send and will recognise in the answer.\<close>

definition wire_oid :: "string \<Rightarrow> bool" where
  "wire_oid oid \<longleftrightarrow> (\<exists>ns bs body. oid = dotted ns \<and> 2 \<le> length ns \<and> encode_oid oid = Inr bs \<and>
     encode_tlv 0x06 body = Inr bs \<and> length body \<le> max_oid_bytes \<and> decode_oid body = oid)"

lemma wire_oid_decode: "decode_oid body \<noteq> '''' \<Longrightarrow> wire_oid (decode_oid body)"
proof -
  assume ne: "decode_oid body \<noteq> ''''"
  then have "length body \<le> max_oid_bytes" by (auto simp: decode_oid_def split: list.splits if_splits)
  with decode_oid_reencode[OF ne] show ?thesis unfolding wire_oid_def by (metis le_trans)
qed

lemma wire_oid_dotted:
  assumes "40 * a + b < 256" and "length (oid_body (map int (a # b # rest))) \<le> max_oid_bytes"
    and "b < 40"
  shows "wire_oid (dotted (a # b # rest))"
proof -
  define body where "body = words (oid_body (map int (a # b # rest)))"
  have lim: "int max_oid_bytes < 256 ^ 127" by (simp add: max_oid_bytes_def)
  from encode_arcs_body[OF assms(1,2) lim] obtain bs where bs:
    "encode_arcs (map int (a # b # rest)) = Inr bs" "encode_tlv 0x06 body = Inr bs"
    unfolding body_def by blast
  have len: "length body \<le> max_oid_bytes" using assms(2) unfolding body_def by (simp only: length_map)
  have "(40 * a + b) div 40 = a" "(40 * a + b) mod 40 = b" using assms(3) by auto
  then have d: "decode_oid body = dotted (a # b # rest)"
    unfolding body_def by (simp only: decode_oid_body[OF assms(1,2)])
  have e: "encode_oid (dotted (a # b # rest)) = Inr bs"
    using encode_oid_dotted[of "a # b # rest"] bs(1) by simp
  show ?thesis unfolding wire_oid_def
    using bs(2) len d e by (intro exI[of _ "a # b # rest"] exI[of _ bs] exI[of _ body]) simp
qed

lemma wire_oid_key: "wire_oid oid \<Longrightarrow> \<exists>ks. oid_key oid = Inr ks"
proof -
  assume "wire_oid oid"
  then obtain ns where "oid = dotted ns" "2 \<le> length ns" by (auto simp: wire_oid_def)
  moreover from this have "ns \<noteq> []" by auto
  moreover have "mapE py_int (map nat_str ns) = Inr (map int ns)" by (induction ns) auto
  ultimately show ?thesis by (auto simp: oid_key_def split_dotted)
qed

lemma wire_oid_ne: "wire_oid oid \<Longrightarrow> oid \<noteq> ''''"
  unfolding wire_oid_def by (metis dotted_ne list.size(3) not_numeral_le_zero)

text \<open>The varbind of a request: the identifier and \<open>NULL\<close>, as the parser will see them.\<close>

lemma varbind_wire:
  assumes "wire_oid oid"
  shows "\<exists>bs inner body. varbind oid = Inr bs \<and> encode_tlv SEQUENCE inner = Inr bs \<and>
    decode_sequence inner = Inr [(0x06, body), (0x05, [])] \<and> decode_oid body = oid \<and>
    length inner \<le> 1000 \<and> length bs \<le> 2000"
proof -
  from assms obtain e body where e: "encode_oid oid = Inr e" "encode_tlv 0x06 body = Inr e"
    "length body \<le> max_oid_bytes" "decode_oid body = oid" by (auto simp: wire_oid_def)
  obtain n where n: "encode_null = Inr n" "encode_tlv 0x05 [] = Inr n" "length n \<le> 129"
    using encode_tlv_le[of 5 "[]"] by (auto simp: encode_null_def)
  have le: "length e \<le> 129 + 128"
    using encode_tlv_le[of 6 body] e(2,3) by (auto simp: max_oid_bytes_def byte_cap_def)
  have "list_all tlv_ok [(0x06, body), (0x05, [])]"
    using e(3) byte_cap_lt[of "length body"] byte_cap_lt[of 0]
    by (simp add: tlv_ok_def max_oid_bytes_def byte_cap_def)
  from decode_sequence_concat[OF this, of "[e, n]"] e(2) n(2)
  have "decode_sequence (e @ n) = Inr [(0x06, body), (0x05, [])]" by simp
  moreover have len: "length (e @ n) \<le> 1000" using le n(3) by simp
  moreover obtain bs where bs: "encode_tlv SEQUENCE (e @ n) = Inr bs" "length bs \<le> 129 + length (e @ n)"
    using encode_tlv_le[of SEQUENCE "e @ n"] len by (auto simp: SEQUENCE_def byte_cap_def)
  moreover have "varbind oid = Inr bs" unfolding varbind_def e(1) n(1) using bs(1) by simp
  ultimately show ?thesis using e(4) by (intro exI[of _ bs] exI[of _ "e @ n"] exI[of _ body]) simp
qed

lemma varbinds_wire:
  assumes "list_all wire_oid oids"
  shows "\<exists>vbs inners. mapE varbind oids = Inr vbs \<and> mapE (\<lambda>(t, b). encode_tlv t b) (map (Pair SEQUENCE) inners) = Inr vbs \<and>
    list_all2 (\<lambda>oid inner. \<exists>body. decode_sequence inner = Inr [(0x06, body), (0x05, [])] \<and> decode_oid body = oid)
       oids inners \<and> list_all (\<lambda>b. length b \<le> 1000) inners \<and> length (concat vbs) \<le> 2000 * length oids"
  using assms
proof (induction oids)
  case Nil
  show ?case by (intro exI[of _ "[]"]) simp
next
  case (Cons oid oids)
  then obtain vbs inners where IH: "mapE varbind oids = Inr vbs"
    "mapE (\<lambda>(t, b). encode_tlv t b) (map (Pair SEQUENCE) inners) = Inr vbs"
    "list_all2 (\<lambda>oid inner. \<exists>body. decode_sequence inner = Inr [(0x06, body), (0x05, [])] \<and> decode_oid body = oid)
       oids inners" "list_all (\<lambda>b. length b \<le> 1000) inners" "length (concat vbs) \<le> 2000 * length oids"
    by auto
  from Cons.prems varbind_wire[of oid] obtain bs inner body where h: "varbind oid = Inr bs"
    "encode_tlv SEQUENCE inner = Inr bs" "decode_sequence inner = Inr [(0x06, body), (0x05, [])]"
    "decode_oid body = oid" "length inner \<le> 1000" "length bs \<le> 2000" by auto
  from IH h show ?case by (intro exI[of _ "bs # vbs"] exI[of _ "inner # inners"]) auto
qed

lemma vb_loop_request:
  assumes "list_all2 (\<lambda>oid inner. \<exists>body. decode_sequence inner = Inr [(0x06, body), (0x05, [])] \<and> decode_oid body = oid)
       oids inners" and "list_all wire_oid oids"
    and "distinct (dict_keys acc @ oids)"
  shows "vb_loop (map (Pair SEQUENCE) inners) acc = Inr (acc @ map (\<lambda>oid. (oid, VNone)) oids)"
  using assms
proof (induction oids inners arbitrary: acc rule: list_all2_induct)
  case Nil
  then show ?case by simp
next
  case (Cons oid oids inner inners)
  then obtain body where b: "decode_sequence inner = Inr [(0x06, body), (0x05, [])]" "decode_oid body = oid"
    by auto
  have new: "dict_set acc oid VNone = acc @ [(oid, VNone)]"
    using Cons.prems(2) by (intro dict_set_new) auto
  have "vb_loop (map (Pair SEQUENCE) inners) (acc @ [(oid, VNone)]) =
      Inr ((acc @ [(oid, VNone)]) @ map (\<lambda>oid. (oid, VNone)) oids)"
    using Cons.prems by (intro Cons.IH) auto
  with b new Cons.prems(1) show ?case
    by (auto simp: decode_value_def Let_def dest: wire_oid_ne)
qed

definition request_ok :: "int \<Rightarrow> string list \<Rightarrow> utext \<Rightarrow> int \<Rightarrow> int \<Rightarrow> int \<Rightarrow> int \<Rightarrow> bool" where
  "request_ok pdu oids comm ver rid nr mr \<longleftrightarrow>
     pdu \<in> {GET, GETNEXT, GETRESPONSE, GETBULK} \<and> list_all wire_oid oids \<and> distinct oids \<and>
     length oids \<le> 100 \<and> list_all scalar comm \<and> length comm \<le> 1000 \<and>
     int64 ver \<and> int64 rid \<and> int64 nr \<and> int64 mr"

lemma utf8_length: "utf8_encode s = Inr bs \<Longrightarrow> length bs \<le> 4 * length s"
proof -
  assume "utf8_encode s = Inr bs"
  then have "length bs = length (concat (map utf8_char s))"
    by (auto simp: utf8_encode_def split: if_splits)
  also have "\<dots> \<le> 4 * length s" by (induction s) (auto simp: utf8_char_def)
  finally show ?thesis .
qed

lemma build_request_parts:
  assumes "request_ok pdu oids comm ver rid nr mr"
  shows "\<exists>pkt msg pdu_body vseq ver_b comm_b i2 i3 rid_b inners.
    build_request pdu oids comm ver rid nr mr = Inr pkt \<and>
    encode_tlv SEQUENCE msg = Inr pkt \<and> length msg \<le> byte_cap \<and>
    decode_sequence msg = Inr [(0x02, ver_b), (0x04, comm_b), (pdu, pdu_body)] \<and> pdu_body \<noteq> [] \<and>
    decode_sequence pdu_body = Inr [(0x02, rid_b), (0x02, i2), (0x02, i3), (SEQUENCE, vseq)] \<and>
    from_be_signed rid_b = rid \<and> (vseq = [] \<longleftrightarrow> oids = []) \<and>
    decode_sequence vseq = Inr (map (Pair SEQUENCE) inners) \<and>
    vb_loop (map (Pair SEQUENCE) inners) [] = Inr (map (\<lambda>oid. (oid, VNone)) oids)"
proof -
  note ok = assms[unfolded request_ok_def]
  have pdu: "0 \<le> pdu" "pdu < 256" using ok by (auto simp: snmp_tags)
  obtain vbs inners where v: "mapE varbind oids = Inr vbs"
    "mapE (\<lambda>(t, b). encode_tlv t b) (map (Pair SEQUENCE) inners) = Inr vbs"
    "list_all2 (\<lambda>oid inner. \<exists>body. decode_sequence inner = Inr [(0x06, body), (0x05, [])] \<and> decode_oid body = oid)
       oids inners" "list_all (\<lambda>b. length b \<le> 1000) inners" "length (concat vbs) \<le> 2000 * length oids"
    using varbinds_wire ok by blast
  have int_ok: "\<exists>body bs. encode_integer w = Inr bs \<and> encode_tlv 0x02 body = Inr bs \<and>
      from_be_signed body = w \<and> length body \<le> 8 \<and> length bs \<le> 137" if w: "int64 w" for w
  proof -
    have "length (int_body w) \<le> 8" using int_body_fits[of 7 w] w by (simp add: int64_def)
    moreover obtain bs where bs: "encode_integer w = Inr bs" "length bs \<le> 137"
      using encode_integer_le[OF w] by blast
    moreover have "encode_tlv 0x02 (words (int_body w)) = Inr bs"
      using bs(1) int_body_octets[of w] by (simp add: encode_integer_def)
    ultimately show ?thesis
      using int_body_value[of w] by (intro exI[of _ "words (int_body w)"] exI[of _ bs]) simp
  qed
  let ?f1 = "if pdu = GETBULK then nr else 0" and ?f2 = "if pdu = GETBULK then mr else 0"
  have i64: "int64 rid" "int64 ?f1" "int64 ?f2" "int64 ver" using ok by (auto simp: int64_def)
  obtain rid_b r where r: "encode_integer rid = Inr r" "encode_tlv 0x02 rid_b = Inr r"
    "from_be_signed rid_b = rid" "length rid_b \<le> 8" "length r \<le> 137" using int_ok[OF i64(1)] by blast
  obtain i2 a where a: "encode_integer ?f1 = Inr a" "encode_tlv 0x02 i2 = Inr a"
    "length i2 \<le> 8" "length a \<le> 137" using int_ok[OF i64(2)] by blast
  obtain i3 b where b: "encode_integer ?f2 = Inr b" "encode_tlv 0x02 i3 = Inr b"
    "length i3 \<le> 8" "length b \<le> 137" using int_ok[OF i64(3)] by blast
  obtain ver_b vr where vr: "encode_integer ver = Inr vr" "encode_tlv 0x02 ver_b = Inr vr"
    "length ver_b \<le> 8" "length vr \<le> 137" using int_ok[OF i64(4)] by blast
  have len_v: "length (concat vbs) \<le> 200000" using v(5) ok by simp
  obtain vs where vs: "encode_tlv SEQUENCE (concat vbs) = Inr vs" "length vs \<le> 129 + length (concat vbs)"
    using encode_tlv_le[of SEQUENCE "concat vbs"] len_v by (auto simp: SEQUENCE_def byte_cap_def)
  define body where "body = r @ a @ b @ vs"
  have len_b: "length body \<le> 201000" using r a b vs(2) len_v by (simp add: body_def)
  obtain p where p: "encode_tlv pdu body = Inr p" "length p \<le> 129 + length body"
    using encode_tlv_le[OF pdu, of body] len_b by (auto simp: byte_cap_def)
  obtain c where c: "utf8_encode comm = Inr c" using ok by (auto simp: utf8_encode_def)
  have len_c: "length c \<le> 4000" using utf8_length[OF c] ok by simp
  obtain cs where cs: "encode_tlv 0x04 c = Inr cs" "length cs \<le> 129 + length c"
    using encode_tlv_le[of 4 c] len_c by (auto simp: byte_cap_def)
  define msg where "msg = vr @ cs @ p"
  have len_m: "length msg \<le> byte_cap"
    using vr cs(2) p(2) len_c len_b by (simp add: msg_def byte_cap_def)
  obtain pkt where pkt: "encode_tlv SEQUENCE msg = Inr pkt"
    using encode_tlv_le[OF _ _ len_m, of SEQUENCE] by (auto simp: SEQUENCE_def)
  have capped: "tlv_ok (t, x)" if "length x \<le> byte_cap" for t :: int and x
    using byte_cap_lt[OF that] by (simp add: tlv_ok_def)
  have "decode_sequence msg = Inr [(0x02, ver_b), (0x04, c), (pdu, body)]"
    using decode_sequence_concat[of "[(0x02, ver_b), (0x04, c), (pdu, body)]" "[vr, cs, p]"]
      vr cs p len_c len_b by (simp add: capped byte_cap_def msg_def)
  moreover have "decode_sequence body = Inr [(0x02, rid_b), (0x02, i2), (0x02, i3), (SEQUENCE, concat vbs)]"
    using decode_sequence_concat[of "[(0x02, rid_b), (0x02, i2), (0x02, i3), (SEQUENCE, concat vbs)]" "[r, a, b, vs]"]
      r a b vs len_v by (simp add: capped byte_cap_def body_def)
  moreover have "decode_sequence (concat vbs) = Inr (map (Pair SEQUENCE) inners)"
    using v(2,4) by (intro decode_sequence_concat)
      (auto simp: list_all_iff byte_cap_def intro!: capped)
  moreover have "vb_loop (map (Pair SEQUENCE) inners) [] = Inr (map (\<lambda>oid. (oid, VNone)) oids)"
    using vb_loop_request[OF v(3), of "[]"] ok by simp
  moreover have "body \<noteq> []" using decode_encode_tlv(2)[OF _ r(2)] byte_cap_lt[of "length rid_b"] r(4)
    by (auto simp: body_def byte_cap_def)
  moreover have "concat vbs = [] \<longleftrightarrow> oids = []"
  proof
    assume "concat vbs = []"
    then have "decode_sequence (concat vbs) = Inr []"
      by (simp add: decode_sequence_def decode_items.simps)
    with \<open>decode_sequence (concat vbs) = Inr (map (Pair SEQUENCE) inners)\<close> have "inners = []" by simp
    with v(3) show "oids = []" by simp
  next
    assume "oids = []"
    with v(1) show "concat vbs = []" by simp
  qed
  moreover have "build_request pdu oids comm ver rid nr mr = Inr pkt"
    unfolding build_request_def v(1) bindE.simps vs(1) r(1) a(1) b(1)
      body_def[symmetric] p(1) vr(1) c encode_octet_string_def cs(1) msg_def[symmetric] pkt by simp
  ultimately show ?thesis using pkt len_m r(3)
    by blast
qed

lemma build_request_total:
  "request_ok pdu oids comm ver rid nr mr \<Longrightarrow> \<exists>pkt. build_request pdu oids comm ver rid nr mr = Inr pkt"
  using build_request_parts by blast

lemma parse_request:
  assumes "request_ok pdu oids comm ver rid nr mr" and "build_request pdu oids comm ver rid nr mr = Inr pkt"
  shows "parse_message pkt = (Some rid, map (\<lambda>oid. (oid, VNone)) oids)"
proof -
  from build_request_parts[OF assms(1)] assms(2) obtain msg pdu_body vseq ver_b comm_b i2 i3 rid_b inners where
    p: "encode_tlv SEQUENCE msg = Inr pkt" "length msg \<le> byte_cap"
    "decode_sequence msg = Inr [(0x02, ver_b), (0x04, comm_b), (pdu, pdu_body)]" "pdu_body \<noteq> []"
    "decode_sequence pdu_body = Inr [(0x02, rid_b), (0x02, i2), (0x02, i3), (SEQUENCE, vseq)]"
    "from_be_signed rid_b = rid" "vseq = [] \<longleftrightarrow> oids = []"
    "decode_sequence vseq = Inr (map (Pair SEQUENCE) inners)"
    "vb_loop (map (Pair SEQUENCE) inners) [] = Inr (map (\<lambda>oid. (oid, VNone)) oids)"
    by auto
  have "pdu \<in> {GET, GETNEXT, GETRESPONSE, GETBULK}" using assms(1) by (simp add: request_ok_def)
  then have f: "find_first [(0x02, ver_b), (0x04, comm_b), (pdu, pdu_body)]
      {GET, GETNEXT, GETRESPONSE, GETBULK} = pdu_body"
    by (auto simp: snmp_tags)
  have "decode_tlv pkt 0 = Inr (SEQUENCE, msg, length pkt)"
    using decode_encode_tlv(1)[OF byte_cap_lt[OF p(2)] p(1), of "[]" "[]"] by simp
  then have "parse_body pkt = Inr (Some rid, map (\<lambda>oid. (oid, VNone)) oids)"
    using p(3-9) f by (simp add: parse_body_def Let_def) (simp add: snmp_tags)
  then show ?thesis by (simp add: parse_message_def)
qed

subsection \<open>What a parsed reply can hold\<close>

definition wire_reply :: "reply \<Rightarrow> bool" where
  "wire_reply r \<longleftrightarrow> wf_dict r \<and> (\<forall>oid\<in>set (dict_keys r). wire_oid oid)"

lemma wire_reply_Nil [simp]: "wire_reply []"
  by (simp add: wire_reply_def)

lemma wire_reply_set: "wire_reply r \<Longrightarrow> wire_oid oid \<Longrightarrow> wire_reply (dict_set r oid v)"
  using dict_keys_set[of oid v r] by (simp add: wire_reply_def)

lemma vb_loop_step:
  assumes "vb_loop ((vbtag, vbval) # rest) acc = Inr r"
  shows "vb_loop rest acc = Inr r \<or>
    (\<exists>b v. decode_oid b \<noteq> '''' \<and> vb_loop rest (dict_set acc (decode_oid b) v) = Inr r)"
proof (cases "vbtag = SEQUENCE")
  case False
  with assms show ?thesis by simp
next
  case True
  with assms obtain fields where f: "decode_sequence vbval = Inr fields" by auto
  consider "fields = [] \<or> (\<exists>x. fields = [x])" | t0 b0 t1 b1 more where "fields = (t0, b0) # (t1, b1) # more"
    by (cases fields; cases "tl fields") auto
  then show ?thesis
  proof cases
    case 1
    with assms True f show ?thesis by auto
  next
    case 2
    with assms True f show ?thesis by (cases "decode_oid b0 = []"; cases "t0 = 6") (auto simp: Let_def)
  qed
qed

lemma vb_loop_wire: "vb_loop vbs acc = Inr r \<Longrightarrow> wire_reply acc \<Longrightarrow> wire_reply r"
proof (induction vbs arbitrary: acc)
  case Nil
  then show ?case by simp
next
  case (Cons vb rest)
  obtain t v where "vb = (t, v)" by (cases vb)
  with vb_loop_step[of t v rest acc r] Cons show ?case
    by (blast intro: wire_reply_set wire_oid_decode)
qed

lemma parse_message_wire: "wire_reply (snd (parse_message data))"
proof (cases "parse_body data")
  case (Inl e)
  then show ?thesis by (simp add: parse_message_def)
next
  case (Inr r)
  then have "snd r = [] \<or> (\<exists>vbs. vb_loop vbs [] = Inr (snd r))"
    by (auto simp: parse_body_def Let_def split: if_splits)
  then have "wire_reply (snd r)" by (auto intro: vb_loop_wire)
  with Inr show ?thesis by (simp add: parse_message_def)
qed

subsection \<open>Which datagram a transaction accepts\<close>

text \<open>A pass that the retry loop turns down.\<close>

definition rejected :: "string \<Rightarrow> int \<Rightarrow> udp \<Rightarrow> bool" where
  "rejected ip rid u = (case u of NoReply \<Rightarrow> True
     | Datagram src data \<Rightarrow> src \<noteq> ip \<or>
         (fst (parse_message data) \<noteq> None \<and> fst (parse_message data) \<noteq> Some rid))"

lemma transact_loop_cases:
  "(\<exists>k<n. (\<forall>j<k. rejected ip rid (net (i + j))) \<and> \<not> rejected ip rid (net (i + k)) \<and>
      (\<exists>data. net (i + k) = Datagram ip data \<and> transact_loop n net ip rid i = snd (parse_message data)))
   \<or> ((\<forall>j<n. rejected ip rid (net (i + j))) \<and> transact_loop n net ip rid i = [])"
proof (induction n arbitrary: i)
  case 0
  then show ?case by simp
next
  case (Suc n)
  show ?case
  proof (cases "rejected ip rid (net i)")
    case False
    then obtain data where "net i = Datagram ip data"
      "fst (parse_message data) = None \<or> fst (parse_message data) = Some rid"
      by (auto simp: rejected_def split: udp.splits)
    then have "transact_loop (Suc n) net ip rid i = snd (parse_message data)"
      by (auto simp: Let_def split: prod.splits)
    with False \<open>net i = Datagram ip data\<close> show ?thesis by (intro disjI1 exI[of _ 0]) auto
  next
    case True
    then have step: "transact_loop (Suc n) net ip rid i = transact_loop n net ip rid (Suc i)"
      by (auto simp: rejected_def split: udp.splits prod.splits)
    from Suc[of "Suc i"] show ?thesis
    proof
      assume "\<exists>k<n. (\<forall>j<k. rejected ip rid (net (Suc i + j))) \<and> \<not> rejected ip rid (net (Suc i + k)) \<and>
        (\<exists>data. net (Suc i + k) = Datagram ip data \<and>
           transact_loop n net ip rid (Suc i) = snd (parse_message data))"
      then obtain k data where k: "k < n" "\<forall>j<k. rejected ip rid (net (Suc i + j))"
        "\<not> rejected ip rid (net (Suc i + k))" "net (Suc i + k) = Datagram ip data"
        "transact_loop n net ip rid (Suc i) = snd (parse_message data)" by blast
      then show ?thesis using step True
        by (intro disjI1 exI[of _ "Suc k"]) (auto simp: less_Suc_eq_0_disj)
    next
      assume "(\<forall>j<n. rejected ip rid (net (Suc i + j))) \<and> transact_loop n net ip rid (Suc i) = []"
      then show ?thesis using step True by (intro disjI2) (auto simp: less_Suc_eq_0_disj)
    qed
  qed
qed

lemma transact_wire: "wire_reply (transact resolved net retries rid)"
proof (cases resolved)
  case (Some ip)
  from transact_loop_cases[of "nat (retries + 1)" ip rid net 0] parse_message_wire
  have "wire_reply (transact_loop (nat (retries + 1)) net ip rid 0)" by auto
  with Some show ?thesis by (simp add: transact_def)
qed (simp add: transact_def)

subsection \<open>The walk against any agent\<close>

lemma row_loop_inv:
  assumes "row_loop base mx parsed result nc left = (result', nc', left')"
    and "wire_reply result" and "\<forall>oid\<in>set (dict_keys parsed). wire_oid oid"
    and "\<forall>oid\<in>set (dict_keys result). under base oid"
    and "int (length result) \<le> mx" and "\<forall>c. nc = Some c \<longrightarrow> wire_oid c"
  shows "wire_reply result' \<and> (\<forall>oid\<in>set (dict_keys result'). under base oid) \<and>
    int (length result') \<le> mx \<and> (\<forall>c. nc' = Some c \<longrightarrow> wire_oid c)"
  using assms
proof (induction parsed arbitrary: result nc left)
  case Nil
  then show ?case by simp
next
  case (Cons row rest)
  obtain oid val where row: "row = (oid, val)" by (cases row)
  show ?case
  proof (cases "mx \<le> int (length result)")
    case True
    with Cons.prems row show ?thesis by simp
  next
    case room: False
    show ?thesis
    proof (cases "under base oid \<and> oid \<notin> set (dict_keys result)")
      case False
      then have "row_loop base mx rest result nc (left \<or> \<not> under base oid) = (result', nc', left')"
        using Cons.prems(1) room row by (auto split: if_splits)
      then show ?thesis using Cons.prems by (intro Cons.IH) auto
    next
      case True
      have "\<forall>k\<in>set (dict_keys (dict_set result oid val)). under base k"
        using True Cons.prems(4) dict_keys_set[of oid val result] by simp
      moreover have "wire_reply (dict_set result oid val)"
        using Cons.prems(2,3) row by (intro wire_reply_set) auto
      moreover have "int (length (dict_set result oid val)) \<le> mx"
        using room True by (simp add: length_dict_set)
      moreover have "row_loop base mx rest (dict_set result oid val)
          (if is_newer oid nc then Some oid else nc) left = (result', nc', left')"
        using Cons.prems(1) room row True by simp
      moreover have "\<forall>k\<in>set (dict_keys rest). wire_oid k" "wire_oid oid"
        using Cons.prems(3) row by auto
      moreover have "\<forall>c. (if is_newer oid nc then Some oid else nc) = Some c \<longrightarrow> wire_oid c"
        using Cons.prems(3,6) row by auto
      ultimately show ?thesis
        by (intro Cons.IH[of "dict_set result oid val" "if is_newer oid nc then Some oid else nc" left])
    qed
  qed
qed

lemma walk_pdu_total:
  assumes "wire_oid current" and "list_all scalar comm" "length comm \<le> 1000" and "int64 ver"
    and "int64 rid" and "0 \<le> remaining"
  shows "\<exists>pkt. walk_pdu current comm ver rid bulk remaining = Inr pkt"
proof -
  have "int64 (min getbulk_max_repetitions remaining)" "int64 0"
    using assms(6) by (auto simp: int64_def getbulk_max_repetitions_def)
  then show ?thesis using assms
    unfolding walk_pdu_def by (auto intro!: build_request_total simp: request_ok_def)
qed

text \<open>
  What the walk needs of the transaction it is built on: every key of a reply is an identifier
  that can be sent again.  The laws of the walk are proved from that alone.
\<close>

locale snmp_agent =
  fixes query :: "nat \<Rightarrow> bytes \<Rightarrow> int \<Rightarrow> reply"
  assumes query_wire: "wire_reply (query i pkt rid)"
begin

lemma walk_loop_ok:
  assumes "wire_oid current" and "list_all scalar comm" "length comm \<le> 1000" and "int64 ver"
    and "\<forall>j. int64 (rids j)" and "wire_reply result" and "int (length result) \<le> mx"
    and "\<forall>oid\<in>set (dict_keys result). under base oid"
  shows "\<exists>r. walk_loop query rids base comm ver mx i result current bulk = Inr r \<and>
    wire_reply r \<and> int (length r) \<le> mx \<and> (\<forall>oid\<in>set (dict_keys r). under base oid)"
  using assms
proof (induction "2 * nat (mx - int (length result)) + (if bulk then 1 else 0)"
    arbitrary: i result current bulk rule: less_induct)
  case less
  show ?case
  proof (cases "int (length result) < mx")
    case False
    then show ?thesis using less.prems by (subst walk_loop.simps) simp
  next
    case room: True
    obtain pkt where pkt: "walk_pdu current comm ver (rids i) bulk (mx - int (length result)) = Inr pkt"
      using walk_pdu_total[OF less.prems(1-4), of "rids i" "mx - int (length result)" bulk]
        less.prems(5) room by auto
    let ?parsed = "query i pkt (rids i)"
    have parsed: "\<forall>oid\<in>set (dict_keys ?parsed). wire_oid oid" using query_wire by (simp add: wire_reply_def)
    show ?thesis
    proof (cases "?parsed = []")
      case True
      show ?thesis
      proof (cases bulk)
        case False
        with room pkt True less.prems show ?thesis by (subst walk_loop.simps) simp
      next
        case bulk: True
        have "walk_loop query rids base comm ver mx i result current bulk =
            walk_loop query rids base comm ver mx (Suc i) result current False"
          using room pkt True bulk by (subst walk_loop.simps) simp
        then show ?thesis using less.hyps[of result False current "Suc i"] less.prems bulk by simp
      qed
    next
      case False
      obtain result' nc left where rl: "row_loop base mx ?parsed result None False = (result', nc, left)"
        by (cases "row_loop base mx ?parsed result None False") auto
      have inv: "wire_reply result' \<and> (\<forall>oid\<in>set (dict_keys result'). under base oid) \<and>
          int (length result') \<le> mx \<and> (\<forall>c. nc = Some c \<longrightarrow> wire_oid c)"
        using less.prems parsed by (intro row_loop_inv[OF rl]) auto
      show ?thesis
      proof (cases "left \<or> nc = None \<or> nc = Some current")
        case True
        then have "walk_loop query rids base comm ver mx i result current bulk = Inr result'"
          using room pkt \<open>?parsed \<noteq> []\<close> rl by (subst walk_loop.simps) (auto split: option.split)
        with inv show ?thesis by simp
      next
        case False
        then obtain nxt where nxt: "nc = Some nxt" "nxt \<noteq> current" "\<not> left" by auto
        have "walk_loop query rids base comm ver mx i result current bulk =
            walk_loop query rids base comm ver mx (Suc i) result' nxt bulk"
          using room pkt \<open>?parsed \<noteq> []\<close> rl nxt by (subst walk_loop.simps) simp
        moreover have "length result < length result'" using row_loop_grows[OF rl] nxt(1) by simp
        ultimately show ?thesis
          using less.hyps[of result' bulk nxt "Suc i"] less.prems(2-5) inv nxt(1) room by simp
      qed
    qed
  qed
qed

text \<open>Two agents that answer the first \<open>n\<close> transactions alike lead to the same walk, for \<open>n\<close> one
  more than the rows still wanted: the walk never asks more often.\<close>

lemma walk_loop_queries:
  assumes "\<And>j pkt rid. j < i + nat (mx - int (length result)) + (if bulk then 1 else 0) \<Longrightarrow>
      query' j pkt rid = query j pkt rid"
  shows "walk_loop query' rids base comm ver mx i result current bulk =
    walk_loop query rids base comm ver mx i result current bulk"
  using assms
proof (induction "2 * nat (mx - int (length result)) + (if bulk then 1 else 0)"
    arbitrary: i result current bulk rule: less_induct)
  case less
  show ?case
  proof (cases "int (length result) < mx")
    case False
    then show ?thesis by (subst (1 2) walk_loop.simps) simp
  next
    case room: True
    show ?thesis
    proof (cases "walk_pdu current comm ver (rids i) bulk (mx - int (length result))")
      case (Inl e)
      with room show ?thesis by (subst (1 2) walk_loop.simps) simp
    next
      case (Inr pkt)
      have same: "query' i pkt (rids i) = query i pkt (rids i)" using room by (intro less.prems) simp
      obtain result' nc left where rl:
        "row_loop base mx (query i pkt (rids i)) result None False = (result', nc, left)"
        by (cases "row_loop base mx (query i pkt (rids i)) result None False") auto
      have 1: "walk_loop query' rids base comm ver mx (Suc i) result current False =
          walk_loop query rids base comm ver mx (Suc i) result current False" if bulk
        using that by (intro less.hyps less.prems) auto
      have 2: "walk_loop query' rids base comm ver mx (Suc i) result' nxt bulk =
          walk_loop query rids base comm ver mx (Suc i) result' nxt bulk" if "nc = Some nxt" for nxt
      proof -
        have "length result < length result'" using row_loop_grows[OF rl] that by simp
        then show ?thesis using room by (intro less.hyps less.prems) auto
      qed
      show ?thesis
        using room Inr same rl 1 2
        by (subst (1 2) walk_loop.simps) (auto simp: Let_def split: option.split)
    qed
  qed
qed

end

interpretation agent: snmp_agent "\<lambda>i pkt rid. transact resolved (net i) retries rid"
  for resolved net retries
  by unfold_locales (rule transact_wire)

subsection \<open>Properties\<close>

lemma wire_oid_1361: "wire_oid ''1.3.6.1''"
proof -
  have "oid_body (map int [1, 3, 6, 1]) = [43, 6, 1]" by (simp add: oid_body_def arc_bytes_def)
  then have "wire_oid (dotted [1, 3, 6, 1])" by (intro wire_oid_dotted) (simp_all add: max_oid_bytes_def)
  moreover have "dotted [1, 3, 6, 1] = ''1.3.6.1''" by code_simp
  ultimately show ?thesis by simp
qed

text \<open>What \<open>build_request\<close> sends is what \<open>_parse_message\<close> reads: a request for distinct
  identifiers succeeds, and parsing the packet gives back the request id and, in order, each
  identifier with no value.\<close>
theorem snmp_request_roundtrip:
  assumes "request_ok pdu oids comm ver rid nr mr"
  shows "\<exists>pkt. build_request pdu oids comm ver rid nr mr = Inr pkt \<and>
    parse_message pkt = (Some rid, map (\<lambda>oid. (oid, VNone)) oids)"
  using build_request_total[OF assms] parse_request[OF assms] by auto

theorem snmp_request_roundtrip_witness:
  "\<exists>pkt. build_request GETBULK [''1.3.6.1''] (ustr ''public'') 1 7 0 25 = Inr pkt \<and>
    parse_message pkt = (Some 7, [(''1.3.6.1'', VNone)])"
proof -
  have "request_ok GETBULK [''1.3.6.1''] (ustr ''public'') 1 7 0 25"
    using wire_oid_1361 by (simp add: request_ok_def int64_def ustr_def scalar_def)
  from snmp_request_roundtrip[OF this] show ?thesis by simp
qed

text \<open>A transaction answers with the first datagram, among the \<open>retries + 1\<close> it waits for, that
  comes from the address it asked and does not carry another request id; everything before it is
  passed over, and if there is none the answer is empty.\<close>
theorem snmp_transact_first_match:
  shows "(\<exists>k data. int k < retries + 1 \<and> net k = Datagram ip data \<and> \<not> rejected ip rid (net k) \<and>
      (\<forall>j<k. rejected ip rid (net j)) \<and> transact (Some ip) net retries rid = snd (parse_message data))
   \<or> ((\<forall>j. int j < retries + 1 \<longrightarrow> rejected ip rid (net j)) \<and> transact (Some ip) net retries rid = [])"
proof -
  have lt: "k < nat (retries + 1) \<longleftrightarrow> int k < retries + 1" for k by auto
  from transact_loop_cases[of "nat (retries + 1)" ip rid net 0]
  show ?thesis unfolding transact_def lt by auto
qed

theorem snmp_transact_first_match_witness:
  "transact (Some ''10.0.0.5'') (\<lambda>i. if i = 0 then Datagram ''10.0.0.6'' [] else NoReply) 1 7 = []"
  using snmp_transact_first_match[of 1 "\<lambda>i. if i = 0 then Datagram ''10.0.0.6'' [] else NoReply"
      "''10.0.0.5''" 7]
  by (auto split: if_splits)

definition unnumbered_reply :: bytes where
  "unnumbered_reply = [0x30, 0x10, 0xA2, 0x0E, 0x30, 0x0C, 0x30, 0x0A, 0x06, 0x03, 43, 6, 1, 0x04, 0x03, 112, 119, 110]"

text \<open>The request-id check has a hole: a reply whose PDU does not open with an INTEGER parses to no
  request id but still to varbinds, and a transaction accepts it whatever id was sent.  The
  concrete datagram is a GetResponse holding only a varbind list.\<close>
theorem snmp_unnumbered_reply_accepted:
  "0 \<le> retries \<Longrightarrow> transact (Some ip) (\<lambda>_. Datagram ip unnumbered_reply) retries rid =
     [(''1.3.6.1'', VStr (ustr ''pwn''))]"
proof -
  assume "0 \<le> retries"
  then obtain n where n: "nat (retries + 1) = Suc n" by (metis Suc_nat_eq_nat_zadd1 add.commute)
  have "parse_message unnumbered_reply = (None, [(''1.3.6.1'', VStr (ustr ''pwn''))])"
    by code_simp
  with n show ?thesis by (simp add: transact_def)
qed

theorem snmp_unnumbered_reply_accepted_witness:
  "transact (Some ''10.0.0.5'') (\<lambda>_. Datagram ''10.0.0.5'' unnumbered_reply) 1 12345 =
     [(''1.3.6.1'', VStr (ustr ''pwn''))]"
  by (rule snmp_unnumbered_reply_accepted) simp

text \<open>C35: A walk returns whatever the network does: no exception, at most \<open>max_rows\<close> rows, all with
  distinct identifiers at or below the base; hostile agents that repeat, regress or leave the subtree
  included.\<close>
theorem snmp_walk_safe:
  assumes "wire_oid base" and "list_all scalar comm" "length comm \<le> 1000" and "int64 ver"
    and "\<forall>j. int64 (rids j)" and "0 \<le> max_rows"
  shows "\<exists>r. snmp_walk resolved net rids base comm ver retries max_rows = Inr r \<and>
    int (length r) \<le> max_rows \<and> distinct (dict_keys r) \<and> (\<forall>oid\<in>set (dict_keys r). under base oid)"
proof -
  from agent.walk_loop_ok[of base comm ver rids "[]" max_rows base resolved net retries 0 "ver \<noteq> 0"] assms
  show ?thesis unfolding snmp_walk_def by (auto simp: wire_reply_def wf_dict_def)
qed

theorem snmp_walk_safe_witness:
  "\<exists>r. snmp_walk (Some ''10.0.0.5'') (\<lambda>_ _. Datagram ''10.0.0.5'' unnumbered_reply) (\<lambda>j. 1 + int (j mod 100))
       ''1.3.6.1'' (ustr ''public'') 1 1 512 = Inr r \<and>
    int (length r) \<le> 512 \<and> distinct (dict_keys r) \<and> (\<forall>oid\<in>set (dict_keys r). under ''1.3.6.1'' oid)"
proof (rule snmp_walk_safe)
  have "j mod 100 < 100" for j :: nat by simp
  then show "\<forall>j. int64 (1 + int (j mod 100))" by (force simp: int64_def)
qed (use wire_oid_1361 in \<open>simp_all add: int64_def ustr_def scalar_def\<close>)

text \<open>C36: The walk asks at most \<open>max_rows + 1\<close> times: its outcome is determined by what the network
  does during those transactions, so a broken agent cannot keep it busy.\<close>
theorem snmp_walk_transactions_bounded:
  assumes "\<And>j. int j \<le> max_rows \<Longrightarrow> net' j = net j"
  shows "snmp_walk resolved net' rids base comm ver retries max_rows =
    snmp_walk resolved net rids base comm ver retries max_rows"
proof (cases "0 \<le> max_rows")
  case True
  show ?thesis unfolding snmp_walk_def
  proof (rule agent.walk_loop_queries)
    fix j pkt rid
    assume j: "j < 0 + nat (max_rows - int (length [])) + (if ver \<noteq> 0 then 1 else 0)"
    then have "int j \<le> max_rows" using True by (auto split: if_splits)
    then show "transact resolved (net' j) retries rid = transact resolved (net j) retries rid"
      using assms[of j] by simp
  qed
next
  case False
  then show ?thesis unfolding snmp_walk_def by (subst (1 2) walk_loop.simps) simp
qed

theorem snmp_walk_transactions_bounded_witness:
  "snmp_walk (Some ''10.0.0.5'') (\<lambda>j _. if j \<le> 2 then NoReply else Datagram ''10.0.0.5'' unnumbered_reply)
      (\<lambda>j. 7) ''1.3.6.1'' (ustr ''public'') 1 1 2 =
   snmp_walk (Some ''10.0.0.5'') (\<lambda>j _. NoReply) (\<lambda>j. 7) ''1.3.6.1'' (ustr ''public'') 1 1 2"
  by (rule snmp_walk_transactions_bounded) simp

end
