(* ===== verification/PyFloat.thy ===== *)
theory PyFloat
  imports Complex_Main PyText
begin

text \<open>
  Python's \<open>float\<close>: the finite values as rationals, the two infinities and NaN.  Conversion rounds
  to binary64, half to even, with the subnormal range; signed zeros are identified, which no
  comparison can see.  Also decoded JSON values, with Python's truth value and equality.
\<close>

datatype pyfloat = NaN | PInf | NInf | Fin rat

subsection \<open>Rounding to binary64\<close>

fun bitlen :: "nat \<Rightarrow> nat" where
  "bitlen n = (if n = 0 then 0 else Suc (bitlen (n div 2)))"

declare bitlen.simps [simp del]

definition expo :: "rat \<Rightarrow> int" where
  \<comment> \<open>the exponent that puts a positive number into 53 binary digits\<close>
  "expo q = (case quotient_of q of (a, b) \<Rightarrow>
     let e = int (bitlen (nat a)) - int (bitlen (nat b)) - 53
     in if q / 2 powi e < 2 ^ 53 then e else e + 1)"

definition half_even :: "rat \<Rightarrow> int" where
  "half_even q = (let f = \<lfloor>q\<rfloor>; d = q - of_int f
     in if d < 1 / 2 then f else if 1 / 2 < d then f + 1 else if even f then f else f + 1)"

definition rnd_pos :: "rat \<Rightarrow> rat" where
  "rnd_pos q = (let e = max (expo q) (- 1074) in of_int (half_even (q / 2 powi e)) * 2 powi e)"

definition rnd64 :: "rat \<Rightarrow> pyfloat" where
  "rnd64 q =
     (if q = 0 then Fin 0
      else let v = rnd_pos \<bar>q\<bar>
           in if 2 ^ 1024 \<le> v then (if 0 < q then PInf else NInf)
              else Fin (if 0 < q then v else - v))"

subsection \<open>Comparison\<close>

fun flt :: "pyfloat \<Rightarrow> pyfloat \<Rightarrow> bool" where
  "flt (Fin a) (Fin b) = (a < b)"
| "flt NInf (Fin _) = True"
| "flt NInf PInf = True"
| "flt (Fin _) PInf = True"
| "flt _ _ = False"

fun feq :: "pyfloat \<Rightarrow> pyfloat \<Rightarrow> bool" where
  "feq (Fin a) (Fin b) = (a = b)"
| "feq PInf PInf = True"
| "feq NInf NInf = True"
| "feq _ _ = False"

lemma flt_irrefl [simp]: "\<not> flt x x"
  by (cases x) auto

lemma flt_trans: "flt x y \<Longrightarrow> flt y z \<Longrightarrow> flt x z"
  by (cases x; cases y; cases z) auto

subsection \<open>The rounded value grows with its argument\<close>

lemma bitlen_bounds: "0 < n \<Longrightarrow> 2 ^ (bitlen n - 1) \<le> n \<and> n < 2 ^ bitlen n \<and> 0 < bitlen n"
proof (induction n rule: bitlen.induct)
  case (1 n)
  show ?case
  proof (cases "n div 2 = 0")
    case True
    with 1 have "n = 1" by auto
    then show ?thesis by (simp add: bitlen.simps[of "Suc 0"] bitlen.simps[of 0])
  next
    case False
    with 1 have IH: "2 ^ (bitlen (n div 2) - 1) \<le> n div 2" "n div 2 < 2 ^ bitlen (n div 2)"
      "0 < bitlen (n div 2)" by auto
    have b: "bitlen n = Suc (bitlen (n div 2))" using 1 by (subst bitlen.simps) simp
    have "(2::nat) ^ bitlen (n div 2) = 2 * 2 ^ (bitlen (n div 2) - 1)"
      using IH(3) by (cases "bitlen (n div 2)") auto
    moreover have "n = 2 * (n div 2) + n mod 2" "n mod 2 < 2" by simp_all
    ultimately show ?thesis using IH unfolding b power_Suc diff_Suc_1 by linarith
  qed
qed

lemma pow2_le_rat: "(2::rat) ^ k \<le> of_nat n \<longleftrightarrow> 2 ^ k \<le> n"
  by (metis of_nat_le_iff of_nat_numeral of_nat_power)

lemma pow2_gt_rat: "of_nat n < (2::rat) ^ k \<longleftrightarrow> n < 2 ^ k"
  by (metis of_nat_less_iff of_nat_numeral of_nat_power)

lemma expo_bounds:
  assumes "0 < q"
  shows "2 ^ 52 \<le> q / 2 powi (expo q) \<and> q / 2 powi (expo q) < 2 ^ 53"
proof -
  obtain a b where ab: "quotient_of q = (a, b)" by (cases "quotient_of q")
  have b: "0 < b" using ab by (rule quotient_of_denom_pos)
  have q: "q = of_int a / of_int b" using ab by (rule quotient_of_div)
  with assms b have a: "0 < a" by (simp add: zero_less_divide_iff)
  define la lb where "la = bitlen (nat a)" and "lb = bitlen (nat b)"
  have nats: "of_int a = (of_nat (nat a) :: rat)" "of_int b = (of_nat (nat b) :: rat)"
    using a b by simp_all
  have A: "2 ^ (la - 1) \<le> nat a" "nat a < 2 ^ la" "0 < la"
    and B: "2 ^ (lb - 1) \<le> nat b" "nat b < 2 ^ lb" "0 < lb"
    using bitlen_bounds[of "nat a"] bitlen_bounds[of "nat b"] a b by (simp_all add: la_def lb_def)
  have A: "(2::rat) ^ (la - 1) \<le> of_int a" "(of_int a :: rat) < 2 ^ la" "0 < la"
    unfolding nats using A by (simp_all only: pow2_le_rat pow2_gt_rat)
  have B: "(2::rat) ^ (lb - 1) \<le> of_int b" "(of_int b :: rat) < 2 ^ lb" "0 < lb"
    unfolding nats using B by (simp_all only: pow2_le_rat pow2_gt_rat)
  have a2: "(2::rat) powi (int la - 1) \<le> of_int a" "(of_int a :: rat) < 2 powi int la"
    using A by (simp_all add: power_int_nonneg_exp nat_diff_distrib)
  have b2: "(2::rat) powi (int lb - 1) \<le> of_int b" "(of_int b :: rat) < 2 powi int lb"
    using B by (simp_all add: power_int_nonneg_exp nat_diff_distrib)
  define e where "e = int la - int lb - 53"
  have p0: "(0::rat) < of_int b" "(0::rat) < 2 powi i" for i using b by simp_all
  have lo: "2 ^ 52 \<le> q / 2 powi e"
  proof -
    have "(2::rat) ^ 52 * 2 powi e * of_int b \<le> 2 ^ 52 * 2 powi e * 2 powi int lb"
      using b2 p0 by (intro mult_left_mono) auto
    also have "\<dots> = 2 powi (52 + e + int lb)" by (simp add: power_int_add)
    also have "52 + e + int lb = int la - 1" by (simp add: e_def)
    also have "(2::rat) powi (int la - 1) \<le> of_int a" by (rule a2)
    finally show ?thesis using p0 by (simp add: q field_simps)
  qed
  have hi: "q / 2 powi e < 2 ^ 54"
  proof -
    have "(of_int a :: rat) < 2 powi int la" by (rule a2)
    also have "int la = 54 + e + (int lb - 1)" by (simp add: e_def)
    also have "(2::rat) powi \<dots> = 2 ^ 54 * 2 powi e * 2 powi (int lb - 1)"
      by (subst power_int_add, simp, subst power_int_add, simp_all)
    also have "\<dots> \<le> 2 ^ 54 * 2 powi e * of_int b"
      using b2 p0 by (intro mult_left_mono) auto
    finally show ?thesis using p0 by (simp add: q field_simps)
  qed
  have step: "q / 2 powi (e + 1) = q / 2 powi e / 2" by (simp add: power_int_add)
  have "expo q = (if q / 2 powi e < 2 ^ 53 then e else e + 1)"
    by (simp add: expo_def ab e_def la_def lb_def Let_def)
  show ?thesis
  proof (cases "q / 2 powi e < 2 ^ 53")
    case True
    with lo \<open>expo q = _\<close> show ?thesis by simp
  next
    case False
    then have "expo q = e + 1" using \<open>expo q = _\<close> by simp
    with False hi show ?thesis by (simp only: step) simp
  qed
qed

lemma expo_mono:
  assumes "0 < q" "q \<le> r"
  shows "expo q \<le> expo r"
proof (rule ccontr)
  assume "\<not> expo q \<le> expo r"
  then have le: "expo r + 1 \<le> expo q" by simp
  have p0: "(0::rat) < 2 powi i" for i by simp
  have "r < 2 ^ 53 * 2 powi (expo r)"
    using expo_bounds[of r] assms p0[of "expo r"] by (simp add: field_simps)
  also have "\<dots> = 2 ^ 52 * 2 powi (expo r + 1)" by (simp add: power_int_add)
  also have "\<dots> \<le> 2 ^ 52 * 2 powi (expo q)"
    using le by (intro mult_left_mono power_int_increasing) auto
  also have "\<dots> \<le> q" using expo_bounds[of q] assms p0[of "expo q"] by (simp add: field_simps)
  finally show False using assms by simp
qed

lemma half_even_mono: "q \<le> r \<Longrightarrow> half_even q \<le> half_even r"
proof -
  assume le: "q \<le> r"
  then have f: "\<lfloor>q\<rfloor> \<le> \<lfloor>r\<rfloor>" by (rule floor_mono)
  show ?thesis
  proof (cases "\<lfloor>q\<rfloor> = \<lfloor>r\<rfloor>")
    case True
    with le show ?thesis by (auto simp: half_even_def Let_def)
  next
    case False
    with f have "\<lfloor>q\<rfloor> + 1 \<le> \<lfloor>r\<rfloor>" by simp
    moreover have "half_even q \<le> \<lfloor>q\<rfloor> + 1" "\<lfloor>r\<rfloor> \<le> half_even r"
      by (auto simp: half_even_def Let_def)
    ultimately show ?thesis by simp
  qed
qed

lemma half_even_of_int [simp]: "half_even (of_int i) = i"
  by (simp add: half_even_def)

lemma rnd_pos_mono:
  assumes "0 < q" "q \<le> r"
  shows "rnd_pos q \<le> rnd_pos r"
proof -
  define e f where "e = max (expo q) (- 1074)" and "f = max (expo r) (- 1074)"
  have p0: "(0::rat) < 2 powi i" for i by simp
  have ef: "e \<le> f" using expo_mono[OF assms] by (simp add: e_def f_def)
  show ?thesis
  proof (cases "e = f")
    case True
    have "half_even (q / 2 powi f) \<le> half_even (r / 2 powi f)"
      using assms p0[of f] by (intro half_even_mono divide_right_mono) auto
    then show ?thesis using True p0[of f] by (simp add: rnd_pos_def e_def f_def Let_def)
  next
    case False
    with ef have lt: "e + 1 \<le> f" and fr: "f = expo r" by (auto simp: e_def f_def)
    have "q / 2 powi e \<le> q / 2 powi expo q"
      using assms by (intro divide_left_mono power_int_increasing) (auto simp: e_def)
    with expo_bounds[of q] assms have "q / 2 powi e \<le> of_int (2 ^ 53)" by simp
    then have "half_even (q / 2 powi e) \<le> 2 ^ 53" using half_even_mono half_even_of_int by metis
    then have "(of_int (half_even (q / 2 powi e)) :: rat) \<le> of_int (2 ^ 53)" by (simp only: of_int_le_iff)
    then have "of_int (half_even (q / 2 powi e)) * (2::rat) powi e \<le> 2 ^ 53 * 2 powi e"
      using p0[of e] by (intro mult_right_mono) auto
    also have "\<dots> = 2 ^ 52 * 2 powi (e + 1)" by (simp add: power_int_add)
    also have "\<dots> \<le> 2 ^ 52 * 2 powi f" using lt by (intro mult_left_mono power_int_increasing) auto
    also have "\<dots> \<le> of_int (half_even (r / 2 powi f)) * 2 powi f"
    proof (intro mult_right_mono)
      have "of_int (2 ^ 52) \<le> r / 2 powi f" using expo_bounds[of r] assms fr by simp
      then have "2 ^ 52 \<le> half_even (r / 2 powi f)" using half_even_mono half_even_of_int by metis
      then have "(of_int (2 ^ 52) :: rat) \<le> of_int (half_even (r / 2 powi f))" by (simp only: of_int_le_iff)
      then show "(2::rat) ^ 52 \<le> of_int (half_even (r / 2 powi f))" by simp
    qed simp
    finally show ?thesis by (simp add: rnd_pos_def e_def f_def Let_def)
  qed
qed

lemma half_even_nonneg: "0 \<le> q \<Longrightarrow> 0 \<le> half_even q"
  using half_even_mono[of 0 q] half_even_of_int[of 0] by simp

lemma rnd_pos_nonneg: "0 \<le> q \<Longrightarrow> 0 \<le> rnd_pos q"
  by (simp add: rnd_pos_def Let_def half_even_nonneg)

lemma rnd64_mono: "q \<le> r \<Longrightarrow> \<not> flt (rnd64 r) (rnd64 q)"
proof -
  assume le: "q \<le> r"
  consider "q < 0" "r < 0" | "q < 0" "0 \<le> r" | "0 \<le> q" "0 \<le> r" "q = 0" | "0 < q" "0 < r"
    using le by linarith
  then show ?thesis
  proof cases
    case 1
    with le have "rnd_pos \<bar>r\<bar> \<le> rnd_pos \<bar>q\<bar>" by (intro rnd_pos_mono) auto
    with 1 show ?thesis by (auto simp: rnd64_def Let_def)
  next
    case 2
    with rnd_pos_nonneg[of "\<bar>q\<bar>"] rnd_pos_nonneg[of "\<bar>r\<bar>"] show ?thesis
      by (auto simp: rnd64_def Let_def)
  next
    case 3
    with rnd_pos_nonneg[of "\<bar>r\<bar>"] show ?thesis by (auto simp: rnd64_def Let_def)
  next
    case 4
    with le have "rnd_pos \<bar>q\<bar> \<le> rnd_pos \<bar>r\<bar>" by (intro rnd_pos_mono) auto
    with 4 show ?thesis by (auto simp: rnd64_def Let_def)
  qed
qed

lemma rnd64_flt_mono: "flt t (rnd64 q) \<Longrightarrow> q \<le> r \<Longrightarrow> flt t (rnd64 r)"
  using rnd64_mono[of q r] by (cases t; cases "rnd64 q"; cases "rnd64 r") (auto simp: rnd64_def Let_def split: if_splits)

text \<open>Integers up to 53 bits are exact.\<close>

lemma rnd_pos_of_int:
  assumes "0 < i" "i < 2 ^ 53"
  shows "rnd_pos (of_int i) = of_int i"
proof -
  let ?q = "of_int i :: rat"
  define e where "e = max (expo ?q) (- 1074)"
  have p0: "(0::rat) < 2 powi j" for j by simp
  have "expo ?q \<le> 0"
  proof (rule ccontr)
    assume "\<not> expo ?q \<le> 0"
    then have "(2::rat) ^ 52 * 2 powi 1 \<le> 2 ^ 52 * 2 powi expo ?q"
      by (intro mult_left_mono power_int_increasing) auto
    also have "\<dots> \<le> ?q" using expo_bounds[of ?q] assms(1) p0[of "expo ?q"] by (simp add: field_simps)
    finally have "(of_int (2 ^ 53) :: rat) \<le> of_int i" by simp
    then show False using assms(2) by (simp only: of_int_le_iff)
  qed
  then obtain k where k: "e = - int k" unfolding e_def by (metis max.bounded_iff max_def neg_0_le_iff_le minus_minus nonneg_int_cases zero_le_numeral)
  have "?q / 2 powi e = of_int (i * 2 ^ k)" by (simp add: k power_int_minus divide_inverse)
  then have "half_even (?q / 2 powi e) = i * 2 ^ k" by (simp only: half_even_of_int)
  then show ?thesis unfolding rnd_pos_def Let_def e_def[symmetric] by (simp add: k power_int_minus)
qed

lemma rnd64_of_int:
  assumes "\<bar>i\<bar> < 2 ^ 53"
  shows "rnd64 (of_int i) = Fin (of_int i)"
proof -
  have big: "(2::rat) ^ 53 < 2 ^ 1024" by (rule power_strict_increasing) auto
  have "rnd_pos \<bar>of_int i\<bar> = of_int \<bar>i\<bar>" if "i \<noteq> 0" using rnd_pos_of_int[of "\<bar>i\<bar>"] assms that by simp
  moreover have "(of_int \<bar>i\<bar> :: rat) < of_int (2 ^ 53)" using assms by (simp only: of_int_less_iff)
  ultimately show ?thesis using big by (auto simp: rnd64_def Let_def)
qed

text \<open>From \<open>2 ^ 1024\<close> on there is no finite value.\<close>

lemma rnd64_overflow:
  assumes "2 ^ 1024 \<le> q"
  shows "rnd64 q = PInf"
proof -
  let ?b = "2 ^ 1024 :: rat" and ?e = "expo (2 ^ 1024)"
  have pos: "(0::rat) < 2 ^ 1024" by (rule zero_less_power) simp
  have b: "2 ^ 52 \<le> ?b / 2 powi ?e" "?b / 2 powi ?e < 2 ^ 53" using expo_bounds[OF pos] by auto
  have p0: "(0::rat) < 2 powi ?e" by simp
  have pw: "(2::rat) ^ 52 * 2 powi ?e = 2 powi (52 + ?e)" "(2::rat) ^ 53 * 2 powi ?e = 2 powi (53 + ?e)"
    "?b = 2 powi (1024 :: int)"
    by (subst power_int_add, simp, simp, subst power_int_add, simp, simp, simp)
  have le: "(2::rat) powi (52 + ?e) \<le> 2 powi 1024" and lt: "(2::rat) powi 1024 < 2 powi (53 + ?e)"
    using b p0 unfolding pw[symmetric] by (simp_all only: pos_le_divide_eq pos_divide_less_eq)
  have "52 + ?e \<le> 1024"
  proof (rule ccontr)
    assume "\<not> 52 + ?e \<le> 1024"
    then have "(2::rat) powi 1024 < 2 powi (52 + ?e)" by (intro power_int_strict_increasing) auto
    with le show False by simp
  qed
  moreover have "1024 < 53 + ?e"
  proof (rule ccontr)
    assume "\<not> 1024 < 53 + ?e"
    then have "(2::rat) powi (53 + ?e) \<le> 2 powi 1024" by (intro power_int_increasing) auto
    with lt show False by simp
  qed
  ultimately have e: "?e = 972" by simp
  have bb: "?b / 2 powi 972 = of_int (2 ^ 52)"
    unfolding pw(3) using power_int_diff[of "2::rat" 1024 972] by simp
  have m: "max 972 (- 1074) = (972 :: int)" by simp
  have "rnd_pos ?b = of_int (2 ^ 52) * 2 powi 972"
    unfolding rnd_pos_def Let_def e m bb half_even_of_int ..
  also have "\<dots> = ?b" using pw(1)[unfolded e] pw(3) by simp
  finally have "?b \<le> rnd_pos q" using rnd_pos_mono[OF pos assms] by simp
  moreover have "0 < q" using pos assms by (rule less_le_trans)
  ultimately show ?thesis by (simp only: rnd64_def Let_def abs_of_pos) auto
qed

subsection \<open>Conversions\<close>

fun fadd :: "pyfloat \<Rightarrow> pyfloat \<Rightarrow> pyfloat" where
  "fadd (Fin a) (Fin b) = rnd64 (a + b)"
| "fadd NaN _ = NaN"
| "fadd _ NaN = NaN"
| "fadd PInf NInf = NaN"
| "fadd NInf PInf = NaN"
| "fadd PInf _ = PInf"
| "fadd NInf _ = NInf"
| "fadd _ PInf = PInf"
| "fadd _ NInf = NInf"

definition fle :: "pyfloat \<Rightarrow> pyfloat \<Rightarrow> bool" where
  "fle x y \<longleftrightarrow> flt x y \<or> feq x y"

lemma fadd_NaN [simp]: "fadd x NaN = NaN"
  by (cases x) auto

definition float_of_int :: "int \<Rightarrow> pyfloat res" where
  \<comment> \<open>an integer beyond the range of binary64 raises \<open>OverflowError\<close>\<close>
  "float_of_int i = (case rnd64 (of_int i) of Fin q \<Rightarrow> Inr (Fin q) | _ \<Rightarrow> Inl OverflowError)"

definition lower :: "string \<Rightarrow> string" where
  "lower s = map (\<lambda>c. let n = (of_char c :: nat) in if 65 \<le> n \<and> n \<le> 90 then char_of (n + 32) else c) s"

definition opt_digits :: "string \<Rightarrow> bool" where
  "opt_digits s \<longleftrightarrow> s = [] \<or> digits_us s"

definition plain_dec :: "string \<Rightarrow> nat" where
  "plain_dec s = dec_val (filter (\<lambda>c. c \<noteq> CHR ''_'') s)"

definition scale10 :: "rat \<Rightarrow> int \<Rightarrow> rat" where
  "scale10 q e = (if 0 \<le> e then q * 10 ^ nat e else q / 10 ^ nat (- e))"

definition unsigned_float :: "string \<Rightarrow> pyfloat option" where
  \<comment> \<open>the grammar of \<open>float(s)\<close> after stripping and the sign; the text is in lower case\<close>
  "unsigned_float s =
     (if s = ''inf'' \<or> s = ''infinity'' then Some PInf
      else if s = ''nan'' then Some NaN
      else let mant = takeWhile (\<lambda>c. c \<noteq> CHR ''e'') s;
               rest = dropWhile (\<lambda>c. c \<noteq> CHR ''e'') s;
               ip = takeWhile (\<lambda>c. c \<noteq> CHR ''.'') mant;
               frac = tl (dropWhile (\<lambda>c. c \<noteq> CHR ''.'') mant);
               ex = tl rest;
               neg = (ex \<noteq> [] \<and> hd ex = CHR ''-'');
               digits = (if ex \<noteq> [] \<and> (hd ex = CHR ''-'' \<or> hd ex = CHR ''+'') then tl ex else ex)
           in if opt_digits ip \<and> opt_digits frac \<and> (ip \<noteq> [] \<or> frac \<noteq> []) \<and> (rest = [] \<or> digits_us digits)
              then let m = of_nat (dec_val (filter (\<lambda>c. c \<noteq> CHR ''_'') (ip @ frac)));
                       e0 = (if rest = [] then 0 else if neg then - int (plain_dec digits) else int (plain_dec digits))
                   in Some (rnd64 (scale10 m (e0 - int (length (filter (\<lambda>c. c \<noteq> CHR ''_'') frac)))))
              else None)"

fun fneg :: "pyfloat \<Rightarrow> pyfloat" where
  "fneg NaN = NaN" | "fneg PInf = NInf" | "fneg NInf = PInf" | "fneg (Fin q) = Fin (- q)"

definition float_of_str :: "string \<Rightarrow> pyfloat res" where
  "float_of_str s0 =
     (let s = lower (strip s0);
          body = (if s \<noteq> [] \<and> (hd s = CHR ''-'' \<or> hd s = CHR ''+'') then tl s else s)
      in case unsigned_float body of
           None \<Rightarrow> Inl ValueError
         | Some f \<Rightarrow> Inr (if s \<noteq> [] \<and> hd s = CHR ''-'' then fneg f else f))"

subsection \<open>JSON values\<close>

datatype jval = JNull | JBool bool | JInt int | JFloat pyfloat | JStr string
  | JList "jval list" | JObj "(string \<times> jval) list"

type_synonym jobj = "(string, jval) dict"

definition jget :: "jobj \<Rightarrow> string \<Rightarrow> jval" where
  \<comment> \<open>\<open>d.get(key)\<close>\<close>
  "jget d k = (case dict_get d k of None \<Rightarrow> JNull | Some v \<Rightarrow> v)"

fun truthy :: "jval \<Rightarrow> bool" where
  "truthy JNull = False"
| "truthy (JBool b) = b"
| "truthy (JInt i) = (i \<noteq> 0)"
| "truthy (JFloat f) = (\<not> feq f (Fin 0))"
| "truthy (JStr s) = (s \<noteq> [])"
| "truthy (JList xs) = (xs \<noteq> [])"
| "truthy (JObj d) = (d \<noteq> [])"

fun obj_get :: "jval \<Rightarrow> string \<Rightarrow> jval res" where
  \<comment> \<open>\<open>x.get(key)\<close> on a value that need not be a dictionary\<close>
  "obj_get (JObj d) k = Inr (jget d k)"
| "obj_get _ k = Inl AttributeError"

fun num_eq :: "jval \<Rightarrow> jval \<Rightarrow> bool" where
  \<comment> \<open>numbers and booleans compare by value\<close>
  "num_eq (JBool a) (JBool b) = (a = b)"
| "num_eq (JBool a) (JInt i) = (i = (if a then 1 else 0))"
| "num_eq (JInt i) (JBool a) = (i = (if a then 1 else 0))"
| "num_eq (JInt i) (JInt j) = (i = j)"
| "num_eq (JInt i) (JFloat f) = (f = Fin (of_int i))"
| "num_eq (JFloat f) (JInt i) = (f = Fin (of_int i))"
| "num_eq (JBool a) (JFloat f) = (f = Fin (if a then 1 else 0))"
| "num_eq (JFloat f) (JBool a) = (f = Fin (if a then 1 else 0))"
| "num_eq (JFloat f) (JFloat g) = feq f g"
| "num_eq _ _ = False"

fun py_eq :: "jval \<Rightarrow> jval \<Rightarrow> bool"
  and list_eq :: "jval list \<Rightarrow> jval list \<Rightarrow> bool"
  and obj_eq :: "(string \<times> jval) list \<Rightarrow> (string \<times> jval) list \<Rightarrow> bool" where
  "py_eq JNull w = (w = JNull)"
| "py_eq (JStr s) w = (w = JStr s)"
| "py_eq (JList xs) w = (case w of JList ys \<Rightarrow> list_eq xs ys | _ \<Rightarrow> False)"
| "py_eq (JObj d) w = (case w of JObj e \<Rightarrow> length d = length e \<and> obj_eq d e | _ \<Rightarrow> False)"
| "py_eq v w = num_eq v w"
| "list_eq [] ys = (ys = [])"
| "list_eq (x # xs) ys = (case ys of [] \<Rightarrow> False | y # ys' \<Rightarrow> py_eq x y \<and> list_eq xs ys')"
| "obj_eq [] e = True"
| "obj_eq (kv # d) e = (case dict_get e (fst kv) of None \<Rightarrow> False | Some w \<Rightarrow> py_eq (snd kv) w \<and> obj_eq d e)"

end
