(* ===== verification/PyTime.thy ===== *)
theory PyTime
  imports PyFloat
begin

text \<open>
  Instants as microseconds since 1970 UTC, and \<open>datetime.fromisoformat\<close> with the grammar of the
  oldest interpreter the project supports (3.9), which later ones extend.
\<close>

definition is_leap :: "int \<Rightarrow> bool" where
  "is_leap y \<longleftrightarrow> y mod 4 = 0 \<and> (y mod 100 \<noteq> 0 \<or> y mod 400 = 0)"

definition month_days :: "int \<Rightarrow> int \<Rightarrow> int" where
  "month_days y m = (if m = 2 then (if is_leap y then 29 else 28)
     else if m \<in> {4, 6, 9, 11} then 30 else 31)"

definition days_before_year :: "int \<Rightarrow> int" where
  "days_before_year y = 365 * (y - 1) + (y - 1) div 4 - (y - 1) div 100 + (y - 1) div 400"

definition days_before_month :: "int \<Rightarrow> int \<Rightarrow> int" where
  "days_before_month y m = sum_list (map (month_days y) [1..m - 1])"

definition epoch_day :: "int \<Rightarrow> int \<Rightarrow> int \<Rightarrow> int" where
  "epoch_day y m d = days_before_year y + days_before_month y m + d - 719163"

datatype stamp = Stamp (local_us: int) (utc_offset: "int option")

definition num_at :: "string \<Rightarrow> nat \<Rightarrow> nat \<Rightarrow> int option" where
  \<comment> \<open>exactly \<open>k\<close> digits from position \<open>i\<close>\<close>
  "num_at s i k = (let w = take k (drop i s)
     in if length w = k \<and> isdigit w then Some (int (dec_val w)) else None)"

definition iso_date :: "string \<Rightarrow> (int \<times> int \<times> int) option" where
  "iso_date s = (case (num_at s 0 4, num_at s 5 2, num_at s 8 2) of
     (Some y, Some m, Some d) \<Rightarrow>
       if s ! 4 = CHR ''-'' \<and> s ! 7 = CHR ''-'' \<and> 1 \<le> y \<and> 1 \<le> m \<and> m \<le> 12 \<and> 1 \<le> d \<and> d \<le> month_days y m
       then Some (y, m, d) else None
   | _ \<Rightarrow> None)"

definition iso_clock :: "string \<Rightarrow> int option" where
  \<comment> \<open>\<open>HH[:MM[:SS[.fff[fff]]]]\<close> as microseconds\<close>
  "iso_clock s =
     (let hh = num_at s 0 2; mm = (if length s = 2 then Some 0 else num_at s 3 2);
          ss = (if length s \<le> 5 then Some 0 else num_at s 6 2);
          us = (if length s \<le> 8 then Some 0
                else if length s = 12 then map_option (\<lambda>f. 1000 * f) (num_at s 9 3)
                else num_at s 9 6)
      in case (hh, mm, ss, us) of
           (Some h, Some m, Some s', Some u) \<Rightarrow>
             if length s \<in> {2, 5, 8, 12, 15} \<and> (2 < length s \<longrightarrow> s ! 2 = CHR '':'') \<and>
                (5 < length s \<longrightarrow> s ! 5 = CHR '':'') \<and> (8 < length s \<longrightarrow> s ! 8 = CHR ''.'') \<and>
                h < 24 \<and> m < 60 \<and> s' < 60
             then Some (1000000 * (3600 * h + 60 * m + s') + u) else None
         | _ \<Rightarrow> None)"

definition is_sign :: "char \<Rightarrow> bool" where
  "is_sign c \<longleftrightarrow> c = CHR ''+'' \<or> c = CHR ''-''"

definition iso_time :: "string \<Rightarrow> (int \<times> int option) option" where
  "iso_time s =
     (let clock = takeWhile (\<lambda>c. \<not> is_sign c) s; zone = dropWhile (\<lambda>c. \<not> is_sign c) s
      in case iso_clock clock of
           None \<Rightarrow> None
         | Some t \<Rightarrow> (case zone of
               [] \<Rightarrow> Some (t, None)
             | sg # z \<Rightarrow> (case iso_clock z of
                   Some off \<Rightarrow> if length z \<in> {5, 8, 15}
                     then Some (t, Some (if sg = CHR ''-'' then - off else off)) else None
                 | None \<Rightarrow> None)))"

definition fromisoformat :: "string \<Rightarrow> stamp res" where
  "fromisoformat s =
     (case iso_date (take 10 s) of
        None \<Rightarrow> Inl ValueError
      | Some (y, m, d) \<Rightarrow>
          if length s = 10 then Inr (Stamp (epoch_day y m d * 86400000000) None)
          else (case iso_time (drop 11 s) of
                  None \<Rightarrow> Inl ValueError
                | Some (t, off) \<Rightarrow> Inr (Stamp (epoch_day y m d * 86400000000 + t) off)))"

definition as_utc :: "stamp \<Rightarrow> int" where
  \<comment> \<open>a naive stamp is taken as UTC\<close>
  "as_utc st = (case utc_offset st of None \<Rightarrow> local_us st | Some off \<Rightarrow> local_us st - off)"

fun replace_Z :: "string \<Rightarrow> string" where
  \<comment> \<open>\<open>s.replace("Z", "+00:00")\<close>\<close>
  "replace_Z [] = []"
| "replace_Z (c # s) = (if c = CHR ''Z'' then ''+00:00'' @ replace_Z s else c # replace_Z s)"

definition total_seconds :: "int \<Rightarrow> pyfloat" where
  \<comment> \<open>of a difference in microseconds\<close>
  "total_seconds us = rnd64 (of_int us / 1000000)"

lemma total_seconds_mono: "flt t (total_seconds a) \<Longrightarrow> a \<le> b \<Longrightarrow> flt t (total_seconds b)"
  unfolding total_seconds_def by (erule rnd64_flt_mono) (simp add: divide_right_mono)

end
