(* ===== verification/Trust.thy ===== *)
theory Trust
  imports PyTime
begin

text \<open>
  The trust core of \<open>server/trust\<close>: the states of a source, the gate that derives them, the weight,
  and the resolution of a scoring domain from its sources.  A diagnostic reason is a datatype with
  one constructor per message format and the values the message is built from.
\<close>

subsection \<open>States (\<open>states.py\<close>)\<close>

datatype collector_status = C_OK | C_PARTIAL | C_EMPTY | C_TIMEOUT | C_BLOCKED | C_ABSENT

datatype semantic_status = PLAUSIBLE | IMPLAUSIBLE | INCONSISTENT | FROZEN | KNOWN_BAD | UNCHECKED

datatype source_state = S_OK | S_DEGRADED | S_STALE | S_UNAVAILABLE | S_SUSPECT | S_NOT_APPLICABLE

datatype reason = RNone
  | ROutside string pyfloat rat rat
  | RWear pyfloat
  | RTemp pyfloat
  | RNegative string pyfloat
  | RDropped string pyfloat pyfloat
  | RConstant string pyfloat
  | RKnownBad string string string
  | RSilent pyfloat pyfloat

definition GATE_PASS :: "source_state set" where
  "GATE_PASS = {S_OK, S_DEGRADED}"

record source_trust =
  st_source :: string
  st_state :: source_state
  st_weight :: rat
  st_collector :: collector_status
  st_semantic :: semantic_status
  st_reason :: reason

definition passes_gate :: "source_trust \<Rightarrow> bool" where
  "passes_gate st \<longleftrightarrow> st_state st \<in> GATE_PASS"

subsection \<open>The gate (\<open>gate.py\<close>)\<close>

definition COLLECTOR_FAIL :: "collector_status set" where
  "COLLECTOR_FAIL = {C_EMPTY, C_TIMEOUT, C_BLOCKED, C_ABSENT}"

definition SEMANTIC_SUSPECT :: "semantic_status set" where
  "SEMANTIC_SUSPECT = {IMPLAUSIBLE, INCONSISTENT, FROZEN, KNOWN_BAD}"

definition derive_state ::
  "collector_status \<Rightarrow> semantic_status \<Rightarrow> pyfloat option \<Rightarrow> pyfloat option \<Rightarrow> bool \<Rightarrow> source_state" where
  "derive_state collector semantic age_sec stale_after_sec applicable =
     (if \<not> applicable then S_NOT_APPLICABLE
      else if semantic \<in> SEMANTIC_SUSPECT then S_SUSPECT
      else if collector \<in> COLLECTOR_FAIL then S_UNAVAILABLE
      else if (case (stale_after_sec, age_sec) of (Some t, Some a) \<Rightarrow> flt t a | _ \<Rightarrow> False) then S_STALE
      else if collector = C_PARTIAL then S_DEGRADED
      else S_OK)"

definition degraded_weight :: rat where
  "degraded_weight = 1 / 2"

definition compute_weight :: "source_state \<Rightarrow> rat" where
  "compute_weight state =
     (if state = S_OK then 1 else if state = S_DEGRADED then degraded_weight else 0)"

lemmas gate_defs = GATE_PASS_def COLLECTOR_FAIL_def SEMANTIC_SUSPECT_def derive_state_def

lemma derive_state_no_age:
  "derive_state c s None th True =
     (if s \<in> SEMANTIC_SUSPECT then S_SUSPECT else if c \<in> COLLECTOR_FAIL then S_UNAVAILABLE
      else if c = C_PARTIAL then S_DEGRADED else S_OK)"
  by (auto simp: derive_state_def split: option.split)

lemma derive_state_aged:
  "derive_state c s (Some a) (Some t) True =
     (if flt t a \<and> derive_state c s None None True \<in> GATE_PASS then S_STALE
      else derive_state c s None None True)"
  by (auto simp: gate_defs)

lemma derive_state_pass_iff:
  "derive_state c s None th True \<in> GATE_PASS \<longleftrightarrow> s \<notin> SEMANTIC_SUSPECT \<and> c \<notin> COLLECTOR_FAIL"
  by (auto simp: derive_state_no_age GATE_PASS_def)

lemma weight_pos_iff: "0 < compute_weight s \<longleftrightarrow> s \<in> GATE_PASS"
  by (auto simp: compute_weight_def GATE_PASS_def degraded_weight_def)

subsection \<open>Domains (\<open>domains.py\<close>)\<close>

definition DOMAIN_SOURCES :: "(string, string list \<times> string list) dict" where
  \<comment> \<open>domain, its required and its optional sources\<close>
  "DOMAIN_SOURCES =
     [(''storage'', ([''storage_reliability''], [''disk_latency'', ''smart''])),
      (''disk_fill'', ([''free_space''], [])),
      (''os_stability'', ([''reliability''], [])),
      (''boot'', ([''boot_time''], [])),
      (''thermal'', ([''throttle''], [])),
      (''network'', ([''network''], []))]"

datatype domain_state = D_TRUSTED | D_UNKNOWN | D_NOT_APPLICABLE

datatype domain_reason = DR_None | DR_Unknown_Domain | DR_Not_Reported string
  | DR_Not_Applicable string | DR_Required string source_state

record domain_trust =
  dt_domain :: string
  dt_state :: domain_state
  dt_weight :: rat
  dt_contributing :: "string list"
  dt_dropped :: "string list"
  dt_reason :: domain_reason

definition verdict :: "string \<Rightarrow> domain_state \<Rightarrow> domain_reason \<Rightarrow> domain_trust" where
  "verdict d s r = \<lparr>dt_domain = d, dt_state = s, dt_weight = 0, dt_contributing = [], dt_dropped = [],
     dt_reason = r\<rparr>"

fun required_loop :: "string \<Rightarrow> (string, source_trust) dict \<Rightarrow> string list \<Rightarrow> rat list \<Rightarrow> string list
    \<Rightarrow> domain_trust + (rat list \<times> string list)" where
  "required_loop dm sources [] ws contributing = Inr (ws, contributing)"
| "required_loop dm sources (name # names) ws contributing =
     (case dict_get sources name of
        None \<Rightarrow> Inl (verdict dm D_UNKNOWN (DR_Not_Reported name))
      | Some st \<Rightarrow>
          if st_state st = S_NOT_APPLICABLE then Inl (verdict dm D_NOT_APPLICABLE (DR_Not_Applicable name))
          else if \<not> passes_gate st then Inl (verdict dm D_UNKNOWN (DR_Required name (st_state st)))
          else required_loop dm sources names (ws @ [st_weight st]) (contributing @ [name]))"

fun optional_loop :: "(string, source_trust) dict \<Rightarrow> string list \<Rightarrow> string list \<Rightarrow> string list
    \<Rightarrow> string list \<times> string list" where
  "optional_loop sources [] contributing dropped = (contributing, dropped)"
| "optional_loop sources (name # names) contributing dropped =
     (case dict_get sources name of
        None \<Rightarrow> optional_loop sources names contributing dropped
      | Some st \<Rightarrow>
          if passes_gate st then optional_loop sources names (contributing @ [name]) dropped
          else optional_loop sources names contributing (dropped @ [name]))"

definition resolve_domain_trust :: "string \<Rightarrow> (string, source_trust) dict \<Rightarrow> domain_trust" where
  "resolve_domain_trust domain sources =
     (case dict_get DOMAIN_SOURCES domain of
        None \<Rightarrow> verdict domain D_UNKNOWN DR_Unknown_Domain
      | Some (required, optional) \<Rightarrow>
          (case required_loop domain sources required [] [] of
             Inl v \<Rightarrow> v
           | Inr (ws, contributing) \<Rightarrow>
               (case optional_loop sources optional contributing [] of
                  (contributing', dropped) \<Rightarrow>
                    \<lparr>dt_domain = domain, dt_state = D_TRUSTED,
                     dt_weight = (case ws of [] \<Rightarrow> 0 | w # ws' \<Rightarrow> foldl min w ws'),
                     dt_contributing = contributing', dt_dropped = dropped, dt_reason = DR_None\<rparr>)))"

text \<open>What a required list needs: every source reported and past the gate.\<close>

definition source_ok :: "(string, source_trust) dict \<Rightarrow> string \<Rightarrow> bool" where
  "source_ok sources name \<longleftrightarrow> (\<exists>st. dict_get sources name = Some st \<and> passes_gate st)"

lemma required_loop_ok:
  "list_all (source_ok sources) names \<Longrightarrow>
   required_loop dm sources names ws cs =
     Inr (ws @ map (\<lambda>n. st_weight (the (dict_get sources n))) names, cs @ names)"
  by (induction names arbitrary: ws cs) (auto simp: source_ok_def passes_gate_def GATE_PASS_def)

lemma required_loop_not_trusted:
  "\<not> list_all (source_ok sources) names \<Longrightarrow>
   \<exists>s r. required_loop dm sources names ws cs = Inl (verdict dm s r) \<and> s \<noteq> D_TRUSTED"
proof (induction names arbitrary: ws cs)
  case (Cons m names)
  show ?case
  proof (cases "source_ok sources m")
    case True
    with Cons show ?thesis by (auto simp: source_ok_def passes_gate_def GATE_PASS_def)
  next
    case False
    then show ?thesis by (auto simp: source_ok_def split: option.split)
  qed
qed simp

lemma optional_loop_filter:
  "optional_loop sources names cs ds =
     (cs @ filter (source_ok sources) names,
      ds @ filter (\<lambda>n. dict_get sources n \<noteq> None \<and> \<not> source_ok sources n) names)"
  by (induction names arbitrary: cs ds) (auto simp: source_ok_def split: option.split)

lemma foldl_min_le: "foldl min (w::rat) ws \<le> w \<and> (\<forall>v\<in>set ws. foldl min w ws \<le> v)"
proof (induction ws arbitrary: w)
  case (Cons v ws)
  from Cons[of "min w v"] show ?case by auto
qed simp

lemma foldl_min_in: "foldl min (w::rat) ws \<in> insert w (set ws)"
proof (induction ws arbitrary: w)
  case (Cons v ws)
  from Cons[of "min w v"] show ?case by (auto simp: min_def split: if_splits)
qed simp

lemma domain_trusted_iff:
  assumes "dict_get DOMAIN_SOURCES domain = Some (required, optional)"
  shows "dt_state (resolve_domain_trust domain sources) = D_TRUSTED \<longleftrightarrow> list_all (source_ok sources) required"
proof (cases "list_all (source_ok sources) required")
  case True
  then show ?thesis using required_loop_ok[OF True, of domain "[]" "[]"]
    by (simp add: resolve_domain_trust_def assms optional_loop_filter)
next
  case False
  obtain s r where "required_loop domain sources required [] [] = Inl (verdict domain s r)" "s \<noteq> D_TRUSTED"
    using required_loop_not_trusted[OF False] by blast
  with False show ?thesis by (simp add: resolve_domain_trust_def assms verdict_def)
qed

subsection \<open>Properties\<close>

text \<open>A domain is trusted exactly when every source it requires was reported and passes the gate.
  Then its weight is the smallest weight among the required sources, it lists as contributing the
  required sources and the optional ones that pass, and as dropped the reported optional ones that
  do not.  No optional source can lift or sink a domain.\<close>
theorem domain_trusted_iff_required_pass:
  assumes "dict_get DOMAIN_SOURCES domain = Some (required, optional)"
  shows "(dt_state (resolve_domain_trust domain sources) = D_TRUSTED \<longleftrightarrow> (\<forall>n\<in>set required. source_ok sources n)) \<and>
    (dt_state (resolve_domain_trust domain sources) = D_TRUSTED \<longrightarrow>
       dt_contributing (resolve_domain_trust domain sources) = required @ filter (source_ok sources) optional \<and>
       dt_dropped (resolve_domain_trust domain sources) =
         filter (\<lambda>n. dict_get sources n \<noteq> None \<and> \<not> source_ok sources n) optional \<and>
       (\<forall>n\<in>set required. \<forall>st. dict_get sources n = Some st \<longrightarrow>
          dt_weight (resolve_domain_trust domain sources) \<le> st_weight st) \<and>
       (\<exists>n\<in>set required. \<exists>st. dict_get sources n = Some st \<and>
          dt_weight (resolve_domain_trust domain sources) = st_weight st)) \<and>
    (dt_state (resolve_domain_trust domain sources) \<noteq> D_TRUSTED \<longrightarrow> dt_weight (resolve_domain_trust domain sources) = 0)"
proof (cases "list_all (source_ok sources) required")
  case True
  let ?ws = "map (\<lambda>n. st_weight (the (dict_get sources n))) required"
  have ne: "required \<noteq> []" using assms by (auto simp: DOMAIN_SOURCES_def split: if_splits)
  then obtain w ws where w: "?ws = w # ws" by (cases required) auto
  have r: "resolve_domain_trust domain sources =
    \<lparr>dt_domain = domain, dt_state = D_TRUSTED, dt_weight = foldl min w ws,
     dt_contributing = required @ filter (source_ok sources) optional,
     dt_dropped = filter (\<lambda>n. dict_get sources n \<noteq> None \<and> \<not> source_ok sources n) optional,
     dt_reason = DR_None\<rparr>"
    unfolding resolve_domain_trust_def assms using required_loop_ok[OF True, of domain "[]" "[]"] w
    by (simp add: optional_loop_filter)
  have le: "foldl min w ws \<le> v" if "v \<in> set ?ws" for v using foldl_min_le[of w ws] that w by auto
  have "foldl min w ws \<in> set ?ws" using foldl_min_in[of w ws] w by simp
  then obtain n where n: "n \<in> set required" "foldl min w ws = st_weight (the (dict_get sources n))" by auto
  with True obtain st where "dict_get sources n = Some st" by (auto simp: list_all_iff source_ok_def)
  with n r le True show ?thesis by (force simp: list_all_iff)
next
  case False
  obtain s r where v: "required_loop domain sources required [] [] = Inl (verdict domain s r)" "s \<noteq> D_TRUSTED"
    using required_loop_not_trusted[OF False] by blast
  then have "resolve_domain_trust domain sources = verdict domain s r"
    by (simp add: resolve_domain_trust_def assms)
  with v(2) False show ?thesis by (simp add: verdict_def list_all_iff)
qed

theorem domain_trusted_iff_required_pass_witness:
  "dt_state (resolve_domain_trust ''storage''
     [(''storage_reliability'', \<lparr>st_source = ''storage_reliability'', st_state = S_DEGRADED, st_weight = 1/2,
        st_collector = C_PARTIAL, st_semantic = PLAUSIBLE, st_reason = RNone\<rparr>)]) = D_TRUSTED"
proof -
  have "dict_get DOMAIN_SOURCES ''storage'' = Some ([''storage_reliability''], [''disk_latency'', ''smart''])"
    by (simp add: DOMAIN_SOURCES_def)
  from domain_trusted_iff_required_pass[OF this] show ?thesis
    by (simp add: source_ok_def passes_gate_def GATE_PASS_def)
qed

end
