(* ===== verification/TrustValidators.thy ===== *)
theory TrustValidators
  imports Trust
begin

text \<open>
  The semantic validators of \<open>server/trust/validators.py\<close>.  Readings are decoded JSON of unknown
  shape; an exception a reading provokes is the error of the result.  Ranges are exact comparisons
  on binary64 values, with which NaN is never out of range.
\<close>

type_synonym vresult = "semantic_status \<times> reason"

definition V_OK :: vresult where
  "V_OK = (PLAUSIBLE, RNone)"

fun to_num :: "jval \<Rightarrow> pyfloat option res" where
  \<comment> \<open>\<open>_num\<close>: \<open>float(value)\<close> with \<open>TypeError\<close> and \<open>ValueError\<close> caught\<close>
  "to_num JNull = Inr None"
| "to_num (JBool b) = Inr (Some (Fin (if b then 1 else 0)))"
| "to_num (JInt i) = bindE (float_of_int i) (\<lambda>f. Inr (Some f))"
| "to_num (JFloat f) = Inr (Some f)"
| "to_num (JStr s) = (case float_of_str s of Inr f \<Rightarrow> Inr (Some f) | Inl _ \<Rightarrow> Inr None)"
| "to_num (JList xs) = Inr None"
| "to_num (JObj d) = Inr None"

definition outside :: "pyfloat \<Rightarrow> rat \<Rightarrow> rat \<Rightarrow> bool" where
  "outside v lo hi \<longleftrightarrow> flt v (Fin lo) \<or> flt (Fin hi) v"

definition validate_scalar_range :: "string \<Rightarrow> jval \<Rightarrow> rat \<Rightarrow> rat \<Rightarrow> vresult res" where
  "validate_scalar_range source value lo hi =
     bindE (to_num value) (\<lambda>v. case v of
       None \<Rightarrow> Inr V_OK
     | Some x \<Rightarrow> if outside x lo hi then Inr (IMPLAUSIBLE, ROutside source x lo hi) else Inr V_OK)"

fun checks :: "('a \<Rightarrow> vresult res) \<Rightarrow> 'a list \<Rightarrow> vresult res" where
  \<comment> \<open>the loops that return the first verdict that is not plausible\<close>
  "checks f [] = Inr V_OK"
| "checks f (x # xs) = bindE (f x) (\<lambda>r. if fst r \<noteq> PLAUSIBLE then Inr r else checks f xs)"

definition is_neg :: "pyfloat option \<Rightarrow> bool" where
  "is_neg v = (case v of None \<Rightarrow> False | Some x \<Rightarrow> flt x (Fin 0))"

definition dropped :: "pyfloat option \<Rightarrow> pyfloat option \<Rightarrow> bool" where
  "dropped cur prev = (case (cur, prev) of (Some c, Some p) \<Rightarrow> flt c p | _ \<Rightarrow> False)"

definition negative_check :: "string \<Rightarrow> jobj \<Rightarrow> string \<Rightarrow> vresult res" where
  "negative_check prefix item key =
     bindE (to_num (jget item key)) (\<lambda>cur.
     if is_neg cur then Inr (IMPLAUSIBLE, RNegative (prefix @ key) (the cur)) else Inr V_OK)"

definition drop_check :: "(string \<Rightarrow> string) \<Rightarrow> jobj \<Rightarrow> jobj \<Rightarrow> string \<Rightarrow> vresult res" where
  "drop_check name item lst key =
     bindE (to_num (jget item key)) (\<lambda>cur. bindE (to_num (jget lst key)) (\<lambda>prev.
     if dropped cur prev then Inr (INCONSISTENT, RDropped (name key) (the prev) (the cur))
     else Inr V_OK))"

definition storage_counters :: "string list" where
  "storage_counters = [''reallocated_sectors'', ''power_on_hours'', ''read_errors_total'', ''write_errors_total'']"

definition storage_counter_check :: "jobj \<Rightarrow> jobj option \<Rightarrow> string \<Rightarrow> vresult res" where
  "storage_counter_check item lst key =
     bindE (negative_check '''' item key) (\<lambda>r.
     if fst r \<noteq> PLAUSIBLE then Inr r
     else case lst of None \<Rightarrow> Inr V_OK | Some l \<Rightarrow> drop_check (\<lambda>k. k) item l key)"

definition validate_storage_item :: "jobj \<Rightarrow> jobj option \<Rightarrow> vresult res" where
  "validate_storage_item item lst =
     bindE (to_num (jget item ''wear_pct'')) (\<lambda>wear.
     if (case wear of None \<Rightarrow> False | Some w \<Rightarrow> outside w 0 100) then Inr (IMPLAUSIBLE, RWear (the wear))
     else checks (storage_counter_check item lst) storage_counters)"

definition SMART_MONOTONIC_ATTRS :: "string list" where
  "SMART_MONOTONIC_ATTRS = [''5'', ''197'', ''198'']"

definition smart_percent :: "string list" where
  "smart_percent = [''nvme_spare_pct'', ''nvme_spare_threshold_pct'', ''nvme_percentage_used'']"

definition smart_counters :: "string list" where
  "smart_counters = [''nvme_media_errors'', ''nvme_unsafe_shutdowns'', ''power_on_hours'']"

definition same_disk :: "jobj \<Rightarrow> jobj option \<Rightarrow> bool" where
  "same_disk item lst = (case lst of None \<Rightarrow> False
     | Some l \<Rightarrow> jget item ''serial_hash'' \<noteq> JNull \<and> py_eq (jget l ''serial_hash'') (jget item ''serial_hash''))"

definition validate_smart_item :: "jobj \<Rightarrow> jobj option \<Rightarrow> vresult res" where
  "validate_smart_item item lst =
     bindE (checks (\<lambda>k. validate_scalar_range (''smart.'' @ k) (jget item k) 0 100) smart_percent) (\<lambda>r.
     if fst r \<noteq> PLAUSIBLE then Inr r
     else bindE (to_num (jget item ''temperature_c'')) (\<lambda>temp.
       if (case temp of None \<Rightarrow> False | Some t \<Rightarrow> outside t (- 10) 100) then Inr (IMPLAUSIBLE, RTemp (the temp))
       else bindE (checks (negative_check ''smart.'' item) smart_counters) (\<lambda>r.
         if fst r \<noteq> PLAUSIBLE then Inr r
         else if \<not> same_disk item lst then Inr V_OK
         else let l = the lst in
           bindE (checks (drop_check (\<lambda>k. ''smart.'' @ k) item l) smart_counters) (\<lambda>r.
           if fst r \<noteq> PLAUSIBLE then Inr r
           else case (jget item ''smart_attrs'', jget l ''smart_attrs'') of
             (JObj attrs, JObj last_attrs) \<Rightarrow> checks (drop_check (\<lambda>k. ''smart.attr['' @ k @ '']'') attrs last_attrs) SMART_MONOTONIC_ATTRS
           | _ \<Rightarrow> Inr V_OK))))"

definition validate_frozen_constant :: "string \<Rightarrow> jval \<Rightarrow> jval \<Rightarrow> vresult res" where
  "validate_frozen_constant source value last_value =
     bindE (to_num value) (\<lambda>cur. bindE (to_num last_value) (\<lambda>prev.
     case (cur, prev) of
       (Some c, Some p) \<Rightarrow> if feq c p then Inr (FROZEN, RConstant source c) else Inr V_OK
     | _ \<Rightarrow> Inr V_OK))"

definition MATERIAL_SOURCES :: "string set" where
  "MATERIAL_SOURCES = {''storage_reliability'', ''free_space'', ''reliability'', ''boot_time'', ''throttle'',
     ''event_counts'', ''network'', ''smart''}"

definition KNOWN_BAD_FIRMWARE :: "((string \<times> string) \<times> string) list" where
  "KNOWN_BAD_FIRMWARE = [((''BadSSD X1'', ''EVIL01''), ''known-bad firmware (advisory seed)'')]"

fun is_infix :: "string \<Rightarrow> string \<Rightarrow> bool" where
  \<comment> \<open>Python's \<open>needle in text\<close>\<close>
  "is_infix p [] = (p = [])"
| "is_infix p (c # s) = (take (length p) (c # s) = p \<or> is_infix p s)"

text \<open>\<open>str(x)\<close> of a value that is not a string is the interpreter's rendering, a parameter here.\<close>

definition text_or_empty :: "(jval \<Rightarrow> string) \<Rightarrow> jval \<Rightarrow> string" where
  \<comment> \<open>\<open>str(x or "")\<close>\<close>
  "text_or_empty render v = (if \<not> truthy v then '''' else case v of JStr s \<Rightarrow> s | _ \<Rightarrow> render v)"

fun known_bad_loop :: "string \<Rightarrow> string \<Rightarrow> ((string \<times> string) \<times> string) list \<Rightarrow> vresult" where
  "known_bad_loop model fw [] = V_OK"
| "known_bad_loop model fw (((m, f), r) # rest) =
     (if is_infix m model \<and> f = fw then (KNOWN_BAD, RKnownBad r model fw) else known_bad_loop model fw rest)"

definition known_bad :: "(jval \<Rightarrow> string) \<Rightarrow> jobj \<Rightarrow> vresult" where
  "known_bad render item =
     known_bad_loop (text_or_empty render (jget item ''model'')) (text_or_empty render (jget item ''firmware''))
       KNOWN_BAD_FIRMWARE"

fun iterate :: "jval \<Rightarrow> jval list res" where
  \<comment> \<open>\<open>for x in v or []\<close>\<close>
  "iterate (JList xs) = Inr xs"
| "iterate (JObj d) = Inr (map (JStr \<circ> fst) d)"
| "iterate (JStr s) = Inr (map (\<lambda>c. JStr [c]) s)"
| "iterate v = (if truthy v then Inl TypeError else Inr [])"

definition quality_check :: "jval \<Rightarrow> vresult res" where
  "quality_check q = (case q of
     JObj d \<Rightarrow> checks (\<lambda>(key, lo, hi). validate_scalar_range (''network.'' @ key) (jget d key) lo hi)
                 [(''loss_pct'', 0, 100), (''latency_ms'', 0, 60000)]
   | _ \<Rightarrow> Inr V_OK)"

definition validate_network :: "jobj \<Rightarrow> vresult res" where
  "validate_network reading =
     bindE (iterate (jget reading ''quality'')) (\<lambda>qs.
     bindE (checks quality_check qs) (\<lambda>r.
     if fst r \<noteq> PLAUSIBLE then Inr r
     else bindE (iterate (jget reading ''signal_pcts'')) (\<lambda>sigs.
       checks (\<lambda>sig. validate_scalar_range ''network.signal_pct'' sig 0 100) sigs)))"

definition validate_source :: "(jval \<Rightarrow> string) \<Rightarrow> string \<Rightarrow> jobj \<Rightarrow> jobj option \<Rightarrow> vresult res" where
  "validate_source render source reading lst =
     (if source \<notin> MATERIAL_SOURCES then Inr (UNCHECKED, RNone)
      else if source = ''network'' then validate_network reading
      else if source = ''storage_reliability'' then
        (let kb = known_bad render reading
         in if fst kb \<noteq> PLAUSIBLE then Inr kb else validate_storage_item reading lst)
      else if source = ''smart'' then validate_smart_item reading lst
      else if source = ''free_space'' then validate_scalar_range source (jget reading ''value'') 0 100
      else if source = ''reliability'' then validate_scalar_range source (jget reading ''value'') 0 10
      else if source = ''boot_time'' then validate_scalar_range source (jget reading ''value'') 0 600000
      else if source = ''throttle'' then
        validate_frozen_constant source (jget reading ''value'')
          (case lst of None \<Rightarrow> JNull | Some l \<Rightarrow> jget l ''value'')
      else if source = ''event_counts'' then
        checks (\<lambda>(key, val). validate_scalar_range key val 0 1000000) reading
      else Inr V_OK)"

subsection \<open>Which verdicts a validator can give\<close>

lemma checks_result:
  "checks f xs = Inr r \<Longrightarrow> r = V_OK \<or> (\<exists>x\<in>set xs. f x = Inr r \<and> fst r \<noteq> PLAUSIBLE)"
  by (induction xs) (auto split: if_splits)

lemma checks_ok_iff:
  "checks f xs = Inr r \<Longrightarrow> fst r = PLAUSIBLE \<longleftrightarrow> (\<forall>x\<in>set xs. \<exists>r. f x = Inr r \<and> fst r = PLAUSIBLE)"
  by (induction xs) (auto split: if_splits simp: V_OK_def)

lemma scalar_range_status:
  "validate_scalar_range s v lo hi = Inr r \<Longrightarrow> fst r \<in> {PLAUSIBLE, IMPLAUSIBLE}"
  by (auto simp: validate_scalar_range_def V_OK_def split: option.splits if_splits)

lemma scalar_range_plausible_iff:
  "validate_scalar_range s v lo hi = Inr r \<Longrightarrow> fst r = PLAUSIBLE \<longleftrightarrow>
     (\<forall>x. to_num v = Inr (Some x) \<longrightarrow> \<not> outside x lo hi)"
  by (auto simp: validate_scalar_range_def V_OK_def split: option.splits if_splits)

lemma to_num_error: "to_num v = Inl e \<Longrightarrow> e = OverflowError \<and> (\<exists>i. v = JInt i)"
  by (cases v) (auto simp: float_of_int_def bindE_Inl_iff split: sum.splits pyfloat.splits)

lemma validate_error_scalar: "validate_scalar_range s v lo hi = Inl e \<Longrightarrow> e = OverflowError"
  by (auto simp: validate_scalar_range_def bindE_Inl_iff dest!: to_num_error split: option.splits if_splits)

lemma checks_error: "checks f xs = Inl e \<Longrightarrow> \<exists>x\<in>set xs. f x = Inl e"
  by (induction xs) (auto simp: bindE_Inl_iff split: if_splits)

lemma negative_check_error: "negative_check p item k = Inl e \<Longrightarrow> e = OverflowError"
  by (auto simp: negative_check_def bindE_Inl_iff dest!: to_num_error split: if_splits)

lemma drop_check_error: "drop_check n item l k = Inl e \<Longrightarrow> e = OverflowError"
  by (auto simp: drop_check_def bindE_Inl_iff dest!: to_num_error split: if_splits)

lemma counter_check_error: "storage_counter_check item l k = Inl e \<Longrightarrow> e = OverflowError"
  by (auto simp: storage_counter_check_def bindE_Inl_iff dest!: negative_check_error drop_check_error
      split: if_splits option.splits)

lemma iterate_error: "iterate v = Inl e \<Longrightarrow> e = TypeError"
  by (cases v) (auto split: if_splits)

lemma quality_check_error: "quality_check q = Inl e \<Longrightarrow> e = OverflowError"
  by (auto simp: quality_check_def bindE_Inl_iff dest!: validate_error_scalar split: jval.splits if_splits)

lemma storage_item_error: "validate_storage_item item l = Inl e \<Longrightarrow> e = OverflowError"
  by (auto simp: validate_storage_item_def bindE_Inl_iff dest!: to_num_error checks_error counter_check_error
      split: if_splits)

lemma frozen_error: "validate_frozen_constant s v w = Inl e \<Longrightarrow> e = OverflowError"
  by (auto simp: validate_frozen_constant_def bindE_Inl_iff dest!: to_num_error split: if_splits option.splits)

lemma network_error: "validate_network r = Inl e \<Longrightarrow> e = OverflowError \<or> e = TypeError"
  by (auto simp: validate_network_def bindE_Inl_iff split: if_splits
      dest!: checks_error validate_error_scalar iterate_error quality_check_error)

lemma smart_item_error: "validate_smart_item item l = Inl e \<Longrightarrow> e = OverflowError"
proof -
  assume "validate_smart_item item l = Inl e"
  then consider
      "checks (\<lambda>k. validate_scalar_range (''smart.'' @ k) (jget item k) 0 100) smart_percent = Inl e"
    | "to_num (jget item ''temperature_c'') = Inl e"
    | "checks (negative_check ''smart.'' item) smart_counters = Inl e"
    | n l' i ks where "checks (drop_check n i l') ks = Inl e"
    by (auto simp: validate_smart_item_def bindE_Inl_iff Let_def split: if_splits jval.splits)
  then show ?thesis
    by cases (auto dest!: checks_error validate_error_scalar to_num_error negative_check_error drop_check_error)
qed

lemma oversized_raises:
  assumes "2 ^ 1024 \<le> i"
  shows "validate_source render ''storage_reliability'' [(''power_on_hours'', JInt i)] lst = Inl OverflowError"
proof -
  have "(of_int (2 ^ 1024) :: rat) \<le> of_int i" using assms by (simp only: of_int_le_iff)
  then have "rnd64 (of_int i) = PInf" by (intro rnd64_overflow) simp
  then have o: "to_num (JInt i) = Inl OverflowError" by (simp add: float_of_int_def)
  let ?d = "[(''power_on_hours'', JInt i)]"
  have k: "known_bad render ?d = V_OK"
    by (simp add: known_bad_def KNOWN_BAD_FIRMWARE_def jget_def text_or_empty_def)
  have n: "negative_check '''' ?d ''reallocated_sectors'' = Inr V_OK"
    "negative_check '''' ?d ''power_on_hours'' = Inl OverflowError"
    "jget ?d ''reallocated_sectors'' = JNull"
    using o by (simp_all add: negative_check_def jget_def is_neg_def del: to_num.simps(3))
  have w: "jget ?d ''wear_pct'' = JNull" by (simp add: jget_def)
  have "checks (storage_counter_check ?d lst) storage_counters = Inl OverflowError"
  proof (cases lst)
    case None
    then show ?thesis using n by (simp add: storage_counters_def storage_counter_check_def V_OK_def)
  next
    case (Some l)
    show ?thesis
    proof (cases "to_num (jget l ''reallocated_sectors'')")
      case (Inl e)
      with to_num_error[OF Inl] Some n show ?thesis
        by (simp add: storage_counters_def storage_counter_check_def V_OK_def drop_check_def)
    next
      case (Inr v)
      with Some n show ?thesis
        by (simp add: storage_counters_def storage_counter_check_def V_OK_def drop_check_def dropped_def)
    qed
  qed
  with k w show ?thesis
    by (simp add: validate_source_def MATERIAL_SOURCES_def V_OK_def validate_storage_item_def)
qed

text \<open>A validator answers for every reading, whatever its types, with one exception to its promise that
  what is not a number counts as absent: an integer too large for a float raises \<open>OverflowError\<close>,
  which \<open>_num\<close> does not catch, out of the ingest of the envelope that carried it.  (The network
  reading can also hold a number where a list belongs, a \<open>TypeError\<close>.)\<close>
theorem validators_raise_only_on_oversized_integers:
  "(\<forall>e. validate_source render source reading lst = Inl e \<longrightarrow>
      e = OverflowError \<or> source = ''network'' \<and> e = TypeError) \<and>
   validate_source render ''storage_reliability'' [(''power_on_hours'', JInt (2 ^ 1024 + int n))] lst = Inl OverflowError"
proof -
  have "2 ^ 1024 \<le> (2 ^ 1024 + int n :: int)" by (simp del: power_numeral)
  then have "validate_source render ''storage_reliability'' [(''power_on_hours'', JInt (2 ^ 1024 + int n))] lst = Inl OverflowError"
    by (rule oversized_raises)
  moreover have "e = OverflowError \<or> source = ''network'' \<and> e = TypeError"
    if "validate_source render source reading lst = Inl e" for e
    using that by (auto simp: validate_source_def Let_def split: if_splits
        dest: network_error storage_item_error smart_item_error validate_error_scalar frozen_error
        dest!: checks_error)
  ultimately show ?thesis by blast
qed

theorem validators_raise_only_on_oversized_integers_witness:
  "validate_source (\<lambda>_. '''') ''storage_reliability'' [(''power_on_hours'', JInt (2 ^ 1024 + int 0))] None =
     Inl OverflowError"
  using validators_raise_only_on_oversized_integers by blast

end
