(* ===== verification/TrustStore.thy ===== *)
theory TrustStore
  imports TrustValidators
begin

text \<open>
  The trust tables and what writes them: ingest (\<open>evaluate_trust\<close> of \<open>server/pipeline.py\<close>) and the
  periodic staleness cycle (\<open>server/trust/staleness.py\<close>), over the three tables of
  \<open>server/db.py\<close> they share.  Rows hold the text the database holds, so a malformed row is a case.
  An exception leaves the writes made before it, so an operation returns the tables and a result.
\<close>

subsection \<open>Enumerations as text\<close>

definition cs_values :: "(collector_status \<times> string) list" where
  "cs_values = [(C_OK, ''ok''), (C_PARTIAL, ''partial''), (C_EMPTY, ''empty''), (C_TIMEOUT, ''timeout''),
     (C_BLOCKED, ''blocked''), (C_ABSENT, ''absent'')]"

definition sem_values :: "(semantic_status \<times> string) list" where
  "sem_values = [(PLAUSIBLE, ''plausible''), (IMPLAUSIBLE, ''implausible''), (INCONSISTENT, ''inconsistent''),
     (FROZEN, ''frozen''), (KNOWN_BAD, ''known_bad''), (UNCHECKED, ''unchecked'')]"

definition state_values :: "(source_state \<times> string) list" where
  "state_values = [(S_OK, ''ok''), (S_DEGRADED, ''degraded''), (S_STALE, ''stale''),
     (S_UNAVAILABLE, ''unavailable''), (S_SUSPECT, ''suspect''), (S_NOT_APPLICABLE, ''not_applicable'')]"

definition value_of :: "('e \<times> string) list \<Rightarrow> 'e \<Rightarrow> string" where
  "value_of tab e = the (map_of tab e)"

definition member_of :: "('e \<times> string) list \<Rightarrow> string \<Rightarrow> 'e res" where
  \<comment> \<open>\<open>Enum(text)\<close>\<close>
  "member_of tab s = (case find (\<lambda>(e, v). v = s) tab of None \<Rightarrow> Inl ValueError | Some (e, v) \<Rightarrow> Inr e)"

lemma member_of_cs [simp]: "member_of cs_values (value_of cs_values c) = Inr c"
  by (cases c) (simp_all add: member_of_def value_of_def cs_values_def)

lemma member_of_sem [simp]: "member_of sem_values (value_of sem_values c) = Inr c"
  by (cases c) (simp_all add: member_of_def value_of_def sem_values_def)

lemma member_of_state [simp]: "member_of state_values (value_of state_values c) = Inr c"
  by (cases c) (simp_all add: member_of_def value_of_def state_values_def)

lemma value_of_state_inj [simp]: "value_of state_values a = value_of state_values b \<longleftrightarrow> a = b"
  by (metis member_of_state sum.inject(2))

subsection \<open>Tables\<close>

record trust_row =
  tr_state :: string
  tr_weight :: rat
  tr_collector :: string
  tr_semantic :: string
  tr_reason :: reason
  tr_ts :: string
  tr_evidence :: "string option"

record source_out =
  so_trust :: source_trust
  so_regressed :: bool

record trust_blob =
  tb_domains :: "(string, domain_trust) dict"
  tb_sources :: "(string, source_out) dict"

record trust_db =
  td_rows :: "(string \<times> string, trust_row) dict"
  td_last_good :: "(string \<times> string, jobj \<times> string) dict"
  td_trust :: "(string, string \<times> trust_blob) dict"

definition upsert_source_trust :: "string \<Rightarrow> string \<Rightarrow> trust_row \<Rightarrow> trust_db \<Rightarrow> trust_db" where
  "upsert_source_trust device source row db =
     (let old = dict_get (td_rows db) (device, source);
          ev = (case tr_evidence row of
                  Some e \<Rightarrow> Some e | None \<Rightarrow> (case old of None \<Rightarrow> None | Some r \<Rightarrow> tr_evidence r))
      in db\<lparr>td_rows := dict_set (td_rows db) (device, source) (row\<lparr>tr_evidence := ev\<rparr>)\<rparr>)"

definition set_last_good :: "string \<Rightarrow> string \<Rightarrow> jobj \<Rightarrow> string \<Rightarrow> trust_db \<Rightarrow> trust_db" where
  "set_last_good device source reading ts db =
     db\<lparr>td_last_good := dict_set (td_last_good db) (device, source) (reading, ts)\<rparr>"

definition get_last_good :: "string \<Rightarrow> string \<Rightarrow> trust_db \<Rightarrow> jobj option" where
  "get_last_good device source db = map_option fst (dict_get (td_last_good db) (device, source))"

definition get_last_good_sources :: "string \<Rightarrow> trust_db \<Rightarrow> string list" where
  "get_last_good_sources device db =
     map (snd \<circ> fst) (filter (\<lambda>((d, s), _). d = device) (td_last_good db))"

definition get_source_trusts :: "string \<Rightarrow> trust_db \<Rightarrow> (string \<times> trust_row) list" where
  "get_source_trusts device db =
     map (\<lambda>((d, s), r). (s, r)) (filter (\<lambda>((d, s), _). d = device) (td_rows db))"

definition store_trust :: "string \<Rightarrow> string \<Rightarrow> trust_blob \<Rightarrow> trust_db \<Rightarrow> trust_db" where
  "store_trust device ts blob db = db\<lparr>td_trust := dict_set (td_trust db) device (ts, blob)\<rparr>"

subsection \<open>Readings\<close>

definition first_item :: "jval \<Rightarrow> jval res" where
  \<comment> \<open>\<open>items = v or [{}]; items[0] if items else {}\<close>\<close>
  "first_item v =
     (if \<not> truthy v then Inr (JObj [])
      else case v of
        JList xs \<Rightarrow> Inr (hd xs)
      | JStr s \<Rightarrow> Inr (JStr [hd s])
      | JObj d \<Rightarrow> Inl KeyError
      | _ \<Rightarrow> Inl TypeError)"

definition smart_keys :: "string list" where
  "smart_keys = [''serial_hash'', ''temperature_c'', ''power_on_hours'', ''nvme_spare_pct'',
     ''nvme_spare_threshold_pct'', ''nvme_percentage_used'', ''nvme_media_errors'', ''nvme_unsafe_shutdowns'']"

definition signal_pcts :: "jval list \<Rightarrow> jval list" where
  "signal_pcts adapters = concat (map (\<lambda>a. case a of
     JObj d \<Rightarrow> if jget d ''signal_pct'' \<noteq> JNull then [jget d ''signal_pct''] else [] | _ \<Rightarrow> []) adapters)"

definition or_else :: "jval \<Rightarrow> jval \<Rightarrow> jval" where
  "or_else v w = (if truthy v then v else w)"

definition extract_reading :: "string \<Rightarrow> jobj \<Rightarrow> jval res" where
  "extract_reading source payload =
     (if source = ''storage_reliability'' then first_item (jget payload ''storage'')
      else if source = ''smart'' then
        bindE (first_item (jget payload ''storage'')) (\<lambda>item.
        case item of
          JObj d \<Rightarrow> Inr (JObj (map (\<lambda>k. (k, jget d k)) smart_keys @
                       [(''smart_attrs'', or_else (jget d ''smart_attrs'') (JObj []))]))
        | _ \<Rightarrow> Inl AttributeError)
      else if source = ''free_space'' then Inr (JObj [(''value'', jget payload ''free_space_pct'')])
      else if source = ''throttle'' then Inr (JObj [(''value'', jget payload ''cpu_perf_pct'')])
      else if source = ''reliability'' then Inr (JObj [(''value'', jget payload ''reliability_stability_index'')])
      else if source = ''boot_time'' then Inr (JObj [(''value'', jget payload ''avg_boot_ms'')])
      else if source = ''network'' then
        bindE (iterate (jget payload ''network_adapters'')) (\<lambda>adapters.
        Inr (JObj [(''quality'', or_else (jget payload ''network_quality'') (JList [])),
                   (''adapters_count'', JInt (int (length adapters))),
                   (''signal_pcts'', JList (signal_pcts adapters))]))
      else Inr (JObj []))"

fun hashable :: "jval \<Rightarrow> bool" where
  "hashable (JList _) = False" | "hashable (JObj _) = False" | "hashable _ = True"

definition reading_is_empty :: "jval \<Rightarrow> bool res" where
  "reading_is_empty reading =
     (if \<not> truthy reading then Inr True
      else case reading of
        JObj d \<Rightarrow> Inr (set (dict_keys d) = {''value''} \<and> jget d ''value'' = JNull)
      | JStr s \<Rightarrow> Inr False
      | JList xs \<Rightarrow> if \<not> list_all hashable xs then Inl TypeError
                   else if set xs = {JStr ''value''} then Inl TypeError else Inr False
      | _ \<Rightarrow> Inl TypeError)"

subsection \<open>Ingest\<close>

definition DOMAIN_GATING_SOURCES :: "string set" where
  "DOMAIN_GATING_SOURCES = set (concat (map (\<lambda>(d, req, opt). req @ opt) DOMAIN_SOURCES))"

definition KNOWN_TRUST_SOURCES :: "string set" where
  "KNOWN_TRUST_SOURCES = DOMAIN_GATING_SOURCES \<union> MATERIAL_SOURCES \<union>
     {''identity'', ''events'', ''certificates'', ''print_jobs''}"

definition EMPTY_COERCIBLE_SOURCES :: "string set" where
  "EMPTY_COERCIBLE_SOURCES = DOMAIN_GATING_SOURCES \<inter> MATERIAL_SOURCES"

definition coerce_empty :: "string \<Rightarrow> collector_status \<Rightarrow> jval \<Rightarrow> collector_status res" where
  "coerce_empty source c reading =
     (if c \<noteq> C_OK then Inr c
      else bindE (reading_is_empty reading) (\<lambda>e.
        Inr (if e \<and> source \<in> EMPTY_COERCIBLE_SOURCES then C_EMPTY else c)))"

definition validate_reading :: "(jval \<Rightarrow> string) \<Rightarrow> string \<Rightarrow> jval \<Rightarrow> jobj option \<Rightarrow> vresult res" where
  \<comment> \<open>\<open>validate_source\<close> on a reading that may not be a dictionary: its first \<open>.get\<close> raises\<close>
  "validate_reading render source reading lst = (case reading of
     JObj d \<Rightarrow> validate_source render source d lst
   | _ \<Rightarrow> if source \<in> MATERIAL_SOURCES then Inl AttributeError else Inr (UNCHECKED, RNone))"

definition judge ::
  "(jval \<Rightarrow> string) \<Rightarrow> string \<Rightarrow> jobj \<Rightarrow> string \<Rightarrow> jobj option \<Rightarrow> (collector_status \<times> vresult \<times> jval) res" where
  \<comment> \<open>the body of the ingest loop up to its writes\<close>
  "judge render source payload status lst =
     bindE (member_of cs_values status) (\<lambda>c0.
     bindE (extract_reading source payload) (\<lambda>reading.
     bindE (coerce_empty source c0 reading) (\<lambda>c.
     bindE (validate_reading render source reading lst) (\<lambda>r. Inr (c, r, reading)))))"

definition record_source ::
  "string \<Rightarrow> string \<Rightarrow> string \<Rightarrow> string \<Rightarrow> collector_status \<times> vresult \<times> jval \<Rightarrow> trust_db \<Rightarrow> trust_db" where
  \<comment> \<open>the writes of the ingest loop's body\<close>
  "record_source device source ts received_at j db =
     (case j of (c, (sem, why), reading) \<Rightarrow>
       let state = derive_state c sem None None True;
           has_evidence = (c = C_OK);
           db1 = upsert_source_trust device source
             \<lparr>tr_state = value_of state_values state, tr_weight = compute_weight state,
              tr_collector = value_of cs_values c, tr_semantic = value_of sem_values sem,
              tr_reason = why, tr_ts = ts,
              tr_evidence = (if has_evidence then Some received_at else None)\<rparr> db
       in if has_evidence \<and> truthy reading
          then set_last_good device source (case reading of JObj d \<Rightarrow> d | _ \<Rightarrow> []) ts db1
          else db1)"

fun ingest_loop ::
  "(jval \<Rightarrow> string) \<Rightarrow> string \<Rightarrow> jobj \<Rightarrow> string \<Rightarrow> string \<Rightarrow> (string \<times> string) list \<Rightarrow> trust_db
    \<Rightarrow> trust_db \<times> unit res" where
  "ingest_loop render device payload ts received_at [] db = (db, Inr ())"
| "ingest_loop render device payload ts received_at ((source, status) # rest) db =
     (if source \<notin> KNOWN_TRUST_SOURCES then ingest_loop render device payload ts received_at rest db
      else case judge render source payload status (get_last_good device source db) of
        Inl e \<Rightarrow> (db, Inl e)
      | Inr j \<Rightarrow> ingest_loop render device payload ts received_at rest
                  (record_source device source ts received_at j db))"

definition build_source_trust_map :: "string \<Rightarrow> trust_db \<Rightarrow> (string, source_trust) dict res" where
  "build_source_trust_map device db =
     mapE (\<lambda>(src, row).
       bindE (member_of state_values (tr_state row)) (\<lambda>state.
       bindE (member_of cs_values (tr_collector row)) (\<lambda>c.
       bindE (member_of sem_values (tr_semantic row)) (\<lambda>sem.
       Inr (src, \<lparr>st_source = src, st_state = state, st_weight = tr_weight row, st_collector = c,
                  st_semantic = sem, st_reason = tr_reason row\<rparr>)))))
       (get_source_trusts device db)"

definition build_trust_blob :: "(string, source_trust) dict \<Rightarrow> string list \<Rightarrow> trust_blob" where
  "build_trust_blob source_map have_last_good =
     \<lparr>tb_domains = map (\<lambda>(d, _). (d, resolve_domain_trust d source_map)) DOMAIN_SOURCES,
      tb_sources = map (\<lambda>(src, st). (src,
         \<lparr>so_trust = st, so_regressed = (st_collector st \<in> COLLECTOR_FAIL \<and> src \<in> set have_last_good)\<rparr>))
         source_map\<rparr>"

definition rebuild_domain_blob :: "string \<Rightarrow> string \<Rightarrow> trust_db \<Rightarrow> trust_db \<times> unit res" where
  \<comment> \<open>shared by the end of \<open>evaluate_trust\<close> and by the staleness cycle\<close>
  "rebuild_domain_blob device ts db =
     (case build_source_trust_map device db of
        Inl e \<Rightarrow> (db, Inl e)
      | Inr m \<Rightarrow> (store_trust device ts (build_trust_blob m (get_last_good_sources device db)) db, Inr ()))"

definition evaluate_trust ::
  "(jval \<Rightarrow> string) \<Rightarrow> string \<Rightarrow> jobj \<Rightarrow> (string \<times> string) list \<Rightarrow> string \<Rightarrow> string \<Rightarrow> trust_db
    \<Rightarrow> trust_db \<times> unit res" where
  "evaluate_trust render device payload source_health ts received_at db =
     (case ingest_loop render device payload ts received_at source_health db of
        (db', Inl e) \<Rightarrow> (db', Inl e)
      | (db', Inr _) \<Rightarrow> rebuild_domain_blob device ts db')"

subsection \<open>The staleness cycle\<close>

record stale_update =
  su_device :: string
  su_source :: string
  su_state :: string
  su_weight :: rat
  su_reason :: reason
  su_evidence :: "string option"

definition STALENESS_SOURCES :: "string set" where
  "STALENESS_SOURCES = insert ''identity'' DOMAIN_GATING_SOURCES"

definition age_us :: "string option \<Rightarrow> int \<Rightarrow> int option" where
  "age_us evidence now = (case evidence of
     None \<Rightarrow> None
   | Some e \<Rightarrow> if e = '''' then None
       else (case fromisoformat (replace_Z (strip e)) of Inl _ \<Rightarrow> None | Inr st \<Rightarrow> Some (now - as_utc st)))"

definition age_sec :: "string option \<Rightarrow> int \<Rightarrow> pyfloat option" where
  "age_sec evidence now = map_option total_seconds (age_us evidence now)"

fun div3600 :: "pyfloat \<Rightarrow> pyfloat" where
  "div3600 (Fin q) = rnd64 (q / 3600)"
| "div3600 f = f"

definition reevaluate_row :: "int \<Rightarrow> pyfloat \<Rightarrow> (string \<times> string) \<times> trust_row \<Rightarrow> stale_update option" where
  \<comment> \<open>one pass of the loop of \<open>reevaluate_staleness\<close>\<close>
  "reevaluate_row now thr kr =
     (case kr of ((device, source), row) \<Rightarrow>
       if source \<notin> STALENESS_SOURCES then None
       else (case age_sec (tr_evidence row) now of
         None \<Rightarrow> None
       | Some a \<Rightarrow>
           (case (member_of cs_values (tr_collector row), member_of sem_values (tr_semantic row)) of
              (Inr c, Inr sem) \<Rightarrow>
                let new = derive_state c sem (Some a) (Some thr) True
                in if value_of state_values new = tr_state row then None
                   else Some \<lparr>su_device = device, su_source = source, su_state = value_of state_values new,
                              su_weight = compute_weight new, su_reason = RSilent (div3600 a) (div3600 thr),
                              su_evidence = tr_evidence row\<rparr>
            | _ \<Rightarrow> None)))"

definition reevaluate_staleness ::
  "((string \<times> string) \<times> trust_row) list \<Rightarrow> int \<Rightarrow> pyfloat \<Rightarrow> stale_update list" where
  "reevaluate_staleness rows now thr = List.map_filter (reevaluate_row now thr) rows"

definition apply_one :: "stale_update \<Rightarrow> trust_db \<Rightarrow> trust_db" where
  "apply_one u db = (case dict_get (td_rows db) (su_device u, su_source u) of
     None \<Rightarrow> db
   | Some row \<Rightarrow> if tr_evidence row = su_evidence u
       then db\<lparr>td_rows := dict_set (td_rows db) (su_device u, su_source u)
              (row\<lparr>tr_state := su_state u, tr_weight := su_weight u, tr_reason := su_reason u\<rparr>)\<rparr>
       else db)"

definition apply_source_staleness :: "stale_update list \<Rightarrow> trust_db \<Rightarrow> trust_db" where
  "apply_source_staleness us db = foldl (\<lambda>db u. apply_one u db) db us"

fun rebuild_loop :: "string list \<Rightarrow> string \<Rightarrow> trust_db \<Rightarrow> trust_db \<times> unit res" where
  "rebuild_loop [] ts db = (db, Inr ())"
| "rebuild_loop (d # ds) ts db = (case rebuild_domain_blob d ts db of
     (db', Inl e) \<Rightarrow> (db', Inl e) | (db', Inr _) \<Rightarrow> rebuild_loop ds ts db')"

definition floor_sec :: "pyfloat \<Rightarrow> pyfloat" where
  \<comment> \<open>\<open>max(60.0, stale_after_sec)\<close>\<close>
  "floor_sec stale_after = (if flt (Fin 60) stale_after then stale_after else Fin 60)"

definition run_staleness_cycle :: "pyfloat \<Rightarrow> int \<Rightarrow> string \<Rightarrow> trust_db \<Rightarrow> trust_db \<times> unit res" where
  "run_staleness_cycle stale_after now now_iso db =
     (let us = reevaluate_staleness (td_rows db) now (floor_sec stale_after);
          db' = apply_source_staleness us db
      in rebuild_loop (remdups (map su_device us)) now_iso db')"

subsection \<open>Ingest and staleness interleaved\<close>

text \<open>
  The staleness cycle reads the rows, decides, and writes later; ingest runs in other threads and
  may come between.  A world is the tables, the server clock and the updates decided but not yet
  written; the threshold is fixed.
\<close>

record world =
  w_db :: trust_db
  w_clock :: int
  w_pending :: "stale_update list"

inductive trust_step :: "pyfloat \<Rightarrow> world \<Rightarrow> world \<Rightarrow> bool" for thr :: pyfloat where
  tick: "w_clock w \<le> t \<Longrightarrow> trust_step thr w (w\<lparr>w_clock := t\<rparr>)"
| ingest: "trust_step thr w
     (w\<lparr>w_db := fst (evaluate_trust render device payload health ts received_at (w_db w))\<rparr>)"
| decide: "trust_step thr w (w\<lparr>w_pending := reevaluate_staleness (td_rows (w_db w)) (w_clock w) thr\<rparr>)"
| flush: "trust_step thr w
     (w\<lparr>w_db := apply_source_staleness (w_pending w) (w_db w), w_pending := []\<rparr>)"
| rebuild: "trust_step thr w (w\<lparr>w_db := fst (rebuild_domain_blob device ts (w_db w))\<rparr>)"

inductive_cases trust_stepE: "trust_step thr w w'"

definition empty_world :: "int \<Rightarrow> world" where
  "empty_world t = \<lparr>w_db = \<lparr>td_rows = [], td_last_good = [], td_trust = []\<rparr>, w_clock = t, w_pending = []\<rparr>"

definition trust_reachable :: "pyfloat \<Rightarrow> world \<Rightarrow> bool" where
  "trust_reachable thr w \<longleftrightarrow> (\<exists>t. (trust_step thr)\<^sup>*\<^sup>* (empty_world t) w)"

definition overdue :: "pyfloat \<Rightarrow> int \<Rightarrow> string option \<Rightarrow> bool" where
  "overdue thr now evidence \<longleftrightarrow> (\<exists>a. age_sec evidence now = Some a \<and> flt thr a)"

lemma overdue_later: "overdue thr now ev \<Longrightarrow> now \<le> now' \<Longrightarrow> overdue thr now' ev"
  by (fastforce simp: overdue_def age_sec_def age_us_def split: option.splits sum.splits if_splits
      intro: total_seconds_mono)

definition row_ok :: "pyfloat \<Rightarrow> int \<Rightarrow> trust_row \<Rightarrow> bool" where
  "row_ok thr now row \<longleftrightarrow> (\<exists>c sem st. tr_collector row = value_of cs_values c \<and>
     tr_semantic row = value_of sem_values sem \<and> tr_state row = value_of state_values st \<and>
     tr_weight row = compute_weight st \<and>
     (st = derive_state c sem None None True \<or> st \<notin> GATE_PASS \<and> overdue thr now (tr_evidence row)))"

definition update_ok :: "pyfloat \<Rightarrow> int \<Rightarrow> stale_update \<Rightarrow> bool" where
  "update_ok thr now u \<longleftrightarrow> (\<exists>st. su_state u = value_of state_values st \<and> su_weight u = compute_weight st \<and>
     st \<notin> GATE_PASS) \<and> overdue thr now (su_evidence u)"

definition world_ok :: "pyfloat \<Rightarrow> world \<Rightarrow> bool" where
  "world_ok thr w \<longleftrightarrow> wf_dict (td_rows (w_db w)) \<and>
     (\<forall>(k, row)\<in>set (td_rows (w_db w)). row_ok thr (w_clock w) row) \<and>
     (\<forall>u\<in>set (w_pending w). update_ok thr (w_clock w) u)"

lemma row_ok_later: "row_ok thr now row \<Longrightarrow> now \<le> now' \<Longrightarrow> row_ok thr now' row"
  unfolding row_ok_def by (blast intro: overdue_later)

lemma update_ok_later: "update_ok thr now u \<Longrightarrow> now \<le> now' \<Longrightarrow> update_ok thr now' u"
  unfolding update_ok_def by (blast intro: overdue_later)

lemma set_dict_set: "set (dict_set d k v) \<subseteq> insert (k, v) (set d)"
  by (induction d) auto

lemma rows_set_last_good [simp]: "td_rows (set_last_good d s r ts db) = td_rows db"
  by (simp add: set_last_good_def)

lemma rows_rebuild [simp]: "td_rows (fst (rebuild_domain_blob d ts db)) = td_rows db"
  by (simp add: rebuild_domain_blob_def store_trust_def split: sum.split)

definition rows_ok :: "pyfloat \<Rightarrow> int \<Rightarrow> trust_db \<Rightarrow> bool" where
  "rows_ok thr now db \<longleftrightarrow> wf_dict (td_rows db) \<and> (\<forall>(k, row)\<in>set (td_rows db). row_ok thr now row)"

lemma rows_ok_set:
  "rows_ok thr now db \<Longrightarrow> row_ok thr now row \<Longrightarrow> rows_ok thr now (db\<lparr>td_rows := dict_set (td_rows db) k row\<rparr>)"
  using set_dict_set[of k row "td_rows db"] by (fastforce simp: rows_ok_def)

lemma rows_ok_upsert:
  assumes "rows_ok thr now db" "tr_state row = value_of state_values (derive_state c sem None None True)"
    and "tr_weight row = compute_weight (derive_state c sem None None True)"
    and "tr_collector row = value_of cs_values c" "tr_semantic row = value_of sem_values sem"
  shows "rows_ok thr now (upsert_source_trust d s row db)"
  unfolding upsert_source_trust_def Let_def
  by (rule rows_ok_set[OF assms(1)]) (use assms in \<open>auto simp: row_ok_def\<close>)

lemma rows_ok_record: "rows_ok thr now db \<Longrightarrow> rows_ok thr now (record_source device source ts received j db)"
proof -
  assume ok: "rows_ok thr now db"
  obtain c sem why reading where j: "j = (c, (sem, why), reading)" by (cases j) auto
  show ?thesis
    unfolding record_source_def j
    using rows_ok_upsert[OF ok, of "\<lparr>tr_state = value_of state_values (derive_state c sem None None True),
        tr_weight = compute_weight (derive_state c sem None None True),
        tr_collector = value_of cs_values c, tr_semantic = value_of sem_values sem,
        tr_reason = why, tr_ts = ts, tr_evidence = (if c = C_OK then Some received else None)\<rparr>" c sem device source]
    by (auto simp: Let_def rows_ok_def)
qed

lemma rows_ok_ingest: "rows_ok thr now db \<Longrightarrow>
  rows_ok thr now (fst (ingest_loop render device payload ts received health db))"
  by (induction render device payload ts received health db rule: ingest_loop.induct)
    (auto split: sum.split simp: rows_ok_record)

lemma rows_ok_evaluate: "rows_ok thr now db \<Longrightarrow>
  rows_ok thr now (fst (evaluate_trust render device payload health ts received db))"
  using rows_ok_ingest[of thr now db render device payload ts received health]
  by (auto simp: evaluate_trust_def rows_ok_def split: prod.split sum.split unit.split)

lemma reevaluate_row_ok:
  assumes "reevaluate_row now thr (k, row) = Some u" and "row_ok thr now row"
  shows "update_ok thr now u"
proof -
  obtain d s where k: "k = (d, s)" by (cases k)
  from assms(2) obtain c sem st where r: "tr_collector row = value_of cs_values c"
    "tr_semantic row = value_of sem_values sem" "tr_state row = value_of state_values st"
    "st = derive_state c sem None None True \<or> st \<notin> GATE_PASS \<and> overdue thr now (tr_evidence row)"
    unfolding row_ok_def by blast
  from assms(1) obtain a where a: "age_sec (tr_evidence row) now = Some a"
    by (auto simp: reevaluate_row_def k split: if_splits option.splits)
  let ?new = "derive_state c sem (Some a) (Some thr) True"
  from assms(1) a r k have u: "?new \<noteq> st" "su_state u = value_of state_values ?new"
    "su_weight u = compute_weight ?new" "su_evidence u = tr_evidence row"
    by (auto simp: reevaluate_row_def Let_def split: if_splits)
  have "flt thr a" using u(1) r(4) a by (auto simp: derive_state_aged overdue_def split: if_splits)
  then have "?new \<notin> GATE_PASS" by (auto simp: derive_state_aged GATE_PASS_def)
  with u a \<open>flt thr a\<close> show ?thesis by (auto simp: update_ok_def overdue_def)
qed

lemma map_filter_set: "u \<in> set (List.map_filter f xs) \<longleftrightarrow> (\<exists>x\<in>set xs. f x = Some u)"
  by (force simp: List.map_filter_def)

lemma reevaluate_ok: "rows_ok thr now db \<Longrightarrow> u \<in> set (reevaluate_staleness (td_rows db) now thr) \<Longrightarrow> update_ok thr now u"
  unfolding reevaluate_staleness_def map_filter_set rows_ok_def by (fastforce intro: reevaluate_row_ok)

lemma rows_ok_apply_one:
  assumes "rows_ok thr now db" "update_ok thr now u"
  shows "rows_ok thr now (apply_one u db)"
proof (cases "dict_get (td_rows db) (su_device u, su_source u)")
  case None
  with assms show ?thesis by (simp add: apply_one_def)
next
  case (Some row)
  from dict_get_in[OF this] assms(1) have "row_ok thr now row" by (auto simp: rows_ok_def)
  with assms(2) have "row_ok thr now (row\<lparr>tr_state := su_state u, tr_weight := su_weight u, tr_reason := su_reason u\<rparr>)"
    if "tr_evidence row = su_evidence u"
    using that by (auto simp: row_ok_def update_ok_def)
  with Some assms(1) show ?thesis by (auto simp: apply_one_def intro: rows_ok_set)
qed

lemma rows_ok_apply: "rows_ok thr now db \<Longrightarrow> \<forall>u\<in>set us. update_ok thr now u \<Longrightarrow>
  rows_ok thr now (apply_source_staleness us db)"
  unfolding apply_source_staleness_def
  by (induction us arbitrary: db) (auto intro: rows_ok_apply_one)

lemma world_ok_step: "trust_step thr w w' \<Longrightarrow> world_ok thr w \<Longrightarrow> world_ok thr w'"
proof (induction rule: trust_step.induct)
  case (tick w t)
  then show ?case by (fastforce simp: world_ok_def intro: row_ok_later update_ok_later)
next
  case (ingest w render device payload health ts received)
  then show ?case using rows_ok_evaluate[of thr "w_clock w" "w_db w" render device payload health ts received]
    by (auto simp: world_ok_def rows_ok_def)
next
  case (decide w)
  then show ?case using reevaluate_ok[of thr "w_clock w" "w_db w"] by (auto simp: world_ok_def rows_ok_def)
next
  case (flush w)
  then show ?case using rows_ok_apply[of thr "w_clock w" "w_db w" "w_pending w"]
    by (auto simp: world_ok_def rows_ok_def)
next
  case (rebuild w device ts)
  then show ?case by (simp add: world_ok_def)
qed

lemma world_ok_reachable: "trust_reachable thr w \<Longrightarrow> world_ok thr w"
proof -
  assume "trust_reachable thr w"
  then obtain t where "(trust_step thr)\<^sup>*\<^sup>* (empty_world t) w" by (auto simp: trust_reachable_def)
  then show ?thesis
  proof (induction rule: rtranclp_induct)
    case base
    show ?case by (simp add: world_ok_def empty_world_def)
  next
    case (step y z)
    then show ?case by (blast intro: world_ok_step)
  qed
qed

subsection \<open>What a cycle writes\<close>

definition degrade :: "int \<Rightarrow> pyfloat \<Rightarrow> (string \<times> string) \<Rightarrow> trust_row \<Rightarrow> trust_row" where
  "degrade now thr k row = (case reevaluate_row now thr (k, row) of None \<Rightarrow> row
     | Some u \<Rightarrow> row\<lparr>tr_state := su_state u, tr_weight := su_weight u, tr_reason := su_reason u\<rparr>)"

lemma reevaluate_row_key:
  "reevaluate_row now thr (k, row) = Some u \<Longrightarrow> (su_device u, su_source u) = k \<and> su_evidence u = tr_evidence row"
  by (cases k) (auto simp: reevaluate_row_def Let_def split: if_splits option.splits sum.splits)

lemma apply_one_get:
  "dict_get (td_rows (apply_one u db)) k =
     (if k = (su_device u, su_source u)
      then map_option (\<lambda>row. if tr_evidence row = su_evidence u
             then row\<lparr>tr_state := su_state u, tr_weight := su_weight u, tr_reason := su_reason u\<rparr> else row)
             (dict_get (td_rows db) k)
      else dict_get (td_rows db) k)"
  by (auto simp: apply_one_def dict_simps split: option.split)

lemma apply_get:
  assumes "distinct (map fst xs)" and "\<forall>(k, row)\<in>set xs. dict_get (td_rows db) k = Some row"
  shows "dict_get (td_rows (apply_source_staleness (List.map_filter (reevaluate_row now thr) xs) db)) k =
    (case dict_get xs k of None \<Rightarrow> dict_get (td_rows db) k | Some row \<Rightarrow> Some (degrade now thr k row))"
  using assms
proof (induction xs arbitrary: db)
  case Nil
  show ?case by (simp add: apply_source_staleness_def)
next
  case (Cons kr xs)
  obtain k0 r0 where kr: "kr = (k0, r0)" by (cases kr)
  show ?case
  proof (cases "reevaluate_row now thr (k0, r0)")
    case None
    then have "List.map_filter (reevaluate_row now thr) (kr # xs) = List.map_filter (reevaluate_row now thr) xs"
      by (simp add: kr)
    moreover have "dict_get xs k0 = None" using Cons.prems(1) kr by (auto simp: map_of_eq_None_iff)
    ultimately show ?thesis using Cons.IH[of db] Cons.prems kr None
      by (auto simp: degrade_def split: option.split)
  next
    case (Some u)
    let ?db = "apply_one u db"
    have u: "(su_device u, su_source u) = k0" "su_evidence u = tr_evidence r0"
      using reevaluate_row_key[OF Some] by auto
    have new: "k0 \<notin> set (map fst xs)" using Cons.prems(1) kr by auto
    have "\<forall>(k, row)\<in>set xs. dict_get (td_rows ?db) k = Some row"
    proof clarify
      fix a b row assume in_xs: "((a, b), row) \<in> set xs"
      then have "(a, b) \<noteq> k0" using new by force
      then show "dict_get (td_rows ?db) (a, b) = Some row" using Cons.prems(2) in_xs u(1) by (auto simp: apply_one_get)
    qed
    from Cons.IH[OF _ this] Cons.prems(1) have IH: "dict_get (td_rows (apply_source_staleness (List.map_filter (reevaluate_row now thr) xs) ?db)) k =
      (case dict_get xs k of None \<Rightarrow> dict_get (td_rows ?db) k | Some row \<Rightarrow> Some (degrade now thr k row))" by simp
    have st: "apply_source_staleness (List.map_filter (reevaluate_row now thr) (kr # xs)) db =
      apply_source_staleness (List.map_filter (reevaluate_row now thr) xs) ?db"
      by (simp add: kr Some apply_source_staleness_def)
    have "dict_get (td_rows ?db) k0 = Some (degrade now thr k0 r0)"
      using Cons.prems(2) kr u Some by (auto simp: apply_one_get degrade_def)
    moreover have "dict_get (td_rows ?db) k = dict_get (td_rows db) k" if "k \<noteq> k0"
      using that u(1) by (auto simp: apply_one_get)
    moreover have "dict_get xs k0 = None" using new by (simp add: map_of_eq_None_iff)
    ultimately show ?thesis unfolding st IH
      by (cases "k = k0") (simp_all add: kr split: option.split)
  qed
qed

lemma cycle_rows:
  assumes "wf_dict (td_rows db)"
  shows "dict_get (td_rows (apply_source_staleness (reevaluate_staleness (td_rows db) now thr) db)) k =
    map_option (degrade now thr k) (dict_get (td_rows db) k)"
  using apply_get[of "td_rows db" db now thr k] assms
  by (auto simp: reevaluate_staleness_def wf_dict_def split: option.split)

lemma rows_rebuild_loop [simp]: "td_rows (fst (rebuild_loop ds ts db)) = td_rows db"
proof (induction ds ts db rule: rebuild_loop.induct)
  case (2 d ds ts db)
  then show ?case using rows_rebuild[of d ts db]
    by (cases "rebuild_domain_blob d ts db") (auto split: sum.split unit.split)
qed simp

lemma degrade_overdue:
  assumes "overdue thr now (tr_evidence row)" and "s \<in> STALENESS_SOURCES"
    and "member_of cs_values (tr_collector row) = Inr c" "member_of sem_values (tr_semantic row) = Inr sem"
  shows "\<exists>st. tr_state (degrade now thr (d, s) row) = value_of state_values st \<and> st \<notin> GATE_PASS"
proof -
  from assms(1) obtain a where a: "age_sec (tr_evidence row) now = Some a" "flt thr a"
    by (auto simp: overdue_def)
  let ?new = "derive_state c sem (Some a) (Some thr) True"
  have "?new \<notin> GATE_PASS" using a(2) by (auto simp: derive_state_aged GATE_PASS_def)
  moreover have "tr_state (degrade now thr (d, s) row) = value_of state_values ?new"
    using assms a(1) by (auto simp: degrade_def reevaluate_row_def Let_def)
  ultimately show ?thesis by blast
qed

subsection \<open>The rebuilt blob\<close>

lemma project_rows:
  "(s, row) \<in> set (map (\<lambda>((d, s), r). (s, r)) (filter (\<lambda>((e, s), _). e = d) xs)) \<longleftrightarrow> ((d, s), row) \<in> set xs"
  by (induction xs) auto

lemma get_source_trusts_get:
  assumes "wf_dict (td_rows db)"
  shows "(s, row) \<in> set (get_source_trusts d db) \<longleftrightarrow> dict_get (td_rows db) (d, s) = Some row"
proof -
  have "(s, row) \<in> set (get_source_trusts d db) \<longleftrightarrow> ((d, s), row) \<in> set (td_rows db)"
    unfolding get_source_trusts_def by (rule project_rows)
  then show ?thesis using assms by (simp add: wf_dict_def map_of_eq_Some_iff)
qed

lemma list_all2_in1: "list_all2 P xs ys \<Longrightarrow> x \<in> set xs \<Longrightarrow> \<exists>y\<in>set ys. P x y"
  by (induction rule: list_all2_induct) auto

lemma list_all2_in2: "list_all2 P xs ys \<Longrightarrow> y \<in> set ys \<Longrightarrow> \<exists>x\<in>set xs. P x y"
  by (induction rule: list_all2_induct) auto

lemma map_of_unique: "(k, v) \<in> set xs \<Longrightarrow> (\<And>w. (k, w) \<in> set xs \<Longrightarrow> w = v) \<Longrightarrow> map_of xs k = Some v"
proof (induction xs)
  case (Cons x xs)
  show ?case
  proof (cases "fst x = k")
    case True
    then have "snd x = v" using Cons.prems(2)[of "snd x"] by (cases x) auto
    with True show ?thesis by (cases x) simp
  next
    case False
    then have "(k, v) \<in> set xs" using Cons.prems(1) by auto
    from Cons.IH[OF this Cons.prems(2)] have "map_of xs k = Some v" by simp
    with False show ?thesis by (cases x) simp
  qed
qed simp

lemma build_map_get:
  assumes "wf_dict (td_rows db)" "build_source_trust_map d db = Inr m" "dict_get (td_rows db) (d, s) = Some row"
  shows "\<exists>st. dict_get m s = Some st \<and> member_of state_values (tr_state row) = Inr (st_state st)"
proof -
  let ?f = "\<lambda>(src, row). bindE (member_of state_values (tr_state row)) (\<lambda>state.
       bindE (member_of cs_values (tr_collector row)) (\<lambda>c.
       bindE (member_of sem_values (tr_semantic row)) (\<lambda>sem.
       Inr (src, \<lparr>st_source = src, st_state = state, st_weight = tr_weight row, st_collector = c,
                  st_semantic = sem, st_reason = tr_reason row\<rparr>))))"
  have l: "list_all2 (\<lambda>x y. ?f x = Inr y) (get_source_trusts d db) m"
    using assms(2) by (simp add: build_source_trust_map_def mapE_Inr_conv)
  have "(s, row) \<in> set (get_source_trusts d db)" using assms by (simp add: get_source_trusts_get)
  from list_all2_in1[OF l this] obtain y where y: "y \<in> set m" "?f (s, row) = Inr y" by blast
  define st where "st = snd y"
  from y(2) have st: "y = (s, st)" "member_of state_values (tr_state row) = Inr (st_state st)"
    by (auto simp: st_def)
  have in_m: "(s, st) \<in> set m" using y(1) st(1) by simp
  have uniq: "w = st" if "(s, w) \<in> set m" for w
  proof -
    from list_all2_in2[OF l that] obtain x where x: "x \<in> set (get_source_trusts d db)" "?f x = Inr (s, w)"
      by blast
    moreover obtain s' r where x': "x = (s', r)" by fastforce
    ultimately have "x = (s, r)" by auto
    with x(1) assms have "x = (s, row)" by (simp add: get_source_trusts_get)
    with x(2) y(2) st(1) show ?thesis by auto
  qed
  have "dict_get m s = Some st" by (rule map_of_unique[OF in_m uniq])
  with st(2) show ?thesis by blast
qed

lemma rebuild_loop_blob:
  assumes "rebuild_loop ds ts db = (db', Inr ())" and "d \<in> set ds" and "distinct ds"
  shows "\<exists>m. build_source_trust_map d db = Inr m \<and>
    dict_get (td_trust db') d = Some (ts, build_trust_blob m (get_last_good_sources d db))"
proof -
  have keep: "dict_get (td_trust (fst (rebuild_loop ds ts db))) d = dict_get (td_trust db) d"
    if "d \<notin> set ds" for ds and db :: trust_db
    using that
  proof (induction ds arbitrary: db)
    case (Cons e ds)
    have "dict_get (td_trust (fst (rebuild_domain_blob e ts db))) d = dict_get (td_trust db) d"
      using Cons.prems by (simp add: rebuild_domain_blob_def store_trust_def dict_simps split: sum.split)
    moreover obtain db1 r where r: "rebuild_domain_blob e ts db = (db1, r)" by (cases "rebuild_domain_blob e ts db")
    ultimately have "dict_get (td_trust db1) d = dict_get (td_trust db) d" by simp
    with Cons r show ?case by (cases r) (simp_all split: unit.split)
  qed simp
  have other: "build_source_trust_map d (fst (rebuild_domain_blob e ts db)) = build_source_trust_map d db"
    "get_last_good_sources d (fst (rebuild_domain_blob e ts db)) = get_last_good_sources d db" for e and db :: trust_db
    by (simp_all add: build_source_trust_map_def get_source_trusts_def get_last_good_sources_def
        rebuild_domain_blob_def store_trust_def split: sum.split)
  show ?thesis using assms
  proof (induction ds arbitrary: db)
    case (Cons e ds)
    then obtain db1 where e: "rebuild_domain_blob e ts db = (db1, Inr ())" "rebuild_loop ds ts db1 = (db', Inr ())"
      by (auto split: prod.splits sum.splits unit.splits)
    then have same: "build_source_trust_map d db1 = build_source_trust_map d db"
      "get_last_good_sources d db1 = get_last_good_sources d db" using other[of e db] by auto
    show ?case
    proof (cases "d = e")
      case True
      with Cons.prems have "d \<notin> set ds" by simp
      from keep[OF this, of db1] e(2) have "dict_get (td_trust db') d = dict_get (td_trust db1) d" by simp
      with e(1) True show ?thesis
        by (auto simp: rebuild_domain_blob_def store_trust_def dict_simps split: sum.splits)
    next
      case False
      with Cons.IH[OF e(2)] Cons.prems same show ?thesis by simp
    qed
  qed simp
qed

subsection \<open>Properties\<close>

definition bad_disk :: jobj where
  "bad_disk = [(''storage'', JList [JObj [(''wear_pct'', JInt 250)]])]"

text \<open>C1: However ingest, the staleness cycle's read, its later write and blob rebuilds interleave, under
  one threshold and a clock that does not run back: every row's weight is the weight of its state, a
  row that passes the gate holds the verdict its own collector and semantic statuses derive, and no
  update the cycle decides lets a source through the gate.  The cycle only ever degrades.\<close>
theorem trust_never_revived:
  assumes "trust_reachable thr w"
  shows "(\<forall>(k, row)\<in>set (td_rows (w_db w)). \<exists>c sem st.
      member_of cs_values (tr_collector row) = Inr c \<and> member_of sem_values (tr_semantic row) = Inr sem \<and>
      member_of state_values (tr_state row) = Inr st \<and> tr_weight row = compute_weight st \<and>
      (st \<in> GATE_PASS \<longrightarrow> st = derive_state c sem None None True \<and> sem \<notin> SEMANTIC_SUSPECT \<and> c \<notin> COLLECTOR_FAIL)) \<and>
    (\<forall>u\<in>set (reevaluate_staleness (td_rows (w_db w)) (w_clock w) thr). \<exists>st.
      su_state u = value_of state_values st \<and> st \<notin> GATE_PASS \<and> su_weight u = 0)"
proof -
  from world_ok_reachable[OF assms] have ok: "rows_ok thr (w_clock w) (w_db w)"
    by (auto simp: world_ok_def rows_ok_def)
  have "\<exists>c sem st. member_of cs_values (tr_collector row) = Inr c \<and>
      member_of sem_values (tr_semantic row) = Inr sem \<and>
      member_of state_values (tr_state row) = Inr st \<and> tr_weight row = compute_weight st \<and>
      (st \<in> GATE_PASS \<longrightarrow> st = derive_state c sem None None True \<and> sem \<notin> SEMANTIC_SUSPECT \<and> c \<notin> COLLECTOR_FAIL)"
    if "row_ok thr now row" for now row
  proof -
    from that obtain c sem st where r: "tr_collector row = value_of cs_values c"
      "tr_semantic row = value_of sem_values sem" "tr_state row = value_of state_values st"
      "tr_weight row = compute_weight st" "st \<in> GATE_PASS \<longrightarrow> st = derive_state c sem None None True"
      unfolding row_ok_def by blast
    then show ?thesis using derive_state_pass_iff[of c sem None]
      by (intro exI[of _ c] exI[of _ sem] exI[of _ st]) auto
  qed
  with ok have 1: "\<forall>(k, row)\<in>set (td_rows (w_db w)). \<exists>c sem st.
      member_of cs_values (tr_collector row) = Inr c \<and> member_of sem_values (tr_semantic row) = Inr sem \<and>
      member_of state_values (tr_state row) = Inr st \<and> tr_weight row = compute_weight st \<and>
      (st \<in> GATE_PASS \<longrightarrow> st = derive_state c sem None None True \<and> sem \<notin> SEMANTIC_SUSPECT \<and> c \<notin> COLLECTOR_FAIL)"
    unfolding rows_ok_def by blast
  have "\<exists>st. su_state u = value_of state_values st \<and> st \<notin> GATE_PASS \<and> su_weight u = 0"
    if "u \<in> set (reevaluate_staleness (td_rows (w_db w)) (w_clock w) thr)" for u
  proof -
    have "compute_weight st = 0" if "st \<notin> GATE_PASS" for st using that by (auto simp: compute_weight_def GATE_PASS_def)
    with reevaluate_ok[OF ok that] show ?thesis by (auto simp: update_ok_def)
  qed
  with 1 show ?thesis by blast
qed

theorem trust_never_revived_witness:
  "let w = (empty_world 0)\<lparr>w_db := fst (evaluate_trust (\<lambda>_. '''') ''dev-1'' bad_disk
       [(''storage_reliability'', ''ok'')] ''t0'' ''1970-01-01T00:00:00+00:00'' (w_db (empty_world 0)))\<rparr>
   in (\<forall>u\<in>set (reevaluate_staleness (td_rows (w_db w)) (w_clock w) (Fin 3600)). \<exists>st.
      su_state u = value_of state_values st \<and> st \<notin> GATE_PASS \<and> su_weight u = 0)"
proof -
  let ?w = "(empty_world 0)\<lparr>w_db := fst (evaluate_trust (\<lambda>_. '''') ''dev-1'' bad_disk
       [(''storage_reliability'', ''ok'')] ''t0'' ''1970-01-01T00:00:00+00:00'' (w_db (empty_world 0)))\<rparr>"
  have "trust_step (Fin 3600) (empty_world 0) ?w" by (rule trust_step.ingest)
  then have "trust_reachable (Fin 3600) ?w" unfolding trust_reachable_def by blast
  from trust_never_revived[OF this] show ?thesis unfolding Let_def by blast
qed

lemma silent_source_degraded:
  assumes "wf_dict (td_rows db)" and "dict_get (td_rows db) (d, s) = Some row" and "s \<in> STALENESS_SOURCES"
    and "overdue (floor_sec stale_after) now (tr_evidence row)"
    and "member_of cs_values (tr_collector row) = Inr c" "member_of sem_values (tr_semantic row) = Inr sem"
    and "run_staleness_cycle stale_after now now_iso db = (db', Inr ())"
  shows "\<exists>row'. dict_get (td_rows db') (d, s) = Some row' \<and> tr_evidence row' = tr_evidence row \<and>
    (\<forall>st. member_of state_values (tr_state row') = Inr st \<longrightarrow> st \<notin> GATE_PASS) \<and>
    (tr_state row' \<noteq> tr_state row \<longrightarrow>
      (\<exists>blob. dict_get (td_trust db') d = Some (now_iso, blob) \<and>
        (\<forall>dm req opts dt. dict_get DOMAIN_SOURCES dm = Some (req, opts) \<and> s \<in> set req \<and>
           dict_get (tb_domains blob) dm = Some dt \<longrightarrow> dt_state dt \<noteq> D_TRUSTED)))"
proof -
  define thr where "thr = floor_sec stale_after"
  define us where "us = reevaluate_staleness (td_rows db) now thr"
  define db1 where "db1 = apply_source_staleness us db"
  have loop: "rebuild_loop (remdups (map su_device us)) now_iso db1 = (db', Inr ())"
    using assms(7) by (simp add: run_staleness_cycle_def us_def db1_def thr_def Let_def)
  then have rows: "td_rows db' = td_rows db1" using rows_rebuild_loop[of "remdups (map su_device us)" now_iso db1] by simp
  define row' where "row' = degrade now thr (d, s) row"
  have get: "dict_get (td_rows db1) (d, s) = Some row'"
    using cycle_rows[OF assms(1), of now thr "(d, s)"] assms(2) by (simp add: db1_def us_def row'_def)
  obtain st where st: "tr_state row' = value_of state_values st" "st \<notin> GATE_PASS"
    using degrade_overdue[OF assms(4)[folded thr_def] assms(3,5,6), of d] by (auto simp: row'_def)
  have wf1: "wf_dict (td_rows db1)"
  proof -
    have "wf_dict (td_rows (apply_source_staleness us db))" for us
      using assms(1) unfolding apply_source_staleness_def
      by (induction us arbitrary: db) (auto simp: apply_one_def split: option.split)
    then show ?thesis by (simp add: db1_def)
  qed
  have blob: "\<exists>blob. dict_get (td_trust db') d = Some (now_iso, blob) \<and>
        (\<forall>dm req opts dt. dict_get DOMAIN_SOURCES dm = Some (req, opts) \<and> s \<in> set req \<and>
           dict_get (tb_domains blob) dm = Some dt \<longrightarrow> dt_state dt \<noteq> D_TRUSTED)"
    if changed: "tr_state row' \<noteq> tr_state row"
  proof -
    from changed obtain u where u: "reevaluate_row now thr ((d, s), row) = Some u"
      by (auto simp: row'_def degrade_def split: option.splits)
    then have "u \<in> set us" "su_device u = d"
      using dict_get_in[OF assms(2)] reevaluate_row_key[OF u]
      by (auto simp: us_def reevaluate_staleness_def map_filter_set)
    then have "d \<in> set (remdups (map su_device us))" by auto
    from rebuild_loop_blob[OF loop this] obtain m where m: "build_source_trust_map d db1 = Inr m"
      "dict_get (td_trust db') d = Some (now_iso, build_trust_blob m (get_last_good_sources d db1))" by auto
    from build_map_get[OF wf1 m(1) get] st obtain t where t: "dict_get m s = Some t" "st_state t = st" by auto
    then have nok: "\<not> source_ok m s" using st(2) by (simp add: source_ok_def passes_gate_def)
    have "dt_state dt \<noteq> D_TRUSTED"
      if "dict_get DOMAIN_SOURCES dm = Some (req, opts)" "s \<in> set req"
        "dict_get (tb_domains (build_trust_blob m (get_last_good_sources d db1))) dm = Some dt" for dm req opts dt
    proof -
      have dt: "dt = resolve_domain_trust dm m"
        using dict_get_in[OF that(3)] by (auto simp: build_trust_blob_def)
      have "\<not> list_all (source_ok m) req" using nok that(2) by (auto simp: list_all_iff)
      from required_loop_not_trusted[OF this, of dm "[]" "[]"] that(1) show ?thesis
        by (auto simp: dt resolve_domain_trust_def verdict_def)
    qed
    with m(2) show ?thesis by blast
  qed
  have "tr_evidence row' = tr_evidence row" by (simp add: row'_def degrade_def split: option.split)
  then show ?thesis using get rows st blob by auto
qed

definition known_row :: "trust_row \<Rightarrow> bool" where
  \<comment> \<open>the three statuses are members of their enumerations\<close>
  "known_row row \<longleftrightarrow> (\<exists>c sem st. tr_collector row = value_of cs_values c \<and> tr_semantic row = value_of sem_values sem \<and>
     tr_state row = value_of state_values st)"

definition known_rows :: "trust_db \<Rightarrow> bool" where
  "known_rows db \<longleftrightarrow> wf_dict (td_rows db) \<and> (\<forall>(k, row)\<in>set (td_rows db). known_row row)"

lemma reachable_known: "trust_reachable thr w \<Longrightarrow> known_rows (w_db w)"
  using world_ok_reachable[of thr w] unfolding world_ok_def known_rows_def row_ok_def known_row_def by blast

lemma known_apply_one:
  assumes "known_rows db" "su_state u = value_of state_values st"
  shows "known_rows (apply_one u db)"
proof (cases "dict_get (td_rows db) (su_device u, su_source u)")
  case (Some row)
  then have "known_row row" using assms(1) dict_get_in[OF Some] by (auto simp: known_rows_def)
  then have "known_row (row\<lparr>tr_state := su_state u, tr_weight := su_weight u, tr_reason := su_reason u\<rparr>)"
    using assms(2) by (auto simp: known_row_def)
  then show ?thesis using assms(1) Some
      set_dict_set[of "(su_device u, su_source u)" "row\<lparr>tr_state := su_state u, tr_weight := su_weight u, tr_reason := su_reason u\<rparr>" "td_rows db"]
    by (fastforce simp: apply_one_def known_rows_def)
qed (simp add: apply_one_def assms)

lemma known_apply: "known_rows db \<Longrightarrow> \<forall>u\<in>set us. \<exists>st. su_state u = value_of state_values st \<Longrightarrow> known_rows (apply_source_staleness us db)"
  unfolding apply_source_staleness_def by (induction us arbitrary: db) (auto intro: known_apply_one)

lemma reevaluated_state: "u \<in> set (reevaluate_staleness rows now thr) \<Longrightarrow> \<exists>st. su_state u = value_of state_values st"
  by (auto simp: reevaluate_staleness_def map_filter_set reevaluate_row_def Let_def split: if_splits option.splits sum.splits)

lemma mapE_total: "\<forall>x\<in>set xs. \<exists>y. f x = Inr y \<Longrightarrow> \<exists>ys. mapE f xs = Inr ys"
  by (induction xs) auto

lemma known_map: "known_rows db \<Longrightarrow> \<exists>m. build_source_trust_map d db = Inr m"
  unfolding build_source_trust_map_def
proof (rule mapE_total, clarify)
  fix s row assume k: "known_rows db" and "(s, row) \<in> set (get_source_trusts d db)"
  then have "((d, s), row) \<in> set (td_rows db)" using get_source_trusts_get[of db s row d] dict_get_in by (simp add: known_rows_def)
  then have "known_row row" using k by (auto simp: known_rows_def)
  then show "\<exists>y. bindE (member_of state_values (tr_state row)) (\<lambda>state.
       bindE (member_of cs_values (tr_collector row)) (\<lambda>c.
       bindE (member_of sem_values (tr_semantic row)) (\<lambda>sem.
       Inr (s, \<lparr>st_source = s, st_state = state, st_weight = tr_weight row, st_collector = c,
                  st_semantic = sem, st_reason = tr_reason row\<rparr>)))) = Inr y"
    by (auto simp: known_row_def)
qed

lemma known_cycle: "known_rows db \<Longrightarrow> \<exists>db'. run_staleness_cycle stale_after now now_iso db = (db', Inr ())"
proof -
  have "known_rows db \<Longrightarrow> \<exists>db'. rebuild_loop ds ts db = (db', Inr ())" for ds ts and db :: trust_db
  proof (induction ds arbitrary: db)
    case (Cons d ds)
    from known_map[OF Cons.prems] obtain m where m: "build_source_trust_map d db = Inr m" by blast
    let ?db = "store_trust d ts (build_trust_blob m (get_last_good_sources d db)) db"
    have "known_rows ?db" using Cons.prems by (simp add: store_trust_def known_rows_def)
    from Cons.IH[OF this] show ?case by (simp add: rebuild_domain_blob_def m)
  qed simp
  then show "known_rows db \<Longrightarrow> ?thesis"
    using known_apply reevaluated_state by (auto simp: run_staleness_cycle_def Let_def)
qed

text \<open>C37: After any interleaving of messages and cycles, a staleness cycle goes through and leaves no source it watches silent past the
  threshold with a passing state: afterwards the source fails its gate.  If its row was changed, every domain that requires the source reads
  as not trusted in the stored result, without waiting for the device's next message.\<close>
theorem silent_source_fails_gate:
  assumes "trust_reachable thr w" "dict_get (td_rows (w_db w)) (d, s) = Some row" "s \<in> STALENESS_SOURCES"
    and "overdue (floor_sec stale_after) now (tr_evidence row)"
  shows "\<exists>db' row' st. run_staleness_cycle stale_after now now_iso (w_db w) = (db', Inr ()) \<and>
    dict_get (td_rows db') (d, s) = Some row' \<and> tr_evidence row' = tr_evidence row \<and>
    member_of state_values (tr_state row') = Inr st \<and> st \<notin> GATE_PASS \<and>
    (tr_state row' \<noteq> tr_state row \<longrightarrow>
      (\<exists>blob. dict_get (td_trust db') d = Some (now_iso, blob) \<and>
        (\<forall>dm req opts dt. dict_get DOMAIN_SOURCES dm = Some (req, opts) \<and> s \<in> set req \<and>
           dict_get (tb_domains blob) dm = Some dt \<longrightarrow> dt_state dt \<noteq> D_TRUSTED)))"
proof -
  have k: "known_rows (w_db w)" by (rule reachable_known[OF assms(1)])
  then obtain db' where r: "run_staleness_cycle stale_after now now_iso (w_db w) = (db', Inr ())" using known_cycle by blast
  from k assms(2) obtain c sem where m: "member_of cs_values (tr_collector row) = Inr c" "member_of sem_values (tr_semantic row) = Inr sem"
    using dict_get_in[OF assms(2)] by (fastforce simp: known_rows_def known_row_def)
  have wf: "wf_dict (td_rows (w_db w))" using k by (simp add: known_rows_def)
  let ?new = "degrade now (floor_sec stale_after) (d, s) row"
  have "td_rows db' = td_rows (apply_source_staleness (reevaluate_staleness (td_rows (w_db w)) now (floor_sec stale_after)) (w_db w))"
    using r rows_rebuild_loop by (metis fst_conv run_staleness_cycle_def)
  then have g: "dict_get (td_rows db') (d, s) = Some ?new" using cycle_rows[OF wf] assms(2) by simp
  obtain st where st: "tr_state ?new = value_of state_values st" "st \<notin> GATE_PASS" using degrade_overdue[OF assms(4,3) m] by blast
  from silent_source_degraded[OF wf assms(2,3,4) m r] g st r show ?thesis by auto
qed


definition quiet_row :: trust_row where
  "quiet_row = \<lparr>tr_state = ''ok'', tr_weight = 1, tr_collector = ''ok'', tr_semantic = ''plausible'',
     tr_reason = RNone, tr_ts = '''', tr_evidence = Some ''1970-01-01T00:00:00+00:00''\<rparr>"

lemma quiet_age: "age_sec (tr_evidence quiet_row) 86400000000 = Some (Fin 86400)"
proof -
  have "age_us (Some ''1970-01-01T00:00:00+00:00'') 86400000000 = Some 86400000000" by code_simp
  moreover have "total_seconds 86400000000 = Fin 86400" using rnd64_of_int[of 86400] by (simp add: total_seconds_def)
  ultimately show ?thesis by (simp add: age_sec_def quiet_row_def)
qed

theorem silent_source_fails_gate_witness:
  "let w = (empty_world 0)\<lparr>w_db := fst (evaluate_trust (\<lambda>_. '''') ''dev-1'' bad_disk
       [(''storage_reliability'', ''ok'')] ''t0'' ''1970-01-01T00:00:00+00:00'' (w_db (empty_world 0)))\<rparr>
   in \<exists>db' row' st. run_staleness_cycle (Fin 3600) 86400000000 ''now'' (w_db w) = (db', Inr ()) \<and>
      dict_get (td_rows db') (''dev-1'', ''storage_reliability'') = Some row' \<and>
      member_of state_values (tr_state row') = Inr st \<and> st \<notin> GATE_PASS"
proof -
  let ?w = "(empty_world 0)\<lparr>w_db := fst (evaluate_trust (\<lambda>_. '''') ''dev-1'' bad_disk
       [(''storage_reliability'', ''ok'')] ''t0'' ''1970-01-01T00:00:00+00:00'' (w_db (empty_world 0)))\<rparr>"
  have "trust_step (Fin 3600) (empty_world 0) ?w" by (rule trust_step.ingest)
  then have reach: "trust_reachable (Fin 3600) ?w" unfolding trust_reachable_def by blast
  have "(case dict_get (td_rows (w_db ?w)) (''dev-1'', ''storage_reliability'') of
      None \<Rightarrow> False | Some row \<Rightarrow> tr_evidence row = Some ''1970-01-01T00:00:00+00:00'')" by code_simp
  then obtain row where row: "dict_get (td_rows (w_db ?w)) (''dev-1'', ''storage_reliability'') = Some row"
    "tr_evidence row = tr_evidence quiet_row" by (auto simp: quiet_row_def split: option.splits)
  have s: "''storage_reliability'' \<in> STALENESS_SOURCES"
    by (simp add: STALENESS_SOURCES_def DOMAIN_GATING_SOURCES_def DOMAIN_SOURCES_def)
  have o: "overdue (floor_sec (Fin 3600)) 86400000000 (tr_evidence row)"
    using quiet_age by (simp add: overdue_def floor_sec_def row(2))
  from silent_source_fails_gate[OF reach row(1) s o] show ?thesis unfolding Let_def by blast
qed

text \<open>The cycle's promise never to revive a source rests on the threshold not moving: a row it marked
  stale is let through the gate again, with its full weight and no new evidence, by a later cycle whose
  threshold is above the row's age.\<close>
theorem raised_threshold_revives:
  assumes "s \<in> STALENESS_SOURCES" and "tr_state row = ''stale''"
    and "member_of cs_values (tr_collector row) = Inr c" "member_of sem_values (tr_semantic row) = Inr sem"
    and "c \<notin> COLLECTOR_FAIL" "sem \<notin> SEMANTIC_SUSPECT"
    and "age_sec (tr_evidence row) now = Some a" and "flt t1 a" and "\<not> flt t2 a"
  shows "reevaluate_row now t1 ((d, s), row) = None \<and>
    (\<exists>u st. reevaluate_row now t2 ((d, s), row) = Some u \<and> su_state u = value_of state_values st \<and>
       st \<in> GATE_PASS \<and> 0 < su_weight u)"
proof -
  let ?n = "derive_state c sem None None True"
  have p: "?n \<in> GATE_PASS" using assms(5,6) by (simp add: derive_state_pass_iff)
  have "value_of state_values S_STALE = ''stale''" by (simp add: value_of_def state_values_def)
  moreover have "value_of state_values ?n \<noteq> ''stale''"
    using p by (auto simp: GATE_PASS_def value_of_def state_values_def)
  ultimately show ?thesis using assms p weight_pos_iff[of ?n]
    by (auto simp: reevaluate_row_def derive_state_aged Let_def)
qed

theorem raised_threshold_revives_witness:
  "\<exists>u st. reevaluate_row 86400000000 (Fin 90000) ((''dev'', ''boot_time''), quiet_row\<lparr>tr_state := ''stale''\<rparr>) = Some u \<and>
     su_state u = value_of state_values st \<and> st \<in> GATE_PASS \<and> 0 < su_weight u"
proof -
  have "''boot_time'' \<in> STALENESS_SOURCES"
    by (simp add: STALENESS_SOURCES_def DOMAIN_GATING_SOURCES_def DOMAIN_SOURCES_def)
  from raised_threshold_revives[OF this, of "quiet_row\<lparr>tr_state := ''stale''\<rparr>" C_OK PLAUSIBLE 86400000000 "Fin 86400"
      "Fin 3600" "Fin 90000" "''dev''"] quiet_age
  show ?thesis
    by (simp add: quiet_row_def member_of_def cs_values_def sem_values_def COLLECTOR_FAIL_def SEMANTIC_SUSPECT_def)
qed

lemma negative_check_status: "negative_check p item k = Inr r \<Longrightarrow> fst r \<noteq> INCONSISTENT"
  by (auto simp: negative_check_def V_OK_def split: if_splits)

lemma drop_check_self: "drop_check n item item k = Inr r \<Longrightarrow> fst r = PLAUSIBLE"
  by (auto simp: drop_check_def dropped_def V_OK_def split: if_splits option.splits)

lemma storage_item_self: "validate_storage_item item (Some item) = Inr r \<Longrightarrow> fst r \<noteq> INCONSISTENT"
proof -
  assume v: "validate_storage_item item (Some item) = Inr r"
  have sc: "fst r \<noteq> INCONSISTENT" if "storage_counter_check item (Some item) k = Inr r" for k r
    using that by (auto simp: storage_counter_check_def split: if_splits dest!: negative_check_status drop_check_self)
  have "checks (storage_counter_check item (Some item)) storage_counters = Inr r \<Longrightarrow> fst r \<noteq> INCONSISTENT"
    using checks_result[of "storage_counter_check item (Some item)" storage_counters r] sc[of _ r]
    by (cases r) (auto simp: V_OK_def)
  with v show ?thesis
    by (auto simp: validate_storage_item_def split: if_splits option.splits)
qed

text \<open>What ingest keeps as the last good reading is the last reading the collector delivered, whatever
  the validators said of it.  A disk whose counters fell below the stored reading is flagged as
  inconsistent once; the same reading sent again is compared with itself and is not.\<close>
theorem counter_reset_flagged_once:
  assumes "judge render ''storage_reliability'' payload ''ok'' (get_last_good dev ''storage_reliability'' db) =
      Inr (C_OK, (INCONSISTENT, why), JObj item)" and "item \<noteq> []"
    and "db' = fst (evaluate_trust render dev payload [(''storage_reliability'', ''ok'')] ts received db)"
    and "judge render ''storage_reliability'' payload ''ok'' (get_last_good dev ''storage_reliability'' db') =
      Inr (c, (sem, why'), reading)"
  shows "get_last_good dev ''storage_reliability'' db' = Some item \<and> sem \<noteq> INCONSISTENT"
proof -
  let ?s = "''storage_reliability''"
  have known: "?s \<in> KNOWN_TRUST_SOURCES" "?s \<in> MATERIAL_SOURCES"
    by (simp_all add: KNOWN_TRUST_SOURCES_def MATERIAL_SOURCES_def)
  have keep: "td_last_good (fst (rebuild_domain_blob dev ts d)) = td_last_good d" for d
    by (simp add: rebuild_domain_blob_def store_trust_def split: sum.split)
  have "td_last_good db' = td_last_good (record_source dev ?s ts received (C_OK, (INCONSISTENT, why), JObj item) db)"
    using assms(1) known by (simp add: assms(3) evaluate_trust_def keep)
  then have lg: "get_last_good dev ?s db' = Some item"
    using assms(2) by (simp add: record_source_def Let_def get_last_good_def set_last_good_def dict_simps)
  from assms(1) have ex: "extract_reading ?s payload = Inr (JObj item)"
    by (auto simp: judge_def)
  from assms(4)[unfolded lg] ex have "validate_source render ?s item (Some item) = Inr (sem, why')"
    by (auto simp: judge_def validate_reading_def)
  then have "sem \<noteq> INCONSISTENT"
    using known(2) storage_item_self[of item "(sem, why')"]
    by (auto simp: validate_source_def Let_def known_bad_def KNOWN_BAD_FIRMWARE_def V_OK_def split: if_splits)
  with lg show ?thesis by simp
qed

definition disk_reading :: "int \<Rightarrow> jobj" where
  "disk_reading h = [(''power_on_hours'', JInt h)]"

theorem counter_reset_flagged_once_witness:
  "let p = [(''storage'', JList [JObj (disk_reading 5)])];
       db = \<lparr>td_rows = [], td_last_good = [((''dev'', ''storage_reliability''), (disk_reading 9, ''t0''))], td_trust = []\<rparr>;
       db' = fst (evaluate_trust (\<lambda>_. '''') ''dev'' p [(''storage_reliability'', ''ok'')] ''t1'' ''r1'' db)
   in get_last_good ''dev'' ''storage_reliability'' db' = Some (disk_reading 5)"
proof -
  define p :: jobj where "p = [(''storage'', JList [JObj (disk_reading 5)])]"
  define db where "db = \<lparr>td_rows = [], td_last_good = [((''dev'', ''storage_reliability''), (disk_reading 9, ''t0''))], td_trust = []\<rparr>"
  define db' where "db' = fst (evaluate_trust (\<lambda>_. '''') ''dev'' p [(''storage_reliability'', ''ok'')] ''t1'' ''r1'' db)"
  have f: "float_of_int 5 = Inr (Fin 5)" "float_of_int 9 = Inr (Fin 9)"
    using rnd64_of_int[of 5] rnd64_of_int[of 9] by (simp_all add: float_of_int_def)
  note ev = judge_def extract_reading_def first_item_def jget_def coerce_empty_def reading_is_empty_def
    validate_reading_def validate_source_def MATERIAL_SOURCES_def known_bad_def KNOWN_BAD_FIRMWARE_def
    text_or_empty_def validate_storage_item_def storage_counters_def storage_counter_check_def
    negative_check_def drop_check_def dropped_def is_neg_def V_OK_def member_of_def cs_values_def disk_reading_def
    p_def Let_def
  have j: "judge (\<lambda>_. '''') ''storage_reliability'' p ''ok'' (Some (disk_reading 9)) =
      Inr (C_OK, (INCONSISTENT, RDropped ''power_on_hours'' (Fin 9) (Fin 5)), JObj (disk_reading 5))"
    by (simp add: ev f)
  have j2: "judge (\<lambda>_. '''') ''storage_reliability'' p ''ok'' (Some (disk_reading 5)) =
      Inr (C_OK, (PLAUSIBLE, RNone), JObj (disk_reading 5))"
    by (simp add: ev f)
  have lg: "get_last_good ''dev'' ''storage_reliability'' db = Some (disk_reading 9)"
    by (simp add: get_last_good_def db_def)
  have "\<exists>c sem why' reading. judge (\<lambda>_. '''') ''storage_reliability'' p ''ok''
      (get_last_good ''dev'' ''storage_reliability'' db') = Inr (c, (sem, why'), reading)"
  proof -
    have "td_last_good db' = [((''dev'', ''storage_reliability''), (disk_reading 5, ''t1''))]"
      using j lg by (simp add: db'_def evaluate_trust_def KNOWN_TRUST_SOURCES_def MATERIAL_SOURCES_def record_source_def
          Let_def set_last_good_def db_def rebuild_domain_blob_def store_trust_def disk_reading_def
          upsert_source_trust_def split: sum.split)
    then show ?thesis using j2 by (simp add: get_last_good_def)
  qed
  then obtain c sem why' reading where r: "judge (\<lambda>_. '''') ''storage_reliability'' p ''ok''
      (get_last_good ''dev'' ''storage_reliability'' db') = Inr (c, (sem, why'), reading)" by blast
  have "disk_reading 5 \<noteq> []" by (simp add: disk_reading_def)
  from counter_reset_flagged_once[OF j[folded lg] this db'_def r]
  show ?thesis by (simp add: Let_def p_def[symmetric] db_def[symmetric] db'_def[symmetric])
qed

end
