(* ===== verification/Guards.thy ===== *)
theory Guards
  imports PyFloat
begin

text \<open>
  The ingest guards of \<open>server/ingest_guards.py\<close> and the order in which \<open>server/api.py\<close> applies
  them.  Instants are the finite values \<open>time.monotonic()\<close> returns; the start of a window is a
  float subtraction, so it is rounded.  Each guarded operation runs under its lock and is one step.
\<close>

record guards =
  g_seen :: "(string, rat) dict"
  g_windows :: "(string, rat list) dict"
  g_rejects :: "(string, nat) dict"

definition TRIM_THRESHOLD :: nat where "TRIM_THRESHOLD = 50000"
definition DEDUP_TTL_SEC :: rat where "DEDUP_TTL_SEC = 300"
definition RATE_WINDOW_SEC :: rat where "RATE_WINDOW_SEC = 60"
definition RATE_MAX_PER_WINDOW :: nat where "RATE_MAX_PER_WINDOW = 30"

definition REJECT_COUNTS :: "(string, nat) dict" where
  "REJECT_COUNTS = map (\<lambda>k. (k, 0)) [''auth'', ''rate_limit'', ''duplicate'', ''invalid'', ''too_large'',
     ''incompatible'', ''device_limit'']"

definition count_reject :: "string \<Rightarrow> guards \<Rightarrow> guards" where
  "count_reject why g = g\<lparr>g_rejects := dict_set (g_rejects g) why
     (Suc (case dict_get (g_rejects g) why of None \<Rightarrow> 0 | Some n \<Rightarrow> n))\<rparr>"

definition since :: "rat \<Rightarrow> rat \<Rightarrow> rat \<Rightarrow> bool" where
  \<comment> \<open>\<open>t >= now - width\<close>\<close>
  "since now width t \<longleftrightarrow> \<not> flt (Fin t) (rnd64 (now - width))"

lemma since_antimono: "since now' width t \<Longrightarrow> now \<le> now' \<Longrightarrow> since now width t"
  unfolding since_def by (meson diff_right_mono rnd64_flt_mono)

subsection \<open>Duplicate keys\<close>

definition has_seen :: "string option \<Rightarrow> guards \<Rightarrow> bool" where
  "has_seen key g = (case key of None \<Rightarrow> False | Some k \<Rightarrow> k \<noteq> '''' \<and> k \<in> set (dict_keys (g_seen g)))"

definition mark_seen :: "string option \<Rightarrow> rat \<Rightarrow> guards \<Rightarrow> guards" where
  "mark_seen key now g =
     (case key of
        None \<Rightarrow> g
      | Some k \<Rightarrow>
          if k = '''' then g
          else let kept = (if TRIM_THRESHOLD < length (g_seen g)
                           then filter (\<lambda>(k, t). since now DEDUP_TTL_SEC t) (g_seen g) else g_seen g)
               in g\<lparr>g_seen := dict_set kept k now\<rparr>)"

subsection \<open>The rate limit\<close>

definition window_of :: "string \<Rightarrow> (string, rat list) dict \<Rightarrow> rat list" where
  "window_of device ws = (case dict_get ws device of None \<Rightarrow> [] | Some ts \<Rightarrow> ts)"

definition trim_windows :: "rat \<Rightarrow> (string, rat list) dict \<Rightarrow> (string, rat list) dict" where
  "trim_windows now ws =
     (if TRIM_THRESHOLD < length ws
      then filter (\<lambda>(d, ts). list_ex (since now RATE_WINDOW_SEC) ts) ws else ws)"

definition check_rate_limit :: "string \<Rightarrow> rat \<Rightarrow> guards \<Rightarrow> bool \<times> guards" where
  "check_rate_limit device now g =
     (let ws = trim_windows now (g_windows g);
          times = filter (since now RATE_WINDOW_SEC) (window_of device ws)
      in if RATE_MAX_PER_WINDOW \<le> length times
         then (False, g\<lparr>g_windows := dict_set ws device times\<rparr>)
         else (True, g\<lparr>g_windows := dict_set ws device (times @ [now])\<rparr>))"

fun fin :: "pyfloat \<Rightarrow> rat" where
  "fin (Fin q) = q" | "fin _ = 0"

definition retry_after_sec :: "string \<Rightarrow> rat \<Rightarrow> guards \<Rightarrow> int" where
  "retry_after_sec device now g =
     (let times = filter (since now RATE_WINDOW_SEC) (window_of device (g_windows g))
      in if length times < RATE_MAX_PER_WINDOW then 1
         else max 1 \<lceil>fin (rnd64 (fin (rnd64 (foldl min (hd times) (tl times) + RATE_WINDOW_SEC)) - now))\<rceil>)"

definition reset_guards :: "guards \<Rightarrow> guards" where
  "reset_guards g = \<lparr>g_seen = [], g_windows = [], g_rejects = map (\<lambda>(k, n). (k, 0)) (g_rejects g)\<rparr>"

definition fresh_guards :: guards where
  "fresh_guards = \<lparr>g_seen = [], g_windows = [], g_rejects = REJECT_COUNTS\<rparr>"

text \<open>
  What the rate limiter promises: a device is let through when fewer than the maximum of its own
  accepted requests lie in the window that ends now.  Other devices, the trim and the rejected
  requests do not matter.
\<close>

type_synonym history = "string \<Rightarrow> rat list"

definition spec_allows :: "history \<Rightarrow> string \<Rightarrow> rat \<Rightarrow> bool" where
  "spec_allows h device now \<longleftrightarrow> length (filter (since now RATE_WINDOW_SEC) (h device)) < RATE_MAX_PER_WINDOW"

definition spec_step :: "history \<Rightarrow> string \<times> rat \<Rightarrow> history" where
  "spec_step h r = (case r of (device, now) \<Rightarrow>
     if spec_allows h device now then h(device := h device @ [now]) else h)"

fun spec_run :: "history \<Rightarrow> (string \<times> rat) list \<Rightarrow> bool list \<times> history" where
  "spec_run h [] = ([], h)"
| "spec_run h ((device, now) # rs) =
     (let (bs, h') = spec_run (spec_step h (device, now)) rs in (spec_allows h device now # bs, h'))"

fun rate_run :: "guards \<Rightarrow> (string \<times> rat) list \<Rightarrow> bool list \<times> guards" where
  "rate_run g [] = ([], g)"
| "rate_run g ((device, now) # rs) =
     (let (b, g1) = check_rate_limit device now g; (bs, g') = rate_run g1 rs in (b # bs, g'))"

definition agrees :: "rat \<Rightarrow> guards \<Rightarrow> history \<Rightarrow> bool" where
  \<comment> \<open>from instant \<open>now\<close> on, stored windows and full history cannot be told apart\<close>
  "agrees now g h \<longleftrightarrow> wf_dict (g_windows g) \<and>
     (\<forall>d. filter (since now RATE_WINDOW_SEC) (window_of d (g_windows g)) =
          filter (since now RATE_WINDOW_SEC) (h d))"

lemma filter_since_later:
  "now \<le> now' \<Longrightarrow> filter (since now' w) (filter (since now w) ts) = filter (since now' w) ts"
  by (rule filter_idem_imp) (blast intro: since_antimono)

lemma agrees_later: "agrees now g h \<Longrightarrow> now \<le> now' \<Longrightarrow> agrees now' g h"
  unfolding agrees_def by (metis filter_since_later)

lemma window_trim:
  "wf_dict ws \<Longrightarrow> filter (since now RATE_WINDOW_SEC) (window_of d (trim_windows now ws)) =
     filter (since now RATE_WINDOW_SEC) (window_of d ws)"
  by (auto simp: trim_windows_def window_of_def dict_get_filter list_ex_iff filter_empty_conv
      split: option.split)

lemma wf_filter: "wf_dict ws \<Longrightarrow> wf_dict (filter P ws)"
  by (auto simp: wf_dict_def distinct_map_filter)

lemma rate_step_refines:
  assumes "agrees now g h"
  shows "fst (check_rate_limit d now g) = spec_allows h d now \<and>
    agrees now (snd (check_rate_limit d now g)) (spec_step h (d, now))"
proof -
  let ?ws = "trim_windows now (g_windows g)" and ?f = "filter (since now RATE_WINDOW_SEC)"
  have wf: "wf_dict ?ws" using assms by (auto simp: agrees_def trim_windows_def wf_filter)
  have eq: "?f (window_of e ?ws) = ?f (h e)" for e
    using assms window_trim[of "g_windows g" now e] by (simp add: agrees_def)
  have set: "window_of e (dict_set ?ws d ts) = (if e = d then ts else window_of e ?ws)" for e ts
    by (simp add: window_of_def dict_simps)
  show ?thesis
    using wf eq by (auto simp: check_rate_limit_def spec_allows_def spec_step_def agrees_def Let_def set)
qed

lemma rate_run_refines:
  assumes "agrees t g h" and "sorted (map snd rs)" and "\<forall>r\<in>set rs. t \<le> snd r"
  shows "fst (rate_run g rs) = fst (spec_run h rs)"
  using assms
proof (induction rs arbitrary: t g h)
  case (Cons r rs)
  obtain d now where r: "r = (d, now)" by (cases r)
  from Cons.prems r have "agrees now g h" by (auto intro: agrees_later)
  note step = rate_step_refines[OF this, of d]
  obtain b g1 where b: "check_rate_limit d now g = (b, g1)" by (cases "check_rate_limit d now g")
  with step have "agrees now g1 (spec_step h (d, now))" by simp
  from Cons.IH[OF this] Cons.prems r have "fst (rate_run g1 rs) = fst (spec_run (spec_step h (d, now)) rs)" by auto
  with step b r show ?case by (simp split: prod.split) (metis fst_conv)
qed simp

lemma spec_bound:
  assumes "\<forall>d. length (filter (since t RATE_WINDOW_SEC) (h d)) \<le> RATE_MAX_PER_WINDOW"
    and "sorted (map snd rs)" and "\<forall>r\<in>set rs. t \<le> snd r" and "\<forall>r\<in>set rs. snd r \<le> now" "t \<le> now"
  shows "length (filter (since now RATE_WINDOW_SEC) (snd (spec_run h rs) d)) \<le> RATE_MAX_PER_WINDOW"
  using assms
proof (induction rs arbitrary: t h)
  case Nil
  have "length (filter (since now RATE_WINDOW_SEC) (h d)) \<le> length (filter (since t RATE_WINDOW_SEC) (h d))"
    using Nil.prems(5) by (intro length_filter_le_mono) (blast intro: since_antimono)
  with Nil.prems(1) show ?case by (auto intro: le_trans)
next
  case (Cons r rs)
  obtain e u where r: "r = (e, u)" by (cases r)
  have le: "length (filter (since u RATE_WINDOW_SEC) (h x)) \<le> RATE_MAX_PER_WINDOW" for x
  proof -
    have "length (filter (since u RATE_WINDOW_SEC) (h x)) \<le> length (filter (since t RATE_WINDOW_SEC) (h x))"
      using Cons.prems(3) r by (intro length_filter_le_mono) (auto intro: since_antimono)
    with Cons.prems(1) show ?thesis by (meson le_trans)
  qed
  then have "\<forall>x. length (filter (since u RATE_WINDOW_SEC) (spec_step h r x)) \<le> RATE_MAX_PER_WINDOW"
    by (auto simp: spec_step_def r spec_allows_def)
  from Cons.IH[OF this] Cons.prems r have
    "length (filter (since now RATE_WINDOW_SEC) (snd (spec_run (spec_step h r) rs) d)) \<le> RATE_MAX_PER_WINDOW" by auto
  then show ?case by (simp add: r split: prod.split) (metis snd_conv)
qed

subsection \<open>The ingest endpoint\<close>

definition CONTRACT_VERSION :: string where
  "CONTRACT_VERSION = ''0.1.0''"

definition parse_version :: "string option \<Rightarrow> (int \<times> int \<times> int) option" where
  "parse_version value = (case value of
     None \<Rightarrow> None
   | Some s \<Rightarrow>
       if s = '''' then None
       else (case mapE py_int (split_on CHR ''.'' s) of
               Inr [a, b, c] \<Rightarrow> Some (a, b, c)
             | _ \<Rightarrow> None))"

definition is_contract_compatible :: "string option \<Rightarrow> bool" where
  "is_contract_compatible agent_version =
     (case (parse_version agent_version, parse_version (Some CONTRACT_VERSION)) of
        (Some a, Some s) \<Rightarrow> fst a = fst s | _ \<Rightarrow> False)"

definition compare_digest :: "string \<Rightarrow> string \<Rightarrow> bool res" where
  \<comment> \<open>\<open>hmac.compare_digest\<close> on text: only ASCII is comparable\<close>
  "compare_digest a b =
     (if list_all (\<lambda>c. (of_char c :: nat) < 128) (a @ b) then Inr (a = b) else Inl TypeError)"

record envelope =
  env_device :: string
  env_key :: "string option"
  env_version :: string

record 's server =
  s_guards :: guards
  s_store :: 's

datatype 'r response = Accepted 'r | Duplicate | Rejected nat "int option" | Crashed pyerr

record 's limits =
  max_devices :: "int option"
  device_known :: "'s \<Rightarrow> string \<Rightarrow> bool"
  count_devices :: "'s \<Rightarrow> int"

definition reject :: "string \<Rightarrow> nat \<Rightarrow> int option \<Rightarrow> 's server \<Rightarrow> 's server \<times> 'r response" where
  "reject why status retry srv = (srv\<lparr>s_guards := count_reject why (s_guards srv)\<rparr>, Rejected status retry)"

text \<open>
  \<open>process\<close> is \<open>ingest_envelope\<close> of the pipeline on this envelope; \<open>t1\<close>, \<open>t2\<close> and \<open>t3\<close> are the clock
  as the rate limit, the retry header and the marking of the key read it.
\<close>

definition ingest ::
  "bool \<Rightarrow> string \<Rightarrow> 's limits \<Rightarrow> ('s \<Rightarrow> 's \<times> 'r res) \<Rightarrow> envelope \<Rightarrow> string \<Rightarrow> rat \<Rightarrow> rat \<Rightarrow> rat \<Rightarrow> 's server
    \<Rightarrow> 's server \<times> 'r response" where
  "ingest demo expected cap process env provided t1 t2 t3 srv =
     (if demo then (srv, Rejected 403 None)
      else case (if expected = '''' then Inr True else compare_digest provided expected) of
        Inl e \<Rightarrow> (srv, Crashed e)
      | Inr False \<Rightarrow> reject ''auth'' 401 None srv
      | Inr True \<Rightarrow>
          (let rate_key = ''device:'' @ env_device env;
               (allowed, g1) = check_rate_limit rate_key t1 (s_guards srv);
               srv1 = srv\<lparr>s_guards := g1\<rparr>
           in if \<not> allowed
              then reject ''rate_limit'' 429 (Some (retry_after_sec rate_key t2 (count_reject ''rate_limit'' g1))) srv1
              else if has_seen (env_key env) g1
              then (srv1\<lparr>s_guards := count_reject ''duplicate'' g1\<rparr>, Duplicate)
              else if \<not> is_contract_compatible (Some (env_version env)) then reject ''incompatible'' 406 None srv1
              else if (case max_devices cap of None \<Rightarrow> False
                       | Some n \<Rightarrow> \<not> device_known cap (s_store srv) (env_device env) \<and> n \<le> count_devices cap (s_store srv))
              then reject ''device_limit'' 403 None srv1
              else (case process (s_store srv) of
                  (st, Inr r) \<Rightarrow> (srv1\<lparr>s_store := st, s_guards := mark_seen (env_key env) t3 g1\<rparr>, Accepted r)
                | (st, Inl e) \<Rightarrow>
                    if e = ValueError \<or> e = UnicodeError then reject ''invalid'' 422 None (srv1\<lparr>s_store := st\<rparr>)
                    else (srv1\<lparr>s_store := st\<rparr>, Crashed e))))"

subsection \<open>Keys\<close>

lemma seen_rate [simp]: "g_seen (snd (check_rate_limit d t g)) = g_seen g"
  by (auto simp: check_rate_limit_def Let_def)

lemma seen_count [simp]: "g_seen (count_reject why g) = g_seen g"
  by (simp add: count_reject_def)

lemma has_seen_cong: "g_seen g = g_seen g' \<Longrightarrow> has_seen key g = has_seen key g'"
  by (simp add: has_seen_def split: option.split)

lemma mark_seen_has: "key \<noteq> None \<Longrightarrow> key \<noteq> Some '''' \<Longrightarrow> has_seen key (mark_seen key t g)"
  by (auto simp: has_seen_def mark_seen_def Let_def dict_keys_set[unfolded set_map] split: option.split)

text \<open>A key stored at \<open>t0\<close> outlives every later mark made before its time to live has passed.\<close>

definition remembers :: "string \<Rightarrow> rat \<Rightarrow> guards \<Rightarrow> bool" where
  "remembers k t0 g \<longleftrightarrow> wf_dict (g_seen g) \<and> (\<exists>t\<ge>t0. dict_get (g_seen g) k = Some t)"

lemma remembers_mark:
  assumes "remembers k t0 g" and "since now DEDUP_TTL_SEC t0" "t0 \<le> now"
  shows "remembers k t0 (mark_seen key now g)"
proof (cases "key = None \<or> key = Some ''''")
  case True
  with assms(1) show ?thesis by (auto simp: mark_seen_def)
next
  case False
  then obtain k' where k': "key = Some k'" "k' \<noteq> ''''" by auto
  define kept where "kept = (if TRIM_THRESHOLD < length (g_seen g)
      then filter (\<lambda>(k, t). since now DEDUP_TTL_SEC t) (g_seen g) else g_seen g)"
  from assms(1) obtain t where t: "wf_dict (g_seen g)" "t0 \<le> t" "dict_get (g_seen g) k = Some t"
    by (auto simp: remembers_def)
  have "since now DEDUP_TTL_SEC t"
    using assms(2) t(2) unfolding since_def by (cases "rnd64 (now - DEDUP_TTL_SEC)") auto
  then have "dict_get kept k = Some t" using t by (simp add: kept_def dict_get_filter)
  moreover have "wf_dict kept" using t(1) by (simp add: kept_def wf_filter)
  moreover have "mark_seen key now g = g\<lparr>g_seen := dict_set kept k' now\<rparr>"
    using k' by (simp add: mark_seen_def kept_def Let_def)
  ultimately show ?thesis using t(2) assms(3) by (auto simp: remembers_def dict_simps)
qed

lemma remembers_has: "remembers k t0 g \<Longrightarrow> k \<noteq> '''' \<Longrightarrow> has_seen (Some k) g"
  by (auto simp: remembers_def has_seen_def dest!: dict_get_in intro: rev_image_eqI)

lemma remembers_marked:
  "wf_dict (g_seen g) \<Longrightarrow> k \<noteq> '''' \<Longrightarrow> remembers k t (mark_seen (Some k) t g)"
  by (auto simp: remembers_def mark_seen_def Let_def dict_simps wf_filter)

definition mark_all :: "(string option \<times> rat) list \<Rightarrow> guards \<Rightarrow> guards" where
  "mark_all ms g = foldl (\<lambda>g (key, t). mark_seen key t g) g ms"

lemma remembers_all:
  "remembers k t0 g \<Longrightarrow> \<forall>(key, t)\<in>set ms. t0 \<le> t \<and> since t DEDUP_TTL_SEC t0 \<Longrightarrow> remembers k t0 (mark_all ms g)"
  unfolding mark_all_def by (induction ms arbitrary: g) (auto intro: remembers_mark)

subsection \<open>Properties\<close>

text \<open>C30: The rate limiter implements its contract: on requests in order of time it decides each exactly as
  if every device's accepted requests were kept for ever and only that device's counted, although it
  drops old instants, forgets idle devices and trims under load.  In no window of 60 seconds are more
  than 30 requests of one device let through.\<close>
theorem rate_limiter_refines_window_count:
  assumes "sorted (map snd rs)" and "\<forall>r\<in>set rs. snd r \<le> now" and "rs \<noteq> []"
  shows "fst (rate_run fresh_guards rs) = fst (spec_run (\<lambda>_. []) rs) \<and>
    length (filter (since now RATE_WINDOW_SEC) (snd (spec_run (\<lambda>_. []) rs) device)) \<le> RATE_MAX_PER_WINDOW"
proof -
  define t where "t = snd (hd rs)"
  have t: "\<forall>r\<in>set rs. t \<le> snd r" using assms(1,3) by (cases rs) (auto simp: t_def)
  then have "t \<le> now" using assms(2,3) by (cases rs) auto
  have "agrees t fresh_guards (\<lambda>_. [])" by (simp add: agrees_def fresh_guards_def window_of_def)
  from rate_run_refines[OF this assms(1) t] spec_bound[of t "\<lambda>_. []" rs now device] assms t \<open>t \<le> now\<close>
  show ?thesis by simp
qed

theorem rate_limiter_refines_window_count_witness:
  "length (filter (since 1 RATE_WINDOW_SEC) (snd (spec_run (\<lambda>_. []) (replicate 40 (''dev'', 1))) ''dev'')) \<le> 30"
  using rate_limiter_refines_window_count[of "replicate 40 (''dev'', 1)" 1 "''dev''"]
  by (simp add: RATE_MAX_PER_WINDOW_def)

definition lets_through :: "bool \<Rightarrow> string \<Rightarrow> 's limits \<Rightarrow> envelope \<Rightarrow> string \<Rightarrow> rat \<Rightarrow> 's server \<Rightarrow> bool" where
  \<comment> \<open>every guard of the endpoint\<close>
  "lets_through demo expected cap env provided now srv \<longleftrightarrow>
     \<not> demo \<and> (expected = '''' \<or> compare_digest provided expected = Inr True) \<and>
     fst (check_rate_limit (''device:'' @ env_device env) now (s_guards srv)) \<and>
     \<not> has_seen (env_key env) (s_guards srv) \<and>
     is_contract_compatible (Some (env_version env)) \<and>
     (case max_devices cap of None \<Rightarrow> True
      | Some n \<Rightarrow> device_known cap (s_store srv) (env_device env) \<or> count_devices cap (s_store srv) < n)"


definition one_device :: "unit limits" where
  "one_device = \<lparr>max_devices = None, device_known = (\<lambda>_ _. True), count_devices = (\<lambda>_. 1)\<rparr>"


text \<open>A key recorded at \<open>t0\<close> is still recognised after any number of other keys have been recorded, the
  trim of the table included, as long as each was recorded within the five minutes a key lives.\<close>
theorem marked_key_survives_ttl:
  assumes "wf_dict (g_seen g)" and "k \<noteq> ''''"
    and "\<forall>(key, t)\<in>set ms. t0 \<le> t \<and> since t DEDUP_TTL_SEC t0"
  shows "has_seen (Some k) (mark_all ms (mark_seen (Some k) t0 g))"
  using remembers_has[OF remembers_all[OF remembers_marked[OF assms(1,2)] assms(3)] assms(2)] .

theorem marked_key_survives_ttl_witness:
  "has_seen (Some ''k1'') (mark_all [(Some ''k2'', 10), (None, 20)] (mark_seen (Some ''k1'') 1 fresh_guards))"
proof -
  have "rnd64 (- 290) = Fin (- 290)" "rnd64 (- 280) = Fin (- 280)"
    using rnd64_of_int[of "- 290"] rnd64_of_int[of "- 280"] by simp_all
  then show ?thesis
    by (intro marked_key_survives_ttl) (simp_all add: fresh_guards_def since_def DEDUP_TTL_SEC_def)
qed

end
