(* ===== verification/RescoreQueue.thy ===== *)
theory RescoreQueue
  imports Prelude
begin

text \<open>
  The coalescing rescore worker of \<open>server/rescore_queue.py\<close>.  Each block held under the condition's
  lock is one atomic operation on the queue; ingest threads and the worker interleave in between, as
  the step relation says.  What the scores should reflect is tracked beside the queue: how many
  writes each device's telemetry has seen, and up to which of them its last recompute looked.
\<close>

record rqueue =
  rq_pending :: "string set"
  rq_busy :: nat
  rq_stopping :: bool

definition new_queue :: rqueue where
  "new_queue = \<lparr>rq_pending = {}, rq_busy = 0, rq_stopping = False\<rparr>"

definition submit :: "string \<Rightarrow> rqueue \<Rightarrow> rqueue" where
  "submit d q = (if rq_stopping q then q else q\<lparr>rq_pending := insert d (rq_pending q)\<rparr>)"

definition stop_queue :: "rqueue \<Rightarrow> rqueue" where
  "stop_queue q = q\<lparr>rq_stopping := True\<rparr>"

datatype wake = Wait | Return | Work string rqueue

definition worker_wakes :: "rqueue \<Rightarrow> wake \<Rightarrow> bool" where
  \<comment> \<open>the locked head of the loop: which device \<open>set.pop\<close> takes is not determined\<close>
  "worker_wakes q w =
     (if rq_pending q = {} \<and> \<not> rq_stopping q then w = Wait
      else if rq_stopping q \<and> rq_pending q = {} then w = Return
      else \<exists>d\<in>rq_pending q. w = Work d (q\<lparr>rq_pending := rq_pending q - {d}, rq_busy := Suc (rq_busy q)\<rparr>))"

definition worker_done :: "rqueue \<Rightarrow> rqueue" where
  "worker_done q = q\<lparr>rq_busy := rq_busy q - 1\<rparr>"

definition drained :: "rqueue \<Rightarrow> bool" where
  \<comment> \<open>what \<open>drain\<close> waits for\<close>
  "drained q \<longleftrightarrow> rq_pending q = {} \<and> rq_busy q = 0"

subsection \<open>Ingest threads and the worker\<close>

datatype worker = Idle | Popped string | Looked string nat | Gone

record rworld =
  queue :: rqueue
  worker :: worker
  written :: "string \<Rightarrow> nat"   \<comment> \<open>telemetry writes of the device so far\<close>
  scored :: "string \<Rightarrow> nat"    \<comment> \<open>how many of them the last completed recompute saw\<close>
  unsent :: "string set"       \<comment> \<open>stored, the ingest thread has yet to call \<open>submit\<close>\<close>
  refused :: "string set"      \<comment> \<open>submitted after \<open>stop\<close>\<close>
  failed :: "string set"       \<comment> \<open>the last recompute raised\<close>
  submits :: nat
  runs :: nat

inductive rq_step :: "rworld \<Rightarrow> rworld \<Rightarrow> bool" where
  store: "rq_step w (w\<lparr>written := (written w)(d := Suc (written w d)), unsent := insert d (unsent w)\<rparr>)"
| submit: "d \<in> unsent w \<Longrightarrow>
    rq_step w (w\<lparr>queue := submit d (queue w), unsent := unsent w - {d}, submits := Suc (submits w),
      refused := (if rq_stopping (queue w) then insert d (refused w) else refused w)\<rparr>)"
| stop: "rq_step w (w\<lparr>queue := stop_queue (queue w)\<rparr>)"
| pop: "worker w = Idle \<Longrightarrow> worker_wakes (queue w) (Work d q) \<Longrightarrow>
    rq_step w (w\<lparr>queue := q, worker := Popped d, runs := Suc (runs w)\<rparr>)"
| exit: "worker w = Idle \<Longrightarrow> worker_wakes (queue w) Return \<Longrightarrow> rq_step w (w\<lparr>worker := Gone\<rparr>)"
| look: "worker w = Popped d \<Longrightarrow> rq_step w (w\<lparr>worker := Looked d (written w d)\<rparr>)"
| finish: "worker w = Looked d n \<Longrightarrow>
    rq_step w (w\<lparr>queue := worker_done (queue w), worker := Idle, scored := (scored w)(d := n),
      failed := failed w - {d}\<rparr>)"
| crash: "worker w \<in> {Popped d, Looked d n} \<Longrightarrow>
    rq_step w (w\<lparr>queue := worker_done (queue w), worker := Idle, failed := insert d (failed w)\<rparr>)"

inductive_cases rq_stepE: "rq_step w w'"

definition rq_start :: rworld where
  "rq_start = \<lparr>queue = new_queue, worker = Idle, written = (\<lambda>_. 0), scored = (\<lambda>_. 0), unsent = {},
     refused = {}, failed = {}, submits = 0, runs = 0\<rparr>"

definition rq_reachable :: "rworld \<Rightarrow> bool" where
  "rq_reachable w \<longleftrightarrow> rq_step\<^sup>*\<^sup>* rq_start w"

definition in_hand :: "rworld \<Rightarrow> string \<Rightarrow> bool" where
  \<comment> \<open>the worker is on the device and has not looked, or looked at the newest write\<close>
  "in_hand w d \<longleftrightarrow> worker w = Popped d \<or> worker w = Looked d (written w d)"

definition rq_inv :: "rworld \<Rightarrow> bool" where
  "rq_inv w \<longleftrightarrow>
     (\<forall>d. scored w d = written w d \<or> d \<in> unsent w \<or> d \<in> refused w \<or> d \<in> failed w \<or>
          d \<in> rq_pending (queue w) \<or> in_hand w d) \<and>
     (\<forall>d. scored w d \<le> written w d) \<and>
     rq_busy (queue w) = (case worker w of Popped _ \<Rightarrow> 1 | Looked _ _ \<Rightarrow> 1 | _ \<Rightarrow> 0) \<and>
     finite (rq_pending (queue w)) \<and> runs w + card (rq_pending (queue w)) \<le> submits w \<and>
     (worker w = Gone \<longrightarrow> rq_pending (queue w) = {} \<and> rq_stopping (queue w)) \<and>
     (\<forall>d n. worker w = Looked d n \<longrightarrow> n \<le> written w d \<and>
        (n = written w d \<or> d \<in> unsent w \<or> d \<in> refused w \<or> d \<in> rq_pending (queue w)))"

lemma rq_inv_start: "rq_inv rq_start"
  by (simp add: rq_inv_def rq_start_def new_queue_def)

lemma rq_inv_step: "rq_step w w' \<Longrightarrow> rq_inv w \<Longrightarrow> rq_inv w'"
proof (induction rule: rq_step.induct)
  case (store w d)
  then show ?case by (auto simp: rq_inv_def in_hand_def le_SucI)
next
  case (submit d w)
  then show ?case
    by (auto simp: rq_inv_def in_hand_def submit_def card_insert_if insert_absorb)
next
  case (stop w)
  then show ?case by (auto simp: rq_inv_def in_hand_def stop_queue_def)
next
  case (pop w d q)
  then have q: "d \<in> rq_pending (queue w)"
    "q = (queue w)\<lparr>rq_pending := rq_pending (queue w) - {d}, rq_busy := Suc (rq_busy (queue w))\<rparr>"
    by (auto simp: worker_wakes_def split: if_splits)
  have "card (rq_pending (queue w) - {d}) = card (rq_pending (queue w)) - 1"
    "0 < card (rq_pending (queue w))"
    using pop.prems q(1) by (auto simp: rq_inv_def card_gt_0_iff)
  then show ?case using pop q by (auto simp: rq_inv_def in_hand_def)
next
  case (exit w)
  then show ?case by (auto simp: rq_inv_def in_hand_def worker_wakes_def split: if_splits)
next
  case (look w d)
  then show ?case by (auto simp: rq_inv_def in_hand_def)
next
  case (finish w d n)
  then show ?case by (auto simp: rq_inv_def in_hand_def worker_done_def)
next
  case (crash w d n)
  then show ?case by (auto simp: rq_inv_def in_hand_def worker_done_def split: worker.splits)
qed

lemma rq_inv_reachable: "rq_reachable w \<Longrightarrow> rq_inv w"
  unfolding rq_reachable_def
proof (induction rule: rtranclp_induct)
  case base
  show ?case by (rule rq_inv_start)
next
  case (step y z)
  then show ?case by (blast intro: rq_inv_step)
qed

text \<open>C29: No write is lost by coalescing.  However ingest threads, the worker and \<open>stop\<close> interleave, once the
  queue is drained and every stored write was submitted, the last recompute of every device saw its
  newest write, unless that recompute raised or the device was submitted after the stop.  A recompute
  is never run without a submit to pay for it, and a worker that has returned left nothing pending.\<close>
theorem rescore_no_lost_update:
  assumes "rq_reachable w"
  shows "(drained (queue w) \<and> unsent w = {} \<longrightarrow>
      (\<forall>d. scored w d = written w d \<or> d \<in> failed w \<or> d \<in> refused w)) \<and>
    runs w \<le> submits w \<and> rq_busy (queue w) \<le> 1 \<and> (worker w = Gone \<longrightarrow> drained (queue w))"
proof -
  from rq_inv_reachable[OF assms] have inv: "rq_inv w" .
  have "scored w d = written w d \<or> d \<in> failed w \<or> d \<in> refused w"
    if "drained (queue w)" "unsent w = {}" for d
  proof -
    from that inv have "worker w = Idle \<or> worker w = Gone"
      by (auto simp: rq_inv_def drained_def split: worker.splits)
    then show ?thesis using inv that by (auto simp: rq_inv_def drained_def in_hand_def)
  qed
  moreover have "rq_busy (queue w) \<le> 1" using inv by (auto simp: rq_inv_def split: worker.splits)
  moreover have "worker w = Gone \<longrightarrow> drained (queue w)" using inv by (auto simp: rq_inv_def drained_def)
  ultimately show ?thesis using inv by (simp add: rq_inv_def)
qed

theorem rescore_no_lost_update_witness:
  "\<exists>w. rq_reachable w \<and> drained (queue w) \<and> written w ''dev'' = 2 \<and> scored w ''dev'' = 2 \<and> runs w = 1"
proof -
  define w1 where "w1 = rq_start\<lparr>written := (written rq_start)(''dev'' := Suc (written rq_start ''dev'')), unsent := insert ''dev'' (unsent rq_start)\<rparr>"
  define w2 where "w2 = w1\<lparr>written := (written w1)(''dev'' := Suc (written w1 ''dev'')), unsent := insert ''dev'' (unsent w1)\<rparr>"
  define w3 where "w3 = w2\<lparr>queue := submit ''dev'' (queue w2), unsent := unsent w2 - {''dev''}, submits := Suc (submits w2),
      refused := (if rq_stopping (queue w2) then insert ''dev'' (refused w2) else refused w2)\<rparr>"
  define w4 where "w4 = w3\<lparr>queue := (queue w3)\<lparr>rq_pending := rq_pending (queue w3) - {''dev''}, rq_busy := Suc (rq_busy (queue w3))\<rparr>,
      worker := Popped ''dev'', runs := Suc (runs w3)\<rparr>"
  define w5 where "w5 = w4\<lparr>worker := Looked ''dev'' (written w4 ''dev'')\<rparr>"
  define w6 where "w6 = w5\<lparr>queue := worker_done (queue w5), worker := Idle, scored := (scored w5)(''dev'' := 2),
      failed := failed w5 - {''dev''}\<rparr>"
  note d = w1_def w2_def w3_def w4_def w5_def w6_def rq_start_def new_queue_def submit_def worker_done_def
  have "rq_step rq_start w1" unfolding w1_def by (rule rq_step.store)
  moreover have "rq_step w1 w2" unfolding w2_def by (rule rq_step.store)
  moreover have "rq_step w2 w3" unfolding w3_def by (rule rq_step.submit) (simp add: d)
  moreover have "rq_step w3 w4" unfolding w4_def by (rule rq_step.pop) (simp_all add: d worker_wakes_def)
  moreover have "rq_step w4 w5" unfolding w5_def by (rule rq_step.look) (simp add: d)
  moreover have "rq_step w5 w6" unfolding w6_def by (rule rq_step.finish) (simp add: d)
  ultimately have "rq_reachable w6"
    unfolding rq_reachable_def by (meson converse_rtranclp_into_rtranclp rtranclp.rtrancl_refl)
  moreover have "drained (queue w6)" "unsent w6 = {}" "written w6 ''dev'' = 2" "runs w6 = 1" "failed w6 = {}" "refused w6 = {}"
    by (simp_all add: d drained_def)
  moreover from rescore_no_lost_update[OF \<open>rq_reachable w6\<close>] this have "scored w6 ''dev'' = written w6 ''dev''" by simp
  ultimately show ?thesis by auto
qed

end
