(* ===== verification/NetGraph.thy ===== *)
theory NetGraph
  imports Prelude
begin

text \<open>
  The topology graph of \<open>server/netdisco/graph.py\<close> and the correlation of \<open>correlation.py\<close>: an
  undirected graph as a dictionary of neighbour lists (a frozenset's order is the order of insertion
  here; no result below depends on it), breadth-first reachability around blocked nodes, the path to a
  root, and the verdicts that tell a failed node from one stranded behind it.
\<close>

type_synonym graph = "(string, string list) dict"

definition add_nbr :: "string \<Rightarrow> string \<Rightarrow> graph \<Rightarrow> graph" where
  \<comment> \<open>\<open>adj.setdefault(a, set()).add(b)\<close>\<close>
  "add_nbr a b g = (let ns = (case dict_get g a of None \<Rightarrow> [] | Some ns \<Rightarrow> ns)
     in dict_set g a (if b \<in> set ns then ns else ns @ [b]))"

definition present :: "string option \<Rightarrow> bool" where
  "present s \<longleftrightarrow> s \<noteq> None \<and> s \<noteq> Some ''''"

fun add_devices :: "string option list \<Rightarrow> graph \<Rightarrow> graph" where
  "add_devices [] g = g"
| "add_devices (nid # ds) g =
     add_devices ds (if present nid then dict_setdefault g (the nid) [] else g)"

fun add_links :: "(string option \<times> string option) list \<Rightarrow> graph \<Rightarrow> graph" where
  "add_links [] g = g"
| "add_links ((a, b) # ls) g =
     add_links ls (if \<not> present a \<or> \<not> present b \<or> a = b then g
                   else add_nbr (the b) (the a) (add_nbr (the a) (the b) g))"

definition build_graph :: "string option list \<Rightarrow> (string option \<times> string option) list \<Rightarrow> graph" where
  \<comment> \<open>the devices' \<open>device_nid\<close>, the links' \<open>a_nid\<close> and \<open>b_nid\<close>\<close>
  "build_graph devices links = add_links links (add_devices devices [])"

definition neighbors :: "graph \<Rightarrow> string \<Rightarrow> string list" where
  "neighbors g node = (case dict_get g node of None \<Rightarrow> [] | Some ns \<Rightarrow> ns)"

definition graph_nodes :: "graph \<Rightarrow> string set" where
  "graph_nodes g = set (dict_keys g) \<union> \<Union> (set ` snd ` set g)"

lemma finite_nodes [simp]: "finite (graph_nodes g)"
  by (simp add: graph_nodes_def)

lemma neighbors_nodes: "set (neighbors g n) \<subseteq> graph_nodes g"
proof (cases "dict_get g n")
  case (Some ns)
  from dict_get_in[OF this] have "set ns \<subseteq> \<Union> (set ` snd ` set g)" by force
  with Some show ?thesis by (auto simp: neighbors_def graph_nodes_def)
qed (simp add: neighbors_def)

subsection \<open>Reachability\<close>

fun discover :: "string set \<Rightarrow> string set \<Rightarrow> string list \<Rightarrow> string list" where
  \<comment> \<open>the neighbours the inner loop appends: neither seen nor blocked\<close>
  "discover blocked seen [] = []"
| "discover blocked seen (n # ns) =
     (if n \<in> seen \<or> n \<in> blocked then discover blocked seen ns
      else n # discover blocked (insert n seen) ns)"

lemma discover_set: "set (discover blocked seen ns) = set ns - seen - blocked"
  by (induction blocked seen ns rule: discover.induct) auto

lemma discover_distinct: "distinct (discover blocked seen ns)"
  by (induction blocked seen ns rule: discover.induct) (auto simp: discover_set)

lemma unseen_decreases:
  assumes "new = discover blocked (set seen) (neighbors g node)" and "new \<noteq> []"
  shows "card (graph_nodes g - (set seen \<union> set new)) < card (graph_nodes g - set seen)"
proof (rule psubset_card_mono)
  obtain n where n: "n \<in> set new" using assms(2) by (cases new) auto
  then have "n \<in> set (neighbors g node)" "n \<notin> set seen" using assms(1) by (auto simp: discover_set)
  then have "n \<in> graph_nodes g" using neighbors_nodes by blast
  with n \<open>n \<notin> set seen\<close> show "graph_nodes g - (set seen \<union> set new) \<subset> graph_nodes g - set seen" by auto
qed simp

function bfs :: "graph \<Rightarrow> string set \<Rightarrow> string list \<Rightarrow> string list \<Rightarrow> string list" where
  "bfs g blocked seen [] = seen"
| "bfs g blocked seen (node # queue) =
     (let new = discover blocked (set seen) (neighbors g node)
      in bfs g blocked (seen @ new) (queue @ new))"
  by pat_completeness auto
termination
proof (relation "measures [\<lambda>(g, blocked, seen, queue). card (graph_nodes g - set seen),
    \<lambda>(g, blocked, seen, queue). length queue]", goal_cases)
  case (2 g blocked seen node queue new)
  then show ?case using unseen_decreases[OF 2] by (cases "new = []") simp_all
qed simp

fun seed :: "graph \<Rightarrow> string set \<Rightarrow> string list \<Rightarrow> string list \<Rightarrow> string list" where
  "seed g blocked seen [] = seen"
| "seed g blocked seen (r # rs) =
     (if r \<in> set (dict_keys g) \<and> r \<notin> blocked \<and> r \<notin> set seen then seed g blocked (seen @ [r]) rs
      else seed g blocked seen rs)"

definition reachable_from :: "graph \<Rightarrow> string list \<Rightarrow> string set \<Rightarrow> string list" where
  "reachable_from g roots blocked = (let start = seed g blocked [] roots in bfs g blocked start start)"

lemma seed_set: "set (seed g blocked seen rs) = set seen \<union> {r \<in> set rs. r \<in> set (dict_keys g) \<and> r \<notin> blocked}"
  by (induction g blocked seen rs rule: seed.induct) auto

inductive up_reach :: "graph \<Rightarrow> string set \<Rightarrow> string set \<Rightarrow> string \<Rightarrow> bool"
  for g :: graph and blocked :: "string set" and roots :: "string set" where
  root: "r \<in> roots \<Longrightarrow> r \<in> set (dict_keys g) \<Longrightarrow> r \<notin> blocked \<Longrightarrow> up_reach g blocked roots r"
| hop: "up_reach g blocked roots n \<Longrightarrow> m \<in> set (neighbors g n) \<Longrightarrow> m \<notin> blocked \<Longrightarrow> up_reach g blocked roots m"

lemma up_reach_root: "(r, ns) \<in> set g \<Longrightarrow> r \<in> roots \<Longrightarrow> r \<notin> blocked \<Longrightarrow> up_reach g blocked roots r"
  by (rule up_reach.root) force+

lemma up_reach_not_blocked: "up_reach g blocked roots n \<Longrightarrow> n \<notin> blocked"
  by (induction rule: up_reach.induct) auto

lemma bfs_sound:
  "set seen \<subseteq> Collect (up_reach g blocked roots) \<Longrightarrow> set queue \<subseteq> set seen \<Longrightarrow>
   set (bfs g blocked seen queue) \<subseteq> Collect (up_reach g blocked roots)"
proof (induction g blocked seen queue rule: bfs.induct)
  case (2 g blocked seen node queue)
  define new where "new = discover blocked (set seen) (neighbors g node)"
  have "set new \<subseteq> Collect (up_reach g blocked roots)"
    using 2(2,3) by (auto simp: new_def discover_set intro: up_reach.hop)
  with 2(1)[OF new_def] 2(2,3) show ?case by (simp add: new_def[symmetric] Let_def) blast
qed simp

lemma bfs_closed:
  assumes "set queue \<subseteq> set seen"
    and "\<forall>n\<in>set seen - set queue. \<forall>m\<in>set (neighbors g n). m \<in> blocked \<or> m \<in> set seen"
  shows "set seen \<subseteq> set (bfs g blocked seen queue) \<and>
    (\<forall>n\<in>set (bfs g blocked seen queue). \<forall>m\<in>set (neighbors g n). m \<in> blocked \<or> m \<in> set (bfs g blocked seen queue))"
  using assms
proof (induction g blocked seen queue rule: bfs.induct)
  case (2 g blocked seen node queue)
  define new where "new = discover blocked (set seen) (neighbors g node)"
  have "\<forall>n\<in>set (seen @ new) - set (queue @ new). \<forall>m\<in>set (neighbors g n). m \<in> blocked \<or> m \<in> set (seen @ new)"
    using 2(3) by (auto simp: new_def discover_set)
  from 2(1)[OF new_def _ this] 2(2) show ?case by (auto simp: new_def[symmetric] Let_def)
qed simp

lemma reachable_from_iff: "n \<in> set (reachable_from g roots blocked) \<longleftrightarrow> up_reach g blocked (set roots) n"
proof
  let ?s = "seed g blocked [] roots"
  have "set ?s \<subseteq> Collect (up_reach g blocked (set roots))" unfolding seed_set by (auto intro: up_reach_root)
  then show "n \<in> set (reachable_from g roots blocked) \<Longrightarrow> up_reach g blocked (set roots) n"
    using bfs_sound[of ?s g blocked "set roots" ?s] by (auto simp: reachable_from_def Let_def)
  have c: "set ?s \<subseteq> set (bfs g blocked ?s ?s)"
    "\<forall>n\<in>set (bfs g blocked ?s ?s). \<forall>m\<in>set (neighbors g n). m \<in> blocked \<or> m \<in> set (bfs g blocked ?s ?s)"
    using bfs_closed[of ?s ?s g blocked] by auto
  assume "up_reach g blocked (set roots) n"
  then show "n \<in> set (reachable_from g roots blocked)"
    unfolding reachable_from_def Let_def
    by induction (use c in \<open>auto simp: seed_set\<close>)
qed

subsection \<open>The path to a root\<close>

text \<open>
  \<open>prev\<close> maps a reached node to the node it was reached from; \<open>sorted\<close> makes the search
  deterministic.  The chain is followed for as many steps as there are reached nodes.
\<close>

type_synonym parents = "(string, string option) dict"

fun climb :: "nat \<Rightarrow> parents \<Rightarrow> string \<Rightarrow> string list" where
  "climb 0 prev n = []"
| "climb (Suc k) prev n = n # (case dict_get prev n of Some (Some p) \<Rightarrow> climb k prev p | _ \<Rightarrow> [])"

function search_up :: "graph \<Rightarrow> string set \<Rightarrow> parents \<Rightarrow> string list \<Rightarrow> string list option" where
  "search_up g roots prev [] = None"
| "search_up g roots prev (cur # queue) =
     (if cur \<in> roots then Some (rev (climb (length prev) prev cur))
      else let new = discover {} (set (dict_keys prev)) (sort (neighbors g cur))
           in search_up g roots (prev @ map (\<lambda>n. (n, Some cur)) new) (queue @ new))"
  by pat_completeness auto
termination
proof (relation "measures [\<lambda>(g, roots, prev, queue). card (graph_nodes g - set (dict_keys prev)),
    \<lambda>(g, roots, prev, queue). length queue]", goal_cases)
  case (2 g roots prev cur queue new)
  have "card (graph_nodes g - (set (dict_keys prev) \<union> set new)) < card (graph_nodes g - set (dict_keys prev))"
    if ne: "new \<noteq> []"
  proof (rule psubset_card_mono)
    obtain n where n: "n \<in> set new" using ne by (cases new) auto
    then have "n \<in> set (neighbors g cur)" "n \<notin> set (dict_keys prev)" using 2(2) by (auto simp: discover_set)
    then have "n \<in> graph_nodes g" using neighbors_nodes by blast
    with n \<open>n \<notin> set (dict_keys prev)\<close>
    show "graph_nodes g - (set (dict_keys prev) \<union> set new) \<subset> graph_nodes g - set (dict_keys prev)" by auto
  qed simp
  then show ?case by (cases "new = []") (simp_all add: image_Un image_image)
qed simp

definition path_to_root :: "graph \<Rightarrow> string \<Rightarrow> string list \<Rightarrow> string list option" where
  "path_to_root g node roots =
     (if node \<in> set roots then Some [node]
      else search_up g (set roots) [(node, None)] [node])"

subsection \<open>Root causes and verdicts\<close>

definition find_root_cause :: "graph \<Rightarrow> string list \<Rightarrow> string list \<Rightarrow> string list" where
  "find_root_cause g downs roots =
     (let up = reachable_from g roots (set downs)
      in filter (\<lambda>n. n \<in> set roots \<or> list_ex (\<lambda>m. m \<in> set up) (neighbors g n)) downs)"

datatype net_status = NET_DOWN | UNREACHABLE

record net_verdict =
  nv_status :: net_status
  nv_cause :: "string option"
  nv_suppressed :: bool

definition upstream_cause :: "graph \<Rightarrow> string \<Rightarrow> string list \<Rightarrow> string list \<Rightarrow> string option" where
  "upstream_cause g node roots causes =
     (case path_to_root g node roots of
        None \<Rightarrow> None
      | Some path \<Rightarrow> find (\<lambda>h. h \<in> set causes) (tl path))"

definition correlate :: "graph \<Rightarrow> string list \<Rightarrow> string list \<Rightarrow> (string, net_verdict) dict" where
  \<comment> \<open>\<open>downs\<close> and \<open>roots\<close> stand for sets; the result is built in the order of \<open>downs\<close>\<close>
  "correlate g downs roots =
     (let causes = find_root_cause g downs roots
      in map (\<lambda>n. (n, if n \<in> set causes
           then \<lparr>nv_status = NET_DOWN, nv_cause = Some n, nv_suppressed = False\<rparr>
           else \<lparr>nv_status = UNREACHABLE, nv_cause = upstream_cause g n roots causes, nv_suppressed = True\<rparr>))
         (remdups downs))"

subsection \<open>The graph is symmetric\<close>

definition symmetric :: "graph \<Rightarrow> bool" where
  "symmetric g \<longleftrightarrow> (\<forall>a b. b \<in> set (neighbors g a) \<longrightarrow> a \<in> set (neighbors g b))"

lemma neighbors_add: "set (neighbors (add_nbr a b g) c) = (if c = a then insert b (set (neighbors g a)) else set (neighbors g c))"
  by (auto simp: neighbors_def add_nbr_def Let_def dict_simps split: option.split)

lemma neighbors_setdefault [simp]: "neighbors (dict_setdefault g n []) c = neighbors g c"
  by (auto simp: neighbors_def dict_simps split: option.split)

lemma symmetric_devices: "symmetric g \<Longrightarrow> symmetric (add_devices ds g)"
  by (induction ds g rule: add_devices.induct) (auto simp: symmetric_def)

lemma symmetric_links: "symmetric g \<Longrightarrow> symmetric (add_links ls g)"
proof (induction ls g rule: add_links.induct)
  case (2 a b ls g)
  have "symmetric (add_nbr x y (add_nbr y x g))" for x y
    using 2(2) by (auto simp: symmetric_def neighbors_add split: if_splits)
  with 2 show ?case by simp
qed simp

lemma symmetric_build: "symmetric (build_graph ds ls)"
  unfolding build_graph_def by (intro symmetric_links symmetric_devices) (simp add: symmetric_def neighbors_def)

lemma neighbor_key: "m \<in> set (neighbors g n) \<Longrightarrow> n \<in> set (dict_keys g)"
proof (cases "dict_get g n")
  case (Some ns)
  from dict_get_in[OF this] show ?thesis by force
qed (simp add: neighbors_def)

subsection \<open>Paths\<close>

abbreviation hops :: "graph \<Rightarrow> string list \<Rightarrow> bool" where
  "hops g \<equiv> successively (\<lambda>x y. y \<in> set (neighbors g x))"

inductive search_tree :: "graph \<Rightarrow> string \<Rightarrow> parents \<Rightarrow> bool" for g :: graph and node :: string where
  start: "search_tree g node [(node, None)]"
| grow: "search_tree g node prev \<Longrightarrow> n \<notin> set (dict_keys prev) \<Longrightarrow> p \<in> set (dict_keys prev) \<Longrightarrow>
    n \<in> set (neighbors g p) \<Longrightarrow> search_tree g node (prev @ [(n, Some p)])"

lemma search_tree_root: "search_tree g node prev \<Longrightarrow> node \<in> set (dict_keys prev)"
  by (induction rule: search_tree.induct) auto

lemma tree_parent_key:
  "search_tree g node prev \<Longrightarrow> dict_get prev m = Some (Some p) \<Longrightarrow> p \<in> set (dict_keys prev)"
  by (induction rule: search_tree.induct) (auto simp: map_add_def split: option.splits if_splits)

lemma climb_append:
  assumes "search_tree g node prev" and "m \<in> set (dict_keys prev)" and "n \<notin> set (dict_keys prev)"
  shows "climb k (prev @ [(n, x)]) m = climb k prev m"
  using assms(2)
proof (induction k arbitrary: m)
  case (Suc k)
  from Suc.prems assms(3) have "m \<noteq> n" by auto
  then have "dict_get (prev @ [(n, x)]) m = dict_get prev m" by (auto simp: map_add_def split: option.split)
  then show ?case using Suc.IH tree_parent_key[OF assms(1), of m] by (auto split: option.split)
qed simp

lemma climb_path:
  assumes "search_tree g node prev" and "m \<in> set (dict_keys prev)"
  shows "\<exists>c. (\<forall>k\<ge>length prev. climb k prev m = c) \<and> c \<noteq> [] \<and> hd c = m \<and> last c = node \<and>
    hops g (rev c) \<and> distinct c \<and> set c \<subseteq> set (dict_keys prev)"
  using assms
proof (induction arbitrary: m rule: search_tree.induct)
  case start
  have "climb k [(node, None)] node = [node]" if "1 \<le> k" for k using that by (cases k) auto
  with start show ?case by (intro exI[of _ "[node]"]) auto
next
  case (grow prev n p)
  show ?case
  proof (cases "m = n")
    case False
    with grow.prems have m: "m \<in> set (dict_keys prev)" by auto
    from grow.IH[OF m] obtain c where c: "\<forall>k\<ge>length prev. climb k prev m = c" "c \<noteq> []" "hd c = m" "last c = node"
      "hops g (rev c)" "distinct c" "set c \<subseteq> set (dict_keys prev)" by blast
    have "climb k (prev @ [(n, Some p)]) m = climb k prev m" for k
      by (rule climb_append[OF grow.hyps(1) m grow.hyps(2)])
    with c show ?thesis by (intro exI[of _ c]) auto
  next
    case True
    from grow.IH[OF grow.hyps(3)] obtain c where c: "\<forall>k\<ge>length prev. climb k prev p = c" "c \<noteq> []" "hd c = p" "last c = node"
      "hops g (rev c)" "distinct c" "set c \<subseteq> set (dict_keys prev)" by blast
    have "dict_get prev n = None" using grow.hyps(2) by (simp add: map_of_eq_None_iff)
    then have get: "dict_get (prev @ [(n, Some p)]) n = Some (Some p)" by (simp add: map_add_def)
    have "climb k (prev @ [(n, Some p)]) n = n # c" if "length (prev @ [(n, Some p)]) \<le> k" for k
    proof -
      from that obtain j where j: "k = Suc j" "length prev \<le> j" by (cases k) auto
      have "climb j (prev @ [(n, Some p)]) p = climb j prev p"
        by (rule climb_append[OF grow.hyps(1,3,2)])
      with c(1) j get show ?thesis by simp
    qed
    moreover have "hops g (rev (n # c))"
      using c(2,3,5) grow.hyps(4) by (simp add: successively_append_iff last_rev)
    moreover have "n \<notin> set c" using c(7) grow.hyps(2) by auto
    ultimately show ?thesis using True c by (intro exI[of _ "n # c"]) auto
  qed
qed

lemma search_tree_grow_all:
  assumes "search_tree g node prev" and "cur \<in> set (dict_keys prev)" and "distinct new"
    and "set new \<subseteq> set (neighbors g cur)" and "set new \<inter> set (dict_keys prev) = {}"
  shows "search_tree g node (prev @ map (\<lambda>n. (n, Some cur)) new)"
  using assms
proof (induction new arbitrary: prev)
  case (Cons n new)
  have "search_tree g node (prev @ [(n, Some cur)])"
    using Cons.prems by (intro search_tree.grow) auto
  from Cons.IH[OF this] Cons.prems show ?case by auto
qed simp

lemma search_up_path:
  assumes "search_tree g node prev" and "set queue \<subseteq> set (dict_keys prev)"
    and "search_up g roots prev queue = Some path"
  shows "hops g path \<and> path \<noteq> [] \<and> hd path = node \<and> last path \<in> roots \<and> distinct path"
  using assms
proof (induction g roots prev queue rule: search_up.induct)
  case (2 g roots prev cur queue)
  define new where "new = discover {} (set (dict_keys prev)) (sort (neighbors g cur))"
  show ?case
  proof (cases "cur \<in> roots")
    case True
    obtain c where c: "\<forall>k\<ge>length prev. climb k prev cur = c" "c \<noteq> []" "hd c = cur" "last c = node"
      "hops g (rev c)" "distinct c" using climb_path[OF 2(2), of cur] 2(3) by auto
    with True 2(4) show ?thesis by (auto simp: hd_rev last_rev)
  next
    case False
    have "search_tree g node (prev @ map (\<lambda>n. (n, Some cur)) new)"
      using 2(2,3) by (intro search_tree_grow_all) (auto simp: new_def discover_set discover_distinct)
    moreover have "set (queue @ new) \<subseteq> set (dict_keys (prev @ map (\<lambda>n. (n, Some cur)) new))"
      using 2(3) by (auto simp: image_Un image_image)
    ultimately show ?thesis using 2(1)[OF False new_def] 2(4) False by (simp add: new_def Let_def)
  qed
qed simp

lemma search_up_none:
  assumes "search_up g roots prev queue = None" and "set queue \<subseteq> set (dict_keys prev)"
    and "\<forall>n\<in>set (dict_keys prev) - set queue. n \<notin> roots \<and> set (neighbors g n) \<subseteq> set (dict_keys prev)"
  shows "\<exists>S. set (dict_keys prev) \<subseteq> S \<and> S \<inter> roots = {} \<and> (\<forall>n\<in>S. set (neighbors g n) \<subseteq> S)"
  using assms
proof (induction g roots prev queue rule: search_up.induct)
  case (1 g roots prev)
  then show ?case by (intro exI[of _ "set (dict_keys prev)"]) auto
next
  case (2 g roots prev cur queue)
  define new where "new = discover {} (set (dict_keys prev)) (sort (neighbors g cur))"
  define prev' where "prev' = prev @ map (\<lambda>n. (n, Some cur)) new"
  from 2(2) have cur: "cur \<notin> roots" by (auto split: if_splits)
  have keys: "set (dict_keys prev') = set (dict_keys prev) \<union> set (neighbors g cur)"
    by (auto simp: prev'_def new_def discover_set image_Un image_image)
  have a: "search_up g roots prev' (queue @ new) = None"
    using 2(2) cur by (simp add: new_def prev'_def Let_def)
  have b: "set (queue @ new) \<subseteq> set (dict_keys prev')"
    using 2(3) unfolding keys by (auto simp: new_def discover_set)
  have c: "\<forall>n\<in>set (dict_keys prev') - set (queue @ new). n \<notin> roots \<and> set (neighbors g n) \<subseteq> set (dict_keys prev')"
    using 2(4) cur unfolding keys by (auto simp: new_def discover_set)
  from 2(1)[OF cur new_def, folded prev'_def, OF a b c] obtain S where S: "set (dict_keys prev') \<subseteq> S"
    "S \<inter> roots = {}" "\<forall>n\<in>S. set (neighbors g n) \<subseteq> S" by blast
  have "set (dict_keys prev) \<subseteq> S" using S(1) unfolding keys by simp
  with S(2,3) show ?case by blast
qed

lemma path_to_root_some:
  assumes "path_to_root g node roots = Some path"
  shows "hops g path \<and> path \<noteq> [] \<and> hd path = node \<and> last path \<in> set roots \<and> distinct path"
  using assms search_up_path[OF search_tree.start, of "[node]" node g "set roots" path]
  by (auto simp: path_to_root_def split: if_splits)

lemma hops_closed: "hops g path \<Longrightarrow> path \<noteq> [] \<Longrightarrow> hd path \<in> S \<Longrightarrow> (\<forall>n\<in>S. set (neighbors g n) \<subseteq> S) \<Longrightarrow> last path \<in> S"
proof (induction path)
  case (Cons x path)
  show ?case
  proof (cases path)
    case (Cons y ys)
    with Cons.prems have "hd path \<in> S" by auto
    with Cons.IH Cons.prems Cons have "last path \<in> S" by simp
    with Cons show ?thesis by simp
  qed (use Cons.prems in simp)
qed simp

lemma path_to_root_none:
  assumes "path_to_root g node roots = None" and "hops g path" "path \<noteq> []" "hd path = node"
  shows "last path \<notin> set roots"
proof -
  from assms(1) have "node \<notin> set roots" "search_up g (set roots) [(node, None)] [node] = None"
    by (auto simp: path_to_root_def split: if_splits)
  from search_up_none[OF this(2)] obtain S where "node \<in> S" "S \<inter> set roots = {}" "\<forall>n\<in>S. set (neighbors g n) \<subseteq> S"
    by auto
  with hops_closed[OF assms(2,3), of S] assms(4) show ?thesis by auto
qed

subsection \<open>Every stranded node on a path to a root has a cause on it\<close>

lemma find_root_cause_iff:
  "n \<in> set (find_root_cause g downs roots) \<longleftrightarrow> n \<in> set downs \<and>
     (n \<in> set roots \<or> (\<exists>m\<in>set (neighbors g n). up_reach g (set downs) (set roots) m))"
  by (auto simp: find_root_cause_def Let_def list_ex_iff reachable_from_iff)

lemma cause_on_path:
  assumes "symmetric g" and "hops g path" "path \<noteq> []" "last path \<in> set roots" "last path \<in> set (dict_keys g)"
  shows "(\<exists>c\<in>set path. c \<in> set (find_root_cause g downs roots)) \<or>
    hd path \<notin> set downs \<and> up_reach g (set downs) (set roots) (hd path)"
  using assms(2-5)
proof (induction path)
  case (Cons x path)
  show ?case
  proof (cases path)
    case Nil
    with Cons.prems show ?thesis
      by (cases "x \<in> set downs") (auto simp: find_root_cause_iff intro: up_reach_root)
  next
    case (Cons y ys)
    with Cons.prems have y: "y \<in> set (neighbors g x)" by simp
    then have "x \<in> set (neighbors g y)" using assms(1) by (simp add: symmetric_def)
    with y Cons.IH Cons.prems Cons show ?thesis
      by (cases "x \<in> set downs") (auto simp: find_root_cause_iff intro: up_reach.hop)
  qed
qed simp

lemma upstream_cause_some:
  assumes "symmetric g" and "node \<in> set downs" and "node \<notin> set (find_root_cause g downs roots)"
    and "path_to_root g node roots = Some path"
  shows "\<exists>c\<in>set (tl path). upstream_cause g node roots (find_root_cause g downs roots) = Some c \<and>
    c \<in> set (find_root_cause g downs roots)"
proof -
  let ?c = "find_root_cause g downs roots"
  from path_to_root_some[OF assms(4)] have p: "hops g path" "path \<noteq> []" "hd path = node" "last path \<in> set roots" by auto
  have "node \<notin> set roots" using assms(2,3) by (auto simp: find_root_cause_iff)
  with p have "tl path \<noteq> []" by (cases path) auto
  then obtain ys x y where xy: "path = ys @ [x, y]" using p(2)
    by (metis append_Cons append_Nil append_assoc append_butlast_last_id list.sel(3) neq_Nil_conv)
  with p(1) have "y \<in> set (neighbors g x)" by (simp add: successively_append_iff)
  then have "x \<in> set (neighbors g y)" using assms(1) by (simp add: symmetric_def)
  then have "last path \<in> set (dict_keys g)" using neighbor_key xy by auto
  from cause_on_path[OF assms(1) p(1,2,4) this, of downs] assms(2) p(3)
  obtain c where "c \<in> set path" "c \<in> set ?c" by auto
  then have "c \<in> set (tl path)" using assms(3) p(2,3) by (cases path) auto
  with \<open>c \<in> set ?c\<close> obtain d where "find (\<lambda>h. h \<in> set ?c) (tl path) = Some d"
    by (cases "find (\<lambda>h. h \<in> set ?c) (tl path)") (auto simp: find_None_iff)
  then show ?thesis using assms(4) by (auto simp: upstream_cause_def find_Some_iff)
qed

subsection \<open>Properties\<close>

text \<open>C32: \<open>reachable_from\<close> returns exactly the nodes some up root can reach through up nodes, and a node is
  a root cause exactly when it is down and is a root or has a neighbour in that set: the failures an
  observer at the roots sees first.\<close>
theorem root_causes_are_the_failure_frontier:
  "(n \<in> set (reachable_from g roots blocked) \<longleftrightarrow> up_reach g blocked (set roots) n) \<and>
   (n \<in> set (find_root_cause g downs roots) \<longleftrightarrow> n \<in> set downs \<and>
     (n \<in> set roots \<or> (\<exists>m\<in>set (neighbors g n). up_reach g (set downs) (set roots) m)))"
  using reachable_from_iff[of n g roots blocked] find_root_cause_iff[of n g downs roots] by simp

theorem root_causes_are_the_failure_frontier_witness:
  "''b'' \<in> set (find_root_cause (build_graph [] [(Some ''a'', Some ''b''), (Some ''b'', Some ''c'')]) [''b'', ''c''] [''a''])"
proof -
  let ?g = "build_graph [] [(Some ''a'', Some ''b''), (Some ''b'', Some ''c'')]"
  have g: "?g = [(''a'', [''b'']), (''b'', [''a'', ''c'']), (''c'', [''b''])]" by code_simp
  have "up_reach ?g {''b'', ''c''} {''a''} ''a''" by (rule up_reach.root) (simp_all add: g)
  then show ?thesis
    using root_causes_are_the_failure_frontier[of "''b''" ?g "[''a'']" "{}" "[''b'', ''c'']"]
    by (simp add: g neighbors_def)
qed

text \<open>On the graph \<open>build_graph\<close> makes, \<open>path_to_root\<close> returns a simple path along links from the node to
  a root whenever there is a path at all, and None only when there is none.\<close>
theorem path_to_root_complete:
  "case path_to_root g node roots of
     Some path \<Rightarrow> hops g path \<and> path \<noteq> [] \<and> hd path = node \<and> last path \<in> set roots \<and> distinct path
   | None \<Rightarrow> \<not> (\<exists>path. hops g path \<and> path \<noteq> [] \<and> hd path = node \<and> last path \<in> set roots)"
  using path_to_root_some path_to_root_none by (auto split: option.split)

theorem path_to_root_complete_witness:
  "path_to_root [(''a'', [''b'']), (''b'', [''a'']), (''x'', [])] ''x'' [''a''] = None \<and>
   \<not> (\<exists>path. hops [(''a'', [''b'']), (''b'', [''a'']), (''x'', [])] path \<and> path \<noteq> [] \<and> hd path = ''x'' \<and> last path \<in> set [''a''])"
proof -
  let ?g = "[(''a'', [''b'']), (''b'', [''a'']), (''x'', [])] :: graph"
  have n: "path_to_root ?g ''x'' [''a''] = None" by (simp add: path_to_root_def neighbors_def)
  with path_to_root_complete[of ?g "''x''" "[''a'']"] show ?thesis by simp
qed

text \<open>Correlation raises one alarm per cause and hides no failure without one.  Every down node gets a
  verdict; it is DOWN and not suppressed exactly when it is a root cause; a suppressed node names as its
  cause a DOWN node on its own path to a root, and names none only when no path leads to a root.\<close>
theorem correlate_suppresses_only_explained:
  assumes "g = build_graph devices links" and "node \<in> set downs"
  shows "\<exists>v. dict_get (correlate g downs roots) node = Some v \<and>
    (nv_suppressed v \<longleftrightarrow> nv_status v = UNREACHABLE) \<and>
    (nv_status v = NET_DOWN \<longleftrightarrow> node \<in> set (find_root_cause g downs roots)) \<and>
    (case nv_cause v of
       Some c \<Rightarrow> c \<in> set (find_root_cause g downs roots) \<and> (c = node \<longleftrightarrow> nv_status v = NET_DOWN) \<and>
         (nv_status v = UNREACHABLE \<longrightarrow> (\<exists>path. path_to_root g node roots = Some path \<and> c \<in> set (tl path)))
     | None \<Rightarrow> nv_status v = UNREACHABLE \<and> path_to_root g node roots = None)"
proof -
  have sym: "symmetric g" unfolding assms(1) by (rule symmetric_build)
  let ?c = "find_root_cause g downs roots"
  let ?f = "\<lambda>n. if n \<in> set ?c
           then \<lparr>nv_status = NET_DOWN, nv_cause = Some n, nv_suppressed = False\<rparr>
           else \<lparr>nv_status = UNREACHABLE, nv_cause = upstream_cause g n roots ?c, nv_suppressed = True\<rparr>"
  have "map_of (map (\<lambda>n. (n, ?f n)) ns) node = (if node \<in> set ns then Some (?f node) else None)" for ns
    by (induction ns) auto
  then have get: "dict_get (correlate g downs roots) node = Some (?f node)"
    using assms(2) by (simp add: correlate_def Let_def)
  show ?thesis
  proof (cases "node \<in> set ?c")
    case True
    then show ?thesis unfolding get by simp
  next
    case False
    show ?thesis
    proof (cases "path_to_root g node roots")
      case None
      then show ?thesis unfolding get using False by (simp add: upstream_cause_def)
    next
      case (Some path)
      from upstream_cause_some[OF sym assms(2) False Some] False obtain c where
        "c \<in> set (tl path)" "upstream_cause g node roots ?c = Some c" "c \<in> set ?c" "c \<noteq> node" by blast
      with Some False show ?thesis unfolding get by simp
    qed
  qed
qed

theorem correlate_suppresses_only_explained_witness:
  "\<exists>v. dict_get (correlate (build_graph [] [(Some ''a'', Some ''b''), (Some ''b'', Some ''c'')]) [''b'', ''c''] [''a'']) ''c'' = Some v \<and>
    (nv_suppressed v \<longleftrightarrow> nv_status v = UNREACHABLE)"
  using correlate_suppresses_only_explained[OF refl, of "''c''" "[''b'', ''c'']" "[]"
      "[(Some ''a'', Some ''b''), (Some ''b'', Some ''c'')]" "[''a'']"]
  by auto

end
