(* ===== verification/NetIdentity.thy ===== *)
theory NetIdentity
  imports PyFloat "HOL-Library.Word"
begin

text \<open>
  Who a network device is: MAC normalisation and the vendor seed (\<open>server/analytics/oui.py\<close>), the
  stable identifier and the joins built on it (\<open>server/netdisco/identity.py\<close>), and the device type
  (\<open>classify.py\<close>).  Identifiers are ASCII text.  Parsing of IP literals is the standard library's;
  its result, the canonical text and whether the address is private, is a parameter.
\<close>

subsection \<open>MAC addresses (\<open>oui.py\<close>)\<close>

definition upper :: "string \<Rightarrow> string" where
  "upper s = map (\<lambda>c. let n = (of_char c :: nat) in if 97 \<le> n \<and> n \<le> 122 then char_of (n - 32) else c) s"

definition is_hex :: "char \<Rightarrow> bool" where
  "is_hex c \<longleftrightarrow> (let n = (of_char c :: nat) in 48 \<le> n \<and> n \<le> 57 \<or> 65 \<le> n \<and> n \<le> 70)"

fun pairs_of :: "string \<Rightarrow> string list" where
  "pairs_of (a # b # s) = [a, b] # pairs_of s"
| "pairs_of [a] = [[a]]"
| "pairs_of [] = []"

definition normalize_mac :: "string option \<Rightarrow> string option" where
  "normalize_mac mac =
     (case mac of
        None \<Rightarrow> None
      | Some m \<Rightarrow>
          if m = '''' then None
          else let digits = filter is_hex (upper m)
               in if length digits \<noteq> 12 then None else Some (join_with ''-'' (pairs_of digits)))"

definition VENDOR_SEED :: "(string, string) dict" where
  "VENDOR_SEED =
     [(''00-50-56'', ''VMware''), (''00-0C-29'', ''VMware''), (''00-05-69'', ''VMware''),
      (''00-15-5D'', ''Microsoft Hyper-V''), (''08-00-27'', ''VirtualBox''), (''52-54-00'', ''QEMU/KVM''),
      (''B8-27-EB'', ''Raspberry Pi''), (''DC-A6-32'', ''Raspberry Pi''), (''E4-5F-01'', ''Raspberry Pi'')]"

definition vendor_for_mac :: "string option \<Rightarrow> string option" where
  "vendor_for_mac mac = (case normalize_mac mac of None \<Rightarrow> None | Some n \<Rightarrow> dict_get VENDOR_SEED (take 8 n))"

subsection \<open>The stable identifier (\<open>identity.py\<close>)\<close>

definition TOKEN_MAX :: nat where "TOKEN_MAX = 48"

definition STRENGTH :: "(string, nat) dict" where
  "STRENGTH = [(''chassis'', 4), (''sn'', 3), (''mac'', 2), (''ip'', 1), (''unknown'', 0)]"

definition is_alnum :: "char \<Rightarrow> bool" where
  "is_alnum c \<longleftrightarrow> (let n = (of_char c :: nat)
     in 48 \<le> n \<and> n \<le> 57 \<or> 65 \<le> n \<and> n \<le> 90 \<or> 97 \<le> n \<and> n \<le> 122)"

definition norm_token :: "string option \<Rightarrow> string option" where
  "norm_token raw =
     (case raw of
        None \<Rightarrow> None
      | Some r \<Rightarrow>
          if strip r = '''' then None
          else let slug = map (\<lambda>c. if is_alnum c then c else CHR ''-'') (upper (strip r));
                   collapsed = join_with ''-'' (filter (\<lambda>p. p \<noteq> []) (split_on CHR ''-'' slug));
                   token = take TOKEN_MAX collapsed
               in if token = '''' then None else Some token)"

type_synonym ip_parser = "string \<Rightarrow> (string \<times> bool) option"

definition valid_ip :: "ip_parser \<Rightarrow> string \<Rightarrow> bool" where
  "valid_ip ip_address ip \<longleftrightarrow> ip_address (strip ip) \<noteq> None"

definition device_nid ::
  "ip_parser \<Rightarrow> string option \<Rightarrow> string option \<Rightarrow> string option \<Rightarrow> string option \<Rightarrow> string" where
  "device_nid ip_address chassis_id serial mac ip =
     (case norm_token chassis_id of
        Some t \<Rightarrow> ''nd-chassis-'' @ t
      | None \<Rightarrow>
     (case norm_token serial of
        Some t \<Rightarrow> ''nd-sn-'' @ t
      | None \<Rightarrow>
     (case normalize_mac mac of
        Some m \<Rightarrow> ''nd-mac-'' @ m
      | None \<Rightarrow>
     (case ip of
        Some a \<Rightarrow> if a \<noteq> '''' \<and> valid_ip ip_address a then ''nd-ip-'' @ strip a else ''nd-unknown''
      | None \<Rightarrow> ''nd-unknown''))))"

definition scheme_of :: "string \<Rightarrow> string" where
  \<comment> \<open>the second of the parts \<open>split("-", 2)\<close> makes\<close>
  "scheme_of nid = (case split_on CHR ''-'' nid of a # b # _ \<Rightarrow> if a = ''nd'' then b else ''unknown''
     | _ \<Rightarrow> ''unknown'')"

definition strength_of :: "string \<Rightarrow> nat" where
  "strength_of nid = (case dict_get STRENGTH (scheme_of nid) of None \<Rightarrow> 0 | Some n \<Rightarrow> n)"

definition merge_identity :: "string \<Rightarrow> string \<Rightarrow> string" where
  "merge_identity old_nid new_nid = (if strength_of old_nid < strength_of new_nid then new_nid else old_nid)"

definition canon_ip :: "ip_parser \<Rightarrow> string option \<Rightarrow> string option" where
  "canon_ip ip_address ip =
     (case ip of
        None \<Rightarrow> None
      | Some a \<Rightarrow>
          if strip a = '''' then None
          else (case ip_address (strip a) of None \<Rightarrow> None
                | Some (text, private) \<Rightarrow> if private then Some text else None))"

record printer_row =
  pr_id :: "string option"
  pr_mac :: "string option"
  pr_ip :: "string option"

record net_row =
  nr_nid :: "string option"
  nr_mac :: "string option"
  nr_ip :: "string option"

record id_link =
  il_device :: "string option"
  il_printer :: "string option"

fun index_printers :: "ip_parser \<Rightarrow> printer_row list \<Rightarrow> (string, string) dict \<Rightarrow> (string, string) dict
    \<Rightarrow> (string, string) dict \<times> (string, string) dict" where
  "index_printers ip_address [] by_mac by_ip = (by_mac, by_ip)"
| "index_printers ip_address (p # ps) by_mac by_ip =
     (case pr_id p of
        None \<Rightarrow> index_printers ip_address ps by_mac by_ip
      | Some pid \<Rightarrow>
          if pid = '''' then index_printers ip_address ps by_mac by_ip
          else index_printers ip_address ps
            (case normalize_mac (pr_mac p) of None \<Rightarrow> by_mac | Some m \<Rightarrow> dict_setdefault by_mac m pid)
            (case canon_ip ip_address (pr_ip p) of None \<Rightarrow> by_ip
             | Some a \<Rightarrow> if a = '''' then by_ip else dict_setdefault by_ip a pid))"

definition link_row ::
  "ip_parser \<Rightarrow> (string, string) dict \<Rightarrow> (string, string) dict \<Rightarrow> (string, string) dict \<Rightarrow> net_row \<Rightarrow> id_link" where
  "link_row ip_address agent_macs by_mac by_ip nd =
     (case normalize_mac (nr_mac nd) of
        Some m \<Rightarrow> \<lparr>il_device = dict_get agent_macs m, il_printer = dict_get by_mac m\<rparr>
      | None \<Rightarrow> \<lparr>il_device = None,
          il_printer = (case canon_ip ip_address (nr_ip nd) of None \<Rightarrow> None
             | Some a \<Rightarrow> if a = '''' then None else dict_get by_ip a)\<rparr>)"

fun link_loop ::
  "ip_parser \<Rightarrow> (string, string) dict \<Rightarrow> (string, string) dict \<Rightarrow> (string, string) dict \<Rightarrow> net_row list
    \<Rightarrow> (string, id_link) dict \<Rightarrow> (string, id_link) dict" where
  "link_loop ip_address agent_macs by_mac by_ip [] links = links"
| "link_loop ip_address agent_macs by_mac by_ip (nd # nds) links =
     link_loop ip_address agent_macs by_mac by_ip nds
       (case nr_nid nd of
          None \<Rightarrow> links
        | Some nid \<Rightarrow>
            if nid = '''' \<or> nid = ''nd-unknown'' then links
            else let l = link_row ip_address agent_macs by_mac by_ip nd
                 in if il_device l \<noteq> None \<or> il_printer l \<noteq> None then dict_set links nid l else links)"

definition link_identities ::
  "ip_parser \<Rightarrow> net_row list \<Rightarrow> (string, string) dict \<Rightarrow> printer_row list \<Rightarrow> (string, id_link) dict" where
  "link_identities ip_address net_devices agent_macs printers =
     (case index_printers ip_address printers [] [] of
        (by_mac, by_ip) \<Rightarrow> link_loop ip_address agent_macs by_mac by_ip net_devices [])"

subsection \<open>The device type (\<open>classify.py\<close>)\<close>

record net_interface =
  if_index :: "int option"
  if_type :: "int option"

record device_profile =
  dp_responded :: bool
  dp_sys_services :: "int option"
  dp_ip_forwarding :: "bool option"
  dp_bridge_address :: "string option"
  dp_has_fdb :: bool
  dp_is_printer :: bool
  dp_interfaces :: "net_interface list"
  dp_macs :: "string list"

definition SYS_SERVICES_L2 :: int where "SYS_SERVICES_L2 = 2"
definition SYS_SERVICES_L3 :: int where "SYS_SERVICES_L3 = 4"
definition IF_TYPE_ETHERNET :: int where "IF_TYPE_ETHERNET = 6"
definition IF_TYPE_IEEE80211 :: int where "IF_TYPE_IEEE80211 = 71"
definition ETH_PORTS_ROUTER :: nat where "ETH_PORTS_ROUTER = 2"
definition ETH_PORTS_SWITCH :: nat where "ETH_PORTS_SWITCH = 4"

definition bit_set :: "int option \<Rightarrow> int \<Rightarrow> bool" where
  "bit_set value msk \<longleftrightarrow> and (case value of None \<Rightarrow> 0 | Some v \<Rightarrow> v) msk \<noteq> 0"

definition eth_ports :: "device_profile \<Rightarrow> nat" where
  "eth_ports p = length (filter (\<lambda>i. if_type i = Some IF_TYPE_ETHERNET) (dp_interfaces p))"

definition has_wireless :: "device_profile \<Rightarrow> bool" where
  "has_wireless p = list_ex (\<lambda>i. if_type i = Some IF_TYPE_IEEE80211) (dp_interfaces p)"

datatype dev_type = T_AGENT | T_ROUTER | T_PRINTER | T_SWITCH | T_AP | T_ENDPOINT | T_UNKNOWN

definition classify :: "device_profile \<Rightarrow> string list \<Rightarrow> dev_type" where
  \<comment> \<open>a MAC that does not normalise is \<open>None\<close> in the set, which no agent MAC equals\<close>
  "classify p agent_macs =
     (let macs = map normalize_mac (map Some (filter (\<lambda>m. m \<noteq> '''') (dp_macs p)))
      in if list_ex (\<lambda>m. m \<in> set (map Some agent_macs)) macs then T_AGENT
         else if \<not> dp_responded p then (if macs \<noteq> [] then T_ENDPOINT else T_UNKNOWN)
         else if dp_ip_forwarding p = Some True \<and> bit_set (dp_sys_services p) SYS_SERVICES_L3 \<and>
                 ETH_PORTS_ROUTER \<le> eth_ports p then T_ROUTER
         else if dp_is_printer p then T_PRINTER
         else if dp_has_fdb p \<or> (dp_bridge_address p \<noteq> None \<and> dp_bridge_address p \<noteq> Some '''') then
           (if has_wireless p then T_AP else T_SWITCH)
         else if bit_set (dp_sys_services p) SYS_SERVICES_L2 \<and> ETH_PORTS_SWITCH \<le> eth_ports p then T_SWITCH
         else if has_wireless p then T_AP
         else T_ENDPOINT)"

subsection \<open>Normalisation is canonical\<close>

definition mac_digits :: "string \<Rightarrow> string" where
  "mac_digits m = filter is_hex (upper m)"

lemma pairs_of_inv: "even (length s) \<Longrightarrow> concat (pairs_of s) = s"
  by (induction s rule: pairs_of.induct) auto

lemma filter_hex_pairs:
  "\<forall>c\<in>set s. is_hex c \<Longrightarrow> filter is_hex (join_with ''-'' (pairs_of s)) = s"
proof (induction s rule: pairs_of.induct)
  case (1 a b s)
  have d: "\<not> is_hex CHR ''-''" by (simp add: is_hex_def Let_def)
  show ?case using 1 d by (cases "pairs_of s") (auto simp: d)
qed auto

lemma upper_id: "\<forall>c\<in>set s. is_hex c \<or> c = CHR ''-'' \<Longrightarrow> upper s = s"
  unfolding upper_def by (induction s) (auto simp: is_hex_def Let_def)

lemma set_join_pairs: "set (join_with ''-'' (pairs_of s)) \<subseteq> insert CHR ''-'' (set s)"
proof (induction s rule: pairs_of.induct)
  case (1 a b s)
  then show ?case by (cases "pairs_of s") auto
qed auto

lemma normalize_mac_some:
  "normalize_mac (Some m) = Some n \<longleftrightarrow> length (mac_digits m) = 12 \<and> n = join_with ''-'' (pairs_of (mac_digits m))"
  by (auto simp: normalize_mac_def mac_digits_def upper_def Let_def)

lemma mac_digits_norm: "normalize_mac (Some m) = Some n \<Longrightarrow> mac_digits n = mac_digits m"
proof -
  assume n: "normalize_mac (Some m) = Some n"
  let ?d = "mac_digits m"
  have hex: "\<forall>c\<in>set ?d. is_hex c" by (simp add: mac_digits_def)
  have eq: "n = join_with ''-'' (pairs_of ?d)" using n by (simp add: normalize_mac_some)
  have "upper n = n" unfolding eq using set_join_pairs[of ?d] hex by (intro upper_id) auto
  then show ?thesis using filter_hex_pairs[OF hex] by (simp add: mac_digits_def[of n]) (simp add: eq)
qed

text \<open>A normalised MAC is a canonical form: it normalises to itself, and two spellings normalise to the
  same text exactly when they have the same twelve hexadecimal digits, whatever their case and separators.\<close>
theorem normalize_mac_canonical:
  "(normalize_mac (Some m) = Some n \<longrightarrow> normalize_mac (Some n) = Some n) \<and>
   (normalize_mac (Some m) = Some n \<longrightarrow>
     (normalize_mac (Some m') = Some n \<longleftrightarrow> mac_digits m' = mac_digits m))"
proof -
  have same: "normalize_mac (Some m') = Some n \<longleftrightarrow> mac_digits m' = mac_digits m"
    if n: "normalize_mac (Some m) = Some n" for m'
  proof
    assume "normalize_mac (Some m') = Some n"
    then show "mac_digits m' = mac_digits m" using mac_digits_norm n by metis
  next
    assume "mac_digits m' = mac_digits m"
    then show "normalize_mac (Some m') = Some n" using n by (simp add: normalize_mac_some)
  qed
  have "normalize_mac (Some n) = Some n" if n: "normalize_mac (Some m) = Some n"
    using same[OF n, of n] mac_digits_norm[OF n] by blast
  with same show ?thesis by blast
qed

theorem normalize_mac_canonical_witness:
  "normalize_mac (Some ''00:0c:29:aa:bb:cc'') = Some ''00-0C-29-AA-BB-CC'' \<and>
   normalize_mac (Some ''00-0C-29-AA-BB-CC'') = Some ''00-0C-29-AA-BB-CC''"
proof -
  have n: "normalize_mac (Some ''00:0c:29:aa:bb:cc'') = Some ''00-0C-29-AA-BB-CC''" by code_simp
  from normalize_mac_canonical[of "''00:0c:29:aa:bb:cc''" "''00-0C-29-AA-BB-CC''" "''x''"] n show ?thesis by blast
qed

subsection \<open>Identifiers never get weaker\<close>

lemma merge_fold_argmax: "foldl merge_identity nid ns = argmax strength_of nid ns"
  by (induction ns arbitrary: nid) (simp_all add: merge_identity_def)

lemma strength_prefix:
  "strength_of (''nd-chassis-'' @ t) = 4" "strength_of (''nd-sn-'' @ t) = 3" "strength_of (''nd-mac-'' @ t) = 2"
  "strength_of (''nd-ip-'' @ t) = 1" "strength_of ''nd-unknown'' = 0"
proof -
  have s: "split_on CHR ''-'' t \<noteq> []" by simp
  then obtain w ws where w: "split_on CHR ''-'' t = w # ws" by (cases "split_on CHR ''-'' t") auto
  show "strength_of (''nd-chassis-'' @ t) = 4" "strength_of (''nd-sn-'' @ t) = 3" "strength_of (''nd-mac-'' @ t) = 2"
    "strength_of (''nd-ip-'' @ t) = 1" "strength_of ''nd-unknown'' = 0"
    by (simp_all add: strength_of_def scheme_of_def STRENGTH_def w)
qed

text \<open>A renewed lease never changes who a device is: with a usable chassis id, serial or MAC the
  identifier does not depend on the address.  Over any sequence of observations the surviving identifier
  is the first one seen with the greatest strength, so a weak observation never demotes a known device.\<close>
theorem identity_survives_weaker_observations:
  assumes "norm_token chassis \<noteq> None \<or> norm_token serial \<noteq> None \<or> normalize_mac mac \<noteq> None"
  shows "device_nid ipa chassis serial mac ip = device_nid ipa chassis serial mac ip' \<and>
    2 \<le> strength_of (device_nid ipa chassis serial mac ip) \<and>
    (\<forall>n\<in>insert nid (set ns). strength_of n \<le> strength_of (foldl merge_identity nid ns)) \<and>
    foldl merge_identity nid ns \<in> insert nid (set ns) \<and>
    ((\<forall>n\<in>set ns. strength_of n \<le> strength_of nid) \<longrightarrow> foldl merge_identity nid ns = nid)"
proof -
  have same: "device_nid ipa chassis serial mac ip = device_nid ipa chassis serial mac ip'"
    using assms by (auto simp: device_nid_def split: option.split)
  have str: "2 \<le> strength_of (device_nid ipa chassis serial mac ip)"
    using assms strength_prefix by (auto simp: device_nid_def split: option.split)
  have keep: "(\<forall>n\<in>set ns. strength_of n \<le> strength_of nid) \<longrightarrow> foldl merge_identity nid ns = nid"
    by (induction ns) (auto simp: merge_identity_def)
  show ?thesis using same str keep argmax_ge[of _ nid ns strength_of] argmax_in[of strength_of nid ns]
    by (auto simp: merge_fold_argmax)
qed

theorem identity_survives_weaker_observations_witness:
  "device_nid (\<lambda>_. None) None (Some ''ab 12'') None (Some ''10.0.0.5'') =
     device_nid (\<lambda>_. None) None (Some ''ab 12'') None (Some ''10.0.0.9'')"
proof -
  have "norm_token (Some ''ab 12'') \<noteq> None" by code_simp
  then show ?thesis using identity_survives_weaker_observations[of None "Some ''ab 12''" None] by blast
qed

subsection \<open>Joins\<close>

lemma link_loop_get:
  "dict_get (link_loop ipa agents by_mac by_ip nds links) nid = Some l \<Longrightarrow>
   dict_get links nid = Some l \<or>
   (\<exists>nd\<in>set nds. nr_nid nd = Some nid \<and> nid \<noteq> ''nd-unknown'' \<and> l = link_row ipa agents by_mac by_ip nd \<and>
      (il_device l \<noteq> None \<or> il_printer l \<noteq> None))"
proof (induction nds arbitrary: links)
  case (Cons nd nds)
  from Cons.IH[OF Cons.prems[simplified]] show ?case
    by (auto simp: Let_def dict_simps split: option.splits if_splits)
qed simp

text \<open>A link is only ever written for a row whose own identifiers support it: an agent only through the
  row's MAC, and where the row has a MAC its address plays no part, so a shared lease cannot tie a device
  to another host's printer.  The unknown bucket is never linked.\<close>
theorem link_never_forged_by_ip:
  assumes "dict_get (link_identities ipa nds agents printers) nid = Some l"
  shows "nid \<noteq> ''nd-unknown'' \<and> (\<exists>nd\<in>set nds. nr_nid nd = Some nid \<and>
    (case normalize_mac (nr_mac nd) of
       Some m \<Rightarrow> il_device l = dict_get agents m \<and>
         il_printer l = dict_get (fst (index_printers ipa printers [] [])) m
     | None \<Rightarrow> il_device l = None \<and> il_printer l \<noteq> None \<and> canon_ip ipa (nr_ip nd) \<noteq> None))"
proof -
  obtain by_mac by_ip where idx: "index_printers ipa printers [] [] = (by_mac, by_ip)"
    by (cases "index_printers ipa printers [] []")
  with assms have "dict_get (link_loop ipa agents by_mac by_ip nds []) nid = Some l"
    by (simp add: link_identities_def)
  from link_loop_get[OF this] obtain nd where nd: "nd \<in> set nds" "nr_nid nd = Some nid" "nid \<noteq> ''nd-unknown''"
    "l = link_row ipa agents by_mac by_ip nd" "il_device l \<noteq> None \<or> il_printer l \<noteq> None" by auto
  then show ?thesis using idx
    by (auto simp: link_row_def intro!: bexI[of _ nd] split: option.splits if_splits)
qed

theorem link_never_forged_by_ip_witness:
  "\<exists>l. dict_get (link_identities (\<lambda>_. None)
      [\<lparr>nr_nid = Some ''nd-mac-1'', nr_mac = Some ''00:0c:29:aa:bb:cc'', nr_ip = Some ''10.0.0.5''\<rparr>]
      [(''00-0C-29-AA-BB-CC'', ''dev-1'')] []) ''nd-mac-1'' = Some l \<and> il_device l = Some ''dev-1''"
proof -
  let ?nd = "\<lparr>nr_nid = Some ''nd-mac-1'', nr_mac = Some ''00:0c:29:aa:bb:cc'', nr_ip = Some ''10.0.0.5''\<rparr>"
  let ?l = "link_identities (\<lambda>_. None) [?nd] [(''00-0C-29-AA-BB-CC'', ''dev-1'')] []"
  have m: "normalize_mac (Some ''00:0c:29:aa:bb:cc'') = Some ''00-0C-29-AA-BB-CC''" by code_simp
  then have "dict_get ?l ''nd-mac-1'' \<noteq> None"
    by (simp add: link_identities_def link_row_def Let_def)
  then obtain l where l: "dict_get ?l ''nd-mac-1'' = Some l" by blast
  from link_never_forged_by_ip[OF l] m l show ?thesis by auto
qed

subsection \<open>Types rest on determinative evidence\<close>

text \<open>A router needs forwarding, the layer-3 service bit and two Ethernet ports together; a switch needs
  bridge evidence or a many-port layer-2 host; a silent device is never more than an endpoint; and an
  agent's own adapter outranks everything else.\<close>
theorem classify_needs_evidence:
  "(classify p agents = T_AGENT \<longleftrightarrow> (\<exists>m\<in>set (dp_macs p). m \<noteq> '''' \<and> normalize_mac (Some m) \<in> Some ` set agents)) \<and>
   (classify p agents = T_ROUTER \<longrightarrow> dp_responded p \<and> dp_ip_forwarding p = Some True \<and>
      bit_set (dp_sys_services p) SYS_SERVICES_L3 \<and> 2 \<le> eth_ports p) \<and>
   (classify p agents = T_SWITCH \<longrightarrow> dp_responded p \<and> \<not> dp_is_printer p \<and>
      (dp_has_fdb p \<or> dp_bridge_address p \<noteq> None \<or> 4 \<le> eth_ports p)) \<and>
   (classify p agents = T_AP \<longrightarrow> has_wireless p) \<and>
   (\<not> dp_responded p \<longrightarrow> classify p agents \<in> {T_AGENT, T_ENDPOINT, T_UNKNOWN})"
proof -
  have a: "list_ex (\<lambda>m. m \<in> set (map Some agents)) (map normalize_mac (map Some (filter (\<lambda>m. m \<noteq> '''') (dp_macs p)))) \<longleftrightarrow>
    (\<exists>m\<in>set (dp_macs p). m \<noteq> '''' \<and> normalize_mac (Some m) \<in> Some ` set agents)"
    by (auto simp: list_ex_iff)
  show ?thesis unfolding classify_def Let_def a ETH_PORTS_ROUTER_def ETH_PORTS_SWITCH_def by auto
qed

theorem classify_needs_evidence_witness:
  "classify \<lparr>dp_responded = False, dp_sys_services = None, dp_ip_forwarding = Some True, dp_bridge_address = None,
     dp_has_fdb = True, dp_is_printer = True, dp_interfaces = [], dp_macs = []\<rparr> [] \<in> {T_AGENT, T_ENDPOINT, T_UNKNOWN}"
  using classify_needs_evidence by (metis device_profile.select_convs(1))

end
