(* ===== verification/NetEvidence.thy ===== *)
theory NetEvidence
  imports Snmp NetIdentity "HOL-Library.Multiset"
begin

text \<open>
  Link evidence (\<open>server/netdisco/evidence.py\<close>, \<open>wireless.py\<close>) and edge inference from the forwarding
  database (\<open>l2.py\<close>).  A session is what its walks return: for each table a reply of the SNMP client,
  identifiers with values of any type, sent by an untrusted device.
\<close>

type_synonym session = "string \<Rightarrow> nat \<Rightarrow> reply"
  \<comment> \<open>\<open>session.walk(base, max_rows=n)\<close>\<close>

definition DEFAULT_ROWS :: nat where "DEFAULT_ROWS = 512"

record link_evidence =
  le_a :: string
  le_b :: string
  le_source :: string
  le_confidence :: string
  le_local_if :: "int option"
  le_observed_at :: "string option"
  le_a_port :: "string option"
  le_b_port :: "string option"
  le_medium :: "string option"
  le_vlan :: "int option"
  le_port_space :: string

definition evidence :: "string \<Rightarrow> string \<Rightarrow> string \<Rightarrow> string \<Rightarrow> int option \<Rightarrow> link_evidence" where
  "evidence a b source confidence local_if = \<lparr>le_a = a, le_b = b, le_source = source,
     le_confidence = confidence, le_local_if = local_if, le_observed_at = None, le_a_port = None,
     le_b_port = None, le_medium = None, le_vlan = None, le_port_space = ''ifindex''\<rparr>"

definition SOURCE_LLDP :: string where "SOURCE_LLDP = ''lldp''"
definition SOURCE_CDP :: string where "SOURCE_CDP = ''cdp''"
definition SOURCE_FDB_EDGE :: string where "SOURCE_FDB_EDGE = ''fdb_edge''"
definition SOURCE_FDB_UPLINK :: string where "SOURCE_FDB_UPLINK = ''fdb_uplink''"
definition SOURCE_FDB_AMBIGUOUS :: string where "SOURCE_FDB_AMBIGUOUS = ''fdb_ambiguous''"
definition SOURCE_WIRELESS :: string where "SOURCE_WIRELESS = ''wireless''"
definition HIGH :: string where "HIGH = ''high''"
definition MEDIUM :: string where "MEDIUM = ''medium''"
definition LOW :: string where "LOW = ''low''"

lemmas source_tags = SOURCE_LLDP_def SOURCE_CDP_def SOURCE_FDB_EDGE_def SOURCE_FDB_UPLINK_def
  SOURCE_FDB_AMBIGUOUS_def SOURCE_WIRELESS_def HIGH_def MEDIUM_def LOW_def

subsection \<open>Table identifiers (\<open>oids.py\<close>)\<close>

definition LLDP_REM_CHASSIS_ID :: string where "LLDP_REM_CHASSIS_ID = ''1.0.8802.1.1.2.1.4.1.1.5''"
definition LLDP_REM_PORT_ID :: string where "LLDP_REM_PORT_ID = ''1.0.8802.1.1.2.1.4.1.1.7''"
definition LLDP_REM_MAN_ADDR :: string where "LLDP_REM_MAN_ADDR = ''1.0.8802.1.1.2.1.4.2.1.5''"
definition LLDP_LOC_PORT_DESC :: string where "LLDP_LOC_PORT_DESC = ''1.0.8802.1.1.2.1.3.7.1.4''"
definition LLDP_XMED_REM_DEVICE_CLASS :: string where
  "LLDP_XMED_REM_DEVICE_CLASS = ''1.0.8802.1.1.2.1.5.1.1.11''"
definition CDP_CACHE_DEVICE_ID :: string where "CDP_CACHE_DEVICE_ID = ''1.3.6.1.4.1.9.9.23.1.2.1.1.6''"
definition DOT1D_BASE_PORT_IF_INDEX :: string where "DOT1D_BASE_PORT_IF_INDEX = ''1.3.6.1.2.1.17.1.4.1.2''"
definition DOT1D_TP_FDB_PORT :: string where "DOT1D_TP_FDB_PORT = ''1.3.6.1.2.1.17.4.3.1.2''"
definition DOT1Q_TP_FDB_PORT :: string where "DOT1Q_TP_FDB_PORT = ''1.3.6.1.2.1.17.7.1.2.2.1.2''"

subsection \<open>Values a device sends\<close>

fun opt_int :: "snmp_val \<Rightarrow> int option" where
  "opt_int (VInt i) = Some i"
| "opt_int _ = None"

definition suffix_parts :: "string \<Rightarrow> string \<Rightarrow> string list option" where
  "suffix_parts oid base =
     (if starts_with oid (base @ ''.'') then Some (split_on CHR ''.'' (drop (length base + 1) oid)) else None)"

definition device_id_text :: "snmp_val \<Rightarrow> string option" where
  \<comment> \<open>stripped, non-empty, ASCII and printable\<close>
  "device_id_text v = (case v of
     VStr s \<Rightarrow> (let t = u_strip s
       in if t \<noteq> [] \<and> list_all (\<lambda>c. 32 \<le> c \<and> c < 127) t then Some (map char_of t) else None)
   | _ \<Rightarrow> None)"

definition hex2 :: "nat \<Rightarrow> string" where
  \<comment> \<open>\<open>f"{n:02x}"\<close> for an octet\<close>
  "hex2 n = (let d = (\<lambda>k. if k < 10 then digit_char k else char_of (87 + k)) in [d (n div 16), d (n mod 16)])"

definition raw_mac :: "snmp_val \<Rightarrow> string option" where
  \<comment> \<open>\<open>snmp_probe._mac\<close>\<close>
  "raw_mac v = (case v of
     VStr s \<Rightarrow> if s \<noteq> [] \<and> list_all (\<lambda>c. c < 256) s \<and> length s = 6
               then normalize_mac (Some (join_with '':'' (map hex2 s))) else None
   | _ \<Rightarrow> None)"

definition chassis_id :: "snmp_val \<Rightarrow> string option" where
  "chassis_id v = (case raw_mac v of Some m \<Rightarrow> Some m | None \<Rightarrow> device_id_text v)"

definition MAC_OCTETS :: nat where "MAC_OCTETS = 6"
definition OCTET_MAX :: nat where "OCTET_MAX = 255"
definition LLDP_IDX_MIN :: nat where "LLDP_IDX_MIN = 3"
definition CDP_IDX_MIN :: nat where "CDP_IDX_MIN = 2"

definition mac_from_oid_octets :: "string list \<Rightarrow> string option" where
  "mac_from_oid_octets parts =
     (if length parts \<noteq> MAC_OCTETS then None
      else if \<not> list_all (\<lambda>p. isdigit p \<and> dec_val p \<le> OCTET_MAX) parts then None
      else normalize_mac (Some (join_with '':'' (map (\<lambda>p. hex2 (dec_val p)) parts))))"

definition opt_num :: "string \<Rightarrow> int option" where
  \<comment> \<open>\<open>int(p) if p.isdigit() else None\<close>\<close>
  "opt_num p = (if isdigit p then Some (int (dec_val p)) else None)"

subsection \<open>Neighbour tables\<close>

definition lldp_rem_ports :: "reply \<Rightarrow> (string, string) dict" where
  "lldp_rem_ports rows = foldl (\<lambda>d (oid, v).
     case (suffix_parts oid LLDP_REM_PORT_ID, device_id_text v) of
       (Some suffix, Some label) \<Rightarrow> dict_set d (join_with ''.'' suffix) label
     | _ \<Rightarrow> d) [] rows"

definition lldp_row ::
  "string \<Rightarrow> (int, string) dict \<Rightarrow> (string, string) dict \<Rightarrow> string \<times> snmp_val \<Rightarrow> link_evidence option" where
  "lldp_row local loc_ports rem_ports r = (case r of (oid, v) \<Rightarrow>
     (case suffix_parts oid LLDP_REM_CHASSIS_ID of
        None \<Rightarrow> None
      | Some parts \<Rightarrow>
          if length parts < LLDP_IDX_MIN then None
          else (case chassis_id v of
                  None \<Rightarrow> None
                | Some remote \<Rightarrow>
                    let local_if = opt_num (parts ! 1)
                    in Some ((evidence local remote SOURCE_LLDP HIGH local_if)
                        \<lparr>le_a_port := (case local_if of None \<Rightarrow> None | Some i \<Rightarrow> dict_get loc_ports i),
                         le_b_port := dict_get rem_ports (join_with ''.'' parts),
                         le_port_space := ''lldp''\<rparr>))))"

definition collect_lldp :: "string \<Rightarrow> session \<Rightarrow> (int, string) dict \<Rightarrow> link_evidence list" where
  "collect_lldp local walk loc_ports =
     List.map_filter (lldp_row local loc_ports (lldp_rem_ports (walk LLDP_REM_PORT_ID DEFAULT_ROWS)))
       (walk LLDP_REM_CHASSIS_ID DEFAULT_ROWS)"

definition cdp_row :: "string \<Rightarrow> string \<times> snmp_val \<Rightarrow> link_evidence option" where
  "cdp_row local r = (case r of (oid, v) \<Rightarrow>
     (case suffix_parts oid CDP_CACHE_DEVICE_ID of
        None \<Rightarrow> None
      | Some parts \<Rightarrow>
          if length parts < CDP_IDX_MIN then None
          else map_option (\<lambda>remote. evidence local remote SOURCE_CDP HIGH (opt_num (parts ! 0)))
                 (device_id_text v)))"

definition collect_cdp :: "string \<Rightarrow> session \<Rightarrow> link_evidence list" where
  "collect_cdp local walk = List.map_filter (cdp_row local) (walk CDP_CACHE_DEVICE_ID DEFAULT_ROWS)"

definition lldp_loc_port_ifnames :: "session \<Rightarrow> (int, string) dict" where
  "lldp_loc_port_ifnames walk = foldl (\<lambda>d (oid, v).
     case suffix_parts oid LLDP_LOC_PORT_DESC of
       Some [p] \<Rightarrow> (case (opt_num p, device_id_text v) of (Some i, Some name) \<Rightarrow> dict_set d i name | _ \<Rightarrow> d)
     | _ \<Rightarrow> d) [] (walk LLDP_LOC_PORT_DESC DEFAULT_ROWS)"

definition LLDPMAN_PREFIX_FIELDS :: nat where "LLDPMAN_PREFIX_FIELDS = 5"
definition LLDPMAN_ADDR_SUBTYPE_IPV4 :: int where "LLDPMAN_ADDR_SUBTYPE_IPV4 = 1"

definition rfc1918 :: "nat list \<Rightarrow> bool" where
  \<comment> \<open>the address is one of the private blocks 10/8, 172.16/12, 192.168/16\<close>
  "rfc1918 a \<longleftrightarrow> (case a of
     [p, q, r, s] \<Rightarrow> p = 10 \<or> (p = 172 \<and> 16 \<le> q \<and> q \<le> 31) \<or> (p = 192 \<and> q = 168)
   | _ \<Rightarrow> False)"

definition mgmt_row :: "string \<Rightarrow> string option" where
  \<comment> \<open>the private IPv4 management address in one table index\<close>
  "mgmt_row oid =
     (case suffix_parts oid LLDP_REM_MAN_ADDR of
        None \<Rightarrow> None
      | Some parts \<Rightarrow>
          if length parts < LLDPMAN_PREFIX_FIELDS then None
          else if py_int (parts ! 3) \<noteq> Inr LLDPMAN_ADDR_SUBTYPE_IPV4 then None
          else let octets = drop 5 parts; ns = map dec_val octets
               in if length octets \<noteq> 4 \<or> \<not> list_all isdigit octets then None
                  else if \<not> list_all (\<lambda>n. n \<le> 255) ns then None
                  else if \<not> rfc1918 ns then None
                  else Some (dotted ns))"

definition collect_lldp_mgmt :: "string \<Rightarrow> session \<Rightarrow> (string \<times> string) list" where
  "collect_lldp_mgmt local walk =
     remdups_adj (sort (map (Pair local)
       (List.map_filter mgmt_row (dict_keys (walk LLDP_REM_MAN_ADDR DEFAULT_ROWS)))))"

definition LLDP_MED_SUBTYPE :: "(int, string) dict" where
  "LLDP_MED_SUBTYPE = [(6, ''ap''), (10, ''phone''), (5, ''server'')]"

definition collect_lldp_med :: "session \<Rightarrow> (int, string) dict" where
  "collect_lldp_med walk = foldl (\<lambda>d (oid, v).
     case suffix_parts oid LLDP_XMED_REM_DEVICE_CLASS of
       None \<Rightarrow> d
     | Some parts \<Rightarrow>
         if length parts < LLDP_IDX_MIN then d
         else (case opt_int v of
                 None \<Rightarrow> d
               | Some cls \<Rightarrow> (case dict_get LLDP_MED_SUBTYPE cls of
                   None \<Rightarrow> d
                 | Some label \<Rightarrow> (case opt_num (parts ! 1) of None \<Rightarrow> d | Some p \<Rightarrow> dict_set d p label))))
     [] (walk LLDP_XMED_REM_DEVICE_CLASS DEFAULT_ROWS)"

subsection \<open>The forwarding database\<close>

type_synonym port_macs = "(int, string list) dict"

definition read_port_ifindex :: "session \<Rightarrow> (int, int) dict" where
  "read_port_ifindex walk = foldl (\<lambda>d (oid, v).
     case suffix_parts oid DOT1D_BASE_PORT_IF_INDEX of
       Some [p] \<Rightarrow> (case (opt_num p, opt_int v) of (Some i, Some ix) \<Rightarrow> dict_set d i ix | _ \<Rightarrow> d)
     | _ \<Rightarrow> d) [] (walk DOT1D_BASE_PORT_IF_INDEX DEFAULT_ROWS)"

definition learn :: "int \<Rightarrow> string \<Rightarrow> port_macs \<Rightarrow> port_macs" where
  \<comment> \<open>\<open>port_macs[port].add(mac)\<close>\<close>
  "learn port mac d = (let ms = (case dict_get d port of None \<Rightarrow> [] | Some ms \<Rightarrow> ms)
     in dict_set d port (if mac \<in> set ms then ms else ms @ [mac]))"

definition fdb_entry :: "string list \<Rightarrow> snmp_val \<Rightarrow> (int \<times> string) option" where
  "fdb_entry parts v = (case (mac_from_oid_octets parts, opt_int v) of
     (Some mac, Some port) \<Rightarrow> if port < 1 then None else Some (port, mac) | _ \<Rightarrow> None)"

definition read_fdb :: "session \<Rightarrow> port_macs \<times> (int, int) dict" where
  "read_fdb walk = (foldl (\<lambda>d (oid, v).
     case suffix_parts oid DOT1D_TP_FDB_PORT of
       None \<Rightarrow> d
     | Some parts \<Rightarrow> (case fdb_entry parts v of None \<Rightarrow> d | Some (port, mac) \<Rightarrow> learn port mac d))
     [] (walk DOT1D_TP_FDB_PORT DEFAULT_ROWS), read_port_ifindex walk)"

definition read_fdb_dot1q :: "session \<Rightarrow> nat \<Rightarrow> port_macs \<times> (string, int) dict" where
  "read_fdb_dot1q walk max_rows = foldl (\<lambda>(d, vlans) (oid, v).
     case suffix_parts oid DOT1Q_TP_FDB_PORT of
       None \<Rightarrow> (d, vlans)
     | Some parts \<Rightarrow>
         if length parts < 1 + MAC_OCTETS \<or> \<not> isdigit (parts ! 0) then (d, vlans)
         else (case fdb_entry (take MAC_OCTETS (drop 1 parts)) v of
                 None \<Rightarrow> (d, vlans)
               | Some (port, mac) \<Rightarrow> (learn port mac d, dict_set vlans mac (int (dec_val (parts ! 0))))))
     ([], []) (walk DOT1Q_TP_FDB_PORT max_rows)"

subsection \<open>Edge inference (\<open>l2.py\<close>)\<close>

definition UPLINK_MAC_THRESHOLD :: nat where "UPLINK_MAC_THRESHOLD = 4"

definition hex_digit :: "char \<Rightarrow> nat option" where
  "hex_digit c = (let n = (of_char c :: nat) in
     if 48 \<le> n \<and> n \<le> 57 then Some (n - 48) else if 65 \<le> n \<and> n \<le> 70 then Some (n - 55)
     else if 97 \<le> n \<and> n \<le> 102 then Some (n - 87) else None)"

definition is_multicast :: "string \<Rightarrow> bool" where
  \<comment> \<open>\<open>int(mac[:2], 16) & 1\<close>, a text that is no number counting as false; one digit after a blank
      or a sign is a number too\<close>
  "is_multicast mac = (case strip (take 2 mac) of
     [a, b] \<Rightarrow> (case hex_digit b of
         Some y \<Rightarrow> (hex_digit a \<noteq> None \<or> a = CHR ''+'' \<or> a = CHR ''-'') \<and> odd y | None \<Rightarrow> False)
   | [a] \<Rightarrow> (case hex_digit a of Some x \<Rightarrow> odd x | None \<Rightarrow> False)
   | _ \<Rightarrow> False)"

definition port_edges ::
  "string \<Rightarrow> (int, int) dict \<Rightarrow> string set \<Rightarrow> string set \<Rightarrow> int set \<Rightarrow> int \<times> string list \<Rightarrow> (int \<times> link_evidence) list" where
  "port_edges local port_ifindex infra_macs own_macs radio pm = (case pm of (port, raw) \<Rightarrow>
     let macs = filter (\<lambda>m. \<not> is_multicast m \<and> m \<notin> own_macs) (remdups raw);
         ifx = dict_get port_ifindex port;
         medium = (case ifx of Some i \<Rightarrow> if i \<in> radio then Some ''wireless'' else None | None \<Rightarrow> None);
         infra_hits = filter (\<lambda>m. m \<in> infra_macs) macs;
         claim = (\<lambda>source conf mac. (port, (evidence local mac source conf ifx)\<lparr>le_medium := medium\<rparr>))
     in if macs = [] then []
        else if infra_hits \<noteq> [] \<or> UPLINK_MAC_THRESHOLD < length macs
        then map (claim SOURCE_FDB_UPLINK LOW) infra_hits
        else if length macs = 1 then map (claim SOURCE_FDB_EDGE HIGH) macs
        else map (claim SOURCE_FDB_AMBIGUOUS LOW) macs)"

definition edge_key :: "int \<times> link_evidence \<Rightarrow> string \<times> string \<times> int \<times> int" where
  "edge_key pe = (le_b (snd pe), le_source (snd pe),
     (case le_local_if (snd pe) of None \<Rightarrow> - 1 | Some i \<Rightarrow> if i = 0 then - 1 else i), fst pe)"

definition infer_edges ::
  "string \<Rightarrow> port_macs \<Rightarrow> (int, int) dict \<Rightarrow> string set \<Rightarrow> string set \<Rightarrow> int set \<Rightarrow> link_evidence list" where
  "infer_edges local port_macs port_ifindex infra_macs own_macs radio =
     map snd (sort_key edge_key
       (concat (map (port_edges local port_ifindex infra_macs own_macs radio) port_macs)))"

definition own_macs_of :: "string option list \<Rightarrow> string set" where
  \<comment> \<open>the device's MAC and its interfaces'\<close>
  "own_macs_of raws = set (List.map_filter normalize_mac raws)"

definition tag_vlan :: "(string, int) dict \<Rightarrow> link_evidence \<Rightarrow> link_evidence" where
  "tag_vlan vlans e = (case dict_get vlans (le_b e) of None \<Rightarrow> e | Some v \<Rightarrow> e\<lparr>le_vlan := Some v\<rparr>)"

definition collect_evidence ::
  "string \<Rightarrow> string option list \<Rightarrow> session \<Rightarrow> string set \<Rightarrow> int set \<Rightarrow> link_evidence list" where
  "collect_evidence local raw_macs walk infra_macs radio =
     (let (pq, vlans0) = read_fdb_dot1q walk DEFAULT_ROWS;
          (port_macs, port_if, vlans) = (if pq \<noteq> [] then (pq, read_port_ifindex walk, vlans0)
             else (fst (read_fdb walk), snd (read_fdb walk), []));
          edges = infer_edges local port_macs port_if infra_macs (own_macs_of raw_macs) radio
      in collect_lldp local walk (lldp_loc_port_ifnames walk) @ collect_cdp local walk @
         (if vlans \<noteq> [] then map (tag_vlan vlans) edges else edges))"

subsection \<open>Wireless associations (\<open>wireless.py\<close>)\<close>

definition ASSOC_PROBE_ROWS :: nat where "ASSOC_PROBE_ROWS = 2048"

definition WLC_TABLES :: "(string \<times> string \<times> string) list" where
  "WLC_TABLES =
     [(''1.3.6.1.4.1.14179'', ''1.3.6.1.4.1.14179.2.1.4.1.1.1'', ''1.3.6.1.4.1.14179.2.1.4.1.1.26''),
      (''1.3.6.1.4.1.14823'', ''1.3.6.1.4.1.14823.2.2.1.5.1.1.1'', ''1.3.6.1.4.1.14823.2.2.1.5.1.1.3''),
      (''1.3.6.1.4.1.14988'', ''1.3.6.1.4.1.14988.1.1.1.5.1.1'', ''1.3.6.1.4.1.14988.1.1.1.5.1.3'')]"

definition u_upper_ascii :: "nat \<Rightarrow> string" where
  \<comment> \<open>the ASCII letters and digits of a character's upper case, ligatures included; other characters
      contribute nothing a MAC could use\<close>
  "u_upper_ascii c =
     (if c < 128 then upper [char_of c]
      else if c = 0xFB00 then ''FF'' else if c = 0xFB01 then ''FI'' else if c = 0xFB02 then ''FL''
      else if c = 0xFB03 then ''FFI'' else if c = 0xFB04 then ''FFL'' else if c = 0x1E9A then ''A'' else [])"

definition mac_value :: "snmp_val \<Rightarrow> string option" where
  "mac_value v = (case raw_mac v of
     Some m \<Rightarrow> Some m
   | None \<Rightarrow> (case v of VStr s \<Rightarrow> normalize_mac (Some (concat (map u_upper_ascii s))) | _ \<Rightarrow> None))"

definition index_macs :: "session \<Rightarrow> string \<Rightarrow> (string, string) dict" where
  "index_macs walk column = foldl (\<lambda>d (oid, v).
     if \<not> starts_with oid (column @ ''.'') then d
     else (case mac_value v of None \<Rightarrow> d | Some mac \<Rightarrow> dict_set d (drop (length column + 1) oid) mac))
     [] (walk column ASSOC_PROBE_ROWS)"

fun assoc_loop :: "(string, string) dict \<Rightarrow> (string, string) dict \<Rightarrow> string list \<Rightarrow> (string \<times> string) list
    \<Rightarrow> link_evidence list" where
  "assoc_loop clients aps [] seen = []"
| "assoc_loop clients aps (idx # idxs) seen =
     (let c = the (dict_get clients idx); a = the (dict_get aps idx)
      in if c = a then assoc_loop clients aps idxs seen
         else if (c, a) \<in> set seen then assoc_loop clients aps idxs seen
         else (evidence c a SOURCE_WIRELESS HIGH None)\<lparr>le_medium := Some ''wireless''\<rparr>
                # assoc_loop clients aps idxs ((c, a) # seen))"

definition walk_assoc :: "session \<Rightarrow> string \<Rightarrow> string \<Rightarrow> link_evidence list" where
  "walk_assoc walk client_oid ap_oid =
     (let clients = index_macs walk client_oid; aps = index_macs walk ap_oid
      in assoc_loop clients aps (sort (filter (\<lambda>i. i \<in> set (dict_keys aps)) (dict_keys clients))) [])"

definition collect_wireless :: "session \<Rightarrow> string option \<Rightarrow> link_evidence list" where
  \<comment> \<open>\<^const>\<open>None\<close> is a \<open>sysObjectID\<close> that is not text\<close>
  "collect_wireless walk sys_object_id =
     (case sys_object_id of
        None \<Rightarrow> []
      | Some sid \<Rightarrow>
          if sid = '''' then []
          else (case find (\<lambda>(root, _, _). sid = root \<or> starts_with sid (root @ ''.'')) WLC_TABLES of
                  None \<Rightarrow> [] | Some (_, c, a) \<Rightarrow> walk_assoc walk c a))"

subsection \<open>Properties\<close>

definition eligible :: "string set \<Rightarrow> string list \<Rightarrow> string set" where
  \<comment> \<open>the MACs of a port that can be a neighbour: neither group addresses nor the switch's own\<close>
  "eligible own_macs raw = {m \<in> set raw. \<not> is_multicast m \<and> m \<notin> own_macs}"

lemma port_edges_set:
  "(q, ev) \<in> set (port_edges local ifs infra own radio (port, raw)) \<longleftrightarrow> q = port \<and>
     (\<exists>m\<in>eligible own raw.
        let ifx = dict_get ifs port;
            medium = (case ifx of Some i \<Rightarrow> if i \<in> radio then Some ''wireless'' else None | None \<Rightarrow> None);
            claim = (\<lambda>source conf. (evidence local m source conf ifx)\<lparr>le_medium := medium\<rparr>)
        in if eligible own raw \<inter> infra \<noteq> {} \<or> UPLINK_MAC_THRESHOLD < card (eligible own raw)
           then m \<in> infra \<and> ev = claim SOURCE_FDB_UPLINK LOW
           else if card (eligible own raw) = 1 then ev = claim SOURCE_FDB_EDGE HIGH
           else ev = claim SOURCE_FDB_AMBIGUOUS LOW)"
proof -
  define ms where "ms = filter (\<lambda>m. \<not> is_multicast m \<and> m \<notin> own) (remdups raw)"
  define E where "E = eligible own raw"
  have s: "set ms = E" by (auto simp: eligible_def E_def ms_def)
  have "distinct ms" by (simp add: ms_def)
  then have c: "length ms = card E" using s distinct_card by metis
  have h: "filter (\<lambda>m. m \<in> infra) ms = [] \<longleftrightarrow> E \<inter> infra = {}"
    unfolding s[symmetric] by (auto simp: filter_empty_conv)
  have e: "ms = [] \<longleftrightarrow> E = {}" by (metis s set_empty)
  consider "E = {}" | "E \<noteq> {}" "E \<inter> infra \<noteq> {} \<or> UPLINK_MAC_THRESHOLD < card E"
    | "E \<noteq> {}" "\<not> (E \<inter> infra \<noteq> {} \<or> UPLINK_MAC_THRESHOLD < card E)" "card E = 1"
    | "E \<noteq> {}" "\<not> (E \<inter> infra \<noteq> {} \<or> UPLINK_MAC_THRESHOLD < card E)" "card E \<noteq> 1" by blast
  then show ?thesis
    unfolding port_edges_def Let_def prod.case ms_def[symmetric] E_def[symmetric]
    by cases (simp_all add: c h e s image_iff, blast+)
qed

lemma port_edges_port: "x \<in> set (port_edges local ifs infra own radio (port, raw)) \<Longrightarrow> fst x = port"
  using port_edges_set[of "fst x" "snd x"] by simp

lemma distinct_port_edges: "distinct (port_edges local ifs infra own radio (port, raw))"
proof -
  have inj: "inj_on (\<lambda>mac. (port, (evidence local mac source conf ifx)\<lparr>le_medium := medium\<rparr>)) A"
    for source conf ifx medium A by (auto simp: inj_on_def evidence_def)
  show ?thesis by (simp add: port_edges_def Let_def distinct_map inj)
qed

lemma port_edges_determined:
  "(q, ev) \<in> set (port_edges local ifs infra own radio (q, raw)) \<Longrightarrow>
   ev = (evidence local (le_b ev) (le_source ev) (if le_source ev = SOURCE_FDB_EDGE then HIGH else LOW) (dict_get ifs q))
     \<lparr>le_medium := (case dict_get ifs q of Some i \<Rightarrow> if i \<in> radio then Some ''wireless'' else None | None \<Rightarrow> None)\<rparr>"
  unfolding port_edges_set Let_def by (elim conjE bexE) (simp add: evidence_def source_tags split: if_splits)

definition all_edges where
  "all_edges local ifs infra own radio pm = concat (map (port_edges local ifs infra own radio) pm)"

lemma distinct_all_edges: "wf_dict pm \<Longrightarrow> distinct (all_edges local ifs infra own radio pm)"
proof (induction pm)
  case (Cons pr pm)
  obtain port raw where pr: "pr = (port, raw)" by (cases pr)
  have "x \<notin> set (all_edges local ifs infra own radio pm)" if x: "x \<in> set (port_edges local ifs infra own radio pr)" for x
  proof
    assume "x \<in> set (all_edges local ifs infra own radio pm)"
    then obtain q raw' where q: "(q, raw') \<in> set pm" "x \<in> set (port_edges local ifs infra own radio (q, raw'))"
      by (auto simp: all_edges_def)
    then have "fst x = q" "fst x = port" using x pr port_edges_port by blast+
    with q(1) Cons.prems pr show False by (force simp: wf_dict_def)
  qed
  moreover have "distinct (all_edges local ifs infra own radio pm)" using Cons by (simp add: wf_dict_def)
  ultimately show ?case using pr distinct_port_edges by (auto simp: all_edges_def)
qed (simp add: all_edges_def)

lemma all_edges_set:
  "wf_dict pm \<Longrightarrow> (q, ev) \<in> set (all_edges local ifs infra own radio pm) \<longleftrightarrow>
     (\<exists>raw. dict_get pm q = Some raw \<and> (q, ev) \<in> set (port_edges local ifs infra own radio (q, raw)))"
  using port_edges_port[of "(q, ev)"]
  by (fastforce simp: all_edges_def wf_dict_def map_of_eq_Some_iff)

lemma edge_key_inj: "inj_on edge_key (set (all_edges local ifs infra own radio pm))"
proof (rule inj_onI)
  fix x y
  assume x: "x \<in> set (all_edges local ifs infra own radio pm)" and y: "y \<in> set (all_edges local ifs infra own radio pm)"
    and k: "edge_key x = edge_key y"
  obtain q e where x': "x = (q, e)" by (cases x)
  obtain q' e' where y': "y = (q', e')" by (cases y)
  from k x' y' have kk: "q' = q" "le_b e' = le_b e" "le_source e' = le_source e" by (auto simp: edge_key_def)
  from x x' obtain raw where e: "(q, e) \<in> set (port_edges local ifs infra own radio (q, raw))"
    using port_edges_port by (fastforce simp: all_edges_def)
  from y y' kk obtain raw' where e': "(q, e') \<in> set (port_edges local ifs infra own radio (q, raw'))"
    using port_edges_port by (fastforce simp: all_edges_def)
  from port_edges_determined[OF e] port_edges_determined[OF e'] kk(2,3) have "e = e'" by metis
  with x' y' kk show "x = y" by simp
qed

text \<open>Edge inference is deterministic: the order in which ports and MACs were learned never changes the
  evidence or its order.\<close>
theorem infer_edges_order_independent:
  assumes "wf_dict pm" "wf_dict pm'"
    and "\<And>port. map_option set (dict_get pm port) = map_option set (dict_get pm' port)"
  shows "infer_edges local pm ifs infra own radio = infer_edges local pm' ifs infra own radio"
proof -
  let ?e = "all_edges local ifs infra own radio"
  have el: "set raw = set raw' \<Longrightarrow> eligible own raw = eligible own raw'" for raw raw' by (simp add: eligible_def)
  have sub: "set (?e p) \<subseteq> set (?e p')" if a1: "wf_dict p" and a2: "wf_dict p'"
    and a3: "\<And>port. map_option set (dict_get p port) = map_option set (dict_get p' port)" for p p' :: port_macs
  proof clarify
    fix q ev assume "(q, ev) \<in> set (?e p)"
    then obtain raw where r: "dict_get p q = Some raw" "(q, ev) \<in> set (port_edges local ifs infra own radio (q, raw))"
      using all_edges_set[OF a1] by blast
    from a3[of q] r(1) obtain raw' where r': "dict_get p' q = Some raw'" "set raw = set raw'"
      by (cases "dict_get p' q") auto
    from r(2) have "(q, ev) \<in> set (port_edges local ifs infra own radio (q, raw'))"
      unfolding port_edges_set el[OF r'(2)] .
    with r'(1) show "(q, ev) \<in> set (?e p')" using all_edges_set[OF a2] by blast
  qed
  have "set (?e pm) = set (?e pm')" using sub[OF assms] sub[OF assms(2,1) assms(3)[symmetric]] by blast
  then have m: "mset (?e pm) = mset (?e pm')"
    using distinct_all_edges assms(1,2) set_eq_iff_mset_eq_distinct by blast
  have "sort_key edge_key (?e pm) = sort_key edge_key (?e pm')"
    by (rule sort_key_inj_key_eq) (simp_all add: m edge_key_inj)
  then show ?thesis by (simp add: infer_edges_def all_edges_def)
qed

theorem infer_edges_order_independent_witness:
  "infer_edges ''sw'' [(1, [''AA'', ''AC'']), (2, [''AE''])] [] {} {} {} =
   infer_edges ''sw'' [(2, [''AE'']), (1, [''AC'', ''AA''])] [] {} {} {}"
  by (rule infer_edges_order_independent) (auto simp: wf_dict_def)

text \<open>No edge is fabricated.  Every claim names a MAC learned on the port that is neither a group address
  nor the switch's own; a direct link of high confidence is claimed only when that MAC is alone on its
  port and is not infrastructure; and a port with more than four hosts, none of them infrastructure,
  yields no claim at all.\<close>
theorem infer_edges_claims_supported:
  assumes "ev \<in> set (infer_edges local pm ifs infra own radio)"
  shows "\<exists>port raw. (port, raw) \<in> set pm \<and> le_a ev = local \<and> le_b ev \<in> eligible own raw \<and>
    le_local_if ev = dict_get ifs port \<and>
    (le_confidence ev = HIGH \<longleftrightarrow> le_source ev = SOURCE_FDB_EDGE) \<and>
    (le_confidence ev = HIGH \<longrightarrow> eligible own raw = {le_b ev} \<and> le_b ev \<notin> infra) \<and>
    (UPLINK_MAC_THRESHOLD < card (eligible own raw) \<longrightarrow> le_b ev \<in> infra \<and> le_source ev = SOURCE_FDB_UPLINK)"
proof -
  from assms obtain port raw where p: "(port, raw) \<in> set pm"
    "(port, ev) \<in> set (port_edges local ifs infra own radio (port, raw))"
    using port_edges_port by (fastforce simp: infer_edges_def)
  from p(2) have "le_a ev = local \<and> le_b ev \<in> eligible own raw \<and> le_local_if ev = dict_get ifs port \<and>
    (le_confidence ev = HIGH \<longleftrightarrow> le_source ev = SOURCE_FDB_EDGE) \<and>
    (le_confidence ev = HIGH \<longrightarrow> card (eligible own raw) = 1 \<and> eligible own raw \<inter> infra = {}) \<and>
    (UPLINK_MAC_THRESHOLD < card (eligible own raw) \<longrightarrow> le_b ev \<in> infra \<and> le_source ev = SOURCE_FDB_UPLINK)"
    by (auto simp: port_edges_set Let_def evidence_def source_tags split: if_splits)
  moreover from this have "eligible own raw = {le_b ev}" if "le_confidence ev = HIGH"
    using that card_1_singletonE by (metis singletonD)
  ultimately show ?thesis using p(1) by blast
qed

theorem infer_edges_claims_supported_witness:
  "\<exists>port raw. (port, raw) \<in> set [(1::int, [''AE''])] \<and> ''AE'' \<in> eligible {} raw"
proof -
  let ?ev = "(evidence ''sw'' ''AE'' SOURCE_FDB_EDGE HIGH None)"
  have "\<not> is_multicast ''AE''" by code_simp
  then have "infer_edges ''sw'' [(1, [''AE''])] [] {} {} {} = [?ev]"
    by (simp add: infer_edges_def port_edges_def evidence_def Let_def UPLINK_MAC_THRESHOLD_def)
  then have "?ev \<in> set (infer_edges ''sw'' [(1, [''AE''])] [] {} {} {})" by simp
  from infer_edges_claims_supported[OF this] show ?thesis by (auto simp: evidence_def)
qed

lemma distinct_remdups_adj_sorted:
  fixes xs :: "'a::linorder list"
  shows "sorted xs \<Longrightarrow> distinct (remdups_adj xs)"
proof (induction xs rule: remdups_adj.induct)
  case (3 x y xs)
  then show ?case by (cases "x = y") (simp, force intro: order.antisym)
qed simp_all

text \<open>Whatever a neighbour advertises, discovery is only ever seeded with private IPv4 addresses, each once
  per device.\<close>
theorem lldp_seeds_are_private:
  "distinct (collect_lldp_mgmt local walk) \<and>
   (\<forall>(l, ip)\<in>set (collect_lldp_mgmt local walk). l = local \<and> (\<exists>ns. ip = dotted ns \<and> length ns = 4 \<and> rfc1918 ns))"
proof
  show "distinct (collect_lldp_mgmt local walk)" by (simp add: collect_lldp_mgmt_def distinct_remdups_adj_sorted)
  have "\<exists>ns. ip = dotted ns \<and> length ns = 4 \<and> rfc1918 ns" if "mgmt_row oid = Some ip" for oid ip
    using that by (auto simp: mgmt_row_def Let_def split: option.splits if_splits)
  then show "\<forall>(l, ip)\<in>set (collect_lldp_mgmt local walk). l = local \<and> (\<exists>ns. ip = dotted ns \<and> length ns = 4 \<and> rfc1918 ns)"
    by (auto simp: collect_lldp_mgmt_def List.map_filter_def)
qed

end
