(* ===== verification/NetFusion.thy ===== *)
theory NetFusion
  imports NetEvidence
begin

text \<open>
  Data fusion (\<open>server/netdisco/fusion.py\<close>): competing evidence becomes one link per pair of nodes.
\<close>

subsection \<open>Nodes and authority\<close>

definition SOURCE_PRIORITY :: "(string, nat) dict" where
  "SOURCE_PRIORITY = [(SOURCE_LLDP, 5), (SOURCE_WIRELESS, 5), (SOURCE_CDP, 4), (SOURCE_FDB_EDGE, 3),
     (''route'', 3), (''arp'', 2), (SOURCE_FDB_UPLINK, 2), (SOURCE_FDB_AMBIGUOUS, 1)]"

definition TRUNK_KIND :: string where "TRUNK_KIND = ''l2-trunk''"
definition EDGE_KIND :: string where "EDGE_KIND = ''l2-edge''"

record resolved_link =
  rl_a :: string
  rl_b :: string
  rl_via_source :: string
  rl_confidence :: string
  rl_link_kind :: string
  rl_ambiguous :: bool
  rl_observed_at :: "string option"
  rl_medium :: "string option"
  rl_vlan :: "int option"
  rl_a_port :: "string option"
  rl_b_port :: "string option"
  rl_a_if :: "int option"
  rl_b_if :: "int option"

definition node_id :: "string \<Rightarrow> string" where
  "node_id hint =
     (if starts_with hint ''nd-'' then hint
      else (case normalize_mac (Some hint) of
              Some mac \<Rightarrow> ''nd-mac-'' @ mac
            | None \<Rightarrow> device_nid (\<lambda>_. None) (Some hint) None None None))"

definition priority :: "string \<Rightarrow> nat" where
  "priority source = (case dict_get SOURCE_PRIORITY source of None \<Rightarrow> 0 | Some n \<Rightarrow> n)"

definition link_kind :: "string \<Rightarrow> string" where
  "link_kind source = (if source = SOURCE_FDB_UPLINK then TRUNK_KIND else EDGE_KIND)"

subsection \<open>Contradictory ports\<close>

type_synonym port_key = "string \<times> string \<times> int"

definition port_of :: "link_evidence \<Rightarrow> port_key option" where
  "port_of ev = map_option (\<lambda>i. (node_id (le_a ev), le_port_space ev, i)) (le_local_if ev)"

definition grouped_port :: "link_evidence \<Rightarrow> port_key option" where
  "grouped_port ev = (if node_id (le_a ev) \<noteq> node_id (le_b ev) then port_of ev else None)"

definition names_two :: "link_evidence list \<Rightarrow> bool" where
  "names_two evs = (let top = foldl max 0 (map (\<lambda>e. priority (le_source e)) evs)
     in 1 < length (remdups (map (\<lambda>e. node_id (le_b e)) (filter (\<lambda>e. priority (le_source e) = top) evs))))"

definition conflicted_ports :: "link_evidence list \<Rightarrow> port_key list" where
  "conflicted_ports es = map fst (filter (\<lambda>(_, evs). names_two evs) (group_by grouped_port es))"

subsection \<open>Resolution\<close>

definition pair_of :: "link_evidence \<Rightarrow> (string \<times> string) option" where
  \<comment> \<open>the unordered pair of ends, in canonical order; none for a self link\<close>
  "pair_of ev = (let a = node_id (le_a ev); b = node_id (le_b ev)
     in if a = b then None else Some (if a \<le> b then (a, b) else (b, a)))"

definition rank :: "link_evidence \<Rightarrow> nat \<times> string \<times> string" where
  "rank e = (priority (le_source e), (case le_observed_at e of None \<Rightarrow> [] | Some t \<Rightarrow> t), le_source e)"

definition is_ambiguous :: "port_key list \<Rightarrow> link_evidence list \<Rightarrow> bool" where
  "is_ambiguous conflicted evs = list_ex (\<lambda>e. case port_of e of None \<Rightarrow> False | Some k \<Rightarrow> k \<in> set conflicted) evs"

definition truthy_times :: "link_evidence list \<Rightarrow> string list" where
  "truthy_times evs = List.map_filter
     (\<lambda>e. case le_observed_at e of None \<Rightarrow> None | Some t \<Rightarrow> if t = '''' then None else Some t) evs"

definition resolve_pair ::
  "port_key list \<Rightarrow> (string \<times> string) \<times> link_evidence list \<Rightarrow> resolved_link" where
  "resolve_pair conflicted g = (case g of ((a, b), evs) \<Rightarrow>
     let winner = argmax rank (hd evs) (tl evs);
         ambiguous = is_ambiguous conflicted evs;
         local_if = (if le_port_space winner = ''ifindex'' then le_local_if winner else None);
         forward = (node_id (le_a winner) = a)
     in \<lparr>rl_a = a, rl_b = b, rl_via_source = le_source winner,
         rl_confidence = (if ambiguous then LOW else le_confidence winner),
         rl_link_kind = link_kind (le_source winner), rl_ambiguous = ambiguous,
         rl_observed_at = max_of (truthy_times evs), rl_medium = le_medium winner,
         rl_vlan = (case List.map_filter le_vlan evs of [] \<Rightarrow> None | v # _ \<Rightarrow> Some v),
         rl_a_port = (if forward then le_a_port winner else le_b_port winner),
         rl_b_port = (if forward then le_b_port winner else le_a_port winner),
         rl_a_if = (if forward then local_if else None),
         rl_b_if = (if forward then None else local_if)\<rparr>)"

definition link_key :: "resolved_link \<Rightarrow> string \<times> string \<times> string" where
  "link_key l = (rl_a l, rl_b l, rl_via_source l)"

definition fuse :: "link_evidence list \<Rightarrow> resolved_link list" where
  "fuse es = sort_key link_key (map (resolve_pair (conflicted_ports es)) (group_by pair_of es))"

subsection \<open>Properties\<close>

abbreviation ends :: "resolved_link \<Rightarrow> string \<times> string" where
  "ends l \<equiv> (rl_a l, rl_b l)"

abbreviation claims :: "link_evidence list \<Rightarrow> string \<times> string \<Rightarrow> link_evidence list" where
  \<comment> \<open>the evidence about one pair of nodes\<close>
  "claims es p \<equiv> filter (\<lambda>e. pair_of e = Some p) es"

lemma ends_resolve [simp]: "ends (resolve_pair c g) = fst g"
  by (cases g) (auto simp: resolve_pair_def Let_def split: prod.split)

lemma resolve_fields:
  "resolve_pair c (p, evs) = l \<Longrightarrow> w = argmax rank (hd evs) (tl evs) \<Longrightarrow>
     rl_via_source l = le_source w \<and> rl_medium l = le_medium w \<and> rl_ambiguous l = is_ambiguous c evs \<and>
     rl_confidence l = (if rl_ambiguous l then LOW else le_confidence w) \<and>
     rl_link_kind l = link_kind (le_source w) \<and> rl_observed_at l = max_of (truthy_times evs) \<and>
     rl_a_port l = (if node_id (le_a w) = fst p then le_a_port w else le_b_port w) \<and>
     rl_b_port l = (if node_id (le_a w) = fst p then le_b_port w else le_a_port w)"
  by (cases p) (auto simp: resolve_pair_def Let_def)

lemma resolve_winner:
  assumes "evs \<noteq> []"
  obtains w where "w \<in> set evs" "\<forall>e\<in>set evs. rank e \<le> rank w"
    "w = argmax rank (hd evs) (tl evs)"
proof (rule that)
  show "argmax rank (hd evs) (tl evs) \<in> set evs"
    using argmax_in[of rank "hd evs" "tl evs"] assms by (cases evs) auto
  show "\<forall>e\<in>set evs. rank e \<le> rank (argmax rank (hd evs) (tl evs))"
    using argmax_ge[of _ "hd evs" "tl evs" rank] assms by (cases evs) auto
qed simp

lemma fuse_iff:
  "l \<in> set (fuse es) \<longleftrightarrow> (\<exists>p. claims es p \<noteq> [] \<and> l = resolve_pair (conflicted_ports es) (p, claims es p))"
proof -
  have "set (group_by pair_of es) = (\<lambda>p. (p, claims es p)) ` {p. claims es p \<noteq> []}"
    by (auto simp: group_by_iff)
  then have "set (fuse es) = (\<lambda>p. resolve_pair (conflicted_ports es) (p, claims es p)) ` {p. claims es p \<noteq> []}"
    by (simp add: fuse_def image_image)
  then show ?thesis by (simp only: image_iff mem_Collect_eq bex_simps Bex_def conj_assoc)
qed

lemma fuse_strictly_sorted: "sorted_wrt (\<lambda>l l'. ends l < ends l') (fuse es)"
proof -
  let ?r = "resolve_pair (conflicted_ports es)"
  have "mset (map ends (fuse es)) = mset (map fst (group_by pair_of es))"
    by (simp add: fuse_def multiset.map_comp comp_def)
  moreover have "distinct (map fst (group_by pair_of es))" using wf_dict_group_by by (simp add: wf_dict_def)
  ultimately have d: "distinct (map ends (fuse es))" using mset_eq_imp_distinct_iff by blast
  have "sorted (map link_key (fuse es))" by (simp add: fuse_def)
  then have "sorted (map ends (fuse es))"
    unfolding sorted_map by (rule sorted_wrt_mono_rel[rotated]) (auto simp: link_key_def)
  with d have "sorted_wrt (<) (map ends (fuse es))" using strict_sorted_iff by blast
  then show ?thesis by (simp add: sorted_wrt_map)
qed

lemma ends_fuse: "set (map ends (fuse es)) = {p. \<exists>e\<in>set es. pair_of e = Some p}"
proof -
  have "p \<in> set (map ends (fuse es)) \<longleftrightarrow> claims es p \<noteq> []" for p
  proof
    assume "p \<in> set (map ends (fuse es))"
    then obtain l where "l \<in> set (fuse es)" "p = ends l" by auto
    then obtain q where q: "claims es q \<noteq> []" "l = resolve_pair (conflicted_ports es) (q, claims es q)"
      unfolding fuse_iff by blast
    have "ends (resolve_pair (conflicted_ports es) (q, claims es q)) = q" by simp
    with q \<open>p = ends l\<close> show "claims es p \<noteq> []" by simp
  next
    assume "claims es p \<noteq> []"
    then have "resolve_pair (conflicted_ports es) (p, claims es p) \<in> set (fuse es)" unfolding fuse_iff by blast
    moreover have "ends (resolve_pair (conflicted_ports es) (p, claims es p)) = p" by simp
    ultimately show "p \<in> set (map ends (fuse es))" unfolding set_map by (rule image_eqI[OF sym, rotated])
  qed
  then show ?thesis by (intro set_eqI) (simp only: filter_empty_conv mem_Collect_eq, blast)
qed

lemma pair_of_less: "pair_of e = Some (a, b) \<Longrightarrow> a < b"
  by (auto simp: pair_of_def Let_def split: if_splits)

text \<open>C31: Fusion makes a simple graph: the links come out strictly ordered by their ends, so a pair of nodes
  has at most one link, no link joins a node to itself, and a pair has a link exactly when some evidence
  names it.\<close>
theorem fuse_one_link_per_pair:
  "sorted_wrt (\<lambda>l l'. ends l < ends l') (fuse es) \<and> (\<forall>l\<in>set (fuse es). rl_a l < rl_b l) \<and>
   set (map ends (fuse es)) = {p. \<exists>e\<in>set es. pair_of e = Some p}"
proof (intro conjI ballI)
  fix l assume "l \<in> set (fuse es)"
  then have "ends l \<in> set (map ends (fuse es))" by simp
  then show "rl_a l < rl_b l" unfolding ends_fuse using pair_of_less by auto
qed (rule fuse_strictly_sorted ends_fuse)+

theorem fuse_one_link_per_pair_witness:
  "list_all (\<lambda>l. rl_a l < rl_b l) (fuse [evidence ''nd-b'' ''nd-a'' SOURCE_CDP HIGH (Some 3)])"
  unfolding list_all_iff using fuse_one_link_per_pair[of "[evidence ''nd-b'' ''nd-a'' SOURCE_CDP HIGH (Some 3)]"] by blast

text \<open>Every link is the verdict of the strongest claim about its pair: no claim has a more authoritative
  source, and none of equal authority is fresher.  Confidence, kind and medium are that claim's (confidence
  drops to low when the port is contradictory), and the port labels follow the node they describe.\<close>
theorem fuse_strongest_claim_wins:
  assumes "l \<in> set (fuse es)"
  shows "\<exists>w\<in>set es. pair_of w = Some (ends l) \<and> rl_via_source l = le_source w \<and> rl_medium l = le_medium w \<and>
    (\<forall>e\<in>set es. pair_of e = Some (ends l) \<longrightarrow> priority (le_source e) \<le> priority (le_source w) \<and>
       (priority (le_source e) = priority (le_source w) \<longrightarrow>
          (case le_observed_at e of None \<Rightarrow> [] | Some t \<Rightarrow> t) \<le> (case le_observed_at w of None \<Rightarrow> [] | Some t \<Rightarrow> t))) \<and>
    rl_confidence l = (if rl_ambiguous l then LOW else le_confidence w) \<and>
    (if node_id (le_a w) = rl_a l then rl_a_port l = le_a_port w \<and> rl_b_port l = le_b_port w
     else node_id (le_a w) = rl_b l \<and> rl_a_port l = le_b_port w \<and> rl_b_port l = le_a_port w)"
proof -
  from assms obtain p where p: "claims es p \<noteq> []"
    and l: "l = resolve_pair (conflicted_ports es) (p, claims es p)" by (auto simp: fuse_iff)
  have e: "ends l = p" using l ends_resolve[of "conflicted_ports es" "(p, claims es p)"] by simp
  from p obtain w where w: "w \<in> set (claims es p)" "\<forall>e\<in>set (claims es p). rank e \<le> rank w"
    "w = argmax rank (hd (claims es p)) (tl (claims es p))" by (rule resolve_winner)
  from w(1) e have pw: "w \<in> set es" "pair_of w = Some (ends l)" by auto
  then have na: "node_id (le_a w) = rl_a l \<or> node_id (le_a w) = rl_b l"
    by (auto simp: pair_of_def Let_def split: if_splits)
  have "priority (le_source e) \<le> priority (le_source w) \<and>
       (priority (le_source e) = priority (le_source w) \<longrightarrow>
          (case le_observed_at e of None \<Rightarrow> [] | Some t \<Rightarrow> t) \<le> (case le_observed_at w of None \<Rightarrow> [] | Some t \<Rightarrow> t))"
    if a1: "e \<in> set es" and a2: "pair_of e = Some (ends l)" for e
    using w(2) a1 a2 \<open>ends l = p\<close> by (auto simp: rank_def)
  moreover have "rl_via_source l = le_source w \<and> rl_medium l = le_medium w \<and>
    rl_confidence l = (if rl_ambiguous l then LOW else le_confidence w)"
    "rl_a_port l = (if node_id (le_a w) = rl_a l then le_a_port w else le_b_port w)"
    "rl_b_port l = (if node_id (le_a w) = rl_a l then le_b_port w else le_a_port w)"
    using resolve_fields[OF l[symmetric] w(3)] e by auto
  ultimately show ?thesis using pw na by (intro bexI[of _ w]) auto
qed

theorem fuse_strongest_claim_wins_witness:
  "\<exists>w\<in>set [evidence ''nd-b'' ''nd-a'' SOURCE_CDP HIGH None, evidence ''nd-a'' ''nd-b'' SOURCE_LLDP HIGH None].
     le_source w = SOURCE_LLDP"
proof -
  let ?es = "[evidence ''nd-b'' ''nd-a'' SOURCE_CDP HIGH None, evidence ''nd-a'' ''nd-b'' SOURCE_LLDP HIGH None]"
  have "map rl_via_source (fuse ?es) = [SOURCE_LLDP]" by code_simp
  then obtain l where l: "l \<in> set (fuse ?es)" "rl_via_source l = SOURCE_LLDP" by (cases "fuse ?es") auto
  from fuse_strongest_claim_wins[OF l(1)] l(2) show ?thesis by metis
qed

subsection \<open>Contradictory ports\<close>

lemma foldl_max_eq: "foldl max (m::nat) xs = Max (insert m (set xs))"
proof (induction xs arbitrary: m)
  case (Cons x xs)
  have "Max (insert (max m x) (set xs)) = Max (insert m (insert x (set xs)))"
    by (cases "xs = []") (simp_all add: max.assoc)
  with Cons show ?case by simp
qed simp

lemma length_remdups_two: "1 < length (remdups xs) \<longleftrightarrow> (\<exists>x\<in>set xs. \<exists>y\<in>set xs. x \<noteq> y)"
proof -
  have "length (remdups xs) = card (set xs)" by (simp add: length_remdups_card_conv)
  moreover have "1 < card (set xs) \<longleftrightarrow> (\<exists>x\<in>set xs. \<exists>y\<in>set xs. x \<noteq> y)"
    using card_le_Suc0_iff_eq[of "set xs"] by (auto simp: not_le[symmetric])
  ultimately show ?thesis by simp
qed

definition top_claim :: "link_evidence list \<Rightarrow> port_key \<Rightarrow> link_evidence \<Rightarrow> bool" where
  \<comment> \<open>a claim made off the port, by the most authoritative source that names a peer there\<close>
  "top_claim es k e \<longleftrightarrow> e \<in> set es \<and> grouped_port e = Some k \<and>
     (\<forall>e'\<in>set es. grouped_port e' = Some k \<longrightarrow> priority (le_source e') \<le> priority (le_source e))"

lemma conflicted_iff:
  "k \<in> set (conflicted_ports es) \<longleftrightarrow>
     (\<exists>e e'. top_claim es k e \<and> top_claim es k e' \<and> node_id (le_b e) \<noteq> node_id (le_b e'))"
proof -
  define evs where "evs = filter (\<lambda>e. grouped_port e = Some k) es"
  define top where "top = foldl max 0 (map (\<lambda>e. priority (le_source e)) evs)"
  have top: "top = Max (insert 0 ((\<lambda>e. priority (le_source e)) ` set evs))"
    by (simp add: top_def foldl_max_eq)
  have tc: "top_claim es k e \<longleftrightarrow> e \<in> set evs \<and> priority (le_source e) = top" for e
  proof
    assume t: "top_claim es k e"
    have "top = priority (le_source e)" unfolding top
      by (rule Max_eqI) (use t in \<open>auto simp: top_claim_def evs_def\<close>)
    with t show "e \<in> set evs \<and> priority (le_source e) = top" by (auto simp: top_claim_def evs_def)
  next
    assume t: "e \<in> set evs \<and> priority (le_source e) = top"
    have "priority (le_source e') \<le> top" if "e' \<in> set evs" for e'
      unfolding top by (rule Max_ge) (use that in auto)
    with t show "top_claim es k e" by (auto simp: top_claim_def evs_def)
  qed
  have "k \<in> set (conflicted_ports es) \<longleftrightarrow> evs \<noteq> [] \<and> names_two evs"
    by (force simp: conflicted_ports_def group_by_iff evs_def)
  moreover have "names_two evs \<longleftrightarrow> (\<exists>e e'. top_claim es k e \<and> top_claim es k e' \<and> node_id (le_b e) \<noteq> node_id (le_b e'))"
    unfolding names_two_def Let_def length_remdups_two top_def[symmetric] tc by auto
  moreover have "evs \<noteq> []" if "names_two evs" using that by (auto simp: names_two_def)
  ultimately show ?thesis by blast
qed

text \<open>A contradiction is shown, never resolved away: when the most authoritative claims off one port name two
  different neighbours, both links stay in the graph, marked ambiguous and of low confidence.\<close>
theorem fuse_contradiction_kept_as_low:
  assumes "top_claim es k e" "top_claim es k e'" "node_id (le_b e) \<noteq> node_id (le_b e')"
  shows "\<exists>l\<in>set (fuse es). \<exists>l'\<in>set (fuse es). Some (ends l) = pair_of e \<and> Some (ends l') = pair_of e' \<and> l \<noteq> l' \<and>
    rl_ambiguous l \<and> rl_ambiguous l' \<and> rl_confidence l = LOW \<and> rl_confidence l' = LOW"
proof -
  let ?c = "conflicted_ports es"
  have k: "k \<in> set ?c" using assms conflicted_iff by blast
  have one: "\<exists>l\<in>set (fuse es). Some (ends l) = pair_of d \<and> rl_ambiguous l \<and> rl_confidence l = LOW"
    if d: "top_claim es k d" for d
  proof -
    from d have p: "d \<in> set es" "port_of d = Some k" "node_id (le_a d) \<noteq> node_id (le_b d)"
      by (auto simp: top_claim_def grouped_port_def split: if_splits)
    then obtain q where q: "pair_of d = Some q" by (auto simp: pair_of_def Let_def)
    with p have c: "d \<in> set (claims es q)" by simp
    have "is_ambiguous ?c (claims es q)"
      using c p(2) k by (force simp: is_ambiguous_def list_ex_iff)
    moreover have "resolve_pair ?c (q, claims es q) \<in> set (fuse es)"
      unfolding fuse_iff using c by (metis empty_iff list.set(1))
    ultimately show ?thesis using q ends_resolve[of ?c "(q, claims es q)"]
      using resolve_fields[OF refl refl, of ?c q "claims es q"]
      by (intro bexI[of _ "resolve_pair ?c (q, claims es q)"]) auto
  qed
  have same: "node_id (le_a e) = node_id (le_a e')" "node_id (le_a e) \<noteq> node_id (le_b e)"
    "node_id (le_a e') \<noteq> node_id (le_b e')"
    using assms by (auto simp: top_claim_def grouped_port_def port_of_def split: if_splits)
  then have ne: "pair_of e \<noteq> pair_of e'"
    using assms(3) by (auto simp: pair_of_def Let_def)
  from one[OF assms(1)] one[OF assms(2)] ne show ?thesis by metis
qed

theorem fuse_contradiction_kept_as_low_witness:
  "\<exists>l\<in>set (fuse [evidence ''nd-a'' ''nd-b'' SOURCE_CDP HIGH (Some 3), evidence ''nd-a'' ''nd-c'' SOURCE_CDP HIGH (Some 3)]).
     rl_ambiguous l \<and> rl_confidence l = LOW"
proof -
  let ?e = "evidence ''nd-a'' ''nd-b'' SOURCE_CDP HIGH (Some 3)" and ?e' = "evidence ''nd-a'' ''nd-c'' SOURCE_CDP HIGH (Some 3)"
  have g: "grouped_port ?e = Some (''nd-a'', ''ifindex'', 3)" "grouped_port ?e' = Some (''nd-a'', ''ifindex'', 3)" by code_simp+
  have "node_id (le_b ?e) \<noteq> node_id (le_b ?e')" by code_simp
  moreover have "le_source ?e = le_source ?e'" by (simp add: evidence_def)
  then have "top_claim [?e, ?e'] (''nd-a'', ''ifindex'', 3) ?e" "top_claim [?e, ?e'] (''nd-a'', ''ifindex'', 3) ?e'"
    using g by (auto simp: top_claim_def)
  ultimately show ?thesis using fuse_contradiction_kept_as_low by blast
qed

subsection \<open>Order of the evidence\<close>

definition skeleton :: "resolved_link \<Rightarrow> (string \<times> string) \<times> string \<times> string \<times> bool \<times> string option" where
  "skeleton l = (ends l, rl_via_source l, rl_link_kind l, rl_ambiguous l, rl_observed_at l)"

lemma conflicted_ports_cong: "set es = set es' \<Longrightarrow> set (conflicted_ports es) = set (conflicted_ports es')"
  by (rule set_eqI) (simp add: conflicted_iff top_claim_def)

lemma resolve_skeleton_cong:
  assumes "set c = set c'" "set evs = set evs'" "evs \<noteq> []"
  shows "skeleton (resolve_pair c (p, evs)) = skeleton (resolve_pair c' (p, evs'))"
proof -
  have "evs' \<noteq> []" using assms(2,3) by auto
  obtain w where w: "w \<in> set evs" "\<forall>e\<in>set evs. rank e \<le> rank w" "w = argmax rank (hd evs) (tl evs)"
    using assms(3) by (rule resolve_winner)
  obtain w' where w': "w' \<in> set evs'" "\<forall>e\<in>set evs'. rank e \<le> rank w'" "w' = argmax rank (hd evs') (tl evs')"
    using \<open>evs' \<noteq> []\<close> by (rule resolve_winner)
  have "rank w = rank w'" using w(1,2) w'(1,2) assms(2) by (intro antisym) auto
  then have src: "le_source w = le_source w'" by (simp add: rank_def)
  have times: "set (truthy_times evs) = set (truthy_times evs')"
    using assms(2) by (simp add: truthy_times_def List.map_filter_def image_Collect)
  then have obs: "max_of (truthy_times evs) = max_of (truthy_times evs')"
    unfolding max_of_conv by (metis set_empty)
  have amb: "is_ambiguous c evs = is_ambiguous c' evs'" unfolding is_ambiguous_def list_ex_iff assms(1,2) ..
  show ?thesis
    using resolve_fields[OF refl w(3), of c p] resolve_fields[OF refl w'(3), of c' p] src obs amb
    by (simp add: skeleton_def)
qed

text \<open>Which nodes are linked, on whose authority, how, whether contradictorily and when last seen does not
  depend on the order, or the repetition, in which the evidence arrived.\<close>
theorem fuse_skeleton_order_independent:
  assumes "set es = set es'"
  shows "map skeleton (fuse es) = map skeleton (fuse es')"
proof -
  let ?f = "\<lambda>es p. skeleton (resolve_pair (conflicted_ports es) (p, claims es p))"
  have sk: "map skeleton (fuse xs) = map (?f xs) (map ends (fuse xs))" for xs
  proof -
    have "skeleton l = ?f xs (ends l)" if "l \<in> set (fuse xs)" for l
    proof -
      from that obtain p where "l = resolve_pair (conflicted_ports xs) (p, claims xs p)" unfolding fuse_iff by blast
      moreover have "ends (resolve_pair (conflicted_ports xs) (p, claims xs p)) = p" by simp
      ultimately show ?thesis by simp
    qed
    then show ?thesis by simp
  qed
  have ss: "sorted_wrt (<) (map ends (fuse xs))" for xs using fuse_strictly_sorted by (simp add: sorted_wrt_map)
  have "set (map ends (fuse es')) = set (map ends (fuse es))" unfolding ends_fuse assms ..
  then have m: "map ends (fuse es) = map ends (fuse es')" by (rule strict_sorted_equal[OF ss ss, symmetric])
  have "?f es p = ?f es' p" if "p \<in> set (map ends (fuse es))" for p
  proof (rule resolve_skeleton_cong[OF conflicted_ports_cong[OF assms]])
    show "set (claims es p) = set (claims es' p)" using assms by simp
    show "claims es p \<noteq> []" using that unfolding ends_fuse by (auto simp: filter_empty_conv)
  qed
  then show ?thesis unfolding sk m by (simp add: m[symmetric])
qed

theorem fuse_skeleton_order_independent_witness:
  "map skeleton (fuse [evidence ''nd-a'' ''nd-b'' SOURCE_CDP HIGH None, evidence ''nd-a'' ''nd-c'' SOURCE_LLDP HIGH None]) =
   map skeleton (fuse [evidence ''nd-a'' ''nd-c'' SOURCE_LLDP HIGH None, evidence ''nd-a'' ''nd-b'' SOURCE_CDP HIGH None])"
  by (rule fuse_skeleton_order_independent) auto

text \<open>The port labels do depend on it: with two cables between the same switches, both seen over LLDP at
  the same time, the first claim listed names the ports, so the same evidence in another order is a
  different graph.\<close>
theorem fuse_depends_on_order:
  "let one = (evidence ''nd-a'' ''nd-b'' SOURCE_LLDP HIGH (Some 1))\<lparr>le_a_port := Some ''Gi1'', le_port_space := ''lldp''\<rparr>;
       two = (evidence ''nd-a'' ''nd-b'' SOURCE_LLDP HIGH (Some 2))\<lparr>le_a_port := Some ''Gi2'', le_port_space := ''lldp''\<rparr>
   in map rl_a_port (fuse [one, two]) = [Some ''Gi1''] \<and> map rl_a_port (fuse [two, one]) = [Some ''Gi2'']"
  by code_simp

end
