(* ===== verification/Transport.thy ===== *)
theory Transport
  imports PyFloat Utf8 "HOL-Library.Stream" "HOL-Library.Sublist"
begin

text \<open>
  The agent's transport (\<open>client/transport.py\<close>): delivery of envelopes over HTTP and the offline buffer,
  a text file of JSON lines that is replayed oldest first.

  The surroundings are streams the code reads one element of at a time: the server's answers, the
  clock, and for every file operation whether it raises \<open>OSError\<close>.  The file is the text on disk, with the
  platform's line separator.  JSON is the standard library's: \<open>dumps\<close> and \<open>loads\<close> are parameters,
  \<open>loads\<close> giving \<^const>\<open>None\<close> for \<open>JSONDecodeError\<close>.  Sleeping and logging have no effect on the state.
\<close>

definition MAX_BUFFER_LINES :: nat where "MAX_BUFFER_LINES = 5000"
definition MAX_BUFFER_BYTES :: nat where "MAX_BUFFER_BYTES = 50 * 1024 * 1024"
definition SEND_ATTEMPTS :: nat where "SEND_ATTEMPTS = 2"
definition MAX_PAYLOAD_BYTES :: nat where "MAX_PAYLOAD_BYTES = 500000"
definition MAX_THROTTLE_SEC :: pyfloat where "MAX_THROTTLE_SEC = Fin 300"
definition DEFAULT_THROTTLE_SEC :: pyfloat where "DEFAULT_THROTTLE_SEC = Fin 60"
definition AGENT_VERSION :: string where "AGENT_VERSION = ''0.3.0''"

subsection \<open>Envelopes\<close>

record client_config =
  cc_device_id :: string
  cc_hostname :: utext
  cc_site_code :: utext
  cc_site_name :: utext
  cc_org_code :: utext
  cc_dept_code :: utext
  cc_comment :: utext
  cc_owner_full_name :: utext
  cc_owner_position :: utext
  cc_owner_phone :: utext
  cc_offline_mode :: bool

record 'p agent_envelope =
  en_device_id :: string
  en_hostname :: "utext option"
  en_agent_version :: string
  en_msg_type :: string
  en_ts :: string
  en_payload :: "'p"
  en_source_health :: "'p"
  en_site_code :: "utext option"
  en_site_name :: "utext option"
  en_org_code :: "utext option"
  en_dept_code :: "utext option"
  en_comment :: "utext option"
  en_owner_full_name :: "utext option"
  en_owner_position :: "utext option"
  en_owner_phone :: "utext option"
  en_idempotency_key :: string

definition or_none :: "utext \<Rightarrow> utext option" where
  "or_none s = (if s = [] then None else Some s)"

definition envelope_of :: "client_config \<Rightarrow> string \<Rightarrow> 'p \<Rightarrow> 'p \<Rightarrow> string \<Rightarrow> string \<Rightarrow> 'p agent_envelope" where
  \<comment> \<open>\<open>now\<close> and \<open>key\<close> are the time stamp and the fresh UUID\<close>
  "envelope_of cfg msg_type payload source_health now key =
     \<lparr>en_device_id = cc_device_id cfg, en_hostname = or_none (cc_hostname cfg),
      en_agent_version = AGENT_VERSION, en_msg_type = msg_type, en_ts = now, en_payload = payload,
      en_source_health = source_health, en_site_code = or_none (cc_site_code cfg),
      en_site_name = or_none (cc_site_name cfg), en_org_code = or_none (cc_org_code cfg),
      en_dept_code = or_none (cc_dept_code cfg), en_comment = or_none (cc_comment cfg),
      en_owner_full_name = or_none (cc_owner_full_name cfg),
      en_owner_position = or_none (cc_owner_position cfg), en_owner_phone = or_none (cc_owner_phone cfg),
      en_idempotency_key = key\<rparr>"

subsection \<open>State and surroundings\<close>

datatype http_answer = RespOk | RespHttp int "string option" | RespDown string
  \<comment> \<open>2xx or 3xx; an error status with its \<open>Retry-After\<close>; a network error\<close>

datatype outcome = Sent | Dropped | Retry | Throttled

record 'e transport =
  disk :: "utext option"  \<comment> \<open>the buffer file, absent or its text\<close>
  throttled_until :: pyfloat
  last_ok_ts :: "pyfloat option"
  last_error :: string
  net :: "http_answer stream"
  clock :: "pyfloat stream"
  io_fails :: "bool stream"
  posted :: "'e list"  \<comment> \<open>the requests made so far\<close>

definition now_of :: "'e transport \<Rightarrow> pyfloat \<times> 'e transport" where
  "now_of w = (shd (clock w), w\<lparr>clock := stl (clock w)\<rparr>)"

definition io_of :: "'e transport \<Rightarrow> bool \<times> 'e transport" where
  "io_of w = (shd (io_fails w), w\<lparr>io_fails := stl (io_fails w)\<rparr>)"

subsection \<open>Delivery\<close>

definition retry_after :: "string option \<Rightarrow> pyfloat" where
  "retry_after raw =
     (case float_of_str (strip (case raw of None \<Rightarrow> [] | Some s \<Rightarrow> s)) of
        Inl _ \<Rightarrow> DEFAULT_THROTTLE_SEC
      | Inr wait \<Rightarrow> if fle wait (Fin 0) then DEFAULT_THROTTLE_SEC
                    else if flt MAX_THROTTLE_SEC wait then MAX_THROTTLE_SEC else wait)"

definition attempt :: "'e \<Rightarrow> 'e transport \<Rightarrow> outcome \<times> 'e transport" where
  "attempt e w0 =
     (let w = w0\<lparr>posted := posted w0 @ [e], net := stl (net w0)\<rparr>
      in case shd (net w0) of
           RespOk \<Rightarrow> (let (t, w) = now_of w in (Sent, w\<lparr>last_ok_ts := Some t, last_error := []\<rparr>))
         | RespHttp code hdr \<Rightarrow>
             let w = w\<lparr>last_error := ''HTTP '' @ int_str code\<rparr>
             in if code = 408 \<or> code = 425 \<or> code = 429
                then let (t, w) = now_of w in (Throttled, w\<lparr>throttled_until := fadd t (retry_after hdr)\<rparr>)
                else if 400 \<le> code \<and> code < 500 then (Dropped, w)
                else (Retry, w)
         | RespDown msg \<Rightarrow> (Retry, w\<lparr>last_error := take 200 msg\<rparr>))"

fun deliver_loop :: "nat \<Rightarrow> 'e \<Rightarrow> 'e transport \<Rightarrow> bool \<times> 'e transport" where
  "deliver_loop 0 e w = (False, w)"
| "deliver_loop (Suc n) e w = (case attempt e w of (out, w) \<Rightarrow>
     (case out of Sent \<Rightarrow> (True, w) | Dropped \<Rightarrow> (True, w) | Throttled \<Rightarrow> (False, w)
      | Retry \<Rightarrow> deliver_loop n e w))"

definition deliver :: "bool \<Rightarrow> 'e \<Rightarrow> 'e transport \<Rightarrow> bool \<times> 'e transport" where
  "deliver offline e w =
     (if offline then (False, w)
      else let (t, w) = now_of w
           in if flt t (throttled_until w) then (False, w) else deliver_loop SEND_ATTEMPTS e w)"

subsection \<open>Lines of text\<close>

definition line_break :: "nat \<Rightarrow> bool" where
  \<comment> \<open>the characters \<open>str.splitlines\<close> splits on\<close>
  "line_break c \<longleftrightarrow> 10 \<le> c \<and> c \<le> 13 \<or> 28 \<le> c \<and> c \<le> 30 \<or> c = 0x85 \<or> c = 0x2028 \<or> c = 0x2029"

fun splitlines :: "utext \<Rightarrow> utext \<Rightarrow> utext list" where
  "splitlines cur [] = (if cur = [] then [] else [cur])"
| "splitlines cur (c # cs) =
     (if c = 13 \<and> (case cs of d # _ \<Rightarrow> d = 10 | [] \<Rightarrow> False) then cur # splitlines [] (tl cs)
      else if line_break c then cur # splitlines [] cs
      else splitlines (cur @ [c]) cs)"

fun universal_nl :: "utext \<Rightarrow> utext" where
  \<comment> \<open>text mode reading\<close>
  "universal_nl [] = []"
| "universal_nl [c] = [if c = 13 then 10 else c]"
| "universal_nl (c # d # ds) =
     (if c = 13 then 10 # (if d = 10 then universal_nl ds else universal_nl (d # ds))
      else c # universal_nl (d # ds))"

definition linesep :: "bool \<Rightarrow> utext" where
  "linesep windows = (if windows then [13, 10] else [10])"

definition text_mode :: "bool \<Rightarrow> utext \<Rightarrow> utext" where
  \<comment> \<open>text mode writing\<close>
  "text_mode windows s = concat (map (\<lambda>c. if c = 10 then linesep windows else [c]) s)"

definition byte_len :: "utext \<Rightarrow> nat" where
  "byte_len s = sum_list (map (\<lambda>c. length (utf8_char c)) s)"

subsection \<open>The buffer file\<close>

definition buffer_depth :: "'e transport \<Rightarrow> nat \<times> 'e transport" where
  \<comment> \<open>iteration over the file splits on line feeds only\<close>
  "buffer_depth w = (case disk w of
     None \<Rightarrow> (0, w)
   | Some s \<Rightarrow> let (failed, w) = io_of w
       in if failed then (0, w)
          else (length (filter (\<lambda>ln. u_strip ln \<noteq> [])
                  (foldr (\<lambda>c acc. if c = 10 then [] # acc else (c # hd acc) # tl acc) (universal_nl s) [[]])), w))"

definition read_buffer :: "'e transport \<Rightarrow> utext list \<times> 'e transport" where
  "read_buffer w = (case disk w of
     None \<Rightarrow> ([], w)
   | Some s \<Rightarrow> let (failed, w) = io_of w
       in if failed then ([], w)
          else (filter (\<lambda>ln. u_strip ln \<noteq> []) (splitlines [] (universal_nl s)), w))"

fun join_nl :: "utext list \<Rightarrow> utext" where
  "join_nl [] = []"
| "join_nl (l # ls) = (case ls of [] \<Rightarrow> l | _ \<Rightarrow> l @ [10] @ join_nl ls)"

definition write_buffer :: "bool \<Rightarrow> utext list \<Rightarrow> 'e transport \<Rightarrow> 'e transport" where
  \<comment> \<open>a failure of the temporary file or of \<open>os.replace\<close> leaves the file as it is\<close>
  "write_buffer windows ls w =
     (if ls = [] then
        (if disk w \<noteq> None then let (failed, w) = io_of w in if failed then w else w\<lparr>disk := None\<rparr> else w)
      else let (failed, w) = io_of w
           in if failed then w else w\<lparr>disk := Some (text_mode windows (join_nl ls @ [10]))\<rparr>)"

fun drop_oldest :: "nat \<Rightarrow> nat \<Rightarrow> utext list \<Rightarrow> utext list" where
  "drop_oldest nl bytes [] = []"
| "drop_oldest nl bytes (l # ls) =
     (if MAX_BUFFER_BYTES < bytes then drop_oldest nl (bytes - (byte_len l + nl)) ls else l # ls)"

definition last_n :: "nat \<Rightarrow> 'a list \<Rightarrow> 'a list" where
  \<comment> \<open>\<open>xs[-n:]\<close>\<close>
  "last_n n xs = drop (length xs - n) xs"

definition trim_buffer :: "bool \<Rightarrow> 'e transport \<Rightarrow> 'e transport" where
  "trim_buffer windows w0 = (case disk w0 of
     None \<Rightarrow> w0
   | Some s \<Rightarrow> let (failed, w) = io_of w0
       in if failed then w
          else let oversize = MAX_BUFFER_BYTES < byte_len s;
                   (lines, w) = read_buffer w;
                   kept = last_n MAX_BUFFER_LINES lines;
                   nl = length (linesep windows);
                   kept = (if oversize
                     then drop_oldest nl (sum_list (map (\<lambda>l. byte_len l + nl) kept)) kept else kept)
               in if length kept \<noteq> length lines then write_buffer windows kept w else w)"

definition append_buffer :: "bool \<Rightarrow> ('e \<Rightarrow> utext) \<Rightarrow> 'e \<Rightarrow> 'e transport \<Rightarrow> 'e transport" where
  "append_buffer windows dumps e w0 =
     (let (failed, w) = io_of w0
      in if failed then w
         else trim_buffer windows
           (w\<lparr>disk := Some ((case disk w of None \<Rightarrow> [] | Some s \<Rightarrow> s) @ text_mode windows (dumps e @ [10]))\<rparr>))"

subsection \<open>Sending and replay\<close>

fun flush_loop :: "bool \<Rightarrow> (utext \<Rightarrow> 'e option) \<Rightarrow> utext list \<Rightarrow> 'e transport
    \<Rightarrow> nat \<times> utext list \<times> 'e transport" where
  "flush_loop offline loads [] w = (0, [], w)"
| "flush_loop offline loads (l # ls) w =
     (case loads l of
        None \<Rightarrow> (case flush_loop offline loads ls w of (n, r, w) \<Rightarrow> (Suc n, r, w))
      | Some e \<Rightarrow> (case deliver offline e w of (ok, w) \<Rightarrow>
          if ok then (case flush_loop offline loads ls w of (n, r, w) \<Rightarrow> (Suc n, r, w))
          else (0, l # ls, w)))"

definition flush_buffer :: "bool \<Rightarrow> bool \<Rightarrow> (utext \<Rightarrow> 'e option) \<Rightarrow> 'e transport \<Rightarrow> nat \<times> 'e transport" where
  "flush_buffer windows offline loads w0 =
     (let (lines, w) = read_buffer w0
      in if lines = [] then (0, w)
         else let (handled, remaining, w) = flush_loop offline loads lines w
              in (handled, write_buffer windows remaining w))"

definition send_envelope :: "bool \<Rightarrow> bool \<Rightarrow> ('e \<Rightarrow> utext) \<Rightarrow> (utext \<Rightarrow> 'e option) \<Rightarrow> 'e \<Rightarrow> 'e transport
    \<Rightarrow> bool res \<times> 'e transport" where
  \<comment> \<open>\<open>send\<close> once the envelope is built; text with a lone surrogate has no UTF-8 and raises\<close>
  "send_envelope windows offline dumps loads e w0 =
     (case utf8_encode (dumps e) of
        Inl err \<Rightarrow> (Inl err, w0)
      | Inr bytes \<Rightarrow>
          if MAX_PAYLOAD_BYTES < length bytes
          then (Inr True, w0\<lparr>last_error := ''payload '' @ nat_str (length bytes) @ '' bytes > cap''\<rparr>)
          else (case deliver offline e w0 of (ok, w) \<Rightarrow>
            if ok then (Inr True, snd (flush_buffer windows offline loads w))
            else (Inr False, append_buffer windows dumps e w)))"

definition send :: "bool \<Rightarrow> client_config \<Rightarrow> ('p agent_envelope \<Rightarrow> utext) \<Rightarrow> (utext \<Rightarrow> 'p agent_envelope option) \<Rightarrow> 'p \<Rightarrow>
    string \<Rightarrow> 'p option \<Rightarrow> 'p option \<Rightarrow> string \<Rightarrow> string \<Rightarrow> 'p agent_envelope transport
    \<Rightarrow> bool res \<times> 'p agent_envelope transport" where
  \<comment> \<open>\<open>no_data\<close> is the no_data JSON object; a falsy \<open>source_health\<close> is \<^const>\<open>None\<close> here\<close>
  "send windows cfg dumps loads no_data msg_type payload source_health now key w =
     (if payload = None \<and> source_health = None then (Inr True, w)
      else send_envelope windows (cc_offline_mode cfg) dumps loads
        (envelope_of cfg msg_type (case payload of None \<Rightarrow> no_data | Some p \<Rightarrow> p)
           (case source_health of None \<Rightarrow> no_data | Some h \<Rightarrow> h) now key) w)"

subsection \<open>The file as a list of lines\<close>

definition clean :: "utext \<Rightarrow> bool" where
  \<comment> \<open>a line that the file carries unharmed: not blank, without any line break character\<close>
  "clean l \<longleftrightarrow> list_all (\<lambda>c. \<not> line_break c) l \<and> u_strip l \<noteq> []"

definition file_of :: "bool \<Rightarrow> utext list \<Rightarrow> utext" where
  "file_of windows ls = concat (map (\<lambda>l. l @ linesep windows) ls)"

definition holds :: "bool \<Rightarrow> 'e transport \<Rightarrow> utext list \<Rightarrow> bool" where
  \<comment> \<open>the buffer file represents this queue, oldest line first\<close>
  "holds windows w ls \<longleftrightarrow> list_all clean ls \<and>
     (case disk w of None \<Rightarrow> ls = [] | Some s \<Rightarrow> s = file_of windows ls)"

definition io_ok :: "'e transport \<Rightarrow> bool" where
  "io_ok w \<longleftrightarrow> io_fails w = sconst False"

lemma file_of_simps [simp]: "file_of windows [] = []"
  "file_of windows (l # ls) = l @ linesep windows @ file_of windows ls"
  "file_of windows (ls @ ms) = file_of windows ls @ file_of windows ms"
  by (simp_all add: file_of_def)

lemma clean_no_nl: "clean l \<Longrightarrow> list_all (\<lambda>c. c \<noteq> 10 \<and> c \<noteq> 13) l"
proof -
  have "\<not> line_break c \<Longrightarrow> c \<noteq> 10 \<and> c \<noteq> 13" for c by (auto simp: line_break_def)
  then show "clean l \<Longrightarrow> ?thesis" unfolding clean_def by (blast intro: list.pred_mono_strong)
qed

lemma text_mode_append [simp]: "text_mode windows (s @ t) = text_mode windows s @ text_mode windows t"
  by (simp add: text_mode_def)

lemma text_mode_clean: "clean l \<Longrightarrow> text_mode windows (l @ [10]) = l @ linesep windows"
proof -
  have "list_all (\<lambda>c. c \<noteq> 10 \<and> c \<noteq> 13) s \<Longrightarrow> concat (map (\<lambda>c. if c = 10 then linesep windows else [c]) s) = s" for s
    by (induction s) auto
  then show "clean l \<Longrightarrow> ?thesis" using clean_no_nl by (simp add: text_mode_def)
qed

lemma text_mode_join: "list_all clean ls \<Longrightarrow> ls \<noteq> [] \<Longrightarrow> text_mode windows (join_nl ls @ [10]) = file_of windows ls"
proof (induction ls)
  case (Cons l ls)
  have l: "text_mode windows l @ text_mode windows [10] = l @ linesep windows" using Cons.prems text_mode_clean by fastforce
  show ?case
  proof (cases ls)
    case Nil
    then show ?thesis using l by simp
  next
    case (Cons m ms)
    then have "text_mode windows (join_nl ls @ [10]) = file_of windows ls" using Cons.IH Cons.prems by simp
    moreover have "join_nl (l # ls) = l @ [10] @ join_nl ls" using Cons by simp
    ultimately have "text_mode windows (join_nl (l # ls) @ [10]) =
      (text_mode windows l @ text_mode windows [10]) @ file_of windows ls"
      by (metis append.assoc text_mode_append)
    then show ?thesis unfolding l by simp
  qed
qed simp

lemma universal_nl_app: "list_all (\<lambda>c. c \<noteq> 10 \<and> c \<noteq> 13) l \<Longrightarrow> universal_nl (l @ linesep windows @ s) = l @ 10 # universal_nl s"
proof (induction l)
  case Nil
  show ?case by (cases windows; cases s) (simp_all add: linesep_def)
next
  case (Cons c l)
  obtain d t where t: "l @ linesep windows @ s = d # t" by (cases "l @ linesep windows @ s") (auto simp: linesep_def split: if_splits)
  have "universal_nl ((c # l) @ linesep windows @ s) = universal_nl (c # d # t)" by (simp add: t)
  also have "\<dots> = c # universal_nl (l @ linesep windows @ s)" using Cons.prems t by simp
  finally show ?case using Cons by simp
qed

lemma universal_nl_file: "list_all clean ls \<Longrightarrow> universal_nl (file_of windows ls) = concat (map (\<lambda>l. l @ [10]) ls)"
  by (induction ls) (simp_all add: universal_nl_app clean_no_nl)

lemma splitlines_app:
  "list_all (\<lambda>c. \<not> line_break c) l \<Longrightarrow> line_break b \<Longrightarrow> b \<noteq> 13 \<Longrightarrow> splitlines cur (l @ b # s) = (cur @ l) # splitlines [] s"
proof (induction l arbitrary: cur)
  case (Cons c l)
  then have "c \<noteq> 13" by (auto simp: line_break_def)
  with Cons show ?case by simp
qed simp

lemma splitlines_file: "list_all clean ls \<Longrightarrow> splitlines [] (concat (map (\<lambda>l. l @ [10]) ls)) = ls"
  by (induction ls) (simp_all add: splitlines_app clean_def line_break_def)

lemma read_buffer_holds:
  assumes "holds windows w ls" "io_ok w"
  shows "\<exists>w'. read_buffer w = (ls, w') \<and> io_ok w' \<and> w' = w\<lparr>io_fails := io_fails w'\<rparr>"
proof (cases "disk w")
  case None
  with assms show ?thesis by (auto simp: read_buffer_def holds_def)
next
  case (Some s)
  with assms have s: "list_all clean ls" "s = file_of windows ls" by (auto simp: holds_def)
  have "filter (\<lambda>ln. u_strip ln \<noteq> []) ls = ls" using s(1) by (induction ls) (auto simp: clean_def)
  with s Some assms(2) show ?thesis
    by (auto simp: read_buffer_def io_of_def io_ok_def universal_nl_file splitlines_file)
qed

lemma write_buffer_holds:
  assumes "io_ok w" "list_all clean ls"
  shows "holds windows (write_buffer windows ls w) ls \<and> io_ok (write_buffer windows ls w) \<and>
    posted (write_buffer windows ls w) = posted w"
  using assms text_mode_join[of ls windows]
  by (auto simp: write_buffer_def holds_def io_of_def io_ok_def split: option.splits)

subsection \<open>The bounded queue\<close>

definition weight :: "bool \<Rightarrow> utext list \<Rightarrow> nat" where
  \<comment> \<open>octets of the file that holds these lines\<close>
  "weight windows ls = sum_list (map (\<lambda>l. byte_len l + length (linesep windows)) ls)"

definition fits :: "bool \<Rightarrow> utext list \<Rightarrow> bool" where
  "fits windows ls \<longleftrightarrow> length ls \<le> MAX_BUFFER_LINES \<and> weight windows ls \<le> MAX_BUFFER_BYTES"

definition longest_fit :: "bool \<Rightarrow> utext list \<Rightarrow> utext list \<Rightarrow> bool" where
  \<comment> \<open>the abstract queue: the newest lines, as many as fit\<close>
  "longest_fit windows ls ys \<longleftrightarrow> suffix ys ls \<and> fits windows ys \<and>
     (\<forall>zs. suffix zs ls \<longrightarrow> fits windows zs \<longrightarrow> suffix zs ys)"

lemma weight_simps [simp]: "weight windows [] = 0"
  "weight windows (l # ls) = byte_len l + length (linesep windows) + weight windows ls"
  "weight windows (ls @ ms) = weight windows ls + weight windows ms"
  by (simp_all add: weight_def)

lemma byte_len_file: "byte_len (file_of windows ls) = weight windows ls"
  by (induction ls) (auto simp: byte_len_def linesep_def utf8_char_def)

lemma weight_suffix: "suffix zs ys \<Longrightarrow> weight windows zs \<le> weight windows ys"
  by (auto simp: suffix_def)

lemma drop_oldest_longest:
  "suffix (drop_oldest nl (weight windows ls) ls) ls \<and> weight windows (drop_oldest nl (weight windows ls) ls) \<le> MAX_BUFFER_BYTES \<and>
   (\<forall>zs. suffix zs ls \<longrightarrow> weight windows zs \<le> MAX_BUFFER_BYTES \<longrightarrow> suffix zs (drop_oldest nl (weight windows ls) ls))"
  if "nl = length (linesep windows)"
proof (induction ls)
  case (Cons l ls)
  show ?case
  proof (cases "MAX_BUFFER_BYTES < weight windows (l # ls)")
    case True
    have d: "drop_oldest nl (weight windows (l # ls)) (l # ls) = drop_oldest nl (weight windows ls) ls"
      using True that by simp
    have "suffix zs ls" if "suffix zs (l # ls)" "weight windows zs \<le> MAX_BUFFER_BYTES" for zs
      using that True by (auto simp: suffix_Cons)
    with Cons d show ?thesis by (auto simp: suffix_Cons)
  next
    case False
    then have "drop_oldest nl (weight windows (l # ls)) (l # ls) = l # ls" by simp
    with False show ?thesis by (metis suffix_order.order_refl not_less)
  qed
qed simp

lemma last_n_suffix: "suffix (last_n n xs) xs \<and> length (last_n n xs) \<le> n"
  by (simp add: last_n_def suffix_drop)

lemma last_n_longest: "suffix zs xs \<Longrightarrow> length zs \<le> n \<Longrightarrow> suffix zs (last_n n xs)"
proof -
  assume a: "suffix zs xs" "length zs \<le> n"
  then have "suffix (last_n n xs) xs" "length zs \<le> length (last_n n xs)"
    using suffix_length_le[OF a(1)] by (auto simp: last_n_def suffix_drop)
  with a(1) show ?thesis by (rule suffix_length_suffix)
qed

lemma trim_buffer_holds:
  assumes h: "holds windows w ls" and io: "io_ok w" and d: "disk w \<noteq> None"
  shows "\<exists>ys. longest_fit windows ls ys \<and> holds windows (trim_buffer windows w) ys \<and>
    io_ok (trim_buffer windows w) \<and> posted (trim_buffer windows w) = posted w"
proof -
  from d obtain s where s: "disk w = Some s" by auto
  with h have s': "s = file_of windows ls" and cl: "list_all clean ls" by (auto simp: holds_def)
  define w1 where "w1 = snd (io_of w)"
  have w1: "holds windows w1 ls" "io_ok w1" "posted w1 = posted w" "fst (io_of w) = False"
    using h io by (auto simp: w1_def io_of_def holds_def io_ok_def)
  from read_buffer_holds[OF w1(1,2)] obtain w2 where r: "read_buffer w1 = (ls, w2)"
    "io_ok w2" "w2 = w1\<lparr>io_fails := io_fails w2\<rparr>" by blast
  from r(3) have w2: "disk w2 = disk w1" "posted w2 = posted w" using w1(3) by (metis transport.select_convs transport.surjective transport.update_convs)+
  then have h2: "holds windows w2 ls" using w1(1) by (simp add: holds_def)
  define k1 where "k1 = last_n MAX_BUFFER_LINES ls"
  define kept where "kept = (if MAX_BUFFER_BYTES < byte_len s
    then drop_oldest (length (linesep windows)) (weight windows k1) k1 else k1)"
  have t: "trim_buffer windows w = (if length kept \<noteq> length ls then write_buffer windows kept w2 else w2)"
    using s w1(4) r(1) by (simp add: trim_buffer_def w1_def case_prod_unfold Let_def kept_def k1_def weight_def)
  have k1: "suffix k1 ls" "length k1 \<le> MAX_BUFFER_LINES" using last_n_suffix by (auto simp: k1_def)
  have small: "weight windows k1 \<le> MAX_BUFFER_BYTES" if "\<not> MAX_BUFFER_BYTES < byte_len s"
    using that weight_suffix[OF k1(1), of windows] by (simp add: s' byte_len_file)
  have kk: "suffix kept k1 \<and> weight windows kept \<le> MAX_BUFFER_BYTES \<and>
      (\<forall>zs. suffix zs k1 \<longrightarrow> weight windows zs \<le> MAX_BUFFER_BYTES \<longrightarrow> suffix zs kept)"
    using drop_oldest_longest[OF refl, of windows k1] small by (simp add: kept_def)
  have lf: "longest_fit windows ls kept"
    unfolding longest_fit_def fits_def
    using kk k1 suffix_order.trans suffix_length_le le_trans last_n_longest unfolding k1_def by metis
  then have ck: "list_all clean kept" "suffix kept ls" using cl by (auto simp: longest_fit_def list_all_iff dest: set_mono_suffix)
  have "kept = ls" if "length kept = length ls" using ck(2) that by (metis suffix_order.eq_iff suffix_length_suffix suffix_order.order_refl order_refl)
  moreover have "holds windows (trim_buffer windows w) kept \<and> io_ok (trim_buffer windows w) \<and>
      posted (trim_buffer windows w) = posted w" if "length kept \<noteq> length ls"
    using t that write_buffer_holds[OF r(2) ck(1), of windows] w2(2) by simp
  moreover have "holds windows (trim_buffer windows w) ls \<and> io_ok (trim_buffer windows w) \<and>
      posted (trim_buffer windows w) = posted w" if "length kept = length ls"
    using t that h2 r(2) w2(2) by simp
  ultimately show ?thesis using lf by metis
qed

lemma append_buffer_holds:
  assumes "holds windows w ls" "io_ok w" "clean (dumps e)"
  shows "\<exists>ys. longest_fit windows (ls @ [dumps e]) ys \<and> holds windows (append_buffer windows dumps e w) ys \<and>
    io_ok (append_buffer windows dumps e w) \<and> posted (append_buffer windows dumps e w) = posted w"
proof -
  let ?w = "(snd (io_of w))\<lparr>disk := Some ((case disk w of None \<Rightarrow> [] | Some s \<Rightarrow> s) @ text_mode windows (dumps e @ [10]))\<rparr>"
  have a: "append_buffer windows dumps e w = trim_buffer windows ?w"
    using assms(2) by (simp add: append_buffer_def io_of_def io_ok_def)
  have "holds windows ?w (ls @ [dumps e])"
  proof -
    have "list_all clean ls" "(case disk w of None \<Rightarrow> [] | Some s \<Rightarrow> s) = file_of windows ls"
      using assms(1) by (auto simp: holds_def split: option.splits)
    then show ?thesis unfolding holds_def text_mode_clean[OF assms(3)] using assms(3) by simp
  qed
  moreover have "io_ok ?w" using assms(2) by (simp add: io_of_def io_ok_def)
  moreover have "posted ?w = posted w" by (simp add: io_of_def)
  moreover have "disk ?w \<noteq> None" by simp
  ultimately show ?thesis unfolding a by (metis trim_buffer_holds)
qed

subsection \<open>Delivery\<close>

lemma attempt_frame:
  "attempt e w = (out, w') \<Longrightarrow> disk w' = disk w \<and> io_fails w' = io_fails w \<and> posted w' = posted w @ [e]"
  by (auto simp: attempt_def now_of_def Let_def split: http_answer.splits if_splits)

lemma deliver_loop_frame:
  "deliver_loop n e w = (ok, w') \<Longrightarrow> disk w' = disk w \<and> io_fails w' = io_fails w \<and>
     (\<exists>k\<le>n. posted w' = posted w @ replicate k e \<and> (ok \<longrightarrow> 0 < k))"
proof (induction n arbitrary: w)
  case (Suc n)
  obtain out w1 where a: "attempt e w = (out, w1)" by (cases "attempt e w")
  note f = attempt_frame[OF a]
  show ?case
  proof (cases "out = Retry")
    case True
    with Suc.prems a have "deliver_loop n e w1 = (ok, w')" by simp
    from Suc.IH[OF this] f obtain k where k: "disk w' = disk w" "io_fails w' = io_fails w" "k \<le> n"
      "posted w' = posted w @ e # replicate k e" by auto
    then show ?thesis by (intro conjI exI[of _ "Suc k"]) auto
  next
    case False
    with Suc.prems a have "w' = w1" by (cases out) auto
    with f show ?thesis by (intro conjI exI[of _ 1]) auto
  qed
qed simp

lemma deliver_frame:
  assumes "deliver offline e w = (ok, w')"
  shows "disk w' = disk w \<and> io_fails w' = io_fails w \<and>
     (\<exists>k\<le>SEND_ATTEMPTS. posted w' = posted w @ replicate k e \<and> (ok \<longrightarrow> 0 < k))"
proof (cases "offline \<or> flt (shd (clock w)) (throttled_until w)")
  case True
  with assms have "\<not> ok" "disk w' = disk w" "io_fails w' = io_fails w" "posted w' = posted w"
    by (auto simp: deliver_def now_of_def split: if_splits)
  then show ?thesis by (intro conjI exI[of _ 0]) auto
next
  case False
  with assms have "deliver_loop SEND_ATTEMPTS e (w\<lparr>clock := stl (clock w)\<rparr>) = (ok, w')"
    by (simp add: deliver_def now_of_def)
  from deliver_loop_frame[OF this] show ?thesis by simp
qed

definition fresh :: "http_answer stream \<Rightarrow> rat \<Rightarrow> 'e transport" where
  \<comment> \<open>a new sender without a buffer file, its clock standing still\<close>
  "fresh answers t = \<lparr>disk = None, throttled_until = Fin 0, last_ok_ts = None, last_error = [],
     net = answers, clock = sconst (Fin t), io_fails = sconst False, posted = []\<rparr>"

lemma fresh_holds [simp]: "holds windows (fresh answers t) []" "io_ok (fresh answers t)"
  by (simp_all add: fresh_def holds_def io_ok_def)

text \<open>While the server's back-off runs the agent stays off the network: no request is made and the answers
  of the server are left untouched, whatever is sent.\<close>
theorem throttled_stays_silent:
  assumes "flt (shd (clock w)) (throttled_until w)"
  shows "fst (deliver offline e w) = False \<and> posted (snd (deliver offline e w)) = posted w \<and>
    net (snd (deliver offline e w)) = net w"
  using assms by (auto simp: deliver_def now_of_def)

theorem throttled_stays_silent_witness:
  "posted (snd (deliver False CHR ''e'' ((fresh (sconst RespOk) 90)\<lparr>throttled_until := Fin 100\<rparr>))) = []"
  using throttled_stays_silent[of "(fresh (sconst RespOk) 90)\<lparr>throttled_until := Fin 100\<rparr>" False "CHR ''e''"]
  by (simp add: fresh_def)

text \<open>The pause a server can ask for is clamped: it is positive and at most five minutes, unless the header
  says \<open>nan\<close>, which passes the clamp.\<close>
theorem retry_after_clamped:
  "retry_after raw = NaN \<or> (flt (Fin 0) (retry_after raw) \<and> fle (retry_after raw) (Fin 300))"
proof (cases "float_of_str (strip (case raw of None \<Rightarrow> [] | Some s \<Rightarrow> s))")
  case (Inr x)
  show ?thesis
    by (cases x) (auto simp: retry_after_def Inr fle_def MAX_THROTTLE_SEC_def DEFAULT_THROTTLE_SEC_def)
qed (simp add: retry_after_def fle_def DEFAULT_THROTTLE_SEC_def)

text \<open>With such a header the throttle has no effect: right after the refusal the next delivery goes to the
  network again.\<close>
theorem nan_defeats_throttle:
  assumes "shd (net w) = RespHttp 429 (Some ''nan'')"
  shows "fst (attempt e w) = Throttled \<and> \<not> flt t (throttled_until (snd (attempt e w)))"
proof -
  have "float_of_str (strip ''nan'') = Inr NaN" by code_simp
  then have "retry_after (Some ''nan'') = NaN"
    by (simp add: retry_after_def fle_def MAX_THROTTLE_SEC_def)
  with assms show ?thesis by (cases t) (auto simp: attempt_def now_of_def)
qed

theorem nan_defeats_throttle_witness:
  "fst (attempt CHR ''e'' (fresh (sconst (RespHttp 429 (Some ''nan''))) 90)) = Throttled"
  by (rule conjunct1[OF nan_defeats_throttle]) (simp add: fresh_def)

subsection \<open>Replay\<close>

definition decodes :: "(utext \<Rightarrow> 'e option) \<Rightarrow> utext list \<Rightarrow> 'e list" where
  "decodes loads ls = List.map_filter loads ls"

definition tries :: "nat list \<Rightarrow> 'e list \<Rightarrow> 'e list" where
  \<comment> \<open>each envelope as often as it was posted\<close>
  "tries ks es = concat (map2 replicate ks es)"

lemma map_filter_cons: "List.map_filter f (x # xs) = (case f x of None \<Rightarrow> List.map_filter f xs | Some y \<Rightarrow> y # List.map_filter f xs)"
  by (simp add: List.map_filter_def split: option.split)

lemma flush_loop_frame:
  "flush_loop offline loads ls w = (n, r, w') \<Longrightarrow> disk w' = disk w \<and> io_fails w' = io_fails w \<and>
     n \<le> length ls \<and> r = drop n ls \<and>
     (\<exists>ks. length ks = length (decodes loads (take (Suc n) ls)) \<and> list_all (\<lambda>k. k \<le> SEND_ATTEMPTS) ks \<and>
        list_all (\<lambda>k. 0 < k) (take (length (decodes loads (take n ls))) ks) \<and>
        posted w' = posted w @ tries ks (decodes loads (take (Suc n) ls)))"
proof (induction ls arbitrary: w n r)
  case Nil
  then show ?case by (simp add: decodes_def tries_def List.map_filter_def)
next
  case (Cons l ls)
  show ?case
  proof (cases "loads l")
    case None
    with Cons.prems obtain n' where n: "n = Suc n'" "flush_loop offline loads ls w = (n', r, w')"
      by (cases "flush_loop offline loads ls w") auto
    from Cons.IH[OF n(2)] show ?thesis by (simp add: n(1) decodes_def map_filter_cons None)
  next
    case (Some e)
    obtain ok w1 where d: "deliver offline e w = (ok, w1)" by (cases "deliver offline e w")
    from deliver_frame[OF d] obtain k where f: "disk w1 = disk w" "io_fails w1 = io_fails w" "k \<le> SEND_ATTEMPTS"
      "posted w1 = posted w @ replicate k e" "ok \<longrightarrow> 0 < k" by blast
    show ?thesis
    proof (cases ok)
      case True
      with Cons.prems Some d obtain n' where n: "n = Suc n'" "flush_loop offline loads ls w1 = (n', r, w')"
        by (cases "flush_loop offline loads ls w1") auto
      from Cons.IH[OF n(2)] obtain ks where ks: "disk w' = disk w1" "io_fails w' = io_fails w1" "n' \<le> length ls"
        "r = drop n' ls" "length ks = length (decodes loads (take (Suc n') ls))" "list_all (\<lambda>k. k \<le> SEND_ATTEMPTS) ks"
        "list_all (\<lambda>k. 0 < k) (take (length (decodes loads (take n' ls))) ks)"
        "posted w' = posted w1 @ tries ks (decodes loads (take (Suc n') ls))" by blast
      with f True show ?thesis
        by (intro conjI exI[of _ "k # ks"]) (simp_all add: n(1) decodes_def map_filter_cons Some tries_def)
    next
      case False
      with Cons.prems Some d have "n = 0" "r = l # ls" "w' = w1" by auto
      with f show ?thesis
        by (intro conjI exI[of _ "[k]"]) (simp_all add: decodes_def map_filter_cons Some tries_def List.map_filter_def)
    qed
  qed
qed

lemma flush_frame:
  assumes "holds windows w ls" "io_ok w" "flush_buffer windows offline loads w = (n, w')"
  shows "n \<le> length ls \<and> holds windows w' (drop n ls) \<and>
    (\<exists>ks. length ks = length (decodes loads (take (Suc n) ls)) \<and> list_all (\<lambda>k. k \<le> SEND_ATTEMPTS) ks \<and>
       list_all (\<lambda>k. 0 < k) (take (length (decodes loads (take n ls))) ks) \<and>
       posted w' = posted w @ tries ks (decodes loads (take (Suc n) ls)))"
proof -
  from read_buffer_holds[OF assms(1,2)] obtain w1 where r: "read_buffer w = (ls, w1)" "io_ok w1"
    "w1 = w\<lparr>io_fails := io_fails w1\<rparr>" by blast
  have w1: "posted w1 = posted w" "disk w1 = disk w" by (subst r(3), simp)+
  show ?thesis
  proof (cases "ls = []")
    case True
    with assms(1,3) r w1 show ?thesis
      by (auto simp: flush_buffer_def holds_def decodes_def tries_def List.map_filter_def)
  next
    case False
    obtain n' rest w2 where f: "flush_loop offline loads ls w1 = (n', rest, w2)"
      by (cases "flush_loop offline loads ls w1")
    with assms(3) r(1) False have n: "n' = n" "w' = write_buffer windows rest w2"
      by (auto simp: flush_buffer_def)
    note ff = flush_loop_frame[OF f, unfolded n(1)]
    have "list_all clean rest" using ff assms(1) by (auto simp: holds_def list_all_iff dest: in_set_dropD)
    moreover have "io_ok w2" using ff r(2) by (simp add: io_ok_def)
    ultimately have "holds windows w' rest" "posted w' = posted w2"
      using write_buffer_holds[of w2 rest windows] n(2) by auto
    with ff w1 show ?thesis by simp
  qed
qed

text \<open>Replay is first in, first out and loses nothing: with a sound file system the lines handled are the
  oldest ones, each was corrupt or posted at least once, in order and at most twice each, with one more
  envelope tried when the replay stopped early; the lines left are exactly the rest of the queue.\<close>
theorem flush_is_fifo:
  assumes "holds windows w ls" "io_ok w" "flush_buffer windows offline loads w = (n, w')"
  shows "n \<le> length ls \<and> holds windows w' (drop n ls) \<and>
    (\<exists>ks. length ks = length (decodes loads (take (Suc n) ls)) \<and> list_all (\<lambda>k. k \<le> SEND_ATTEMPTS) ks \<and>
       list_all (\<lambda>k. 0 < k) (take (length (decodes loads (take n ls))) ks) \<and>
       posted w' = posted w @ tries ks (decodes loads (take (Suc n) ls)))"
  using flush_frame[OF assms] .

definition settles :: "http_answer \<Rightarrow> bool" where
  \<comment> \<open>an answer after which the envelope is off the queue: taken, or refused for good\<close>
  "settles a = (case a of RespOk \<Rightarrow> True
     | RespHttp code _ \<Rightarrow> 400 \<le> code \<and> code < 500 \<and> code \<notin> {408, 425, 429}
     | RespDown _ \<Rightarrow> False)"

definition throttles :: "http_answer \<Rightarrow> bool" where
  "throttles a = (case a of RespHttp code _ \<Rightarrow> code \<in> {408, 425, 429} | _ \<Rightarrow> False)"

definition awake :: "'e transport \<Rightarrow> bool" where
  \<comment> \<open>no later reading of the clock lies before the end of the back-off\<close>
  "awake w \<longleftrightarrow> (\<forall>t \<in> sset (clock w). \<not> flt t (throttled_until w))"

lemma awake_stl: "\<forall>t \<in> sset s. P t \<Longrightarrow> P (shd s) \<and> (\<forall>t \<in> sset (stl s). P t)"
  by (metis shd_sset stl_sset)

lemma deliver_settled:
  assumes "awake w" "settles (shd (net w))"
  shows "\<exists>w'. deliver False e w = (True, w') \<and> awake w' \<and> net w' = stl (net w)"
  using assms awake_stl[of "clock w" "\<lambda>t. \<not> flt t (throttled_until w)"]
    awake_stl[of "stl (clock w)" "\<lambda>t. \<not> flt t (throttled_until w)"]
  by (cases "shd (net w)")
    (auto simp: deliver_def now_of_def attempt_def awake_def settles_def SEND_ATTEMPTS_def numeral_2_eq_2 Let_def)

lemma deliver_throttled:
  assumes "awake w" "throttles (shd (net w))"
  shows "fst (deliver False e w) = False"
  using assms awake_stl[of "clock w" "\<lambda>t. \<not> flt t (throttled_until w)"]
  by (cases "shd (net w)")
    (auto simp: deliver_def now_of_def attempt_def awake_def throttles_def SEND_ATTEMPTS_def numeral_2_eq_2 Let_def)

lemma flush_loop_settled:
  assumes "awake w" "list_all settles (stake (length ls) (net w))"
  shows "\<exists>w'. flush_loop False loads ls w = (length ls, [], w')"
  using assms
proof (induction ls arbitrary: w)
  case (Cons l ls)
  show ?case
  proof (cases "loads l")
    case None
    have "list_all settles (stake (length ls) (net w))" using Cons.prems(2) by (simp add: stake_Suc del: stake.simps)
    with Cons.IH[OF Cons.prems(1)] None show ?thesis by auto
  next
    case (Some e)
    from deliver_settled[OF Cons.prems(1), of e] Cons.prems(2) obtain w1 where d: "deliver False e w = (True, w1)" "awake w1"
      "net w1 = stl (net w)" by auto
    with Cons.IH[OF d(2)] Cons.prems(2) Some show ?thesis by auto
  qed
qed simp

lemma flush_loop_stops:
  assumes "awake w" "list_all (\<lambda>l. loads l \<noteq> None) ls" "i < length ls" "list_all settles (stake i (net w))" "throttles (net w !! i)"
  shows "fst (flush_loop False loads ls w) = i"
  using assms
proof (induction ls arbitrary: w i)
  case (Cons l ls)
  from Cons.prems(2) obtain e where e: "loads l = Some e" by auto
  show ?case
  proof (cases i)
    case 0
    then have "fst (deliver False e w) = False" using Cons.prems by (intro deliver_throttled) simp_all
    then show ?thesis using 0 e by (auto split: prod.split)
  next
    case (Suc j)
    with deliver_settled[OF Cons.prems(1), of e] Cons.prems(4) obtain w1 where d: "deliver False e w = (True, w1)" "awake w1"
      "net w1 = stl (net w)" by auto
    with Cons.IH[OF d(2), of j] Cons.prems Suc e show ?thesis by (auto split: prod.split)
  qed
qed simp

text \<open>C34: The backlog drains, oldest first.  The agent being online, the file system sound and the buffer holding lines of text, one replay takes some of the
  oldest lines off and leaves the rest, whatever the server answers.  If no reading of the clock lies before the end of the back-off and the
  server's next answers, one for each line, all take the envelope or refuse it for good, every line is handled and the buffer removed; if all
  lines can be read, an answer that asks to wait, such as 429, after answers of that kind stops the replay at its line and keeps that
  one and those after it.\<close>
theorem flush_drains_when_reachable:
  assumes "holds windows w ls" "io_ok w" "flush_buffer windows False loads w = (n, w')"
  shows "n \<le> length ls \<and> holds windows w' (drop n ls) \<and>
    (awake w \<longrightarrow>
       (list_all settles (stake (length ls) (net w)) \<longrightarrow> n = length ls \<and> (ls \<noteq> [] \<longrightarrow> disk w' = None)) \<and>
       (\<forall>i < length ls. list_all (\<lambda>l. loads l \<noteq> None) ls \<and> list_all settles (stake i (net w)) \<and> throttles (net w !! i) \<longrightarrow> n = i))"
proof -
  have frame: "n \<le> length ls" "holds windows w' (drop n ls)" using flush_frame[OF assms] by auto
  from read_buffer_holds[OF assms(1,2)] obtain w1 where r: "read_buffer w = (ls, w1)" "io_ok w1"
    "w1 = w\<lparr>io_fails := io_fails w1\<rparr>" by blast
  have w1: "net w1 = net w" "throttled_until w1 = throttled_until w" "clock w1 = clock w" by (subst r(3), simp)+
  obtain k rest w2 where f: "flush_loop False loads ls w1 = (k, rest, w2)" by (cases "flush_loop False loads ls w1")
  show ?thesis
  proof (cases "ls = []")
    case True
    then show ?thesis using frame by (auto simp: holds_def split: option.splits)
  next
    case False
    then have nk: "n = k" "w' = write_buffer windows rest w2" using assms(3) f r(1) by (auto simp: flush_buffer_def)
    have aw: "awake w1" if "awake w" using that w1 by (simp add: awake_def)
    have "n = length ls \<and> disk w' = None" if a: "awake w" "list_all settles (stake (length ls) (net w))"
    proof -
      from flush_loop_settled[OF aw[OF a(1)], of ls loads] a(2) f have "k = length ls \<and> rest = []" by (auto simp: w1)
      moreover have "io_ok w2" using flush_loop_frame[OF f] r(2) by (simp add: io_ok_def)
      ultimately show ?thesis using nk by (auto simp: write_buffer_def io_of_def io_ok_def Let_def split: if_splits)
    qed
    moreover have "n = i" if "awake w" "i < length ls" "list_all (\<lambda>l. loads l \<noteq> None) ls" "list_all settles (stake i (net w))"
      "throttles (net w !! i)" for i
      using flush_loop_stops[OF aw[OF that(1)] that(3,2)] that f nk by (simp add: w1)
    ultimately show ?thesis using frame by blast
  qed
qed

theorem flush_drains_when_reachable_witness:
  "\<exists>w'. flush_buffer False False (\<lambda>l. Some l) ((fresh (RespHttp 404 None ## sconst RespOk) 5)\<lparr>disk := Some [123, 125, 10, 91, 93, 10]\<rparr>) = (2, w') \<and>
     disk w' = None"
proof -
  let ?w = "(fresh (RespHttp 404 None ## sconst RespOk) 5)\<lparr>disk := Some [123, 125, 10, 91, 93, 10]\<rparr> :: utext transport"
  have h: "holds False ?w [[123, 125], [91, 93]]"
    by (simp add: holds_def linesep_def clean_def line_break_def u_strip_def u_space_def)
  have io: "io_ok ?w" by (simp add: fresh_def io_ok_def)
  obtain n w' where f: "flush_buffer False False (\<lambda>l. Some l) ?w = (n, w')" by fastforce
  have a: "awake ?w" by (simp add: awake_def fresh_def)
  have "list_all settles (stake (length [[123, 125], [91, 93]]) (net ?w))" by (simp add: fresh_def settles_def)
  with flush_drains_when_reachable[OF h io f] a f show ?thesis by simp
qed

theorem flush_is_fifo_witness:
  "posted (snd (flush_buffer False False (\<lambda>l. Some l) ((fresh (sconst RespOk) 5)\<lparr>disk := Some [123, 125, 10]\<rparr>))) \<noteq> []"
proof -
  let ?w = "(fresh (sconst RespOk) 5)\<lparr>disk := Some [123, 125, 10]\<rparr> :: utext transport"
  have h: "holds False ?w [[123, 125]]"
    by (simp add: holds_def linesep_def clean_def line_break_def u_strip_def u_space_def)
  have io: "io_ok ?w" by (simp add: fresh_def io_ok_def)
  obtain n w' where f: "flush_buffer False False (\<lambda>l. Some l) ?w = (n, w')" by fastforce
  have "n = 1" using f by (simp add: flush_buffer_def read_buffer_def fresh_def io_of_def line_break_def u_strip_def
    u_space_def deliver_def now_of_def SEND_ATTEMPTS_def numeral_2_eq_2 attempt_def Let_def)
  with flush_is_fifo[OF h io f] obtain k where "0 < k" "posted w' = tries [k] [[123, 125]]"
    by (auto simp: decodes_def List.map_filter_def fresh_def length_Suc_conv)
  then show ?thesis using f by (simp add: tries_def)
qed

subsection \<open>Sending\<close>

lemma utf8_byte_length: "utf8_encode s = Inr bytes \<Longrightarrow> length bytes = byte_len s"
  by (auto simp: utf8_encode_def byte_len_def length_concat comp_def split: if_splits)

lemma payload_fits: "utf8_encode l = Inr bytes \<Longrightarrow> length bytes \<le> MAX_PAYLOAD_BYTES \<Longrightarrow> fits windows [l]"
  by (simp add: utf8_byte_length fits_def linesep_def MAX_PAYLOAD_BYTES_def MAX_BUFFER_BYTES_def MAX_BUFFER_LINES_def)

text \<open>C3: No envelope vanishes.  With a sound file system, sending an envelope that JSON writes on one line ends
  in one of three ways: it is over the cap and dropped; it was posted; or it is the newest line of the
  buffer, behind as many older lines as fit the two caps.\<close>
theorem send_posts_or_buffers:
  assumes "holds windows w ls" "io_ok w" "clean (dumps e)" "utf8_encode (dumps e) = Inr bytes"
  shows "case send_envelope windows offline dumps loads e w of
      (Inl _, _) \<Rightarrow> False
    | (Inr True, w') \<Rightarrow> MAX_PAYLOAD_BYTES < length bytes \<or> (\<exists>es. posted w' = posted w @ e # es)
    | (Inr False, w') \<Rightarrow> \<exists>ys. longest_fit windows (ls @ [dumps e]) (ys @ [dumps e]) \<and> holds windows w' (ys @ [dumps e])"
proof (cases "MAX_PAYLOAD_BYTES < length bytes")
  case True
  then show ?thesis by (simp add: send_envelope_def assms(4))
next
  case False
  obtain ok w1 where d: "deliver offline e w = (ok, w1)" by (cases "deliver offline e w")
  from deliver_frame[OF d] obtain k where f: "disk w1 = disk w" "io_fails w1 = io_fails w"
    "posted w1 = posted w @ replicate k e" "ok \<longrightarrow> 0 < k" by blast
  from f(1,2) assms(1,2) have h1: "holds windows w1 ls" "io_ok w1" by (simp_all add: holds_def io_ok_def)
  show ?thesis
  proof (cases ok)
    case True
    obtain n w2 where fl: "flush_buffer windows offline loads w1 = (n, w2)" by fastforce
    from flush_frame[OF h1 fl] obtain es where "posted w2 = posted w1 @ es" by blast
    moreover from f(4) True obtain j where "k = Suc j" by (cases k) auto
    ultimately show ?thesis using d True False fl f(3) by (auto simp: send_envelope_def assms(4))
  next
    case no: False
    from append_buffer_holds[OF h1, of dumps e, OF assms(3)] obtain ys where ys: "longest_fit windows (ls @ [dumps e]) ys"
      "holds windows (append_buffer windows dumps e w1) ys" by blast
    have "fits windows [dumps e]" using payload_fits[OF assms(4)] False by simp
    then have "suffix [dumps e] ys" using ys(1) by (auto simp: longest_fit_def suffix_def)
    then obtain zs where "ys = zs @ [dumps e]" by (auto simp: suffix_def)
    with ys d no False show ?thesis by (auto simp: send_envelope_def assms(4))
  qed
qed

theorem send_posts_or_buffers_witness:
  "\<exists>ys. holds False (snd (send_envelope False True id Some [123, 125] (fresh (sconst RespOk) 5))) (ys @ [[123, 125]])"
proof -
  let ?r = "send_envelope False True id Some [123, 125] (fresh (sconst RespOk) 5)"
  have c: "clean (id [123, 125])" by (simp add: clean_def line_break_def u_strip_def u_space_def)
  have u: "utf8_encode (id [123, 125]) = Inr [123, 125]"
    by (simp add: utf8_encode_def utf8_char_def scalar_def)
  have "fst ?r = Inr False"
    by (simp add: send_envelope_def u[unfolded id_def] id_def deliver_def MAX_PAYLOAD_BYTES_def)
  then obtain w' where r: "?r = (Inr False, w')" by (metis prod.collapse)
  have "case ?r of (Inl _, _) \<Rightarrow> False
    | (Inr True, w') \<Rightarrow> MAX_PAYLOAD_BYTES < length [123 :: 8 word, 125] \<or> (\<exists>es. posted w' = posted (fresh (sconst RespOk) 5) @ [123, 125] # es)
    | (Inr False, w') \<Rightarrow> \<exists>ys. longest_fit False ([] @ [id [123, 125]]) (ys @ [id [123, 125]]) \<and> holds False w' (ys @ [id [123, 125]])"
    by (rule send_posts_or_buffers[where dumps = id, OF fresh_holds c u])
  then show ?thesis by (auto simp: r)
qed

subsection \<open>Line separators inside an envelope\<close>

lemma text_mode_no_nl: "list_all (\<lambda>c. c \<noteq> 10) s \<Longrightarrow> text_mode windows (s @ [10]) = s @ linesep windows"
  by (induction s) (auto simp: text_mode_def)

lemma last_n_short: "length xs \<le> n \<Longrightarrow> last_n n xs = xs"
  by (simp add: last_n_def)

text \<open>An envelope whose JSON holds a Unicode line separator does not survive the buffer.  JSON leaves U+2028,
  U+2029 and U+0085 unescaped and the replay splits on them, so the envelope comes back as two
  fragments; neither is JSON, both count as handled, and nothing is posted although the server answers.\<close>
theorem separator_loses_envelope:
  assumes "dumps e = p @ c # q" "c = 0x85 \<or> c = 0x2028 \<or> c = 0x2029" "clean p" "clean q"
    "loads p = None" "loads q = None" "disk w = None" "io_ok w" "byte_len (dumps e) \<le> MAX_PAYLOAD_BYTES"
  shows "fst (flush_buffer windows offline loads (append_buffer windows dumps e w)) = 2 \<and>
    posted (snd (flush_buffer windows offline loads (append_buffer windows dumps e w))) = posted w \<and>
    disk (snd (flush_buffer windows offline loads (append_buffer windows dumps e w))) = None"
proof -
  let ?s = "dumps e @ linesep windows"
  have br: "line_break c" "c \<noteq> 13" "c \<noteq> 10" using assms(2) by (auto simp: line_break_def)
  have nl: "list_all (\<lambda>c. c \<noteq> 10 \<and> c \<noteq> 13) (dumps e)"
    using br clean_no_nl[OF assms(3)] clean_no_nl[OF assms(4)] assms(1) by simp
  then have tm: "text_mode windows (dumps e @ [10]) = ?s"
    by (intro text_mode_no_nl) (auto simp: list_all_iff)
  have "universal_nl ?s = dumps e @ [10]" using universal_nl_app[OF nl, of windows "[]"] by simp
  also have "splitlines [] (dumps e @ [10]) = [p, q]"
    using assms(3,4) br by (simp add: assms(1) splitlines_app clean_def) (simp add: splitlines_app line_break_def)
  finally have sp: "splitlines [] (universal_nl ?s) = [p, q]" .
  have rd: "read_buffer v = ([p, q], snd (io_of v))" if "disk v = Some ?s" "io_ok v" for v :: "'a transport"
    using that assms(3,4) by (simp add: read_buffer_def io_of_def io_ok_def sp clean_def)
  have small: "\<not> MAX_BUFFER_BYTES < byte_len ?s"
    using assms(9) by (simp add: byte_len_def linesep_def utf8_char_def MAX_PAYLOAD_BYTES_def MAX_BUFFER_BYTES_def)
  let ?w = "w\<lparr>disk := Some ?s, io_fails := sconst False\<rparr>"
  have io: "io_fails w = sconst False" using assms(8) by (simp add: io_ok_def)
  have swap: "w\<lparr>io_fails := sconst False, disk := Some ?s\<rparr> = ?w" by (cases w) simp
  have "append_buffer windows dumps e w = trim_buffer windows ?w"
    using assms(7) io tm by (simp add: append_buffer_def io_of_def swap del: text_mode_append)
  also have "\<dots> = ?w"
    using rd[of ?w] small
    by (simp add: trim_buffer_def io_of_def io_ok_def last_n_short MAX_BUFFER_LINES_def)
  finally show ?thesis
    using rd[of ?w] assms(5,6) by (simp add: flush_buffer_def io_of_def io_ok_def write_buffer_def)
qed

theorem separator_loses_envelope_witness:
  "fst (flush_buffer False False (\<lambda>l. None) (append_buffer False (\<lambda>e. [123, 34, 0x2028, 34, 125]) CHR ''e'' (fresh (sconst RespOk) 5))) = 2"
  by (rule conjunct1[OF separator_loses_envelope[where p = "[123, 34]" and q = "[34, 125]" and c = "0x2028"]])
    (simp_all add: clean_def line_break_def u_strip_def u_space_def fresh_def io_ok_def byte_len_def utf8_char_def MAX_PAYLOAD_BYTES_def)

end
