(* ===== verification/Updater.thy ===== *)
theory Updater
  imports PyFloat "HOL-Library.Stream" "HOL-Library.Word"
begin

text \<open>
  The agent's self-update (\<open>client/updater.py\<close>): fetch the manifest, decide, verify, stage and hand over to
  a task that runs as SYSTEM.  The digests (\<open>sha256\<close>, \<open>hmac\<close>), the directory of a zip archive (\<open>members\<close>,
  names with their sizes; \<^const>\<open>None\<close> for a file that is no zip) and the text of composite values
  (\<open>repr\<close>) are the standard library's and parameters.  The server's answers, the clock, file errors and the
  exit codes of \<open>schtasks\<close> are streams; every request and command is recorded.  The messages of a
  failure are the constructors of \<open>failure\<close>; text is Latin-1.
\<close>

definition MAX_PACKAGE_SIZE :: int where "MAX_PACKAGE_SIZE = 200 * 1024 * 1024"
definition MAX_UNCOMPRESSED_SIZE :: int where "MAX_UNCOMPRESSED_SIZE = MAX_PACKAGE_SIZE * 10"
definition MAX_ATTEMPTS :: int where "MAX_ATTEMPTS = 3"
definition STALE_STAGE_SEC :: pyfloat where "STALE_STAGE_SEC = Fin 900"
definition REQUIRED_MEMBERS :: "string list" where "REQUIRED_MEMBERS = [''setup.exe'', ''payload/srp-agent.exe'']"

subsection \<open>Reading the manifest\<close>

definition parse_agent_version :: "jval \<Rightarrow> (int \<times> int \<times> int) option" where
  "parse_agent_version v = (case v of
     JStr s \<Rightarrow> (if s = [] then None else
       (case split_on CHR ''.'' s of
          [a, b, c] \<Rightarrow> (case (py_int a, py_int b, py_int c) of
             (Inr x, Inr y, Inr z) \<Rightarrow> Some (x, y, z) | _ \<Rightarrow> None)
        | _ \<Rightarrow> None))
   | _ \<Rightarrow> None)"

definition is_hexdig :: "char \<Rightarrow> bool" where
  "is_hexdig c \<longleftrightarrow> (let n = (of_char c :: nat) in 48 \<le> n \<and> n \<le> 57 \<or> 65 \<le> n \<and> n \<le> 70 \<or> 97 \<le> n \<and> n \<le> 102)"

fun hex_us :: "string \<Rightarrow> bool" where
  \<comment> \<open>digits, single underscores between them\<close>
  "hex_us [] = False"
| "hex_us [c] = is_hexdig c"
| "hex_us (c # d # s) = (is_hexdig c \<and> (if d = CHR ''_'' then hex_us s else hex_us (d # s)))"

definition int16_ok :: "string \<Rightarrow> bool" where
  \<comment> \<open>\<open>int(s, 16)\<close> does not raise\<close>
  "int16_ok s0 =
     (let s = strip s0;
          s = (if s \<noteq> [] \<and> (hd s = CHR ''+'' \<or> hd s = CHR ''-'') then tl s else s);
          s = (if take 2 s = ''0x'' \<or> take 2 s = ''0X''
               then (if take 1 (drop 2 s) = ''_'' then drop 3 s else drop 2 s) else s)
      in hex_us s)"

definition is_sha256_hex :: "jval \<Rightarrow> bool" where
  "is_sha256_hex v = (case v of
     JStr s \<Rightarrow> length s = 64 \<and> s = lower s \<and> int16_ok s | _ \<Rightarrow> False)"

definition select_update :: "jobj \<Rightarrow> string \<Rightarrow> bool \<Rightarrow> jobj option" where
  "select_update manifest current_version has_token =
     (case (parse_agent_version (jget manifest ''version''), parse_agent_version (JStr current_version)) of
        (Some remote, Some current) \<Rightarrow>
          if \<not> is_sha256_hex (jget manifest ''sha256'') then None
          else (case jget manifest ''size'' of
                  JInt psz \<Rightarrow>
                    if \<not> (0 < psz \<and> psz \<le> MAX_PACKAGE_SIZE) then None
                    else if has_token \<and> \<not> truthy (jget manifest ''hmac'') then None
                    else if remote \<le> current then None
                    else Some manifest
                | _ \<Rightarrow> None)
      | _ \<Rightarrow> None)"

definition py_str :: "(jval \<Rightarrow> string) \<Rightarrow> jval \<Rightarrow> string" where
  "py_str repr v = (case v of
     JNull \<Rightarrow> ''None'' | JBool b \<Rightarrow> if b then ''True'' else ''False'' | JInt i \<Rightarrow> int_str i
   | JStr s \<Rightarrow> s | _ \<Rightarrow> repr v)"

definition text_of :: "jval \<Rightarrow> string" where
  \<comment> \<open>a field already known to be text\<close>
  "text_of v = (case v of JStr s \<Rightarrow> s | _ \<Rightarrow> [])"

definition num_of :: "jval \<Rightarrow> int" where
  "num_of v = (case v of JInt i \<Rightarrow> i | _ \<Rightarrow> 0)"

definition compute_hmac :: "(string \<Rightarrow> string \<Rightarrow> string) \<Rightarrow> string \<Rightarrow> string \<Rightarrow> string \<Rightarrow> string" where
  "compute_hmac hmac token version sha256_hex = hmac token (version @ ''|'' @ sha256_hex)"

definition is_ascii :: "string \<Rightarrow> bool" where
  "is_ascii s \<longleftrightarrow> list_all (\<lambda>c. (of_char c :: nat) < 128) s"

definition digests_equal :: "string \<Rightarrow> string \<Rightarrow> bool res" where
  \<comment> \<open>\<open>hmac.compare_digest\<close> of texts refuses non-ASCII ones\<close>
  "digests_equal a b = (if is_ascii a \<and> is_ascii b then Inr (a = b) else Inl TypeError)"

subsection \<open>The archive\<close>

definition segments :: "string \<Rightarrow> string list" where
  "segments name = split_on CHR ''/'' (map (\<lambda>c. if c = CHR 0x5C then CHR ''/'' else c) name)"

definition check_member_name :: "string \<Rightarrow> unit res" where
  "check_member_name name =
     (if name = [] \<or> hd name = CHR ''/'' \<or> hd name = CHR 0x5C \<or> CHR '':'' \<in> set name then Inl ValueError
      else if ''..'' \<in> set (segments name) then Inl ValueError
      else Inr ())"

definition in_tree :: "string \<Rightarrow> string list \<Rightarrow> bool" where
  \<comment> \<open>a path exists once these members are extracted: as a file or as a directory\<close>
  "in_tree rel names \<longleftrightarrow> list_ex (\<lambda>n. segments n = segments rel \<or>
     take (length (segments rel)) (segments n) = segments rel) names"

subsection \<open>State and surroundings\<close>

datatype state_file = NoFile | NotUtf8 | NotJson | Json jval

datatype failure = NotApplied | AttemptLimit | BadSignature | DownloadFailed | CorruptPackage
  | TaskCreateFailed | TaskRunFailed

record status =
  us_state :: string
  us_error :: "failure option"
  us_available :: jval

datatype fetched = FetchedDict jobj | FetchedOther | Fetched404 | FetchError | FetchRaises pyerr

datatype body = Complete "8 word list list" | Interrupted "8 word list list"
  \<comment> \<open>the chunks read, to the end or until the connection broke\<close>

datatype event = ManifestRequest | PackageRequest | TaskCreate | TaskRun

record updater =
  state_json :: state_file
  pkg :: "8 word list option"
  staged :: "string list option"
  last_status :: "(string \<times> jval) option"
  up_clock :: "pyfloat stream"
  up_io :: "bool stream"
  manifests :: "fetched stream"
  bodies :: "body stream"
  exit_codes :: "int stream"
  events :: "event list"

record update_config =
  uc_hmac_secret :: string
  uc_ingest_token :: string
  uc_offline :: bool
  uc_channel :: string

definition signing_secret :: "update_config \<Rightarrow> string" where
  "signing_secret cfg = (if uc_hmac_secret cfg \<noteq> [] then uc_hmac_secret cfg else uc_ingest_token cfg)"

definition io_next :: "updater \<Rightarrow> bool \<times> updater" where
  "io_next w = (shd (up_io w), w\<lparr>up_io := stl (up_io w)\<rparr>)"

definition log_event :: "event \<Rightarrow> updater \<Rightarrow> updater" where
  "log_event e w = w\<lparr>events := events w @ [e]\<rparr>"

definition run_schtasks :: "event \<Rightarrow> updater \<Rightarrow> int \<times> updater" where
  \<comment> \<open>a command that cannot be started or hangs has exit code 1\<close>
  "run_schtasks e w = (shd (exit_codes w), log_event e (w\<lparr>exit_codes := stl (exit_codes w)\<rparr>))"

definition read_state :: "updater \<Rightarrow> jobj option res" where
  \<comment> \<open>\<open>UnicodeDecodeError\<close> is a \<open>ValueError\<close> but no \<open>JSONDecodeError\<close> and escapes\<close>
  "read_state w = (case state_json w of
     NoFile \<Rightarrow> Inr None | NotUtf8 \<Rightarrow> Inl UnicodeError | NotJson \<Rightarrow> Inr None
   | Json v \<Rightarrow> Inr (case v of JObj d \<Rightarrow> Some d | _ \<Rightarrow> None))"

definition write_state :: "jobj \<Rightarrow> updater \<Rightarrow> unit res \<times> updater" where
  \<comment> \<open>only the error of the write is suppressed, not that of \<open>mkdir\<close>\<close>
  "write_state d w0 =
     (let (no_dir, w) = io_next w0
      in if no_dir then (Inl OSError, w)
         else let (failed, w) = io_next w
              in (Inr (), if failed then w else w\<lparr>state_json := Json (JObj d)\<rparr>))"

definition clear_state :: "updater \<Rightarrow> updater" where
  "clear_state w0 =
     (let (failed1, w) = io_next w0; w = (if failed1 then w else w\<lparr>state_json := NoFile\<rparr>);
          (failed2, w) = io_next w
      in if failed2 then w else w\<lparr>pkg := None\<rparr>)"

definition attempts_for :: "string \<Rightarrow> updater \<Rightarrow> int res" where
  "attempts_for target w = bindE (read_state w) (\<lambda>st. case st of
     None \<Rightarrow> Inr 0
   | Some d \<Rightarrow>
       if \<not> py_eq (jget d ''target_version'') (JStr target) then Inr 0
       else (case dict_get d ''attempts'' of
               None \<Rightarrow> Inr 0
             | Some (JInt i) \<Rightarrow> Inr i
             | Some (JBool b) \<Rightarrow> Inr (if b then 1 else 0)
             | Some (JStr s) \<Rightarrow> Inr (case py_int s of Inr i \<Rightarrow> i | Inl _ \<Rightarrow> 0)
             | Some (JFloat (Fin q)) \<Rightarrow> Inr (if q < 0 then - \<lfloor>- q\<rfloor> else \<lfloor>q\<rfloor>)
             | Some (JFloat NaN) \<Rightarrow> Inr 0
             | Some (JFloat _) \<Rightarrow> Inl OverflowError
             | Some _ \<Rightarrow> Inr 0))"

subsection \<open>Status\<close>

definition ok_status :: "jval \<Rightarrow> status" where
  "ok_status available = \<lparr>us_state = ''ok'', us_error = None, us_available = available\<rparr>"

definition failed_status :: "jval \<Rightarrow> failure \<Rightarrow> status" where
  "failed_status target e = \<lparr>us_state = ''failed'', us_error = Some e, us_available = target\<rparr>"

definition gate :: "status \<Rightarrow> updater \<Rightarrow> status option \<times> updater" where
  \<comment> \<open>unchanged good news is not repeated\<close>
  "gate p w =
     (if us_state p \<noteq> ''failed'' \<and> (case last_status w of None \<Rightarrow> False
          | Some (s, a) \<Rightarrow> s = us_state p \<and> py_eq (us_available p) a)
      then (None, w)
      else (Some p, w\<lparr>last_status := Some (us_state p, us_available p)\<rparr>))"

definition gated :: "status \<Rightarrow> bool \<Rightarrow> updater \<Rightarrow> (status option \<times> bool) res \<times> updater" where
  "gated p restart w = (let (q, w) = gate p w in (Inr (q, restart), w))"

subsection \<open>Download and extraction\<close>

fun collect :: "int \<Rightarrow> 8 word list \<Rightarrow> 8 word list list \<Rightarrow> 8 word list option" where
  \<comment> \<open>the octets read; none once they exceed the psz promised\<close>
  "collect psz acc [] = Some acc"
| "collect psz acc (c # cs) =
     (if c = [] then Some acc
      else if psz < int (length acc + length c) then None
      else collect psz (acc @ c) cs)"

definition download :: "(8 word list \<Rightarrow> string) \<Rightarrow> string \<Rightarrow> int \<Rightarrow> updater \<Rightarrow> 8 word list option res \<times> updater" where
  "download sha256 expected_sha256 expected_size w0 =
     (let (no_dir, w) = io_next w0
      in if no_dir then (Inl OSError, w)
         else let w1 = log_event PackageRequest (w\<lparr>bodies := stl (bodies w)\<rparr>);
                  got = (case shd (bodies w) of
                    Interrupted cs \<Rightarrow> None | Complete cs \<Rightarrow> collect expected_size [] cs);
                  (failed, w2) = io_next w1
              in case got of
                   None \<Rightarrow> (Inr None, w2)
                 | Some bs \<Rightarrow>
                     if failed then (Inr None, w2)
                     else if int (length bs) \<noteq> expected_size \<or> sha256 bs \<noteq> expected_sha256 then (Inr None, w2)
                     else let (no_replace, w3) = io_next w2
                          in if no_replace then (Inl OSError, w3)
                             else (Inr (Some bs), w3\<lparr>pkg := Some bs\<rparr>))"

definition safe_extract ::
  "(8 word list \<Rightarrow> (string \<times> nat) list option) \<Rightarrow> 8 word list \<Rightarrow> updater \<Rightarrow> unit res \<times> updater" where
  "safe_extract members bs w0 =
     (case members bs of
        None \<Rightarrow> (Inl BadZipFile, w0)
      | Some infos \<Rightarrow>
          (case mapE (\<lambda>i. check_member_name (fst i)) infos of
             Inl e \<Rightarrow> (Inl e, w0)
           | Inr _ \<Rightarrow>
               if MAX_UNCOMPRESSED_SIZE < int (sum_list (map snd infos)) then (Inl ValueError, w0)
               else let (failed, w) = io_next w0
                    in if failed then (Inl OSError, w\<lparr>staged := None\<rparr>)
                       else let names = map fst infos; w = w\<lparr>staged := Some names\<rparr>
                            in if list_all (\<lambda>rel. in_tree rel names) REQUIRED_MEMBERS then (Inr (), w)
                               else (Inl ValueError, w)))"

subsection \<open>Checking and applying\<close>

definition hand_over ::
  "(8 word list \<Rightarrow> (string \<times> nat) list option) \<Rightarrow> string \<Rightarrow> 8 word list \<Rightarrow> updater
   \<Rightarrow> (status option \<times> bool) res \<times> updater" where
  \<comment> \<open>\<open>_apply\<close> once the package is verified\<close>
  "hand_over members remote bs w =
     (case safe_extract members bs w of (r3, w) \<Rightarrow>
     (case r3 of
        Inl e \<Rightarrow> if e = ValueError \<or> e = OSError
          then gated (failed_status (JStr remote) CorruptPackage) False w else (Inl e, w)
      | Inr _ \<Rightarrow> (case run_schtasks TaskCreate w of (code, w) \<Rightarrow>
          if code \<noteq> 0 then gated (failed_status (JStr remote) TaskCreateFailed) False w
          else (case run_schtasks TaskRun w of (code, w) \<Rightarrow>
            if code \<noteq> 0 then gated (failed_status (JStr remote) TaskRunFailed) False w
            else gated \<lparr>us_state = ''updating'', us_error = None, us_available = JStr remote\<rparr> True w))))"

definition apply_update ::
  "(8 word list \<Rightarrow> string) \<Rightarrow> (string \<Rightarrow> string \<Rightarrow> string) \<Rightarrow> (8 word list \<Rightarrow> (string \<times> nat) list option)
   \<Rightarrow> (jval \<Rightarrow> string) \<Rightarrow> update_config \<Rightarrow> jobj \<Rightarrow> string \<Rightarrow> int \<Rightarrow> updater
   \<Rightarrow> (status option \<times> bool) res \<times> updater" where
  "apply_update sha256 hmac members repr cfg manifest remote attempts w0 =
     (let token = signing_secret cfg;
          sha = text_of (jget manifest ''sha256'');
          given = py_str repr (case dict_get manifest ''hmac'' of None \<Rightarrow> JStr [] | Some v \<Rightarrow> v);
          signed = (if token = [] then Inr True
                    else digests_equal (compute_hmac hmac token remote sha) given)
      in case signed of
           Inl e \<Rightarrow> (Inl e, w0)
         | Inr False \<Rightarrow> gated (failed_status (JStr remote) BadSignature) False w0
         | Inr True \<Rightarrow>
             let (r1, w) = write_state [(''target_version'', JStr remote), (''attempts'', JInt (attempts + 1)),
                   (''staged_at'', JFloat (shd (up_clock w0)))] (w0\<lparr>up_clock := stl (up_clock w0)\<rparr>)
             in case r1 of
                  Inl e \<Rightarrow> (Inl e, w)
                | Inr _ \<Rightarrow> (case download sha256 sha (num_of (jget manifest ''size'')) w of (r2, w) \<Rightarrow>
                  (case r2 of
                     Inl e \<Rightarrow> (Inl e, w)
                   | Inr None \<Rightarrow> gated (failed_status (JStr remote) DownloadFailed) False w
                   | Inr (Some bs) \<Rightarrow> hand_over members remote bs w)))"

definition check_update ::
  "(8 word list \<Rightarrow> string) \<Rightarrow> (string \<Rightarrow> string \<Rightarrow> string) \<Rightarrow> (8 word list \<Rightarrow> (string \<times> nat) list option)
   \<Rightarrow> (jval \<Rightarrow> string) \<Rightarrow> bool \<Rightarrow> update_config \<Rightarrow> string \<Rightarrow> updater
   \<Rightarrow> (status option \<times> bool) res \<times> updater" where
  "check_update sha256 hmac members repr frozen cfg current w0 =
     (if uc_offline cfg \<or> uc_channel cfg = ''none'' then (Inr (None, False), w0)
      else let w = log_event ManifestRequest (w0\<lparr>manifests := stl (manifests w0)\<rparr>)
           in case shd (manifests w0) of
                FetchRaises e \<Rightarrow> (Inl e, w)
              | FetchError \<Rightarrow> (Inr (None, False), w)
              | Fetched404 \<Rightarrow> gated (ok_status JNull) False w
              | f \<Rightarrow>
                  (case select_update (case f of FetchedDict d \<Rightarrow> d | _ \<Rightarrow> []) current (signing_secret cfg \<noteq> []) of
                     None \<Rightarrow> gated (ok_status JNull) False w
                   | Some update \<Rightarrow>
                       let remote = text_of (jget update ''version'')
                       in if \<not> frozen \<or> signing_secret cfg = [] then gated (ok_status (JStr remote)) False w
                          else (case attempts_for remote w of
                                  Inl e \<Rightarrow> (Inl e, w)
                                | Inr attempts \<Rightarrow>
                                    if MAX_ATTEMPTS \<le> attempts
                                    then gated (failed_status (JStr remote) AttemptLimit) False w
                                    else apply_update sha256 hmac members repr cfg update remote attempts w)))"

definition age_of :: "pyfloat \<Rightarrow> jval \<Rightarrow> pyfloat res option" where
  \<comment> \<open>\<open>time.time() - staged_at\<close>, when \<open>staged_at\<close> is a number\<close>
  "age_of now v = (case v of
     JInt i \<Rightarrow> Some (bindE (float_of_int i) (\<lambda>f. Inr (fadd now (fneg f))))
   | JBool b \<Rightarrow> Some (Inr (fadd now (Fin (if b then - 1 else 0))))
   | JFloat f \<Rightarrow> Some (Inr (fadd now (fneg f)))
   | _ \<Rightarrow> None)"

definition reconcile_after_restart :: "string \<Rightarrow> updater \<Rightarrow> status option res \<times> updater" where
  "reconcile_after_restart current w =
     (case read_state w of
        Inl e \<Rightarrow> (Inl e, w)
      | Inr None \<Rightarrow> (Inr None, w)
      | Inr (Some d) \<Rightarrow>
          let target = jget d ''target_version''
          in if py_eq target (JStr current) then (Inr (Some (ok_status JNull)), clear_state w)
             else (case age_of (shd (up_clock w)) (jget d ''staged_at'') of
                     None \<Rightarrow> (Inr None, w)
                   | Some (Inl e) \<Rightarrow> (Inl e, w\<lparr>up_clock := stl (up_clock w)\<rparr>)
                   | Some (Inr age) \<Rightarrow>
                       (Inr (if fle age STALE_STAGE_SEC then None else Some (failed_status target NotApplied)),
                        w\<lparr>up_clock := stl (up_clock w)\<rparr>)))"

subsection \<open>What each step leaves alone\<close>

definition same_store :: "updater \<Rightarrow> updater \<Rightarrow> bool" where
  \<comment> \<open>the state file, the verified package and the record of requests and commands\<close>
  "same_store w w' \<longleftrightarrow> state_json w' = state_json w \<and> pkg w' = pkg w \<and> events w' = events w"

lemma gated_frame: "gated p b w = (r, w') \<Longrightarrow> same_store w w' \<and> up_io w' = up_io w \<and> manifests w' = manifests w"
  by (auto simp: gated_def gate_def same_store_def split: if_splits)

lemma gated_result: "\<exists>q w'. gated p b w = (Inr (q, b), w')"
  by (cases "gate p w") (simp add: gated_def)

lemma write_state_frame:
  "write_state d w = (r, w') \<Longrightarrow> pkg w' = pkg w \<and> events w' = events w \<and> manifests w' = manifests w \<and>
     (state_json w' = state_json w \<or> state_json w' = Json (JObj d))"
  by (auto simp: write_state_def io_next_def split: if_splits)

lemma write_state_ok:
  "up_io w = sconst False \<Longrightarrow> write_state d w = (Inr (), w\<lparr>state_json := Json (JObj d)\<rparr>)"
  by (cases w) (auto simp: write_state_def io_next_def)

lemma collect_length: "collect psz acc cs = Some bs \<Longrightarrow> int (length acc) \<le> psz \<Longrightarrow> int (length bs) \<le> psz"
  by (induction psz acc cs rule: collect.induct) (auto split: if_splits)

lemma download_frame:
  assumes "download sha256 es psz w = (r, w')"
  shows "state_json w' = state_json w \<and> manifests w' = manifests w \<and>
    (events w' = events w \<or> events w' = events w @ [PackageRequest]) \<and>
    (\<forall>bs. r = Inr (Some bs) \<longrightarrow> sha256 bs = es \<and> int (length bs) = psz \<and> pkg w' = Some bs)"
  using assms by (auto simp: download_def io_next_def log_event_def Let_def split: if_splits option.splits body.splits)

lemma download_io:
  "up_io w = sconst False \<Longrightarrow> download sha256 es psz w = (r, w') \<Longrightarrow>
     up_io w' = sconst False \<and> events w' = events w @ [PackageRequest]"
  by (auto simp: download_def io_next_def log_event_def Let_def split: if_splits option.splits body.splits)

lemma extract_frame:
  "safe_extract members bs w = (r, w') \<Longrightarrow> same_store w w' \<and> manifests w' = manifests w"
  by (auto simp: safe_extract_def io_next_def same_store_def Let_def split: option.splits sum.splits if_splits)

lemma extract_io:
  "up_io w = sconst False \<Longrightarrow> safe_extract members bs w = (r, w') \<Longrightarrow> up_io w' = sconst False"
  by (auto simp: safe_extract_def io_next_def Let_def split: option.splits sum.splits if_splits)

lemma mapE_unit_all: "mapE f xs = Inr ys \<Longrightarrow> \<forall>x\<in>set xs. f x = Inr (() :: unit)"
  by (auto simp: mapE_Inr_conv list_all2_conv_all_nth set_conv_nth)

lemma extract_ok:
  assumes "safe_extract members bs w = (Inr u, w')"
  shows "\<exists>infos. members bs = Some infos \<and> (\<forall>i\<in>set infos. check_member_name (fst i) = Inr ()) \<and>
    int (sum_list (map snd infos)) \<le> MAX_UNCOMPRESSED_SIZE \<and> staged w' = Some (map fst infos)"
  using assms mapE_unit_all[of "\<lambda>i. check_member_name (fst i)"]
  by (auto simp: safe_extract_def io_next_def Let_def split: option.splits sum.splits if_splits)

lemma schtasks_frame:
  "run_schtasks e w = (code, w') \<Longrightarrow> state_json w' = state_json w \<and> pkg w' = pkg w \<and> events w' = events w @ [e] \<and>
     up_io w' = up_io w \<and> manifests w' = manifests w \<and> staged w' = staged w"
  by (auto simp: run_schtasks_def log_event_def)

subsection \<open>Applying\<close>

definition genuine where
  \<comment> \<open>the package is the one the manifest signed, whole and harmless\<close>
  "genuine sha256 hmac members repr cfg manifest remote w \<longleftrightarrow>
     (\<exists>bs infos. pkg w = Some bs \<and> sha256 bs = text_of (jget manifest ''sha256'') \<and>
        int (length bs) = num_of (jget manifest ''size'') \<and> members bs = Some infos \<and>
        (\<forall>i\<in>set infos. check_member_name (fst i) = Inr ()) \<and>
        int (sum_list (map snd infos)) \<le> MAX_UNCOMPRESSED_SIZE)"

definition signed where
  "signed hmac repr cfg manifest remote \<longleftrightarrow> compute_hmac hmac (signing_secret cfg) remote (text_of (jget manifest ''sha256'')) =
     py_str repr (case dict_get manifest ''hmac'' of None \<Rightarrow> JStr [] | Some v \<Rightarrow> v)"

lemma apply_unsigned:
  assumes "apply_update sha256 hmac members repr cfg manifest remote n w = (r, w')"
    "signing_secret cfg \<noteq> []" "\<not> signed hmac repr cfg manifest remote"
  shows "same_store w w' \<and> manifests w' = manifests w \<and> up_io w' = up_io w"
  using assms gated_frame by (auto simp: apply_update_def signed_def digests_equal_def same_store_def Let_def split: if_splits)

text \<open>After the package is in: extraction and the two commands.\<close>

lemma hand_over_frame:
  assumes "hand_over members remote bs w = (r, w')"
  shows "state_json w' = state_json w \<and> pkg w' = pkg w \<and> manifests w' = manifests w \<and>
    (\<exists>es. events w' = events w @ es \<and> PackageRequest \<notin> set es \<and>
       (TaskRun \<in> set es \<longrightarrow> (\<exists>infos. members bs = Some infos \<and> (\<forall>i\<in>set infos. check_member_name (fst i) = Inr ()) \<and>
          int (sum_list (map snd infos)) \<le> MAX_UNCOMPRESSED_SIZE)))"
proof -
  obtain r3 w3 where x: "safe_extract members bs w = (r3, w3)" by (cases "safe_extract members bs w")
  note f3 = extract_frame[OF x, unfolded same_store_def]
  show ?thesis
  proof (cases r3)
    case (Inl e)
    with assms x have "w' = w3 \<or> gated (failed_status (JStr remote) CorruptPackage) False w3 = (r, w')"
      by (auto simp: hand_over_def split: if_splits)
    with f3 gated_frame show ?thesis by (fastforce simp: same_store_def)
  next
    case (Inr u)
    from extract_ok x Inr obtain infos where i: "members bs = Some infos"
      "\<forall>i\<in>set infos. check_member_name (fst i) = Inr ()" "int (sum_list (map snd infos)) \<le> MAX_UNCOMPRESSED_SIZE" by blast
    obtain c4 w4 where y: "run_schtasks TaskCreate w3 = (c4, w4)" by (cases "run_schtasks TaskCreate w3")
    obtain c5 w5 where z: "run_schtasks TaskRun w4 = (c5, w5)" by (cases "run_schtasks TaskRun w4")
    note f4 = schtasks_frame[OF y] and f5 = schtasks_frame[OF z]
    from assms x Inr y z obtain p b v where g: "gated p b v = (r, w')" "v = w4 \<or> v = w5"
      unfolding hand_over_def by (auto split: if_splits)
    note fg = gated_frame[OF g(1), unfolded same_store_def]
    have "events w' = events w @ [TaskCreate] \<or> events w' = events w @ [TaskCreate, TaskRun]"
      using g(2) fg f3 f4 f5 by auto
    moreover have "state_json w' = state_json w \<and> pkg w' = pkg w \<and> manifests w' = manifests w"
      using g(2) fg f3 f4 f5 by auto
    ultimately show ?thesis using i by auto
  qed
qed

lemma hand_over_io:
  assumes "hand_over members remote bs w = (r, w')" "up_io w = sconst False"
  shows "up_io w' = sconst False"
proof -
  obtain r3 w3 where x: "safe_extract members bs w = (r3, w3)" by (cases "safe_extract members bs w")
  note f3 = extract_io[OF assms(2) x]
  obtain c4 w4 where y: "run_schtasks TaskCreate w3 = (c4, w4)" by (cases "run_schtasks TaskCreate w3")
  obtain c5 w5 where z: "run_schtasks TaskRun w4 = (c5, w5)" by (cases "run_schtasks TaskRun w4")
  have "w' = w3 \<or> (\<exists>p b v. gated p b v = (r, w') \<and> (v = w3 \<or> v = w4 \<or> v = w5))"
    using assms(1) x y z unfolding hand_over_def by (auto split: sum.splits if_splits)
  then show ?thesis using f3 gated_frame schtasks_frame[OF y] schtasks_frame[OF z] by metis
qed

definition new_state where
  "new_state remote n w = [(''target_version'', JStr remote), (''attempts'', JInt (n + 1)), (''staged_at'', JFloat (shd (up_clock w)))]"

text \<open>Whoever gets past the signature writes the state first, then fetches the package, then hands over.\<close>

lemma apply_course:
  assumes "apply_update sha256 hmac members repr cfg manifest remote n w = (r, w')"
  shows "(same_store w w' \<and> manifests w' = manifests w \<and> up_io w' = up_io w) \<or>
    ((signing_secret cfg \<noteq> [] \<longrightarrow> signed hmac repr cfg manifest remote) \<and>
     (\<exists>r1 w1. write_state (new_state remote n w) (w\<lparr>up_clock := stl (up_clock w)\<rparr>) = (r1, w1) \<and>
       (r1 \<noteq> Inr () \<and> w' = w1 \<or>
        (\<exists>r2 w2. r1 = Inr () \<and>
           download sha256 (text_of (jget manifest ''sha256'')) (num_of (jget manifest ''size'')) w1 = (r2, w2) \<and>
           (w' = w2 \<or> (\<exists>p. gated p False w2 = (r, w')) \<or>
            (\<exists>bs. r2 = Inr (Some bs) \<and> hand_over members remote bs w2 = (r, w')))))))"
proof -
  let ?given = "py_str repr (case dict_get manifest ''hmac'' of None \<Rightarrow> JStr [] | Some v \<Rightarrow> v)"
  define sg where "sg = (if signing_secret cfg = [] then Inr True
    else digests_equal (compute_hmac hmac (signing_secret cfg) remote (text_of (jget manifest ''sha256''))) ?given)"
  obtain r1 w1 where ws: "write_state (new_state remote n w) (w\<lparr>up_clock := stl (up_clock w)\<rparr>) = (r1, w1)"
    by (cases "write_state (new_state remote n w) (w\<lparr>up_clock := stl (up_clock w)\<rparr>)")
  obtain r2 w2 where dl: "download sha256 (text_of (jget manifest ''sha256'')) (num_of (jget manifest ''size'')) w1 = (r2, w2)"
    by (cases "download sha256 (text_of (jget manifest ''sha256'')) (num_of (jget manifest ''size'')) w1")
  have u: "apply_update sha256 hmac members repr cfg manifest remote n w =
    (case sg of Inl e \<Rightarrow> (Inl e, w) | Inr False \<Rightarrow> gated (failed_status (JStr remote) BadSignature) False w
     | Inr True \<Rightarrow> (case r1 of Inl e \<Rightarrow> (Inl e, w1)
        | Inr _ \<Rightarrow> (case r2 of Inl e \<Rightarrow> (Inl e, w2)
           | Inr None \<Rightarrow> gated (failed_status (JStr remote) DownloadFailed) False w2
           | Inr (Some bs) \<Rightarrow> hand_over members remote bs w2)))"
    using ws dl unfolding apply_update_def Let_def new_state_def sg_def[symmetric]
    by (auto split: sum.splits bool.splits option.splits)
  show ?thesis
  proof (cases "sg = Inr True")
    case False
    with assms u have "w' = w \<or> (\<exists>p. gated p False w = (r, w'))" by (auto split: sum.splits bool.splits)
    then show ?thesis using gated_frame by (metis same_store_def)
  next
    case True
    then have sd: "signing_secret cfg \<noteq> [] \<longrightarrow> signed hmac repr cfg manifest remote"
      by (auto simp: sg_def signed_def digests_equal_def split: if_splits)
    have "r1 \<noteq> Inr () \<and> w' = w1 \<or> r1 = Inr () \<and> (w' = w2 \<or> (\<exists>p. gated p False w2 = (r, w')) \<or>
            (\<exists>bs. r2 = Inr (Some bs) \<and> hand_over members remote bs w2 = (r, w')))"
      using assms u True by (auto split: sum.splits option.splits)
    with sd ws dl show ?thesis by blast
  qed
qed

lemma apply_summary:
  assumes "apply_update sha256 hmac members repr cfg manifest remote n w = (r, w')"
  shows "manifests w' = manifests w \<and> (\<exists>es. events w' = events w @ es \<and> (es = [] \<longrightarrow> True) \<and>
     length (filter (\<lambda>e. e = PackageRequest) es) \<le> 1 \<and>
     (es \<noteq> [] \<longrightarrow> signing_secret cfg \<noteq> [] \<longrightarrow> signed hmac repr cfg manifest remote) \<and>
     (TaskRun \<in> set es \<longrightarrow> genuine sha256 hmac members repr cfg manifest remote w'))"
proof -
  from apply_course[OF assms] consider "same_store w w'" "manifests w' = manifests w" "up_io w' = up_io w"
    | r1 w1 where "write_state (new_state remote n w) (w\<lparr>up_clock := stl (up_clock w)\<rparr>) = (r1, w1)" "w' = w1"
    | r1 w1 r2 w2 where "signing_secret cfg \<noteq> [] \<longrightarrow> signed hmac repr cfg manifest remote"
      "write_state (new_state remote n w) (w\<lparr>up_clock := stl (up_clock w)\<rparr>) = (r1, w1)"
      "download sha256 (text_of (jget manifest ''sha256'')) (num_of (jget manifest ''size'')) w1 = (r2, w2)"
      "w' = w2 \<or> (\<exists>p. gated p False w2 = (r, w')) \<or> (\<exists>bs. r2 = Inr (Some bs) \<and> hand_over members remote bs w2 = (r, w'))"
    by blast
  then show ?thesis
  proof cases
    case 1
    then show ?thesis by (intro conjI exI[of _ "[]"]) (simp_all add: same_store_def)
  next
    case 2
    from write_state_frame[OF this(1)] 2(2) show ?thesis by (intro conjI exI[of _ "[]"]) simp_all
  next
    case 3
    note fw = write_state_frame[OF 3(2)] and fd = download_frame[OF 3(3)]
    obtain ds where ds: "events w2 = events w @ ds" "ds = [] \<or> ds = [PackageRequest]" using fw fd by auto
    have "\<exists>es. manifests w' = manifests w2 \<and> events w' = events w2 @ es \<and> PackageRequest \<notin> set es \<and>
      (TaskRun \<in> set es \<longrightarrow> genuine sha256 hmac members repr cfg manifest remote w')"
      using 3(4)
    proof (elim disjE exE conjE)
      assume "w' = w2" then show ?thesis by (intro exI[of _ "[]"]) simp
    next
      fix p assume "gated p False w2 = (r, w')"
      from gated_frame[OF this] show ?thesis by (intro exI[of _ "[]"]) (simp add: same_store_def)
    next
      fix bs assume b: "r2 = Inr (Some bs)" "hand_over members remote bs w2 = (r, w')"
      from hand_over_frame[OF b(2)] fd b(1) show ?thesis unfolding genuine_def by auto
    qed
    then obtain es where es: "manifests w' = manifests w2" "events w' = events w2 @ es" "PackageRequest \<notin> set es"
      "TaskRun \<in> set es \<longrightarrow> genuine sha256 hmac members repr cfg manifest remote w'" by blast
    have "filter (\<lambda>e. e = PackageRequest) es = []" using es(3) by (auto simp: filter_empty_conv)
    then show ?thesis using ds es fw fd 3(1)
      by (intro conjI exI[of _ "ds @ es"]) auto
  qed
qed

subsection \<open>Checking\<close>

text \<open>Every check either leaves the store alone but for its own request, or applies a manifest it selected.\<close>

lemma select_update_Some:
  "select_update d current b = Some d' \<Longrightarrow> d' = d \<and> is_sha256_hex (jget d ''sha256'') \<and>
     (\<exists>psz. jget d ''size'' = JInt psz \<and> 0 < psz \<and> psz \<le> MAX_PACKAGE_SIZE) \<and>
     (\<exists>rv cv. parse_agent_version (jget d ''version'') = Some rv \<and> parse_agent_version (JStr current) = Some cv \<and> cv < rv)"
  by (auto simp: select_update_def not_le split: option.splits jval.splits if_splits)

lemma select_update_empty [simp]: "select_update [] current b = None"
  by (simp add: select_update_def jget_def parse_agent_version_def)

lemma attempts_for_cong: "state_json w' = state_json w \<Longrightarrow> attempts_for target w' = attempts_for target w"
  by (simp add: attempts_for_def read_state_def)

definition asked :: "updater \<Rightarrow> updater" where
  \<comment> \<open>the manifest has been requested\<close>
  "asked w = log_event ManifestRequest (w\<lparr>manifests := stl (manifests w)\<rparr>)"

lemma asked_simps [simp]: "state_json (asked w) = state_json w" "pkg (asked w) = pkg w" "up_io (asked w) = up_io w"
  "events (asked w) = events w @ [ManifestRequest]" "manifests (asked w) = stl (manifests w)"
  "attempts_for target (asked w) = attempts_for target w"
  by (simp_all add: asked_def log_event_def attempts_for_def read_state_def)

lemma check_course:
  assumes "check_update sha256 hmac members repr frozen cfg current w = (r, w')"
  shows "w' = w \<or> same_store (asked w) w' \<and> up_io w' = up_io w \<and> manifests w' = stl (manifests w) \<or>
    (\<exists>d n. shd (manifests w) = FetchedDict d \<and> select_update d current True = Some d \<and> frozen \<and>
       signing_secret cfg \<noteq> [] \<and> attempts_for (text_of (jget d ''version'')) w = Inr n \<and> n < MAX_ATTEMPTS \<and>
       apply_update sha256 hmac members repr cfg d (text_of (jget d ''version'')) n (asked w) = (r, w'))"
proof (cases "uc_offline cfg \<or> uc_channel cfg = ''none''")
  case True
  with assms show ?thesis by (simp add: check_update_def)
next
  case False
  note u = assms[unfolded check_update_def if_not_P[OF False] Let_def asked_def[symmetric]]
  have idle: ?thesis if "w' = asked w \<or> (\<exists>p. gated p False (asked w) = (r, w'))"
    using that gated_frame[of _ False "asked w" r w'] by (auto simp: same_store_def)
  show ?thesis
  proof (cases "shd (manifests w)")
    case (FetchedDict d)
    show ?thesis
    proof (cases "select_update d current (signing_secret cfg \<noteq> [])")
      case None
      with u FetchedDict show ?thesis by (intro idle) auto
    next
      case (Some d')
      from select_update_Some[OF Some] have d: "d' = d" by simp
      show ?thesis
      proof (cases "\<not> frozen \<or> signing_secret cfg = []")
        case True
        with u FetchedDict Some d show ?thesis by (intro idle) auto
      next
        case go: False
        show ?thesis
        proof (cases "attempts_for (text_of (jget d ''version'')) (asked w)")
          case (Inl e)
          with u FetchedDict Some d go show ?thesis by (intro idle) auto
        next
          case (Inr n)
          with u FetchedDict Some d go show ?thesis
            using idle by (cases "MAX_ATTEMPTS \<le> n") (auto simp: not_le)
        qed
      qed
    qed
  next
    case FetchedOther
    with u show ?thesis by (intro idle) auto
  next
    case Fetched404
    with u show ?thesis by (intro idle) auto
  next
    case FetchError
    with u show ?thesis by (intro idle) auto
  next
    case (FetchRaises e)
    with u show ?thesis by (intro idle) auto
  qed
qed

text \<open>C8: Code runs as SYSTEM only from a verified update.  When a check starts the update task, the server's
  manifest names a strictly newer version, a signing secret is configured and the manifest's HMAC is the
  one that secret gives, the state file counts fewer than three attempts at this version, and the package on disk has
  the promised size, at most 200 MiB, and digest, and unpacks, within its cap, to harmless names only.  The count is
  what the file holds: it starts again after another version, and an attempt is not counted when the file cannot be
  written.\<close>
theorem update_task_runs_only_verified:
  assumes "check_update sha256 hmac members repr frozen cfg current w = (r, w')"
    "TaskRun \<in> set (events w')" "TaskRun \<notin> set (events w)"
  shows "\<exists>d rv cv. shd (manifests w) = FetchedDict d \<and> parse_agent_version (jget d ''version'') = Some rv \<and>
    parse_agent_version (JStr current) = Some cv \<and> cv < rv \<and> signing_secret cfg \<noteq> [] \<and>
    signed hmac repr cfg d (text_of (jget d ''version'')) \<and>
    (\<exists>n<MAX_ATTEMPTS. attempts_for (text_of (jget d ''version'')) w = Inr n) \<and>
    num_of (jget d ''size'') \<le> MAX_PACKAGE_SIZE \<and>
    genuine sha256 hmac members repr cfg d (text_of (jget d ''version'')) w'"
proof -
  from check_course[OF assms(1)] assms(2,3) obtain d n where d: "shd (manifests w) = FetchedDict d"
    "select_update d current True = Some d" "signing_secret cfg \<noteq> []"
    "attempts_for (text_of (jget d ''version'')) w = Inr n" "n < MAX_ATTEMPTS"
    "apply_update sha256 hmac members repr cfg d (text_of (jget d ''version'')) n (asked w) = (r, w')"
    by (auto simp: same_store_def)
  from apply_summary[OF d(6)] obtain es where es: "events w' = events (asked w) @ es"
    "es \<noteq> [] \<longrightarrow> signing_secret cfg \<noteq> [] \<longrightarrow> signed hmac repr cfg d (text_of (jget d ''version''))"
    "TaskRun \<in> set es \<longrightarrow> genuine sha256 hmac members repr cfg d (text_of (jget d ''version'')) w'" by blast
  from es(1) assms(2,3) have "TaskRun \<in> set es" by auto
  with es d select_update_Some[OF d(2)] show ?thesis by (fastforce simp: num_of_def)
qed

text \<open>A manifest whose signature does not match costs nothing: the attempt counter, the package and the
  network are left alone, so a forged manifest cannot exhaust the attempts at the genuine version.\<close>
theorem bad_signature_burns_no_attempt:
  assumes "check_update sha256 hmac members repr frozen cfg current w = (r, w')" "shd (manifests w) = FetchedDict d"
    "signing_secret cfg \<noteq> []" "\<not> signed hmac repr cfg d (text_of (jget d ''version''))"
  shows "state_json w' = state_json w \<and> pkg w' = pkg w \<and> set (events w') \<subseteq> insert ManifestRequest (set (events w)) \<and>
    (\<forall>v. attempts_for v w' = attempts_for v w)"
proof -
  from check_course[OF assms(1)] have "w' = w \<or> same_store (asked w) w'"
    using apply_unsigned[OF _ assms(3,4)] assms(2) by auto
  then show ?thesis by (auto simp: same_store_def intro: attempts_for_cong)
qed

subsection \<open>The ceiling on attempts\<close>

definition downloads :: "updater \<Rightarrow> nat" where
  "downloads w = length (filter (\<lambda>e. e = PackageRequest) (events w))"

lemma new_state_attempts:
  "state_json w' = Json (JObj (new_state v n w)) \<Longrightarrow> attempts_for u w' = Inr (if u = v then n + 1 else 0)"
  by (simp add: attempts_for_def read_state_def new_state_def jget_def)

lemma apply_counts:
  assumes "apply_update sha256 hmac members repr cfg d v n w = (r, w')" "up_io w = sconst False"
  shows "up_io w' = sconst False \<and> manifests w' = manifests w \<and>
    (state_json w' = state_json w \<and> downloads w' = downloads w \<or>
     state_json w' = Json (JObj (new_state v n w)) \<and> downloads w' = downloads w + 1)"
proof -
  let ?w = "w\<lparr>up_clock := stl (up_clock w)\<rparr>"
  have ws: "write_state (new_state v n w) ?w = (Inr (), ?w\<lparr>state_json := Json (JObj (new_state v n w))\<rparr>)"
    using assms(2) by (intro write_state_ok) simp
  let ?w1 = "?w\<lparr>state_json := Json (JObj (new_state v n w))\<rparr>"
  from apply_course[OF assms(1), unfolded ws] consider "same_store w w'" "manifests w' = manifests w" "up_io w' = up_io w"
    | r2 w2 where
      "download sha256 (text_of (jget d ''sha256'')) (num_of (jget d ''size'')) ?w1 = (r2, w2)"
      "w' = w2 \<or> (\<exists>p. gated p False w2 = (r, w')) \<or> (\<exists>bs. r2 = Inr (Some bs) \<and> hand_over members v bs w2 = (r, w'))"
    by auto
  then show ?thesis
  proof cases
    case 1
    with assms(2) show ?thesis by (simp add: same_store_def downloads_def)
  next
    case 2
    have io: "up_io ?w1 = sconst False" using assms(2) by simp
    note fd = download_frame[OF 2(1)] download_io[OF io 2(1)]
    from 2(2) have "state_json w' = state_json w2 \<and> manifests w' = manifests w2 \<and> downloads w' = downloads w2 \<and> up_io w' = sconst False"
    proof (elim disjE exE conjE)
      fix p assume "gated p False w2 = (r, w')"
      from gated_frame[OF this] fd(2) show ?thesis by (simp add: same_store_def downloads_def)
    next
      fix bs assume "r2 = Inr (Some bs)" "hand_over members v bs w2 = (r, w')"
      with hand_over_frame[of members v bs w2 r w'] hand_over_io[of members v bs w2 r w'] fd(2)
      show ?thesis by (auto simp: downloads_def filter_empty_conv)
    qed (use fd(2) in simp)
    with fd show ?thesis by (auto simp: downloads_def)
  qed
qed


definition check_times where
  \<comment> \<open>the store after this many check_times\<close>
  "check_times sha256 hmac members repr frozen cfg current k w =
     ((\<lambda>w. snd (check_update sha256 hmac members repr frozen cfg current w)) ^^ k) w"

lemma check_counts:
  assumes "up_io w = sconst False" "manifests w = sconst (FetchedDict d)"
    "attempts_for (text_of (jget d ''version'')) w = Inr n" "n \<le> MAX_ATTEMPTS"
    and w': "w' = snd (check_update sha256 hmac members repr frozen cfg current w)"
  shows "up_io w' = sconst False \<and> manifests w' = sconst (FetchedDict d) \<and>
    (\<exists>k. attempts_for (text_of (jget d ''version'')) w' = Inr (n + int k) \<and> n + int k \<le> MAX_ATTEMPTS \<and>
       downloads w' = downloads w + k)"
proof -
  let ?v = "text_of (jget d ''version'')"
  have r: "check_update sha256 hmac members repr frozen cfg current w = (fst (check_update sha256 hmac members repr frozen cfg current w), w')"
    using w' by simp
  from check_course[OF r] assms(2,3) consider "w' = w" | "same_store (asked w) w'" "up_io w' = up_io w" "manifests w' = stl (manifests w)"
    | x where "n < MAX_ATTEMPTS" "apply_update sha256 hmac members repr cfg d ?v n (asked w) = (x, w')" by auto
  then show ?thesis
  proof cases
    case 1
    with assms show ?thesis by (intro conjI exI[of _ 0]) auto
  next
    case 2
    then have "attempts_for ?v w' = Inr n" using assms(3) attempts_for_cong[of w' w] by (simp add: same_store_def)
    with 2 assms show ?thesis by (intro conjI exI[of _ 0]) (auto simp: same_store_def downloads_def)
  next
    case 3
    have "up_io (asked w) = sconst False" using assms(1) by simp
    from apply_counts[OF 3(2) this] consider "state_json w' = state_json w" "downloads w' = downloads (asked w)" "up_io w' = sconst False" "manifests w' = manifests (asked w)"
      | "attempts_for ?v w' = Inr (n + 1)" "downloads w' = downloads (asked w) + 1" "up_io w' = sconst False" "manifests w' = manifests (asked w)"
      using new_state_attempts[of w' ?v n "asked w" ?v] by auto
    moreover have "downloads (asked w) = downloads w" by (simp add: downloads_def)
    ultimately show ?thesis
    proof cases
      case 1
      then show ?thesis using assms(2-4) attempts_for_cong[of w' w ?v] \<open>downloads (asked w) = downloads w\<close>
        by (intro conjI exI[of _ 0]) auto
    next
      case 2
      then show ?thesis using assms(2) 3(1) \<open>downloads (asked w) = downloads w\<close>
        by (intro conjI exI[of _ 1]) auto
    qed
  qed
qed

text \<open>A package that never applies is fetched three times at most: with a writable state file, any number of
  check_times against the same manifest makes no more than three downloads, whatever the downloads do.\<close>
theorem update_downloads_bounded:
  assumes "up_io w = sconst False" "manifests w = sconst (FetchedDict d)"
    "attempts_for (text_of (jget d ''version'')) w = Inr 0"
  shows "downloads (check_times sha256 hmac members repr frozen cfg current k w) \<le> downloads w + 3"
proof -
  let ?v = "text_of (jget d ''version'')"
  have "up_io (check_times sha256 hmac members repr frozen cfg current k w) = sconst False \<and>
    manifests (check_times sha256 hmac members repr frozen cfg current k w) = sconst (FetchedDict d) \<and>
    (\<exists>j. attempts_for ?v (check_times sha256 hmac members repr frozen cfg current k w) = Inr (int j) \<and> int j \<le> MAX_ATTEMPTS \<and>
       downloads (check_times sha256 hmac members repr frozen cfg current k w) = downloads w + j)"
  proof (induction k)
    case 0
    have z: "check_times sha256 hmac members repr frozen cfg current 0 w = w" by (simp add: check_times_def)
    have "int 0 \<le> MAX_ATTEMPTS" "attempts_for ?v w = Inr (int 0)" "downloads w = downloads w + 0"
      using assms(3) by (simp_all add: MAX_ATTEMPTS_def)
    with assms(1,2) show ?case unfolding z by blast
  next
    case (Suc k)
    let ?w = "check_times sha256 hmac members repr frozen cfg current k w"
    from Suc obtain j where j: "attempts_for ?v ?w = Inr (int j)" "int j \<le> MAX_ATTEMPTS" "downloads ?w = downloads w + j"
      "up_io ?w = sconst False" "manifests ?w = sconst (FetchedDict d)" by blast
    have s: "check_times sha256 hmac members repr frozen cfg current (Suc k) w = snd (check_update sha256 hmac members repr frozen cfg current ?w)"
      by (simp add: check_times_def)
    from check_counts[OF j(4,5,1,2) s] j(3) show ?case by (metis add.assoc of_nat_add)
  qed
  then show ?thesis by (auto simp: MAX_ATTEMPTS_def)
qed

text \<open>The ceiling counts the latest version only: fetching one version forgets the attempts made at every
  other, so two signed manifests served in turn are downloaded without end.\<close>
theorem attempts_forgotten_on_other_version:
  assumes "up_io w = sconst False" "apply_update sha256 hmac members repr cfg d v n w = (r, w')"
    "downloads w' \<noteq> downloads w" "u \<noteq> v"
  shows "attempts_for u w' = Inr 0"
  using apply_counts[OF assms(2,1)] assms(3,4) new_state_attempts[of w' v n w u] by auto


subsection \<open>Archives\<close>

text \<open>A package that is no zip archive is not reported as corrupt: the error of \<open>zipfile\<close> is neither a
  \<open>ValueError\<close> nor an \<open>OSError\<close>, leaves the update as an exception, and no status is sent, although an
  attempt is spent.\<close>
theorem non_zip_package_escapes:
  assumes "members bs = None"
  shows "hand_over members remote bs w = (Inl BadZipFile, w)"
  using assms by (simp add: hand_over_def safe_extract_def)

theorem non_zip_package_escapes_witness:
  "hand_over (\<lambda>bs. if bs = [80, 75] then Some [] else None) ''1.2.3'' [0] w = (Inl BadZipFile, w)"
  by (rule non_zip_package_escapes) simp

fun resolve :: "string list \<Rightarrow> string list \<Rightarrow> string list" where
  \<comment> \<open>where a path leads from a directory, both as lists of names\<close>
  "resolve base [] = base"
| "resolve base (s # ss) =
     (if s = [] \<or> s = ''.'' then resolve base ss
      else if s = ''..'' then resolve (butlast base) ss
      else resolve (base @ [s]) ss)"

lemma resolve_inside: "''..'' \<notin> set ss \<Longrightarrow> \<exists>rest. resolve base ss = base @ rest"
proof (induction ss arbitrary: base)
  case (Cons s ss)
  from Cons.prems have "''..'' \<notin> set ss" "s \<noteq> ''..''" by auto
  with Cons.IH[of base] Cons.IH[of "base @ [s]"] show ?case by auto
qed simp

text \<open>No member escapes the staging directory: a name that passes the check is relative, names no drive and
  leads, segment by segment, to a path below the directory it is unpacked in.\<close>
theorem member_stays_inside:
  assumes "check_member_name name = Inr ()"
  shows "name \<noteq> [] \<and> hd name \<noteq> CHR ''/'' \<and> hd name \<noteq> CHR 0x5C \<and> CHR '':'' \<notin> set name \<and>
    (\<exists>rest. resolve staging (segments name) = staging @ rest)"
  using assms resolve_inside by (auto simp: check_member_name_def split: if_splits)

theorem member_stays_inside_witness:
  "\<exists>rest. resolve [''update'', ''staging''] (segments ''payload/srp-agent.exe'') = [''update'', ''staging''] @ rest"
proof -
  have "check_member_name ''payload/srp-agent.exe'' = Inr ()" by code_simp
  from member_stays_inside[OF this] show ?thesis by blast
qed

subsection \<open>A run\<close>

definition run_manifest :: jobj where
  \<comment> \<open>an update to 1.2.4 with a package of one octet\<close>
  "run_manifest = [(''version'', JStr ''1.2.4''), (''sha256'', JStr (replicate 64 CHR ''a'')), (''size'', JInt 1),
     (''hmac'', JStr ''5a'')]"

definition run_config :: update_config where
  "run_config = \<lparr>uc_hmac_secret = ''key'', uc_ingest_token = [], uc_offline = False, uc_channel = ''stable''\<rparr>"

definition run_start :: updater where
  "run_start = \<lparr>state_json = NoFile, pkg = None, staged = None, last_status = None, up_clock = sconst (Fin 5),
     up_io = sconst False, manifests = sconst (FetchedDict run_manifest), bodies = sconst (Complete [[7]]),
     exit_codes = sconst 0, events = []\<rparr>"

abbreviation run_check where
  "run_check \<equiv> check_update (\<lambda>bs. replicate 64 CHR ''a'') (\<lambda>k m. ''5a'')
     (\<lambda>bs. Some [(''setup.exe'', 1), (''payload/srp-agent.exe'', 1)]) (\<lambda>v. []) True run_config ''1.2.3''"

lemma run_facts:
  "select_update run_manifest ''1.2.3'' True = Some run_manifest"
  "jget run_manifest ''version'' = JStr ''1.2.4''" "jget run_manifest ''sha256'' = JStr (replicate 64 CHR ''a'')"
  "jget run_manifest ''size'' = JInt 1" "dict_get run_manifest ''hmac'' = Some (JStr ''5a'')"
  "digests_equal ''5a'' ''5a'' = Inr True"
  "mapE (\<lambda>i. check_member_name (fst i)) [(''setup.exe'', 1 :: nat), (''payload/srp-agent.exe'', 1)] = Inr [(), ()]"
  "list_all (\<lambda>rel. in_tree rel [''setup.exe'', ''payload/srp-agent.exe'']) REQUIRED_MEMBERS"
  by code_simp+

lemma run_apply:
  "\<exists>r w'. apply_update (\<lambda>bs. replicate 64 CHR ''a'') (\<lambda>k m. ''5a'')
     (\<lambda>bs. Some [(''setup.exe'', 1), (''payload/srp-agent.exe'', 1)]) (\<lambda>v. []) run_config run_manifest ''1.2.4'' 0
     (asked run_start) = (r, w') \<and> events w' = [ManifestRequest, PackageRequest, TaskCreate, TaskRun]"
  by (simp add: apply_update_def run_facts signing_secret_def run_config_def compute_hmac_def py_str_def text_of_def
    num_of_def asked_def log_event_def run_start_def write_state_def io_next_def download_def hand_over_def
    safe_extract_def run_facts[simplified] run_schtasks_def gated_def gate_def MAX_UNCOMPRESSED_SIZE_def MAX_PACKAGE_SIZE_def)

lemma run_events: "events (snd (run_check run_start)) = [ManifestRequest, PackageRequest, TaskCreate, TaskRun]"
proof -
  have "run_check run_start = apply_update (\<lambda>bs. replicate 64 CHR ''a'') (\<lambda>k m. ''5a'')
     (\<lambda>bs. Some [(''setup.exe'', 1), (''payload/srp-agent.exe'', 1)]) (\<lambda>v. []) run_config run_manifest ''1.2.4'' 0
     (asked run_start)"
    by (simp add: check_update_def run_config_def run_start_def run_facts signing_secret_def text_of_def
      attempts_for_def read_state_def log_event_def asked_def MAX_ATTEMPTS_def)
  with run_apply show ?thesis by fastforce
qed

theorem update_task_runs_only_verified_witness:
  "signed (\<lambda>k m. ''5a'') (\<lambda>v. []) run_config run_manifest ''1.2.4''"
proof -
  obtain r w' where c: "run_check run_start = (r, w')" by (cases "run_check run_start")
  then have "TaskRun \<in> set (events w')" using run_events by simp
  moreover have "TaskRun \<notin> set (events run_start)" by (simp add: run_start_def)
  ultimately show ?thesis using update_task_runs_only_verified[OF c] run_facts by (auto simp: run_start_def text_of_def)
qed

theorem bad_signature_burns_no_attempt_witness:
  "state_json (snd (check_update (\<lambda>bs. []) (\<lambda>k m. ''00'') (\<lambda>bs. None) (\<lambda>v. []) True run_config ''1.2.3'' run_start)) = NoFile"
proof -
  obtain r w' where c: "check_update (\<lambda>bs. []) (\<lambda>k m. ''00'') (\<lambda>bs. None) (\<lambda>v. []) True run_config ''1.2.3'' run_start = (r, w')"
    by fastforce
  have "shd (manifests run_start) = FetchedDict run_manifest" "signing_secret run_config \<noteq> []"
    "\<not> signed (\<lambda>k m. ''00'') (\<lambda>v. []) run_config run_manifest (text_of (jget run_manifest ''version''))"
    by (simp_all add: run_start_def run_config_def signing_secret_def signed_def compute_hmac_def run_facts py_str_def)
  from bad_signature_burns_no_attempt[OF c this] c show ?thesis by (simp add: run_start_def)
qed

lemma run_start_attempts: "attempts_for v run_start = Inr 0"
  by (simp add: attempts_for_def read_state_def run_start_def)

theorem update_downloads_bounded_witness:
  "downloads (check_times (\<lambda>bs. []) (\<lambda>k m. ''5a'') (\<lambda>bs. None) (\<lambda>v. []) True run_config ''1.2.3'' 100 run_start) \<le> 3"
  using update_downloads_bounded[of run_start run_manifest "\<lambda>bs. []" "\<lambda>k m. ''5a''" "\<lambda>bs. None" "\<lambda>v. []" True run_config "''1.2.3''" 100]
  by (simp add: run_start_attempts) (simp add: run_start_def downloads_def)

theorem attempts_forgotten_on_other_version_witness:
  "\<exists>w'. attempts_for ''1.2.5'' w' = Inr 0 \<and> events w' \<noteq> []"
proof -
  obtain r w' where a: "apply_update (\<lambda>bs. replicate 64 CHR ''a'') (\<lambda>k m. ''5a'')
     (\<lambda>bs. Some [(''setup.exe'', 1), (''payload/srp-agent.exe'', 1)]) (\<lambda>v. []) run_config run_manifest ''1.2.4'' 0
     (asked run_start) = (r, w')" "events w' = [ManifestRequest, PackageRequest, TaskCreate, TaskRun]"
    using run_apply by blast
  have "up_io (asked run_start) = sconst False" "downloads w' \<noteq> downloads (asked run_start)" "''1.2.5'' \<noteq> ''1.2.4''"
    using a(2) by (simp_all add: downloads_def) (simp_all add: run_start_def)
  from attempts_forgotten_on_other_version[OF this(1) a(1) this(2,3)] a(2) show ?thesis by auto
qed

end
