(* ===== verification/ZabbixProtocol.thy ===== *)
theory ZabbixProtocol
  imports PyFloat Utf8
begin

text \<open>
  The trapper protocol of Zabbix and its client (\<open>server/zabbix/protocol.py\<close>, \<open>sender.py\<close>).  Parameters are the
  standard library's \<open>json.loads\<close>, \<open>zlib\<close> and tables of Unicode: \<open>printable\<close> (\<open>str.isprintable\<close> of a
  character) and \<open>digit\<close> (the value of a decimal digit).  A connection is what the peer sends and when.
\<close>

unbundle bit_operations_syntax

definition HEADER :: "8 word list" where "HEADER = [0x5A, 0x42, 0x58, 0x44]"
definition HEADER_LEN :: nat where "HEADER_LEN = 13"
definition FLAG_ZABBIX :: "8 word" where "FLAG_ZABBIX = 1"
definition FLAG_COMPRESSED :: "8 word" where "FLAG_COMPRESSED = 2"
definition BATCH_SIZE :: int where "BATCH_SIZE = 250"
definition MAX_RESPONSE_BYTES :: nat where "MAX_RESPONSE_BYTES = 1024 * 1024"
definition MAX_VALUE_CHARS :: nat where "MAX_VALUE_CHARS = 255"
definition MAX_INFO_CHARS :: nat where "MAX_INFO_CHARS = 512"
definition MAX_HOST_CHARS :: nat where "MAX_HOST_CHARS = 128"

record item =
  it_host :: utext
  it_key :: utext
  it_value :: utext

record zbx_response =
  zr_ok :: bool
  zr_info :: utext
  zr_processed :: "nat option"
  zr_failed :: "nat option"
  zr_total :: "nat option"

subsection \<open>Values as text\<close>

datatype wire_value = WBool bool | WInt int | WFloat pyfloat | WText utext

definition strip_zeros :: "string \<Rightarrow> string" where
  \<comment> \<open>\<open>rstrip("0").rstrip(".")\<close>\<close>
  "strip_zeros s = rev (dropWhile (\<lambda>c. c = CHR ''.'') (dropWhile (\<lambda>c. c = CHR ''0'') (rev s)))"

definition two_places :: "rat \<Rightarrow> string" where
  \<comment> \<open>\<open>f"{x:.2f}"\<close>\<close>
  "two_places q = (let k = half_even (\<bar>q\<bar> * 100); digits = nat_str (nat (k div 100))
     in (if q < 0 then ''-'' else []) @ digits @ ''.'' @
        [digit_char (nat (k mod 100 div 10)), digit_char (nat (k mod 10))])"

definition fmt_float :: "pyfloat \<Rightarrow> string res" where
  "fmt_float f = (case f of
     NaN \<Rightarrow> Inl ValueError | PInf \<Rightarrow> Inl OverflowError | NInf \<Rightarrow> Inl OverflowError
   | Fin q \<Rightarrow> (case rnd64 (of_int (half_even (q * 100)) / 100) of
       Fin r \<Rightarrow> Inr (if r = of_int \<lfloor>r\<rfloor> then int_str \<lfloor>r\<rfloor> else strip_zeros (two_places r))
     | _ \<Rightarrow> Inl OverflowError))"

definition fmt_value :: "wire_value \<Rightarrow> utext res" where
  "fmt_value v = (case v of
     WBool b \<Rightarrow> Inr (ustr (if b then ''1'' else ''0''))
   | WInt i \<Rightarrow> Inr (ustr (int_str i))
   | WFloat f \<Rightarrow> bindE (fmt_float f) (\<lambda>s. Inr (ustr s))
   | WText t \<Rightarrow> Inr (take MAX_VALUE_CHARS t))"

subsection \<open>Packets\<close>

function chunk_from :: "nat \<Rightarrow> 'a list \<Rightarrow> 'a list list" where
  "chunk_from step xs = (if xs = [] \<or> step = 0 then [] else take step xs # chunk_from step (drop step xs))"
  by pat_completeness auto
termination by (relation "measure (\<lambda>(step, xs). length xs)") auto

declare chunk_from.simps [simp del]

definition chunks :: "'a list \<Rightarrow> int \<Rightarrow> 'a list list" where
  "chunks items n = chunk_from (nat (max 1 n)) items"

definition json_char :: "nat \<Rightarrow> utext" where
  "json_char c =
     (if c = 34 then [92, 34] else if c = 92 then [92, 92]
      else if c = 10 then [92, 110] else if c = 13 then [92, 114] else if c = 9 then [92, 116]
      else if c = 8 then [92, 98] else if c = 12 then [92, 102]
      else if c < 32 then [92, 117, 48, 48, 48 + c div 16, (if c mod 16 < 10 then 48 else 87) + c mod 16]
      else [c])"

definition json_string :: "utext \<Rightarrow> utext" where
  \<comment> \<open>\<open>json.dumps(s, ensure_ascii=False)\<close>\<close>
  "json_string s = [34] @ concat (map json_char s) @ [34]"

definition json_item :: "item \<Rightarrow> utext" where
  "json_item i = ustr ''{'' @ json_string (ustr ''host'') @ ustr '':'' @ json_string (it_host i) @ ustr '','' @
     json_string (ustr ''key'') @ ustr '':'' @ json_string (it_key i) @ ustr '','' @
     json_string (ustr ''value'') @ ustr '':'' @ json_string (it_value i) @ ustr ''}''"

fun commas :: "utext list \<Rightarrow> utext" where
  "commas [] = []"
| "commas [x] = x"
| "commas (x # xs) = x @ ustr '','' @ commas xs"

definition body_text :: "item list \<Rightarrow> int \<Rightarrow> int \<Rightarrow> utext" where
  "body_text items clock ns =
     ustr ''{'' @ json_string (ustr ''request'') @ ustr '':'' @ json_string (ustr ''sender data'') @ ustr '','' @
     json_string (ustr ''data'') @ ustr '':['' @ commas (map json_item items) @ ustr ''],'' @
     json_string (ustr ''clock'') @ ustr '':'' @ ustr (int_str clock) @ ustr '','' @
     json_string (ustr ''ns'') @ ustr '':'' @ ustr (int_str ns) @ ustr ''}''"

definition le32 :: "nat \<Rightarrow> 8 word list" where
  "le32 n = [word_of_nat (n mod 256), word_of_nat (n div 256 mod 256), word_of_nat (n div 65536 mod 256),
     word_of_nat (n div 16777216 mod 256)]"

definition un_le32 :: "8 word list \<Rightarrow> nat" where
  "un_le32 bs = (case bs of [a, b, c, d] \<Rightarrow> unat a + 256 * unat b + 65536 * unat c + 16777216 * unat d | _ \<Rightarrow> 0)"

definition build_packet :: "item list \<Rightarrow> int \<Rightarrow> int \<Rightarrow> 8 word list option res" where
  \<comment> \<open>a length beyond 32 bits is an error of \<open>struct.pack\<close>\<close>
  "build_packet items clock ns =
     (if items = [] then Inr None
      else bindE (utf8_encode (body_text items clock ns)) (\<lambda>body.
        if 2 ^ 32 \<le> length body then Inl StructError
        else Inr (Some (HEADER @ [FLAG_ZABBIX] @ le32 (length body) @ le32 0 @ body))))"

subsection \<open>Responses\<close>

definition check_declared_length :: "nat \<Rightarrow> unit res" where
  "check_declared_length n = (if MAX_RESPONSE_BYTES < n then Inl ProtocolError else Inr ())"

definition decode_header :: "8 word list \<Rightarrow> (8 word \<times> nat \<times> nat) res" where
  "decode_header raw =
     (if length raw < HEADER_LEN \<or> take 4 raw \<noteq> HEADER then Inl ProtocolError
      else let n = un_le32 (take 4 (drop 5 raw))
           in bindE (check_declared_length n) (\<lambda>_. Inr (raw ! 4, n, un_le32 (take 4 (drop 9 raw)))))"

type_synonym inflater = "8 word list \<Rightarrow> nat \<Rightarrow> (8 word list \<times> bool) option"
  \<comment> \<open>the output within a bound and whether the stream ended there, all input consumed\<close>

definition decompress :: "inflater \<Rightarrow> 8 word list \<Rightarrow> 8 word list res" where
  "decompress inflate body = (case inflate body MAX_RESPONSE_BYTES of
     None \<Rightarrow> Inl ProtocolError
   | Some (out, finished) \<Rightarrow> if \<not> finished then Inl ProtocolError else Inr out)"

datatype uval = UText utext | UOther bool utext
  \<comment> \<open>a text, or a value of another type with its truth value and its text\<close>

definition u_truthy :: "uval \<Rightarrow> bool" where
  "u_truthy v = (case v of UText t \<Rightarrow> t \<noteq> [] | UOther b _ \<Rightarrow> b)"

definition u_str :: "uval \<Rightarrow> utext" where
  "u_str v = (case v of UText t \<Rightarrow> t | UOther _ t \<Rightarrow> t)"

definition number_at :: "(nat \<Rightarrow> nat option) \<Rightarrow> utext \<Rightarrow> utext \<Rightarrow> (utext \<times> utext) option" where
  \<comment> \<open>the label, white space, then digits: the digits and the rest\<close>
  "number_at digit label s =
     (if take (length label) s \<noteq> label then None
      else let t = dropWhile u_space (drop (length label) s);
               ds = takeWhile (\<lambda>c. digit c \<noteq> None) t
           in if ds = [] then None else Some (ds, drop (length ds) t))"

definition optional_at :: "(nat \<Rightarrow> nat option) \<Rightarrow> utext \<Rightarrow> utext \<Rightarrow> utext option \<times> utext" where
  \<comment> \<open>\<open>(?:;\s*label\s*(\d+))?\<close>\<close>
  "optional_at digit label s = (case s of
     [] \<Rightarrow> (None, s)
   | c # t \<Rightarrow> if c = 59 then (case number_at digit label (dropWhile u_space t) of
       Some (ds, r) \<Rightarrow> (Some ds, r) | None \<Rightarrow> (None, s)) else (None, s))"

fun info_search :: "(nat \<Rightarrow> nat option) \<Rightarrow> utext \<Rightarrow> (utext \<times> utext option \<times> utext option) option" where
  "info_search digit [] = None"
| "info_search digit (c # s) = (case number_at digit (ustr ''processed:'') (c # s) of
     None \<Rightarrow> info_search digit s
   | Some (p, r) \<Rightarrow> let (f, r) = optional_at digit (ustr ''failed:'') r;
                          (t, r) = optional_at digit (ustr ''total:'') r
                      in Some (p, f, t))"

definition count_of :: "(nat \<Rightarrow> nat option) \<Rightarrow> utext option \<Rightarrow> nat option" where
  "count_of digit raw = (case raw of
     None \<Rightarrow> None
   | Some ds \<Rightarrow> if ds = [] \<or> 12 < length ds then None
                 else Some (foldl (\<lambda>n c. 10 * n + (case digit c of Some d \<Rightarrow> d | None \<Rightarrow> 0)) 0 ds))"

definition zbx_parse_body ::
  "(utext \<Rightarrow> (utext, uval) dict option option) \<Rightarrow> (nat \<Rightarrow> bool) \<Rightarrow> (nat \<Rightarrow> nat option) \<Rightarrow> 8 word list \<Rightarrow> zbx_response res" where
  \<comment> \<open>\<open>loads\<close>: \<^const>\<open>None\<close> for an error, \<open>Some None\<close> for a value that is no object\<close>
  "zbx_parse_body loads printable digit body =
     (case Option.bind (utf8_decode body) loads of
        None \<Rightarrow> Inl ProtocolError
      | Some None \<Rightarrow> Inl ProtocolError
      | Some (Some obj) \<Rightarrow>
          let info0 = (case dict_get obj (ustr ''info'') of
                Some v \<Rightarrow> if u_truthy v then u_str v else [] | None \<Rightarrow> []);
              info = take MAX_INFO_CHARS (filter printable info0);
              ok = (dict_get obj (ustr ''response'') = Some (UText (ustr ''success'')))
          in (case info_search digit info of
                None \<Rightarrow> Inr \<lparr>zr_ok = ok, zr_info = info, zr_processed = None, zr_failed = None, zr_total = None\<rparr>
              | Some (p, f, t) \<Rightarrow> Inr \<lparr>zr_ok = ok, zr_info = info, zr_processed = count_of digit (Some p),
                  zr_failed = count_of digit f, zr_total = count_of digit t\<rparr>))"

definition zbx_parse_response where
  "zbx_parse_response inflate loads printable digit raw =
     bindE (decode_header raw) (\<lambda>(flags, n, _).
       let body = take n (drop HEADER_LEN raw)
       in if length body < n then Inl ProtocolError
          else if flags AND FLAG_COMPRESSED \<noteq> 0
          then bindE (decompress inflate body) (\<lambda>b. zbx_parse_body loads printable digit b)
          else zbx_parse_body loads printable digit body)"

subsection \<open>The client\<close>

datatype error_kind = KDns | KRefused | KTimeout | KClosed | KProtocol | KNetwork | KRejected | KBudget

record send_result =
  sr_processed :: int
  sr_failed :: int
  sr_total :: int
  sr_error :: "error_kind option"

definition no_result :: send_result where
  "no_result = \<lparr>sr_processed = 0, sr_failed = 0, sr_total = 0, sr_error = None\<rparr>"

record sock =
  pending :: "8 word list"  \<comment> \<open>what the peer sends before it closes\<close>
  schedule :: "(pyfloat \<times> nat) list"  \<comment> \<open>the clock at each read and how many octets have come\<close>

fun recv_exactly :: "(pyfloat \<times> nat) list \<Rightarrow> 8 word list \<Rightarrow> nat \<Rightarrow> pyfloat \<Rightarrow> 8 word list
    \<Rightarrow> error_kind + (8 word list \<times> sock)" where
  \<comment> \<open>a peer that sends nothing more is waited for until the deadline\<close>
  "recv_exactly sched pend n deadline buf =
     (if n \<le> length buf then Inr (buf, \<lparr>pending = pend, schedule = sched\<rparr>)
      else (case sched of
        [] \<Rightarrow> Inl KTimeout
      | (now, m) # sched' \<Rightarrow>
          if \<not> flt now deadline then Inl KTimeout
          else let chunk = take (min m (n - length buf)) pend
               in if chunk = [] then Inl KClosed
                  else recv_exactly sched' (drop (length chunk) pend) n deadline (buf @ chunk)))"

declare recv_exactly.simps [simp del]

definition protocol_error :: "'a res \<Rightarrow> error_kind + 'a" where
  "protocol_error r = (case r of Inl _ \<Rightarrow> Inl KProtocol | Inr a \<Rightarrow> Inr a)"

definition read_response where
  "read_response inflate loads printable digit s deadline =
     bindE (recv_exactly (schedule s) (pending s) HEADER_LEN deadline []) (\<lambda>(header, s).
     bindE (protocol_error (decode_header header)) (\<lambda>(_, n, _).
     bindE (if n = 0 then Inr ([], s) else recv_exactly (schedule s) (pending s) n deadline []) (\<lambda>(body, _).
       protocol_error (zbx_parse_response inflate loads printable digit (header @ body)))))"

datatype connection = ConnFails error_kind | Connected sock

record batch_env =
  be_wall :: int  \<comment> \<open>the clock stamped on the packet, in seconds\<close>
  be_ns :: int
  be_now :: pyfloat  \<comment> \<open>the monotonic clock before connecting\<close>
  be_conn :: connection

definition send_batch where
  \<comment> \<open>the packet is built before the \<open>try\<close>: what it raises leaves the function\<close>
  "send_batch inflate loads printable digit timeout_sec env items =
     bindE (build_packet items (be_wall env) (be_ns env)) (\<lambda>packet.
       case packet of
         None \<Rightarrow> Inr no_result
       | Some _ \<Rightarrow>
           let failed = (\<lambda>k. \<lparr>sr_processed = 0, sr_failed = 0, sr_total = int (length items), sr_error = Some k\<rparr>)
           in case be_conn env of
                ConnFails k \<Rightarrow> Inr (failed k)
              | Connected s \<Rightarrow>
                  (case read_response inflate loads printable digit s (fadd (be_now env) timeout_sec) of
                     Inl k \<Rightarrow> Inr (failed k)
                   | Inr resp \<Rightarrow>
                       if \<not> zr_ok resp then Inr (failed KRejected)
                       else Inr \<lparr>
                         sr_processed = int (case zr_processed resp of Some n \<Rightarrow> n | None \<Rightarrow> length items),
                         sr_failed = int (case zr_failed resp of Some n \<Rightarrow> n | None \<Rightarrow> 0),
                         sr_total = int (case zr_total resp of Some n \<Rightarrow> n | None \<Rightarrow> length items),
                         sr_error = None\<rparr>))"

fun send_loop where
  "send_loop batch deadline [] envs acc = Inr acc"
| "send_loop batch deadline (b # bs) envs acc =
     (case envs of
        [] \<Rightarrow> Inr acc
      | (now, env) # envs' \<Rightarrow>
          if flt deadline now then Inr (acc\<lparr>sr_error := Some KBudget\<rparr>)
          else bindE (batch env b) (\<lambda>r.
            let acc = acc\<lparr>sr_processed := sr_processed acc + sr_processed r,
                  sr_failed := sr_failed acc + sr_failed r, sr_total := sr_total acc + sr_total r\<rparr>
            in if sr_error r \<noteq> None then Inr (acc\<lparr>sr_error := sr_error r\<rparr>)
               else send_loop batch deadline bs envs' acc))"

definition send_all where
  \<comment> \<open>\<open>send\<close>; \<open>envs\<close> gives the clock before each batch and its surroundings, one for each batch\<close>
  "send_all inflate loads printable digit timeout_sec batch_size start max_total_sec envs items =
     send_loop (send_batch inflate loads printable digit timeout_sec) (fadd start max_total_sec)
       (chunks items batch_size) envs no_result"

subsection \<open>Texts cannot break out of their quotes\<close>

definition hexval :: "nat \<Rightarrow> nat option" where
  "hexval c = (if 48 \<le> c \<and> c \<le> 57 then Some (c - 48) else if 97 \<le> c \<and> c \<le> 102 then Some (c - 87)
     else if 65 \<le> c \<and> c \<le> 70 then Some (c - 55) else None)"

definition simple_escape :: "nat \<Rightarrow> nat option" where
  "simple_escape c = map_of [(34, 34), (92, 92), (47, 47), (98, 8), (102, 12), (110, 10), (114, 13), (116, 9)] c"

fun read_chars :: "utext \<Rightarrow> (utext \<times> utext) option" where
  \<comment> \<open>the characters of a JSON string up to its closing quote, and what follows; control characters are
      not allowed unescaped (RFC 8259)\<close>
  "read_chars [] = None"
| "read_chars (c # s) =
     (if c = 34 then Some ([], s)
      else if c < 32 then None
      else if c \<noteq> 92 then map_option (\<lambda>(t, r). (c # t, r)) (read_chars s)
      else (case s of
        [] \<Rightarrow> None
      | e # s1 \<Rightarrow>
          if e = 117 then
            (case s1 of
               h1 # h2 # h3 # h4 # s2 \<Rightarrow> (case (hexval h1, hexval h2, hexval h3, hexval h4) of
                 (Some a, Some b, Some d, Some f) \<Rightarrow>
                   map_option (\<lambda>(t, r). ((4096 * a + 256 * b + 16 * d + f) # t, r)) (read_chars s2)
               | _ \<Rightarrow> None)
             | _ \<Rightarrow> None)
          else (case simple_escape e of None \<Rightarrow> None
                | Some x \<Rightarrow> map_option (\<lambda>(t, r). (x # t, r)) (read_chars s1))))"

lemma read_json_char: "read_chars (json_char c @ s) = map_option (\<lambda>(t, r). (c # t, r)) (read_chars s)"
proof -
  consider "c = 34" | "c = 92" | "c = 10" | "c = 13" | "c = 9" | "c = 8" | "c = 12"
    | "c < 32" "c \<noteq> 10" "c \<noteq> 13" "c \<noteq> 9" "c \<noteq> 8" "c \<noteq> 12" | "32 \<le> c" "c \<noteq> 34" "c \<noteq> 92" by linarith
  then show ?thesis
  proof cases
    case 8
    then have j: "json_char c = [92, 117, 48, 48, 48 + c div 16, (if c mod 16 < 10 then 48 else 87) + c mod 16]"
      by (auto simp: json_char_def)
    have h: "hexval (48 + c div 16) = Some (c div 16)" "hexval ((if c mod 16 < 10 then 48 else 87) + c mod 16) = Some (c mod 16)"
      using 8(1) by (auto simp: hexval_def)
    have "16 * (c div 16) + c mod 16 = c" by simp
    then show ?thesis by (simp add: j h hexval_def[of 48])
  qed (simp_all add: json_char_def simple_escape_def)
qed

lemma read_json_chars: "read_chars (concat (map json_char s) @ 34 # r) = Some (s, r)"
  by (induction s) (simp_all add: read_json_char)

text \<open>No host name, key or value can break out of its quotes: a reader of JSON strings gets back exactly the
  text that was written, and goes on right behind it, whatever characters the text has.\<close>
theorem json_string_roundtrip:
  "\<exists>t. json_string s @ rest = 34 # t \<and> read_chars t = Some (s, rest)"
  using read_json_chars[of s rest] by (simp add: json_string_def)

subsection \<open>Frames\<close>

lemma four_octets:
  fixes n :: nat
  shows "n mod 256 + 256 * (n div 256 mod 256) + 65536 * (n div 65536 mod 256) + 16777216 * (n div 16777216) = n"
proof -
  have d: "n div 65536 = n div 256 div 256" "n div 16777216 = n div 256 div 256 div 256"
    by (simp_all add: div_mult2_eq[symmetric])
  show ?thesis unfolding d
    using div_mult_mod_eq[of n 256] div_mult_mod_eq[of "n div 256" 256] div_mult_mod_eq[of "n div 256 div 256" 256] by linarith
qed

lemma un_le32_le32: "n < 2 ^ 32 \<Longrightarrow> un_le32 (le32 n) = n"
  using four_octets[of n] by (simp add: un_le32_def le32_def unat_of_nat)

lemma length_le32 [simp]: "length (le32 n) = 4"
  by (simp add: le32_def)

text \<open>C39: The frame of a packet describes it: the header that is sent reads back as the plain protocol with the
  length of the body that follows it, up to the bound a reader accepts.\<close>
theorem packet_frame_roundtrip:
  assumes "build_packet items clock ns = Inr (Some p)" "length p \<le> HEADER_LEN + MAX_RESPONSE_BYTES"
  shows "\<exists>body. utf8_encode (body_text items clock ns) = Inr body \<and> items \<noteq> [] \<and>
    decode_header p = Inr (FLAG_ZABBIX, length body, 0) \<and> take (length body) (drop HEADER_LEN p) = body"
proof -
  from assms(1) obtain body where b: "utf8_encode (body_text items clock ns) = Inr body" "items \<noteq> []"
    "length body < 2 ^ 32" "p = HEADER @ [FLAG_ZABBIX] @ le32 (length body) @ le32 0 @ body"
    by (auto simp: build_packet_def split: if_splits)
  have "un_le32 (le32 (length body)) = length body" "un_le32 (le32 0) = 0" using b(3) by (simp_all add: un_le32_le32)
  moreover have "length body \<le> MAX_RESPONSE_BYTES" using assms(2) b(4) by (simp add: HEADER_LEN_def HEADER_def)
  ultimately have "decode_header p = Inr (FLAG_ZABBIX, length body, 0)"
    by (simp add: b(4) decode_header_def HEADER_LEN_def HEADER_def check_declared_length_def)
  moreover have "take (length body) (drop HEADER_LEN p) = body" by (simp add: b(4) HEADER_LEN_def HEADER_def)
  ultimately show ?thesis using b by blast
qed

theorem packet_frame_roundtrip_witness:
  "\<exists>p n. build_packet [\<lparr>it_host = ustr ''pc'', it_key = ustr ''srp.risk'', it_value = ustr ''62''\<rparr>] 1 2 = Inr (Some p) \<and>
     decode_header p = Inr (FLAG_ZABBIX, n, 0)"
proof -
  let ?i = "[\<lparr>it_host = ustr ''pc'', it_key = ustr ''srp.risk'', it_value = ustr ''62''\<rparr>]"
  have a: "list_all (\<lambda>c. c < 128) (body_text ?i 1 2)" "length (body_text ?i 1 2) < 180" by code_simp+
  have "build_packet ?i 1 2 = Inr (Some (HEADER @ [FLAG_ZABBIX] @ le32 (length (body_text ?i 1 2)) @ le32 0 @
      map word_of_nat (body_text ?i 1 2)))"
    unfolding build_packet_def using a(2) by (simp add: utf8_encode_ascii[OF a(1)])
  with a(2) obtain p where p: "build_packet ?i 1 2 = Inr (Some p)" "length p < 200"
    by (simp add: HEADER_def del: of_nat_simps)
  from p(2) have "length p \<le> HEADER_LEN + MAX_RESPONSE_BYTES" by (simp add: HEADER_LEN_def MAX_RESPONSE_BYTES_def)
  from packet_frame_roundtrip[OF p(1) this] p(1) show ?thesis by blast
qed

subsection \<open>Batches\<close>

lemma chunk_from_parts: "0 < step \<Longrightarrow> concat (chunk_from step xs) = xs \<and>
    (\<forall>b\<in>set (chunk_from step xs). b \<noteq> [] \<and> length b \<le> step)"
proof (induction step xs rule: chunk_from.induct)
  case (1 step xs)
  show ?case
  proof (cases "xs = []")
    case False
    with 1 have "concat (chunk_from step (drop step xs)) = drop step xs"
      "\<forall>b\<in>set (chunk_from step (drop step xs)). b \<noteq> [] \<and> length b \<le> step" by auto
    with False 1(2) show ?thesis by (subst (1 2) chunk_from.simps) auto
  qed (simp add: chunk_from.simps)
qed

text \<open>Batching loses and repeats nothing: the batches, put together, are the values in their order; none is
  empty and none is over the batch size.\<close>
theorem chunks_partition:
  "concat (chunks items n) = items \<and> (\<forall>b\<in>set (chunks items n). b \<noteq> [] \<and> int (length b) \<le> max 1 n)"
  using chunk_from_parts[of "nat (max 1 n)" items] by (auto simp: chunks_def le_nat_iff)

subsection \<open>Reading\<close>

lemma recv_exactly_spec:
  "recv_exactly sched pend n deadline buf = Inr (bs, s) \<Longrightarrow> length buf \<le> n \<Longrightarrow>
     length bs = n \<and> bs @ pending s = buf @ pend"
proof (induction sched arbitrary: pend buf)
  case Nil
  then show ?case by (auto simp: recv_exactly.simps[of "[]"] split: if_splits)
next
  case (Cons x sched)
  obtain now m where x: "x = (now, m)" by (cases x)
  note r = Cons.prems(1)[unfolded x, unfolded recv_exactly.simps[of "(now, m) # sched" pend n deadline buf]]
  show ?case
  proof (cases "n \<le> length buf")
    case True
    with r Cons.prems(2) show ?thesis by auto
  next
    case False
    define chunk where "chunk = take (min m (n - length buf)) pend"
    from r False have c: "recv_exactly sched (drop (length chunk) pend) n deadline (buf @ chunk) = Inr (bs, s)"
      by (simp add: Let_def chunk_def split: if_splits)
    have l: "length (buf @ chunk) \<le> n" using False by (simp add: chunk_def)
    have "chunk @ drop (length chunk) pend = pend" by (simp add: chunk_def min_def)
    with Cons.IH[OF c l] show ?thesis by simp
  qed
qed

text \<open>A read takes exactly what it was asked for: when it returns, it returns that many octets, the very next
  ones the peer sent, and leaves the rest; it never returns short.\<close>
theorem recv_exactly_exact:
  assumes "recv_exactly sched pend n deadline [] = Inr (bs, s)"
  shows "length bs = n \<and> bs @ pending s = pend"
  using recv_exactly_spec[OF assms] by simp

theorem recv_exactly_exact_witness:
  "\<exists>bs s. recv_exactly [(Fin 1, 2), (Fin 2, 5)] [1, 2, 3, 4] 3 (Fin 9) [] = Inr (bs, s) \<and> length bs = 3"
proof -
  have "\<exists>bs s. recv_exactly [(Fin 1, 2), (Fin 2, 5)] [1, 2, 3, 4] 3 (Fin 9) [] = Inr (bs, s)"
    by (simp add: recv_exactly.simps)
  then show ?thesis using recv_exactly_exact by blast
qed

subsection \<open>The client\<close>

text \<open>The promise that sending never raises holds but for one case: an exception leaves \<open>send\<close> exactly when one
  of the batches it gets to cannot be written, as UTF-8 or within 32 bits.  Whatever the peer does becomes
  a result.\<close>
theorem send_batch_raises_only_unwritable:
  "send_batch inflate loads printable digit timeout env items = Inl e \<longleftrightarrow>
     build_packet items (be_wall env) (be_ns env) = Inl e"
  by (auto simp: send_batch_def bindE_Inl_iff Let_def
      split: option.splits connection.splits sum.splits if_splits)

text \<open>A host name with a lone surrogate is such a case: the exception passes the function that promises never to
  raise.\<close>
theorem surrogate_escapes_send:
  assumes "i \<in> set items" "c \<in> set (it_host i)" "0xD800 \<le> c" "c < 0xE000"
  shows "send_batch inflate loads printable digit timeout env items = Inl UnicodeError"
proof -
  have "json_char c = [c]" using assms(3) by (auto simp: json_char_def)
  then have "c \<in> set (json_string (it_host i))" using assms(2) by (force simp: json_string_def)
  then have "c \<in> set (json_item i)" by (simp add: json_item_def)
  then have "c \<in> set (commas (map json_item items))"
    using assms(1) by (induction items rule: induct_list012) (auto simp: image_iff)
  then have "c \<in> set (body_text items (be_wall env) (be_ns env))" by (simp add: body_text_def)
  moreover have "\<not> scalar c" using assms(3,4) by (simp add: scalar_def)
  ultimately have "utf8_encode (body_text items (be_wall env) (be_ns env)) = Inl UnicodeError"
    by (auto simp: utf8_encode_def list_all_iff)
  then show ?thesis using assms(1) by (auto simp: send_batch_def build_packet_def)
qed

theorem surrogate_escapes_send_witness:
  "send_batch (\<lambda>b n. None) (\<lambda>t. None) (\<lambda>c. True) (\<lambda>c. None) (Fin 5) env
     [\<lparr>it_host = [0xD800], it_key = ustr ''srp.state'', it_value = ustr ''h0''\<rparr>] = Inl UnicodeError"
  by (rule surrogate_escapes_send[of "\<lparr>it_host = [0xD800], it_key = ustr ''srp.state'', it_value = ustr ''h0''\<rparr>" _ "0xD800"]) simp_all

subsection \<open>Numbers\<close>

text \<open>A whole number stays whole on the wire: a float that is an integer of moderate size is written without a
  decimal point, as the integer.\<close>
theorem whole_float_written_as_integer:
  assumes "\<bar>i\<bar> < 2 ^ 53"
  shows "fmt_value (WFloat (Fin (of_int i))) = fmt_value (WInt i)"
proof -
  have "half_even (of_int i * 100) = i * 100" using half_even_of_int[of "i * 100"] by simp
  then have "rnd64 (of_int (half_even (of_int i * 100)) / 100) = Fin (of_int i)" using rnd64_of_int[OF assms] by simp
  then show ?thesis by (simp add: fmt_value_def fmt_float_def)
qed

theorem whole_float_written_as_integer_witness: "fmt_value (WFloat (Fin 62)) = Inr (ustr ''62'')"
proof -
  have "int_str 62 = ''62''" by code_simp
  with whole_float_written_as_integer[of 62] show ?thesis by (simp add: fmt_value_def)
qed

end
