(* ===== verification/PyArith.thy ===== *)
theory PyArith
  imports PyFloat "HOL-Library.Multiset"
begin

text \<open>
  Arithmetic on Python's floats: subtraction, product, quotient, \<open>round\<close>, \<open>min\<close> and \<open>max\<close> with the
  comparisons Python makes, so that NaN behaves as it does there.  The lemmas say that rounding changes nothing
  when repeated, and that each operation preserves the order; the scores rest on them.
\<close>

definition fsub :: "pyfloat \<Rightarrow> pyfloat \<Rightarrow> pyfloat" where
  "fsub x y = fadd x (fneg y)"

definition sign_inf :: "rat \<Rightarrow> pyfloat \<Rightarrow> pyfloat" where
  \<comment> \<open>a finite number times an infinity\<close>
  "sign_inf q i = (if q = 0 then NaN else if 0 < q then i else fneg i)"

fun fmul :: "pyfloat \<Rightarrow> pyfloat \<Rightarrow> pyfloat" where
  "fmul (Fin a) (Fin b) = rnd64 (a * b)"
| "fmul NaN _ = NaN"
| "fmul _ NaN = NaN"
| "fmul (Fin a) i = sign_inf a i"
| "fmul i (Fin a) = sign_inf a i"
| "fmul PInf i = i"
| "fmul NInf i = fneg i"

fun fdiv_by :: "pyfloat \<Rightarrow> rat \<Rightarrow> pyfloat" where
  \<comment> \<open>division by a finite number that is not zero\<close>
  "fdiv_by (Fin a) b = rnd64 (a / b)"
| "fdiv_by NaN b = NaN"
| "fdiv_by i b = sign_inf b i"

fun fdiv :: "pyfloat \<Rightarrow> pyfloat \<Rightarrow> pyfloat" where
  \<comment> \<open>for a divisor that is not zero, for which Python raises\<close>
  "fdiv x (Fin b) = fdiv_by x b"
| "fdiv NaN i = NaN"
| "fdiv (Fin a) NaN = NaN"
| "fdiv (Fin a) i = Fin 0"
| "fdiv i j = NaN"

definition fabs :: "pyfloat \<Rightarrow> pyfloat" where
  "fabs x = (if flt x (Fin 0) then fneg x else x)"

definition py_max :: "pyfloat \<Rightarrow> pyfloat \<Rightarrow> pyfloat" where
  "py_max a b = (if flt a b then b else a)"

definition py_min :: "pyfloat \<Rightarrow> pyfloat \<Rightarrow> pyfloat" where
  "py_min a b = (if flt b a then b else a)"

definition fround :: "nat \<Rightarrow> pyfloat \<Rightarrow> pyfloat" where
  \<comment> \<open>\<open>round(x, n)\<close>: the double nearest to the decimal of \<open>n\<close> places nearest to \<open>x\<close>\<close>
  "fround n x = (case x of Fin q \<Rightarrow> rnd64 (of_int (half_even (q * 10 ^ n)) / 10 ^ n) | _ \<Rightarrow> x)"

definition int_of_float :: "pyfloat \<Rightarrow> int res" where
  \<comment> \<open>\<open>int(x)\<close>\<close>
  "int_of_float x = (case x of Fin q \<Rightarrow> Inr (if q < 0 then - \<lfloor>- q\<rfloor> else \<lfloor>q\<rfloor>)
     | NaN \<Rightarrow> Inl ValueError | _ \<Rightarrow> Inl OverflowError)"

subsection \<open>Order\<close>

lemma fle_simps [simp]:
  "fle (Fin a) (Fin b) \<longleftrightarrow> a \<le> b" "\<not> fle NaN x" "\<not> fle x NaN"
  "fle NInf (Fin a)" "fle NInf NInf" "fle NInf PInf" "fle (Fin a) PInf" "fle PInf PInf"
  "\<not> fle PInf (Fin a)" "\<not> fle PInf NInf" "\<not> fle (Fin a) NInf"
  by (auto simp: fle_def elim: flt.elims feq.elims)

lemma fle_refl: "x \<noteq> NaN \<Longrightarrow> fle x x"
  by (cases x) simp_all

lemma fle_trans: "fle x y \<Longrightarrow> fle y z \<Longrightarrow> fle x z"
  by (cases x; cases y; cases z) simp_all

lemma fle_antisym: "fle x y \<Longrightarrow> fle y x \<Longrightarrow> x = y"
  by (cases x; cases y) simp_all

lemma flt_fle: "flt x y \<longleftrightarrow> fle x y \<and> x \<noteq> y"
  by (cases x; cases y) auto

lemma not_flt_fle: "\<not> flt y x \<Longrightarrow> x \<noteq> NaN \<Longrightarrow> y \<noteq> NaN \<Longrightarrow> fle x y"
  by (cases x; cases y) auto

lemma rnd64_not_NaN [simp]: "rnd64 q \<noteq> NaN"
  by (simp add: rnd64_def Let_def)

lemma rnd64_fle: "q \<le> r \<Longrightarrow> fle (rnd64 q) (rnd64 r)"
  by (rule not_flt_fle[OF rnd64_mono]) simp_all

lemma rnd64_between:
  assumes "of_int a \<le> q" "q \<le> of_int b" "\<bar>a\<bar> < 2 ^ 53" "\<bar>b\<bar> < 2 ^ 53"
  shows "fle (Fin (of_int a)) (rnd64 q) \<and> fle (rnd64 q) (Fin (of_int b))"
  using rnd64_fle[OF assms(1)] rnd64_fle[OF assms(2)] rnd64_of_int[OF assms(3)] rnd64_of_int[OF assms(4)] by simp

subsection \<open>Ranges\<close>

definition ranged :: "int \<Rightarrow> int \<Rightarrow> pyfloat \<Rightarrow> bool" where
  "ranged a b x \<longleftrightarrow> fle (Fin (of_int a)) x \<and> fle x (Fin (of_int b))"

lemma ranged_Fin: "ranged a b x \<longleftrightarrow> (\<exists>q. x = Fin q \<and> of_int a \<le> q \<and> q \<le> of_int b)"
  by (cases x) (auto simp: ranged_def)

lemma ranged_mono: "ranged a b x \<Longrightarrow> a' \<le> a \<Longrightarrow> b \<le> b' \<Longrightarrow> ranged a' b' x"
  unfolding ranged_def by (meson fle_trans fle_simps(1) of_int_le_iff)

definition clamp :: "pyfloat \<Rightarrow> int \<Rightarrow> int \<Rightarrow> pyfloat" where
  \<comment> \<open>\<open>max(lo, min(hi, x))\<close>\<close>
  "clamp x lo hi = py_max (Fin (of_int lo)) (py_min (Fin (of_int hi)) x)"

lemma clamp_ranged: "lo \<le> hi \<Longrightarrow> ranged lo hi (clamp x lo hi)"
  by (cases x) (auto simp: clamp_def ranged_def py_max_def py_min_def)

lemma clamp_in [intro]: "lo \<le> hi \<Longrightarrow> a \<le> lo \<Longrightarrow> hi \<le> b \<Longrightarrow> ranged a b (clamp x lo hi)"
  using clamp_ranged ranged_mono by blast

lemma ranged_of_int [simp]: "ranged a b (Fin (of_int i)) \<longleftrightarrow> a \<le> i \<and> i \<le> b"
  by (simp add: ranged_def)

lemma clamp_id: "ranged lo hi x \<Longrightarrow> clamp x lo hi = x"
  by (auto simp: ranged_Fin clamp_def py_max_def py_min_def)

lemma clamp_mono: "fle x y \<Longrightarrow> lo \<le> hi \<Longrightarrow> fle (clamp x lo hi) (clamp y lo hi)"
  by (cases x; cases y) (auto simp: clamp_def py_max_def py_min_def)

lemma rnd64_ranged:
  "of_int a \<le> q \<Longrightarrow> q \<le> of_int b \<Longrightarrow> \<bar>a\<bar> < 2 ^ 53 \<Longrightarrow> \<bar>b\<bar> < 2 ^ 53 \<Longrightarrow> ranged a b (rnd64 q)"
  using rnd64_between by (simp add: ranged_def)

lemma fadd_ranged:
  assumes "ranged a b x" "ranged c d y" "\<bar>a + c\<bar> < 2 ^ 53" "\<bar>b + d\<bar> < 2 ^ 53"
  shows "ranged (a + c) (b + d) (fadd x y)"
proof -
  from assms(1,2) obtain p q where "x = Fin p" "y = Fin q"
    "of_int a \<le> p" "p \<le> of_int b" "of_int c \<le> q" "q \<le> of_int d" by (auto simp: ranged_Fin)
  then show ?thesis using assms(3,4) rnd64_ranged[of "a + c" "p + q" "b + d"] by simp
qed

lemma fround_ranged:
  assumes "ranged a b x" "\<bar>a\<bar> < 2 ^ 53" "\<bar>b\<bar> < 2 ^ 53"
  shows "ranged a b (fround n x)"
proof -
  from assms(1) obtain q where q: "x = Fin q" "of_int a \<le> q" "q \<le> of_int b" by (auto simp: ranged_Fin)
  have "half_even (of_int (c * 10 ^ n)) \<le> half_even (q * 10 ^ n)" if "of_int c \<le> q" for c :: int
    using that by (intro half_even_mono) (simp add: mult_right_mono)
  then have "(of_int (a * 10 ^ n) :: rat) \<le> of_int (half_even (q * 10 ^ n))"
    using q(2) unfolding half_even_of_int by (simp only: of_int_le_iff)
  moreover have "half_even (q * 10 ^ n) \<le> half_even (of_int (c * 10 ^ n))" if "q \<le> of_int c" for c :: int
    using that by (intro half_even_mono) (simp add: mult_right_mono)
  then have "(of_int (half_even (q * 10 ^ n)) :: rat) \<le> of_int (b * 10 ^ n)"
    using q(3) unfolding half_even_of_int by (simp only: of_int_le_iff)
  ultimately show ?thesis using assms(2,3)
    by (simp add: fround_def q(1) rnd64_ranged pos_le_divide_eq pos_divide_le_eq)
qed

lemma fneg_ranged [simp]: "ranged a b (fneg x) \<longleftrightarrow> ranged (- b) (- a) x"
  by (cases x) (auto simp: ranged_def)


subsection \<open>Rounding a rounded number changes nothing\<close>

lemma rnd_pos_fraction:
  assumes "0 < i" "i < 2 ^ 53" "k \<le> 1074"
  shows "rnd_pos (of_int i / 2 ^ k) = of_int i / 2 ^ k"
proof -
  let ?q = "of_int i / 2 ^ k :: rat"
  define e where "e = max (expo ?q) (- 1074)"
  have p0: "(0::rat) < 2 powi j" for j by simp
  have pk: "(2::rat) ^ k = 2 powi int k" by simp
  have q0: "0 < ?q" using assms(1) by simp
  have "expo ?q \<le> - int k"
  proof (rule ccontr)
    assume "\<not> expo ?q \<le> - int k"
    then have "(2::rat) ^ 52 * 2 powi (1 - int k) \<le> 2 ^ 52 * 2 powi expo ?q"
      by (intro mult_left_mono power_int_increasing) auto
    also have "\<dots> \<le> ?q" using expo_bounds[OF q0] p0[of "expo ?q"] by (simp add: pos_le_divide_eq mult.commute)
    finally have "(2::rat) ^ 52 * 2 powi (1 - int k) \<le> ?q" .
    moreover have "(2::rat) powi (1 - int k) = 2 / 2 ^ k" by (subst power_int_diff) simp_all
    ultimately have "(2::rat) ^ 53 / 2 ^ k \<le> ?q" by simp
    then have "(of_int (2 ^ 53) :: rat) \<le> of_int i" by (simp add: divide_le_cancel)
    then show False using assms(2) by (simp only: of_int_le_iff)
  qed
  with assms(3) have "e \<le> - int k" by (simp add: e_def)
  then obtain j where j: "- int k = e + int j" using zle_iff_zadd by blast
  have "(2::rat) powi (- int k) = 2 powi e * 2 ^ j" unfolding j by (subst power_int_add) simp_all
  then have "?q = of_int i * (2 powi e * 2 ^ j)" by (simp add: power_int_minus divide_inverse)
  then have z: "?q / 2 powi e = of_int (i * 2 ^ j)" using p0[of e] by simp
  have "rnd_pos ?q = of_int (half_even (?q / 2 powi e)) * 2 powi e" by (simp add: rnd_pos_def e_def Let_def)
  also have "\<dots> = ?q / 2 powi e * 2 powi e" by (simp only: z half_even_of_int)
  finally show ?thesis using p0[of e] by simp
qed

lemma rnd64_fraction:
  assumes "0 < i" "i < 2 ^ 53" "k \<le> 1074"
  shows "rnd64 (of_int i / 2 ^ k) = Fin (of_int i / 2 ^ k)"
proof -
  have "(of_int i :: rat) / 2 ^ k \<le> of_int i" using assms(1) by (simp add: divide_le_eq_1_pos divide_le_eq mult_le_cancel_left1)
  also have "\<dots> < of_int (2 ^ 53)" using assms(2) by (simp only: of_int_less_iff)
  also have "\<dots> < 2 ^ 1024" by simp
  finally show ?thesis using rnd_pos_fraction[OF assms] assms(1) by (simp add: rnd64_def Let_def)
qed

lemma rnd_pos_twice:
  assumes "0 < q"
  shows "rnd_pos (rnd_pos q) = rnd_pos q \<or> rnd_pos q = 0"
proof -
  define e where "e = max (expo q) (- 1074)"
  define m where "m = half_even (q / 2 powi e)"
  define r where "r = rnd_pos q"
  have p0: "(0::rat) < 2 powi i" for i by simp
  have r: "r = of_int m * 2 powi e" by (simp add: r_def rnd_pos_def m_def e_def Let_def)
  have "q / 2 powi e \<le> q / 2 powi expo q"
    using assms by (intro divide_left_mono power_int_increasing) (auto simp: e_def)
  with expo_bounds[OF assms] have "q / 2 powi e \<le> of_int (2 ^ 53)" by simp
  then have "m \<le> 2 ^ 53" unfolding m_def using half_even_mono half_even_of_int by metis
  have "0 \<le> m" unfolding m_def using assms p0[of e] by (intro half_even_nonneg) simp
  show ?thesis
  proof (cases "m = 0")
    case True
    then show ?thesis using r r_def by simp
  next
    case False
    with \<open>0 \<le> m\<close> have m0: "0 < m" by simp
    with r p0[of e] have r0: "0 < r" by simp
    define e' where "e' = max (expo r) (- 1074)"
    have "\<exists>i. r / 2 powi e' = of_int i"
    proof (cases "e' \<le> e")
      case True
      then obtain k where "e = e' + int k" using zle_iff_zadd by blast
      then have "r / 2 powi e' = of_int (m * 2 ^ k)" by (simp add: r power_int_add)
      then show ?thesis ..
    next
      case False
      then have ex: "e' = expo r" "e + 1 \<le> e'" by (auto simp: e'_def e_def)
      have "2 ^ 53 * (2::rat) powi e = 2 ^ 52 * 2 powi (e + 1)" by (simp add: power_int_add)
      also have "\<dots> \<le> 2 ^ 52 * 2 powi e'" using ex(2) by (intro mult_left_mono power_int_increasing) auto
      also have "\<dots> \<le> r" using expo_bounds[OF r0] p0[of e'] ex(1) by (simp add: field_simps)
      finally have "(of_int (2 ^ 53) :: rat) \<le> of_int m" unfolding r using p0[of e] by simp
      then have "2 ^ 53 \<le> m" by (simp only: of_int_le_iff)
      with \<open>m \<le> 2 ^ 53\<close> have m53: "m = 2 ^ 53" by simp
      have up: "2 ^ 52 * 2 powi e' \<le> r" using expo_bounds[OF r0] p0[of e'] ex(1) by (simp add: field_simps)
      have "e' = e + 1"
      proof (rule ccontr)
        assume "e' \<noteq> e + 1"
        with ex(2) have "(2::rat) powi (e + 2) \<le> 2 powi e'" by (intro power_int_increasing) auto
        then have "(2::rat) ^ 52 * (2 powi e * 4) \<le> 2 ^ 52 * 2 powi e'" by (simp add: power_int_add)
        also have "\<dots> \<le> r" by (rule up)
        finally have "(2::rat) ^ 54 * 2 powi e \<le> 2 ^ 53 * 2 powi e" by (simp add: r m53)
        then show False using p0[of e] by simp
      qed
      then have "r / 2 powi e' = of_int (2 ^ 52)" by (simp add: r m53 power_int_add)
      then show ?thesis ..
    qed
    then obtain i where i: "r / 2 powi e' = of_int i" ..
    have "rnd_pos r = of_int (half_even (r / 2 powi e')) * 2 powi e'" by (simp add: rnd_pos_def e'_def Let_def)
    also have "\<dots> = r / 2 powi e' * 2 powi e'" by (simp only: i half_even_of_int)
    also have "\<dots> = r" using p0[of e'] by simp
    finally have "rnd_pos r = r" .
    then show ?thesis by (simp add: r_def)
  qed
qed

lemma rnd64_twice: "rnd64 q = Fin r \<Longrightarrow> rnd64 r = Fin r"
  using rnd_pos_twice[of "\<bar>q\<bar>"] rnd_pos_nonneg[of "\<bar>q\<bar>"]
  by (auto simp: rnd64_def Let_def split: if_splits)

definition double :: "pyfloat \<Rightarrow> bool" where
  \<comment> \<open>the value is one that binary64 holds\<close>
  "double x \<longleftrightarrow> (case x of Fin q \<Rightarrow> rnd64 q = Fin q | _ \<Rightarrow> True)"

lemma double_rnd64 [simp]: "double (rnd64 q)"
  using rnd64_twice[of q] by (auto simp: double_def split: pyfloat.split)

lemma double_fadd [simp]: "double (fadd x y)"
  by (cases "(x, y)" rule: fadd.cases) (simp_all, simp_all add: double_def)

lemma fle_inf [simp]: "x \<noteq> NaN \<Longrightarrow> fle NInf x" "x \<noteq> NaN \<Longrightarrow> fle x PInf"
  by (cases x; simp)+

lemma fadd_mono: "fle x x' \<Longrightarrow> fle (Fin a) y \<Longrightarrow> fle y y' \<Longrightarrow> fle y' (Fin b) \<Longrightarrow> fle (fadd x y) (fadd x' y')"
  by (cases x; cases x'; cases y; cases y') (auto intro: rnd64_fle)

lemma fadd_le: "double x \<Longrightarrow> x \<noteq> NaN \<Longrightarrow> fle (Fin a) y \<Longrightarrow> fle y (Fin 0) \<Longrightarrow> fle (fadd x y) x"
  using rnd64_fle by (cases x; cases y) (auto simp: double_def, metis add_le_same_cancel1 add.commute)


subsection \<open>Stable sorting by a float, greatest first\<close>

fun insert_desc :: "('a \<Rightarrow> pyfloat) \<Rightarrow> 'a \<Rightarrow> 'a list \<Rightarrow> 'a list" where
  "insert_desc k x [] = [x]"
| "insert_desc k x (y # ys) = (if flt (k y) (k x) then x # y # ys else y # insert_desc k x ys)"

definition sort_desc :: "('a \<Rightarrow> pyfloat) \<Rightarrow> 'a list \<Rightarrow> 'a list" where
  \<comment> \<open>\<open>sorted(xs, key=k, reverse=True)\<close>, which keeps the order of equals\<close>
  "sort_desc k xs = fold (insert_desc k) xs []"

lemma mset_insert_desc [simp]: "mset (insert_desc k x ys) = add_mset x (mset ys)"
  by (induction ys) auto

lemma mset_sort_desc: "mset (sort_desc k xs) = mset xs"
proof -
  have "mset (fold (insert_desc k) xs ys) = mset xs + mset ys" for ys by (induction xs arbitrary: ys) auto
  then show ?thesis by (simp add: sort_desc_def)
qed

lemma set_sort_desc [simp]: "set (sort_desc k xs) = set xs"
  by (rule mset_eq_setD[OF mset_sort_desc])

lemma set_insert_desc [simp]: "set (insert_desc k x ys) = insert x (set ys)"
  by (induction ys) auto

lemma sorted_insert_desc:
  "sorted_wrt (\<lambda>a b. \<not> flt (k a) (k b)) ys \<Longrightarrow> sorted_wrt (\<lambda>a b. \<not> flt (k a) (k b)) (insert_desc k x ys)"
proof (induction ys)
  case (Cons y ys)
  have "\<not> flt (k x) (k b)" if "flt (k y) (k x)" "\<not> flt (k y) (k b)" for b
    using that flt_trans by blast
  moreover have "\<not> flt (k x) (k y)" if "flt (k y) (k x)" using that flt_trans flt_irrefl by blast
  ultimately show ?case using Cons by auto
qed simp

lemma sorted_sort_desc: "sorted_wrt (\<lambda>a b. \<not> flt (k a) (k b)) (sort_desc k xs)"
proof -
  have "sorted_wrt (\<lambda>a b. \<not> flt (k a) (k b)) ys \<Longrightarrow> sorted_wrt (\<lambda>a b. \<not> flt (k a) (k b)) (fold (insert_desc k) xs ys)" for ys
    by (induction xs arbitrary: ys) (auto intro: sorted_insert_desc)
  then show ?thesis by (simp add: sort_desc_def)
qed

end
