(* ===== verification/ZabbixExport.thy ===== *)
theory ZabbixExport
  imports ZabbixProtocol PyTime PyArith "HOL-Library.Stream"
begin

text \<open>
  The export of verdicts to Zabbix: configuration (\<open>server/zabbix/config.py\<close>), the values of a machine and
  the packet of the fleet (\<open>items.py\<close>), noise suppression and back-off (\<open>status.py\<close>) and the cycle that
  sends them and looks for what Zabbix refused (\<open>export.py\<close>).  The module's state is a record; the results of
  \<open>sender.send\<close> and the monotonic clock are streams, and what is sent is recorded.  Configuration text is
  Latin-1, time stamps are ASCII; log lines are left out.
\<close>

subsection \<open>Configuration\<close>

definition MIN_INTERVAL_SEC :: int where "MIN_INTERVAL_SEC = 60"
definition DEFAULT_INTERVAL_SEC :: int where "DEFAULT_INTERVAL_SEC = 300"
definition DEFAULT_PORT :: int where "DEFAULT_PORT = 10051"
definition DEFAULT_TIMEOUT_SEC :: pyfloat where "DEFAULT_TIMEOUT_SEC = Fin 5"
definition MIN_TIMEOUT_SEC :: pyfloat where "MIN_TIMEOUT_SEC = Fin 1"
definition MAX_TIMEOUT_SEC :: pyfloat where "MAX_TIMEOUT_SEC = Fin 60"
definition DEFAULT_EXPORT_HOST :: string where "DEFAULT_EXPORT_HOST = ''SRP''"
definition HOST_FIELDS :: "string list" where "HOST_FIELDS = [''hostname'', ''device_id'', ''display_name'']"

record zbx_config =
  zc_server :: string
  zc_port :: int
  zc_interval_sec :: int
  zc_timeout_sec :: pyfloat
  zc_host_field :: string
  zc_host_suffix :: string
  zc_export_host :: string
  zc_org_codes :: "string list"
  zc_host_map :: "(string, string) dict"

definition as_int :: "jval \<Rightarrow> int \<Rightarrow> int res" where
  \<comment> \<open>\<open>int\<close> of an infinity is an \<open>OverflowError\<close>, which is not caught\<close>
  "as_int v dflt = (case v of
     JInt i \<Rightarrow> Inr i | JBool b \<Rightarrow> Inr (if b then 1 else 0)
   | JStr s \<Rightarrow> Inr (case py_int s of Inr i \<Rightarrow> i | Inl _ \<Rightarrow> dflt)
   | JFloat (Fin q) \<Rightarrow> Inr (if q < 0 then - \<lfloor>- q\<rfloor> else \<lfloor>q\<rfloor>)
   | JFloat NaN \<Rightarrow> Inr dflt | JFloat _ \<Rightarrow> Inl OverflowError
   | _ \<Rightarrow> Inr dflt)"

definition as_float :: "jval \<Rightarrow> pyfloat \<Rightarrow> pyfloat res" where
  "as_float v dflt = (case v of
     JInt i \<Rightarrow> float_of_int i | JBool b \<Rightarrow> Inr (Fin (if b then 1 else 0))
   | JStr s \<Rightarrow> Inr (case float_of_str s of Inr f \<Rightarrow> f | Inl _ \<Rightarrow> dflt)
   | JFloat f \<Rightarrow> Inr f
   | _ \<Rightarrow> Inr dflt)"

definition as_str :: "jval \<Rightarrow> string \<Rightarrow> string" where
  "as_str v dflt = (case v of JStr s \<Rightarrow> strip s | _ \<Rightarrow> dflt)"

definition choice :: "jval \<Rightarrow> string list \<Rightarrow> string \<Rightarrow> string" where
  "choice v allowed dflt = (let t = as_str v [] in if t \<in> set allowed then t else dflt)"

definition host_map_of :: "jval \<Rightarrow> (string, string) dict" where
  "host_map_of v = (case v of
     JObj d \<Rightarrow> foldl (\<lambda>acc (k, x). let clean = as_str x []
       in if k \<noteq> [] \<and> clean \<noteq> [] then dict_set acc k clean else acc) [] d
   | _ \<Rightarrow> [])"

definition org_code_of :: "jval \<Rightarrow> string option" where
  "org_code_of v = (case v of
     JStr s \<Rightarrow> if s = [] then None else Some (strip s)
   | JInt i \<Rightarrow> Some (int_str i)
   | JBool b \<Rightarrow> Some (if b then ''True'' else ''False'')
   | _ \<Rightarrow> None)"

definition org_codes_of :: "jval \<Rightarrow> string list res" where
  \<comment> \<open>a text is gone through character by character, an object key by key; a number cannot be\<close>
  "org_codes_of v =
     (if \<not> truthy v then Inr []
      else case v of
        JList xs \<Rightarrow> Inr (List.map_filter org_code_of xs)
      | JStr s \<Rightarrow> Inr (map (\<lambda>c. strip [c]) s)
      | JObj d \<Rightarrow> Inr (List.map_filter (\<lambda>kv. org_code_of (JStr (fst kv))) d)
      | _ \<Rightarrow> Inl TypeError)"

definition clamp_timeout :: "pyfloat \<Rightarrow> pyfloat" where
  "clamp_timeout t0 = (let t = (if flt MIN_TIMEOUT_SEC t0 then t0 else MIN_TIMEOUT_SEC)
     in if flt t MAX_TIMEOUT_SEC then t else MAX_TIMEOUT_SEC)"

definition load_zabbix_config :: "jobj \<Rightarrow> zbx_config res" where
  "load_zabbix_config d =
     bindE (as_int (jget d ''port'') DEFAULT_PORT) (\<lambda>port0.
     bindE (as_int (jget d ''interval_sec'') DEFAULT_INTERVAL_SEC) (\<lambda>interval0.
     bindE (as_float (jget d ''timeout_sec'') DEFAULT_TIMEOUT_SEC) (\<lambda>timeout0.
     bindE (org_codes_of (jget d ''org_codes'')) (\<lambda>org_codes.
       let port = (if 1 \<le> port0 \<and> port0 \<le> 65535 then port0 else DEFAULT_PORT);
           timeout = clamp_timeout timeout0
       in Inr \<lparr>zc_server = as_str (jget d ''server'') [], zc_port = port,
            zc_interval_sec = max MIN_INTERVAL_SEC interval0, zc_timeout_sec = timeout,
            zc_host_field = choice (jget d ''host_field'') HOST_FIELDS ''hostname'',
            zc_host_suffix = as_str (jget d ''host_suffix'') [],
            zc_export_host = as_str (jget d ''export_host'') DEFAULT_EXPORT_HOST,
            zc_org_codes = org_codes, zc_host_map = host_map_of (jget d ''host_map'')\<rparr>))))"

subsection \<open>The values of a machine\<close>

definition UNKNOWN_REASON :: utext where
  "UNKNOWN_REASON = [
    1085, 1077, 1090, 32, 1074, 1080, 1076, 1080, 1084, 1086, 1089, 1090, 1080, 58, 32, 83, 82, 80, 32,
    1085, 1077, 32, 1087, 1086, 1083, 1091, 1095, 1072, 1077, 1090, 32, 1076, 1086, 1089, 1090, 1072, 1090,
    1086, 1095, 1085, 1086, 32, 1076, 1072, 1085, 1085, 1099, 1093, 32, 1086, 1073, 32, 1101, 1090, 1086,
    1081, 32, 1084, 1072, 1096, 1080, 1085, 1077]"

definition NO_DATA_REASON :: utext where
  "NO_DATA_REASON = [
    1076, 1072, 1085, 1085, 1099, 1093, 32, 1085, 1077, 1076, 1086, 1089, 1090, 1072, 1090, 1086, 1095,
    1085, 1086, 32, 1076, 1083, 1103, 32, 1074, 1099, 1074, 1086, 1076, 1072]"

definition NEUTRAL_NAME :: utext where
  "NEUTRAL_NAME = [
    1041, 1077, 1079, 32, 1085, 1072, 1079, 1074, 1072, 1085, 1080, 1103]"

record verdict_row =
  vr_device_id :: "string option"
  vr_org_code :: "string option"
  vr_hostname :: "utext option"
  vr_model :: "utext option"
  vr_chassis :: "utext option"
  vr_state :: "utext option"
  vr_score_ts :: "string option"
  vr_risk :: "pyfloat option"
  vr_days_left :: "int option"
  vr_dominant_label :: "utext option"
  vr_action :: "utext option"

definition or_empty :: "'a list option \<Rightarrow> 'a list" where
  "or_empty x = (case x of None \<Rightarrow> [] | Some s \<Rightarrow> s)"

definition display_name :: "utext option list \<Rightarrow> string \<Rightarrow> utext" where
  \<comment> \<open>the candidates in their order; in the disambiguating mode\<close>
  "display_name candidates device_id =
     (case filter (\<lambda>t. t \<noteq> []) (map (\<lambda>c. u_strip (or_empty c)) candidates) of
        t # _ \<Rightarrow> t
      | [] \<Rightarrow> if device_id \<noteq> []
              then NEUTRAL_NAME @ ustr '' ('' @ ustr (drop (length device_id - 6) device_id) @ ustr '')''
              else NEUTRAL_NAME)"

definition sanitize_host :: "(nat \<Rightarrow> bool) \<Rightarrow> utext \<Rightarrow> utext option" where
  "sanitize_host printable name =
     (let cleaned = u_strip (filter printable name)
      in if cleaned = [] then None else Some (take MAX_HOST_CHARS cleaned))"

definition resolve_host :: "(nat \<Rightarrow> bool) \<Rightarrow> zbx_config \<Rightarrow> verdict_row \<Rightarrow> utext option" where
  "resolve_host printable cfg row =
     (let device_id = or_empty (vr_device_id row)
      in case or_empty (dict_get (zc_host_map cfg) device_id) of
           c # m \<Rightarrow> sanitize_host printable (ustr (c # m))
         | [] \<Rightarrow>
             let base = (if zc_host_field cfg = ''device_id'' then ustr device_id
                   else if zc_host_field cfg = ''display_name''
                   then display_name [vr_hostname row, vr_model row, vr_chassis row] device_id
                   else u_strip (or_empty (vr_hostname row)))
             in case sanitize_host printable base of
                  None \<Rightarrow> None
                | Some clean \<Rightarrow>
                    if zc_host_suffix cfg = [] then Some clean
                    else let suffix = or_empty (sanitize_host printable (ustr (zc_host_suffix cfg)))
                         in sanitize_host printable (take (MAX_HOST_CHARS - length suffix) clean @ suffix))"

definition TEN_DAYS_US :: int where "TEN_DAYS_US = 10 * 86400 * 1000000"

definition fresh_state :: "int \<Rightarrow> verdict_row \<Rightarrow> utext res" where
  \<comment> \<open>the state as it is served: unknown once the score is over ten days old.  \<open>now\<close> is an aware time;
      subtracting a naive one raises\<close>
  "fresh_state now row =
     (let st = (case vr_state row of None \<Rightarrow> ustr ''unknown'' | Some s \<Rightarrow> if s = [] then ustr ''unknown'' else s)
      in case vr_score_ts row of
           None \<Rightarrow> Inr st
         | Some ts \<Rightarrow>
             if ts = [] then Inr st
             else (case fromisoformat (replace_Z (strip ts)) of
                     Inl _ \<Rightarrow> Inr st
                   | Inr t \<Rightarrow> if utc_offset t = None then Inl TypeError
                       else Inr (if TEN_DAYS_US < now - as_utc t then ustr ''unknown'' else st)))"

definition reason_of :: "verdict_row \<Rightarrow> utext \<Rightarrow> utext" where
  "reason_of row st =
     (if st = ustr ''unknown'' then UNKNOWN_REASON
      else (case filter (\<lambda>p. p \<noteq> []) [u_strip (or_empty (vr_dominant_label row)), u_strip (or_empty (vr_action row))] of
              [] \<Rightarrow> NO_DATA_REASON | [p] \<Rightarrow> p | p # q # _ \<Rightarrow> p @ ustr '': '' @ q))"

definition value_item :: "utext \<Rightarrow> string \<Rightarrow> wire_value \<Rightarrow> item res" where
  "value_item host key v = bindE (fmt_value v) (\<lambda>t. Inr \<lparr>it_host = host, it_key = ustr key, it_value = t\<rparr>)"

definition build_items :: "int \<Rightarrow> verdict_row \<Rightarrow> utext \<Rightarrow> item list res" where
  "build_items now row host =
     bindE (fresh_state now row) (\<lambda>st.
       let numbers = (if st = ustr ''unknown'' then []
             else (case vr_risk row of None \<Rightarrow> [] | Some r \<Rightarrow> [(''srp.risk'', WFloat r)]) @
                  (case vr_days_left row of None \<Rightarrow> [] | Some d \<Rightarrow> [(''srp.days_left'', WInt d)]))
       in mapE (\<lambda>(k, v). value_item host k v)
            ([(''srp.state'', WText st)] @ numbers @ [(''srp.reason'', WText (reason_of row st))]))"

subsection \<open>The packet\<close>

datatype skip_reason = NoName | DuplicateName | Backoff

record packet =
  pk_items :: "item list"
  pk_hosts :: "(utext \<times> string) list"
  pk_skipped :: "(string \<times> utext \<times> skip_reason) list"
  pk_unknown :: nat

definition selected :: "zbx_config \<Rightarrow> verdict_row list \<Rightarrow> verdict_row list" where
  "selected cfg rows = filter (\<lambda>r. zc_org_codes cfg = [] \<or> or_empty (vr_org_code r) \<in> set (zc_org_codes cfg)) rows"

definition device_of :: "verdict_row \<Rightarrow> string" where
  "device_of row = or_empty (vr_device_id row)"

definition group_verdict ::
  "utext set \<Rightarrow> utext \<times> verdict_row list \<Rightarrow> (string \<times> utext \<times> skip_reason) list \<times> (utext \<times> verdict_row) list" where
  \<comment> \<open>what becomes of the machines that share a name\<close>
  "group_verdict backoff g = (case g of (host, rows) \<Rightarrow>
     if 1 < length rows then (map (\<lambda>r. (device_of r, host, DuplicateName)) rows, [])
     else if host \<in> backoff then (map (\<lambda>r. (device_of r, host, Backoff)) rows, [])
     else ([], map (Pair host) rows))"

definition build_fleet_packet ::
  "(nat \<Rightarrow> bool) \<Rightarrow> zbx_config \<Rightarrow> utext set \<Rightarrow> int \<Rightarrow> verdict_row list \<Rightarrow> packet res" where
  "build_fleet_packet printable cfg backoff now rows =
     (let rs = selected cfg rows;
          nameless = filter (\<lambda>r. resolve_host printable cfg r = None) rs;
          groups = map (group_verdict backoff) (group_by (resolve_host printable cfg) rs);
          named = concat (map snd groups)
      in bindE (mapE (\<lambda>(host, row). build_items now row host) named) (\<lambda>built.
           Inr \<lparr>pk_items = concat built, pk_hosts = map (\<lambda>(h, r). (h, device_of r)) named,
             pk_skipped = map (\<lambda>r. (device_of r, [], NoName)) nameless @ concat (map fst groups),
             pk_unknown = length (filter (\<lambda>is. list_ex (\<lambda>i. it_key i = ustr ''srp.state'' \<and> it_value i = ustr ''unknown'') is) built)\<rparr>))"

definition heartbeat_items :: "zbx_config \<Rightarrow> int \<Rightarrow> item list" where
  "heartbeat_items cfg unix_time =
     (if zc_export_host cfg = [] then []
      else [\<lparr>it_host = ustr (zc_export_host cfg), it_key = ustr ''srp.last_run'', it_value = ustr (int_str unix_time)\<rparr>])"

subsection \<open>Noise suppression and back-off\<close>

definition REPEAT_LOG_INTERVAL_SEC :: pyfloat where "REPEAT_LOG_INTERVAL_SEC = Fin 3600"

record noise =
  no_last_kind :: "error_kind option"
  no_last_at :: pyfloat
  no_failing_since :: "pyfloat option"
  no_failed_attempts :: nat
  no_success_sig :: "(int \<times> int \<times> nat \<times> nat) option"
  no_success_at :: pyfloat

definition should_log_error :: "error_kind \<Rightarrow> pyfloat \<Rightarrow> noise \<Rightarrow> bool \<times> noise" where
  "should_log_error kind now n0 =
     (let n = n0\<lparr>no_failing_since := Some (case no_failing_since n0 of None \<Rightarrow> now | Some t \<Rightarrow> t),
                 no_failed_attempts := no_failed_attempts n0 + 1\<rparr>
      in if no_last_kind n0 \<noteq> Some kind \<or> fle REPEAT_LOG_INTERVAL_SEC (fsub now (no_last_at n0))
         then (True, n\<lparr>no_last_kind := Some kind, no_last_at := now\<rparr>) else (False, n))"

definition should_log_success :: "int \<times> int \<times> nat \<times> nat \<Rightarrow> pyfloat \<Rightarrow> noise \<Rightarrow> bool \<times> noise" where
  "should_log_success sg now n =
     (if no_success_sig n \<noteq> Some sg \<or> fle REPEAT_LOG_INTERVAL_SEC (fsub now (no_success_at n))
      then (True, n\<lparr>no_success_sig := Some sg, no_success_at := now\<rparr>) else (False, n))"

definition clear_error :: "pyfloat \<Rightarrow> noise \<Rightarrow> pyfloat option \<times> noise" where
  "clear_error now n =
     (map_option (\<lambda>t. fsub now t) (no_failing_since n),
      n\<lparr>no_failing_since := None, no_failed_attempts := 0, no_last_kind := None, no_last_at := Fin 0\<rparr>)"

type_synonym backoff = "(utext, pyfloat) dict"

definition backoff_active :: "pyfloat \<Rightarrow> backoff \<Rightarrow> backoff" where
  "backoff_active now b = filter (\<lambda>(h, t). flt now t) b"

definition BACKOFF_SEC :: pyfloat where "BACKOFF_SEC = Fin 21600"

definition backoff_add :: "pyfloat \<Rightarrow> utext list \<Rightarrow> backoff \<Rightarrow> backoff" where
  "backoff_add now hosts b = foldl (\<lambda>b h. dict_set b h (fadd now BACKOFF_SEC)) b hosts"

subsection \<open>The cycle\<close>

definition DIAGNOSE_COOLDOWN_SEC :: pyfloat where "DIAGNOSE_COOLDOWN_SEC = Fin 3600"
definition DIAGNOSE_HOST_CAP :: nat where "DIAGNOSE_HOST_CAP = 50"
definition DIAGNOSE_BUDGET_SEC :: pyfloat where "DIAGNOSE_BUDGET_SEC = Fin 120"
definition FORCE_MIN_INTERVAL_SEC :: pyfloat where "FORCE_MIN_INTERVAL_SEC = Fin 30"

record zbx_status =
  \<comment> \<open>the numbers of \<open>ExportStatus\<close>\<close>
  zs_devices :: nat
  zs_sent :: int
  zs_accepted :: int
  zs_rejected :: int
  zs_skipped :: nat
  zs_unknown :: nat
  zs_error :: "error_kind option"
  zs_rejected_hosts :: "utext list"
  zs_backoff_hosts :: "utext list"

record export =
  ex_backoff :: backoff
  ex_last_diagnose :: "pyfloat option"
  ex_last_force :: "pyfloat option"
  ex_locked :: bool  \<comment> \<open>another cycle runs\<close>
  ex_noise :: noise
  ex_configured :: bool
  ex_status :: zbx_status
  ex_clock :: "pyfloat stream"
  ex_results :: "send_result stream"
  ex_sent :: "item list list"

definition tick :: "export \<Rightarrow> pyfloat \<times> export" where
  "tick w = (shd (ex_clock w), w\<lparr>ex_clock := stl (ex_clock w)\<rparr>)"

definition send_items :: "item list \<Rightarrow> export \<Rightarrow> send_result \<times> export" where
  "send_items batch w = (shd (ex_results w), w\<lparr>ex_results := stl (ex_results w), ex_sent := ex_sent w @ [batch]\<rparr>)"

definition probe :: "utext \<Rightarrow> utext \<Rightarrow> string \<Rightarrow> item" where
  "probe host key v = \<lparr>it_host = host, it_key = key, it_value = ustr v\<rparr>"

fun diagnose_hosts :: "pyfloat \<Rightarrow> utext list \<Rightarrow> export \<Rightarrow> utext list \<times> export" where
  "diagnose_hosts budget [] w = ([], w)"
| "diagnose_hosts budget (h # hs) w = (case tick w of (now, w) \<Rightarrow>
     if flt budget now then ([], w)
     else (case send_items [probe h (ustr ''srp.state'') ''unknown''] w of (r, w) \<Rightarrow>
       if sr_error r \<noteq> None then ([], w)
       else (case diagnose_hosts budget hs w of (us, w) \<Rightarrow> (if sr_failed r \<noteq> 0 then h # us else us, w))))"

fun diagnose_key_loop :: "pyfloat \<Rightarrow> utext \<Rightarrow> utext list \<Rightarrow> export \<Rightarrow> export" where
  "diagnose_key_loop budget host [] w = w"
| "diagnose_key_loop budget host (k # ks) w = (case tick w of (now, w) \<Rightarrow>
     if flt budget now then w
     else (case send_items [probe host k ''0''] w of (r, w) \<Rightarrow>
       if sr_error r \<noteq> None then w else diagnose_key_loop budget host ks w))"

definition diagnose_keys :: "packet \<Rightarrow> utext list \<Rightarrow> pyfloat \<Rightarrow> export \<Rightarrow> export" where
  "diagnose_keys p unknown_hosts budget w =
     (case filter (\<lambda>h. h \<notin> set unknown_hosts) (map fst (pk_hosts p)) of
        [] \<Rightarrow> w
      | host # _ \<Rightarrow> diagnose_key_loop budget host
          (remdups_adj (sort (map it_key (filter (\<lambda>i. it_host i = host) (pk_items p))))) w)"

definition diagnose :: "packet \<Rightarrow> export \<Rightarrow> utext list \<times> export" where
  "diagnose p w0 =
     (let (now, w) = tick w0
      in if (case ex_last_diagnose w of None \<Rightarrow> False | Some t \<Rightarrow> flt (fsub now t) DIAGNOSE_COOLDOWN_SEC)
         then ([], w)
         else let w = w\<lparr>ex_last_diagnose := Some now\<rparr>; budget = fadd now DIAGNOSE_BUDGET_SEC;
                  (unknown, w) = diagnose_hosts budget (take DIAGNOSE_HOST_CAP (map fst (pk_hosts p))) w;
                  w = diagnose_keys p unknown budget w
              in if unknown = [] then (unknown, w)
                 else let (now, w) = tick w in (unknown, w\<lparr>ex_backoff := backoff_add now unknown (ex_backoff w)\<rparr>))"

definition log_outcome :: "send_result \<Rightarrow> packet \<Rightarrow> export \<Rightarrow> export" where
  "log_outcome r p w0 =
     (let (now, w) = tick w0
      in case sr_error r of
           Some k \<Rightarrow> w\<lparr>ex_noise := snd (should_log_error k now (ex_noise w))\<rparr>
         | None \<Rightarrow> w\<lparr>ex_noise := snd (should_log_success
             (sr_total r, sr_processed r, length (pk_hosts p), length (pk_skipped p)) now
             (snd (clear_error now (ex_noise w))))\<rparr>)"

definition run_cycle ::
  "(nat \<Rightarrow> bool) \<Rightarrow> zbx_config \<Rightarrow> int \<Rightarrow> int \<Rightarrow> verdict_row list \<Rightarrow> export \<Rightarrow> send_result res \<times> export" where
  \<comment> \<open>\<open>_run\<close>; \<open>now\<close> in microseconds and the Unix time of the heartbeat\<close>
  "run_cycle printable cfg now unix_time rows w0 =
     (let (started, w) = tick w0; (mono, w) = tick w; w = w\<lparr>ex_backoff := backoff_active mono (ex_backoff w)\<rparr>
      in case build_fleet_packet printable cfg (fst ` set (ex_backoff w)) now rows of
           Inl e \<Rightarrow> (Inl e, w)
         | Inr p \<Rightarrow>
             let (r, w) = send_items (pk_items p) w;
                 (ended, w) = tick w;
                 w = log_outcome r p w;
                 (rejected, w) = (if sr_error r = None \<and> sr_failed r \<noteq> 0 then diagnose p w else ([], w));
                 beat = heartbeat_items cfg unix_time;
                 w = (if sr_error r = None \<and> beat \<noteq> [] then snd (send_items beat w) else w);
                 (mono, w) = tick w;
                 b = backoff_active mono (ex_backoff w)
             in (Inr r, w\<lparr>ex_backoff := b,
                  ex_status := \<lparr>zs_devices = length (pk_hosts p), zs_sent = sr_total r, zs_accepted = sr_processed r,
                    zs_rejected = sr_failed r, zs_skipped = length (pk_skipped p), zs_unknown = pk_unknown p,
                    zs_error = sr_error r,
                    zs_rejected_hosts = (if rejected \<noteq> [] then rejected else zs_rejected_hosts (ex_status w)),
                    zs_backoff_hosts = sort (map fst b)\<rparr>\<rparr>))"

datatype cycle_result = NotConfigured | TooSoon | Busy | Ran send_result

definition run_export_cycle ::
  "(nat \<Rightarrow> bool) \<Rightarrow> zbx_config \<Rightarrow> bool \<Rightarrow> int \<Rightarrow> int \<Rightarrow> verdict_row list \<Rightarrow> export \<Rightarrow> cycle_result res \<times> export" where
  "run_export_cycle printable cfg force now unix_time rows w0 =
     (if zc_server cfg = [] then (Inr NotConfigured, w0\<lparr>ex_configured := False\<rparr>)
      else let w = w0\<lparr>ex_configured := True\<rparr>;
               (allowed, w) = (if \<not> force then (True, w)
                 else let (mono, w) = tick w
                      in if (case ex_last_force w of None \<Rightarrow> False | Some t \<Rightarrow> flt (fsub mono t) FORCE_MIN_INTERVAL_SEC)
                         then (False, w) else (True, w\<lparr>ex_last_force := Some mono\<rparr>))
           in if \<not> allowed then (Inr TooSoon, w)
              else if ex_locked w then (Inr Busy, w)
              else let w = (if force then w\<lparr>ex_backoff := []\<rparr> else w);
                       (r, w) = run_cycle printable cfg now unix_time rows w
                   in (case r of Inl e \<Rightarrow> Inl e | Inr s \<Rightarrow> Inr (Ran s), w))"

subsection \<open>Configuration\<close>

lemma clamp_timeout_bounds: "fle (Fin 1) (clamp_timeout t) \<and> fle (clamp_timeout t) (Fin 60)"
  by (cases t) (auto simp: clamp_timeout_def fle_def MIN_TIMEOUT_SEC_def MAX_TIMEOUT_SEC_def)

lemma choice_in: "dflt \<in> set allowed \<Longrightarrow> choice v allowed dflt \<in> set allowed"
  by (simp add: choice_def Let_def)

text \<open>Whatever the configuration says, the exporter works with sane values: a real port, an interval of at
  least a minute, a timeout between one second and a minute, even for \<open>nan\<close>, and a known choice of name.\<close>
theorem config_repaired:
  assumes "load_zabbix_config d = Inr cfg"
  shows "1 \<le> zc_port cfg \<and> zc_port cfg \<le> 65535 \<and> 60 \<le> zc_interval_sec cfg \<and>
    fle (Fin 1) (zc_timeout_sec cfg) \<and> fle (zc_timeout_sec cfg) (Fin 60) \<and> zc_host_field cfg \<in> set HOST_FIELDS"
proof -
  from assms obtain p i t where "zc_port cfg = (if 1 \<le> p \<and> p \<le> 65535 then p else DEFAULT_PORT)"
    "zc_interval_sec cfg = max MIN_INTERVAL_SEC i" "zc_timeout_sec cfg = clamp_timeout t"
    "zc_host_field cfg = choice (jget d ''host_field'') HOST_FIELDS ''hostname''"
    unfolding load_zabbix_config_def Let_def bindE_Inr_iff by force
  moreover have "''hostname'' \<in> set HOST_FIELDS" by (simp add: HOST_FIELDS_def)
  ultimately show ?thesis using clamp_timeout_bounds choice_in by (auto simp: MIN_INTERVAL_SEC_def DEFAULT_PORT_def)
qed

theorem config_repaired_witness:
  "case load_zabbix_config [(''port'', JInt 0), (''timeout_sec'', JFloat NaN)] of Inr cfg \<Rightarrow> zc_port cfg \<le> 65535 | Inl _ \<Rightarrow> False"
proof -
  have "\<exists>cfg. load_zabbix_config [(''port'', JInt 0), (''timeout_sec'', JFloat NaN)] = Inr cfg"
    by (simp add: load_zabbix_config_def as_int_def as_float_def org_codes_of_def jget_def Let_def)
  then obtain cfg where c: "load_zabbix_config [(''port'', JInt 0), (''timeout_sec'', JFloat NaN)] = Inr cfg" ..
  from config_repaired[OF c] c show ?thesis by simp
qed

subsection \<open>Values\<close>

lemma mapE_keys: "mapE (\<lambda>(k, v). value_item host k v) kvs = Inr is \<Longrightarrow>
    map it_key is = map (\<lambda>kv. ustr (fst kv)) kvs \<and> (\<forall>i\<in>set is. it_host i = host)"
  by (induction kvs arbitrary: "is") (auto simp: value_item_def)

text \<open>A blind machine is never declared healthy: when its state is unknown, or its score is over ten days old,
  no number is sent for it, only the word \<open>unknown\<close> and the reason; a number is sent only with a
  known state.\<close>
theorem unknown_sends_no_numbers:
  assumes "build_items now row host = Inr is"
  shows "\<exists>st. fresh_state now row = Inr st \<and>
    (st = ustr ''unknown'' \<longrightarrow> map it_key is = [ustr ''srp.state'', ustr ''srp.reason'']) \<and>
    set (map it_key is) \<subseteq> {ustr ''srp.state'', ustr ''srp.risk'', ustr ''srp.days_left'', ustr ''srp.reason''} \<and>
    hd is = \<lparr>it_host = host, it_key = ustr ''srp.state'', it_value = take MAX_VALUE_CHARS st\<rparr> \<and>
    (\<forall>i\<in>set is. it_host i = host)"
proof -
  from assms obtain st where st: "fresh_state now row = Inr st" by (auto simp: build_items_def)
  define numbers where "numbers = (if st = ustr ''unknown'' then []
             else (case vr_risk row of None \<Rightarrow> [] | Some r \<Rightarrow> [(''srp.risk'', WFloat r)]) @
                  (case vr_days_left row of None \<Rightarrow> [] | Some d \<Rightarrow> [(''srp.days_left'', WInt d)]))"
  from assms st have m: "mapE (\<lambda>(k, v). value_item host k v)
      ([(''srp.state'', WText st)] @ numbers @ [(''srp.reason'', WText (reason_of row st))]) = Inr is"
    by (simp add: build_items_def numbers_def Let_def)
  note k = mapE_keys[OF m]
  have "hd is = \<lparr>it_host = host, it_key = ustr ''srp.state'', it_value = take MAX_VALUE_CHARS st\<rparr>"
  proof -
    from m obtain i is' where "value_item host ''srp.state'' (WText st) = Inr i" "is = i # is'"
      unfolding append_Cons mapE.simps(2) bindE_Inr_iff by auto
    then show ?thesis by (simp add: value_item_def fmt_value_def)
  qed
  moreover have "set (map it_key is) \<subseteq> {ustr ''srp.state'', ustr ''srp.risk'', ustr ''srp.days_left'', ustr ''srp.reason''}"
    unfolding conjunct1[OF k] by (auto simp: numbers_def split: option.splits if_splits)
  moreover have "st = ustr ''unknown'' \<Longrightarrow> map it_key is = [ustr ''srp.state'', ustr ''srp.reason'']"
    unfolding conjunct1[OF k] by (simp add: numbers_def)
  ultimately show ?thesis using st conjunct2[OF k] by (intro exI[of _ st] conjI impI) (assumption | simp only:)+
qed

lemma unknown_hosts: "build_items now row host = Inr is \<Longrightarrow> \<forall>i\<in>set is. it_host i = host"
  unfolding build_items_def Let_def bindE_Inr_iff using mapE_keys by blast

definition sample_row :: verdict_row where
  "sample_row = \<lparr>vr_device_id = Some ''dev-1'', vr_org_code = None, vr_hostname = Some (ustr ''pc-1''), vr_model = None,
     vr_chassis = None, vr_state = Some (ustr ''h0''), vr_score_ts = None, vr_risk = None, vr_days_left = Some 40,
     vr_dominant_label = None, vr_action = None\<rparr>"

theorem unknown_sends_no_numbers_witness:
  "\<exists>is. build_items 0 (sample_row\<lparr>vr_state := None\<rparr>) (ustr ''pc-1'') = Inr is \<and>
     map it_key is = [ustr ''srp.state'', ustr ''srp.reason'']"
proof -
  let ?r = "sample_row\<lparr>vr_state := None\<rparr>"
  have f: "fresh_state 0 ?r = Inr (ustr ''unknown'')" by (simp add: fresh_state_def sample_row_def)
  then obtain "is" where i: "build_items 0 ?r (ustr ''pc-1'') = Inr is"
    by (auto simp: build_items_def value_item_def fmt_value_def)
  from unknown_sends_no_numbers[OF i] f i show ?thesis by auto
qed

text \<open>A score stamped without a zone stops the export: its age cannot be computed against an aware clock, the
  exception is not caught, and no packet is made for anyone.\<close>
theorem naive_score_stamp_stops_export:
  assumes "vr_score_ts row = Some ts" "fromisoformat (replace_Z (strip ts)) = Inr t" "utc_offset t = None" "ts \<noteq> []"
    "(host, [row]) \<in> set (group_by (resolve_host printable cfg) (selected cfg rows))" "host \<notin> backoff"
  shows "\<exists>e. build_fleet_packet printable cfg backoff now rows = Inl e"
proof -
  have "build_items now row host = Inl TypeError" using assms(1-4) by (simp add: build_items_def fresh_state_def)
  moreover have "(host, row) \<in> set (concat (map snd (map (group_verdict backoff) (group_by (resolve_host printable cfg) (selected cfg rows)))))"
    using assms(5,6) by (force simp: group_verdict_def)
  moreover have "\<exists>e. mapE f xs = Inl e" if "x \<in> set xs" "f x = Inl e'" for f :: "'a \<Rightarrow> 'b res" and x xs e'
    using that by (induction xs) (auto simp: result_simps split: sum.splits, metis bindE.simps sum.exhaust)
  ultimately obtain e where "mapE (\<lambda>(host, row). build_items now row host)
      (concat (map snd (map (group_verdict backoff) (group_by (resolve_host printable cfg) (selected cfg rows))))) = Inl e"
    by (metis (no_types, lifting) case_prod_conv)
  then show ?thesis by (simp add: build_fleet_packet_def Let_def)
qed

subsection \<open>The packet\<close>

lemma mapE_result_from: "mapE f xs = Inr ys \<Longrightarrow> y \<in> set ys \<Longrightarrow> \<exists>x\<in>set xs. f x = Inr y"
  by (induction xs arbitrary: ys) (auto simp: bindE_Inr_iff)

lemma distinct_concat_singletons:
  "distinct (map fst gs) \<Longrightarrow> (\<And>g. g \<in> set gs \<Longrightarrow> f g = [] \<or> f g = [fst g]) \<Longrightarrow>
     distinct (concat (map f gs)) \<and> set (concat (map f gs)) \<subseteq> set (map fst gs)"
proof (induction gs)
  case (Cons g gs)
  then have IH: "distinct (concat (map f gs))" "set (concat (map f gs)) \<subseteq> set (map fst gs)" by auto
  from Cons.prems(2)[of g] have "f g = [] \<or> f g = [fst g]" by simp
  then show ?case
  proof
    assume "f g = [fst g]"
    moreover have "fst g \<notin> set (concat (map f gs))" using IH(2) Cons.prems(1) by auto
    ultimately show ?thesis using IH by auto
  qed (use IH in auto)
qed simp

text \<open>C33: No machine is lost and none is counted twice: every selected machine is in the packet under a host name of
  its own or listed as skipped with the reason; names in back-off are left out, and every value belongs to
  a host of the packet.\<close>
theorem packet_accounts_for_every_machine:
  assumes "build_fleet_packet printable cfg backoff now rows = Inr p"
  shows "mset (map device_of (selected cfg rows)) = mset (map snd (pk_hosts p)) + mset (map fst (pk_skipped p)) \<and>
    distinct (map fst (pk_hosts p)) \<and> fst ` set (pk_hosts p) \<inter> backoff = {} \<and>
    (\<forall>i\<in>set (pk_items p). it_host i \<in> fst ` set (pk_hosts p))"
proof -
  let ?k = "resolve_host printable cfg"
  define rs where "rs = selected cfg rows"
  define gs where "gs = group_by ?k rs"
  define named where "named = concat (map snd (map (group_verdict backoff) gs))"
  from assms obtain built where b: "mapE (\<lambda>(host, row). build_items now row host) named = Inr built"
    and p: "pk_items p = concat built" "pk_hosts p = map (\<lambda>(h, r). (h, device_of r)) named"
      "pk_skipped p = map (\<lambda>r. (device_of r, [], NoName)) (filter (\<lambda>r. ?k r = None) rs) @
         concat (map fst (map (group_verdict backoff) gs))"
    by (auto simp: build_fleet_packet_def Let_def rs_def gs_def named_def)
  have g1: "mset (map device_of (snd g)) = mset (map (device_of \<circ> snd) (snd (group_verdict backoff g))) +
      mset (map fst (fst (group_verdict backoff g)))" for g
    by (cases g) (simp add: group_verdict_def image_mset.compositionality comp_def)
  have "mset (map device_of (concat (map snd gs))) = mset (map (device_of \<circ> snd) named) +
      mset (map fst (concat (map fst (map (group_verdict backoff) gs))))"
    unfolding named_def
  proof (induction gs)
    case (Cons g gs)
    then show ?case using g1[of g] by (simp add: add_ac comp_def)
  qed simp
  moreover have "mset (map device_of (concat (map snd gs))) = mset (map device_of (filter (\<lambda>r. ?k r \<noteq> None) rs))"
    using mset_group_by[of ?k rs] unfolding gs_def mset_map by simp
  moreover have "mset (map device_of rs) = mset (map device_of (filter (\<lambda>r. ?k r \<noteq> None) rs)) +
      mset (map device_of (filter (\<lambda>r. ?k r = None) rs))"
    by (induction rs) auto
  ultimately have part: "mset (map device_of rs) = mset (map snd (pk_hosts p)) + mset (map fst (pk_skipped p))"
    by (simp add: p comp_def case_prod_unfold add_ac)
  have hosts: "map fst (pk_hosts p) = concat (map (\<lambda>g. map fst (snd (group_verdict backoff g))) gs)"
    by (simp add: p named_def map_concat comp_def case_prod_unfold)
  have one: "map fst (snd (group_verdict backoff g)) = [] \<or> map fst (snd (group_verdict backoff g)) = [fst g]" if "g \<in> set gs" for g
  proof (cases g)
    case (Pair h rows')
    with that have "rows' \<noteq> []" by (auto simp: gs_def group_by_iff)
    then show ?thesis using Pair by (cases rows') (auto simp: group_verdict_def)
  qed
  have "distinct (map fst gs)" using wf_dict_group_by[of ?k rs] by (simp add: wf_dict_def gs_def)
  from distinct_concat_singletons[OF this, of "\<lambda>g. map fst (snd (group_verdict backoff g))"] one
  have "distinct (map fst (pk_hosts p))" unfolding hosts by blast
  moreover have "fst ` set (pk_hosts p) \<inter> backoff = {}"
    by (auto simp: p named_def group_verdict_def split: if_splits)
  moreover have "\<forall>i\<in>set (pk_items p). it_host i \<in> fst ` set (pk_hosts p)"
  proof
    fix i assume "i \<in> set (pk_items p)"
    then obtain bs where bs: "bs \<in> set built" "i \<in> set bs" by (auto simp: p)
    with mapE_result_from[OF b bs(1)] obtain h r where hr: "(h, r) \<in> set named" "build_items now r h = Inr bs" by auto
    from unknown_hosts[OF hr(2)] bs(2) hr(1) show "it_host i \<in> fst ` set (pk_hosts p)" by (force simp: p)
  qed
  ultimately show ?thesis using part by (simp add: rs_def)
qed

lemma resolve_sample: "resolve_host (\<lambda>c. True) cfg sample_row = Some (ustr ''pc-1'')"
  if "zc_host_map cfg = []" "zc_host_field cfg = ''hostname''" "zc_host_suffix cfg = []"
  using that by (simp add: resolve_host_def sample_row_def or_empty_def sanitize_host_def ustr_def u_strip_def u_space_def
      MAX_HOST_CHARS_def Let_def)

definition sample_config :: zbx_config where
  "sample_config = \<lparr>zc_server = ''zbx'', zc_port = 10051, zc_interval_sec = 300, zc_timeout_sec = Fin 5,
     zc_host_field = ''hostname'', zc_host_suffix = [], zc_export_host = ''SRP'', zc_org_codes = [], zc_host_map = []\<rparr>"

lemma resolve_host_score_ts: "resolve_host printable cfg (row\<lparr>vr_score_ts := t\<rparr>) = resolve_host printable cfg row"
  by (cases row) (simp add: resolve_host_def Let_def split: list.split)

lemma sample_groups: "group_by (resolve_host (\<lambda>c. True) sample_config) (selected sample_config [sample_row\<lparr>vr_score_ts := t\<rparr>]) =
    [(ustr ''pc-1'', [sample_row\<lparr>vr_score_ts := t\<rparr>])]"
proof -
  have "resolve_host (\<lambda>c. True) sample_config (sample_row\<lparr>vr_score_ts := t\<rparr>) = resolve_host (\<lambda>c. True) sample_config sample_row"
    by (rule resolve_host_score_ts)
  then show ?thesis
    by (simp add: selected_def sample_config_def group_by_def dict_append_def resolve_sample)
qed

theorem packet_accounts_for_every_machine_witness:
  "\<exists>p. build_fleet_packet (\<lambda>c. True) sample_config {} 0 [sample_row] = Inr p \<and>
     mset (map snd (pk_hosts p)) + mset (map fst (pk_skipped p)) = {#''dev-1''#}"
proof -
  have "sample_row\<lparr>vr_score_ts := None\<rparr> = sample_row" by (simp add: sample_row_def)
  with sample_groups[of None] have g: "group_by (resolve_host (\<lambda>c. True) sample_config) (selected sample_config [sample_row]) =
    [(ustr ''pc-1'', [sample_row])]" by simp
  have "fresh_state 0 sample_row = Inr (ustr ''h0'')" by (simp add: fresh_state_def sample_row_def ustr_def)
  then have "\<exists>is. build_items 0 sample_row (ustr ''pc-1'') = Inr is"
    by (simp add: build_items_def value_item_def fmt_value_def sample_row_def ustr_def Let_def)
  then obtain p where p: "build_fleet_packet (\<lambda>c. True) sample_config {} 0 [sample_row] = Inr p"
    by (auto simp: build_fleet_packet_def g group_verdict_def)
  from packet_accounts_for_every_machine[OF p] p show ?thesis
    by (simp add: selected_def sample_config_def device_of_def sample_row_def or_empty_def)
qed

theorem naive_score_stamp_stops_export_witness:
  "\<exists>e. build_fleet_packet (\<lambda>c. True) sample_config {} 0 [sample_row\<lparr>vr_score_ts := Some ''2026-01-02''\<rparr>] = Inl e"
proof -
  have "(case fromisoformat (replace_Z (strip ''2026-01-02'')) of Inr t \<Rightarrow> utc_offset t = None | Inl _ \<Rightarrow> False)" by code_simp
  then obtain t where t: "fromisoformat (replace_Z (strip ''2026-01-02'')) = Inr t" "utc_offset t = None"
    by (auto split: sum.splits)
  show ?thesis
    by (rule naive_score_stamp_stops_export[OF _ t, where host = "ustr ''pc-1''" and row = "sample_row\<lparr>vr_score_ts := Some ''2026-01-02''\<rparr>"])
      (simp_all add: sample_groups)
qed

subsection \<open>The cycle\<close>

lemma send_items_frame: "send_items b w = (r, w') \<Longrightarrow> ex_sent w' = ex_sent w @ [b]"
  by (auto simp: send_items_def)

lemma tick_frame: "tick w = (t, w') \<Longrightarrow> ex_sent w' = ex_sent w \<and> ex_results w' = ex_results w"
  by (auto simp: tick_def)

definition all_fine :: "export \<Rightarrow> pyfloat \<Rightarrow> bool" where
  \<comment> \<open>the clock stands still and Zabbix accepts whatever comes\<close>
  "all_fine w t \<longleftrightarrow> ex_clock w = sconst t \<and> ex_results w = sconst no_result"

lemma diagnose_key_loop_sends:
  "all_fine w t \<Longrightarrow> \<not> flt budget t \<Longrightarrow>
     ex_sent (diagnose_key_loop budget host ks w) = ex_sent w @ map (\<lambda>k. [probe host k ''0'']) ks"
  by (induction ks arbitrary: w) (simp_all add: tick_def send_items_def all_fine_def no_result_def)

text \<open>Looking for the key that Zabbix refuses, the exporter sends a zero for every key of a machine whose verdict
  it has just sent: also for the days left and the risk, the very values of which the module says that a
  zero declares a machine something it is not.\<close>
theorem diagnosis_overwrites_verdict:
  assumes "all_fine w t" "\<not> flt budget t" "pk_hosts p = (host, dev) # rest" "host \<notin> set refused"
    "i \<in> set (pk_items p)" "it_host i = host"
  shows "[\<lparr>it_host = host, it_key = it_key i, it_value = ustr ''0''\<rparr>] \<in> set (ex_sent (diagnose_keys p refused budget w))"
proof -
  have "it_key i \<in> set (remdups_adj (sort (map it_key (filter (\<lambda>i. it_host i = host) (pk_items p)))))"
    using assms(5,6) by auto
  with diagnose_key_loop_sends[OF assms(1,2)] assms(3,4) show ?thesis
    by (auto simp: diagnose_keys_def probe_def)
qed

definition sample_export :: export where
  "sample_export = \<lparr>ex_backoff = [], ex_last_diagnose = None, ex_last_force = None, ex_locked = False,
     ex_noise = \<lparr>no_last_kind = None, no_last_at = Fin 0, no_failing_since = None, no_failed_attempts = 0,
       no_success_sig = None, no_success_at = Fin 0\<rparr>,
     ex_configured = True,
     ex_status = \<lparr>zs_devices = 0, zs_sent = 0, zs_accepted = 0, zs_rejected = 0, zs_skipped = 0, zs_unknown = 0,
       zs_error = None, zs_rejected_hosts = [], zs_backoff_hosts = []\<rparr>, ex_clock = sconst (Fin 100), ex_results = sconst no_result, ex_sent = []\<rparr>"

theorem diagnosis_overwrites_verdict_witness:
  "[\<lparr>it_host = ustr ''pc'', it_key = ustr ''srp.days_left'', it_value = ustr ''0''\<rparr>] \<in> set (ex_sent (diagnose_keys
     \<lparr>pk_items = [\<lparr>it_host = ustr ''pc'', it_key = ustr ''srp.days_left'', it_value = ustr ''40''\<rparr>],
      pk_hosts = [(ustr ''pc'', ''dev'')], pk_skipped = [], pk_unknown = 0\<rparr> [] (Fin 200) sample_export))"
proof -
  let ?i = "\<lparr>it_host = ustr ''pc'', it_key = ustr ''srp.days_left'', it_value = ustr ''40''\<rparr>"
  have "all_fine sample_export (Fin 100)" "\<not> flt (Fin 200) (Fin 100)" by (simp_all add: all_fine_def sample_export_def)
  from diagnosis_overwrites_verdict[OF this, of "\<lparr>pk_items = [?i], pk_hosts = [(ustr ''pc'', ''dev'')], pk_skipped = [], pk_unknown = 0\<rparr>"
      "ustr ''pc''" "''dev''" "[]" "[]" ?i] show ?thesis by simp
qed

text \<open>A forced cycle that is allowed to run forgets every back-off, so a machine whose name was corrected is sent
  at once; an unconfigured exporter, a second force within half a minute and a running cycle send
  nothing.\<close>
theorem cycle_gates:
  "(zc_server cfg = [] \<or> ex_locked w \<or>
     force \<and> (\<exists>t. ex_last_force w = Some t \<and> flt (fsub (shd (ex_clock w)) t) FORCE_MIN_INTERVAL_SEC) \<longrightarrow>
     ex_sent (snd (run_export_cycle printable cfg force now unix rows w)) = ex_sent w) \<and>
   (zc_server cfg \<noteq> [] \<and> \<not> ex_locked w \<and> force \<and> ex_last_force w = None \<longrightarrow>
     (\<exists>v. ex_backoff v = [] \<and> ex_sent v = ex_sent w \<and> snd (run_export_cycle printable cfg force now unix rows w) =
        snd (run_cycle printable cfg now unix rows v)))"
proof (intro conjI impI)
  assume "zc_server cfg = [] \<or> ex_locked w \<or>
     force \<and> (\<exists>t. ex_last_force w = Some t \<and> flt (fsub (shd (ex_clock w)) t) FORCE_MIN_INTERVAL_SEC)"
  then show "ex_sent (snd (run_export_cycle printable cfg force now unix rows w)) = ex_sent w"
    by (auto simp: run_export_cycle_def tick_def Let_def split: prod.splits option.splits)
next
  assume a: "zc_server cfg \<noteq> [] \<and> \<not> ex_locked w \<and> force \<and> ex_last_force w = None"
  let ?v = "(snd (tick (w\<lparr>ex_configured := True\<rparr>)))\<lparr>ex_last_force := Some (shd (ex_clock w)), ex_backoff := []\<rparr>"
  have "snd (run_export_cycle printable cfg force now unix rows w) = snd (run_cycle printable cfg now unix rows ?v)"
    using a by (simp add: run_export_cycle_def tick_def Let_def case_prod_unfold)
  then show "\<exists>v. ex_backoff v = [] \<and> ex_sent v = ex_sent w \<and> snd (run_export_cycle printable cfg force now unix rows w) =
        snd (run_cycle printable cfg now unix rows v)"
    by (intro exI[of _ ?v]) (simp add: tick_def)
qed

theorem cycle_gates_witness:
  "ex_sent (snd (run_export_cycle (\<lambda>c. True) sample_config True 0 0 [] (sample_export\<lparr>ex_locked := True\<rparr>))) = []"
  using cycle_gates[of sample_config "sample_export\<lparr>ex_locked := True\<rparr>" True "\<lambda>c. True" 0 0 "[]"]
  by (simp add: sample_export_def)

end
