(* ===== verification/RowLog.thy ===== *)
theory RowLog imports Prelude begin

text \<open>
  Append-only tables with a cap per owner, as \<open>server/db.py\<close> keeps them: rows in the order of their identifiers, a newest-first reader
  and the statement that deletes all but the newest rows of one owner.  The locale is the contract of such a table; the heartbeats, the
  history, the scores and the readings of a disk are instances of it.
\<close>

type_synonym ('k, 'r) log = "('k \<times> 'r) list"

definition own_rows :: "'k \<Rightarrow> ('k, 'r) log \<Rightarrow> 'r list" where
  "own_rows k t = map snd (filter (\<lambda>(k', r). k' = k) t)"

definition newest :: "'k \<Rightarrow> ('k, 'r) log \<Rightarrow> 'r list" where
  \<comment> \<open>\<open>WHERE owner = ? ORDER BY id DESC\<close>\<close>
  "newest k t = rev (own_rows k t)"

fun drop_first :: "nat \<Rightarrow> 'k \<Rightarrow> ('k, 'r) log \<Rightarrow> ('k, 'r) log" where
  "drop_first n k [] = []"
| "drop_first n k ((k', r) # t) =
     (if k' = k then (case n of 0 \<Rightarrow> (k', r) # t | Suc m \<Rightarrow> drop_first m k t) else (k', r) # drop_first n k t)"

definition keep_newest :: "nat \<Rightarrow> 'k \<Rightarrow> ('k, 'r) log \<Rightarrow> ('k, 'r) log" where
  \<comment> \<open>\<open>DELETE ... WHERE owner = ? AND id NOT IN (SELECT id ... ORDER BY id DESC LIMIT ?)\<close>\<close>
  "keep_newest n k t = drop_first (length (own_rows k t) - n) k t"

definition append_row :: "nat \<Rightarrow> 'k \<Rightarrow> 'r \<Rightarrow> ('k, 'r) log \<Rightarrow> ('k, 'r) log" where
  "append_row n k r t = keep_newest n k (t @ [(k, r)])"

fun modify_first :: "nat \<Rightarrow> 'k \<Rightarrow> ('r \<Rightarrow> 'r) \<Rightarrow> ('k, 'r) log \<Rightarrow> ('k, 'r) log" where
  "modify_first n k f [] = []"
| "modify_first n k f ((k', r) # t) =
     (if k' = k then (case n of 0 \<Rightarrow> (k', f r) # t | Suc m \<Rightarrow> (k', r) # modify_first m k f t) else (k', r) # modify_first n k f t)"

definition modify_newest :: "nat \<Rightarrow> 'k \<Rightarrow> ('r \<Rightarrow> 'r) \<Rightarrow> ('k, 'r) log \<Rightarrow> ('k, 'r) log" where
  \<comment> \<open>the row at an offset from the newest one\<close>
  "modify_newest n k f t = rev (modify_first n k f (rev t))"

subsection \<open>Laws\<close>

named_theorems log_simps \<open>reading a table after a statement\<close>

lemma own_rows_Nil [simp]: "own_rows k [] = []"
  by (simp add: own_rows_def)

lemma own_rows_Cons [simp]: "own_rows k ((k', r) # t) = (if k' = k then r # own_rows k t else own_rows k t)"
  by (simp add: own_rows_def)

lemma own_rows_append [simp]: "own_rows k (t @ u) = own_rows k t @ own_rows k u"
  by (simp add: own_rows_def)

lemma own_rows_rev: "own_rows k (rev t) = rev (own_rows k t)"
  by (simp add: own_rows_def rev_map rev_filter)

lemma own_rows_iff: "r \<in> set (own_rows k t) \<longleftrightarrow> (k, r) \<in> set t"
  by (force simp: own_rows_def)

lemma rows_drop_first: "own_rows k (drop_first n k t) = drop n (own_rows k t)"
  by (induction n k t rule: drop_first.induct) (auto split: nat.split)

lemma rows_drop_first_other: "k' \<noteq> k \<Longrightarrow> own_rows k' (drop_first n k t) = own_rows k' t"
  by (induction n k t rule: drop_first.induct) (auto split: nat.split)

lemma newest_keep [log_simps]: "newest k' (keep_newest n k t) = (if k' = k then take n (newest k t) else newest k' t)"
  by (auto simp: newest_def keep_newest_def rows_drop_first rows_drop_first_other take_rev)

lemma newest_append [log_simps]: "newest k' (append_row n k r t) = (if k' = k then take n (r # newest k t) else newest k' t)"
  by (auto simp: append_row_def newest_keep) (simp_all add: newest_def)

lemma rows_modify_first: "own_rows k' (modify_first n k f t) =
    (if k' = k then (case drop n (own_rows k t) of [] \<Rightarrow> own_rows k t | r # _ \<Rightarrow> (own_rows k t)[n := f r]) else own_rows k' t)"
proof (induction n k f t rule: modify_first.induct)
  case (2 n k f k1 r t)
  then show ?case by (cases n) (auto split: list.split)
qed simp

lemma newest_modify [log_simps]: "newest k' (modify_newest n k f t) =
    (if k' = k then (case drop n (newest k t) of [] \<Rightarrow> newest k t | r # _ \<Rightarrow> (newest k t)[n := f r]) else newest k' t)"
  unfolding newest_def modify_newest_def own_rows_rev[symmetric] rev_rev_ident by (rule rows_modify_first)

lemma set_drop_first: "set (drop_first n k t) \<subseteq> set t"
  by (induction n k t rule: drop_first.induct) (auto split: nat.split)

lemma set_keep_newest: "set (keep_newest n k t) \<subseteq> set t"
  by (simp add: keep_newest_def set_drop_first)

lemma mset_drop_first: "mset (drop_first n k t) \<subseteq># mset t"
proof (induction n k t rule: drop_first.induct)
  case (2 n k k' r t)
  then show ?case by (cases n) (auto intro: subset_mset.order_trans)
qed simp

lemma mset_keep_newest: "mset (keep_newest n k t) \<subseteq># mset t"
  by (simp add: keep_newest_def mset_drop_first)

subsection \<open>The contract\<close>

locale capped_log =
  fixes store :: "'k \<Rightarrow> 'x \<Rightarrow> 't \<Rightarrow> 't" and read_rows :: "'k \<Rightarrow> 't \<Rightarrow> 'r list" and row_for :: "'x \<Rightarrow> 'r" and cap :: nat
  assumes read_store: "read_rows k (store k x t) = take cap (row_for x # read_rows k t)"
    and read_other: "k' \<noteq> k \<Longrightarrow> read_rows k' (store k x t) = read_rows k' t"
begin

definition store_all :: "('k \<times> 'x) list \<Rightarrow> 't \<Rightarrow> 't" where
  "store_all ms t = foldl (\<lambda>t (k, x). store k x t) t ms"

lemma stored_last: "read_rows k (store_all ms t) =
    (if own_rows k ms = [] then read_rows k t else take cap (rev (map row_for (own_rows k ms)) @ read_rows k t))"
proof (induction ms rule: rev_induct)
  case Nil
  then show ?case by (simp add: store_all_def)
next
  case (snoc m ms)
  obtain k1 x where m: "m = (k1, x)" by (cases m)
  have s: "store_all (ms @ [m]) t = store k1 x (store_all ms t)" by (simp add: store_all_def m)
  show ?case
  proof (cases "k1 = k")
    case True
    have "read_rows k (store_all (ms @ [m]) t) = take cap (row_for x # read_rows k (store_all ms t))" by (simp add: s True read_store)
    also have "\<dots> = take cap (row_for x # rev (map row_for (own_rows k ms)) @ read_rows k t)"
      using snoc by (cases cap) (auto simp: min_def take_Cons' split: if_splits)
    finally show ?thesis by (simp add: m True)
  next
    case False
    then show ?thesis using snoc by (simp add: s read_other) (simp add: m)
  qed
qed

lemma never_longer: "own_rows k ms \<noteq> [] \<Longrightarrow> length (read_rows k (store_all ms t)) \<le> cap"
  by (simp add: stored_last)

lemma others_kept: "k \<notin> set (map fst ms) \<Longrightarrow> read_rows k (store_all ms t) = read_rows k t"
  using stored_last[of k ms t] by (cases "own_rows k ms = []") (force simp: own_rows_def filter_empty_conv)+

end

interpretation log: capped_log "append_row n" newest "\<lambda>r. r" n for n :: nat
  by unfold_locales (simp_all add: log_simps)

end
