(* ===== verification/DayOne.thy ===== *)
theory DayOne
  imports PyArith TrustValidators
begin

text \<open>
  The day-one scores of \<open>server/scoring/scores.py\<close>: performance, reliability, wear and risk exposure from the
  latest readings of one machine.  Each score is a tally: a float that \<open>hit\<close> moves and the factors that moved it.
  Readings are decoded JSON of unknown shape; what a reading provokes is the error of the result.  A factor's
  label is a constructor with the numbers the text is built from.
\<close>

subsection \<open>Readings\<close>

definition num_field :: "jobj option \<Rightarrow> string \<Rightarrow> pyfloat option res" where
  "num_field d key = (case d of None \<Rightarrow> Inr None | Some m \<Rightarrow> to_num (jget m key))"

fun raw_num :: "jval \<Rightarrow> pyfloat res" where
  \<comment> \<open>a value compared with a number as it is: integers stay exact\<close>
  "raw_num (JBool b) = Inr (Fin (if b then 1 else 0))"
| "raw_num (JInt i) = Inr (Fin (of_int i))"
| "raw_num (JFloat f) = Inr f"
| "raw_num _ = Inl TypeError"

fun int_of_raw :: "jval \<Rightarrow> int res" where
  \<comment> \<open>\<open>int(v)\<close>\<close>
  "int_of_raw (JBool b) = Inr (if b then 1 else 0)"
| "int_of_raw (JInt i) = Inr i"
| "int_of_raw (JFloat f) = int_of_float f"
| "int_of_raw (JStr s) = py_int s"
| "int_of_raw _ = Inl TypeError"

definition printable_as_float :: "pyfloat \<Rightarrow> unit res" where
  \<comment> \<open>an integer formatted with \<open>.0f\<close> is converted first\<close>
  "printable_as_float x = (case x of Fin q \<Rightarrow> (case rnd64 q of Fin _ \<Rightarrow> Inr () | _ \<Rightarrow> Inl OverflowError) | _ \<Rightarrow> Inr ())"

definition first_disk :: "jobj option \<Rightarrow> jval option res" where
  \<comment> \<open>\<open>((hist or {}).get("storage") or [])[:1]\<close>\<close>
  "first_disk hist = (case hist of None \<Rightarrow> Inr None
     | Some h \<Rightarrow> (case jget h ''storage'' of
         JList (x # _) \<Rightarrow> Inr (Some x)
       | JStr (c # _) \<Rightarrow> Inr (Some (JStr [c]))
       | v \<Rightarrow> if truthy v then Inl TypeError else Inr None))"

subsection \<open>The age of the hardware\<close>

definition month_day :: "string \<Rightarrow> (int \<times> string) list" where
  \<comment> \<open>the alternatives \<open>%m\<close> of \<open>strptime\<close> tries, in its order: two digits from 01 to 12, or one from 1 to 9\<close>
  "month_day s =
     (case num_at s 0 2 of Some m \<Rightarrow> if 1 \<le> m \<and> m \<le> 12 then [(m, drop 2 s)] else [] | None \<Rightarrow> []) @
     (case num_at s 0 1 of Some m \<Rightarrow> if 1 \<le> m then [(m, drop 1 s)] else [] | None \<Rightarrow> [])"

definition day_of :: "string \<Rightarrow> (int \<times> string) option" where
  \<comment> \<open>\<open>%d\<close>: 01 to 31, one digit, or a blank and one digit\<close>
  "day_of s = (case num_at s 0 2 of
       Some d \<Rightarrow> if 1 \<le> d \<and> d \<le> 31 then Some (d, drop 2 s)
         else (case num_at s 0 1 of Some d \<Rightarrow> if 1 \<le> d then Some (d, drop 1 s) else None | None \<Rightarrow> None)
     | None \<Rightarrow> (case num_at s 0 1 of
         Some d \<Rightarrow> if 1 \<le> d then Some (d, drop 1 s) else None
       | None \<Rightarrow> (case (s, num_at s 1 1) of
           (CHR '' '' # _, Some d) \<Rightarrow> if 1 \<le> d then Some (d, drop 2 s) else None
         | _ \<Rightarrow> None)))"

definition strptime_ymd :: "string \<Rightarrow> string \<Rightarrow> stamp res" where
  \<comment> \<open>\<open>strptime\<close> with \<open>%Y\<close>, \<open>%m\<close> and \<open>%d\<close> apart by \<open>sep\<close>: the first way to match, then nothing may be left over\<close>
  "strptime_ymd sep s =
     (case num_at s 0 4 of None \<Rightarrow> Inl ValueError
      | Some y \<Rightarrow>
          let after = (\<lambda>r. if take (length sep) r = sep then Some (drop (length sep) r) else None);
              ways = (case after (drop 4 s) of None \<Rightarrow> []
                | Some r \<Rightarrow> List.map_filter (\<lambda>(m, r). case after r of None \<Rightarrow> None
                    | Some r \<Rightarrow> map_option (\<lambda>(d, rest). (m, d, rest)) (day_of r)) (month_day r))
          in case ways of
               (m, d, []) # _ \<Rightarrow> if 1 \<le> y \<and> d \<le> month_days y m
                 then Inr (Stamp (epoch_day y m d * 86400000000) None) else Inl ValueError
             | _ \<Rightarrow> Inl ValueError)"

definition parse_date :: "jval \<Rightarrow> stamp option res" where
  "parse_date v =
     (if \<not> truthy v then Inr None
      else case v of
        JStr s0 \<Rightarrow>
          let s = replace_Z (strip s0)
          in Inr (case fromisoformat s of Inr t \<Rightarrow> Some t
               | Inl _ \<Rightarrow> (case strptime_ymd ''-'' (take 10 s) of Inr t \<Rightarrow> Some t
               | Inl _ \<Rightarrow> (case strptime_ymd '''' (take 8 s) of Inr t \<Rightarrow> Some t | Inl _ \<Rightarrow> None)))
      | _ \<Rightarrow> Inl AttributeError)"

definition years_since :: "int \<Rightarrow> stamp \<Rightarrow> pyfloat" where
  "years_since now t = rnd64 (of_int ((now - as_utc t) div 86400000000) / (1461 / 4))"

definition older :: "int \<Rightarrow> pyfloat option \<Rightarrow> stamp option \<Rightarrow> pyfloat option" where
  "older now best t = (case t of None \<Rightarrow> best
     | Some t \<Rightarrow> let y = years_since now t
         in if fle (Fin 0) y \<and> (case best of None \<Rightarrow> True | Some b \<Rightarrow> flt b y) then Some y else best)"

definition device_age_years :: "int \<Rightarrow> jobj option \<Rightarrow> pyfloat option res" where
  \<comment> \<open>\<open>now\<close> in microseconds\<close>
  "device_age_years now inventory =
     (case inventory of None \<Rightarrow> Inr None
      | Some d \<Rightarrow>
          bindE (parse_date (jget d ''bios_release_date'')) (\<lambda>t1.
          let best = older now None t1 in
          bindE (parse_date (jget d ''os_install_date'')) (\<lambda>t2.
          Inr (map_option (fround 1) (older now best t2)))))"

subsection \<open>The tally\<close>

datatype day1_label = L_Throttle pyfloat | L_RamCritical | L_RamLow | L_RamTight | L_Thrashing | L_PagefileRaised
  | L_LatencyHigh string pyfloat | L_LatencyRaised string pyfloat
  | L_BootVerySlow pyfloat | L_BootSlow pyfloat | L_BootOverTarget pyfloat
  | L_RsiVeryLow pyfloat | L_RsiLow pyfloat | L_RsiModerate pyfloat
  | L_PowerLoss int | L_Bugchecks int | L_DirtyShutdowns int | L_AppCrashes int
  | L_Wear pyfloat | L_Reallocated int | L_PowerOn pyfloat | L_Age pyfloat
  | L_FreeCascade pyfloat | L_FreeLow pyfloat | L_FreeTight pyfloat
  | L_PendingReboot | L_DriverProblems int | L_DiskErrors int | L_NicErrors

record factor =
  fa_label :: day1_label
  fa_delta :: pyfloat

type_synonym tally = "pyfloat \<times> factor list"

definition hit :: "day1_label \<Rightarrow> pyfloat \<Rightarrow> tally \<Rightarrow> tally" where
  "hit l d t = (fadd (fst t) d, snd t @ [\<lparr>fa_label = l, fa_delta = fround 1 d\<rparr>])"

definition closed_tally :: "tally \<Rightarrow> tally" where
  \<comment> \<open>\<open>return _clamp(val), factors\<close>\<close>
  "closed_tally t = (clamp (fst t) 0 100, snd t)"

fun below :: "(int \<times> day1_label \<times> int) list \<Rightarrow> pyfloat \<Rightarrow> tally \<Rightarrow> tally" where
  \<comment> \<open>a chain of \<open>if x < bound: hit(...)\<close>, \<open>elif\<close>\<close>
  "below [] x t = t"
| "below ((b, l, d) # bs) x t = (if flt x (Fin (of_int b)) then hit l (Fin (of_int d)) t else below bs x t)"

fun above :: "(rat \<times> day1_label \<times> int) list \<Rightarrow> pyfloat \<Rightarrow> tally \<Rightarrow> tally" where
  "above [] x t = t"
| "above ((b, l, d) # bs) x t = (if flt (Fin b) x then hit l (Fin (of_int d)) t else above bs x t)"

definition counted :: "(int \<Rightarrow> day1_label) \<Rightarrow> int \<Rightarrow> int \<Rightarrow> int \<Rightarrow> pyfloat option \<Rightarrow> tally \<Rightarrow> tally res" where
  \<comment> \<open>\<open>if n: hit(f"{int(n)}x ...", sign * _clamp(n * each, 0, cap))\<close>\<close>
  "counted l sg each cap n t = (case n of None \<Rightarrow> Inr t
     | Some x \<Rightarrow> if feq x (Fin 0) then Inr t
         else bindE (int_of_float x) (\<lambda>i.
           let d = clamp (fmul x (Fin (of_int each))) 0 cap
           in Inr (hit (l i) (if sg < 0 then fneg d else d) t)))"

definition opt_rule :: "(pyfloat \<Rightarrow> tally \<Rightarrow> tally) \<Rightarrow> pyfloat option \<Rightarrow> tally \<Rightarrow> tally" where
  \<comment> \<open>a reading that is missing changes nothing\<close>
  "opt_rule f x t = (case x of None \<Rightarrow> t | Some v \<Rightarrow> f v t)"

subsection \<open>Performance\<close>

definition throttle_rule :: "pyfloat \<Rightarrow> tally \<Rightarrow> tally" where
  "throttle_rule p t =
     (if flt p (Fin 95) then hit (L_Throttle p) (fneg (clamp (fmul (fsub (Fin 95) p) (Fin (3 / 2))) 0 30)) t else t)"

definition memory_rule :: "pyfloat \<Rightarrow> tally \<Rightarrow> tally" where
  "memory_rule = below [(512, L_RamCritical, - 20), (1024, L_RamLow, - 12), (2048, L_RamTight, - 6)]"

definition pagefile_rule :: "pyfloat \<Rightarrow> tally \<Rightarrow> tally" where
  "pagefile_rule = above [(80, L_Thrashing, - 15), (50, L_PagefileRaised, - 8)]"

definition latency_rule :: "string \<Rightarrow> pyfloat \<Rightarrow> tally \<Rightarrow> tally" where
  \<comment> \<open>the literals \<open>0.05\<close> and \<open>0.020\<close> are the doubles next to them\<close>
  "latency_rule what x = above [(3602879701896397 / 72057594037927936, L_LatencyHigh what x, - 15),
     (5764607523034235 / 288230376151711744, L_LatencyRaised what x, - 8)] x"

definition boot_rule :: "pyfloat \<Rightarrow> tally \<Rightarrow> tally" where
  "boot_rule x = above [(90000, L_BootVerySlow x, - 15), (60000, L_BootSlow x, - 10), (40000, L_BootOverTarget x, - 5)] x"

definition performance :: "jobj option \<Rightarrow> jobj option \<Rightarrow> tally res" where
  "performance hb hist =
     bindE (num_field hb ''cpu_perf_pct'') (\<lambda>perf. let t = opt_rule throttle_rule perf (Fin 100, []) in
     bindE (num_field hb ''mem_avail_mb'') (\<lambda>avail. let t = opt_rule memory_rule avail t in
     bindE (num_field hb ''pagefile_pct'') (\<lambda>pf. let t = opt_rule pagefile_rule pf t in
     bindE (num_field hb ''disk_read_sec'') (\<lambda>rd. let t = opt_rule (latency_rule ''read'') rd t in
     bindE (num_field hb ''disk_write_sec'') (\<lambda>wr. let t = opt_rule (latency_rule ''write'') wr t in
     bindE (num_field hist ''avg_boot_ms'') (\<lambda>boot. let t = opt_rule boot_rule boot t in
     Inr (closed_tally t)))))))"

subsection \<open>Reliability\<close>

definition rsi_rule :: "pyfloat \<Rightarrow> tally \<Rightarrow> tally" where
  "rsi_rule x = below [(3, L_RsiVeryLow x, - 25), (5, L_RsiLow x, - 15), (7, L_RsiModerate x, - 7)] x"

definition reliability :: "jobj option \<Rightarrow> tally res" where
  "reliability hist =
     bindE (num_field hist ''reliability_stability_index'') (\<lambda>rsi. let t = opt_rule rsi_rule rsi (Fin 100, []) in
     bindE (num_field hist ''kernel_power_41_30d'') (\<lambda>kp. bindE (counted L_PowerLoss (- 1) 7 35 kp t) (\<lambda>t.
     bindE (num_field hist ''bugchecks_30d'') (\<lambda>bc. bindE (counted L_Bugchecks (- 1) 12 40 bc t) (\<lambda>t.
     bindE (num_field hist ''dirty_shutdowns_30d'') (\<lambda>ds. bindE (counted L_DirtyShutdowns (- 1) 5 25 ds t) (\<lambda>t.
     bindE (num_field hist ''app_crashes_30d'') (\<lambda>ac. bindE (counted L_AppCrashes (- 1) 1 10 ac t) (\<lambda>t.
     Inr (closed_tally t))))))))))"

subsection \<open>Wear\<close>

definition wear_pct_rule :: "jval \<Rightarrow> tally \<Rightarrow> tally res" where
  "wear_pct_rule v t =
     (if v = JNull then Inr t
      else bindE (raw_num v) (\<lambda>x.
        if flt (Fin 0) x
        then bindE (printable_as_float x) (\<lambda>_. Inr (hit (L_Wear x) (fneg (clamp x 0 70)) t))
        else Inr t))"

definition realloc_rule :: "jval \<Rightarrow> tally \<Rightarrow> tally res" where
  "realloc_rule v t =
     (if \<not> truthy v then Inr t
      else bindE (int_of_raw v) (\<lambda>i. bindE (raw_num v) (\<lambda>x.
        Inr (hit (L_Reallocated i) (Fin (if flt (Fin 100) x then - 40 else - 20)) t))))"

definition power_on_rule :: "jval \<Rightarrow> tally \<Rightarrow> tally res" where
  "power_on_rule v t =
     (if v = JNull then Inr t
      else bindE (raw_num v) (\<lambda>x.
        if flt (Fin 25000) x
        then bindE (printable_as_float (case x of Fin q \<Rightarrow> Fin (q / 1000) | _ \<Rightarrow> x)) (\<lambda>_.
          Inr (hit (L_PowerOn x) (Fin (if flt (Fin 40000) x then - 15 else - 8)) t))
        else Inr t))"

definition age_rule :: "pyfloat \<Rightarrow> tally \<Rightarrow> tally" where
  "age_rule x = above [(7, L_Age x, - 15), (5, L_Age x, - 8), (3, L_Age x, - 3)] x"

definition disk_wear :: "jval \<Rightarrow> tally \<Rightarrow> tally res" where
  \<comment> \<open>the loop over the one disk collects the maxima, that is its values; then the rules\<close>
  "disk_wear disk t =
     bindE (obj_get disk ''wear_pct'') (\<lambda>w.
     bindE (obj_get disk ''reallocated_sectors'') (\<lambda>r.
     bindE (obj_get disk ''power_on_hours'') (\<lambda>p.
     bindE (wear_pct_rule w t) (\<lambda>t. bindE (realloc_rule r t) (power_on_rule p)))))"

definition wear :: "int \<Rightarrow> jobj option \<Rightarrow> jobj option \<Rightarrow> tally res" where
  "wear now inventory hist =
     bindE (first_disk hist) (\<lambda>disk.
     bindE (case disk of None \<Rightarrow> Inr (Fin 100, []) | Some d \<Rightarrow> disk_wear d (Fin 100, [])) (\<lambda>t.
     bindE (device_age_years now inventory) (\<lambda>age. Inr (closed_tally (opt_rule age_rule age t)))))"

subsection \<open>Risk exposure\<close>

definition free_rule :: "pyfloat \<Rightarrow> tally \<Rightarrow> tally" where
  "free_rule x = below [(5, L_FreeCascade x, 30), (10, L_FreeLow x, 18), (15, L_FreeTight x, 8)] x"

definition disk_error_count :: "jval \<Rightarrow> int res" where
  "disk_error_count disk =
     bindE (obj_get disk ''read_errors_total'') (\<lambda>r. bindE (if truthy r then int_of_raw r else Inr 0) (\<lambda>a.
     bindE (obj_get disk ''write_errors_total'') (\<lambda>w. bindE (if truthy w then int_of_raw w else Inr 0) (\<lambda>b.
     Inr (a + b)))))"

definition nic_rule :: "pyfloat \<Rightarrow> tally \<Rightarrow> tally" where
  "nic_rule x t = (if flt (Fin 0) x then hit L_NicErrors (Fin 5) t else t)"

definition reboot_rule :: "jobj option \<Rightarrow> tally \<Rightarrow> tally" where
  "reboot_rule inventory t = (case inventory of None \<Rightarrow> t
     | Some d \<Rightarrow> if truthy (jget d ''pending_reboot'') then hit L_PendingReboot (Fin 10) t else t)"

definition risk_exposure :: "jobj option \<Rightarrow> jobj option \<Rightarrow> jobj option \<Rightarrow> tally res" where
  "risk_exposure inventory hist hb =
     bindE (num_field hb ''free_space_pct'') (\<lambda>free. let t = reboot_rule inventory (opt_rule free_rule free (Fin 0, [])) in
     bindE (num_field inventory ''driver_problem_count'') (\<lambda>dpc. bindE (counted L_DriverProblems 1 5 20 dpc t) (\<lambda>t.
     bindE (first_disk hist) (\<lambda>disk.
     bindE (case disk of None \<Rightarrow> Inr 0 | Some d \<Rightarrow> disk_error_count d) (\<lambda>n.
     let t = (if 0 < n then hit (L_DiskErrors n) (Fin 25) t else t) in
     bindE (num_field hb ''nic_errors'') (\<lambda>nic. Inr (closed_tally (opt_rule nic_rule nic t))))))))"

record day1 =
  d1_performance :: pyfloat
  d1_reliability :: pyfloat
  d1_wear :: pyfloat
  d1_risk_exposure :: pyfloat
  d1_factors :: "(string, factor list) dict"

definition compute_day1_scores :: "int \<Rightarrow> jobj option \<Rightarrow> jobj option \<Rightarrow> jobj option \<Rightarrow> day1 res" where
  "compute_day1_scores now inventory hist hb =
     bindE (performance hb hist) (\<lambda>p. bindE (reliability hist) (\<lambda>r.
     bindE (wear now inventory hist) (\<lambda>w. bindE (risk_exposure inventory hist hb) (\<lambda>x.
     Inr \<lparr>d1_performance = fround 1 (fst p), d1_reliability = fround 1 (fst r), d1_wear = fround 1 (fst w),
       d1_risk_exposure = fround 1 (fst x),
       d1_factors = [(''performance'', snd p), (''reliability'', snd r), (''wear'', snd w), (''risk_exposure'', snd x)]\<rparr>))))"

subsection \<open>What the rules do to a tally\<close>

definition moved :: "int \<Rightarrow> int \<Rightarrow> tally \<Rightarrow> tally \<Rightarrow> bool" where
  \<comment> \<open>by hits whose amounts are all in the range\<close>
  "moved a b t t' \<longleftrightarrow> (\<exists>hs. t' = foldl (\<lambda>t (l, d). hit l d t) t hs \<and> list_all (\<lambda>(l, d). ranged a b d) hs)"

named_theorems moves

lemma moved_refl [moves, simp]: "moved a b t t"
  unfolding moved_def by (intro exI[of _ "[]"]) simp

lemma moved_hit [moves]: "ranged a b d \<Longrightarrow> moved a b t (hit l d t)"
  unfolding moved_def by (intro exI[of _ "[(l, d)]"]) simp

lemma moved_trans [trans]:
  assumes "moved a b t t'" "moved a b t' t''"
  shows "moved a b t t''"
proof -
  from assms obtain hs hs' where "t' = foldl (\<lambda>t (l, d). hit l d t) t hs" "list_all (\<lambda>(l, d). ranged a b d) hs"
    "t'' = foldl (\<lambda>t (l, d). hit l d t) t' hs'" "list_all (\<lambda>(l, d). ranged a b d) hs'"
    unfolding moved_def by blast
  then show ?thesis unfolding moved_def by (intro exI[of _ "hs @ hs'"]) simp
qed

lemma moved_opt [moves]: "(\<And>x t. moved a b t (f x t)) \<Longrightarrow> moved a b t (opt_rule f x t)"
  by (simp add: opt_rule_def split: option.split)

lemma moved_below [moves]: "list_all (\<lambda>(_, _, d). a \<le> d \<and> d \<le> b) bs \<Longrightarrow> moved a b t (below bs x t)"
  by (induction bs) (auto intro!: moved_hit)

lemma moved_above [moves]: "list_all (\<lambda>(_, _, d). a \<le> d \<and> d \<le> b) bs \<Longrightarrow> moved a b t (above bs x t)"
  by (induction bs) (auto intro!: moved_hit)

lemma moved_opt_after: "moved a b s t \<Longrightarrow> (\<And>x t. moved a b t (f x t)) \<Longrightarrow> moved a b s (opt_rule f x t)"
  by (rule moved_trans[OF _ moved_opt])

lemma moved_counted_down:
  "counted l (- 1) each cap n t = Inr t' \<Longrightarrow> 0 \<le> cap \<Longrightarrow> a \<le> - cap \<Longrightarrow> 0 \<le> b \<Longrightarrow> moved a b t t'"
  by (auto simp: counted_def bindE_Inr_iff Let_def split: option.splits if_splits intro!: moved_hit clamp_in)

lemma moved_counted_up:
  "counted l 1 each cap n t = Inr t' \<Longrightarrow> 0 \<le> cap \<Longrightarrow> a \<le> 0 \<Longrightarrow> cap \<le> b \<Longrightarrow> moved a b t t'"
  by (auto simp: counted_def bindE_Inr_iff Let_def split: option.splits if_splits intro!: moved_hit clamp_in)

lemma moved_throttle [moves]: "moved (- 70) 0 t (throttle_rule p t)"
  by (auto simp: throttle_rule_def intro!: moved_hit clamp_in)

lemma moved_performance_rules [moves]:
  "moved (- 70) 0 t (memory_rule x t)" "moved (- 70) 0 t (pagefile_rule x t)" "moved (- 70) 0 t (latency_rule w x t)"
  "moved (- 70) 0 t (boot_rule x t)" "moved (- 70) 0 t (rsi_rule x t)" "moved (- 70) 0 t (age_rule x t)"
  by (auto simp: memory_rule_def pagefile_rule_def latency_rule_def boot_rule_def rsi_rule_def age_rule_def
      simp del: below.simps above.simps intro!: moves)

lemma moved_risk_rules [moves]:
  "moved 0 30 t (free_rule x t)" "moved 0 30 t (nic_rule x t)" "moved 0 30 t (reboot_rule inventory t)"
  by (auto simp: free_rule_def nic_rule_def reboot_rule_def ranged_def simp del: below.simps intro!: moves split: option.split)

lemma moved_wear_pct: "wear_pct_rule v t = Inr t' \<Longrightarrow> moved (- 70) 0 t t'"
  by (auto simp: wear_pct_rule_def bindE_Inr_iff split: if_splits intro!: moved_hit clamp_in)

lemma moved_realloc: "realloc_rule v t = Inr t' \<Longrightarrow> moved (- 70) 0 t t'"
  by (auto simp: realloc_rule_def bindE_Inr_iff ranged_def split: if_splits intro!: moved_hit)

lemma moved_power_on: "power_on_rule v t = Inr t' \<Longrightarrow> moved (- 70) 0 t t'"
  by (auto simp: power_on_rule_def bindE_Inr_iff ranged_def split: if_splits intro!: moved_hit)

lemma moved_disk_wear:
  assumes "disk_wear d t = Inr t'"
  shows "moved (- 70) 0 t t'"
proof -
  from assms obtain w r p t1 t2 where "wear_pct_rule w t = Inr t1" "realloc_rule r t1 = Inr t2" "power_on_rule p t2 = Inr t'"
    unfolding disk_wear_def bindE_Inr_iff by blast
  then show ?thesis by (meson moved_wear_pct moved_realloc moved_power_on moved_trans)
qed

subsection \<open>Each score\<close>

lemma performance_moved:
  assumes "performance hb hist = Inr r"
  shows "\<exists>t. moved (- 70) 0 (Fin 100, []) t \<and> r = closed_tally t"
proof -
  from assms obtain a b c d e f where "r = closed_tally (opt_rule boot_rule f (opt_rule (latency_rule ''write'') e
      (opt_rule (latency_rule ''read'') d (opt_rule pagefile_rule c (opt_rule memory_rule b (opt_rule throttle_rule a (Fin 100, [])))))))"
    unfolding performance_def Let_def bindE_Inr_iff by auto
  moreover have "moved (- 70) 0 (Fin 100, []) (opt_rule boot_rule f (opt_rule (latency_rule ''write'') e
      (opt_rule (latency_rule ''read'') d (opt_rule pagefile_rule c (opt_rule memory_rule b (opt_rule throttle_rule a (Fin 100, [])))))))"
    by (intro moved_opt_after moved_throttle moved_performance_rules moved_refl)
  ultimately show ?thesis by blast
qed

lemma reliability_steps:
  assumes "reliability hist = Inr r"
  obtains rsi kp bc ds ac t1 t2 t3 t4 where
    "num_field hist ''reliability_stability_index'' = Inr rsi" "num_field hist ''kernel_power_41_30d'' = Inr kp"
    "num_field hist ''bugchecks_30d'' = Inr bc" "num_field hist ''dirty_shutdowns_30d'' = Inr ds"
    "num_field hist ''app_crashes_30d'' = Inr ac"
    "counted L_PowerLoss (- 1) 7 35 kp (opt_rule rsi_rule rsi (Fin 100, [])) = Inr t1"
    "counted L_Bugchecks (- 1) 12 40 bc t1 = Inr t2" "counted L_DirtyShutdowns (- 1) 5 25 ds t2 = Inr t3"
    "counted L_AppCrashes (- 1) 1 10 ac t3 = Inr t4" "r = closed_tally t4"
  using assms unfolding reliability_def Let_def bindE_Inr_iff by auto

lemma reliability_moved:
  assumes "reliability hist = Inr r"
  shows "\<exists>t. moved (- 70) 0 (Fin 100, []) t \<and> r = closed_tally t"
  using assms
proof (rule reliability_steps)
  fix rsi kp bc ds ac t1 t2 t3 t4
  assume c: "counted L_PowerLoss (- 1) 7 35 kp (opt_rule rsi_rule rsi (Fin 100, [])) = Inr t1"
    "counted L_Bugchecks (- 1) 12 40 bc t1 = Inr t2" "counted L_DirtyShutdowns (- 1) 5 25 ds t2 = Inr t3"
    "counted L_AppCrashes (- 1) 1 10 ac t3 = Inr t4" and r: "r = closed_tally t4"
  have "moved (- 70) 0 (Fin 100, []) (opt_rule rsi_rule rsi (Fin 100, []))" by (intro moves)
  also have "moved (- 70) 0 \<dots> t1" by (rule moved_counted_down[OF c(1)]) simp_all
  also have "moved (- 70) 0 t1 t2" by (rule moved_counted_down[OF c(2)]) simp_all
  also have "moved (- 70) 0 t2 t3" by (rule moved_counted_down[OF c(3)]) simp_all
  also have "moved (- 70) 0 t3 t4" by (rule moved_counted_down[OF c(4)]) simp_all
  finally show ?thesis using r by blast
qed

lemma wear_moved:
  assumes "wear now inventory hist = Inr r"
  shows "\<exists>t. moved (- 70) 0 (Fin 100, []) t \<and> r = closed_tally t"
proof -
  from assms obtain disk t age where "(case disk of None \<Rightarrow> Inr (Fin 100, []) | Some d \<Rightarrow> disk_wear d (Fin 100, [])) = Inr t"
    "r = closed_tally (opt_rule age_rule age t)" unfolding wear_def bindE_Inr_iff by auto
  moreover from this(1) have "moved (- 70) 0 (Fin 100, []) t" by (auto split: option.splits intro: moved_disk_wear)
  moreover have "moved (- 70) 0 t (opt_rule age_rule age t)" by (intro moves)
  ultimately show ?thesis using moved_trans by blast
qed

lemma risk_moved:
  assumes "risk_exposure inventory hist hb = Inr r"
  shows "\<exists>t. moved 0 30 (Fin 0, []) t \<and> r = closed_tally t"
proof -
  from assms obtain free dpc t n nic where
    c: "counted L_DriverProblems 1 5 20 dpc (reboot_rule inventory (opt_rule free_rule free (Fin 0, []))) = Inr t"
    and r: "r = closed_tally (opt_rule nic_rule nic (if 0 < n then hit (L_DiskErrors n) (Fin 25) t else t))"
    unfolding risk_exposure_def Let_def bindE_Inr_iff by auto
  have "moved 0 30 (Fin 0, []) (opt_rule free_rule free (Fin 0, []))" by (intro moves)
  also have "moved 0 30 \<dots> (reboot_rule inventory \<dots>)" by (intro moves)
  also have "moved 0 30 \<dots> t" by (rule moved_counted_up[OF c]) simp_all
  also have "moved 0 30 t (if 0 < n then hit (L_DiskErrors n) (Fin 25) t else t)"
    using ranged_of_int[of 0 30 25] by (auto intro: moved_hit)
  also have "moved 0 30 \<dots> (opt_rule nic_rule nic \<dots>)" by (intro moves)
  finally show ?thesis using r by blast
qed


subsection \<open>Scores are in range and explained\<close>

lemma foldl_hit_factors:
  "snd (foldl (\<lambda>t (l, d). hit l d t) t hs) = snd t @ map (\<lambda>(l, d). \<lparr>fa_label = l, fa_delta = fround 1 d\<rparr>) hs"
  by (induction hs arbitrary: t) (auto simp: hit_def)

lemma moved_explained:
  assumes "moved a b (v, []) t" "\<bar>a\<bar> < 2 ^ 53" "\<bar>b\<bar> < 2 ^ 53"
  shows "(snd t = [] \<longrightarrow> t = (v, [])) \<and> list_all (\<lambda>f. ranged a b (fa_delta f)) (snd t)"
proof -
  from assms obtain hs where hs: "t = foldl (\<lambda>t (l, d). hit l d t) (v, []) hs" "list_all (\<lambda>(l, d). ranged a b d) hs"
    unfolding moved_def by blast
  have "snd t = map (\<lambda>(l, d). \<lparr>fa_label = l, fa_delta = fround 1 d\<rparr>) hs" by (simp add: hs(1) foldl_hit_factors)
  moreover have "snd t = [] \<longrightarrow> t = (v, [])" using hs(1) calculation by simp
  ultimately show ?thesis using hs(2) fround_ranged[OF _ assms(2,3)] by (auto simp: list_all_iff)
qed

definition explained :: "int \<Rightarrow> int \<Rightarrow> pyfloat \<Rightarrow> pyfloat \<Rightarrow> factor list \<Rightarrow> bool" where
  \<comment> \<open>a score between 0 and 100 that differs from its start only with a factor to show for it, each factor in its range\<close>
  "explained a b start v fs \<longleftrightarrow> ranged 0 100 v \<and> (v = start \<or> fs \<noteq> []) \<and> list_all (\<lambda>f. ranged a b (fa_delta f)) fs"

lemma explained_closed:
  assumes "moved a b (Fin (of_int s), []) t" "r = closed_tally t" "\<bar>a\<bar> < 2 ^ 53" "\<bar>b\<bar> < 2 ^ 53" "0 \<le> s" "s \<le> 100"
  shows "explained a b (Fin (of_int s)) (fround 1 (fst r)) (snd r)"
proof -
  note m = moved_explained[OF assms(1,3,4)]
  have "fround 1 (Fin (of_int s)) = Fin (of_int s)"
    using assms(5,6) rnd64_of_int[of s] half_even_of_int[of "s * 10"] by (simp add: fround_def)
  moreover have "clamp (Fin (of_int s)) 0 100 = Fin (of_int s)" using assms(5,6) by (simp add: clamp_id)
  moreover have "ranged 0 100 (fround 1 (clamp (fst t) 0 100))" by (intro fround_ranged clamp_in) simp_all
  ultimately show ?thesis using m by (auto simp: explained_def assms(2) closed_tally_def)
qed

lemma day1_explained:
  assumes "compute_day1_scores now inventory hist hb = Inr d"
  shows "\<exists>p r w x. d1_factors d = [(''performance'', p), (''reliability'', r), (''wear'', w), (''risk_exposure'', x)] \<and>
    explained (- 70) 0 (Fin 100) (d1_performance d) p \<and> explained (- 70) 0 (Fin 100) (d1_reliability d) r \<and>
    explained (- 70) 0 (Fin 100) (d1_wear d) w \<and> explained 0 30 (Fin 0) (d1_risk_exposure d) x"
proof -
  from assms obtain p r w x where c: "performance hb hist = Inr p" "reliability hist = Inr r"
    "wear now inventory hist = Inr w" "risk_exposure inventory hist hb = Inr x"
    and d: "d = \<lparr>d1_performance = fround 1 (fst p), d1_reliability = fround 1 (fst r), d1_wear = fround 1 (fst w),
       d1_risk_exposure = fround 1 (fst x),
       d1_factors = [(''performance'', snd p), (''reliability'', snd r), (''wear'', snd w), (''risk_exposure'', snd x)]\<rparr>"
    unfolding compute_day1_scores_def bindE_Inr_iff by auto
  have health: "explained (- 70) 0 (Fin 100) (fround 1 (fst r)) (snd r)"
    if "\<exists>t. moved (- 70) 0 (Fin 100, []) t \<and> r = closed_tally t" for r
    using that explained_closed[of "- 70" 0 100 _ r] by auto
  have "explained 0 30 (Fin 0) (fround 1 (fst x)) (snd x)"
    using risk_moved[OF c(4)] explained_closed[of 0 30 0 _ x] by auto
  with health[OF performance_moved[OF c(1)]] health[OF reliability_moved[OF c(2)]] health[OF wear_moved[OF c(3)]]
  show ?thesis by (simp add: d)
qed

subsection \<open>Worse readings never raise a score\<close>

definition worse :: "bool \<Rightarrow> pyfloat option \<Rightarrow> pyfloat option \<Rightarrow> bool" where
  \<comment> \<open>the second reading is at least as bad as the first, a missing one being neutral; \<open>up\<close>: higher is worse\<close>
  "worse up a b = (case (a, b) of (None, _) \<Rightarrow> True | (Some x, Some y) \<Rightarrow> if up then fle x y else fle y x | _ \<Rightarrow> False)"

definition no_better :: "tally \<Rightarrow> tally \<Rightarrow> bool" where
  "no_better t' t \<longleftrightarrow> fle (fst t') (fst t) \<and> double (fst t') \<and> double (fst t)"

lemma no_better_refl: "double (fst t) \<Longrightarrow> fst t \<noteq> NaN \<Longrightarrow> no_better t t"
  by (simp add: no_better_def fle_refl)

lemma no_better_hit_both: "no_better t' t \<Longrightarrow> ranged a b d' \<Longrightarrow> fle d' d \<Longrightarrow> ranged a b d \<Longrightarrow> no_better (hit l' d' t') (hit l d t)"
  by (auto simp: no_better_def hit_def ranged_def intro: fadd_mono)

lemma no_better_hit: "no_better t' t \<Longrightarrow> ranged a 0 d \<Longrightarrow> no_better (hit l d t') t"
  using fadd_le by (auto simp: no_better_def hit_def ranged_def) (metis fle_simps(2,3) fle_trans)

lemma hit_zero: "double (fst t) \<Longrightarrow> fst (hit l (Fin 0) t) = fst t"
  by (cases "fst t") (auto simp: hit_def double_def)

lemma fmul_mono: "fle x y \<Longrightarrow> 0 < k \<Longrightarrow> fle (fmul x (Fin k)) (fmul y (Fin k))"
  by (cases x; cases y) (auto simp: sign_inf_def intro: rnd64_fle)

lemma fneg_fle [simp]: "fle (fneg x) (fneg y) \<longleftrightarrow> fle y x"
  by (cases x; cases y) auto

lemma fsub_anti: "fle x y \<Longrightarrow> fle (fsub (Fin a) y) (fsub (Fin a) x)"
  by (cases x; cases y) (auto simp: fsub_def intro: rnd64_fle)

lemma hit_keeps: "double (fst (hit l d t))"
  by (simp add: hit_def)

lemma opt_rule_mono:
  assumes "no_better t' t" "worse up x y"
    and "\<And>v t. double (fst t) \<Longrightarrow> fst t \<noteq> NaN \<Longrightarrow> no_better (f v t) t"
    and "\<And>v w t t'. no_better t' t \<Longrightarrow> (if up then fle v w else fle w v) \<Longrightarrow> no_better (f w t') (f v t)"
  shows "no_better (opt_rule f y t') (opt_rule f x t)"
proof -
  have t': "double (fst t')" "fst t' \<noteq> NaN" using assms(1) by (auto simp: no_better_def)
  have tr: "no_better (f v t') t" for v
    using assms(1) assms(3)[OF t', of v] by (auto simp: no_better_def intro: fle_trans)
  show ?thesis using assms(1,2,4) tr by (auto simp: opt_rule_def worse_def split: option.splits if_splits)
qed

lemma fneg_clamp_ranged: "0 \<le> cap \<Longrightarrow> ranged (- cap) 0 (fneg (clamp x 0 cap))"
  by (simp add: clamp_in)

lemma no_better_fixed: "no_better t' t \<Longrightarrow> d \<le> 0 \<Longrightarrow> no_better (hit l (Fin (of_int d)) t') t"
  by (rule no_better_hit[where a = d]) simp_all

lemma no_better_fixed_both:
  "no_better t' t \<Longrightarrow> d \<le> d' \<Longrightarrow> no_better (hit l (Fin (of_int d)) t') (hit l' (Fin (of_int d')) t)"
  by (rule no_better_hit_both[where a = d and b = d']) simp_all

lemma below_worse: "no_better t' t \<Longrightarrow> list_all (\<lambda>(_, _, d). d \<le> 0) bs \<Longrightarrow> no_better (below bs x t') t"
  by (induction bs) (auto intro: no_better_fixed)

lemma above_worse: "no_better t' t \<Longrightarrow> list_all (\<lambda>(_, _, d). d \<le> 0) bs \<Longrightarrow> no_better (above bs x t') t"
  by (induction bs) (auto intro: no_better_fixed)

lemma hit_below_least: "no_better t' t \<Longrightarrow> d \<le> 0 \<Longrightarrow> list_all (\<lambda>(_, _, d'). d \<le> d' \<and> d' \<le> 0) bs \<Longrightarrow>
    no_better (hit l (Fin (of_int d)) t') (below bs x t)"
  by (induction bs) (auto intro: no_better_fixed no_better_fixed_both)

lemma hit_above_least: "no_better t' t \<Longrightarrow> d \<le> 0 \<Longrightarrow> list_all (\<lambda>(_, _, d'). d \<le> d' \<and> d' \<le> 0) bs \<Longrightarrow>
    no_better (hit l (Fin (of_int d)) t') (above bs x t)"
  by (induction bs) (auto intro: no_better_fixed no_better_fixed_both)

definition chain :: "('b \<times> day1_label \<times> int) list \<Rightarrow> bool" where
  \<comment> \<open>the amounts of a chain of conditions: none positive, the first the heaviest\<close>
  "chain bs \<longleftrightarrow> sorted (map (\<lambda>(_, _, d). d) bs) \<and> list_all (\<lambda>(_, _, d). d \<le> 0) bs"

lemma below_mono:
  assumes "no_better t' t" "fle y x" "chain bs" "map (\<lambda>(b, _, d). (b, d)) bs' = map (\<lambda>(b, _, d). (b, d)) bs"
  shows "no_better (below bs' y t') (below bs x t)"
  using assms(3,4)
proof (induction bs arbitrary: bs')
  case (Cons p bs)
  then obtain b l d l' bs'' where p: "p = (b, l, d)" "bs' = (b, l', d) # bs''"
    "map (\<lambda>(b, _, d). (b, d)) bs'' = map (\<lambda>(b, _, d). (b, d)) bs"
    by (cases p; cases bs') auto
  from Cons.prems(1) p(1) have c: "chain bs" "d \<le> 0" "list_all (\<lambda>(_, _, d'). d \<le> d' \<and> d' \<le> 0) bs"
    by (auto simp: chain_def list_all_iff)
  have "flt y (Fin (of_int b))" if "flt x (Fin (of_int b))" using that assms(2) by (cases x; cases y) auto
  moreover have "no_better (hit l' (Fin (of_int d)) t') (hit l (Fin (of_int d)) t)"
    by (rule no_better_fixed_both[OF assms(1)]) simp
  ultimately show ?case using Cons.IH[OF c(1) p(3)] hit_below_least[OF assms(1) c(2,3)] by (auto simp: p)
qed (use assms(1) in simp)

lemma above_mono:
  assumes "no_better t' t" "fle x y" "chain bs" "map (\<lambda>(b, _, d). (b, d)) bs' = map (\<lambda>(b, _, d). (b, d)) bs"
  shows "no_better (above bs' y t') (above bs x t)"
  using assms(3,4)
proof (induction bs arbitrary: bs')
  case (Cons p bs)
  then obtain b l d l' bs'' where p: "p = (b, l, d)" "bs' = (b, l', d) # bs''"
    "map (\<lambda>(b, _, d). (b, d)) bs'' = map (\<lambda>(b, _, d). (b, d)) bs"
    by (cases p; cases bs') auto
  from Cons.prems(1) p(1) have c: "chain bs" "d \<le> 0" "list_all (\<lambda>(_, _, d'). d \<le> d' \<and> d' \<le> 0) bs"
    by (auto simp: chain_def list_all_iff)
  have "flt (Fin b) y" if "flt (Fin b) x" using that assms(2) by (cases x; cases y) auto
  moreover have "no_better (hit l' (Fin (of_int d)) t') (hit l (Fin (of_int d)) t)"
    by (rule no_better_fixed_both[OF assms(1)]) simp
  ultimately show ?case using Cons.IH[OF c(1) p(3)] hit_above_least[OF assms(1) c(2,3)] by (auto simp: p)
qed (use assms(1) in simp)

lemma counted_mono:
  assumes "no_better t' t" "worse True n n'" "0 \<le> cap" "0 < each"
    "counted l (- 1) each cap n t = Inr r" "counted l (- 1) each cap n' t' = Inr r'"
  shows "no_better r' r"
proof -
  let ?d = "\<lambda>x. fneg (clamp (fmul x (Fin (of_int each))) 0 cap)"
  have rg: "ranged (- cap) 0 (?d x)" for x using assms(3) by (rule fneg_clamp_ranged)
  have r: "r = t \<or> (\<exists>x i. n = Some x \<and> \<not> feq x (Fin 0) \<and> x \<noteq> NInf \<and> r = hit (l i) (?d x) t)"
    using assms(5) by (auto simp: counted_def int_of_float_def bindE_Inr_iff Let_def split: option.splits if_splits)
  have r': "r' = t' \<and> (n' = None \<or> (\<exists>y. n' = Some y \<and> feq y (Fin 0))) \<or> (\<exists>y i. n' = Some y \<and> r' = hit (l i) (?d y) t')"
    using assms(6) by (auto simp: counted_def bindE_Inr_iff Let_def split: option.splits if_splits)
  show ?thesis
  proof (cases "r = t")
    case True
    with r' show ?thesis using assms(1) no_better_hit[OF assms(1) rg] by auto
  next
    case False
    with r obtain x i where x: "n = Some x" "\<not> feq x (Fin 0)" "x \<noteq> NInf" "r = hit (l i) (?d x) t" by blast
    with assms(2) obtain y where y: "n' = Some y" "fle x y" by (auto simp: worse_def split: option.splits)
    show ?thesis
    proof (cases "feq y (Fin 0)")
      case True
      then have "y = Fin 0" by (cases y) auto
      with x(2,3) y(2) obtain q where q: "x = Fin q" "q < 0" by (cases x) auto
      then have "fle (fmul x (Fin (of_int each))) (Fin (of_int 0))"
        using rnd64_fle[of "q * of_int each" 0] assms(4) by (simp add: mult_nonpos_nonneg rnd64_def[of 0])
      then have "clamp (fmul x (Fin (of_int each))) 0 cap = Fin 0"
        using clamp_mono[of _ "Fin (of_int 0)" 0 cap] clamp_id[of 0 cap "Fin (of_int 0)"] clamp_ranged[of 0 cap] assms(3)
        by (auto simp: ranged_def intro: fle_antisym)
      then have "fst r = fst t" using x(4) hit_zero assms(1) by (auto simp: no_better_def)
      moreover have "r' = t'" using r' True y(1) assms(6) by (auto simp: counted_def)
      ultimately show ?thesis using assms(1) by (simp add: no_better_def)
    next
      case False
      with r' y(1) obtain j where "r' = hit (l j) (?d y) t'" by auto
      moreover have "fle (?d y) (?d x)" unfolding fneg_fle
        using assms(3,4) y(2) by (intro clamp_mono fmul_mono) simp_all
      ultimately show ?thesis using x(4) no_better_hit_both[OF assms(1) rg _ rg] by simp
    qed
  qed
qed

lemmas rule_defs = memory_rule_def pagefile_rule_def latency_rule_def boot_rule_def rsi_rule_def

lemma throttle_mono:
  assumes "no_better t' t" "fle q p"
  shows "no_better (throttle_rule q t') (throttle_rule p t)"
proof -
  let ?d = "\<lambda>p. fneg (clamp (fmul (fsub (Fin 95) p) (Fin (3 / 2))) 0 30)"
  have rg: "ranged (- 30) 0 (?d x)" for x by (rule fneg_clamp_ranged) simp
  have "flt q (Fin 95)" if "flt p (Fin 95)" using that assms(2) by (cases p; cases q) auto
  moreover have "fle (?d q) (?d p)" unfolding fneg_fle using assms(2) by (intro clamp_mono fmul_mono fsub_anti) simp_all
  ultimately show ?thesis using no_better_hit_both[OF assms(1) rg _ rg] no_better_hit[OF assms(1) rg] assms(1)
    by (auto simp: throttle_rule_def)
qed

lemma rules_worse:
  assumes "double (fst t)" "fst t \<noteq> NaN"
  shows "no_better (throttle_rule v t) t" "no_better (memory_rule v t) t" "no_better (pagefile_rule v t) t"
    "no_better (latency_rule s v t) t" "no_better (boot_rule v t) t" "no_better (rsi_rule v t) t"
proof -
  note r = no_better_refl[OF assms]
  show "no_better (throttle_rule v t) t"
    using no_better_hit[OF r fneg_clamp_ranged[of 30]] r by (simp add: throttle_rule_def)
qed (auto simp: rule_defs simp del: below.simps above.simps intro!: below_worse above_worse no_better_refl assms)

lemma rules_mono:
  assumes "no_better t' t"
  shows "fle y x \<Longrightarrow> no_better (memory_rule y t') (memory_rule x t)"
    "fle x y \<Longrightarrow> no_better (pagefile_rule y t') (pagefile_rule x t)"
    "fle x y \<Longrightarrow> no_better (latency_rule s y t') (latency_rule s x t)"
    "fle x y \<Longrightarrow> no_better (boot_rule y t') (boot_rule x t)"
    "fle y x \<Longrightarrow> no_better (rsi_rule y t') (rsi_rule x t)"
  unfolding rule_defs by (rule below_mono[OF assms] above_mono[OF assms]; simp add: chain_def)+

lemmas opt_up = opt_rule_mono[where up = True, simplified]
lemmas opt_down = opt_rule_mono[where up = False, simplified]

definition worse_at :: "bool \<Rightarrow> string \<Rightarrow> jobj option \<Rightarrow> jobj option \<Rightarrow> bool" where
  "worse_at up k d d' \<longleftrightarrow> (\<exists>a b. num_field d k = Inr a \<and> num_field d' k = Inr b \<and> worse up a b)"

definition worse_vitals :: "jobj option \<times> jobj option \<Rightarrow> jobj option \<times> jobj option \<Rightarrow> bool" where
  \<comment> \<open>heartbeat and history: every reading of the second at least as bad\<close>
  "worse_vitals v v' \<longleftrightarrow>
     (\<forall>k\<in>{''cpu_perf_pct'', ''mem_avail_mb''}. worse_at False k (fst v) (fst v')) \<and>
     (\<forall>k\<in>{''pagefile_pct'', ''disk_read_sec'', ''disk_write_sec''}. worse_at True k (fst v) (fst v')) \<and>
     (\<forall>k\<in>{''avg_boot_ms'', ''kernel_power_41_30d'', ''bugchecks_30d'', ''dirty_shutdowns_30d'', ''app_crashes_30d''}.
        worse_at True k (snd v) (snd v')) \<and>
     worse_at False ''reliability_stability_index'' (snd v) (snd v')"

lemma no_better_start: "no_better (Fin 100, []) (Fin 100, [])"
  using rnd64_of_int[of 100] by (intro no_better_refl) (simp_all add: double_def)

lemma no_better_closed: "no_better t' t \<Longrightarrow> fle (fst (closed_tally t')) (fst (closed_tally t))"
  by (simp add: no_better_def closed_tally_def clamp_mono)

lemma performance_worse:
  assumes "performance hb hist = Inr r" "performance hb' hist' = Inr r'" "worse_vitals (hb, hist) (hb', hist')"
  shows "fle (fst r') (fst r)"
proof -
  define T where "T = (\<lambda>a b c d e f. opt_rule boot_rule f (opt_rule (latency_rule ''write'') e
      (opt_rule (latency_rule ''read'') d (opt_rule pagefile_rule c (opt_rule memory_rule b (opt_rule throttle_rule a (Fin 100, [])))))))"
  from assms(1) obtain a b c d e f where r: "num_field hb ''cpu_perf_pct'' = Inr a" "num_field hb ''mem_avail_mb'' = Inr b"
      "num_field hb ''pagefile_pct'' = Inr c" "num_field hb ''disk_read_sec'' = Inr d"
      "num_field hb ''disk_write_sec'' = Inr e" "num_field hist ''avg_boot_ms'' = Inr f" "r = closed_tally (T a b c d e f)"
    unfolding performance_def Let_def bindE_Inr_iff T_def by auto
  from assms(2) obtain a' b' c' d' e' f' where r': "num_field hb' ''cpu_perf_pct'' = Inr a'" "num_field hb' ''mem_avail_mb'' = Inr b'"
      "num_field hb' ''pagefile_pct'' = Inr c'" "num_field hb' ''disk_read_sec'' = Inr d'"
      "num_field hb' ''disk_write_sec'' = Inr e'" "num_field hist' ''avg_boot_ms'' = Inr f'" "r' = closed_tally (T a' b' c' d' e' f')"
    unfolding performance_def Let_def bindE_Inr_iff T_def by auto
  have w: "worse False a a'" "worse False b b'" "worse True c c'" "worse True d d'" "worse True e e'" "worse True f f'"
    using assms(3) r r' by (auto simp: worse_vitals_def worse_at_def)
  have "no_better (T a' b' c' d' e' f') (T a b c d e f)"
    unfolding T_def
    by (intro opt_down[OF _ w(1)] opt_down[OF _ w(2)] opt_up[OF _ w(3)] opt_up[OF _ w(4)] opt_up[OF _ w(5)]
        opt_up[OF _ w(6)] rules_worse rules_mono throttle_mono no_better_start)
  then show ?thesis using r(7) r'(7) no_better_closed by simp
qed

lemma reliability_worse:
  assumes "reliability hist = Inr r" "reliability hist' = Inr r'" "worse_vitals (hb, hist) (hb', hist')"
  shows "fle (fst r') (fst r)"
proof -
  obtain a b c d e t1 t2 t3 t4 where r: "num_field hist ''reliability_stability_index'' = Inr a"
    "num_field hist ''kernel_power_41_30d'' = Inr b" "num_field hist ''bugchecks_30d'' = Inr c"
    "num_field hist ''dirty_shutdowns_30d'' = Inr d" "num_field hist ''app_crashes_30d'' = Inr e"
    and c: "counted L_PowerLoss (- 1) 7 35 b (opt_rule rsi_rule a (Fin 100, [])) = Inr t1"
    "counted L_Bugchecks (- 1) 12 40 c t1 = Inr t2" "counted L_DirtyShutdowns (- 1) 5 25 d t2 = Inr t3"
    "counted L_AppCrashes (- 1) 1 10 e t3 = Inr t4" "r = closed_tally t4"
    by (rule reliability_steps[OF assms(1)])
  obtain a' b' c' d' e' t1' t2' t3' t4' where r': "num_field hist' ''reliability_stability_index'' = Inr a'"
    "num_field hist' ''kernel_power_41_30d'' = Inr b'" "num_field hist' ''bugchecks_30d'' = Inr c'"
    "num_field hist' ''dirty_shutdowns_30d'' = Inr d'" "num_field hist' ''app_crashes_30d'' = Inr e'"
    and c': "counted L_PowerLoss (- 1) 7 35 b' (opt_rule rsi_rule a' (Fin 100, [])) = Inr t1'"
    "counted L_Bugchecks (- 1) 12 40 c' t1' = Inr t2'" "counted L_DirtyShutdowns (- 1) 5 25 d' t2' = Inr t3'"
    "counted L_AppCrashes (- 1) 1 10 e' t3' = Inr t4'" "r' = closed_tally t4'"
    by (rule reliability_steps[OF assms(2)])
  have w: "worse False a a'" "worse True b b'" "worse True c c'" "worse True d d'" "worse True e e'"
    using assms(3) r r' by (auto simp: worse_vitals_def worse_at_def)
  have "no_better (opt_rule rsi_rule a' (Fin 100, [])) (opt_rule rsi_rule a (Fin 100, []))"
    by (intro opt_down[OF _ w(1)] rules_worse rules_mono no_better_start)
  from counted_mono[OF this w(2) _ _ c(1) c'(1)] have "no_better t1' t1" by simp
  from counted_mono[OF this w(3) _ _ c(2) c'(2)] have "no_better t2' t2" by simp
  from counted_mono[OF this w(4) _ _ c(3) c'(3)] have "no_better t3' t3" by simp
  from counted_mono[OF this w(5) _ _ c(4) c'(4)] have "no_better t4' t4" by simp
  then show ?thesis using c(5) c'(5) no_better_closed by simp
qed

lemma fround_mono: "fle x y \<Longrightarrow> fle (fround n x) (fround n y)"
proof -
  have "fle (rnd64 (of_int (half_even (p * 10 ^ n)) / 10 ^ n)) (rnd64 (of_int (half_even (q * 10 ^ n)) / 10 ^ n))" if "p \<le> q" for p q
    using that by (intro rnd64_fle divide_right_mono) (simp_all add: half_even_mono mult_right_mono)
  then show "fle x y \<Longrightarrow> fle (fround n x) (fround n y)" by (cases x; cases y) (auto simp: fround_def)
qed


subsection \<open>Readings of the contract never raise\<close>

definition reading :: "jval \<Rightarrow> bool" where
  "reading v \<longleftrightarrow> v = JNull \<or> (\<exists>i. v = JInt i \<and> \<bar>i\<bar> < 2 ^ 53) \<or> (\<exists>q. v = JFloat (Fin q) \<and> double (Fin q))"

definition date_text :: "jval \<Rightarrow> bool" where
  "date_text v \<longleftrightarrow> v = JNull \<or> (\<exists>s. v = JStr s)"

definition disk_reading_ok :: "jval \<Rightarrow> bool" where
  "disk_reading_ok v \<longleftrightarrow> (\<exists>d. v = JObj d \<and> (\<forall>k. reading (jget d k)))"

definition contract_readings :: "jobj option \<Rightarrow> jobj option \<Rightarrow> jobj option \<Rightarrow> bool" where
  \<comment> \<open>what the schema of a payload lets through: numbers, dates as text and a list of disks\<close>
  "contract_readings inventory hist hb \<longleftrightarrow>
     (\<forall>d k. hb = Some d \<longrightarrow> reading (jget d k)) \<and>
     (\<forall>d k. hist = Some d \<longrightarrow> k \<noteq> ''storage'' \<longrightarrow> reading (jget d k)) \<and>
     (\<forall>d. hist = Some d \<longrightarrow> jget d ''storage'' = JNull \<or> (\<exists>xs. jget d ''storage'' = JList xs \<and> list_all disk_reading_ok xs)) \<and>
     (\<forall>d. inventory = Some d \<longrightarrow> date_text (jget d ''bios_release_date'') \<and> date_text (jget d ''os_install_date'') \<and>
        reading (jget d ''driver_problem_count''))"

lemma total_bind: "\<exists>x. m = Inr x \<Longrightarrow> (\<And>x. m = Inr x \<Longrightarrow> \<exists>r. f x = Inr r) \<Longrightarrow> \<exists>r. bindE m f = Inr r"
  by auto

lemma reading_to_num: "reading v \<Longrightarrow> \<exists>x. to_num v = Inr x \<and> (\<forall>y. x = Some y \<longrightarrow> (\<exists>q. y = Fin q))"
  by (auto simp: reading_def float_of_int_def rnd64_of_int)

lemma reading_int: "reading v \<Longrightarrow> v \<noteq> JNull \<Longrightarrow> \<exists>i. int_of_raw v = Inr i"
  by (auto simp: reading_def int_of_float_def)

lemma reading_raw: "reading v \<Longrightarrow> v \<noteq> JNull \<Longrightarrow> \<exists>q. raw_num v = Inr (Fin q) \<and> rnd64 q = Fin q"
  by (auto simp: reading_def rnd64_of_int double_def)

lemma counted_total: "(\<And>y. n = Some y \<Longrightarrow> \<exists>q. y = Fin q) \<Longrightarrow> \<exists>r. counted l sg each cap n t = Inr r"
  by (cases n) (fastforce simp: counted_def int_of_float_def Let_def)+

lemma printable_double: "rnd64 q = Fin q \<Longrightarrow> printable_as_float (Fin q) = Inr ()"
  by (simp add: printable_as_float_def)

lemma printable_thousandth:
  assumes "rnd64 q = Fin q" "25000 < q"
  shows "printable_as_float (Fin (q / 1000)) = Inr ()"
proof -
  have "fle (rnd64 (q / 1000)) (rnd64 q)" "fle (rnd64 0) (rnd64 (q / 1000))" using assms(2) by (intro rnd64_fle; simp)+
  then have "\<exists>r. rnd64 (q / 1000) = Fin r" using assms(1) rnd64_of_int[of 0] by (cases "rnd64 (q / 1000)") simp_all
  then show ?thesis by (auto simp: printable_as_float_def)
qed

lemma disk_wear_total:
  assumes "disk_reading_ok v"
  shows "\<exists>r. disk_wear v t = Inr r"
proof -
  from assms obtain d where v: "v = JObj d" and rd: "\<And>k. reading (jget d k)" by (auto simp: disk_reading_ok_def)
  have wp: "\<exists>r. wear_pct_rule w t = Inr r" if rw: "reading w" for w t
  proof (cases "w = JNull")
    case False
    then obtain q where "raw_num w = Inr (Fin q)" "rnd64 q = Fin q" using reading_raw[OF rw] by blast
    with False show ?thesis by (simp add: wear_pct_rule_def printable_double)
  qed (simp add: wear_pct_rule_def)
  have re: "\<exists>r. realloc_rule w t = Inr r" if rw: "reading w" for w t
  proof (cases "w = JNull")
    case False
    then obtain q i where "raw_num w = Inr (Fin q)" "int_of_raw w = Inr i" using reading_raw[OF rw] reading_int[OF rw] by blast
    then show ?thesis by (simp add: realloc_rule_def)
  qed (simp add: realloc_rule_def)
  have po: "\<exists>r. power_on_rule w t = Inr r" if rw: "reading w" for w t
  proof (cases "w = JNull")
    case False
    then obtain q where "raw_num w = Inr (Fin q)" "rnd64 q = Fin q" using reading_raw[OF rw] by blast
    with False show ?thesis by (simp add: power_on_rule_def printable_thousandth)
  qed (simp add: power_on_rule_def)
  show ?thesis unfolding disk_wear_def v obj_get.simps bindE.simps
    by (intro total_bind wp re po rd)
qed

lemma disk_errors_total:
  assumes "disk_reading_ok v"
  shows "\<exists>n. disk_error_count v = Inr n"
proof -
  from assms obtain d where v: "v = JObj d" and rd: "\<And>k. reading (jget d k)" by (auto simp: disk_reading_ok_def)
  have i: "\<exists>i. (if truthy w then int_of_raw w else Inr 0) = Inr i" if "reading w" for w
    using reading_int[OF that] by (cases "w = JNull") auto
  show ?thesis unfolding disk_error_count_def v obj_get.simps bindE.simps by (intro total_bind i rd) simp
qed

lemma first_disk_total:
  assumes "contract_readings inventory hist hb"
  shows "\<exists>d. first_disk hist = Inr d \<and> (\<forall>v. d = Some v \<longrightarrow> disk_reading_ok v)"
proof (cases hist)
  case (Some h)
  with assms consider "jget h ''storage'' = JNull" | xs where "jget h ''storage'' = JList xs" "list_all disk_reading_ok xs"
    by (auto simp: contract_readings_def)
  then show ?thesis by cases (auto simp: first_disk_def Some split: list.split)
qed (simp add: first_disk_def)

lemma field_total:
  assumes "\<And>m. d = Some m \<Longrightarrow> reading (jget m k)"
  shows "\<exists>x. num_field d k = Inr x \<and> (\<forall>y. x = Some y \<longrightarrow> (\<exists>q. y = Fin q))"
  using assms reading_to_num by (cases d) (auto simp: num_field_def)

lemma age_total: "contract_readings inventory hist hb \<Longrightarrow> \<exists>a. device_age_years now inventory = Inr a"
  by (cases inventory) (auto simp: contract_readings_def device_age_years_def date_text_def parse_date_def Let_def)


lemma finite_field: "(\<And>m. d = Some m \<Longrightarrow> reading (jget m k)) \<Longrightarrow> num_field d k = Inr x \<Longrightarrow> x = Some y \<Longrightarrow> \<exists>q. y = Fin q"
  by (metis field_total sum.inject(2))

lemma day1_total:
  assumes c: "contract_readings inventory hist hb"
  shows "\<exists>d. compute_day1_scores now inventory hist hb = Inr d"
proof -
  have hb: "\<And>m k. hb = Some m \<Longrightarrow> reading (jget m k)"
    and hi: "\<And>m k. k \<noteq> ''storage'' \<Longrightarrow> hist = Some m \<Longrightarrow> reading (jget m k)"
    and iv: "\<And>m. inventory = Some m \<Longrightarrow> reading (jget m ''driver_problem_count'')"
    using c by (auto simp: contract_readings_def)
  have fb: "\<exists>x. num_field hb k = Inr x" for k using field_total[of hb k] hb by blast
  have fh: "k \<noteq> ''storage'' \<Longrightarrow> \<exists>x. num_field hist k = Inr x" for k using field_total[of hist k] hi by blast
  have fi: "\<exists>x. num_field inventory ''driver_problem_count'' = Inr x" using field_total[of inventory] iv by blast
  have ch: "\<exists>r. counted l sg each cap n t = Inr r" if "num_field hist k = Inr n" "k \<noteq> ''storage''" for l sg each cap n t k
    using counted_total finite_field[OF hi that(1)] that(2) by blast
  have ci: "\<exists>r. counted l sg each cap n t = Inr r" if "num_field inventory ''driver_problem_count'' = Inr n" for l sg each cap n t
    using counted_total finite_field[OF iv that] by blast
  have p: "\<exists>r. performance hb hist = Inr r" unfolding performance_def Let_def by (intro total_bind fb fh) simp_all
  have r: "\<exists>r. reliability hist = Inr r" unfolding reliability_def Let_def by (intro total_bind fh ch) (assumption | simp)+
  have fd: "\<exists>d. first_disk hist = Inr d" using first_disk_total[OF c] by blast
  have dk: "disk_reading_ok v" if "first_disk hist = Inr (Some v)" for v using first_disk_total[OF c] that by auto
  have w: "\<exists>r. wear now inventory hist = Inr r" unfolding wear_def
    by (intro total_bind fd age_total[OF c])
      (auto simp del: split_paired_Ex split: option.split intro: disk_wear_total dk)
  have x: "\<exists>r. risk_exposure inventory hist hb = Inr r" unfolding risk_exposure_def Let_def
    by (intro total_bind fb fi fd ci; assumption?)
      (auto simp del: split_paired_Ex split: option.split intro: disk_errors_total dk)
  show ?thesis unfolding compute_day1_scores_def using p r w x by auto
qed


text \<open>Readings the payload's schema lets through always produce the four scores, and each score can be
  explained: it lies between 0 and 100, it leaves its starting value only with a factor to show for it, every
  factor of a health score lowers it and every factor of the risk raises it.\<close>
theorem day1_scores_explained:
  assumes "contract_readings inventory hist hb"
  shows "\<exists>d p r w x. compute_day1_scores now inventory hist hb = Inr d \<and>
    d1_factors d = [(''performance'', p), (''reliability'', r), (''wear'', w), (''risk_exposure'', x)] \<and>
    explained (- 70) 0 (Fin 100) (d1_performance d) p \<and> explained (- 70) 0 (Fin 100) (d1_reliability d) r \<and>
    explained (- 70) 0 (Fin 100) (d1_wear d) w \<and> explained 0 30 (Fin 0) (d1_risk_exposure d) x"
  using day1_total[OF assms] day1_explained by meson

theorem day1_scores_explained_witness:
  "\<exists>d. compute_day1_scores 0 None (Some [(''bugchecks_30d'', JInt 2)]) (Some [(''free_space_pct'', JFloat (Fin 3))]) = Inr d \<and>
     ranged 0 100 (d1_reliability d) \<and> ranged 0 100 (d1_risk_exposure d)"
proof -
  have "contract_readings None (Some [(''bugchecks_30d'', JInt 2)]) (Some [(''free_space_pct'', JFloat (Fin 3))])"
    using rnd64_of_int[of 3] by (auto simp: contract_readings_def reading_def jget_def double_def)
  from day1_scores_explained[OF this, of 0] show ?thesis unfolding explained_def by blast
qed

text \<open>Making readings worse never raises the performance or the reliability score.  A missing reading counts
  as the best one, so it is for the trust gate, not for these scores, to say what was not seen.\<close>
theorem worse_readings_never_raise_scores:
  assumes "compute_day1_scores now inventory hist hb = Inr d" "compute_day1_scores now inventory hist' hb' = Inr d'"
    "worse_vitals (hb, hist) (hb', hist')"
  shows "fle (d1_performance d') (d1_performance d) \<and> fle (d1_reliability d') (d1_reliability d)"
  using assms performance_worse[OF _ _ assms(3)] reliability_worse[OF _ _ assms(3)] fround_mono
  unfolding compute_day1_scores_def bindE_Inr_iff by auto

theorem worse_readings_never_raise_scores_witness:
  "\<exists>d d'. compute_day1_scores 0 None None None = Inr d \<and>
     compute_day1_scores 0 None (Some [(''bugchecks_30d'', JInt 2)]) None = Inr d' \<and> fle (d1_reliability d') (d1_reliability d)"
proof -
  have "contract_readings None None None" "contract_readings None (Some [(''bugchecks_30d'', JInt 2)]) None"
    by (auto simp: contract_readings_def reading_def jget_def)
  then obtain d d' where d: "compute_day1_scores 0 None None None = Inr d"
    "compute_day1_scores 0 None (Some [(''bugchecks_30d'', JInt 2)]) None = Inr d'" using day1_total by meson
  have "worse_vitals (None, None) (None, Some [(''bugchecks_30d'', JInt 2)])"
    using rnd64_of_int[of 2] by (simp add: worse_vitals_def worse_at_def num_field_def worse_def jget_def float_of_int_def)
  from worse_readings_never_raise_scores[OF d this] d show ?thesis by blast
qed

end
