(* ===== verification/Score100.thy ===== *)
theory Score100
  imports TrustStore DayOne
begin

text \<open>
  The confidence-gated envelope of \<open>server/scoring/score100.py\<close>: the day-one numbers are withheld, kept with a
  lowered confidence or kept as they are, depending on the device's identity, on what telemetry there is and on
  the trust of each domain; and the observability score.  The trust a device has is the blob the ingest
  stores.  Messages are constructors.
\<close>

datatype direction = HigherIsBetter | HigherIsWorse
datatype band = Good | Watch | Bad | NoBand
datatype confidence = ConfHigh | ConfMedium | ConfLow | NoConf

datatype missing = M_Identity | M_NoSourceHealth | M_NoVitals | M_NoHistory | M_NoWear | M_NoRisk
  | M_Unavailable string | M_NoSensor string | M_NoDomains | M_Unknown string | M_Regressed string

datatype score_reason = SR_None | SR_Untrusted | SR_NoTelemetry | SR_NoSourceHealth | SR_RiskUnderstated
  | SR_RequiredUnknown | SR_NoDomains | SR_Unconfirmed

datatype lineage = LinNone | LinIdentity | LinDomains "(string \<times> domain_state) list"

record 'f score100 =
  sc_value :: "pyfloat option"
  sc_direction :: direction
  sc_band :: band
  sc_confidence :: confidence
  sc_factors :: "'f list"
  sc_missing :: "missing list"
  sc_lineage :: lineage
  sc_reason :: score_reason

definition make_score100 :: "pyfloat option \<Rightarrow> direction \<Rightarrow> band \<Rightarrow> confidence \<Rightarrow> 'f list \<Rightarrow> missing list
    \<Rightarrow> lineage \<Rightarrow> score_reason \<Rightarrow> 'f score100" where
  "make_score100 v d b c fs ms l r = \<lparr>sc_value = v, sc_direction = d, sc_band = b, sc_confidence = c,
     sc_factors = fs, sc_missing = ms, sc_lineage = l, sc_reason = r\<rparr>"

definition legacy_value :: "'f score100 \<Rightarrow> pyfloat option" where
  "legacy_value s = sc_value s"

definition band_for_health_score :: "pyfloat option \<Rightarrow> band" where
  "band_for_health_score v = (case v of None \<Rightarrow> NoBand
     | Some x \<Rightarrow> if fle (Fin 70) x then Good else if fle (Fin 40) x then Watch else Bad)"

definition band_for_risk_score :: "pyfloat option \<Rightarrow> band" where
  "band_for_risk_score v = (case v of None \<Rightarrow> NoBand
     | Some x \<Rightarrow> if flt x (Fin 15) then Good else if flt x (Fin 40) then Watch else Bad)"

definition domain_state_of :: "(string, domain_trust) dict \<Rightarrow> string \<Rightarrow> domain_state option" where
  "domain_state_of domains n = map_option dt_state (dict_get domains n)"

definition RISK_LOW_CONF_OPTIONAL_UNKNOWN :: nat where "RISK_LOW_CONF_OPTIONAL_UNKNOWN = 2"

definition gate_axis :: "pyfloat \<Rightarrow> direction \<Rightarrow> 'f list \<Rightarrow> bool \<Rightarrow> bool \<Rightarrow> trust_blob option \<Rightarrow> bool
    \<Rightarrow> missing list \<Rightarrow> string list \<Rightarrow> string list \<Rightarrow> 'f score100" where
  \<comment> \<open>\<open>untrusted\<close>: the device's identity fails its gate\<close>
  "gate_axis numeric direction factors is_risk untrusted trust presence_ok presence_missing required optional =
     (let band_of = (if is_risk then band_for_risk_score else band_for_health_score)
      in if untrusted
         then make_score100 None direction NoBand NoConf factors [M_Identity] LinIdentity SR_Untrusted
         else if \<not> presence_ok
         then make_score100 None direction NoBand NoConf factors presence_missing LinNone SR_NoTelemetry
         else case trust of
           None \<Rightarrow> make_score100 (Some numeric) direction (band_of (Some numeric)) ConfLow factors [M_NoSourceHealth]
                     LinNone SR_NoSourceHealth
         | Some t \<Rightarrow>
             let domains = tb_domains t;
                 lineage = LinDomains (List.map_filter (\<lambda>n. map_option (Pair n) (domain_state_of domains n)) (required @ optional));
                 required_unknown = filter (\<lambda>n. domain_state_of domains n = Some D_UNKNOWN) required;
                 optional_unknown = filter (\<lambda>n. domain_state_of domains n = Some D_UNKNOWN) optional;
                 required_na = filter (\<lambda>n. domain_state_of domains n = Some D_NOT_APPLICABLE) required;
                 missing = map M_Unavailable (required_unknown @ optional_unknown) @ map M_NoSensor required_na
             in if required_unknown \<noteq> [] \<or> required_na \<noteq> []
                then if is_risk
                     then make_score100 (Some numeric) direction (band_of (Some numeric)) ConfLow factors missing lineage
                            SR_RiskUnderstated
                     else make_score100 None direction NoBand NoConf factors missing lineage SR_RequiredUnknown
                else let conf = (if is_risk \<and> RISK_LOW_CONF_OPTIONAL_UNKNOWN \<le> length optional_unknown then ConfLow
                                 else if optional_unknown \<noteq> [] then ConfMedium else ConfHigh)
                     in make_score100 (Some numeric) direction (band_of (Some numeric)) conf factors missing lineage SR_None)"

datatype obs_factor = OF_NoSourceHealth | OF_Coverage nat nat pyfloat | OF_Regressed nat pyfloat | OF_ClockDrift

definition coverage :: "nat \<Rightarrow> nat \<Rightarrow> pyfloat" where
  "coverage trusted total_n = fmul (rnd64 (of_nat trusted / of_nat total_n)) (Fin 100)"

definition regression_penalty :: "nat \<Rightarrow> pyfloat" where
  "regression_penalty n = py_min (Fin (of_nat n * 10)) (Fin 30)"

definition observed_value :: "pyfloat \<Rightarrow> nat \<Rightarrow> bool \<Rightarrow> bool \<Rightarrow> pyfloat" where
  "observed_value cov regressed clock_drift untrusted =
     (let v2 = (if regressed = 0 then cov else fsub cov (regression_penalty regressed));
          v3 = (if clock_drift then fsub v2 (Fin 10) else v2);
          v4 = (if untrusted then py_min v3 (Fin 10) else v3)
      in clamp v4 0 100)"

definition applicable_domains :: "trust_blob \<Rightarrow> (string \<times> domain_trust) list" where
  "applicable_domains t = filter (\<lambda>(n, d). dt_state d \<noteq> D_NOT_APPLICABLE) (tb_domains t)"

definition unknown_domains :: "trust_blob \<Rightarrow> string list" where
  "unknown_domains t = map fst (filter (\<lambda>(n, d). dt_state d = D_UNKNOWN) (applicable_domains t))"

definition regressed_sources :: "trust_blob \<Rightarrow> string list" where
  "regressed_sources t = sort (map fst (filter (\<lambda>(n, s). so_regressed s) (tb_sources t)))"

definition compute_observability_score :: "trust_blob option \<Rightarrow> bool \<Rightarrow> bool \<Rightarrow> bool \<Rightarrow> obs_factor score100" where
  "compute_observability_score trust has_health untrusted clock_drift =
     (case (if has_health then trust else None) of
        None \<Rightarrow> make_score100 (Some (Fin 20)) HigherIsBetter (band_for_health_score (Some (Fin 20))) ConfLow
                  [OF_NoSourceHealth] [M_NoSourceHealth] LinNone SR_NoSourceHealth
      | Some t \<Rightarrow>
          let total_n = length (applicable_domains t)
          in if total_n = 0
             then make_score100 None HigherIsBetter NoBand NoConf [] [M_NoDomains] LinNone SR_NoDomains
             else let unknown = unknown_domains t;
                      trusted = total_n - length unknown;
                      cov = coverage trusted total_n;
                      regressed = regressed_sources t;
                      v = observed_value cov (length regressed) clock_drift untrusted
                  in make_score100 (Some (fround 1 v)) HigherIsBetter (band_for_health_score (Some v))
                       (if untrusted then ConfLow else if unknown \<noteq> [] then ConfMedium else ConfHigh)
                       ([OF_Coverage trusted total_n (fround 1 cov)] @
                        (if regressed = [] then [] else [OF_Regressed (length regressed) (fneg (regression_penalty (length regressed)))]) @
                        (if clock_drift then [OF_ClockDrift] else []))
                       (map M_Unknown unknown @ map M_Regressed regressed @ (if untrusted then [M_Identity] else []))
                       (LinDomains (map (\<lambda>(n, d). (n, dt_state d)) (tb_domains t)))
                       (if untrusted then SR_Unconfirmed else SR_None))"

record day1_axes =
  ax_performance :: "factor score100"
  ax_reliability :: "factor score100"
  ax_wear :: "factor score100"
  ax_risk_exposure :: "factor score100"
  ax_observability :: "obs_factor score100"

definition factors_of :: "day1 \<Rightarrow> string \<Rightarrow> factor list" where
  "factors_of d n = (case dict_get (d1_factors d) n of None \<Rightarrow> [] | Some fs \<Rightarrow> fs)"

definition compute_day1_score100 ::
  "day1 \<Rightarrow> bool \<Rightarrow> bool \<Rightarrow> bool \<Rightarrow> trust_blob option \<Rightarrow> bool \<Rightarrow> bool \<Rightarrow> day1_axes" where
  \<comment> \<open>\<open>inventory\<close>, \<open>historical\<close>, \<open>heartbeat\<close>: whether the device has ever sent one\<close>
  "compute_day1_score100 d inventory historical heartbeat trust untrusted clock_drift =
     \<lparr>ax_performance = gate_axis (d1_performance d) HigherIsBetter (factors_of d ''performance'') False untrusted trust
        (heartbeat \<or> historical) [M_NoVitals] [] [''thermal'', ''boot''],
      ax_reliability = gate_axis (d1_reliability d) HigherIsBetter (factors_of d ''reliability'') False untrusted trust
        historical [M_NoHistory] [''os_stability''] [],
      ax_wear = gate_axis (d1_wear d) HigherIsBetter (factors_of d ''wear'') False untrusted trust
        (historical \<or> inventory) [M_NoWear] [''storage''] [],
      ax_risk_exposure = gate_axis (d1_risk_exposure d) HigherIsWorse (factors_of d ''risk_exposure'') True untrusted trust
        (historical \<or> heartbeat \<or> inventory) [M_NoRisk] [] [''disk_fill'', ''storage'', ''os_stability'', ''thermal''],
      ax_observability = compute_observability_score trust (trust \<noteq> None) untrusted clock_drift\<rparr>"

subsection \<open>What \<open>recompute_scores\<close> feeds it (\<open>server/pipeline.py\<close>)\<close>

definition device_untrusted :: "trust_blob \<Rightarrow> bool" where
  "device_untrusted t = (case dict_get (tb_sources t) ''identity'' of None \<Rightarrow> False
     | Some s \<Rightarrow> st_state (so_trust s) \<notin> GATE_PASS)"

definition gate_failed :: "(string, domain_trust) dict \<Rightarrow> string \<Rightarrow> bool" where
  "gate_failed domains n = (case domain_state_of domains n of None \<Rightarrow> False | Some s \<Rightarrow> s \<notin> {D_TRUSTED, D_NOT_APPLICABLE})"

definition blank_untrusted_inputs :: "(string, domain_trust) dict \<Rightarrow> jobj option \<Rightarrow> jobj option \<Rightarrow> jobj \<times> jobj" where
  "blank_untrusted_inputs domains hb hist =
     (let hb2 = (case hb of None \<Rightarrow> [] | Some d \<Rightarrow> d); hist2 = (case hist of None \<Rightarrow> [] | Some d \<Rightarrow> d)
      in (if gate_failed domains ''disk_fill'' then dict_set hb2 ''free_space_pct'' JNull else hb2,
          if gate_failed domains ''storage'' then dict_set hist2 ''storage'' JNull else hist2))"

definition CLOCK_DRIFT_FLAG_SEC :: rat where "CLOCK_DRIFT_FLAG_SEC = 300"

definition clock_drift_of :: "jobj option \<Rightarrow> bool res" where
  "clock_drift_of hb = (case hb of None \<Rightarrow> Inr False
     | Some d \<Rightarrow> if \<not> truthy (jget d ''clock_drift_sec'') then Inr False
         else bindE (raw_num (jget d ''clock_drift_sec'')) (\<lambda>x. Inr (flt (Fin CLOCK_DRIFT_FLAG_SEC) (fabs x))))"

definition day1_part :: "int \<Rightarrow> trust_blob option \<Rightarrow> jobj option \<Rightarrow> jobj option \<Rightarrow> jobj option \<Rightarrow> day1_axes option res" where
  \<comment> \<open>the first half of \<open>recompute_scores\<close>: gate the inputs, score them, wrap them; None without any telemetry\<close>
  "day1_part now trust inventory hist hb =
     (if inventory = None \<and> hist = None \<and> hb = None then Inr None
      else let untrusted = (case trust of None \<Rightarrow> False | Some t \<Rightarrow> device_untrusted t);
          (hb2, hist2) = blank_untrusted_inputs (case trust of None \<Rightarrow> [] | Some t \<Rightarrow> tb_domains t) hb hist
      in bindE (compute_day1_scores now inventory (Some hist2) (Some hb2)) (\<lambda>d.
         bindE (clock_drift_of hb) (\<lambda>drift.
           Inr (Some (compute_day1_score100 d (inventory \<noteq> None) (hist \<noteq> None) (hb \<noteq> None) trust untrusted drift)))))"

subsection \<open>Domains of a stored blob\<close>

lemma dict_get_keyed: "dict_get (map (\<lambda>(d, _). (d, f d)) xs) k = map_option (\<lambda>_. f k) (dict_get xs k)"
  by (induction xs) (auto simp: dict_simps)

lemma built_domain:
  "dict_get DOMAIN_SOURCES d = Some ro \<Longrightarrow>
     domain_state_of (tb_domains (build_trust_blob m lg)) d = Some (dt_state (resolve_domain_trust d m))"
  by (simp add: domain_state_of_def build_trust_blob_def dict_get_keyed)

lemma domain_sources:
  "dict_get DOMAIN_SOURCES ''os_stability'' = Some ([''reliability''], [])"
  "dict_get DOMAIN_SOURCES ''storage'' = Some ([''storage_reliability''], [''disk_latency'', ''smart''])"
  "dict_get DOMAIN_SOURCES ''disk_fill'' = Some ([''free_space''], [])"
  "dict_get DOMAIN_SOURCES ''thermal'' = Some ([''throttle''], [])"
  "dict_get DOMAIN_SOURCES ''boot'' = Some ([''boot_time''], [])"
  by (simp_all add: DOMAIN_SOURCES_def)

definition source_na :: "(string, source_trust) dict \<Rightarrow> string \<Rightarrow> bool" where
  "source_na m n \<longleftrightarrow> (\<exists>st. dict_get m n = Some st \<and> st_state st = S_NOT_APPLICABLE)"

lemma one_source_domain:
  assumes "dict_get DOMAIN_SOURCES d = Some ([n], opts)"
  shows "dt_state (resolve_domain_trust d m) =
    (if source_ok m n then D_TRUSTED else if source_na m n then D_NOT_APPLICABLE else D_UNKNOWN)"
proof (cases "source_ok m n")
  case True
  then show ?thesis using domain_trusted_iff[OF assms, of m] by simp
next
  case False
  then show ?thesis
    by (auto simp: resolve_domain_trust_def assms source_ok_def source_na_def verdict_def split: option.splits)
qed

lemmas source_states = domain_sources[THEN built_domain] domain_sources[THEN one_source_domain]

subsection \<open>What a gated axis may say\<close>

definition domain_gated :: "trust_blob \<Rightarrow> string list \<Rightarrow> bool" where
  "domain_gated t required \<longleftrightarrow> list_ex (\<lambda>n. domain_state_of (tb_domains t) n \<in> {Some D_UNKNOWN, Some D_NOT_APPLICABLE}) required"

lemmas axis_defs = gate_axis_def make_score100_def Let_def

lemma gate_axis_value:
  "sc_value (gate_axis v dir fs is_risk untrusted (Some t) present ms required optional) =
     (if untrusted \<or> \<not> present \<or> (\<not> is_risk \<and> domain_gated t required) then None else Some v)"
  by (auto simp: axis_defs domain_gated_def list_ex_iff filter_empty_conv)

lemma gate_axis_untrusted: "sc_value (gate_axis v dir fs is_risk True t present ms required optional) = None \<and>
    sc_confidence (gate_axis v dir fs is_risk True t present ms required optional) = NoConf"
  by (simp add: axis_defs)

lemma gate_axis_confident:
  assumes "sc_confidence (gate_axis v dir fs is_risk untrusted tr present ms required optional) = ConfHigh"
  shows "\<not> untrusted \<and> present \<and> (\<exists>t. tr = Some t \<and> \<not> domain_gated t required \<and>
    list_all (\<lambda>n. domain_state_of (tb_domains t) n \<noteq> Some D_UNKNOWN) optional)"
  using assms
  by (auto simp: axis_defs domain_gated_def list_ex_iff list_all_iff filter_empty_conv split: if_splits option.splits)

lemma gate_axis_numeric: "sc_value (gate_axis v dir fs is_risk u t p ms req opts) \<in> {None, Some v}"
  by (auto simp: axis_defs split: option.split)

lemma day1_part_axes:
  assumes "day1_part now (Some t) inventory hist hb = Inr (Some axes)"
  obtains d cd where "compute_day1_scores now inventory (Some (snd (blank_untrusted_inputs (tb_domains t) hb hist)))
      (Some (fst (blank_untrusted_inputs (tb_domains t) hb hist))) = Inr d"
    "axes = compute_day1_score100 d (inventory \<noteq> None) (hist \<noteq> None) (hb \<noteq> None) (Some t) (device_untrusted t) cd"
  using assms unfolding day1_part_def Let_def case_prod_unfold by (auto simp: bindE_Inr_iff split: if_splits)

text \<open>C9: Unknown over false confidence: with trust on record, a device whose identity fails its gate gets no number on
  any day-one axis; a reliability or wear number is shown only when the source it needs was reported and passes its
  gate; and high confidence is claimed only when every domain that feeds the axis was seen.\<close>
theorem no_number_without_trust:
  assumes "day1_part now (Some (build_trust_blob m lg)) inventory hist hb = Inr (Some axes)"
  shows "(device_untrusted (build_trust_blob m lg) \<longrightarrow> sc_value (ax_performance axes) = None \<and>
       sc_value (ax_reliability axes) = None \<and> sc_value (ax_wear axes) = None \<and> sc_value (ax_risk_exposure axes) = None) \<and>
    (sc_value (ax_reliability axes) \<noteq> None \<longrightarrow> hist \<noteq> None \<and> source_ok m ''reliability'') \<and>
    (sc_value (ax_wear axes) \<noteq> None \<longrightarrow> (hist \<noteq> None \<or> inventory \<noteq> None) \<and> source_ok m ''storage_reliability'') \<and>
    (sc_confidence (ax_performance axes) = ConfHigh \<longrightarrow>
       list_all (\<lambda>n. source_ok m n \<or> source_na m n) [''throttle'', ''boot_time'']) \<and>
    (sc_confidence (ax_risk_exposure axes) = ConfHigh \<longrightarrow>
       list_all (\<lambda>n. source_ok m n \<or> source_na m n) [''free_space'', ''storage_reliability'', ''reliability'', ''throttle''])"
proof -
  let ?t = "build_trust_blob m lg"
  from assms obtain d cd where a: "axes = compute_day1_score100 d (inventory \<noteq> None) (hist \<noteq> None) (hb \<noteq> None) (Some ?t)
      (device_untrusted ?t) cd" by (rule day1_part_axes)
  have "sc_confidence (ax_performance axes) = ConfHigh \<longrightarrow>
       list_all (\<lambda>n. source_ok m n \<or> source_na m n) [''throttle'', ''boot_time'']"
    using gate_axis_confident by (fastforce simp: a compute_day1_score100_def source_states split: if_splits)
  moreover have "sc_confidence (ax_risk_exposure axes) = ConfHigh \<longrightarrow>
       list_all (\<lambda>n. source_ok m n \<or> source_na m n) [''free_space'', ''storage_reliability'', ''reliability'', ''throttle'']"
    using gate_axis_confident by (fastforce simp: a compute_day1_score100_def source_states split: if_splits)
  ultimately show ?thesis
    by (auto simp: a compute_day1_score100_def gate_axis_value domain_gated_def source_states split: if_splits)
qed


theorem no_number_without_trust_witness:
  "\<exists>axes. day1_part 0 (Some (build_trust_blob [] [])) None (Some []) None = Inr (Some axes) \<and>
     sc_value (ax_reliability axes) = None \<and> sc_value (ax_wear axes) = None"
proof -
  have "blank_untrusted_inputs (tb_domains (build_trust_blob [] [])) None (Some []) =
      ([(''free_space_pct'', JNull)], [(''storage'', JNull)])" by code_simp
  moreover have "contract_readings None (Some [(''storage'', JNull)]) (Some [(''free_space_pct'', JNull)])"
    by (auto simp: contract_readings_def reading_def jget_def)
  then have "\<exists>d. compute_day1_scores 0 None (Some [(''storage'', JNull)]) (Some [(''free_space_pct'', JNull)]) = Inr d"
    by (rule day1_total)
  ultimately obtain axes where a: "day1_part 0 (Some (build_trust_blob [] [])) None (Some []) None = Inr (Some axes)"
    by (auto simp: day1_part_def Let_def clock_drift_of_def)
  from no_number_without_trust[OF a] a show ?thesis by (simp add: source_ok_def)
qed

subsection \<open>A source that fails its gate has no say\<close>

lemma dict_set_twice: "dict_set (dict_set d k v) k w = dict_set d k w"
  by (induction d) (auto simp: dict_simps)

text \<open>A reading whose source fails its gate moves no score: whatever it says, garbage that no parser takes
  included, the axes are the same.\<close>
theorem failed_source_moves_nothing:
  assumes "t = build_trust_blob m lg"
  shows "(\<not> source_ok m ''free_space'' \<and> \<not> source_na m ''free_space'' \<longrightarrow>
      day1_part now (Some t) inventory hist (Some (dict_set hb ''free_space_pct'' v)) =
      day1_part now (Some t) inventory hist (Some (dict_set hb ''free_space_pct'' w))) \<and>
    (\<not> source_ok m ''storage_reliability'' \<and> \<not> source_na m ''storage_reliability'' \<longrightarrow>
      day1_part now (Some t) inventory (Some (dict_set hs ''storage'' v)) hb' =
      day1_part now (Some t) inventory (Some (dict_set hs ''storage'' w)) hb')"
  by (simp add: assms day1_part_def clock_drift_of_def jget_def dict_simps blank_untrusted_inputs_def gate_failed_def source_states dict_set_twice)

theorem failed_source_moves_nothing_witness:
  "day1_part 0 (Some (build_trust_blob [] [])) None None (Some (dict_set [] ''free_space_pct'' (JInt (2 ^ 1024)))) =
   day1_part 0 (Some (build_trust_blob [] [])) None None (Some (dict_set [] ''free_space_pct'' (JInt 50)))"
proof -
  have "\<not> source_ok [] ''free_space''" "\<not> source_na [] ''free_space''" by (simp_all add: source_ok_def source_na_def)
  with failed_source_moves_nothing[OF refl, of "[]" 0 "[]" None None "JInt (2 ^ 1024)" "[]" "JInt 50"]
  show ?thesis by blast
qed

subsection \<open>Observability\<close>

lemma built_count: "length (tb_domains (build_trust_blob m lg)) = 6"
  by (simp add: build_trust_blob_def DOMAIN_SOURCES_def)

lemma partial_coverage:
  assumes "k < n" "n \<le> 6"
  shows "fle (coverage k n) (Fin 90)"
proof -
  have k: "(of_nat k :: rat) \<le> of_nat n - 1" using assms(1) by (simp add: of_nat_diff[symmetric] del: of_nat_diff)
  have n: "(0 :: rat) < of_nat n" "(of_nat n :: rat) \<le> 6" using assms by auto
  have "of_nat k / of_nat n \<le> (7 / 8 :: rat)" using k n by (simp add: field_simps)
  then have "fle (rnd64 (of_nat k / of_nat n)) (rnd64 (7 / 8))" by (rule rnd64_fle)
  moreover have "rnd64 (7 / 8) = Fin (7 / 8)" using rnd64_fraction[of 7 3] by simp
  ultimately have "fle (coverage k n) (fmul (Fin (7 / 8)) (Fin 100))"
    unfolding coverage_def by (intro fmul_mono) simp_all
  moreover have "fle (rnd64 (7 / 8 * 100)) (rnd64 (of_int 90))" by (rule rnd64_fle) simp
  ultimately show ?thesis using rnd64_of_int[of 90] by (auto intro: fle_trans)
qed

lemma full_coverage: "0 < n \<Longrightarrow> coverage n n = Fin 100"
  using rnd64_of_int[of 1] rnd64_of_int[of 100] by (simp add: coverage_def)

lemma coverage_ranged: "k \<le> n \<Longrightarrow> ranged 0 100 (coverage k n)"
proof -
  assume "k \<le> n"
  then have "ranged 0 1 (rnd64 (of_nat k / of_nat n))" by (intro rnd64_ranged) (auto simp: divide_le_eq_1)
  then show ?thesis by (auto simp: coverage_def ranged_Fin[of 0 1] intro!: rnd64_ranged)
qed

lemma penalty_ranged: "0 < n \<Longrightarrow> ranged (- 30) (- 10) (fneg (regression_penalty n))"
proof -
  assume "0 < n"
  then have "(10 :: rat) \<le> of_nat n * 10" by simp
  then show ?thesis by (simp add: regression_penalty_def py_min_def ranged_def)
qed

lemma clamp_ranged_le: "ranged a b x \<Longrightarrow> 0 \<le> b \<Longrightarrow> b \<le> 100 \<Longrightarrow> ranged 0 b (clamp x 0 100)"
  by (auto simp: ranged_Fin clamp_def py_max_def py_min_def)

lemma fsub_10: "ranged a b x \<Longrightarrow> \<bar>a\<bar> < 1000 \<Longrightarrow> \<bar>b\<bar> < 1000 \<Longrightarrow> ranged (a - 10) (b - 10) (fsub x (Fin 10))"
  using fadd_ranged[of a b x "- 10" "- 10" "Fin (- 10)"] by (simp add: fsub_def ranged_def)

lemma observed_value_ranged: "ranged 0 100 (observed_value cov n c u)"
  by (auto simp: observed_value_def Let_def)

lemma observed_hidden:
  assumes "ranged 0 100 cov" "u \<or> c \<or> 0 < n \<or> ranged 0 90 cov"
  shows "ranged 0 (if u then 10 else 90) (observed_value cov n c u)"
proof -
  define v2 where "v2 = (if n = 0 then cov else fsub cov (regression_penalty n))"
  define v3 where "v3 = (if c then fsub v2 (Fin 10) else v2)"
  have p: "0 < n \<Longrightarrow> ranged (- 30) 90 (fsub cov (regression_penalty n))"
    using fadd_ranged[OF assms(1) penalty_ranged] by (simp add: fsub_def)
  have v2: "ranged (- 30) 100 v2" "0 < n \<Longrightarrow> ranged (- 30) 90 v2"
    using p ranged_mono[OF p, of "- 30" 100] ranged_mono[OF assms(1), of "- 30" 100] by (auto simp: v2_def)
  have v3: "ranged (- 40) 100 v3" "c \<or> 0 < n \<or> ranged 0 90 cov \<Longrightarrow> ranged (- 40) 90 v3"
  proof -
    have c: "ranged (- 40) 90 (fsub v2 (Fin 10))" using fsub_10[OF v2(1)] by simp
    then show "ranged (- 40) 100 v3" using ranged_mono[OF c, of "- 40" 100] ranged_mono[OF v2(1), of "- 40" 100] by (simp add: v3_def)
    assume "c \<or> 0 < n \<or> ranged 0 90 cov"
    then have "c \<or> ranged (- 30) 90 v2" using v2(2) ranged_mono[of 0 90 cov "- 30" 90] by (auto simp: v2_def)
    then show "ranged (- 40) 90 v3" using c ranged_mono[of "- 30" 90 v2 "- 40" 90] by (auto simp: v3_def)
  qed
  have v: "observed_value cov n c u = clamp (if u then py_min v3 (Fin 10) else v3) 0 100"
    by (simp add: observed_value_def v2_def v3_def Let_def)
  show ?thesis
  proof (cases u)
    case True
    with v3(1) have "ranged (- 40) 10 (py_min v3 (Fin 10))" by (auto simp: py_min_def ranged_Fin)
    with True show ?thesis using clamp_ranged_le[of "- 40" 10] unfolding v by simp
  next
    case False
    with assms(2) have "ranged (- 40) 90 v3" by (intro v3(2)) auto
    with False show ?thesis using clamp_ranged_le[of "- 40" 90] unfolding v by simp
  qed
qed

lemma observed_full: "observed_value (Fin 100) 0 False False = Fin 100"
  by (simp add: observed_value_def clamp_def py_min_def py_max_def)

lemma observability_value:
  "sc_value (compute_observability_score (Some t) True u c) = (if applicable_domains t = [] then None
     else Some (fround 1 (observed_value (coverage (length (applicable_domains t) - length (unknown_domains t))
       (length (applicable_domains t))) (length (regressed_sources t)) c u)))"
  by (simp add: compute_observability_score_def Let_def make_score100_def)

definition nothing_hidden :: "trust_blob \<Rightarrow> bool \<Rightarrow> bool \<Rightarrow> bool" where
  "nothing_hidden t untrusted clock_drift \<longleftrightarrow> \<not> untrusted \<and> \<not> clock_drift \<and>
     list_all (\<lambda>(n, d). dt_state d \<noteq> D_UNKNOWN) (tb_domains t) \<and> list_all (\<lambda>(n, s). \<not> so_regressed s) (tb_sources t)"

lemma sort_empty: "sort xs = [] \<longleftrightarrow> xs = []"
  by (metis length_0_conv length_sort)

lemma nothing_hidden_iff: "nothing_hidden t u c \<longleftrightarrow> \<not> u \<and> \<not> c \<and> regressed_sources t = [] \<and> unknown_domains t = []"
proof -
  have "regressed_sources t = [] \<longleftrightarrow> list_all (\<lambda>(n, s). \<not> so_regressed s) (tb_sources t)"
    by (auto simp: regressed_sources_def filter_empty_conv list_all_iff sort_empty)
  moreover have "unknown_domains t = [] \<longleftrightarrow> list_all (\<lambda>(n, d). dt_state d \<noteq> D_UNKNOWN) (tb_domains t)"
    by (auto simp: unknown_domains_def applicable_domains_def filter_empty_conv list_all_iff)
  ultimately show ?thesis unfolding nothing_hidden_def by blast
qed

text \<open>The observability score of a stored trust blob is between 0 and 100; it is 100 exactly when nothing is
  hidden (every domain seen, no source regressed, the clock in step, the identity confirmed); a device whose
  identity is not confirmed scores at most 10, reads as bad and is never claimed with confidence.\<close>
theorem observability_full_iff_nothing_hidden:
  assumes "t = build_trust_blob m lg" "obs = compute_observability_score (Some t) True untrusted clock_drift"
    "sc_value obs = Some v"
  shows "ranged 0 100 v \<and> (v = Fin 100 \<longleftrightarrow> nothing_hidden t untrusted clock_drift) \<and>
    (untrusted \<longrightarrow> ranged 0 10 v \<and> sc_band obs = Bad \<and> sc_confidence obs = ConfLow)"
proof -
  define n where "n = length (applicable_domains t)"
  define k where "k = n - length (unknown_domains t)"
  define r where "r = observed_value (coverage k n) (length (regressed_sources t)) clock_drift untrusted"
  have n: "n \<noteq> 0" and v: "v = fround 1 r"
    using assms(3) observability_value[of t untrusted clock_drift] by (auto simp: assms(2) n_def k_def r_def split: if_splits)
  have n6: "n \<le> 6" unfolding n_def applicable_domains_def assms(1) using built_count[of m lg] length_filter_le by metis
  have cov: "ranged 0 100 (coverage k n)" by (rule coverage_ranged) (simp add: k_def)
  have part: "ranged 0 90 (coverage k n)" if "unknown_domains t \<noteq> []"
    using that n partial_coverage[OF _ n6, of k] cov by (simp add: k_def ranged_def)
  have low: "ranged 0 (if untrusted then 10 else 90) r" if "\<not> nothing_hidden t untrusted clock_drift"
    unfolding r_def using that part by (intro observed_hidden[OF cov]) (auto simp: nothing_hidden_iff)
  have hid: "ranged 0 (if untrusted then 10 else 90) v" if "\<not> nothing_hidden t untrusted clock_drift"
    unfolding v using low[OF that] by (intro fround_ranged) simp_all
  have full: "v = Fin 100" if "nothing_hidden t untrusted clock_drift"
    using that n rnd64_of_int[of 100] half_even_of_int[of 1000]
    by (simp add: nothing_hidden_iff v r_def k_def full_coverage observed_full fround_def)
  have "v \<noteq> Fin 100" if "\<not> nothing_hidden t untrusted clock_drift"
    using hid[OF that] by (auto simp: ranged_Fin split: if_splits)
  moreover have "ranged 0 100 v" unfolding v r_def by (intro fround_ranged observed_value_ranged) simp_all
  moreover have "ranged 0 10 v \<and> sc_band obs = Bad \<and> sc_confidence obs = ConfLow" if untrusted
  proof -
    have "sc_band obs = band_for_health_score (Some r) \<and> sc_confidence obs = ConfLow"
      using n that by (simp add: assms(2) compute_observability_score_def Let_def make_score100_def n_def k_def r_def)
    with that hid low show ?thesis
      by (auto simp: nothing_hidden_iff ranged_Fin band_for_health_score_def)
  qed
  ultimately show ?thesis using full by blast
qed

theorem observability_full_iff_nothing_hidden_witness:
  "\<exists>v. sc_value (compute_observability_score (Some (build_trust_blob [] [])) True False False) = Some v \<and> v \<noteq> Fin 100"
proof -
  have d: "applicable_domains (build_trust_blob [] []) \<noteq> []" by code_simp
  then obtain v where v: "sc_value (compute_observability_score (Some (build_trust_blob [] [])) True False False) = Some v"
    by (simp add: observability_value)
  moreover have "\<not> nothing_hidden (build_trust_blob [] []) False False" by code_simp
  ultimately show ?thesis using observability_full_iff_nothing_hidden[OF refl refl v] by blast
qed

end
