(* ===== verification/Bayes.thy ===== *)
theory Bayes
  imports Score100
begin

text \<open>
  The explainable risk classes of \<open>server/scoring/bayesian.py\<close>: each class starts from a prior in log-odds,
  adds one weight per piece of evidence and turns the sum into a probability.  A class whose domain fails its
  gate withholds its number.  \<open>math.exp\<close> and \<open>math.log\<close> are parameters: the platform's library fixes their
  last bits.  A sum runs from left to right, as it does up to Python 3.11.
\<close>

datatype risk_label = R_Age pyfloat | R_StorageEngine pyfloat | R_Wear pyfloat | R_Reallocated int | R_IoErrors int
  | R_PowerOn pyfloat | R_Latency pyfloat | R_Throttle pyfloat | R_LightThrottle pyfloat | R_Dirty int | R_PowerLoss int
  | R_BsodMemory int | R_Thrashing | R_RsiLow pyfloat | R_RsiModerate pyfloat | R_Bsod int | R_AppCrashes int
  | R_PendingReboot | R_Drivers int | R_OsEngine pyfloat | R_FillEngine pyfloat | R_AgingEngine pyfloat | R_Hangs int | R_Prior

record evidence_factor =
  ev_label :: risk_label
  ev_weight :: pyfloat

datatype level = L_Critical | L_High | L_Elevated | L_Low | L_Unknown

record risk_class =
  rc_name :: string
  rc_probability :: "pyfloat option"
  rc_level :: level
  rc_factors :: "evidence_factor list"

type_synonym domain_values = "(string, pyfloat option) dict"

definition BASE_PRIOR :: "(string, pyfloat) dict" where
  "BASE_PRIOR = [(''storage'', rnd64 (5 / 100)), (''power_thermal'', rnd64 (3 / 100)), (''memory'', rnd64 (2 / 100)),
     (''stability'', rnd64 (5 / 100))]"

definition logit :: "(pyfloat \<Rightarrow> pyfloat) \<Rightarrow> pyfloat \<Rightarrow> pyfloat" where
  "logit mlog p0 = (let p = py_min (py_max p0 (rnd64 (1 / 1000000))) (fsub (Fin 1) (rnd64 (1 / 1000000)))
     in mlog (fdiv p (fsub (Fin 1) p)))"

definition sigmoid :: "(pyfloat \<Rightarrow> pyfloat) \<Rightarrow> pyfloat \<Rightarrow> pyfloat" where
  "sigmoid mexp x =
     (if flt x (Fin 0) then let z = mexp x in fdiv z (fadd (Fin 1) z)
      else fdiv (Fin 1) (fadd (Fin 1) (mexp (fneg x))))"

definition level_of :: "pyfloat \<Rightarrow> level" where
  "level_of p = (if fle (Fin (1 / 2)) p then L_Critical else if fle (Fin (1 / 4)) p then L_High
     else if fle (rnd64 (1 / 10)) p then L_Elevated else L_Low)"

definition is_finite :: "pyfloat \<Rightarrow> bool" where
  "is_finite x \<longleftrightarrow> (case x of Fin _ \<Rightarrow> True | _ \<Rightarrow> False)"

definition domain_lo :: "domain_values option \<Rightarrow> string \<Rightarrow> pyfloat \<Rightarrow> pyfloat" where
  "domain_lo dv key scale =
     (case dv of None \<Rightarrow> Fin 0
      | Some d \<Rightarrow> (case dict_get d key of
          Some (Some v) \<Rightarrow> if \<not> is_finite v then Fin 0 else fmul (fdiv_by (clamp v 0 100) 100) scale
        | _ \<Rightarrow> Fin 0))"

definition finish :: "(pyfloat \<Rightarrow> pyfloat) \<Rightarrow> (pyfloat \<Rightarrow> pyfloat) \<Rightarrow> string \<Rightarrow> pyfloat \<Rightarrow> evidence_factor list \<Rightarrow> risk_class" where
  "finish mexp mlog name prior fs =
     (let prior_lo = logit mlog prior;
          posterior = fadd prior_lo (foldl fadd (Fin 0) (map ev_weight fs));
          prob = sigmoid mexp posterior
      in \<lparr>rc_name = name, rc_probability = Some (fround 3 prob), rc_level = level_of prob,
          rc_factors = \<lparr>ev_label = R_Prior, ev_weight = fround 2 prior_lo\<rparr> #
            map (\<lambda>f. f\<lparr>ev_weight := fround 2 (ev_weight f)\<rparr>) (sort_desc ev_weight fs)\<rparr>)"

definition withheld :: "string \<Rightarrow> risk_class" where
  "withheld name = \<lparr>rc_name = name, rc_probability = None, rc_level = L_Unknown, rc_factors = []\<rparr>"

definition class_gated :: "string \<Rightarrow> (string, domain_state) dict option \<Rightarrow> bool" where
  "class_gated name trust = (case trust of None \<Rightarrow> False | Some t \<Rightarrow> dict_get t name \<noteq> Some D_TRUSTED)"

subsection \<open>Rules\<close>

definition add_if :: "bool \<Rightarrow> risk_label \<Rightarrow> pyfloat \<Rightarrow> evidence_factor list \<Rightarrow> evidence_factor list" where
  "add_if c l w fs = (if c then fs @ [\<lparr>ev_label = l, ev_weight = w\<rparr>] else fs)"

definition engine_rule ::
  "domain_values option \<Rightarrow> string \<Rightarrow> pyfloat \<Rightarrow> (pyfloat \<Rightarrow> risk_label) \<Rightarrow> evidence_factor list \<Rightarrow> evidence_factor list" where
  \<comment> \<open>the supplementary factor of a domain engine\<close>
  "engine_rule dv key scale l fs =
     (let lo = domain_lo dv key scale
      in if flt (rnd64 (1 / 100)) lo
         then fs @ [\<lparr>ev_label = l (case dv of Some d \<Rightarrow> (case dict_get d key of Some (Some v) \<Rightarrow> v | _ \<Rightarrow> Fin 0) | None \<Rightarrow> Fin 0),
                     ev_weight = fround 2 lo\<rparr>] else fs)"

definition per_event :: "(int \<Rightarrow> risk_label) \<Rightarrow> rat \<Rightarrow> rat \<Rightarrow> pyfloat option \<Rightarrow> evidence_factor list \<Rightarrow> evidence_factor list res" where
  \<comment> \<open>\<open>if n: f.append({int(n), min(n * each, cap)})\<close>\<close>
  "per_event l each cap n fs = (case n of None \<Rightarrow> Inr fs
     | Some x \<Rightarrow> if feq x (Fin 0) then Inr fs
         else bindE (int_of_float x) (\<lambda>i.
           Inr (fs @ [\<lparr>ev_label = l i, ev_weight = py_min (fmul x (rnd64 each)) (rnd64 cap)\<rparr>])))"

definition raw_or_zero :: "jval \<Rightarrow> jval" where
  "raw_or_zero v = (if truthy v then v else JInt 0)"

definition wear_evidence :: "jval \<Rightarrow> evidence_factor list \<Rightarrow> evidence_factor list res" where
  "wear_evidence v fs = bindE (raw_num v) (\<lambda>x.
     if flt (Fin 0) x
     then bindE (printable_as_float x) (\<lambda>_.
       Inr (fs @ [\<lparr>ev_label = R_Wear x, ev_weight = fmul (fdiv_by x 100) (rnd64 (7 / 2))\<rparr>]))
     else Inr fs)"

definition realloc_evidence :: "jval \<Rightarrow> evidence_factor list \<Rightarrow> evidence_factor list res" where
  "realloc_evidence v fs = bindE (raw_num v) (\<lambda>x.
     if flt (Fin 0) x
     then bindE (int_of_raw v) (\<lambda>i.
       Inr (fs @ [\<lparr>ev_label = R_Reallocated i, ev_weight = (if flt (Fin 100) x then rnd64 (16 / 5) else Fin 2)\<rparr>]))
     else Inr fs)"

definition power_on_evidence :: "jval \<Rightarrow> evidence_factor list \<Rightarrow> evidence_factor list res" where
  "power_on_evidence v fs = bindE (raw_num v) (\<lambda>x.
     if flt (Fin 40000) x
     then bindE (printable_as_float (case x of Fin q \<Rightarrow> Fin (q / 1000) | _ \<Rightarrow> x)) (\<lambda>_.
       Inr (fs @ [\<lparr>ev_label = R_PowerOn x, ev_weight = rnd64 (4 / 5)\<rparr>]))
     else Inr fs)"

definition disk_values :: "jval option \<Rightarrow> (jval \<times> jval \<times> jval \<times> int) res" where
  \<comment> \<open>the maxima and the sum over at most one disk\<close>
  "disk_values disk = (case disk of None \<Rightarrow> Inr (JInt 0, JInt 0, JInt 0, 0)
     | Some d \<Rightarrow>
         bindE (obj_get d ''wear_pct'') (\<lambda>w. bindE (obj_get d ''reallocated_sectors'') (\<lambda>r.
         bindE (obj_get d ''power_on_hours'') (\<lambda>p. bindE (disk_error_count d) (\<lambda>n.
         Inr (raw_or_zero w, raw_or_zero r, raw_or_zero p, n))))))"

subsection \<open>The four classes\<close>

definition storage_class :: "(pyfloat \<Rightarrow> pyfloat) \<Rightarrow> (pyfloat \<Rightarrow> pyfloat) \<Rightarrow> jobj option \<Rightarrow> jobj option \<Rightarrow> pyfloat option
    \<Rightarrow> domain_values option \<Rightarrow> (string, domain_state) dict option \<Rightarrow> risk_class res" where
  "storage_class mexp mlog hist hb age dv trust =
     (if class_gated ''storage'' trust then Inr (withheld ''storage'')
      else
        let fs = (case age of None \<Rightarrow> []
              | Some a \<Rightarrow> add_if (\<not> feq a (Fin 0)) (R_Age a) (py_min (fmul a (rnd64 (1 / 20))) (rnd64 (4 / 5))) []);
            fs = engine_rule dv ''storage_risk'' (Fin 1) R_StorageEngine fs
        in bindE (first_disk hist) (\<lambda>disk. bindE (disk_values disk) (\<lambda>(w, r, p, n).
           bindE (wear_evidence w fs) (\<lambda>fs. bindE (realloc_evidence r fs) (\<lambda>fs.
           let fs = add_if (0 < n) (R_IoErrors n) (rnd64 (13 / 5)) fs in
           bindE (power_on_evidence p fs) (\<lambda>fs.
           bindE (num_field hb ''disk_read_sec'') (\<lambda>lat.
           let fs = (case lat of None \<Rightarrow> fs
                 | Some x \<Rightarrow> add_if (flt (rnd64 (3 / 100)) x) (R_Latency x) (rnd64 (9 / 10)) fs)
           in Inr (finish mexp mlog ''storage'' (rnd64 (5 / 100)) fs))))))))"

definition power_anchor :: "pyfloat option \<Rightarrow> pyfloat option \<Rightarrow> bool" where
  \<comment> \<open>throttling or a dirty shutdown: without one a power loss means nothing\<close>
  "power_anchor perf ds \<longleftrightarrow> (case perf of None \<Rightarrow> False | Some p \<Rightarrow> flt p (Fin 85)) \<or>
     (case ds of None \<Rightarrow> False | Some d \<Rightarrow> flt (Fin 0) d)"

definition throttle_evidence :: "pyfloat option \<Rightarrow> evidence_factor list" where
  "throttle_evidence perf = (case perf of None \<Rightarrow> []
     | Some p \<Rightarrow> if flt p (Fin 85) then [\<lparr>ev_label = R_Throttle p, ev_weight = rnd64 (6 / 5)\<rparr>]
         else if flt p (Fin 95) then [\<lparr>ev_label = R_LightThrottle p, ev_weight = Fin (1 / 2)\<rparr>] else [])"

definition power_class :: "(pyfloat \<Rightarrow> pyfloat) \<Rightarrow> (pyfloat \<Rightarrow> pyfloat) \<Rightarrow> jobj option \<Rightarrow> jobj option
    \<Rightarrow> (string, domain_state) dict option \<Rightarrow> risk_class res" where
  "power_class mexp mlog hist hb trust =
     (if class_gated ''power_thermal'' trust then Inr (withheld ''power_thermal'')
      else
        bindE (num_field hb ''cpu_perf_pct'') (\<lambda>perf.
        bindE (num_field hist ''dirty_shutdowns_30d'') (\<lambda>ds.
        bindE (per_event R_Dirty (2 / 5) (3 / 2) ds (throttle_evidence perf)) (\<lambda>fs.
        bindE (num_field hist ''kernel_power_41_30d'') (\<lambda>kp.
        bindE (if power_anchor perf ds then per_event R_PowerLoss (3 / 10) 1 kp fs else Inr fs) (\<lambda>fs.
        Inr (finish mexp mlog ''power_thermal'' (rnd64 (3 / 100)) fs)))))))"

definition memory_class :: "(pyfloat \<Rightarrow> pyfloat) \<Rightarrow> (pyfloat \<Rightarrow> pyfloat) \<Rightarrow> jobj option \<Rightarrow> jobj option \<Rightarrow> risk_class res" where
  "memory_class mexp mlog hist hb =
     bindE (num_field hist ''bugchecks_30d'') (\<lambda>bc.
     bindE (case bc of None \<Rightarrow> Inr []
       | Some x \<Rightarrow> if feq x (Fin 0) then Inr []
           else bindE (int_of_float x) (\<lambda>i. Inr [\<lparr>ev_label = R_BsodMemory i, ev_weight = rnd64 (6 / 5)\<rparr>])) (\<lambda>fs.
     bindE (num_field hb ''pagefile_pct'') (\<lambda>pf. bindE (num_field hb ''mem_avail_mb'') (\<lambda>avail.
     let fs = (case (pf, avail) of
           (Some p, Some a) \<Rightarrow> add_if (flt (Fin 80) p \<and> flt a (Fin 1024)) R_Thrashing (rnd64 (4 / 5)) fs
         | _ \<Rightarrow> fs)
     in Inr (finish mexp mlog ''memory'' (rnd64 (2 / 100)) fs)))))"

definition rsi_evidence :: "pyfloat option \<Rightarrow> evidence_factor list" where
  "rsi_evidence rsi = (case rsi of None \<Rightarrow> []
     | Some x \<Rightarrow> if flt x (Fin 5) then [\<lparr>ev_label = R_RsiLow x, ev_weight = Fin (3 / 2)\<rparr>]
         else if flt x (Fin 7) then [\<lparr>ev_label = R_RsiModerate x, ev_weight = rnd64 (3 / 5)\<rparr>] else [])"

definition crash_evidence :: "pyfloat option \<Rightarrow> evidence_factor list \<Rightarrow> evidence_factor list res" where
  "crash_evidence ac fs = (case ac of None \<Rightarrow> Inr fs
     | Some x \<Rightarrow> if flt (Fin 5) x
         then bindE (int_of_float x) (\<lambda>i. Inr (fs @ [\<lparr>ev_label = R_AppCrashes i, ev_weight = rnd64 (4 / 5)\<rparr>]))
         else Inr fs)"

definition hang_evidence :: "int option \<Rightarrow> evidence_factor list \<Rightarrow> evidence_factor list" where
  "hang_evidence h fs = (case h of None \<Rightarrow> fs
     | Some n \<Rightarrow> add_if (n \<noteq> 0) (R_Hangs n)
         (fround 2 (fmul (py_min (fdiv_by (rnd64 (of_int n)) 10) (Fin 1)) (rnd64 (3 / 5)))) fs)"

definition stability_class :: "(pyfloat \<Rightarrow> pyfloat) \<Rightarrow> (pyfloat \<Rightarrow> pyfloat) \<Rightarrow> jobj option \<Rightarrow> jobj option
    \<Rightarrow> domain_values option \<Rightarrow> int option \<Rightarrow> (string, domain_state) dict option \<Rightarrow> risk_class res" where
  "stability_class mexp mlog inventory hist dv hangs trust =
     (if class_gated ''stability'' trust then Inr (withheld ''stability'')
      else
        bindE (num_field hist ''reliability_stability_index'') (\<lambda>rsi.
        bindE (num_field hist ''bugchecks_30d'') (\<lambda>bc.
        bindE (per_event R_Bsod (4 / 5) (5 / 2) bc (rsi_evidence rsi)) (\<lambda>fs.
        bindE (num_field hist ''app_crashes_30d'') (\<lambda>ac. bindE (crash_evidence ac fs) (\<lambda>fs.
        let fs = (case inventory of None \<Rightarrow> fs
              | Some d \<Rightarrow> add_if (truthy (jget d ''pending_reboot'')) R_PendingReboot (rnd64 (2 / 5)) fs) in
        bindE (num_field inventory ''driver_problem_count'') (\<lambda>dpc.
        bindE (per_event R_Drivers (3 / 5) (9 / 5) dpc fs) (\<lambda>fs.
        let fs = engine_rule dv ''os_degradation_risk'' (rnd64 (6 / 5)) R_OsEngine fs;
            fs = engine_rule dv ''disk_fill_risk'' (rnd64 (2 / 5)) R_FillEngine fs;
            fs = engine_rule dv ''software_aging_risk'' (rnd64 (4 / 5)) R_AgingEngine fs;
            fs = hang_evidence hangs fs
        in Inr (finish mexp mlog ''stability'' (rnd64 (5 / 100)) fs)))))))))"

subsection \<open>Aggregation\<close>

definition ALL_CLASS_NAMES :: "string list" where
  "ALL_CLASS_NAMES = [''storage'', ''power_thermal'', ''memory'', ''stability'']"

definition class_key :: "risk_class \<Rightarrow> pyfloat" where
  \<comment> \<open>the order of the sort key, withheld classes below every number\<close>
  "class_key c = (case rc_probability c of None \<Rightarrow> NInf | Some p \<Rightarrow> p)"

record risk =
  rk_classes :: "risk_class list"
  rk_top :: "string option"
  rk_overall :: "pyfloat option"

definition aggregate :: "risk_class list \<Rightarrow> risk" where
  "aggregate classes =
     (let cs = sort_desc class_key classes
      in case cs of
           c # _ \<Rightarrow> (case rc_probability c of
               Some p \<Rightarrow> \<lparr>rk_classes = cs, rk_top = Some (rc_name c), rk_overall = Some (fround 1 (fmul p (Fin 100)))\<rparr>
             | None \<Rightarrow> \<lparr>rk_classes = cs, rk_top = None, rk_overall = None\<rparr>)
         | [] \<Rightarrow> \<lparr>rk_classes = [], rk_top = None, rk_overall = None\<rparr>)"

definition compute_risk :: "(pyfloat \<Rightarrow> pyfloat) \<Rightarrow> (pyfloat \<Rightarrow> pyfloat) \<Rightarrow> int \<Rightarrow> jobj option \<Rightarrow> jobj option \<Rightarrow> jobj option
    \<Rightarrow> domain_values option \<Rightarrow> int option \<Rightarrow> (string, domain_state) dict option \<Rightarrow> bool \<Rightarrow> risk res" where
  "compute_risk mexp mlog now inventory hist hb dv hangs trust untrusted =
     (if untrusted then Inr \<lparr>rk_classes = map withheld ALL_CLASS_NAMES, rk_top = None, rk_overall = None\<rparr>
      else
        bindE (device_age_years now inventory) (\<lambda>age.
        bindE (storage_class mexp mlog hist hb age dv trust) (\<lambda>s.
        bindE (power_class mexp mlog hist hb trust) (\<lambda>p.
        bindE (memory_class mexp mlog hist hb) (\<lambda>m.
        bindE (stability_class mexp mlog inventory hist dv hangs trust) (\<lambda>t.
        Inr (aggregate [s, p, m, t])))))))"

subsection \<open>The gate of the classes (\<open>server/pipeline.py\<close>)\<close>

definition CLASS_DOMAIN :: "(string, string) dict" where
  "CLASS_DOMAIN = [(''storage'', ''storage''), (''power_thermal'', ''thermal''), (''stability'', ''os_stability'')]"

definition class_trust :: "trust_blob \<Rightarrow> (string, domain_state) dict" where
  "class_trust t = map (\<lambda>(c, dm). (c, case domain_state_of (tb_domains t) dm of None \<Rightarrow> D_UNKNOWN | Some s \<Rightarrow> s)) CLASS_DOMAIN"

subsection \<open>Probabilities\<close>

definition exp_ok :: "(pyfloat \<Rightarrow> pyfloat) \<Rightarrow> bool" where
  \<comment> \<open>the exponential of a number that is not positive lies between 0 and 1\<close>
  "exp_ok mexp \<longleftrightarrow> (\<forall>x. fle x (Fin 0) \<longrightarrow> ranged 0 1 (mexp x))"

definition log_ok :: "(pyfloat \<Rightarrow> pyfloat) \<Rightarrow> bool" where
  \<comment> \<open>the logarithm of a positive number is a number\<close>
  "log_ok mlog \<longleftrightarrow> (\<forall>q>0. \<exists>r. mlog (Fin q) = Fin r)"

lemma sigmoid_ranged:
  assumes "exp_ok mexp" "x \<noteq> NaN"
  shows "ranged 0 1 (sigmoid mexp x)"
proof (cases "flt x (Fin 0)")
  case True
  then have "fle x (Fin 0)" by (simp add: flt_fle)
  with assms(1) obtain z where z: "mexp x = Fin z" "0 \<le> z" "z \<le> 1" by (auto simp: exp_ok_def ranged_Fin)
  have "ranged 1 2 (rnd64 (1 + z))" using z by (intro rnd64_ranged) simp_all
  then obtain d where d: "rnd64 (1 + z) = Fin d" "1 \<le> d" by (auto simp: ranged_Fin)
  have "0 \<le> z / d \<and> z / d \<le> 1" using z d by (simp add: divide_le_eq)
  then show ?thesis using True z d by (auto simp: sigmoid_def intro!: rnd64_ranged)
next
  case False
  then have "fle (fneg x) (Fin 0)" using assms(2) by (cases x) auto
  with assms(1) obtain z where z: "mexp (fneg x) = Fin z" "0 \<le> z" "z \<le> 1" by (auto simp: exp_ok_def ranged_Fin)
  have "ranged 1 2 (rnd64 (1 + z))" using z by (intro rnd64_ranged) simp_all
  then obtain d where d: "rnd64 (1 + z) = Fin d" "1 \<le> d" by (auto simp: ranged_Fin)
  have "0 \<le> 1 / d \<and> 1 / d \<le> 1" using d by simp
  then show ?thesis using False z d by (auto simp: sigmoid_def intro!: rnd64_ranged)
qed

lemma sum_nonneg: "list_all (\<lambda>w. fle (Fin 0) w) ws \<Longrightarrow> fle (Fin 0) s \<Longrightarrow> fle (Fin 0) (foldl fadd s ws)"
proof (induction ws arbitrary: s)
  case (Cons w ws)
  have "fle (Fin 0) (fadd s w)"
    using Cons.prems rnd64_fle[of 0] rnd64_of_int[of 0] by (cases s; cases w) auto
  with Cons show ?case by simp
qed simp


lemma finish_probability:
  assumes "exp_ok mexp" "\<exists>r. logit mlog prior = Fin r" "foldl fadd (Fin 0) (map ev_weight fs) \<noteq> NaN"
  shows "\<exists>p. rc_probability (finish mexp mlog name prior fs) = Some p \<and> ranged 0 1 p"
proof -
  from assms(2) obtain r where r: "logit mlog prior = Fin r" ..
  have "fadd (Fin r) (foldl fadd (Fin 0) (map ev_weight fs)) \<noteq> NaN"
    using assms(3) by (cases "foldl fadd (Fin 0) (map ev_weight fs)") simp_all
  from sigmoid_ranged[OF assms(1) this] show ?thesis by (simp add: finish_def Let_def r fround_ranged)
qed

lemma dyadic: "rnd64 (1 / 64) = Fin (1 / 64)" "rnd64 (1 / 2) = Fin (1 / 2)"
  using rnd64_fraction[of 1 6] rnd64_fraction[of 1 1] by simp_all

lemma rnd64_dyadic:
  "1 / 64 \<le> q \<Longrightarrow> q \<le> 1 / 2 \<Longrightarrow> \<exists>c. rnd64 q = Fin c \<and> 1 / 64 \<le> c \<and> c \<le> 1 / 2"
  using rnd64_fle[of "1 / 64" q] rnd64_fle[of q "1 / 2"] by (cases "rnd64 q") (auto simp: dyadic)

lemma prior_logit:
  assumes "1 / 64 \<le> q" "q \<le> 1 / 2" "log_ok mlog"
  shows "\<exists>r. logit mlog (rnd64 q) = Fin r"
proof -
  obtain c where c: "rnd64 q = Fin c" "1 / 64 \<le> c" "c \<le> 1 / 2" using rnd64_dyadic[OF assms(1,2)] by blast
  have e: "ranged 0 1 (rnd64 (1 / 1000000))" by (intro rnd64_ranged) simp_all
  have e2: "fle (rnd64 (1 / 1000000)) (Fin (1 / 64))" using rnd64_fle[of "1 / 1000000" "1 / 64"] by (simp add: dyadic)
  from e e2 obtain t where t: "rnd64 (1 / 1000000) = Fin t" "0 \<le> t" "t \<le> 1 / 64" by (auto simp: ranged_Fin)
  have top: "fle (Fin (1 / 2)) (rnd64 (1 - t))" using t rnd64_fle[of "1 / 2" "1 - t"] by (simp add: dyadic)
  have p: "py_min (py_max (Fin c) (Fin t)) (rnd64 (1 - t)) = Fin c"
    using c t top by (cases "rnd64 (1 - t)") (auto simp: py_min_def py_max_def)
  have "ranged 0 1 (rnd64 (1 - c))" using c by (intro rnd64_ranged) simp_all
  moreover have "fle (Fin (1 / 2)) (rnd64 (1 - c))" using c rnd64_fle[of "1 / 2" "1 - c"] by (simp add: dyadic)
  ultimately obtain d where d: "rnd64 (1 - c) = Fin d" "1 / 2 \<le> d" "d \<le> 1" by (auto simp: ranged_Fin)
  have q: "1 / 64 \<le> c / d \<and> c / d \<le> of_int 1" using c d by (simp add: le_divide_eq divide_le_eq)
  then have "fle (Fin (1 / 64)) (rnd64 (c / d))" "fle (rnd64 (c / d)) (Fin 1)"
    using rnd64_fle[of "1 / 64" "c / d"] rnd64_fle[of "c / d" "of_int 1"] rnd64_of_int[of 1] by (simp_all add: dyadic)
  then obtain x where "rnd64 (c / d) = Fin x" "0 < x" by (cases "rnd64 (c / d)") auto
  then show ?thesis using assms(3) by (simp add: logit_def Let_def c(1) t(1) fsub_def p d(1) log_ok_def)
qed

lemma rnd64_pos: "1 / 64 \<le> q \<Longrightarrow> q \<le> of_int 4 \<Longrightarrow> \<exists>c. rnd64 q = Fin c \<and> 0 < c"
  using rnd64_fle[of "1 / 64" q] rnd64_fle[of q "of_int 4"] rnd64_of_int[of 4] by (cases "rnd64 q") (auto simp: dyadic)


subsection \<open>The weights of a class\<close>

lemma sum_capped:
  "list_all (\<lambda>w. fle w (Fin 3)) ws \<Longrightarrow> fle s (Fin (of_int k)) \<Longrightarrow> 0 \<le> k \<Longrightarrow> k + 3 * int (length ws) < 2 ^ 53
    \<Longrightarrow> foldl fadd s ws \<noteq> NaN"
proof (induction ws arbitrary: s k)
  case (Cons w ws)
  have "fle (fadd s w) (Fin (of_int (k + 3)))"
  proof (cases "\<exists>a b. s = Fin a \<and> w = Fin b")
    case True
    then obtain a b where ab: "s = Fin a" "w = Fin b" by blast
    with Cons.prems have "fle (rnd64 (a + b)) (rnd64 (of_int (k + 3)))" by (intro rnd64_fle) simp
    moreover have "rnd64 (of_int (k + 3)) = Fin (of_int (k + 3))" using Cons.prems by (intro rnd64_of_int) simp
    ultimately show ?thesis using ab by simp
  next
    case False
    with Cons.prems show ?thesis by (cases s; cases w) simp_all
  qed
  from Cons.IH[OF _ this] Cons.prems show ?case by simp
qed auto

definition capped :: "nat \<Rightarrow> evidence_factor list \<Rightarrow> bool" where
  \<comment> \<open>at most \<open>k\<close> factors, none above 3\<close>
  "capped k fs \<longleftrightarrow> length fs \<le> k \<and> list_all (\<lambda>f. fle (ev_weight f) (Fin 3)) fs"

definition rising :: "evidence_factor list \<Rightarrow> bool" where
  "rising fs \<longleftrightarrow> list_all (\<lambda>f. fle (Fin 0) (ev_weight f)) fs"

named_theorems weights \<open>what each rule keeps of the weights\<close>

lemma capped_sum: "capped k fs \<Longrightarrow> k \<le> 1000 \<Longrightarrow> foldl fadd (Fin 0) (map ev_weight fs) \<noteq> NaN"
  by (rule sum_capped[where k = 0]) (auto simp: capped_def list_all_iff)

lemma rising_sum: "rising fs \<Longrightarrow> foldl fadd (Fin 0) (map ev_weight fs) \<noteq> NaN"
  using sum_nonneg[of "map ev_weight fs" "Fin 0"] by (auto simp: rising_def list_all_iff)

lemma capped_Nil [weights, simp]: "capped k []" and rising_Nil [weights, simp]: "rising []"
  by (simp_all add: capped_def rising_def)

lemma capped_snoc: "capped k fs \<Longrightarrow> fle w (Fin 3) \<Longrightarrow> capped (Suc k) (fs @ [\<lparr>ev_label = l, ev_weight = w\<rparr>])"
  by (simp add: capped_def)

lemma capped_Suc: "capped k fs \<Longrightarrow> capped (Suc k) fs"
  by (simp add: capped_def)

lemma rnd64_weight: "0 \<le> q \<Longrightarrow> q \<le> 3 \<Longrightarrow> fle (Fin 0) (rnd64 q) \<and> fle (rnd64 q) (Fin 3)"
  using rnd64_ranged[of 0 q 3] by (simp add: ranged_def)

lemma capped_add_if: "capped k fs \<Longrightarrow> fle w (Fin 3) \<Longrightarrow> capped (Suc k) (add_if c l w fs)"
  by (simp add: add_if_def capped_snoc capped_Suc)

lemma rising_add_if: "rising fs \<Longrightarrow> fle (Fin 0) w \<Longrightarrow> rising (add_if c l w fs)"
  by (simp add: add_if_def rising_def)

lemma capped_per_event:
  assumes "per_event l each cap n fs = Inr fs'" "capped k fs" "0 \<le> cap" "cap \<le> 3"
  shows "capped (Suc k) fs'"
proof -
  have "fle (py_min (fmul (Fin q) (rnd64 each)) (rnd64 cap)) (Fin 3)" if "fmul (Fin q) (rnd64 each) \<noteq> NaN" for q
    using rnd64_weight[OF assms(3,4)] that fle_trans[of "fmul (Fin q) (rnd64 each)" "rnd64 cap" "Fin 3"]
    by (cases "fmul (Fin q) (rnd64 each)"; cases "rnd64 cap") (auto simp: py_min_def)
  moreover have "fmul (Fin q) (rnd64 each) \<noteq> NaN" if "q \<noteq> 0" for q
    using that by (cases "rnd64 each") (auto simp: sign_inf_def)
  ultimately show ?thesis using assms(1,2)
    by (auto simp: per_event_def capped_Suc int_of_float_def intro!: capped_snoc split: option.splits if_splits pyfloat.splits)
qed

lemma domain_lo_ranged:
  assumes "0 \<le> s" "s \<le> 2"
  shows "ranged 0 2 (domain_lo dv key (rnd64 s))"
proof -
  have "ranged 0 2 (fmul (fdiv_by (clamp v 0 100) 100) (rnd64 s))" for v
  proof -
    obtain q where q: "clamp v 0 100 = Fin q" "0 \<le> q" "q \<le> 100" using clamp_ranged[of 0 100 v] by (auto simp: ranged_Fin)
    then have "ranged 0 1 (rnd64 (q / 100))" by (intro rnd64_ranged) auto
    then obtain p where p: "rnd64 (q / 100) = Fin p" "0 \<le> p" "p \<le> 1" by (auto simp: ranged_Fin)
    have "ranged 0 2 (rnd64 s)" using assms by (intro rnd64_ranged) auto
    then obtain t where t: "rnd64 s = Fin t" "0 \<le> t" "t \<le> 2" by (auto simp: ranged_Fin)
    have "p * t \<le> 1 * 2" using p t by (intro mult_mono) auto
    then show ?thesis using p t q by (auto intro!: rnd64_ranged)
  qed
  moreover have "ranged 0 2 (Fin 0)" by (simp add: ranged_def)
  ultimately show ?thesis by (auto simp: domain_lo_def split: option.split)
qed

lemma engine_weight: "0 \<le> s \<Longrightarrow> s \<le> 2 \<Longrightarrow> ranged 0 2 (fround n (domain_lo dv key (rnd64 s)))"
  by (simp add: domain_lo_ranged fround_ranged)

lemma capped_engine: "capped k fs \<Longrightarrow> 0 \<le> s \<Longrightarrow> s \<le> 2 \<Longrightarrow> capped (Suc k) (engine_rule dv key (rnd64 s) l fs)"
  using engine_weight[of s 2 dv key, THEN ranged_mono, of 0 3]
  by (auto simp: engine_rule_def Let_def capped_Suc ranged_def intro!: capped_snoc)

lemma rising_engine: "rising fs \<Longrightarrow> 0 \<le> s \<Longrightarrow> s \<le> 2 \<Longrightarrow> rising (engine_rule dv key (rnd64 s) l fs)"
  using engine_weight[of s 2 dv key]
  by (auto simp: engine_rule_def Let_def rising_def ranged_def)


lemma fround_weight: "fle x (Fin (of_int b)) \<Longrightarrow> \<bar>b\<bar> < 2 ^ 53 \<Longrightarrow> fle (fround n x) (Fin (of_int b))"
proof (cases x)
  case (Fin q)
  assume x: "fle x (Fin (of_int b))" and b: "\<bar>b\<bar> < 2 ^ 53"
  then have "half_even (q * 10 ^ n) \<le> half_even (of_int (b * 10 ^ n))" using Fin by (intro half_even_mono) simp
  then have "(of_int (half_even (q * 10 ^ n)) :: rat) \<le> of_int (b * 10 ^ n)" unfolding half_even_of_int by (simp only: of_int_le_iff)
  then have "fle (rnd64 (of_int (half_even (q * 10 ^ n)) / 10 ^ n)) (rnd64 (of_int b))" by (intro rnd64_fle) (simp add: pos_divide_le_eq)
  then show ?thesis using Fin rnd64_of_int[OF b] by (simp add: fround_def)
qed (simp_all add: fround_def)

lemma rnd64_Fin_small: "0 \<le> q \<Longrightarrow> q \<le> 3 \<Longrightarrow> \<exists>r. rnd64 q = Fin r \<and> 0 \<le> r \<and> r \<le> 3"
  using rnd64_ranged[of 0 q 3] by (auto simp: ranged_Fin)

lemma capped_hangs: "capped k fs \<Longrightarrow> capped (Suc k) (hang_evidence h fs)"
proof (cases h)
  case (Some n)
  assume c: "capped k fs"
  obtain r where r: "rnd64 (3 / 5) = Fin r" "0 < r" "r \<le> 1"
    using rnd64_pos[of "3 / 5"] rnd64_fle[of "3 / 5" "of_int 1"] rnd64_of_int[of 1] by auto
  define m where "m = py_min (fdiv_by (rnd64 (of_int n)) 10) (Fin 1)"
  have "fle m (Fin 1)"
    by (cases "rnd64 (of_int n)"; cases "fdiv_by (rnd64 (of_int n)) 10") (auto simp: m_def py_min_def sign_inf_def)
  then have "fle (fmul m (Fin r)) (fmul (Fin 1) (Fin r))" using r(2) by (intro fmul_mono) simp_all
  moreover have "fle (fmul (Fin 1) (Fin r)) (Fin 3)" using rnd64_weight[of r] r by simp
  ultimately have "fle (fround 2 (fmul m (Fin r))) (Fin 3)"
    using fround_weight[of "fmul m (Fin r)" 3 2] fle_trans by simp
  then show ?thesis using c Some r(1) by (simp add: hang_evidence_def capped_add_if m_def)
qed (simp add: hang_evidence_def capped_Suc)

lemma fround_nonneg: "fle (Fin 0) x \<Longrightarrow> fle (Fin 0) (fround n x)"
proof (cases x)
  case (Fin q)
  assume "fle (Fin 0) x"
  then have "half_even 0 \<le> half_even (q * 10 ^ n)" using Fin by (intro half_even_mono) simp
  then have "0 \<le> half_even (q * 10 ^ n)" by (simp add: half_even_def)
  then have "fle (rnd64 0) (rnd64 (of_int (half_even (q * 10 ^ n)) / 10 ^ n))" by (intro rnd64_fle) simp
  then show ?thesis using Fin by (simp add: fround_def rnd64_def)
qed (simp_all add: fround_def)

lemma older_nonneg: "pred_option (fle (Fin 0)) best \<Longrightarrow> pred_option (fle (Fin 0)) (older now best t)"
  by (auto simp: older_def Let_def split: option.split)

lemma device_age_nonneg: "device_age_years now inventory = Inr (Some a) \<Longrightarrow> fle (Fin 0) a"
proof -
  assume "device_age_years now inventory = Inr (Some a)"
  then obtain t1 t2 b where "older now (older now None t1) t2 = Some b" "a = fround 1 b"
    by (auto simp: device_age_years_def bindE_Inr_iff Let_def split: option.splits)
  then show ?thesis using older_nonneg[OF older_nonneg[of None now t1], of now t2] by (simp add: fround_nonneg)
qed

lemma rising_weights:
  "wear_evidence v fs = Inr fs' \<Longrightarrow> rising fs \<Longrightarrow> rising fs'"
  "realloc_evidence v fs = Inr fs' \<Longrightarrow> rising fs \<Longrightarrow> rising fs'"
  "power_on_evidence v fs = Inr fs' \<Longrightarrow> rising fs \<Longrightarrow> rising fs'"
proof -
  have w: "fle (Fin 0) (fmul (fdiv_by x 100) (rnd64 (7 / 2)))" if "flt (Fin 0) x" for x
  proof -
    obtain r where r: "rnd64 (7 / 2) = Fin r" "0 < r" using rnd64_pos[of "7 / 2"] by auto
    have "fle (fdiv_by (Fin 0) 100) (fdiv_by x 100)" using that
      by (cases x) (auto simp: sign_inf_def intro!: rnd64_fle)
    then have "fle (fmul (Fin 0) (Fin r)) (fmul (fdiv_by x 100) (Fin r))" using r(2) by (intro fmul_mono) (simp_all add: rnd64_def)
    then show ?thesis using r(1) by (simp add: rnd64_def)
  qed
  show "wear_evidence v fs = Inr fs' \<Longrightarrow> rising fs \<Longrightarrow> rising fs'"
    using w by (auto simp: wear_evidence_def rising_def split: if_splits)
  show "realloc_evidence v fs = Inr fs' \<Longrightarrow> rising fs \<Longrightarrow> rising fs'"
    using rnd64_fle[of 0 "16 / 5"] by (auto simp: realloc_evidence_def rising_def rnd64_def[of 0] split: if_splits)
  show "power_on_evidence v fs = Inr fs' \<Longrightarrow> rising fs \<Longrightarrow> rising fs'"
    using rnd64_weight[of "4 / 5"] by (auto simp: power_on_evidence_def rising_def split: if_splits)
qed

lemma capped_crash: "crash_evidence ac fs = Inr fs' \<Longrightarrow> capped k fs \<Longrightarrow> capped (Suc k) fs'"
  using rnd64_weight[of "4 / 5"]
  by (auto simp: crash_evidence_def bindE_Inr_iff capped_Suc intro!: capped_snoc split: option.splits if_splits)

definition numbered :: "risk_class \<Rightarrow> bool" where
  \<comment> \<open>the class has a probability\<close>
  "numbered c \<longleftrightarrow> (\<exists>p. rc_probability c = Some p \<and> ranged 0 1 p)"

lemma finish_name [simp]: "rc_name (finish mexp mlog n p fs) = n" "rc_name (withheld n) = n"
  by (simp_all add: finish_def Let_def withheld_def)

lemma finish_numbered:
  assumes "exp_ok mexp" "log_ok mlog" "1 / 64 \<le> q" "q \<le> 1 / 2" "rising fs \<or> capped k fs \<and> k \<le> 1000"
  shows "numbered (finish mexp mlog n (rnd64 q) fs)"
  unfolding numbered_def using assms prior_logit rising_sum capped_sum by (intro finish_probability) blast+


lemma age_weight: "fle (Fin 0) a \<Longrightarrow> fle (Fin 0) (py_min (fmul a (rnd64 (1 / 20))) (rnd64 (4 / 5)))"
proof -
  assume a: "fle (Fin 0) a"
  obtain r where r: "rnd64 (1 / 20) = Fin r" "0 < r" using rnd64_pos[of "1 / 20"] by auto
  have "fle (fmul (Fin 0) (Fin r)) (fmul a (Fin r))" using a r(2) by (intro fmul_mono) simp_all
  then show ?thesis using rnd64_weight[of "4 / 5"] r(1) by (simp add: py_min_def rnd64_def[of 0])
qed

lemma storage_class_number:
  assumes "storage_class mexp mlog hist hb age dv trust = Inr c" "exp_ok mexp" "log_ok mlog" "pred_option (fle (Fin 0)) age"
  shows "rc_name c = ''storage'' \<and> (if class_gated ''storage'' trust then c = withheld ''storage'' else numbered c)"
proof (cases "class_gated ''storage'' trust")
  case False
  define fs0 where "fs0 = engine_rule dv ''storage_risk'' (Fin 1) R_StorageEngine (case age of None \<Rightarrow> []
      | Some a \<Rightarrow> add_if (\<not> feq a (Fin 0)) (R_Age a) (py_min (fmul a (rnd64 (1 / 20))) (rnd64 (4 / 5))) [])"
  have "rising (case age of None \<Rightarrow> []
      | Some a \<Rightarrow> add_if (\<not> feq a (Fin 0)) (R_Age a) (py_min (fmul a (rnd64 (1 / 20))) (rnd64 (4 / 5))) [])"
    using assms(4) by (auto intro!: rising_add_if age_weight split: option.split)
  from rising_engine[OF this, of 1] have r0: "rising fs0" using rnd64_of_int[of 1] by (simp add: fs0_def)
  from assms(1) False obtain w r p n lat fs1 fs2 fs3 fs where e: "wear_evidence w fs0 = Inr fs1" "realloc_evidence r fs1 = Inr fs2"
      "power_on_evidence p (add_if (0 < n) (R_IoErrors n) (rnd64 (13 / 5)) fs2) = Inr fs3"
      "fs = (case lat of None \<Rightarrow> fs3 | Some x \<Rightarrow> add_if (flt (rnd64 (3 / 100)) x) (R_Latency x) (rnd64 (9 / 10)) fs3)"
      "c = finish mexp mlog ''storage'' (rnd64 (5 / 100)) fs"
    by (auto simp: storage_class_def Let_def fs0_def[symmetric] split: prod.splits)
  have "rising (add_if (0 < n) (R_IoErrors n) (rnd64 (13 / 5)) fs2)"
    using rising_weights(2)[OF e(2) rising_weights(1)[OF e(1) r0]] rnd64_weight[of "13 / 5"] by (auto intro: rising_add_if)
  with e(3) have "rising fs3" by (rule rising_weights(3))
  then have "rising fs" using e(4) rnd64_weight[of "9 / 10"] by (auto intro: rising_add_if split: option.splits)
  then show ?thesis using e(5) False finish_numbered[OF assms(2,3), of "5 / 100"] by simp
qed (use assms(1) in \<open>auto simp: storage_class_def\<close>)

lemma power_class_number:
  assumes "power_class mexp mlog hist hb trust = Inr c" "exp_ok mexp" "log_ok mlog"
  shows "rc_name c = ''power_thermal'' \<and> (if class_gated ''power_thermal'' trust then c = withheld ''power_thermal'' else numbered c)"
proof (cases "class_gated ''power_thermal'' trust")
  case False
  with assms(1) obtain perf ds kp fs fs' where e: "per_event R_Dirty (2 / 5) (3 / 2) ds (throttle_evidence perf) = Inr fs"
      "(if power_anchor perf ds then per_event R_PowerLoss (3 / 10) 1 kp fs else Inr fs) = Inr fs'"
      "c = finish mexp mlog ''power_thermal'' (rnd64 (3 / 100)) fs'"
    by (auto simp: power_class_def)
  have "capped 1 (throttle_evidence perf)" using rnd64_weight[of "6 / 5"]
    by (auto simp: throttle_evidence_def capped_def split: option.split)
  with e(1) have "capped 2 fs" using capped_per_event[where k = 1] by (simp add: numeral_2_eq_2)
  with e(2) have "capped 3 fs'" using capped_per_event[where k = 2] capped_Suc[of 2 fs] by (auto simp: numeral_3_eq_3 split: if_splits)
  then show ?thesis using e(3) False finish_numbered[OF assms(2,3), of "3 / 100" fs' 3] by simp
qed (use assms(1) in \<open>auto simp: power_class_def\<close>)

lemma memory_class_number:
  assumes "memory_class mexp mlog hist hb = Inr c" "exp_ok mexp" "log_ok mlog"
  shows "rc_name c = ''memory'' \<and> numbered c"
proof -
  from assms(1) obtain bc pf avail fs fs' where e: "(case bc of None \<Rightarrow> Inr [] | Some x \<Rightarrow> if feq x (Fin 0) then Inr []
        else bindE (int_of_float x) (\<lambda>i. Inr [\<lparr>ev_label = R_BsodMemory i, ev_weight = rnd64 (6 / 5)\<rparr>])) = Inr fs"
      "fs' = (case (pf, avail) of (Some p, Some a) \<Rightarrow> add_if (flt (Fin 80) p \<and> flt a (Fin 1024)) R_Thrashing (rnd64 (4 / 5)) fs
         | _ \<Rightarrow> fs)" "c = finish mexp mlog ''memory'' (rnd64 (2 / 100)) fs'"
    by (auto simp: memory_class_def Let_def)
  have "capped 1 fs" using e(1) rnd64_weight[of "6 / 5"] by (auto simp: capped_def split: option.splits if_splits)
  then have "capped 2 fs'" using e(2) capped_Suc[of 1 fs] capped_add_if[of 1 fs "rnd64 (4 / 5)"] rnd64_weight[of "4 / 5"]
    by (auto simp: numeral_2_eq_2 split: option.splits)
  then show ?thesis using e(3) finish_numbered[OF assms(2,3), of "2 / 100" fs' 2] by simp
qed

lemma stability_class_number:
  assumes "stability_class mexp mlog inventory hist dv hangs trust = Inr c" "exp_ok mexp" "log_ok mlog"
  shows "rc_name c = ''stability'' \<and> (if class_gated ''stability'' trust then c = withheld ''stability'' else numbered c)"
proof (cases "class_gated ''stability'' trust")
  case False
  with assms(1) obtain rsi bc ac dpc fs1 fs2 fs3 fs where e: "per_event R_Bsod (4 / 5) (5 / 2) bc (rsi_evidence rsi) = Inr fs1"
      "crash_evidence ac fs1 = Inr fs2"
      "per_event R_Drivers (3 / 5) (9 / 5) dpc (case inventory of None \<Rightarrow> fs2
          | Some d \<Rightarrow> add_if (truthy (jget d ''pending_reboot'')) R_PendingReboot (rnd64 (2 / 5)) fs2) = Inr fs3"
      "fs = hang_evidence hangs (engine_rule dv ''software_aging_risk'' (rnd64 (4 / 5)) R_AgingEngine
         (engine_rule dv ''disk_fill_risk'' (rnd64 (2 / 5)) R_FillEngine
         (engine_rule dv ''os_degradation_risk'' (rnd64 (6 / 5)) R_OsEngine fs3)))"
      "c = finish mexp mlog ''stability'' (rnd64 (5 / 100)) fs"
    by (auto simp: stability_class_def Let_def)
  have "capped 1 (rsi_evidence rsi)" using rnd64_weight[of "3 / 5"] by (auto simp: rsi_evidence_def capped_def split: option.split)
  with e(1) have "capped (Suc 1) fs1" using capped_per_event by simp
  with e(2) have "capped (Suc (Suc 1)) fs2" by (rule capped_crash)
  then have "capped (Suc (Suc (Suc 1))) (case inventory of None \<Rightarrow> fs2
          | Some d \<Rightarrow> add_if (truthy (jget d ''pending_reboot'')) R_PendingReboot (rnd64 (2 / 5)) fs2)"
    using rnd64_weight[of "2 / 5"] by (auto intro: capped_Suc capped_add_if split: option.split)
  with e(3) have "capped (Suc (Suc (Suc (Suc 1)))) fs3" using capped_per_event by simp
  then have "capped (Suc (Suc (Suc (Suc (Suc (Suc (Suc (Suc 1)))))))) fs" unfolding e(4)
    by (intro capped_hangs capped_engine) simp_all
  then show ?thesis using e(5) False finish_numbered[OF assms(2,3), of "5 / 100" fs "Suc (Suc (Suc (Suc (Suc (Suc (Suc (Suc 1)))))))"] by simp
qed (use assms(1) in \<open>auto simp: stability_class_def\<close>)


subsection \<open>The whole risk\<close>

lemma compute_risk_classes:
  assumes "compute_risk mexp mlog now inventory hist hb dv hangs trust False = Inr r" "exp_ok mexp" "log_ok mlog"
  shows "\<exists>s p m t. r = aggregate [s, p, m, t] \<and> map rc_name [s, p, m, t] = ALL_CLASS_NAMES \<and>
    (if class_gated ''storage'' trust then s = withheld ''storage'' else numbered s) \<and>
    (if class_gated ''power_thermal'' trust then p = withheld ''power_thermal'' else numbered p) \<and> numbered m \<and>
    (if class_gated ''stability'' trust then t = withheld ''stability'' else numbered t)"
proof -
  from assms(1) obtain age s p m t where e: "device_age_years now inventory = Inr age"
      "storage_class mexp mlog hist hb age dv trust = Inr s" "power_class mexp mlog hist hb trust = Inr p"
      "memory_class mexp mlog hist hb = Inr m" "stability_class mexp mlog inventory hist dv hangs trust = Inr t"
      "r = aggregate [s, p, m, t]"
    by (auto simp: compute_risk_def)
  have "pred_option (fle (Fin 0)) age" using e(1) device_age_nonneg by (cases age) auto
  from storage_class_number[OF e(2) assms(2,3) this] power_class_number[OF e(3) assms(2,3)]
    memory_class_number[OF e(4) assms(2,3)] stability_class_number[OF e(5) assms(2,3)]
  show ?thesis by (intro exI[of _ s] exI[of _ p] exI[of _ m] exI[of _ t]) (simp add: e(6) ALL_CLASS_NAMES_def)
qed

definition risk_ok :: "risk \<Rightarrow> bool" where
  \<comment> \<open>the four classes, each a probability or withheld without one, the worst first and the rest in order;
    the overall number is the worst class in percent\<close>
  "risk_ok r \<longleftrightarrow> mset (map rc_name (rk_classes r)) = mset ALL_CLASS_NAMES \<and>
     list_all (\<lambda>c. numbered c \<or> c = withheld (rc_name c)) (rk_classes r) \<and>
     sorted_wrt (\<lambda>a b. fle (class_key b) (class_key a)) (rk_classes r) \<and>
     (case rc_probability (hd (rk_classes r)) of
        None \<Rightarrow> rk_top r = None \<and> rk_overall r = None
      | Some p \<Rightarrow> rk_top r = Some (rc_name (hd (rk_classes r))) \<and>
          rk_overall r = Some (fround 1 (fmul p (Fin 100))) \<and> ranged 0 100 (fround 1 (fmul p (Fin 100))))"

lemma withheld_probability [simp]: "rc_probability (withheld n) = None"
  by (simp add: withheld_def)

lemma some_numbered: "numbered c \<or> c = withheld n \<Longrightarrow> rc_probability c = Some p \<Longrightarrow> ranged 0 1 p"
  by (auto simp: numbered_def)

lemma class_key_number: "numbered c \<or> c = withheld (rc_name c) \<Longrightarrow> class_key c \<noteq> NaN"
  by (auto simp: class_key_def numbered_def ranged_Fin withheld_def split: option.split)
    (metis option.distinct(1) risk_class.select_convs(2))

lemma percent_ranged: "ranged 0 1 p \<Longrightarrow> ranged 0 100 (fround 1 (fmul p (Fin 100)))"
  by (auto simp: ranged_Fin[of 0 1] intro!: fround_ranged rnd64_ranged)

lemma aggregate_ok:
  assumes "map rc_name cs = ALL_CLASS_NAMES" "list_all (\<lambda>c. numbered c \<or> c = withheld (rc_name c)) cs"
  shows "risk_ok (aggregate cs)"
proof -
  define ds where "ds = sort_desc class_key cs"
  have ms: "mset ds = mset cs" by (simp add: ds_def mset_sort_desc)
  then have all: "list_all (\<lambda>c. numbered c \<or> c = withheld (rc_name c)) ds" using assms(2) mset_eq_setD by (fastforce simp: list_all_iff)
  have names: "mset (map rc_name ds) = mset ALL_CLASS_NAMES" using ms assms(1) by (metis mset_map)
  have "sorted_wrt (\<lambda>a b. \<not> flt (class_key a) (class_key b)) ds" by (simp add: ds_def sorted_sort_desc)
  then have sorted: "sorted_wrt (\<lambda>a b. fle (class_key b) (class_key a)) ds"
    using all class_key_number by (auto simp: list_all_iff intro!: not_flt_fle elim: sorted_wrt_mono_rel[rotated])
  from names obtain c rest where ds: "ds = c # rest" by (cases ds) (auto simp: ALL_CLASS_NAMES_def)
  show ?thesis using names all sorted percent_ranged[OF some_numbered, of c "rc_name c"]
    by (cases "rc_probability c") (auto simp: aggregate_def risk_ok_def ds_def[symmetric] ds)
qed

lemma untrusted_ok: "risk_ok \<lparr>rk_classes = map withheld ALL_CLASS_NAMES, rk_top = None, rk_overall = None\<rparr>"
  by (simp add: risk_ok_def ALL_CLASS_NAMES_def withheld_def class_key_def)

text \<open>The risk is well formed whatever the device sends: the four classes, each a probability between 0 and 1 or withheld without a number and
  without a factor, the greatest first and those withheld last, and an overall number between 0 and 100, the one of the first class, which is
  missing just when every class is withheld.\<close>
theorem risk_probabilities_bounded:
  assumes "compute_risk mexp mlog now inventory hist hb dv hangs trust untrusted = Inr r" "exp_ok mexp" "log_ok mlog"
  shows "risk_ok r"
proof (cases untrusted)
  case False
  with assms(1) have "compute_risk mexp mlog now inventory hist hb dv hangs trust False = Inr r" by simp
  from compute_risk_classes[OF this assms(2,3)] obtain s p m t where "r = aggregate [s, p, m, t]"
      "map rc_name [s, p, m, t] = ALL_CLASS_NAMES" "s = withheld ''storage'' \<or> numbered s"
      "p = withheld ''power_thermal'' \<or> numbered p" "numbered m" "t = withheld ''stability'' \<or> numbered t"
    by (metis (full_types))
  then have "r = aggregate [s, p, m, t]" "map rc_name [s, p, m, t] = ALL_CLASS_NAMES"
      "list_all (\<lambda>c. numbered c \<or> c = withheld (rc_name c)) [s, p, m, t]" by (auto simp: ALL_CLASS_NAMES_def)
  then show ?thesis by (simp add: aggregate_ok)
qed (use assms(1) in \<open>auto simp: compute_risk_def untrusted_ok\<close>)


lemma risk_without_telemetry: "\<exists>r. compute_risk mexp mlog now None None None None None trust False = Inr r"
proof -
  have "\<exists>c. storage_class mexp mlog None None None None trust = Inr c"
    by (cases "class_gated ''storage'' trust") (simp_all add: storage_class_def first_disk_def disk_values_def
      wear_evidence_def realloc_evidence_def power_on_evidence_def num_field_def Let_def)
  moreover have "\<exists>c. power_class mexp mlog None None trust = Inr c"
    by (cases "class_gated ''power_thermal'' trust") (simp_all add: power_class_def num_field_def per_event_def)
  moreover have "\<exists>c. memory_class mexp mlog None None = Inr c"
    by (simp add: memory_class_def num_field_def Let_def)
  moreover have "\<exists>c. stability_class mexp mlog None None None None trust = Inr c"
    by (cases "class_gated ''stability'' trust") (simp_all add: stability_class_def num_field_def per_event_def crash_evidence_def Let_def)
  ultimately show ?thesis by (auto simp: compute_risk_def device_age_years_def)
qed

theorem risk_probabilities_bounded_witness:
  "\<exists>r. compute_risk (\<lambda>_. Fin 1) (\<lambda>_. Fin 0) 0 None None None None None None False = Inr r \<and> risk_ok r"
proof -
  obtain r where "compute_risk (\<lambda>_. Fin 1) (\<lambda>_. Fin 0) 0 None None None None None None False = Inr r"
    using risk_without_telemetry by blast
  moreover have "exp_ok (\<lambda>_. Fin 1)" "log_ok (\<lambda>_. Fin 0)" by (simp_all add: exp_ok_def log_ok_def ranged_def)
  ultimately show ?thesis using risk_probabilities_bounded by blast
qed

subsection \<open>The gate of a class\<close>

definition probability_of :: "risk \<Rightarrow> string \<Rightarrow> pyfloat option" where
  "probability_of r n = Option.bind (find (\<lambda>c. rc_name c = n) (rk_classes r)) rc_probability"

lemma find_unique: "distinct (map f xs) \<Longrightarrow> x \<in> set xs \<Longrightarrow> find (\<lambda>y. f y = f x) xs = Some x"
  by (induction xs) (auto simp: image_iff)

lemma aggregate_classes: "rk_classes (aggregate cs) = sort_desc class_key cs"
  by (auto simp: aggregate_def Let_def split: list.split option.split)

lemma aggregate_probability:
  assumes "distinct (map rc_name cs)" "c \<in> set cs"
  shows "probability_of (aggregate cs) (rc_name c) = rc_probability c"
proof -
  have "distinct (map rc_name (sort_desc class_key cs))"
    using assms(1) mset_sort_desc[of class_key cs] by (metis mset_eq_imp_distinct_iff mset_map)
  then show ?thesis using assms(2) by (simp add: probability_of_def aggregate_classes find_unique)
qed

lemma class_gated_domain:
  assumes "dict_get CLASS_DOMAIN n = Some d" "dict_get DOMAIN_SOURCES d = Some ([s], opts)"
  shows "class_gated n (Some (class_trust (build_trust_blob m lg))) \<longleftrightarrow> \<not> source_ok m s"
proof -
  have "dict_get (class_trust t) n = map_option (\<lambda>d. case domain_state_of (tb_domains t) d of None \<Rightarrow> D_UNKNOWN | Some s \<Rightarrow> s)
      (dict_get CLASS_DOMAIN n)" for t
    by (auto simp: class_trust_def CLASS_DOMAIN_def dict_simps)
  then show ?thesis using domain_trusted_iff[OF assms(2), of m] by (simp add: class_gated_def assms built_domain)
qed

lemma class_domains:
  "dict_get CLASS_DOMAIN ''storage'' = Some ''storage''" "dict_get CLASS_DOMAIN ''power_thermal'' = Some ''thermal''"
  "dict_get CLASS_DOMAIN ''stability'' = Some ''os_stability''"
  by (simp_all add: CLASS_DOMAIN_def)

lemma class_numbers:
  assumes "compute_risk mexp mlog now inventory hist hb dv hangs trust untrusted = Inr r" "exp_ok mexp" "log_ok mlog" "c \<in> set ALL_CLASS_NAMES"
  shows "probability_of r c \<noteq> None \<longleftrightarrow> \<not> untrusted \<and> (c = ''memory'' \<or> \<not> class_gated c trust)"
proof (cases untrusted)
  case True
  then show ?thesis using assms(1) by (auto simp: compute_risk_def probability_of_def ALL_CLASS_NAMES_def)
next
  case False
  with assms(1) have "compute_risk mexp mlog now inventory hist hb dv hangs trust False = Inr r" by simp
  from compute_risk_classes[OF this assms(2,3)] obtain s p mm t where cs: "r = aggregate [s, p, mm, t]"
      "map rc_name [s, p, mm, t] = ALL_CLASS_NAMES"
      "if class_gated ''storage'' trust then s = withheld ''storage'' else numbered s"
      "if class_gated ''power_thermal'' trust then p = withheld ''power_thermal'' else numbered p" "numbered mm"
      "if class_gated ''stability'' trust then t = withheld ''stability'' else numbered t"
    by blast
  have "distinct (map rc_name [s, p, mm, t])" unfolding cs(2) by (simp add: ALL_CLASS_NAMES_def)
  then have pr: "c \<in> set [s, p, mm, t] \<Longrightarrow> probability_of r (rc_name c) = rc_probability c" for c
    unfolding cs(1) by (rule aggregate_probability)
  have names: "rc_name s = ''storage''" "rc_name p = ''power_thermal''" "rc_name mm = ''memory''" "rc_name t = ''stability''"
    using cs(2) unfolding ALL_CLASS_NAMES_def by simp_all
  from pr[of s] pr[of p] pr[of mm] pr[of t] have "probability_of r ''storage'' = rc_probability s"
    "probability_of r ''power_thermal'' = rc_probability p" "probability_of r ''memory'' = rc_probability mm"
    "probability_of r ''stability'' = rc_probability t" unfolding names by simp_all
  then show ?thesis using cs(3-6) False assms(4) by (auto simp: numbered_def ALL_CLASS_NAMES_def split: if_splits)
qed

lemma ungated: "\<not> class_gated n None"
  by (simp add: class_gated_def)

subsection \<open>A power loss alone\<close>

lemma num_field_other: "key \<noteq> key' \<Longrightarrow> num_field (Some (dict_set h key' v)) key = num_field (Some h) key"
  by (simp add: num_field_def jget_def dict_simps)

lemma first_disk_other: "key \<noteq> ''storage'' \<Longrightarrow> first_disk (Some (dict_set h key v)) = first_disk (Some h)"
  by (simp add: first_disk_def jget_def dict_simps)

lemma other_classes:
  "storage_class mexp mlog (Some (dict_set h ''kernel_power_41_30d'' v)) = storage_class mexp mlog (Some h)"
  "memory_class mexp mlog (Some (dict_set h ''kernel_power_41_30d'' v)) = memory_class mexp mlog (Some h)"
  "stability_class mexp mlog inventory (Some (dict_set h ''kernel_power_41_30d'' v)) = stability_class mexp mlog inventory (Some h)"
  by (simp_all only: fun_eq_iff storage_class_def memory_class_def stability_class_def)
    (simp_all add: num_field_other first_disk_other)

lemma power_class_unanchored:
  assumes "num_field hb ''cpu_perf_pct'' = Inr perf" "num_field (Some h) ''dirty_shutdowns_30d'' = Inr ds"
    "\<not> power_anchor perf ds" "to_num v = Inr x"
  shows "power_class mexp mlog (Some (dict_set h ''kernel_power_41_30d'' v)) hb trust =
    (if class_gated ''power_thermal'' trust then Inr (withheld ''power_thermal'')
     else bindE (per_event R_Dirty (2 / 5) (3 / 2) ds (throttle_evidence perf)) (\<lambda>fs.
       Inr (finish mexp mlog ''power_thermal'' (rnd64 (3 / 100)) fs)))"
proof -
  have "num_field (Some (dict_set h ''kernel_power_41_30d'' v)) ''kernel_power_41_30d'' = Inr x"
    using assms(4) by (simp add: num_field_def jget_def dict_simps)
  then show ?thesis using assms(1-3) by (simp add: power_class_def num_field_other)
qed

text \<open>Losing power says nothing of the hardware when nothing else does: with no throttling and no dirty shutdown,
  the count of power losses changes neither a class nor the whole.\<close>
theorem power_loss_needs_anchor:
  assumes "num_field hb ''cpu_perf_pct'' = Inr perf" "num_field (Some h) ''dirty_shutdowns_30d'' = Inr ds"
    "\<not> power_anchor perf ds" "to_num v = Inr x" "to_num w = Inr y"
  shows "compute_risk mexp mlog now inventory (Some (dict_set h ''kernel_power_41_30d'' v)) hb dv hangs trust untrusted =
    compute_risk mexp mlog now inventory (Some (dict_set h ''kernel_power_41_30d'' w)) hb dv hangs trust untrusted"
  unfolding compute_risk_def other_classes power_class_unanchored[OF assms(1-4)] power_class_unanchored[OF assms(1-3,5)] ..

theorem power_loss_needs_anchor_witness:
  "compute_risk (\<lambda>_. Fin 1) (\<lambda>_. Fin 0) 0 None (Some (dict_set [] ''kernel_power_41_30d'' (JInt 90))) None None None None False =
   compute_risk (\<lambda>_. Fin 1) (\<lambda>_. Fin 0) 0 None (Some (dict_set [] ''kernel_power_41_30d'' JNull)) None None None None False"
  using power_loss_needs_anchor[where hb = None and h = "[]" and v = "JInt 90" and w = JNull and perf = None and ds = None]
    rnd64_of_int[of 90] by (simp add: num_field_def jget_def power_anchor_def float_of_int_def)

end
