(* ===== verification/Trends.thy ===== *)
theory Trends
  imports Bayes
begin

text \<open>
  The trend engine of \<open>server/analytics/trends.py\<close>: points of a stored series on server time, the robust slope
  (the median of all pairwise slopes), the segment after a part was replaced, the time left to a threshold, and
  the trajectory axis made of them.  Rows are decoded JSON objects; a date is the number of days since 1970.
  Sorting is modelled for lists without NaN, where every sorting algorithm that is stable gives the same list.
\<close>

subsection \<open>Numbers of a row\<close>

fun float_of :: "jval \<Rightarrow> pyfloat res" where
  \<comment> \<open>\<open>float(v)\<close>\<close>
  "float_of (JBool b) = Inr (Fin (if b then 1 else 0))"
| "float_of (JInt i) = float_of_int i"
| "float_of (JFloat f) = Inr f"
| "float_of (JStr s) = float_of_str s"
| "float_of _ = Inl TypeError"

definition float_field :: "string \<Rightarrow> jobj \<Rightarrow> pyfloat option res" where
  "float_field key row = (case jget row key of JNull \<Rightarrow> Inr None | v \<Rightarrow> bindE (float_of v) (\<lambda>x. Inr (Some x)))"

subsection \<open>Points\<close>

type_synonym point = "pyfloat \<times> pyfloat"

definition parse_iso :: "jval \<Rightarrow> int option" where
  \<comment> \<open>microseconds since 1970; a naive stamp is taken as UTC\<close>
  "parse_iso v = (if \<not> truthy v then None else case v of
       JStr s \<Rightarrow> (case fromisoformat (replace_Z (strip s)) of Inr t \<Rightarrow> Some (as_utc t) | Inl _ \<Rightarrow> None)
     | _ \<Rightarrow> None)"

definition row_time :: "jobj \<Rightarrow> int option" where
  "row_time row = parse_iso (let r = jget row ''received_at'' in if truthy r then r else jget row ''ts'')"

fun read_points :: "(jobj \<Rightarrow> pyfloat option res) \<Rightarrow> jobj list \<Rightarrow> point list res" where
  "read_points extract [] = Inr []"
| "read_points extract (row # rows) =
     (case row_time row of None \<Rightarrow> read_points extract rows
      | Some t \<Rightarrow> bindE (extract row) (\<lambda>v. case v of None \<Rightarrow> read_points extract rows
          | Some x \<Rightarrow> bindE (read_points extract rows) (\<lambda>ps. Inr ((total_seconds t, x) # ps))))"

definition sort_asc :: "('a \<Rightarrow> pyfloat) \<Rightarrow> 'a list \<Rightarrow> 'a list" where
  \<comment> \<open>\<open>sorted(xs, key=k)\<close>, which keeps the order of equals\<close>
  "sort_asc k xs = sort_desc (fneg \<circ> k) xs"

definition to_points :: "jobj list \<Rightarrow> (jobj \<Rightarrow> pyfloat option res) \<Rightarrow> point list res" where
  "to_points series extract = bindE (read_points extract series) (\<lambda>ps. Inr (sort_asc fst ps))"

definition median :: "pyfloat list \<Rightarrow> pyfloat" where
  \<comment> \<open>\<open>statistics.median\<close> of a list that is not empty\<close>
  "median xs = (let s = sort_asc (\<lambda>x. x) xs; n = length s
     in if odd n then s ! (n div 2) else fdiv_by (fadd (s ! (n div 2 - 1)) (s ! (n div 2))) 2)"

fun pair_slopes :: "point list \<Rightarrow> pyfloat list" where
  "pair_slopes [] = []"
| "pair_slopes ((ti, vi) # ps) =
     List.map_filter (\<lambda>(tj, vj). let dt = fsub tj ti in if flt (Fin 0) dt then Some (fdiv (fsub vj vi) dt) else None) ps
       @ pair_slopes ps"

definition theil_sen_slope :: "point list \<Rightarrow> pyfloat option" where
  "theil_sen_slope ps = (let slopes = pair_slopes ps
     in if slopes = [] then None else Some (fmul (median slopes) (Fin 86400)))"

definition eta_days_to_threshold :: "pyfloat \<Rightarrow> pyfloat \<Rightarrow> pyfloat \<Rightarrow> pyfloat option" where
  "eta_days_to_threshold current slope threshold =
     (if feq slope (Fin 0) then None
      else let days = fdiv (fsub threshold current) slope in if flt (Fin 0) days then Some days else None)"

definition worse_by :: "int \<Rightarrow> pyfloat \<Rightarrow> pyfloat" where
  "worse_by sign x = fmul x (Fin (of_int sign))"

fun anchor_loop :: "int \<Rightarrow> pyfloat \<Rightarrow> point list \<Rightarrow> nat \<Rightarrow> point list" where
  \<comment> \<open>the loop from the last point down to the second\<close>
  "anchor_loop sign reset ps 0 = ps"
| "anchor_loop sign reset ps (Suc i) =
     (if flt (worse_by sign (fsub (snd (ps ! Suc i)) (snd (ps ! i)))) (fneg reset) then drop (Suc i) ps
      else anchor_loop sign reset ps i)"

definition RESET_STEP :: pyfloat where "RESET_STEP = Fin 10"

definition anchor_recent_segment :: "point list \<Rightarrow> int \<Rightarrow> pyfloat \<Rightarrow> point list" where
  "anchor_recent_segment ps sign reset = anchor_loop sign reset ps (length ps - 1)"

subsection \<open>A trend\<close>

datatype trend_direction = Worsening | Improving | Flat | Insufficient
datatype trend_reason = TR_Empty | TR_TooFew nat | TR_SameTime

record trend =
  tn_points :: nat
  tn_current :: "pyfloat option"
  tn_slope :: "pyfloat option"
  tn_eta :: "pyfloat option"
  tn_target :: "int option"
  tn_direction :: trend_direction
  tn_reason :: trend_reason
  tn_recent :: "pyfloat option"
  tn_accelerating :: "bool option"

definition MIN_POINTS :: nat where "MIN_POINTS = 3"
definition HIGH_CONF_POINTS :: nat where "HIGH_CONF_POINTS = 6"

definition day_us :: int where "day_us = 86400000000"

definition days_delta :: "pyfloat \<Rightarrow> int res" where
  \<comment> \<open>\<open>timedelta(days=x)\<close> in microseconds: whole days exactly, the fraction as a float, the sum half to even\<close>
  "days_delta x = (case x of
       Fin q \<Rightarrow> (let whole = (if q < 0 then - \<lfloor>- q\<rfloor> else \<lfloor>q\<rfloor>)
          in case rnd64 ((q - of_int whole) * of_int day_us) of
               Fin f \<Rightarrow> let us = half_even (of_int (whole * day_us) + f)
                 in if \<bar>us div day_us\<bar> \<le> 999999999 then Inr us else Inl OverflowError
             | _ \<Rightarrow> Inl OverflowError)
     | NaN \<Rightarrow> Inl ValueError | _ \<Rightarrow> Inl OverflowError)"

definition MAX_STAMP :: int where "MAX_STAMP = epoch_day 10000 1 1 * day_us"
definition MIN_STAMP :: int where "MIN_STAMP = epoch_day 1 1 1 * day_us"

definition target_day :: "int \<Rightarrow> pyfloat \<Rightarrow> int res" where
  \<comment> \<open>\<open>(now + timedelta(days=eta)).date()\<close>, which no date past the year 9999 can be\<close>
  "target_day now eta = bindE (days_delta eta) (\<lambda>us. let t = now + us
     in if MIN_STAMP \<le> t \<and> t < MAX_STAMP then Inr (t div day_us) else Inl OverflowError)"

definition crossed :: "int \<Rightarrow> pyfloat \<Rightarrow> pyfloat \<Rightarrow> bool" where
  "crossed sign current threshold \<longleftrightarrow> 0 < sign \<and> fle threshold current \<or> sign < 0 \<and> fle current threshold"

definition insufficient :: "nat \<Rightarrow> pyfloat option \<Rightarrow> trend_reason \<Rightarrow> trend" where
  "insufficient n current reason = \<lparr>tn_points = n, tn_current = current, tn_slope = None, tn_eta = None, tn_target = None,
     tn_direction = Insufficient, tn_reason = reason, tn_recent = None, tn_accelerating = None\<rparr>"

definition trend_of_points :: "point list \<Rightarrow> int \<Rightarrow> pyfloat option \<Rightarrow> int \<Rightarrow> trend res" where
  "trend_of_points ps sign threshold now =
     (let n = length ps
      in if n < MIN_POINTS then Inr (insufficient n (if ps = [] then None else Some (snd (List.last ps))) (TR_TooFew n))
      else let current = snd (List.last ps)
      in case theil_sen_slope ps of
        None \<Rightarrow> Inr (insufficient n (Some current) TR_SameTime)
      | Some slope \<Rightarrow>
          let toward = flt (Fin 0) (worse_by sign slope);
              recent = (if HIGH_CONF_POINTS \<le> n then theil_sen_slope (drop (n div 2) ps) else None);
              acc = (case recent of None \<Rightarrow> None
                | Some r \<Rightarrow> Some (toward \<and> fle (fmul (Fin 2) (worse_by sign slope)) (worse_by sign r)))
          in if \<not> toward
             then Inr \<lparr>tn_points = n, tn_current = Some current, tn_slope = Some slope, tn_eta = None, tn_target = None,
               tn_direction = (if flt (worse_by sign slope) (Fin 0) then Improving else Flat), tn_reason = TR_Empty,
               tn_recent = recent, tn_accelerating = acc\<rparr>
             else let eta = (case threshold of None \<Rightarrow> None
                    | Some th \<Rightarrow> if crossed sign current th then Some (Fin 0) else eta_days_to_threshold current slope th)
               in bindE (case eta of None \<Rightarrow> Inr None | Some e \<Rightarrow> bindE (target_day now e) (\<lambda>d. Inr (Some d))) (\<lambda>target.
                 Inr \<lparr>tn_points = n, tn_current = Some current, tn_slope = Some slope, tn_eta = eta, tn_target = target,
                   tn_direction = Worsening, tn_reason = TR_Empty, tn_recent = recent, tn_accelerating = acc\<rparr>))"

definition build_trend :: "jobj list \<Rightarrow> (jobj \<Rightarrow> pyfloat option res) \<Rightarrow> int \<Rightarrow> pyfloat option \<Rightarrow> bool \<Rightarrow> int \<Rightarrow> trend res" where
  "build_trend series extract sign threshold anchor now =
     bindE (to_points series extract) (\<lambda>ps0.
       trend_of_points (if anchor then anchor_recent_segment ps0 sign RESET_STEP else ps0) sign threshold now)"

subsection \<open>What each metric reads\<close>

definition disk_wear_level :: "jobj \<Rightarrow> pyfloat option res" where
  "disk_wear_level disk =
     bindE (float_field ''wear_pct'' disk) (\<lambda>wear. bindE (float_field ''nvme_percentage_used'' disk) (\<lambda>used.
     Inr (case (wear, used) of
         (Some w, Some u) \<Rightarrow> Some (py_max w u) | (Some w, None) \<Rightarrow> Some w | (None, Some u) \<Rightarrow> Some u | _ \<Rightarrow> None)))"

fun worst_wear :: "jval list \<Rightarrow> pyfloat option \<Rightarrow> pyfloat option res" where
  "worst_wear [] worst = Inr worst"
| "worst_wear (d # ds) worst =
     bindE (case d of JObj disk \<Rightarrow> disk_wear_level disk | _ \<Rightarrow> Inr None) (\<lambda>w.
       worst_wear ds (case w of None \<Rightarrow> worst
         | Some x \<Rightarrow> (case worst of None \<Rightarrow> Some x | Some y \<Rightarrow> Some (py_max y x))))"

definition max_storage_wear :: "jobj \<Rightarrow> pyfloat option res" where
  "max_storage_wear row = bindE (iterate (jget row ''storage'')) (\<lambda>ds. worst_wear ds None)"

definition disk_smart_attr :: "string \<Rightarrow> jobj \<Rightarrow> pyfloat option res" where
  "disk_smart_attr attr row =
     (let v = (case jget row ''smart_attrs'' of JObj a \<Rightarrow> jget a attr | _ \<Rightarrow> JNull);
          v = (if v = JNull \<and> attr = ''5'' then jget row ''reallocated_sectors'' else v)
      in case v of JNull \<Rightarrow> Inr None | _ \<Rightarrow> bindE (float_of v) (\<lambda>x. Inr (Some x)))"

fun gateway_latencies :: "jval list \<Rightarrow> pyfloat list res" where
  "gateway_latencies [] = Inr []"
| "gateway_latencies (q # qs) = (case q of
       JObj d \<Rightarrow>
         if py_eq (jget d ''target_kind'') (JStr ''gateway'') \<and> jget d ''latency_ms'' \<noteq> JNull
         then bindE (if truthy (jget d ''loss_pct'') then raw_num (jget d ''loss_pct'') else Inr (Fin 0)) (\<lambda>loss.
              if flt loss (Fin 100)
              then bindE (float_of (jget d ''latency_ms'')) (\<lambda>x. bindE (gateway_latencies qs) (\<lambda>xs. Inr (x # xs)))
              else gateway_latencies qs)
         else gateway_latencies qs
     | _ \<Rightarrow> gateway_latencies qs)"

definition gateway_latency_ms :: "jobj \<Rightarrow> pyfloat option res" where
  "gateway_latency_ms row = bindE (iterate (jget row ''network_quality'')) (\<lambda>qs. bindE (gateway_latencies qs) (\<lambda>vals.
     Inr (if vals = [] then None else Some (median vals))))"

definition disk_tail_ratio :: "jobj \<Rightarrow> pyfloat option res" where
  "disk_tail_ratio row =
     (let samples = jget row ''disk_lat_samples''; p50 = jget row ''disk_read_ms_p50''; p95 = jget row ''disk_read_ms_p95''
      in if samples = JNull then Inr None
      else bindE (raw_num samples) (\<lambda>n.
        if flt n (Fin 4) then Inr None
        else if p50 = JNull \<or> p95 = JNull \<or> py_eq p50 (JInt 0) then Inr None
        else bindE (float_of p95) (\<lambda>a. bindE (float_of p50) (\<lambda>b.
          if feq b (Fin 0) then Inl ZeroDivisionError else Inr (Some (fdiv a b))))))"

fun first_float :: "string \<Rightarrow> jobj list \<Rightarrow> pyfloat option res" where
  \<comment> \<open>the first row that has the key\<close>
  "first_float key [] = Inr None"
| "first_float key (r # rs) = bindE (float_field key r) (\<lambda>v. case v of None \<Rightarrow> first_float key rs | Some x \<Rightarrow> Inr (Some x))"

definition compute_trends :: "jobj list \<Rightarrow> jobj list \<Rightarrow> jobj list option \<Rightarrow> int \<Rightarrow> (string, trend) dict res" where
  \<comment> \<open>\<open>disk_series\<close>: the readings of the worst disk, if there is one\<close>
  "compute_trends hist hb disk now =
     bindE (build_trend hist max_storage_wear 1 (Some (Fin 100)) True now) (\<lambda>wear.
     bindE (build_trend hb (float_field ''free_space_pct'') (- 1) (Some (Fin 0)) False now) (\<lambda>fill.
     bindE (build_trend hist (float_field ''avg_boot_ms'') 1 None False now) (\<lambda>boot.
     bindE (build_trend hb (float_field ''cpu_perf_pct'') (- 1) None False now) (\<lambda>throttle.
     bindE (build_trend hist gateway_latency_ms 1 None False now) (\<lambda>gateway.
     bindE (build_trend hb disk_tail_ratio 1 None False now) (\<lambda>tail_ratio.
     let base = [(''storage_wear'', wear), (''disk_fill'', fill), (''boot_time'', boot), (''throttle'', throttle),
                 (''gateway_latency'', gateway), (''disk_tail_ratio'', tail_ratio)]
     in case disk of None \<Rightarrow> Inr base
      | Some [] \<Rightarrow> Inr base
      | Some rows \<Rightarrow>
          bindE (build_trend rows (disk_smart_attr ''197'') 1 None False now) (\<lambda>pending.
          bindE (build_trend rows (float_field ''nvme_media_errors'') 1 None False now) (\<lambda>media.
          bindE (build_trend rows (disk_smart_attr ''5'') 1 None False now) (\<lambda>realloc.
          bindE (first_float ''nvme_spare_threshold_pct'' rows) (\<lambda>threshold.
          bindE (build_trend rows (float_field ''nvme_spare_pct'') (- 1) threshold False now) (\<lambda>spare.
          Inr (base @ [(''smart_pending'', pending), (''smart_media_errors'', media), (''smart_realloc'', realloc),
                       (''nvme_spare'', spare)]))))))))))))"


subsection \<open>The trajectory axis\<close>

definition eta_to_risk :: "pyfloat \<Rightarrow> pyfloat" where
  "eta_to_risk eta = (if fle eta (Fin 30) then Fin 90 else if fle eta (Fin 90) then Fin 60
     else if fle eta (Fin 180) then Fin 35 else if fle eta (Fin 365) then Fin 15 else Fin 5)"

definition DEPLETION_DOMAINS :: "string list" where
  "DEPLETION_DOMAINS = [''storage_wear'', ''disk_fill'', ''nvme_spare'']"

record tj_factor =
  tf_domain :: string
  tf_eta :: pyfloat
  tf_slope :: "pyfloat option"
  tf_delta :: pyfloat

record tj_state =
  tj_factors :: "tj_factor list"
  tj_missing :: "string list"
  tj_soonest :: "pyfloat option"
  tj_best :: nat
  tj_any :: bool

fun trajectory_loop :: "(string, trend) dict \<Rightarrow> string list \<Rightarrow> tj_state \<Rightarrow> tj_state" where
  "trajectory_loop trends [] st = st"
| "trajectory_loop trends (name # names) st = trajectory_loop trends names
     (case dict_get trends name of None \<Rightarrow> st\<lparr>tj_missing := tj_missing st @ [name]\<rparr>
      | Some t \<Rightarrow>
          if tn_direction t = Insufficient \<or> tn_direction t = Worsening \<and> tn_eta t = None
          then st\<lparr>tj_missing := tj_missing st @ [name]\<rparr>
          else let st = st\<lparr>tj_any := True, tj_best := max (tj_best st) (tn_points t)\<rparr>
            in case (if tn_direction t = Worsening then tn_eta t else None) of None \<Rightarrow> st
             | Some eta \<Rightarrow> st\<lparr>tj_factors := tj_factors st @ [\<lparr>tf_domain = name, tf_eta = eta, tf_slope = tn_slope t,
                   tf_delta = eta_to_risk eta\<rparr>],
                 tj_soonest := Some (case tj_soonest st of None \<Rightarrow> eta | Some s \<Rightarrow> py_min s eta)\<rparr>)"

record trajectory =
  ty_value :: "pyfloat option"
  ty_band :: band
  ty_confidence :: confidence
  ty_factors :: "tj_factor list"
  ty_missing :: "string list"
  ty_lineage :: "(string \<times> trend_direction \<times> nat) list"
  ty_identity :: bool \<comment> \<open>withheld for the identity\<close>

definition trajectory_risk_score :: "(string, trend) dict \<Rightarrow> bool \<Rightarrow> trajectory" where
  "trajectory_risk_score trends untrusted =
     (if untrusted then \<lparr>ty_value = None, ty_band = NoBand, ty_confidence = NoConf, ty_factors = [], ty_missing = [],
        ty_lineage = [], ty_identity = True\<rparr>
      else let st = trajectory_loop trends DEPLETION_DOMAINS
               \<lparr>tj_factors = [], tj_missing = [], tj_soonest = None, tj_best = 0, tj_any = False\<rparr>
      in if \<not> tj_any st then \<lparr>ty_value = None, ty_band = NoBand, ty_confidence = NoConf, ty_factors = [],
           ty_missing = tj_missing st, ty_lineage = [], ty_identity = False\<rparr>
      else let v = (case tj_soonest st of None \<Rightarrow> Fin 0 | Some e \<Rightarrow> eta_to_risk e)
        in \<lparr>ty_value = Some v, ty_band = band_for_risk_score (Some v),
            ty_confidence = (if HIGH_CONF_POINTS \<le> tj_best st then ConfHigh else ConfMedium),
            ty_factors = tj_factors st, ty_missing = tj_missing st,
            ty_lineage = List.map_filter (\<lambda>n. map_option (\<lambda>t. (n, tn_direction t, tn_points t)) (dict_get trends n)) DEPLETION_DOMAINS,
            ty_identity = False\<rparr>)"

subsection \<open>Order\<close>

lemma sort_asc_sorted: "list_all (\<lambda>x. k x \<noteq> NaN) xs \<Longrightarrow> sorted_wrt (\<lambda>a b. fle (k a) (k b)) (sort_asc k xs)"
proof -
  assume n: "list_all (\<lambda>x. k x \<noteq> NaN) xs"
  have "sorted_wrt (\<lambda>a b. \<not> flt ((fneg \<circ> k) a) ((fneg \<circ> k) b)) (sort_asc k xs)"
    unfolding sort_asc_def by (rule sorted_sort_desc)
  moreover have "\<not> flt ((fneg \<circ> k) a) ((fneg \<circ> k) b) \<Longrightarrow> a \<in> set xs \<Longrightarrow> b \<in> set xs \<Longrightarrow> fle (k a) (k b)" for a b
    using n by (cases "k a"; cases "k b") (auto simp: list_all_iff)
  ultimately show ?thesis by (auto simp: sort_asc_def elim!: sorted_wrt_mono_rel[rotated])
qed

lemma mset_sort_asc: "mset (sort_asc k xs) = mset xs"
  by (simp add: sort_asc_def mset_sort_desc)

lemma length_sort_asc [simp]: "length (sort_asc k xs) = length xs"
  using mset_sort_asc[of k xs] mset_eq_length by blast

lemma set_sort_asc [simp]: "set (sort_asc k xs) = set xs"
  by (simp add: sort_asc_def)

lemma sorted_floats_nth:
  assumes "sorted_wrt fle xs" "list_all (\<lambda>x. x \<noteq> NaN) xs" "i \<le> j" "j < length xs"
  shows "fle (xs ! i) (xs ! j)"
  using assms by (cases "i = j") (auto simp: list_all_length fle_refl sorted_wrt_iff_nth_less)

text \<open>What holds of more than half of a sorted list, and upwards from where it holds, holds in its middle.\<close>

lemma middle_arith: "(f :: nat) + Suc i \<le> n \<Longrightarrow> n < 2 * f \<Longrightarrow> n \<le> 2 * Suc i \<Longrightarrow> False"
  by simp

lemma middle_up:
  assumes "\<And>i j. i \<le> j \<Longrightarrow> j < length xs \<Longrightarrow> P (xs ! i) \<Longrightarrow> P (xs ! j)"
    "length xs < 2 * length (filter P xs)" "length xs \<le> 2 * Suc i" "i < length xs"
  shows "P (xs ! i)"
proof (rule ccontr)
  assume i: "\<not> P (xs ! i)"
  have "filter P (take (Suc i) xs) = []"
    using assms(1,4) i by (auto simp: filter_empty_conv in_set_conv_nth) (metis less_Suc_eq_le)
  then have "filter P xs = filter P (drop (Suc i) xs)"
    by (metis append_take_drop_id filter_append append_Nil)
  then have "length (filter P xs) \<le> length xs - Suc i"
    by (metis length_drop length_filter_le)
  then have "length (filter P xs) + Suc i \<le> length xs" using assms(4) by simp
  then show False using assms(2,3) by (rule middle_arith)
qed

lemma middle_down:
  assumes "\<And>i j. i \<le> j \<Longrightarrow> j < length xs \<Longrightarrow> P (xs ! j) \<Longrightarrow> P (xs ! i)"
    "length xs < 2 * length (filter P xs)" "2 * i \<le> length xs" "i < length xs"
  shows "P (xs ! i)"
proof -
  have "P (rev xs ! (length xs - Suc i))"
  proof (rule middle_up)
    fix a b assume "a \<le> b" "b < length (rev xs)" "P (rev xs ! a)"
    then show "P (rev xs ! b)" using assms(1)[of "length xs - Suc b" "length xs - Suc a"] by (simp add: rev_nth)
  qed (use assms(2-4) in \<open>simp_all flip: rev_filter\<close>)
  then show ?thesis using assms(4) by (simp add: rev_nth)
qed

definition numbers :: "pyfloat list \<Rightarrow> bool" where
  "numbers xs \<longleftrightarrow> list_all (\<lambda>x. x \<noteq> NaN) xs"

lemma numbers_sort: "numbers xs \<Longrightarrow> numbers (sort_asc k xs)"
  by (simp add: numbers_def list_all_iff)

lemma sorted_nth:
  assumes "numbers xs" "i \<le> j" "j < length xs"
  shows "fle (sort_asc (\<lambda>x. x) xs ! i) (sort_asc (\<lambda>x. x) xs ! j)"
  using assms sort_asc_sorted[of "\<lambda>x. x" xs] numbers_sort[OF assms(1), of "\<lambda>x. x"]
  by (cases "i = j") (auto simp: numbers_def list_all_length fle_refl sorted_wrt_iff_nth_less)

lemma filter_sort_asc: "length (filter P (sort_asc k xs)) = length (filter P xs)"
  by (metis mset_filter mset_sort_asc size_mset)

lemma median_of_sorted:
  assumes "xs \<noteq> []" "\<And>x y. Q x \<Longrightarrow> Q y \<Longrightarrow> Q (fdiv_by (fadd x y) 2)"
    "\<And>i. length xs \<le> 2 * Suc i \<Longrightarrow> 2 * i \<le> length xs \<Longrightarrow> i < length xs \<Longrightarrow> Q (sort_asc (\<lambda>x. x) xs ! i)"
  shows "Q (median xs)"
proof (cases "odd (length xs)")
  case True
  then show ?thesis using assms(1) by (auto simp: median_def Let_def intro!: assms(3))
next
  case False
  then have "0 < length xs div 2" using assms(1) by (cases xs) (auto elim: oddE)
  with False show ?thesis by (auto simp: median_def Let_def intro!: assms(2,3))
qed

lemma rnd64_sign: "0 \<le> q \<Longrightarrow> fle (Fin 0) (rnd64 q)" "q \<le> 0 \<Longrightarrow> fle (rnd64 q) (Fin 0)"
  using rnd64_fle[of 0 q] rnd64_fle[of q 0] rnd64_of_int[of 0] by simp_all

lemma half_nonneg: "fle (Fin 0) x \<Longrightarrow> fle (Fin 0) y \<Longrightarrow> fle (Fin 0) (fdiv_by (fadd x y) 2)"
proof -
  assume "fle (Fin 0) x" "fle (Fin 0) y"
  then have "fle (Fin 0) (fadd x y)" by (cases x; cases y) (auto intro: rnd64_sign)
  then show ?thesis by (cases "fadd x y") (auto simp: sign_inf_def intro: rnd64_sign)
qed

lemma half_nonpos: "fle x (Fin 0) \<Longrightarrow> fle y (Fin 0) \<Longrightarrow> fle (fdiv_by (fadd x y) 2) (Fin 0)"
proof -
  assume "fle x (Fin 0)" "fle y (Fin 0)"
  then have "fle (fadd x y) (Fin 0)" by (cases x; cases y) (auto intro: rnd64_sign)
  then show ?thesis by (cases "fadd x y") (auto simp: sign_inf_def intro: rnd64_sign)
qed

lemma median_nonneg:
  assumes "numbers xs" "length xs < 2 * length (filter (fle (Fin 0)) xs)"
  shows "fle (Fin 0) (median xs)"
proof (rule median_of_sorted[where Q = "fle (Fin 0)", OF _ half_nonneg])
  show "xs \<noteq> []" using assms(2) by auto
  fix i assume i: "length xs \<le> 2 * Suc i" "i < length xs"
  show "fle (Fin 0) (sort_asc (\<lambda>x. x) xs ! i)"
    by (rule middle_up) (use fle_trans[OF _ sorted_nth[OF assms(1)]] assms(2) i in \<open>simp_all add: filter_sort_asc\<close>)
qed

lemma median_nonpos:
  assumes "numbers xs" "length xs < 2 * length (filter (\<lambda>x. fle x (Fin 0)) xs)"
  shows "fle (median xs) (Fin 0)"
proof (rule median_of_sorted[where Q = "\<lambda>x. fle x (Fin 0)", OF _ half_nonpos])
  show "xs \<noteq> []" using assms(2) by auto
  fix i assume i: "2 * i \<le> length xs" "i < length xs"
  show "fle (sort_asc (\<lambda>x. x) xs ! i) (Fin 0)"
    by (rule middle_down[where P = "\<lambda>x. fle x (Fin 0)"])
      (use fle_trans[OF sorted_nth[OF assms(1)]] assms(2) i in \<open>simp_all add: filter_sort_asc\<close>)
qed


subsection \<open>Slopes of readings apart in time\<close>

definition apart :: "point \<Rightarrow> point \<Rightarrow> bool" where
  "apart p q \<longleftrightarrow> is_finite (fsub (fst q) (fst p)) \<and> flt (Fin 0) (fsub (fst q) (fst p))"

definition timed :: "point list \<Rightarrow> bool" where
  \<comment> \<open>finite readings in strictly ascending time\<close>
  "timed ps \<longleftrightarrow> sorted_wrt apart ps \<and> list_all (\<lambda>p. is_finite (snd p)) ps"

definition slope_between :: "point \<Rightarrow> point \<Rightarrow> pyfloat" where
  "slope_between p q = fdiv (fsub (snd q) (snd p)) (fsub (fst q) (fst p))"

lemma timed_Cons: "timed (p # ps) \<longleftrightarrow> list_all (apart p) ps \<and> is_finite (snd p) \<and> timed ps"
  by (auto simp: timed_def list_all_iff)

lemma is_finite_iff: "is_finite x \<longleftrightarrow> (\<exists>q. x = Fin q)"
  by (cases x) (simp_all add: is_finite_def)

lemma pair_slopes_timed: "list_all (apart p) ps \<Longrightarrow> pair_slopes (p # ps) = map (slope_between p) ps @ pair_slopes ps"
proof -
  obtain t v where p: "p = (t, v)" by (cases p)
  assume "list_all (apart p) ps"
  then have "List.map_filter (\<lambda>(tj, vj). let dt = fsub tj t in if flt (Fin 0) dt then Some (fdiv (fsub vj v) dt) else None) ps
      = map (slope_between p) ps" unfolding p
    by (induction ps) (auto simp: List.map_filter_simps apart_def slope_between_def Let_def)
  then show ?thesis by (simp add: p)
qed

lemma timed_induct [consumes 1, case_names Nil Cons]:
  assumes "timed ps" "P []"
    "\<And>p ps. timed ps \<Longrightarrow> list_all (apart p) ps \<Longrightarrow> is_finite (snd p) \<Longrightarrow> P ps \<Longrightarrow> P (p # ps)"
  shows "P ps"
  using assms(1) by (induction ps) (auto simp: timed_Cons intro: assms(2,3))

lemma slope_number:
  assumes "apart p q" "is_finite (snd p)" "is_finite (snd q)"
  shows "\<exists>d v. 0 < d \<and> fsub (snd q) (snd p) = rnd64 v \<and> slope_between p q = fdiv_by (rnd64 v) d \<and>
    v = (case (snd q, snd p) of (Fin b, Fin a) \<Rightarrow> b - a | _ \<Rightarrow> 0)"
proof -
  from assms obtain a b d where "snd p = Fin a" "snd q = Fin b" "fsub (fst q) (fst p) = Fin d" "0 < d"
    by (auto simp: apart_def is_finite_iff)
  then show ?thesis by (auto simp: slope_between_def fsub_def intro!: exI[of _ d])
qed

lemma fdiv_by_nonneg: "0 < d \<Longrightarrow> fle (Fin 0) x \<Longrightarrow> fle (Fin 0) (fdiv_by x d)"
proof (cases x)
  case (Fin q)
  then show "0 < d \<Longrightarrow> fle (Fin 0) x \<Longrightarrow> ?thesis" using rnd64_sign(1)[of "q / d"] by simp
qed (simp_all add: sign_inf_def)

lemma fdiv_by_nonpos: "0 < d \<Longrightarrow> fle x (Fin 0) \<Longrightarrow> fle (fdiv_by x d) (Fin 0)"
proof (cases x)
  case (Fin q)
  then show "0 < d \<Longrightarrow> fle x (Fin 0) \<Longrightarrow> ?thesis" using rnd64_sign(2)[of "q / d"] by (simp add: divide_le_0_iff)
qed (simp_all add: sign_inf_def)

lemmas fdiv_by_sign = fdiv_by_nonneg fdiv_by_nonpos

lemma slope_sign:
  assumes "apart p q" "is_finite (snd p)" "is_finite (snd q)"
  shows "slope_between p q \<noteq> NaN"
    "fle (snd p) (snd q) \<Longrightarrow> fle (Fin 0) (slope_between p q)" "fle (snd q) (snd p) \<Longrightarrow> fle (slope_between p q) (Fin 0)"
proof -
  from assms(2,3) obtain a b where ab: "snd p = Fin a" "snd q = Fin b" by (auto simp: is_finite_iff)
  with slope_number[OF assms] obtain d where d: "0 < d" "slope_between p q = fdiv_by (rnd64 (b - a)) d" by auto
  show "slope_between p q \<noteq> NaN" using d by (cases "rnd64 (b - a)") (auto simp: sign_inf_def)
  show "fle (Fin 0) (slope_between p q)" if "fle (snd p) (snd q)"
    using that ab d(1) unfolding d(2) by (intro fdiv_by_sign rnd64_sign) simp_all
  show "fle (slope_between p q) (Fin 0)" if "fle (snd q) (snd p)"
    using that ab d(1) unfolding d(2) by (intro fdiv_by_sign rnd64_sign) simp_all
qed

lemma timed_finite: "timed ps \<Longrightarrow> p \<in> set ps \<Longrightarrow> is_finite (snd p)"
  by (auto simp: timed_def list_all_iff)

lemma timed_slopes:
  assumes "timed ps"
  shows "numbers (pair_slopes ps) \<and> 2 * length (pair_slopes ps) = length ps * (length ps - 1)"
  using assms
proof (induction rule: timed_induct)
  case (Cons p ps)
  have "list_all (\<lambda>x. x \<noteq> NaN) (map (slope_between p) ps)"
    using Cons.hyps timed_finite slope_sign(1) by (auto simp: list_all_iff)
  then have "numbers (pair_slopes (p # ps))" using Cons by (simp add: pair_slopes_timed numbers_def del: pair_slopes.simps)
  moreover have "2 * length (pair_slopes (p # ps)) = 2 * length ps + length ps * (length ps - 1)"
    using Cons by (simp add: pair_slopes_timed del: pair_slopes.simps)
  ultimately show ?case by (cases ps) simp_all
qed (simp add: numbers_def)

lemma slopes_all:
  assumes "timed ps" "\<And>p q. p \<in> set ps \<Longrightarrow> q \<in> set ps \<Longrightarrow> apart p q \<Longrightarrow> R (snd p) (snd q) \<Longrightarrow> P (slope_between p q)"
    "sorted_wrt (\<lambda>p q. R (snd p) (snd q)) ps"
  shows "list_all P (pair_slopes ps)"
  using assms
proof (induction rule: timed_induct)
  case (Cons p ps)
  then have "list_all P (pair_slopes ps)" by simp
  moreover have "list_all P (map (slope_between p) ps)"
    using Cons.prems Cons.hyps by (auto simp: list_all_iff)
  ultimately show ?case using Cons.hyps by (simp add: pair_slopes_timed del: pair_slopes.simps)
qed simp


definition zeros :: "point list \<Rightarrow> nat" where
  "zeros ps = length (filter ((=) (Fin 0)) (pair_slopes ps))"

lemma slope_zero: "apart p q \<Longrightarrow> is_finite (snd p) \<Longrightarrow> snd q = snd p \<Longrightarrow> slope_between p q = Fin 0"
  using slope_sign(2,3)[of p q] fle_antisym by (auto simp: is_finite_iff)

lemma zeros_Cons:
  assumes "timed (p # ps)" "length (filter (\<lambda>q. snd q = snd p) ps) = k"
  shows "k + zeros ps \<le> zeros (p # ps)"
proof -
  have "filter (\<lambda>q. snd q = snd p) ps = filter (\<lambda>q. snd q = snd p \<and> Fin 0 = slope_between p q) ps"
    using assms(1) by (intro filter_cong) (auto simp: timed_Cons list_all_iff intro: slope_zero[symmetric])
  also have "length \<dots> \<le> length (filter (\<lambda>q. Fin 0 = slope_between p q) ps)"
    by (induction ps) auto
  finally show ?thesis using assms
    by (simp add: zeros_def timed_Cons pair_slopes_timed filter_map o_def del: pair_slopes.simps)
qed

lemma zeros_constant:
  "timed ps \<Longrightarrow> list_all (\<lambda>p. snd p = v) ps \<Longrightarrow> length ps * (length ps - 1) \<le> 2 * zeros ps"
proof (induction ps)
  case (Cons p ps)
  have "filter (\<lambda>q. snd q = snd p) ps = ps" using Cons.prems(2) by (auto simp: filter_id_conv list_all_iff)
  with zeros_Cons[OF Cons.prems(1) refl] have "length ps + zeros ps \<le> zeros (p # ps)" by simp
  moreover have "length ps * (length ps - 1) \<le> 2 * zeros ps" using Cons by (simp add: timed_Cons)
  ultimately show ?case by (cases ps) simp_all
qed simp

lemma zeros_outlier:
  assumes "timed (xs @ p # ys)" "list_all (\<lambda>p. snd p = v) (xs @ ys)"
  shows "(length xs + length ys) * (length xs + length ys - 1) \<le> 2 * zeros (xs @ p # ys)"
  using assms
proof (induction xs)
  case Nil
  then have "length ys * (length ys - 1) \<le> 2 * zeros ys" by (intro zeros_constant) (auto simp: timed_Cons)
  then show ?case using zeros_Cons[OF Nil.prems(1)[simplified] refl] by simp
next
  case (Cons x xs)
  let ?n = "length xs + length ys"
  have "filter (\<lambda>q. snd q = snd x) (xs @ p # ys) = xs @ (if snd p = snd x then [p] else []) @ ys"
    using Cons.prems(2) by (auto simp: filter_id_conv list_all_iff)
  then have "?n + zeros (xs @ p # ys) \<le> zeros (x # xs @ p # ys)"
    using zeros_Cons[OF Cons.prems(1)[simplified] refl] by (auto split: if_splits)
  moreover have "?n * (?n - 1) \<le> 2 * zeros (xs @ p # ys)" using Cons by (simp add: timed_Cons)
  ultimately show ?case by (cases ?n) simp_all
qed

lemma median_zero:
  assumes "numbers xs" "length xs < 2 * length (filter ((=) (Fin 0)) xs)"
  shows "median xs = Fin 0"
proof -
  have "length (filter ((=) (Fin 0)) xs) \<le> length (filter (fle (Fin 0)) xs)"
    "length (filter ((=) (Fin 0)) xs) \<le> length (filter (\<lambda>x. fle x (Fin 0)) xs)" by (induction xs) auto
  then show ?thesis using assms by (intro fle_antisym median_nonneg median_nonpos) simp_all
qed

lemma outlier_slope:
  assumes "timed (xs @ p # ys)" "list_all (\<lambda>p. snd p = v) (xs @ ys)" "4 \<le> length xs + length ys"
  shows "theil_sen_slope (xs @ p # ys) = Some (Fin 0)"
proof -
  let ?s = "pair_slopes (xs @ p # ys)" and ?n = "length xs + length ys"
  have n: "numbers ?s" "2 * length ?s = (?n + 1) * ?n" using timed_slopes[OF assms(1)] by simp_all
  have "(?n + 1) * ?n < 2 * (?n * (?n - 1))"
  proof -
    obtain k where k: "?n = k + 4" using assms(3) by (metis add.commute le_Suc_ex)
    show ?thesis unfolding k by (simp add: algebra_simps)
  qed
  with n(2) zeros_outlier[OF assms(1,2)] have half: "length ?s < 2 * zeros (xs @ p # ys)" by linarith
  then have "median ?s = Fin 0" unfolding zeros_def by (rule median_zero[OF n(1)])
  moreover have "?s \<noteq> []" using half by (auto simp: zeros_def)
  ultimately show ?thesis by (simp add: theil_sen_slope_def Let_def rnd64_def)
qed


lemma worse_by_simps [simp]: "worse_by 1 (Fin 0) = Fin 0" "worse_by (- 1) (Fin 0) = Fin 0"
  by (simp_all add: worse_by_def rnd64_def)

lemma constant_slope:
  assumes "timed ps" "list_all (\<lambda>p. snd p = v) ps" "2 \<le> length ps"
  shows "theil_sen_slope ps = Some (Fin 0)"
proof -
  let ?s = "pair_slopes ps"
  have n: "numbers ?s" "2 * length ?s = length ps * (length ps - 1)" using timed_slopes[OF assms(1)] by simp_all
  then have "0 < length ?s" using assms(3) by (cases ps; cases "tl ps") auto
  with n(2) zeros_constant[OF assms(1,2)] have half: "length ?s < 2 * zeros ps" by linarith
  then have "median ?s = Fin 0" unfolding zeros_def by (rule median_zero[OF n(1)])
  then show ?thesis using half by (auto simp: theil_sen_slope_def Let_def zeros_def rnd64_def)
qed

text \<open>Only a drop by more than the reset step cuts a series, and the cut begins right after it.\<close>
lemma anchor_cut:
  "anchor_loop sign reset ps n = ps \<or>
   (\<exists>i < n. anchor_loop sign reset ps n = drop (Suc i) ps \<and> flt (worse_by sign (fsub (snd (ps ! Suc i)) (snd (ps ! i)))) (fneg reset))"
  by (induction sign reset ps n rule: anchor_loop.induct) auto

lemma no_drop: "is_finite x \<Longrightarrow> is_finite y \<Longrightarrow> fle x y \<Longrightarrow> \<not> flt (worse_by 1 (fsub y x)) (fneg RESET_STEP)"
proof
  assume "is_finite x" "is_finite y" "fle x y" and drop: "flt (worse_by 1 (fsub y x)) (fneg RESET_STEP)"
  then obtain a b where "x = Fin a" "y = Fin b" "a \<le> b" by (auto simp: is_finite_iff)
  then have "fle (Fin 0) (fsub y x)" by (simp add: fsub_def rnd64_sign)
  then have "fle (Fin 0) (worse_by 1 (fsub y x))" by (cases "fsub y x") (auto simp: worse_by_def sign_inf_def intro: rnd64_sign)
  then show False using drop by (cases "worse_by 1 (fsub y x)") (auto simp: RESET_STEP_def)
qed

lemma anchored_high:
  assumes "timed (xs @ p # ys)" "list_all (\<lambda>p. snd p = v) (xs @ ys)" "fle v (snd p)"
  shows "anchor_recent_segment (xs @ p # ys) 1 RESET_STEP = xs @ p # ys \<or> anchor_recent_segment (xs @ p # ys) 1 RESET_STEP = ys"
proof -
  let ?ps = "xs @ p # ys"
  have "i = length xs" if i: "i < length ?ps - 1" "flt (worse_by 1 (fsub (snd (?ps ! Suc i)) (snd (?ps ! i)))) (fneg RESET_STEP)" for i
  proof (rule ccontr)
    assume no: "i \<noteq> length xs"
    have fin: "is_finite (snd (?ps ! i))" "is_finite (snd (?ps ! Suc i))" using i(1) by (auto intro!: timed_finite[OF assms(1)] nth_mem)
    have all: "q \<in> set (xs @ ys) \<Longrightarrow> snd q = v" for q using assms(2) by (auto simp: list_all_iff)
    have "snd (?ps ! i) = v" using no i(1) by (intro all) (auto simp: nth_append nth_Cons')
    moreover have "snd (?ps ! Suc i) = v \<or> ?ps ! Suc i = p" using i(1) by (cases "Suc i = length xs") (auto simp: nth_append nth_Cons' intro!: all)
    ultimately have "fle (snd (?ps ! i)) (snd (?ps ! Suc i))" using assms(3) fin by (auto simp: is_finite_iff)
    with no_drop fin i(2) show False by blast
  qed
  with anchor_cut[of 1 RESET_STEP ?ps "length ?ps - 1"] show ?thesis unfolding anchor_recent_segment_def by (metis append.assoc append_Cons append_Nil append_eq_conv_conj length_append_singleton)
qed

lemma flat_slope:
  assumes "theil_sen_slope ps = Some (Fin 0)" "3 \<le> length ps" "sign \<in> {1, - 1}"
  shows "\<exists>t. trend_of_points ps sign threshold now = Inr t \<and> tn_direction t = Flat \<and> tn_slope t = Some (Fin 0) \<and>
    tn_eta t = None \<and> tn_accelerating t \<noteq> Some True"
proof -
  have "worse_by sign (Fin 0) = Fin 0" using assms(3) by auto
  then show ?thesis using assms(2) by (simp add: trend_of_points_def MIN_POINTS_def assms(1) Let_def split: option.split)
qed

text \<open>C23: One bad reading invents no trend: five or more readings apart in time which all agree but one give no time left to a threshold and no
  acceleration.  Where the series is taken as it is, which is so for every metric but the wear, they have no slope, whichever the odd one is
  and whatever it says.  Where a falling series is cut because a part may have been replaced, as it is for the wear, this holds when the odd
  reading lies above the others, except that the readings after it may be too few for a trend; an odd one below can make a trend.\<close>
theorem one_bad_reading_invents_no_trend:
  assumes "to_points series extract = Inr (xs @ p # ys)" "timed (xs @ p # ys)"
    "list_all (\<lambda>p. snd p = v) (xs @ ys)" "5 \<le> length (xs @ p # ys)" "sign \<in> {1, - 1}"
    "anchor \<longrightarrow> sign = 1 \<and> fle v (snd p)"
  shows "\<exists>t. build_trend series extract sign threshold anchor now = Inr t \<and> tn_eta t = None \<and> tn_accelerating t \<noteq> Some True \<and>
    (tn_direction t = Flat \<and> tn_slope t = Some (Fin 0) \<or> anchor \<and> length ys < 3 \<and> tn_direction t = Insufficient)"
proof -
  have n: "4 \<le> length xs + length ys" "3 \<le> length (xs @ p # ys)" using assms(4) by simp_all
  note whole = flat_slope[OF outlier_slope[OF assms(2,3) n(1)] n(2) assms(5), of threshold now]
  show ?thesis
  proof (cases "anchor \<and> anchor_recent_segment (xs @ p # ys) sign RESET_STEP \<noteq> xs @ p # ys")
    case False
    then show ?thesis using whole by (auto simp: build_trend_def assms(1))
  next
    case True
    then have cut: "anchor" "anchor_recent_segment (xs @ p # ys) sign RESET_STEP = ys" using assms(6) anchored_high[OF assms(2,3)] by auto
    have ys: "timed ys" "list_all (\<lambda>p. snd p = v) ys" using assms(2,3) by (auto simp: timed_def sorted_wrt_append)
    show ?thesis
    proof (cases "3 \<le> length ys")
      case True
      then show ?thesis using flat_slope[OF constant_slope[OF ys] _ assms(5), of threshold now] cut by (auto simp: build_trend_def assms(1))
    next
      case False
      then show ?thesis using cut by (simp add: build_trend_def assms(1) trend_of_points_def MIN_POINTS_def insufficient_def Let_def)
    qed
  qed
qed


lemma fmul_sign: "0 < k \<Longrightarrow> fle (Fin 0) x \<Longrightarrow> fle (Fin 0) (fmul x (Fin k))"
  by (cases x) (auto simp: sign_inf_def intro: rnd64_sign)

lemma rising_slope:
  assumes "timed ps" "sorted_wrt (\<lambda>p q. fle (snd p) (snd q)) ps" "theil_sen_slope ps = Some s"
  shows "fle (Fin 0) s"
proof -
  have n: "numbers (pair_slopes ps)" using timed_slopes[OF assms(1)] by simp
  have "list_all (fle (Fin 0)) (pair_slopes ps)"
    by (rule slopes_all[OF assms(1) _ assms(2)]) (rule slope_sign(2), auto intro: timed_finite[OF assms(1)])
  then have "filter (fle (Fin 0)) (pair_slopes ps) = pair_slopes ps" by (simp add: filter_id_conv list_all_iff)
  moreover have "pair_slopes ps \<noteq> []" "s = fmul (median (pair_slopes ps)) (Fin 86400)"
    using assms(3) by (auto simp: theil_sen_slope_def Let_def split: if_splits)
  ultimately show ?thesis using median_nonneg[OF n] by (auto intro: fmul_sign)
qed

lemma worse_by_one: "fle (Fin 0) s \<Longrightarrow> \<not> flt (worse_by 1 s) (Fin 0)" "fle (Fin 0) s \<Longrightarrow> \<not> flt (Fin 0) (worse_by (- 1) s)"
  using rnd64_sign by (cases s; auto simp: worse_by_def sign_inf_def not_less flt_fle fle_antisym)+

text \<open>A series that never falls is never called improving where rising is bad, and where falling is bad it is
  never called worsening, so no time left is derived from it.\<close>
theorem rising_series_never_misread:
  assumes "to_points series extract = Inr ps" "timed ps" "sorted_wrt (\<lambda>p q. fle (snd p) (snd q)) ps"
    "build_trend series extract sign threshold False now = Inr t"
  shows "(sign = 1 \<longrightarrow> tn_direction t \<noteq> Improving) \<and> (sign = - 1 \<longrightarrow> tn_direction t \<noteq> Worsening \<and> tn_eta t = None)"
  using assms(4) worse_by_one[OF rising_slope[OF assms(2,3)]]
  by (auto simp: build_trend_def assms(1) trend_of_points_def insufficient_def Let_def split: if_splits option.splits)


subsection \<open>A crossing past the calendar\<close>

lemma epoch_10000: "MAX_STAMP = 2932897 * day_us"
  by (simp add: MAX_STAMP_def epoch_day_def days_before_year_def days_before_month_def)

lemma half_even_ge: "of_int i \<le> q \<Longrightarrow> i \<le> half_even q"
  using half_even_mono[of "of_int i" q] by (simp add: half_even_of_int)

lemma far_target:
  assumes "fle (Fin 2932897) e" "0 \<le> now"
  shows "target_day now e = Inl OverflowError"
proof (cases e)
  case (Fin q)
  with assms(1) have q: "2932897 \<le> \<lfloor>q\<rfloor>" "\<not> q < 0" by (simp_all add: le_floor_iff)
  define f where "f = rnd64 ((q - of_int \<lfloor>q\<rfloor>) * of_int day_us)"
  have "ranged 0 day_us f" unfolding f_def
    by (rule rnd64_ranged) (simp_all add: day_us_def algebra_simps, linarith)
  then obtain r where r: "f = Fin r" "0 \<le> r" by (auto simp: ranged_Fin)
  have us: "2932897 * day_us \<le> half_even (of_int (\<lfloor>q\<rfloor> * day_us) + r)"
  proof (rule half_even_ge)
    have "(of_int (2932897 * day_us) :: rat) \<le> of_int (\<lfloor>q\<rfloor> * day_us)"
      unfolding of_int_le_iff using q(1) by (intro mult_right_mono) (simp_all add: day_us_def)
    with r(2) show "of_int (2932897 * day_us) \<le> of_int (\<lfloor>q\<rfloor> * day_us) + r" by linarith
  qed
  have d: "days_delta e = (let us = half_even (of_int (\<lfloor>q\<rfloor> * day_us) + r)
      in if \<bar>us div day_us\<bar> \<le> 999999999 then Inr us else Inl OverflowError)"
    using Fin q(2) r(1) by (simp add: days_delta_def f_def Let_def)
  show ?thesis using us assms(2) unfolding target_day_def d epoch_10000 by (simp add: Let_def)
qed (use assms in \<open>auto simp: target_day_def days_delta_def\<close>)

text \<open>A metric that worsens so slowly that its threshold lies past the year 9999 raises instead of giving a
  trend, and nothing between here and the recomputation of the device's scores catches it.\<close>
theorem far_crossing_raises:
  assumes "to_points series extract = Inr ps" "MIN_POINTS \<le> length ps" "theil_sen_slope ps = Some s"
    "flt (Fin 0) (worse_by sign s)" "\<not> crossed sign (snd (List.last ps)) th"
    "eta_days_to_threshold (snd (List.last ps)) s th = Some e" "fle (Fin 2932897) e" "0 \<le> now"
  shows "build_trend series extract sign (Some th) False now = Inl OverflowError"
  using assms by (simp add: build_trend_def trend_of_points_def far_target Let_def)

subsection \<open>What the trends promise\<close>

definition trend_ok :: "trend \<Rightarrow> bool" where
  "trend_ok t \<longleftrightarrow> (tn_slope t = None \<longleftrightarrow> tn_direction t = Insufficient) \<and>
     (case tn_eta t of None \<Rightarrow> tn_target t = None
      | Some e \<Rightarrow> tn_direction t = Worsening \<and> fle (Fin 0) e \<and> tn_target t \<noteq> None) \<and>
     (tn_direction t \<noteq> Insufficient \<longrightarrow> MIN_POINTS \<le> tn_points t) \<and>
     (tn_accelerating t = Some True \<longrightarrow> tn_direction t = Worsening \<and> HIGH_CONF_POINTS \<le> tn_points t)"

lemma trend_of_points_ok:
  assumes "trend_of_points ps sign threshold now = Inr t"
  shows "trend_ok t"
proof (cases "length ps < MIN_POINTS \<or> theil_sen_slope ps = None")
  case True
  with assms show ?thesis by (auto simp: trend_of_points_def trend_ok_def insufficient_def Let_def split: if_splits)
next
  case False
  then obtain s where s: "theil_sen_slope ps = Some s" "MIN_POINTS \<le> length ps" by auto
  note unfolded = assms[unfolded trend_of_points_def Let_def s(1)]
  show ?thesis
  proof (cases "flt (Fin 0) (worse_by sign s)")
    case True
    define e where "e = (case threshold of None \<Rightarrow> None | Some th \<Rightarrow> if crossed sign (snd (List.last ps)) th then Some (Fin 0)
      else eta_days_to_threshold (snd (List.last ps)) s th)"
    have "x = Fin 0 \<or> flt (Fin 0) x" if "e = Some x" for x
      using that by (auto simp: e_def eta_days_to_threshold_def Let_def split: option.splits if_splits)
    then have "fle (Fin 0) x" if "e = Some x" for x using that by (auto simp: flt_fle)
    moreover from unfolded True s(2) obtain target where "(case e of None \<Rightarrow> Inr None | Some x \<Rightarrow> bindE (target_day now x) (\<lambda>d. Inr (Some d))) = Inr target"
        "tn_eta t = e" "tn_target t = target" "tn_direction t = Worsening" "tn_points t = length ps" "tn_slope t = Some s"
        "tn_accelerating t = Some True \<longrightarrow> HIGH_CONF_POINTS \<le> length ps"
      by (auto simp: e_def[symmetric] not_less split: if_splits)
    ultimately show ?thesis using s(2) by (cases e) (auto simp: trend_ok_def intro: sym)
  next
    case False
    with unfolded s(2) show ?thesis by (auto simp: trend_ok_def split: if_splits option.splits)
  qed
qed

lemma build_trend_ok: "build_trend series extract sign threshold anchor now = Inr t \<Longrightarrow> trend_ok t"
  by (auto simp: build_trend_def intro: trend_of_points_ok)

lemma compute_trends_ok:
  assumes "compute_trends hist hb disk now = Inr ts"
  shows "list_all (\<lambda>(n, t). trend_ok t) ts"
proof -
  consider "disk = None" | "disk = Some []" | r rs where "disk = Some (r # rs)"
    by (cases disk) (auto intro: list.exhaust)
  then show ?thesis
    by cases (use assms in \<open>auto simp: compute_trends_def intro: build_trend_ok simp del: first_float.simps\<close>)
qed

definition usable :: "trend \<Rightarrow> bool" where
  "usable t \<longleftrightarrow> tn_direction t \<noteq> Insufficient \<and> \<not> (tn_direction t = Worsening \<and> tn_eta t = None)"

lemma eta_to_risk_anti: "fle x y \<Longrightarrow> fle (eta_to_risk y) (eta_to_risk x)"
  using fle_trans[of x y] by (auto simp: eta_to_risk_def)

definition tj_ok :: "tj_state \<Rightarrow> bool" where
  \<comment> \<open>the soonest time left is the least of the factors'\<close>
  "tj_ok st \<longleftrightarrow> list_all (\<lambda>f. tf_delta f = eta_to_risk (tf_eta f) \<and> fle (Fin 0) (tf_eta f)) (tj_factors st) \<and>
     (case tj_soonest st of None \<Rightarrow> tj_factors st = []
      | Some s \<Rightarrow> list_all (\<lambda>f. fle s (tf_eta f)) (tj_factors st) \<and> list_ex (\<lambda>f. tf_eta f = s) (tj_factors st))"


lemma tj_ok_frame [simp]: "tj_ok (st\<lparr>tj_missing := m\<rparr>) = tj_ok st" "tj_ok (st\<lparr>tj_any := a, tj_best := b\<rparr>) = tj_ok st"
  by (simp_all add: tj_ok_def cong: option.case_cong)

lemma soonest_step:
  assumes "tj_ok st" "fle (Fin 0) e"
  shows "tj_ok (st\<lparr>tj_factors := tj_factors st @ [\<lparr>tf_domain = n, tf_eta = e, tf_slope = sl, tf_delta = eta_to_risk e\<rparr>],
    tj_soonest := Some (case tj_soonest st of None \<Rightarrow> e | Some s \<Rightarrow> py_min s e)\<rparr>)"
proof (cases "tj_soonest st")
  case None
  with assms show ?thesis by (cases e) (auto simp: tj_ok_def)
next
  case (Some s)
  with assms have s: "fle (Fin 0) s" "list_all (\<lambda>f. fle s (tf_eta f)) (tj_factors st)" "list_ex (\<lambda>f. tf_eta f = s) (tj_factors st)"
    by (auto simp: tj_ok_def list_all_iff list_ex_iff)
  have m: "fle (py_min s e) s \<and> fle (py_min s e) e" "py_min s e = s \<or> py_min s e = e"
    using s(1) assms(2) by (cases s; cases e; auto simp: py_min_def)+
  have "list_all (\<lambda>f. fle (py_min s e) (tf_eta f)) (tj_factors st)"
    using s(2) m(1) by (auto simp: list_all_iff intro: fle_trans)
  then show ?thesis using assms s(3) m Some by (auto simp: tj_ok_def)
qed

lemma trajectory_loop_ok:
  assumes "list_all (\<lambda>(n, t). trend_ok t) trends" "tj_ok st"
  shows "tj_ok (trajectory_loop trends names st) \<and>
    (tj_any (trajectory_loop trends names st) \<longleftrightarrow> tj_any st \<or> list_ex (\<lambda>n. case dict_get trends n of None \<Rightarrow> False | Some t \<Rightarrow> usable t) names)"
  using assms(2)
proof (induction names arbitrary: st)
  case (Cons n names)
  show ?case
  proof (cases "dict_get trends n")
    case None
    with Cons.prems Cons.IH[of "st\<lparr>tj_missing := tj_missing st @ [n]\<rparr>"] show ?thesis by simp
  next
    case (Some t)
    then have t: "trend_ok t" using assms(1) map_of_SomeD by (fastforce simp: list_all_iff)
    show ?thesis
    proof (cases "usable t")
      case False
      with Cons.prems Some Cons.IH[of "st\<lparr>tj_missing := tj_missing st @ [n]\<rparr>"] show ?thesis by (auto simp: usable_def)
    next
      case True
      define st' where "st' = st\<lparr>tj_any := True, tj_best := max (tj_best st) (tn_points t)\<rparr>"
      have st': "tj_ok st'" "tj_any st'" using Cons.prems by (simp_all add: st'_def)
      show ?thesis
      proof (cases "if tn_direction t = Worsening then tn_eta t else None")
        case None
        with Some True Cons.IH[OF st'(1)] st' show ?thesis by (auto simp: usable_def st'_def[symmetric] Let_def)
      next
        case (Some e)
        then have "fle (Fin 0) e" using t by (auto simp: trend_ok_def split: if_splits option.splits)
        from Cons.IH[OF soonest_step[OF st'(1) this]] st' Some \<open>dict_get trends n = Some t\<close> True
        show ?thesis by (auto simp: usable_def st'_def[symmetric] Let_def)
      qed
    qed
  qed
qed simp

text \<open>The trajectory has a number just when the device's identity is trusted and the trend of some depleting resource can be
  used; the number is that of the worst of the resources it names, and nought when it names none.\<close>
theorem trajectory_is_worst_resource:
  assumes "compute_trends hist hb disk now = Inr ts" "y = trajectory_risk_score ts untrusted"
  shows "(ty_value y = None \<longleftrightarrow> untrusted \<or> \<not> list_ex (\<lambda>n. case dict_get ts n of None \<Rightarrow> False | Some t \<Rightarrow> usable t) DEPLETION_DOMAINS) \<and>
    (\<forall>v. ty_value y = Some v \<longrightarrow> list_all (\<lambda>f. fle (tf_delta f) v) (ty_factors y) \<and>
      (if ty_factors y = [] then v = Fin 0 else list_ex (\<lambda>f. tf_delta f = v) (ty_factors y)))"
proof -
  define st where "st = trajectory_loop ts DEPLETION_DOMAINS
    \<lparr>tj_factors = [], tj_missing = [], tj_soonest = None, tj_best = 0, tj_any = False\<rparr>"
  have ok: "tj_ok st" "tj_any st \<longleftrightarrow> list_ex (\<lambda>n. case dict_get ts n of None \<Rightarrow> False | Some t \<Rightarrow> usable t) DEPLETION_DOMAINS"
    using trajectory_loop_ok[OF compute_trends_ok[OF assms(1)], of "\<lparr>tj_factors = [], tj_missing = [], tj_soonest = None, tj_best = 0, tj_any = False\<rparr>"]
    by (auto simp: st_def tj_ok_def list_ex_iff)
  show ?thesis
  proof (cases "untrusted \<or> \<not> tj_any st")
    case True
    then show ?thesis using ok(2) by (auto simp: assms(2) trajectory_risk_score_def st_def[symmetric] Let_def)
  next
    case False
    show ?thesis
    proof (cases "tj_soonest st")
      case None
      with False ok show ?thesis by (simp add: assms(2) trajectory_risk_score_def st_def[symmetric] Let_def tj_ok_def)
    next
      case (Some s)
      with ok(1) have "list_all (\<lambda>f. tf_delta f = eta_to_risk (tf_eta f) \<and> fle s (tf_eta f)) (tj_factors st)"
        "list_ex (\<lambda>f. tf_eta f = s) (tj_factors st)" by (auto simp: tj_ok_def list_all_iff)
      then have "list_all (\<lambda>f. fle (tf_delta f) (eta_to_risk s)) (tj_factors st)" "list_ex (\<lambda>f. tf_delta f = eta_to_risk s) (tj_factors st)"
        "tj_factors st \<noteq> []" by (auto simp: list_all_iff list_ex_iff intro: eta_to_risk_anti)
      with False ok(2) Some show ?thesis by (simp add: assms(2) trajectory_risk_score_def st_def[symmetric] Let_def)
    qed
  qed
qed


subsection \<open>Samples\<close>

definition second_row :: "string \<Rightarrow> rat \<Rightarrow> jobj" where
  \<comment> \<open>a heartbeat of one of the first seconds of 1970\<close>
  "second_row s q = [(''ts'', JStr (''1970-01-01T00:00:0'' @ s)), (''free_space_pct'', JFloat (Fin q))]"

lemma second_stamps:
  "fromisoformat (replace_Z (strip ''1970-01-01T00:00:00'')) = Inr (Stamp 0 None)"
  "fromisoformat (replace_Z (strip ''1970-01-01T00:00:01'')) = Inr (Stamp 1000000 None)"
  "fromisoformat (replace_Z (strip ''1970-01-01T00:00:02'')) = Inr (Stamp 2000000 None)"
  "fromisoformat (replace_Z (strip ''1970-01-01T00:00:03'')) = Inr (Stamp 3000000 None)"
  "fromisoformat (replace_Z (strip ''1970-01-01T00:00:04'')) = Inr (Stamp 4000000 None)"
  by code_simp+

lemma total_seconds_int: "\<bar>i\<bar> < 2 ^ 53 \<Longrightarrow> total_seconds (i * 1000000) = Fin (of_int i)"
  using rnd64_of_int by (simp add: total_seconds_def)

lemma second_times:
  "row_time (second_row ''0'' q) = Some 0" "row_time (second_row ''1'' q) = Some 1000000"
  "row_time (second_row ''2'' q) = Some 2000000" "row_time (second_row ''3'' q) = Some 3000000"
  "row_time (second_row ''4'' q) = Some 4000000"
  by (simp_all add: row_time_def second_row_def jget_def parse_iso_def second_stamps as_utc_def)

lemma second_value: "float_field ''free_space_pct'' (second_row s q) = Inr (Some (Fin q))"
  by (simp add: float_field_def second_row_def jget_def)

lemma seconds: "total_seconds 0 = Fin 0" "total_seconds 1000000 = Fin 1" "total_seconds 2000000 = Fin 2"
  "total_seconds 3000000 = Fin 3" "total_seconds 4000000 = Fin 4"
  using total_seconds_int[of 0] total_seconds_int[of 1] total_seconds_int[of 2] total_seconds_int[of 3] total_seconds_int[of 4]
  by simp_all

lemmas sample_simps = to_points_def second_times second_value seconds sort_asc_def sort_desc_def

lemma small_ints: "rnd64 1 = Fin 1" "rnd64 2 = Fin 2" "rnd64 3 = Fin 3" "rnd64 4 = Fin 4" "rnd64 0 = Fin 0"
  using rnd64_of_int[of 1] rnd64_of_int[of 2] rnd64_of_int[of 3] rnd64_of_int[of 4] rnd64_of_int[of 0] by simp_all

theorem one_bad_reading_invents_no_trend_witness:
  "\<exists>t. build_trend [second_row ''4'' 50, second_row ''3'' 50, second_row ''2'' 1, second_row ''1'' 50, second_row ''0'' 50]
     (float_field ''free_space_pct'') (- 1) (Some (Fin 0)) False 0 = Inr t \<and> tn_direction t = Flat"
proof -
  have p: "to_points [second_row ''4'' 50, second_row ''3'' 50, second_row ''2'' 1, second_row ''1'' 50, second_row ''0'' 50]
      (float_field ''free_space_pct'') = Inr ([(Fin 0, Fin 50), (Fin 1, Fin 50)] @ (Fin 2, Fin 1) # [(Fin 3, Fin 50), (Fin 4, Fin 50)])"
    by (simp add: sample_simps)
  have "timed ([(Fin 0, Fin 50), (Fin 1, Fin 50)] @ (Fin 2, Fin 1) # [(Fin 3, Fin 50), (Fin 4, Fin 50)])"
    by (simp add: timed_def apart_def is_finite_def fsub_def small_ints)
  from one_bad_reading_invents_no_trend[OF p this, of "Fin 50" "- 1" False] show ?thesis by auto
qed

lemma whole_numbers: "rnd64 5 = Fin 5" "rnd64 10 = Fin 10" "rnd64 432000 = Fin 432000" "rnd64 (- 432000) = Fin (- 432000)"
  using rnd64_of_int[of 5] rnd64_of_int[of 10] rnd64_of_int[of 432000] rnd64_of_int[of "- 432000"] by simp_all

theorem rising_series_never_misread_witness:
  "\<exists>t. build_trend [second_row ''2'' 40, second_row ''1'' 30, second_row ''0'' 30] (float_field ''free_space_pct'') (- 1) (Some (Fin 0)) False 0
     = Inr t \<and> tn_direction t \<noteq> Worsening"
proof -
  have p: "to_points [second_row ''2'' 40, second_row ''1'' 30, second_row ''0'' 30] (float_field ''free_space_pct'')
      = Inr [(Fin 0, Fin 30), (Fin 1, Fin 30), (Fin 2, Fin 40)]"
    by (simp add: sample_simps)
  have "timed [(Fin 0, Fin 30), (Fin 1, Fin 30), (Fin 2, Fin 40)]"
    by (simp add: timed_def apart_def is_finite_def fsub_def small_ints)
  note use = rising_series_never_misread[OF p this]
  have "theil_sen_slope [(Fin 0, Fin 30), (Fin 1, Fin 30), (Fin 2, Fin 40)] = Some (Fin 432000)"
    by (simp add: theil_sen_slope_def List.map_filter_simps fsub_def small_ints whole_numbers median_def sort_asc_def sort_desc_def Let_def)
  then obtain t where "build_trend [second_row ''2'' 40, second_row ''1'' 30, second_row ''0'' 30]
      (float_field ''free_space_pct'') (- 1) (Some (Fin 0)) False 0 = Inr t"
    by (simp add: build_trend_def p trend_of_points_def MIN_POINTS_def HIGH_CONF_POINTS_def worse_by_def whole_numbers)
  with use show ?thesis by simp
qed

lemma rnd64_minus: "rnd64 (- q) = fneg (rnd64 q)"
  by (auto simp: rnd64_def Let_def)

lemma tiny_steps:
  "rnd64 (- (1 / 8589934592)) = Fin (- (1 / 8589934592))" "rnd64 (- (1 / 4294967296)) = Fin (- (1 / 4294967296))"
  "rnd64 (- (675 / 67108864)) = Fin (- (675 / 67108864))"
  using rnd64_minus[of "1 / 8589934592"] rnd64_minus[of "1 / 4294967296"] rnd64_minus[of "675 / 67108864"]
    rnd64_fraction[of 1 33] rnd64_fraction[of 1 32] rnd64_fraction[of 675 26] by simp_all

theorem far_crossing_raises_witness:
  "build_trend [second_row ''2'' (50 - 2 / 2 ^ 33), second_row ''1'' (50 - 1 / 2 ^ 33), second_row ''0'' 50]
     (float_field ''free_space_pct'') (- 1) (Some (Fin 0)) False 0 = Inl OverflowError"
proof -
  let ?a = "50 - 1 / 2 ^ 33 :: rat" and ?b = "50 - 2 / 2 ^ 33 :: rat" and ?s = "- (675 / 67108864) :: rat"
  have p: "to_points [second_row ''2'' ?b, second_row ''1'' ?a, second_row ''0'' 50] (float_field ''free_space_pct'')
      = Inr [(Fin 0, Fin 50), (Fin 1, Fin ?a), (Fin 2, Fin ?b)]"
    by (simp add: sample_simps)
  have s: "theil_sen_slope [(Fin 0, Fin 50), (Fin 1, Fin ?a), (Fin 2, Fin ?b)] = Some (Fin ?s)"
    by (simp add: theil_sen_slope_def List.map_filter_simps fsub_def small_ints tiny_steps median_def sort_asc_def sort_desc_def Let_def)
  have b: "fsub (Fin 0) (Fin ?b) = Fin (- ?b)"
    using rnd64_minus[of ?b] rnd64_fraction[of "50 * 2 ^ 33 - 2" 33] by (simp add: fsub_def)
  have "fle (rnd64 (of_int 2932897)) (rnd64 (- ?b / ?s))" by (rule rnd64_fle) simp
  then have e: "fle (Fin 2932897) (rnd64 (- ?b / ?s))" using rnd64_of_int[of 2932897] by simp
  then have "flt (Fin 0) (rnd64 (- ?b / ?s))" by (cases "rnd64 (- ?b / ?s)") simp_all
  then have eta: "eta_days_to_threshold (Fin ?b) (Fin ?s) (Fin 0) = Some (rnd64 (- ?b / ?s))"
    unfolding eta_days_to_threshold_def b by (simp add: Let_def)
  have toward: "flt (Fin 0) (worse_by (- 1) (Fin ?s))"
    using rnd64_minus[of "675 / 67108864"] rnd64_fraction[of 675 26] by (simp add: worse_by_def)
  show ?thesis
    by (rule far_crossing_raises[OF p _ s toward _ _ e]) (use eta in \<open>simp_all add: MIN_POINTS_def crossed_def\<close>)
qed

theorem trajectory_is_worst_resource_witness:
  "\<exists>ts. compute_trends [] [] None 0 = Inr ts \<and> ty_value (trajectory_risk_score ts False) = None"
proof -
  obtain ts where ts: "compute_trends [] [] None 0 = Inr ts"
    by (simp add: compute_trends_def build_trend_def to_points_def trend_of_points_def MIN_POINTS_def anchor_recent_segment_def
      sort_asc_def sort_desc_def)
  then have "list_all (\<lambda>n. case dict_get ts n of None \<Rightarrow> True | Some t \<Rightarrow> \<not> usable t) DEPLETION_DOMAINS"
    by (auto simp: compute_trends_def build_trend_def to_points_def trend_of_points_def MIN_POINTS_def anchor_recent_segment_def
      sort_asc_def sort_desc_def DEPLETION_DOMAINS_def usable_def insufficient_def)
  with trajectory_is_worst_resource[OF ts refl, of False] ts show ?thesis
    by (auto simp: list_all_iff list_ex_iff split: option.splits)
qed


lemma more_numbers: "rnd64 6 = Fin 6" "rnd64 86400 = Fin 86400"
  using rnd64_of_int[of 6] rnd64_of_int[of 86400] by simp_all

text \<open>Five readings are needed for that: of four, one bad reading makes a trend.\<close>
theorem four_readings_follow_one_bad_one:
  "\<exists>t. build_trend [second_row ''3'' 6, second_row ''2'' 0, second_row ''1'' 0, second_row ''0'' 0]
     (float_field ''free_space_pct'') 1 None False 0 = Inr t \<and> tn_direction t = Worsening"
proof -
  have p: "to_points [second_row ''3'' 6, second_row ''2'' 0, second_row ''1'' 0, second_row ''0'' 0] (float_field ''free_space_pct'')
      = Inr [(Fin 0, Fin 0), (Fin 1, Fin 0), (Fin 2, Fin 0), (Fin 3, Fin 6)]"
    by (simp add: sample_simps)
  have "theil_sen_slope [(Fin 0, Fin 0), (Fin 1, Fin 0), (Fin 2, Fin 0), (Fin 3, Fin 6)] = Some (Fin 86400)"
    by (simp add: theil_sen_slope_def List.map_filter_simps fsub_def small_ints more_numbers median_def sort_asc_def sort_desc_def Let_def)
  then show ?thesis
    by (simp add: build_trend_def p trend_of_points_def MIN_POINTS_def HIGH_CONF_POINTS_def worse_by_def more_numbers)
qed

lemma wear_numbers: "rnd64 45 = Fin 45" "rnd64 (- 45) = Fin (- 45)" "rnd64 (45 / 2) = Fin (45 / 2)" "rnd64 15 = Fin 15"
    "rnd64 (15 / 2) = Fin (15 / 2)" "rnd64 648000 = Fin 648000"
  using rnd64_of_int[of 45] rnd64_of_int[of "- 45"] rnd64_of_int[of 15] rnd64_of_int[of 648000] rnd64_fraction[of 45 1] rnd64_fraction[of 15 1]
  by simp_all

text \<open>A wear that falls is taken for a part replaced: one reading that is too low cuts the series before itself, and the readings after
  it, which all agree, then look like a rise from it.\<close>
theorem low_wear_reading_makes_trend:
  "\<exists>t. build_trend [second_row ''4'' 50, second_row ''3'' 50, second_row ''2'' 50, second_row ''1'' 5, second_row ''0'' 50]
     (float_field ''free_space_pct'') 1 None True 0 = Inr t \<and> tn_direction t = Worsening \<and> tn_slope t = Some (Fin 648000)"
proof -
  have p: "to_points [second_row ''4'' 50, second_row ''3'' 50, second_row ''2'' 50, second_row ''1'' 5, second_row ''0'' 50]
      (float_field ''free_space_pct'') = Inr [(Fin 0, Fin 50), (Fin 1, Fin 5), (Fin 2, Fin 50), (Fin 3, Fin 50), (Fin 4, Fin 50)]"
    by (simp add: sample_simps)
  have a: "anchor_recent_segment [(Fin 0, Fin 50), (Fin 1, Fin 5), (Fin 2, Fin 50), (Fin 3, Fin 50), (Fin 4, Fin 50)] 1 RESET_STEP
      = [(Fin 1, Fin 5), (Fin 2, Fin 50), (Fin 3, Fin 50), (Fin 4, Fin 50)]"
    by (simp add: anchor_recent_segment_def eval_nat_numeral worse_by_def fsub_def RESET_STEP_def small_ints wear_numbers)
  have "theil_sen_slope [(Fin 1, Fin 5), (Fin 2, Fin 50), (Fin 3, Fin 50), (Fin 4, Fin 50)] = Some (Fin 648000)"
    by (simp add: theil_sen_slope_def List.map_filter_simps fsub_def small_ints wear_numbers median_def sort_asc_def sort_desc_def Let_def)
  then show ?thesis
    by (simp add: build_trend_def p a trend_of_points_def MIN_POINTS_def HIGH_CONF_POINTS_def worse_by_def wear_numbers)
qed

end
