(* ===== verification/Health.thy ===== *)
theory Health
  imports Trends
begin

text \<open>
  The health verdict of \<open>server/analytics/health.py\<close>: the three coordinates (damage, resilience, observability)
  out of the axes and the trends, the state with its hysteresis over the verdicts before, the index, the band that agrees
  with the state, the dominant mechanism and the horizon; and what readers do to a verdict that has aged.
  An axis is what the pipeline stores of it; texts are constructors.
\<close>

subsection \<open>Vocabulary\<close>

datatype hstate = HUnknown | H0 | H1 | H2 | H3 | H4

datatype fact_label = HL_Source pyfloat | HL_Axis string | HL_Clamp | HL_Bayes string | HL_SlowBoot

record fact =
  hf_label :: fact_label
  hf_delta :: "pyfloat option"

record haxis =
  \<comment> \<open>a stored axis with the coordinate tags beside it\<close>
  hx_value :: "pyfloat option"
  hx_band :: band
  hx_confidence :: confidence
  hx_factors :: "fact list"
  hx_damage :: "pyfloat option"
  hx_loss :: "pyfloat option"
  hx_flags :: "string list"
  hx_disk :: "string option"

type_synonym axes = "(string, haxis) dict"
type_synonym trends = "(string, trend) dict"

record chain_view =
  \<comment> \<open>the event chain: its counts and whether it has factors\<close>
  cv_counts :: "(string, nat) dict"
  cv_factors :: bool

record cohort =
  ct_size :: "nat option"
  ct_boot_p90 :: "pyfloat option"

record prev_health =
  \<comment> \<open>the stored block: a state, the last known one and the disk; None for a state that is no state\<close>
  pv_state :: "hstate option"
  pv_last :: "hstate option"
  pv_disk :: "string option"

record coordinate =
  cd_value :: "pyfloat option"
  cd_band :: band
  cd_confidence :: confidence
  cd_evidence :: "fact list"
  cd_flags :: "string list"

definition no_coordinate :: coordinate where
  "no_coordinate = \<lparr>cd_value = None, cd_band = NoBand, cd_confidence = NoConf, cd_evidence = [], cd_flags = []\<rparr>"

definition MATURE_POINTS :: nat where "MATURE_POINTS = 6"
definition COHORT_MIN :: nat where "COHORT_MIN = 5"
definition SPARE_SURCHARGE :: pyfloat where "SPARE_SURCHARGE = Fin 25"
definition TAIL_SURCHARGE :: pyfloat where "TAIL_SURCHARGE = Fin 20"
definition FLAT_SLOPE :: pyfloat where "FLAT_SLOPE = rnd64 (1 / 100)"
definition TRAJ_MULT :: pyfloat where "TRAJ_MULT = rnd64 (85 / 100)"
definition OS_MULT :: pyfloat where "OS_MULT = rnd64 (6 / 10)"

fun STATE_ORDER :: "hstate \<Rightarrow> nat option" where
  "STATE_ORDER HUnknown = None" | "STATE_ORDER H0 = Some 0" | "STATE_ORDER H1 = Some 1"
| "STATE_ORDER H2 = Some 2" | "STATE_ORDER H3 = Some 3" | "STATE_ORDER H4 = Some 4"

fun RANK_STATE :: "nat \<Rightarrow> hstate" where
  "RANK_STATE n = (if n = 0 then H0 else if n = 1 then H1 else if n = 2 then H2 else if n = 3 then H3 else H4)"

fun CONF_RANK :: "confidence \<Rightarrow> nat" where
  "CONF_RANK NoConf = 0" | "CONF_RANK ConfLow = 1" | "CONF_RANK ConfMedium = 2" | "CONF_RANK ConfHigh = 3"

fun RANK_CONF :: "nat \<Rightarrow> confidence" where
  "RANK_CONF n = (if n = 0 then NoConf else if n = 1 then ConfLow else if n = 2 then ConfMedium else ConfHigh)"

definition HARD_D_FLAGS :: "string list" where
  "HARD_D_FLAGS = [''predict_fail'', ''cw_reliability'', ''cw_readonly'', ''pending_gt10'', ''uncorrectable_198'', ''damage_present'']"
definition H4_FLAGS :: "string list" where
  "H4_FLAGS = [''predict_fail'', ''cw_spare'', ''cw_reliability'', ''cw_readonly'', ''pending_gt10'', ''uncorrectable_198'',
     ''spare_below_threshold'', ''chain_stage3'']"
definition H3_FLAGS :: "string list" where
  "H3_FLAGS = [''accel'', ''chain_stage2'', ''recurrence'', ''aging_accelerating'']"
definition H2_FLAGS :: "string list" where
  "H2_FLAGS = [''remap_masking'', ''spare_depleting'', ''tail_ratio_worsening'', ''early_events'', ''aging_leak'']"
definition KEY_TRENDS :: "string list" where
  "KEY_TRENDS = [''smart_pending'', ''smart_media_errors'', ''smart_realloc'', ''nvme_spare'', ''disk_tail_ratio'']"
definition DEPLETION_TRENDS :: "string list" where
  "DEPLETION_TRENDS = [''nvme_spare'', ''disk_fill'', ''storage_wear'']"
definition FLAT_COUNTER_TRENDS :: "string list" where
  "FLAT_COUNTER_TRENDS = [''smart_pending'', ''smart_realloc'', ''smart_media_errors'']"

definition AXIS_TO_DOMINANT :: "(string, string) dict" where
  "AXIS_TO_DOMINANT = [(''storage_risk'', ''storage''), (''software_aging_risk'', ''aging''), (''os_degradation_risk'', ''os''),
     (''disk_fill_risk'', ''disk_fill''), (''network_risk'', ''network''), (''trajectory_risk'', ''trajectory'')]"
definition SEVERITY :: "string \<Rightarrow> pyfloat" where
  "SEVERITY n = (if n = ''network_risk'' then rnd64 (6 / 10) else if n = ''trajectory_risk'' then rnd64 (85 / 100) else Fin 1)"
fun HORIZON_STATE_DAYS :: "hstate \<Rightarrow> nat option" where
  "HORIZON_STATE_DAYS H4 = Some 7" | "HORIZON_STATE_DAYS H3 = Some 30" | "HORIZON_STATE_DAYS H2 = Some 90"
| "HORIZON_STATE_DAYS _ = None"

subsection \<open>Helpers\<close>

definition no_axis :: haxis where
  "no_axis = \<lparr>hx_value = None, hx_band = NoBand, hx_confidence = NoConf, hx_factors = [], hx_damage = None, hx_loss = None,
     hx_flags = [], hx_disk = None\<rparr>"

definition ax :: "axes \<Rightarrow> string \<Rightarrow> haxis" where
  "ax axes name = (case dict_get axes name of None \<Rightarrow> no_axis | Some a \<Rightarrow> a)"

definition worst_conf :: "confidence list \<Rightarrow> confidence" where
  "worst_conf cs = (if cs = [] then NoConf else RANK_CONF (Min (set (map CONF_RANK cs))))"

definition cap_conf :: "confidence \<Rightarrow> confidence \<Rightarrow> confidence" where
  "cap_conf c highest = RANK_CONF (min (CONF_RANK c) (CONF_RANK highest))"

definition fact_key :: "fact \<Rightarrow> pyfloat" where
  "fact_key f = fabs (case hf_delta f of None \<Rightarrow> Fin 0 | Some d \<Rightarrow> if feq d (Fin 0) then Fin 0 else d)"

fun uniq_labels :: "fact_label list \<Rightarrow> fact list \<Rightarrow> fact list" where
  \<comment> \<open>the first fact of each label that is not empty\<close>
  "uniq_labels seen [] = []"
| "uniq_labels seen (f # fs) =
     (if hf_label f = HL_Axis '''' \<or> hf_label f \<in> set seen then uniq_labels seen fs
      else f # uniq_labels (hf_label f # seen) fs)"

definition top_facts :: "fact list \<Rightarrow> nat \<Rightarrow> fact list" where
  "top_facts facts n = take n (sort_desc fact_key (uniq_labels [] facts))"

fun dedup_from :: "'a list \<Rightarrow> 'a list \<Rightarrow> 'a list" where
  "dedup_from out [] = out"
| "dedup_from out (i # rest) = dedup_from (if i \<in> set out then out else out @ [i]) rest"

definition dedup :: "'a list \<Rightarrow> 'a list" where
  "dedup xs = dedup_from [] xs"

definition points_of :: "trends \<Rightarrow> string \<Rightarrow> nat" where
  "points_of trends t = (case dict_get trends t of None \<Rightarrow> 0 | Some r \<Rightarrow> tn_points r)"

definition worsens :: "trends \<Rightarrow> string \<Rightarrow> bool" where
  "worsens trends t = (case dict_get trends t of None \<Rightarrow> False | Some r \<Rightarrow> tn_direction r = Worsening)"

fun fmax_of :: "pyfloat list \<Rightarrow> pyfloat" where
  \<comment> \<open>\<open>max\<close> of a list that is not empty\<close>
  "fmax_of [] = Fin 0"
| "fmax_of (x # xs) = foldl py_max x xs"

subsection \<open>Observability\<close>

datatype blind_spot = B_Smart | B_Events | B_Performance | B_Trends | B_Inventory | B_Cohort | B_Stale

definition cohort_size :: "cohort option \<Rightarrow> nat" where
  "cohort_size c = (case c of None \<Rightarrow> 0 | Some k \<Rightarrow> (case ct_size k of None \<Rightarrow> 0 | Some n \<Rightarrow> n))"

definition obs_channels :: "axes \<Rightarrow> trends \<Rightarrow> chain_view option \<Rightarrow> cohort option \<Rightarrow> (pyfloat \<times> bool \<times> blind_spot) list" where
  "obs_channels axes trends evs cohort =
     [(rnd64 (35 / 100), hx_value (ax axes ''storage_risk'') \<noteq> None, B_Smart),
      (rnd64 (15 / 100), (case evs of None \<Rightarrow> False | Some c \<Rightarrow> list_ex (\<lambda>(k, n). n \<noteq> 0) (cv_counts c) \<or> cv_factors c), B_Events),
      (rnd64 (15 / 100), hx_value (ax axes ''software_aging_risk'') \<noteq> None, B_Performance),
      (rnd64 (15 / 100), list_ex (\<lambda>t. MATURE_POINTS \<le> points_of trends t) KEY_TRENDS, B_Trends),
      (rnd64 (10 / 100), list_ex (\<lambda>(n, a). hx_value a \<noteq> None) axes, B_Inventory),
      (rnd64 (10 / 100), COHORT_MIN \<le> cohort_size cohort, B_Cohort)]"

definition observability :: "axes \<Rightarrow> trends \<Rightarrow> chain_view option \<Rightarrow> cohort option \<Rightarrow> coordinate \<times> blind_spot list" where
  "observability axes trends evs cohort =
     (let channels = obs_channels axes trends evs cohort;
          live = filter (\<lambda>(w, l, b). l) channels;
          v = fround 1 (fmul (foldl fadd (Fin 0) (map fst live)) (Fin 100))
      in (\<lparr>cd_value = Some v, cd_band = (if fle (Fin 75) v then Good else if fle (Fin 40) v then Watch else Bad),
           cd_confidence = (if fle (Fin 75) v then ConfHigh else if fle (Fin 40) v then ConfMedium else ConfLow),
           cd_evidence = take 5 (map (\<lambda>(w, l, b). \<lparr>hf_label = HL_Source w, hf_delta = Some w\<rparr>) live), cd_flags = []\<rparr>,
          map (\<lambda>(w, l, b). b) (filter (\<lambda>(w, l, b). \<not> l) channels)))"

subsection \<open>Damage and resilience\<close>

type_synonym channel = "pyfloat \<times> confidence \<times> fact list \<times> string list"

definition or_zero :: "pyfloat option \<Rightarrow> pyfloat" where
  "or_zero x = (case x of None \<Rightarrow> Fin 0 | Some v \<Rightarrow> v)"

definition damage_channels :: "axes \<Rightarrow> channel list" where
  "damage_channels axes =
     (let st = ax axes ''storage_risk''; os = ax axes ''os_degradation_risk''
      in (if hx_value st \<noteq> None
          then [(or_zero (hx_damage st), hx_confidence st, hx_factors st, filter (\<lambda>f. f \<in> set HARD_D_FLAGS) (hx_flags st))] else []) @
         (case hx_value os of None \<Rightarrow> [] | Some v \<Rightarrow> [(fmul v OS_MULT, hx_confidence os, hx_factors os, [])]))"

definition damage :: "axes \<Rightarrow> coordinate" where
  "damage axes =
     (let channels = damage_channels axes
      in if channels = [] then no_coordinate
      else let d = fmax_of (map fst channels)
        in \<lparr>cd_value = Some (fround 1 d), cd_band = band_for_risk_score (Some d),
            cd_confidence = worst_conf (map (\<lambda>(_, c, _, _). c) channels),
            cd_evidence = top_facts (concat (map (\<lambda>(_, _, f, _). f) channels)) 5,
            cd_flags = dedup (concat (map (\<lambda>(_, _, _, f). f) channels))\<rparr>)"

definition key_trends_immature :: "trends \<Rightarrow> bool" where
  "key_trends_immature trends =
     (let points = List.map_filter (\<lambda>t. map_option tn_points (dict_get trends t)) KEY_TRENDS
      in points = [] \<or> list_ex (\<lambda>n. n < MATURE_POINTS) points)"

definition storage_resilience :: "haxis \<Rightarrow> trends \<Rightarrow> channel" where
  "storage_resilience st trends =
     (let loss = or_zero (hx_loss st);
          flags = filter (\<lambda>f. f \<notin> set HARD_D_FLAGS) (hx_flags st);
          (loss, flags) = (if worsens trends ''nvme_spare'' then (fadd loss SPARE_SURCHARGE, flags @ [''spare_depleting'']) else (loss, flags));
          (loss, flags) = (if worsens trends ''disk_tail_ratio'' then (fadd loss TAIL_SURCHARGE, flags @ [''tail_ratio_worsening'']) else (loss, flags))
      in (py_min loss (Fin 100), hx_confidence st, hx_factors st, flags))"

definition resilience_channels :: "axes \<Rightarrow> trends \<Rightarrow> channel list" where
  "resilience_channels axes trends =
     (let st = ax axes ''storage_risk''; ag = ax axes ''software_aging_risk''; tr = ax axes ''trajectory_risk''
      in (if hx_value st \<noteq> None then [storage_resilience st trends] else []) @
         (case hx_value ag of None \<Rightarrow> [] | Some v \<Rightarrow> [(v, hx_confidence ag, hx_factors ag, hx_flags ag)]) @
         (case hx_value tr of None \<Rightarrow> [] | Some v \<Rightarrow> [(fmul v TRAJ_MULT, hx_confidence tr, hx_factors tr, [])]))"

datatype health_missing = HM_Immature | HM_Partial | HM_Aged int

definition resilience :: "axes \<Rightarrow> trends \<Rightarrow> coordinate \<times> health_missing list \<times> bool" where
  "resilience axes trends =
     (let channels = resilience_channels axes trends; immature = key_trends_immature trends
      in if channels = [] then (no_coordinate, [], immature)
      else let rloss = fmax_of (map fst channels);
               conf = worst_conf (map (\<lambda>(_, c, _, _). c) channels)
        in (\<lparr>cd_value = Some (fround 1 (fsub (Fin 100) rloss)), cd_band = band_for_risk_score (Some rloss),
             cd_confidence = (if immature then cap_conf conf ConfMedium else conf),
             cd_evidence = top_facts (concat (map (\<lambda>(_, _, f, _). f) channels)) 5,
             cd_flags = dedup (concat (map (\<lambda>(_, _, _, f). f) channels))\<rparr>,
            if immature then [HM_Immature] else [], immature))"

subsection \<open>State\<close>

definition any_flag :: "string list \<Rightarrow> string list \<Rightarrow> bool" where
  "any_flag flags wanted \<longleftrightarrow> list_ex (\<lambda>f. f \<in> set wanted) flags"

definition at_most :: "pyfloat option \<Rightarrow> rat \<Rightarrow> bool" where
  "at_most x b = (case x of None \<Rightarrow> False | Some v \<Rightarrow> fle v (Fin b))"

definition state_of :: "coordinate \<Rightarrow> coordinate \<Rightarrow> pyfloat \<Rightarrow> string list \<Rightarrow> hstate \<times> fact list" where
  "state_of d r o_val flags =
     (let ev = top_facts (cd_evidence d @ cd_evidence r) 5
      in if flt o_val (Fin 40) \<or> cd_value d = None then (HUnknown, [])
      else if any_flag flags H4_FLAGS then (H4, ev)
      else if any_flag flags H3_FLAGS \<or> at_most (cd_value r) 30 then (H3, ev)
      else if any_flag flags H2_FLAGS \<or> at_most (cd_value r) 60 then (H2, ev)
      else if (case cd_value d of None \<Rightarrow> False | Some v \<Rightarrow> fle (Fin 15) v) \<or> ''damage_present'' \<in> set flags then (H1, ev)
      else (H0, []))"

definition counters_flat :: "trends \<Rightarrow> bool" where
  "counters_flat trends =
     (let present = List.map_filter (dict_get trends) FLAT_COUNTER_TRENDS
      in present \<noteq> [] \<and> list_all (\<lambda>t. MATURE_POINTS \<le> tn_points t \<and> tn_direction t \<noteq> Worsening \<and>
           flt (fabs (or_zero (tn_slope t))) FLAT_SLOPE) present)"

definition replaced :: "string option \<Rightarrow> string option \<Rightarrow> bool" where
  \<comment> \<open>the worst disk is another one\<close>
  "replaced cur prev = (case (cur, prev) of (Some c, Some p) \<Rightarrow> c \<noteq> p | _ \<Rightarrow> False)"

definition remembered :: "prev_health \<Rightarrow> hstate option" where
  "remembered p = (if pv_state p = Some HUnknown then pv_last p else pv_state p)"

definition ratchet :: "hstate \<Rightarrow> prev_health option \<Rightarrow> string list \<Rightarrow> trends \<Rightarrow> string option \<Rightarrow> hstate" where
  "ratchet state prev flags trends cur_disk =
     (case (STATE_ORDER state, prev) of
        (Some new, Some p) \<Rightarrow>
          (case Option.bind (remembered p) STATE_ORDER of
             None \<Rightarrow> state
           | Some old \<Rightarrow>
               if old \<le> new then state
               else if replaced cur_disk (pv_disk p) then state
               else if ''reboot_restores'' \<in> set flags \<or> counters_flat trends then RANK_STATE (old - 1)
               else RANK_STATE old)
      | _ \<Rightarrow> state)"

subsection \<open>Index and band\<close>

definition health_index :: "pyfloat option \<Rightarrow> pyfloat option \<Rightarrow> pyfloat \<Rightarrow> pyfloat option" where
  "health_index d_val rloss o_val =
     (if flt o_val (Fin 40) then None
      else let known = List.map_filter (\<lambda>x. x) [d_val, rloss]
        in if known = [] then None
        else let avg = fdiv_by (foldl fadd (Fin 0) known) (of_nat (length known));
                 loss = fadd (fmul (rnd64 (7 / 10)) (fmax_of known)) (fmul (rnd64 (3 / 10)) avg)
          in Some (clamp (fround 1 (fsub (Fin 100) (fround 1 loss))) 0 100))"

definition reconcile_band :: "hstate \<Rightarrow> pyfloat option \<Rightarrow> pyfloat \<Rightarrow> band \<times> fact list" where
  "reconcile_band state index o_val =
     (if flt o_val (Fin 40) \<or> state = HUnknown then (NoBand, [])
      else let band = (case index of None \<Rightarrow> NoBand | Some i \<Rightarrow> band_for_risk_score (Some (fsub (Fin 100) i)));
               band = (if state = H4 then Bad else if state \<in> {H2, H3} \<and> band = Good then Watch else band)
        in if state = H0 \<and> band = Bad then (Watch, [\<lparr>hf_label = HL_Clamp, hf_delta = Some (Fin 0)\<rparr>]) else (band, []))"


subsection \<open>Mechanisms\<close>

definition TREND_MECHANISM :: "(string, string) dict" where
  "TREND_MECHANISM = [(''storage_wear'', ''storage''), (''nvme_spare'', ''storage''), (''smart_pending'', ''storage''),
     (''smart_realloc'', ''storage''), (''smart_media_errors'', ''storage''), (''disk_tail_ratio'', ''storage''),
     (''disk_fill'', ''disk_fill''), (''boot_time'', ''os''), (''throttle'', ''thermal''), (''gateway_latency'', ''network'')]"
definition COUNTER_TRENDS :: "string list" where
  "COUNTER_TRENDS = [''smart_pending'', ''smart_realloc'', ''smart_media_errors'']"
definition MECHANISM_AXIS :: "(string, string) dict" where
  "MECHANISM_AXIS = [(''storage'', ''storage_risk''), (''disk_fill'', ''disk_fill_risk''), (''os'', ''os_degradation_risk''),
     (''network'', ''network_risk'')]"
definition AXIS_MECHANISM :: "(string, string) dict" where
  "AXIS_MECHANISM = [(''storage_risk'', ''storage''), (''trajectory_risk'', ''storage''), (''disk_fill_risk'', ''disk_fill''),
     (''os_degradation_risk'', ''os''), (''network_risk'', ''network'')]"
definition MATERIAL_ETA_DAYS :: pyfloat where "MATERIAL_ETA_DAYS = Fin 365"
definition MATERIAL_DRIFT_30D :: pyfloat where "MATERIAL_DRIFT_30D = rnd64 (10 / 100)"

definition get_or_key :: "(string, string) dict \<Rightarrow> string \<Rightarrow> string" where
  "get_or_key d k = (case dict_get d k of None \<Rightarrow> k | Some v \<Rightarrow> v)"

definition material_worsening :: "string \<Rightarrow> trend \<Rightarrow> bool" where
  "material_worsening key t =
     (if tn_direction t \<noteq> Worsening then False
      else if key \<in> set COUNTER_TRENDS then True
      else case tn_eta t of Some eta \<Rightarrow> fle eta MATERIAL_ETA_DAYS
        | None \<Rightarrow> (case (tn_slope t, tn_current t) of
            (Some slope, Some current) \<Rightarrow>
              if feq current (Fin 0) then True
              else fle MATERIAL_DRIFT_30D (fdiv (fmul (fabs slope) (Fin 30)) (fabs current))
          | _ \<Rightarrow> False))"

definition material_mechanisms :: "trends \<Rightarrow> string list" where
  "material_mechanisms trends = map (\<lambda>(k, t). get_or_key TREND_MECHANISM k) (filter (\<lambda>(k, t). material_worsening k t) trends)"

definition raised :: "axes \<Rightarrow> string \<Rightarrow> bool" where
  "raised axes name \<longleftrightarrow> hx_band (ax axes name) \<in> {Watch, Bad}"

definition is_systemic :: "axes \<Rightarrow> trends \<Rightarrow> bool" where
  "is_systemic axes trends =
     (let bad_axes = filter (\<lambda>n. hx_value (ax axes n) \<noteq> None \<and> raised axes n) (map fst AXIS_TO_DOMINANT)
      in 3 \<le> length (remdups (map (get_or_key AXIS_MECHANISM) bad_axes @ material_mechanisms trends)))"

fun dominant_loop :: "axes \<Rightarrow> string list \<Rightarrow> (string \<times> string) list \<Rightarrow> pyfloat \<Rightarrow> string option \<Rightarrow> string option" where
  "dominant_loop axes live [] best_score best = best"
| "dominant_loop axes live ((name, short) # rest) best_score best =
     (case hx_value (ax axes name) of None \<Rightarrow> dominant_loop axes live rest best_score best
      | Some v \<Rightarrow>
          if \<not> raised axes name \<and> name \<notin> set live then dominant_loop axes live rest best_score best
          else let score = fmul v (SEVERITY name)
            in if flt best_score score then dominant_loop axes live rest score (Some short)
               else dominant_loop axes live rest best_score best)"

definition dominant :: "axes \<Rightarrow> trends \<Rightarrow> string option \<times> bool" where
  "dominant axes trends =
     (if is_systemic axes trends then (Some ''systemic'', True)
      else (dominant_loop axes (List.map_filter (dict_get MECHANISM_AXIS) (material_mechanisms trends)) AXIS_TO_DOMINANT
              (Fin (- 1)) None, False))"

subsection \<open>Horizon\<close>

datatype horizon_reason = HR_None | HR_State hstate | HR_Eta nat

definition eta_horizon :: "pyfloat \<Rightarrow> nat option" where
  "eta_horizon eta = (if fle eta (Fin 30) then Some 30 else if fle eta (Fin 90) then Some 90
     else if fle eta (Fin 180) then Some 180 else None)"

fun eta_loop :: "trends \<Rightarrow> string list \<Rightarrow> nat option \<Rightarrow> nat option" where
  "eta_loop trends [] days = days"
| "eta_loop trends (t # ts) days = eta_loop trends ts
     (case Option.bind (Option.bind (dict_get trends t) tn_eta) eta_horizon of None \<Rightarrow> days
      | Some d \<Rightarrow> Some (min (case days of None \<Rightarrow> 999 | Some e \<Rightarrow> e) d))"

definition horizon :: "hstate \<Rightarrow> trends \<Rightarrow> nat option \<times> horizon_reason" where
  "horizon state trends =
     (let eta = eta_loop trends DEPLETION_TRENDS None
      in case (HORIZON_STATE_DAYS state, eta) of
           (Some d, None) \<Rightarrow> (Some d, HR_State state)
         | (Some d, Some e) \<Rightarrow> if d \<le> e then (Some d, HR_State state) else (Some e, HR_Eta e)
         | (None, Some e) \<Rightarrow> (Some e, HR_Eta e)
         | (None, None) \<Rightarrow> (None, HR_None))"

subsection \<open>Confidence and context\<close>

definition verdict_confidence :: "coordinate \<Rightarrow> coordinate \<Rightarrow> pyfloat \<Rightarrow> bool \<Rightarrow> confidence" where
  "verdict_confidence d r o_val immature =
     (if flt o_val (Fin 40) then ConfLow
      else let base = map cd_confidence (filter (\<lambda>c. cd_value c \<noteq> None) [d, r]);
               conf = (if base = [] then ConfMedium else worst_conf base);
               conf = (if cd_value d = None \<or> cd_value r = None then cap_conf conf ConfMedium else conf);
               conf = (if fle (Fin 40) o_val \<and> fle o_val (Fin 74) then cap_conf conf ConfMedium else conf)
        in if immature then cap_conf conf ConfMedium else conf)"

definition confidence_missing :: "coordinate \<Rightarrow> coordinate \<Rightarrow> pyfloat \<Rightarrow> health_missing list" where
  "confidence_missing d r o_val = (if fle (Fin 40) o_val \<and> (cd_value d = None \<or> cd_value r = None) then [HM_Partial] else [])"

definition context_factors :: "string option \<Rightarrow> string option \<Rightarrow> cohort option \<Rightarrow> trends \<Rightarrow> fact list" where
  \<comment> \<open>\<open>bayes_top\<close>: the class the risk engine puts first\<close>
  "context_factors dm bayes_top cohort trends =
     (case bayes_top of None \<Rightarrow> [] | Some b \<Rightarrow>
        if b \<noteq> '''' \<and> dm \<noteq> Some b then [\<lparr>hf_label = HL_Bayes b, hf_delta = Some (Fin 0)\<rparr>] else []) @
     (if COHORT_MIN \<le> cohort_size cohort
      then (case (Option.bind (dict_get trends ''boot_time'') tn_current, Option.bind cohort ct_boot_p90) of
          (Some boot, Some p90) \<Rightarrow> if flt p90 boot then [\<lparr>hf_label = HL_SlowBoot, hf_delta = Some (Fin 0)\<rparr>] else []
        | _ \<Rightarrow> [])
      else [])"

subsection \<open>The verdict\<close>

datatype action = A_Blind | A_For "string option"

record health_verdict =
  ve_damage :: coordinate
  ve_resilience :: coordinate
  ve_observability :: coordinate
  ve_blind :: "blind_spot list"
  ve_state :: hstate
  ve_evidence :: "fact list"
  ve_index :: "pyfloat option"
  ve_band :: band
  ve_confidence :: confidence
  ve_dominant :: "string option"
  ve_horizon :: "nat option"
  ve_reason :: horizon_reason
  ve_action :: action
  ve_factors :: "fact list"
  ve_missing :: "health_missing list"
  ve_last_known :: "hstate option"

definition floor_state :: "bool \<Rightarrow> hstate \<Rightarrow> hstate" where
  \<comment> \<open>several mechanisms at once are no early state\<close>
  "floor_state systemic s = (if systemic \<and> (case STATE_ORDER s of None \<Rightarrow> False | Some n \<Rightarrow> n < 2) then H2 else s)"

definition compute_health :: "axes \<Rightarrow> string option \<Rightarrow> trends \<Rightarrow> chain_view option \<Rightarrow> cohort option \<Rightarrow> prev_health option \<Rightarrow> health_verdict" where
  "compute_health axes bayes_top trends evs cohort prev =
     (let (o_c, blind) = observability axes trends evs cohort;
          o_val = or_zero (cd_value o_c);
          d = damage axes;
          (r, r_missing, immature) = resilience axes trends;
          flags = cd_flags d @ cd_flags r;
          (state0, ev) = state_of d r o_val flags;
          state1 = ratchet state0 prev flags trends (hx_disk (ax axes ''storage_risk''));
          last_known = (if state1 \<noteq> HUnknown then Some state1 else Option.bind prev pv_last);
          (dm, systemic) = dominant axes trends;
          state = floor_state systemic state1;
          rloss = map_option (\<lambda>v. fround 1 (fsub (Fin 100) v)) (cd_value r);
          index = health_index (cd_value d) rloss o_val;
          (band, reconcile_factors) = reconcile_band state index o_val;
          (days, reason) = horizon state trends
      in \<lparr>ve_damage = d, ve_resilience = r, ve_observability = o_c, ve_blind = blind, ve_state = state, ve_evidence = ev,
          ve_index = index, ve_band = band, ve_confidence = verdict_confidence d r o_val immature, ve_dominant = dm,
          ve_horizon = days, ve_reason = reason, ve_action = (if flt o_val (Fin 40) then A_Blind else A_For dm),
          ve_factors = top_facts (cd_evidence d @ cd_evidence r @ cd_evidence o_c) 8
            @ context_factors dm bayes_top cohort trends @ reconcile_factors,
          ve_missing = dedup (r_missing @ confidence_missing d r o_val), ve_last_known = last_known\<rparr>)"

definition stored_health :: "health_verdict \<Rightarrow> axes \<Rightarrow> prev_health" where
  \<comment> \<open>what the pipeline keeps of it for the next time\<close>
  "stored_health v axes = \<lparr>pv_state = Some (ve_state v), pv_last = ve_last_known v, pv_disk = hx_disk (ax axes ''storage_risk'')\<rparr>"

subsection \<open>Age\<close>

datatype health_age = Stale_Unknown | Stale_Days int

definition parse_dt :: "string \<Rightarrow> stamp option" where
  "parse_dt s = (case fromisoformat (replace_Z (strip s)) of Inr t \<Rightarrow> Some t | Inl _ \<Rightarrow> None)"

definition health_staleness :: "string \<Rightarrow> int \<Rightarrow> health_age option res" where
  \<comment> \<open>\<open>now\<close> in UTC; a stamp without a zone cannot be subtracted from it\<close>
  "health_staleness score_ts now =
     (case parse_dt score_ts of None \<Rightarrow> Inr None
      | Some t \<Rightarrow> if utc_offset t = None then Inl TypeError
          else let age = now - as_utc t
            in Inr (if 10 * day_us < age then Some Stale_Unknown
                    else if 3 * day_us < age then Some (Stale_Days (age div day_us)) else None))"

definition apply_health_staleness :: "health_verdict \<Rightarrow> string option \<Rightarrow> int \<Rightarrow> health_verdict res" where
  "apply_health_staleness h score_ts now =
     (case score_ts of None \<Rightarrow> Inr h
      | Some ts \<Rightarrow> if ts = '''' then Inr h
          else bindE (health_staleness ts now) (\<lambda>msg. case msg of
            None \<Rightarrow> Inr h
          | Some Stale_Unknown \<Rightarrow> Inr (h\<lparr>ve_state := HUnknown, ve_band := NoBand, ve_confidence := NoConf,
              ve_blind := ve_blind h @ [B_Stale]\<rparr>)
          | Some (Stale_Days n) \<Rightarrow> Inr (h\<lparr>ve_confidence := ConfLow, ve_missing := ve_missing h @ [HM_Aged n]\<rparr>)))"

subsection \<open>Rounding errors\<close>

definition near :: "pyfloat \<Rightarrow> rat \<Rightarrow> rat \<Rightarrow> bool" where
  "near x q e \<longleftrightarrow> (\<exists>r. x = Fin r \<and> \<bar>r - q\<bar> \<le> e)"

lemma near_grid:
  assumes "0 \<le> q" "q * 2 ^ k + 1 < 2 ^ 53" "k \<le> 1074"
  shows "near (rnd64 q) q (1 / 2 ^ k)"
proof -
  define a where "a = \<lfloor>q * 2 ^ k\<rfloor>"
  have a: "0 \<le> a" "of_int a \<le> q * 2 ^ k" "q * 2 ^ k < of_int a + 1" using assms(1) unfolding a_def by (simp, linarith+)
  have "(of_int (a + 1) :: rat) < of_int (2 ^ 53)" using a(2) assms(2) by simp
  then have b: "a + 1 < 2 ^ 53" unfolding of_int_less_iff .
  have lo: "rnd64 (of_int a / 2 ^ k) = Fin (of_int a / 2 ^ k)"
    using rnd64_fraction[of a k] b a(1) assms(3) by (cases "a = 0") (simp_all add: rnd64_def)
  have hi: "rnd64 (of_int (a + 1) / 2 ^ k) = Fin (of_int (a + 1) / 2 ^ k)"
    using a(1) b assms(3) by (intro rnd64_fraction) simp_all
  have "of_int a / 2 ^ k \<le> q" "q \<le> of_int (a + 1) / 2 ^ k" using a(2,3) by (simp_all add: field_simps)
  from rnd64_fle[OF this(1)] rnd64_fle[OF this(2)] this obtain r where r: "rnd64 q = Fin r"
      "of_int a / 2 ^ k \<le> r" "r \<le> of_int (a + 1) / 2 ^ k" unfolding lo hi by (cases "rnd64 q") auto
  have "of_int (a + 1) / 2 ^ k = of_int a / 2 ^ k + 1 / (2 ^ k :: rat)" by (simp add: add_divide_distrib)
  with r(2,3) \<open>of_int a / 2 ^ k \<le> q\<close> \<open>q \<le> of_int (a + 1) / 2 ^ k\<close> have "\<bar>r - q\<bar> \<le> 1 / 2 ^ k" by linarith
  then show ?thesis by (simp add: near_def r(1))
qed

definition ulp :: rat where "ulp = 1 / 2 ^ 40"

lemma near_rnd: "0 \<le> q \<Longrightarrow> q \<le> 1000 \<Longrightarrow> near (rnd64 q) q ulp"
  unfolding ulp_def by (intro near_grid) simp_all

lemma half_even_near: "\<bar>x - of_int n\<bar> < 1 / 2 \<Longrightarrow> half_even x = n"
proof -
  assume "\<bar>x - of_int n\<bar> < 1 / 2"
  then have x: "of_int n - 1 / 2 < x" "x < of_int n + 1 / 2" by linarith+
  then consider "\<lfloor>x\<rfloor> = n" | "\<lfloor>x\<rfloor> = n - 1" by linarith
  then show ?thesis
  proof cases
    case 1
    with x(2) have "x - of_int \<lfloor>x\<rfloor> < 1 / 2" by linarith
    then show ?thesis using 1 by (simp add: half_even_def Let_def)
  next
    case 2
    with x(1) have "1 / 2 < x - of_int \<lfloor>x\<rfloor>" by simp
    then show ?thesis using 2 by (simp add: half_even_def Let_def)
  qed
qed

lemma fround_near: "near x (of_int n) e \<Longrightarrow> e < 1 / 20 \<Longrightarrow> \<bar>n\<bar> < 2 ^ 53 \<Longrightarrow> fround 1 x = Fin (of_int n)"
proof -
  assume "near x (of_int n) e" "e < 1 / 20" "\<bar>n\<bar> < 2 ^ 53"
  then obtain r where r: "x = Fin r" "\<bar>r - of_int n\<bar> < 1 / 20" by (auto simp: near_def)
  then have "\<bar>r * 10 - of_int (n * 10)\<bar> < 1 / 2" using r(2) unfolding of_int_mult by linarith
  then have "half_even (r * 10) = n * 10" by (rule half_even_near)
  then show ?thesis using r(1) rnd64_of_int[OF \<open>\<bar>n\<bar> < 2 ^ 53\<close>] by (simp add: fround_def)
qed

lemma near_sum:
  assumes "0 \<le> a" "\<bar>a - p\<bar> \<le> e" "p + of_nat (sum_list ws) / 100 \<le> 500" "e + of_nat (length ws) * (2 * ulp) \<le> 1"
  shows "near (foldl fadd (Fin a) (map (\<lambda>w. rnd64 (of_nat w / 100)) ws)) (p + of_nat (sum_list ws) / 100)
    (e + of_nat (length ws) * (2 * ulp))"
  using assms
proof (induction ws arbitrary: a p e)
  case (Cons w ws)
  define W S L where "W = of_nat w / (100 :: rat)" and "S = of_nat (sum_list ws) / (100 :: rat)" and "L = of_nat (length ws) * (2 * ulp)"
  have u: "0 < ulp" by (simp add: ulp_def)
  then have pos: "0 \<le> W" "0 \<le> S" "0 \<le> L" by (simp_all add: W_def S_def L_def)
  have hyps: "p + W + S \<le> 500" "e + 2 * ulp + L \<le> 1"
    using Cons.prems(3,4) by (simp_all add: W_def S_def L_def add_divide_distrib algebra_simps)
  have w: "W \<le> 1000" using Cons.prems(1,2) hyps u pos by linarith
  then obtain b where b: "rnd64 W = Fin b" "\<bar>b - W\<bar> \<le> ulp" using near_rnd[of W] pos(1) by (auto simp: near_def)
  have b0: "0 \<le> b" using rnd64_sign(1)[OF pos(1)] b(1) by simp
  have "a + b \<le> 1000" using Cons.prems(2) hyps b(2) u pos by linarith
  then obtain c where c: "rnd64 (a + b) = Fin c" "\<bar>c - (a + b)\<bar> \<le> ulp"
    using near_rnd[of "a + b"] Cons.prems(1) b0 by (auto simp: near_def)
  have c0: "0 \<le> c" using rnd64_sign(1)[of "a + b"] c(1) Cons.prems(1) b0 by simp
  have ce: "\<bar>c - (p + W)\<bar> \<le> e + 2 * ulp" using b(2) c(2) Cons.prems(2) by linarith
  have "near (foldl fadd (Fin c) (map (\<lambda>w. rnd64 (of_nat w / 100)) ws)) (p + W + S) (e + 2 * ulp + L)"
    using Cons.IH[OF c0 ce] hyps by (simp add: S_def L_def)
  moreover have "p + of_nat (sum_list (w # ws)) / 100 = p + W + S" "e + of_nat (length (w # ws)) * (2 * ulp) = e + 2 * ulp + L"
    by (simp_all add: W_def S_def L_def add_divide_distrib algebra_simps)
  moreover have "foldl fadd (Fin a) (map (\<lambda>w. rnd64 (of_nat w / 100)) (w # ws)) = foldl fadd (Fin c) (map (\<lambda>w. rnd64 (of_nat w / 100)) ws)"
    using b(1) c(1) by (simp add: W_def)
  ultimately show ?case by presburger
qed (simp add: near_def)

lemma percent_exact:
  assumes "sum_list ws \<le> 100" "length ws \<le> 6"
  shows "fround 1 (fmul (foldl fadd (Fin 0) (map (\<lambda>w. rnd64 (of_nat w / 100)) ws)) (Fin 100)) = Fin (of_nat (sum_list ws))"
proof -
  have n: "(of_nat (length ws) :: rat) \<le> 6" "(of_nat (sum_list ws) :: rat) \<le> 100" using assms by simp_all
  have l: "(of_nat (length ws) :: rat) * (2 * ulp) \<le> 12 * ulp" using n(1) by (simp add: ulp_def)
  have "near (foldl fadd (Fin 0) (map (\<lambda>w. rnd64 (of_nat w / 100)) ws)) (0 + of_nat (sum_list ws) / 100) (0 + of_nat (length ws) * (2 * ulp))"
    using n l by (intro near_sum) (simp_all add: ulp_def)
  then obtain r where r0: "foldl fadd (Fin 0) (map (\<lambda>w. rnd64 (of_nat w / 100)) ws) = Fin r"
      "\<bar>r - of_nat (sum_list ws) / 100\<bar> \<le> of_nat (length ws) * (2 * ulp)" by (auto simp: near_def)
  with l have r: "foldl fadd (Fin 0) (map (\<lambda>w. rnd64 (of_nat w / 100)) ws) = Fin r"
      "\<bar>r - of_nat (sum_list ws) / 100\<bar> \<le> 12 * ulp" by (simp, linarith)
  have r0: "0 \<le> r"
    using sum_nonneg[of "map (\<lambda>w. rnd64 (of_nat w / 100)) ws" "Fin 0"] rnd64_sign(1) r(1) by (auto simp: list_all_iff)
  have "12 * ulp \<le> 1" by (simp add: ulp_def)
  then have "r * 100 \<le> 1000" using r(2) n(2) by linarith
  then obtain c where c: "rnd64 (r * 100) = Fin c" "\<bar>c - r * 100\<bar> \<le> ulp" using near_rnd[of "r * 100"] r0 by (auto simp: near_def)
  have "\<bar>c - of_nat (sum_list ws)\<bar> \<le> 1300 * ulp" using r(2) c(2) by linarith
  then have "near (Fin c) (of_int (int (sum_list ws))) (1300 * ulp)" by (simp add: near_def)
  then have "fround 1 (Fin c) = Fin (of_int (int (sum_list ws)))" by (rule fround_near) (use assms(1) in \<open>simp_all add: ulp_def\<close>)
  then show ?thesis by (simp add: r(1) c(1))
qed

subsection \<open>Observability\<close>

definition channel_percents :: "(nat \<times> blind_spot) list" where
  "channel_percents = [(35, B_Smart), (15, B_Events), (15, B_Performance), (15, B_Trends), (10, B_Inventory), (10, B_Cohort)]"

definition tagged :: "(nat \<times> bool \<times> blind_spot) \<Rightarrow> pyfloat \<times> bool \<times> blind_spot" where
  "tagged c = (rnd64 (of_nat (fst c) / 100), snd c)"

lemma live_weights:
  "map fst (filter (\<lambda>(w, l, b). l) (map tagged cs)) = map (\<lambda>w. rnd64 (of_nat w / 100)) (map fst (filter (fst \<circ> snd) cs))"
  by (induction cs) (auto simp: tagged_def split_def)

lemma blind_of:
  "map (\<lambda>(w, l, b). b) (filter (\<lambda>(w, l, b). \<not> l) (map tagged cs)) = map (snd \<circ> snd) (filter (Not \<circ> fst \<circ> snd) cs)"
  by (induction cs) (auto simp: tagged_def split_def)

lemma seen_percents:
  assumes "distinct (map (snd \<circ> snd) cs)"
  shows "map fst (filter (\<lambda>(w, b). b \<notin> set (map (snd \<circ> snd) (filter (Not \<circ> fst \<circ> snd) cs))) (map (\<lambda>(w, l, b). (w, b)) cs)) =
    map fst (filter (fst \<circ> snd) cs)"
proof -
  have "filter (\<lambda>c. snd (snd c) \<notin> set (map (snd \<circ> snd) (filter (Not \<circ> fst \<circ> snd) cs))) cs = filter (fst \<circ> snd) cs"
    using assms by (intro filter_cong) (auto simp: distinct_map inj_on_def)
  then show ?thesis by (simp add: filter_map o_def split_def)
qed

lemma observability_channels:
  obtains cs where "obs_channels axes trends evs cohort = map tagged cs" "map (\<lambda>(w, l, b). (w, b)) cs = channel_percents"
proof
  let ?ls = "map (fst \<circ> snd) (obs_channels axes trends evs cohort)"
  show "obs_channels axes trends evs cohort = map tagged (map (\<lambda>((w, b), l). (w, l, b)) (zip channel_percents ?ls))"
    by (simp add: obs_channels_def channel_percents_def tagged_def)
  show "map (\<lambda>(w, l, b). (w, b)) (map (\<lambda>((w, b), l). (w, l, b)) (zip channel_percents ?ls)) = channel_percents"
    by (simp add: obs_channels_def channel_percents_def)
qed

definition seen_percent :: "blind_spot list \<Rightarrow> nat" where
  "seen_percent blind = sum_list (map fst (filter (\<lambda>(w, b). b \<notin> set blind) channel_percents))"

lemma observability_exact:
  "cd_value (fst (observability axes trends evs cohort)) = Some (Fin (of_nat (seen_percent (snd (observability axes trends evs cohort)))))"
proof -
  obtain cs where cs: "obs_channels axes trends evs cohort = map tagged cs" "map (\<lambda>(w, l, b). (w, b)) cs = channel_percents"
    by (rule observability_channels)
  define ws where "ws = map fst (filter (fst \<circ> snd) cs)"
  have b: "map (snd \<circ> snd) cs = map snd channel_percents" "map fst cs = map fst channel_percents" "length cs = 6"
    unfolding cs(2)[symmetric] using arg_cong[OF cs(2), of length] by (simp_all add: o_def split_def channel_percents_def)
  have ws: "sum_list ws \<le> sum_list (map fst cs)" unfolding ws_def by (induction cs) auto
  have "sum_list ws \<le> 100" "length ws \<le> 6" using ws b length_filter_le[of "fst \<circ> snd" cs] by (simp_all add: ws_def channel_percents_def)
  note sum = percent_exact[OF this]
  have "ws = map fst (filter (\<lambda>(w, b). b \<notin> set (map (snd \<circ> snd) (filter (Not \<circ> fst \<circ> snd) cs))) channel_percents)"
    unfolding ws_def cs(2)[symmetric] by (rule seen_percents[symmetric]) (simp add: b channel_percents_def)
  then have "seen_percent (map (snd \<circ> snd) (filter (Not \<circ> fst \<circ> snd) cs)) = sum_list ws" by (simp add: seen_percent_def)
  with sum show ?thesis
    unfolding observability_def Let_def cs(1) blind_of live_weights ws_def[symmetric] by simp
qed

lemma verdict_observability:
  "ve_observability (compute_health axes bt trends evs cohort prev) = fst (observability axes trends evs cohort)"
  "ve_blind (compute_health axes bt trends evs cohort prev) = snd (observability axes trends evs cohort)"
  by (simp_all add: compute_health_def Let_def split: prod.split)

text \<open>The observability of a verdict is exactly the whole number its weights say: the percents of the channels that are
  not among its blind spots, whatever floating-point addition does to their sum.\<close>
theorem observability_is_exact:
  "cd_value (ve_observability (compute_health axes bt trends evs cohort prev)) =
   Some (Fin (of_nat (seen_percent (ve_blind (compute_health axes bt trends evs cohort prev)))))"
  unfolding verdict_observability by (rule observability_exact)

subsection \<open>The parts of a verdict\<close>

definition o_value :: "axes \<Rightarrow> trends \<Rightarrow> chain_view option \<Rightarrow> cohort option \<Rightarrow> pyfloat" where
  "o_value axes trends evs cohort = or_zero (cd_value (fst (observability axes trends evs cohort)))"

definition all_flags :: "axes \<Rightarrow> trends \<Rightarrow> string list" where
  "all_flags axes trends = cd_flags (damage axes) @ cd_flags (fst (resilience axes trends))"

definition raw_state :: "axes \<Rightarrow> trends \<Rightarrow> chain_view option \<Rightarrow> cohort option \<Rightarrow> hstate" where
  \<comment> \<open>the state by the criteria alone\<close>
  "raw_state axes trends evs cohort = fst (state_of (damage axes) (fst (resilience axes trends)) (o_value axes trends evs cohort)
     (all_flags axes trends))"

definition held_state :: "axes \<Rightarrow> trends \<Rightarrow> chain_view option \<Rightarrow> cohort option \<Rightarrow> prev_health option \<Rightarrow> hstate" where
  \<comment> \<open>the state after the ratchet\<close>
  "held_state axes trends evs cohort prev =
     ratchet (raw_state axes trends evs cohort) prev (all_flags axes trends) trends (hx_disk (ax axes ''storage_risk''))"

lemmas part_defs = compute_health_def o_value_def all_flags_def raw_state_def held_state_def

lemma verdict_parts_of:
  assumes "v = compute_health axes bt trends evs cohort prev"
  shows "ve_state v = floor_state (snd (dominant axes trends)) (held_state axes trends evs cohort prev)"
    "ve_last_known v = (if held_state axes trends evs cohort prev \<noteq> HUnknown then Some (held_state axes trends evs cohort prev)
       else Option.bind prev pv_last)"
    "ve_band v = fst (reconcile_band (ve_state v) (ve_index v) (o_value axes trends evs cohort))"
    "ve_horizon v = fst (horizon (ve_state v) trends)"
    "ve_index v = health_index (cd_value (damage axes)) (map_option (\<lambda>x. fround 1 (fsub (Fin 100) x)) (cd_value (fst (resilience axes trends))))
       (o_value axes trends evs cohort)"
    "ve_action v = (if flt (o_value axes trends evs cohort) (Fin 40) then A_Blind else A_For (fst (dominant axes trends)))"
    "ve_damage v = damage axes" "ve_resilience v = fst (resilience axes trends)"
    "ve_confidence v = verdict_confidence (damage axes) (fst (resilience axes trends)) (o_value axes trends evs cohort)
       (snd (snd (resilience axes trends)))"
  by (simp_all add: assms part_defs Let_def split: prod.split)

lemmas verdict_parts = verdict_parts_of[OF refl]

lemma o_value_percent: "o_value axes trends evs cohort = Fin (of_nat (seen_percent (snd (observability axes trends evs cohort))))"
  by (simp add: o_value_def observability_exact or_zero_def)

lemma raw_unknown: "raw_state axes trends evs cohort = HUnknown \<longleftrightarrow>
    flt (o_value axes trends evs cohort) (Fin 40) \<or> cd_value (damage axes) = None"
  by (simp add: raw_state_def state_of_def Let_def)

lemma rank_state: "STATE_ORDER s = Some n \<Longrightarrow> n \<le> 4 \<and> RANK_STATE n = s"
  by (cases s) auto

lemma state_order_rank: "n \<le> 4 \<Longrightarrow> STATE_ORDER (RANK_STATE n) = Some n"
  by (auto simp: le_Suc_eq numeral_eq_Suc)

lemma state_known: "STATE_ORDER s = None \<longleftrightarrow> s = HUnknown"
  by (cases s) auto

lemma ratchet_unknown: "ratchet s prev flags trends disk = HUnknown \<longleftrightarrow> s = HUnknown"
proof (cases "STATE_ORDER s")
  case (Some n)
  then have "s \<noteq> HUnknown" by auto
  then show ?thesis using Some by (auto simp: ratchet_def split: option.split)
qed (auto simp: ratchet_def state_known)

lemma floor_unknown: "floor_state b s = HUnknown \<longleftrightarrow> s = HUnknown"
  by (cases s) (auto simp: floor_state_def)

lemma known_iff: "ve_state (compute_health axes bt trends evs cohort prev) = HUnknown \<longleftrightarrow>
    flt (o_value axes trends evs cohort) (Fin 40) \<or> cd_value (damage axes) = None"
  by (simp add: verdict_parts floor_unknown held_state_def ratchet_unknown raw_unknown)

lemma index_range: "health_index d r ov = Some i \<Longrightarrow> ranged 0 100 i"
  by (auto simp: health_index_def Let_def clamp_ranged split: if_splits)

text \<open>C18: State, band, index and advice agree.  There is no verdict without a damage coordinate and 40 percent of the channels, and none
  of it then has a colour; below 40 percent there is no index either and the advice is to restore visibility.  With a verdict there is an
  index between 0 and 100; the worst state is never painted better than bad, the two before it never good,
  the best never bad.\<close>
theorem verdict_consistent:
  assumes "v = compute_health axes bt trends evs cohort prev"
  shows "(ve_state v = HUnknown \<longleftrightarrow> seen_percent (ve_blind v) < 40 \<or> cd_value (ve_damage v) = None) \<and>
    (ve_state v = HUnknown \<longrightarrow> ve_band v = NoBand) \<and>
    (seen_percent (ve_blind v) < 40 \<longrightarrow> ve_index v = None \<and> ve_confidence v = ConfLow \<and> ve_action v = A_Blind) \<and>
    (ve_state v \<noteq> HUnknown \<longrightarrow> (\<exists>i. ve_index v = Some i \<and> ranged 0 100 i)) \<and>
    (ve_state v = H4 \<longrightarrow> ve_band v = Bad) \<and> (ve_state v \<in> {H2, H3} \<longrightarrow> ve_band v \<in> {Watch, Bad}) \<and>
    (ve_state v = H0 \<longrightarrow> ve_band v \<in> {Good, Watch})"
proof -
  let ?o = "o_value axes trends evs cohort"
  have b: "flt ?o (Fin 40) \<longleftrightarrow> seen_percent (ve_blind v) < 40" unfolding assms verdict_observability o_value_percent by simp
  have d: "ve_damage v = damage axes" by (simp add: assms verdict_parts)
  have u: "ve_state v = HUnknown \<longleftrightarrow> seen_percent (ve_blind v) < 40 \<or> cd_value (ve_damage v) = None"
    unfolding b[symmetric] d unfolding assms by (rule known_iff)
  have i: "\<exists>i. ve_index v = Some i" if "ve_state v \<noteq> HUnknown"
    using that u b d by (auto simp: assms verdict_parts(5) health_index_def Let_def List.map_filter_simps)
  have r: "ve_index v = Some i \<Longrightarrow> ranged 0 100 i" for i unfolding assms verdict_parts(5) by (rule index_range)
  have band: "ve_band v = fst (reconcile_band (ve_state v) (ve_index v) ?o)" by (simp add: assms verdict_parts)
  show ?thesis
  proof (cases "ve_state v = HUnknown")
    case True
    then show ?thesis using u b by (auto simp: band reconcile_band_def) (auto simp: assms verdict_parts health_index_def verdict_confidence_def)
  next
    case False
    with i obtain x where "ve_index v = Some x" by blast
    moreover have "band_for_risk_score (Some y) \<noteq> NoBand" for y by (simp add: band_for_risk_score_def)
    ultimately show ?thesis using u b r False
      by (cases "band_for_risk_score (Some (fsub (Fin 100) x))") (auto simp: band reconcile_band_def Let_def)
  qed
qed

theorem verdict_consistent_witness:
  "ve_state (compute_health [] None [] None None None) = HUnknown \<and> ve_band (compute_health [] None [] None None None) = NoBand"
  using verdict_consistent[OF refl, of "[]" None "[]" None None None]
  by (simp add: verdict_parts(7) damage_def damage_channels_def ax_def no_axis_def no_coordinate_def)

subsection \<open>Hard evidence\<close>

lemma ratchet_worst: "ratchet H4 prev flags trends disk = H4"
proof (cases prev)
  case (Some p)
  show ?thesis
  proof (cases "Option.bind (remembered p) STATE_ORDER")
    case (Some old)
    then obtain s where "STATE_ORDER s = Some old" by (auto split: Option.bind_splits)
    then have "old \<le> 4" using rank_state by blast
    with Some \<open>prev = Some p\<close> show ?thesis by (simp add: ratchet_def)
  qed (simp add: ratchet_def Some)
qed (simp add: ratchet_def)

lemma eta_loop_ge: "eta_loop trends ts days = Some e \<Longrightarrow> pred_option ((\<le>) 30) days \<Longrightarrow> 30 \<le> e"
proof (induction ts arbitrary: days)
  case (Cons t ts)
  from Cons.prems(1) have "eta_loop trends ts (case Option.bind (Option.bind (dict_get trends t) tn_eta) eta_horizon of None \<Rightarrow> days
      | Some d \<Rightarrow> Some (min (case days of None \<Rightarrow> 999 | Some e \<Rightarrow> e) d)) = Some e" by simp
  then show ?case
    by (rule Cons.IH) (use Cons.prems(2) in \<open>auto simp: eta_horizon_def split: option.splits if_splits Option.bind_splits\<close>)
qed simp

lemma hard_state:
  assumes "any_flag (all_flags axes trends) H4_FLAGS" "cd_value (damage axes) \<noteq> None"
    "v = compute_health axes bt trends evs cohort prev" "40 \<le> seen_percent (ve_blind v)"
  shows "ve_state v = H4 \<and> ve_band v = Bad \<and> ve_horizon v = Some 7 \<and> ve_last_known v = Some H4"
proof -
  let ?o = "o_value axes trends evs cohort"
  have o: "\<not> flt ?o (Fin 40)" using assms(4) by (simp add: assms(3) verdict_observability o_value_percent)
  have "raw_state axes trends evs cohort = H4" using assms(1,2) o by (simp add: raw_state_def state_of_def Let_def)
  then have h: "held_state axes trends evs cohort prev = H4" by (simp add: held_state_def ratchet_worst)
  have "fst (horizon H4 trends) = Some 7"
    using eta_loop_ge[of trends DEPLETION_TRENDS None] by (auto simp: horizon_def split: option.splits)
  with h show ?thesis unfolding assms(3) verdict_parts by (simp add: floor_state_def reconcile_band_def o Let_def)
qed

text \<open>C17: A hard failure flag on a device that can be judged gives the worst state, the bad colour and a horizon of a
  week at once: neither the hysteresis nor any other axis softens it.\<close>
theorem hard_evidence_is_final:
  assumes "any_flag (all_flags axes trends) H4_FLAGS" "cd_value (damage axes) \<noteq> None"
    "v = compute_health axes bt trends evs cohort prev" "40 \<le> seen_percent (ve_blind v)"
  shows "ve_state v = H4 \<and> ve_band v = Bad \<and> ve_horizon v = Some 7 \<and> ve_last_known v = Some H4"
  using assms by (rule hard_state)

subsection \<open>Hysteresis\<close>

definition rank_at_least :: "hstate \<Rightarrow> hstate option \<Rightarrow> bool" where
  \<comment> \<open>no better than a remembered state\<close>
  "rank_at_least s m = (case (STATE_ORDER s, Option.bind m STATE_ORDER) of (Some a, Some b) \<Rightarrow> b \<le> a | _ \<Rightarrow> True)"

definition recovery_evidence :: "axes \<Rightarrow> trends \<Rightarrow> prev_health option \<Rightarrow> bool" where
  \<comment> \<open>another disk, a reboot that helped, or damage counters that stay flat\<close>
  "recovery_evidence axes trends prev \<longleftrightarrow>
     (case prev of None \<Rightarrow> False | Some p \<Rightarrow> replaced (hx_disk (ax axes ''storage_risk'')) (pv_disk p)) \<or>
     ''reboot_restores'' \<in> set (all_flags axes trends) \<or> counters_flat trends"

lemma ratchet_holds:
  assumes "\<not> replaced disk (pv_disk p)" "''reboot_restores'' \<notin> set flags" "\<not> counters_flat trends"
  shows "rank_at_least (ratchet s (Some p) flags trends disk) (remembered p)"
proof (cases "STATE_ORDER s")
  case (Some n)
  show ?thesis
  proof (cases "Option.bind (remembered p) STATE_ORDER")
    case (Some old)
    then obtain r where r: "remembered p = Some r" "STATE_ORDER r = Some old" by (auto split: Option.bind_splits)
    then have "RANK_STATE old = r" using rank_state by blast
    with r Some \<open>STATE_ORDER s = Some n\<close> assms show ?thesis by (auto simp: ratchet_def rank_at_least_def)
  qed (simp add: rank_at_least_def split: option.split)
qed (simp add: ratchet_def rank_at_least_def)

lemma ratchet_one_step:
  assumes "\<not> replaced disk (pv_disk p)" "remembered p = Some r" "STATE_ORDER r = Some old" "STATE_ORDER s = Some n"
  shows "\<exists>k. STATE_ORDER (ratchet s (Some p) flags trends disk) = Some k \<and> old \<le> k + 1"
proof -
  have "old \<le> 4" "RANK_STATE old = r" using rank_state[OF assms(3)] by auto
  then show ?thesis using assms state_order_rank[of "old - 1"] by (auto simp: ratchet_def)
qed

text \<open>C19: Between two judged cycles a state improves by one step at most unless another disk is the worst, and not at all without evidence
  of recovery.\<close>
theorem recovery_is_slow:
  assumes "prev = stored_health v0 axes0" "ve_state v0 \<noteq> HUnknown" "v = compute_health axes bt trends evs cohort (Some prev)"
    "ve_state v \<noteq> HUnknown" "\<not> replaced (hx_disk (ax axes ''storage_risk'')) (hx_disk (ax axes0 ''storage_risk''))"
  shows "the (STATE_ORDER (ve_state v0)) \<le> the (STATE_ORDER (ve_state v)) + 1 \<and>
    (\<not> recovery_evidence axes trends (Some prev) \<longrightarrow> the (STATE_ORDER (ve_state v0)) \<le> the (STATE_ORDER (ve_state v)))"
proof -
  let ?h = "held_state axes trends evs cohort (Some prev)"
  obtain old where old: "STATE_ORDER (ve_state v0) = Some old" using assms(2) state_known by (metis not_None_eq)
  have r: "remembered prev = Some (ve_state v0)" "pv_disk prev = hx_disk (ax axes0 ''storage_risk'')"
    using assms(2) by (simp_all add: assms(1) stored_health_def remembered_def)
  have v: "ve_state v = floor_state (snd (dominant axes trends)) ?h" by (simp add: assms(3) verdict_parts)
  then have "raw_state axes trends evs cohort \<noteq> HUnknown" using assms(4) by (simp add: floor_unknown held_state_def ratchet_unknown)
  then obtain n where n: "STATE_ORDER (raw_state axes trends evs cohort) = Some n" using state_known by (metis not_None_eq)
  obtain k where k: "STATE_ORDER ?h = Some k" "old \<le> k + 1"
    using ratchet_one_step[of "hx_disk (ax axes ''storage_risk'')" prev] assms(5) r old n unfolding held_state_def by metis
  have f: "\<exists>m. STATE_ORDER (floor_state b s) = Some m \<and> j \<le> m" if "STATE_ORDER s = Some j" for b s j
    using that by (auto simp: floor_state_def)
  have "rank_at_least ?h (remembered prev)" if "\<not> recovery_evidence axes trends (Some prev)"
    using that unfolding held_state_def by (intro ratchet_holds) (auto simp: recovery_evidence_def)
  then have "\<not> recovery_evidence axes trends (Some prev) \<longrightarrow> old \<le> k" using k(1) old r by (auto simp: rank_at_least_def)
  with f[OF k(1), of "snd (dominant axes trends)"] k(2) show ?thesis by (auto simp: v old)
qed

subsection \<open>Memory over many cycles\<close>

locale ratcheted =
  fixes mem :: "'s \<Rightarrow> nat" and shown :: "'s \<Rightarrow> nat option" and next_state :: "'i \<Rightarrow> 's \<Rightarrow> 's"
    and ok :: "'s \<Rightarrow> bool" and quiet :: "'i \<Rightarrow> 's \<Rightarrow> bool"
  assumes keeps_ok: "ok s \<Longrightarrow> ok (next_state i s)"
    and keeps_mem: "ok s \<Longrightarrow> quiet i s \<Longrightarrow> mem s \<le> mem (next_state i s)"
    and shows_mem: "ok s \<Longrightarrow> shown s = Some n \<Longrightarrow> mem s \<le> n"
begin

fun all_quiet :: "'i list \<Rightarrow> 's \<Rightarrow> bool" where
  "all_quiet [] s \<longleftrightarrow> True"
| "all_quiet (i # is) s \<longleftrightarrow> quiet i s \<and> all_quiet is (next_state i s)"

lemma run_ok: "ok s \<Longrightarrow> ok (fold next_state is s)"
  by (induction "is" arbitrary: s) (auto intro: keeps_ok)

lemma run_mem: "ok s \<Longrightarrow> all_quiet is s \<Longrightarrow> mem s \<le> mem (fold next_state is s)"
proof (induction "is" arbitrary: s)
  case (Cons i "is")
  then have "mem s \<le> mem (next_state i s)" "mem (next_state i s) \<le> mem (fold next_state is (next_state i s))"
    by (auto intro: keeps_mem keeps_ok)
  then show ?case by simp
qed simp

lemma run_shown: "ok s \<Longrightarrow> all_quiet is s \<Longrightarrow> shown (fold next_state is s) = Some n \<Longrightarrow> mem s \<le> n"
  using run_mem[of s "is"] shows_mem[OF run_ok, of s "is" n] by simp

end

type_synonym cycle_inputs = "axes \<times> string option \<times> trends \<times> chain_view option \<times> cohort option"

definition health_cycle :: "cycle_inputs \<Rightarrow> prev_health \<Rightarrow> prev_health" where
  \<comment> \<open>recompute the verdict and store it\<close>
  "health_cycle i p = (case i of (axes, bt, trends, evs, cohort) \<Rightarrow>
     stored_health (compute_health axes bt trends evs cohort (Some p)) axes)"

definition quiet_cycle :: "cycle_inputs \<Rightarrow> prev_health \<Rightarrow> bool" where
  "quiet_cycle i p \<longleftrightarrow> (case i of (axes, bt, trends, evs, cohort) \<Rightarrow> \<not> recovery_evidence axes trends (Some p))"

definition rank_of :: "hstate option \<Rightarrow> nat" where
  "rank_of m = (case Option.bind m STATE_ORDER of None \<Rightarrow> 0 | Some n \<Rightarrow> n)"

definition stored_ok :: "prev_health \<Rightarrow> bool" where
  \<comment> \<open>the last known state is no worse than the state shown, and is no state only when none is shown\<close>
  "stored_ok p \<longleftrightarrow> pv_last p \<noteq> Some HUnknown \<and>
     (case Option.bind (pv_state p) STATE_ORDER of None \<Rightarrow> pv_state p = Some HUnknown
      | Some n \<Rightarrow> \<exists>k. Option.bind (pv_last p) STATE_ORDER = Some k \<and> k \<le> n)"

lemma floor_rank: "STATE_ORDER s = Some j \<Longrightarrow> \<exists>m. STATE_ORDER (floor_state b s) = Some m \<and> j \<le> m"
  by (auto simp: floor_state_def)

lemma stored_state: "pv_state (stored_health v axes) = Some (ve_state v)" "pv_last (stored_health v axes) = ve_last_known v"
  by (simp_all add: stored_health_def)

lemma stored_ok_step:
  assumes "case prev of None \<Rightarrow> True | Some p \<Rightarrow> pv_last p \<noteq> Some HUnknown"
  shows "stored_ok (stored_health (compute_health axes bt trends evs cohort prev) axes)"
proof (cases "STATE_ORDER (held_state axes trends evs cohort prev)")
  case None
  then have h: "held_state axes trends evs cohort prev = HUnknown" by (simp add: state_known)
  then show ?thesis using assms
    by (auto simp: stored_ok_def stored_state verdict_parts floor_state_def split: option.splits Option.bind_splits)
next
  case (Some n)
  then have "held_state axes trends evs cohort prev \<noteq> HUnknown" by auto
  with Some floor_rank[OF Some, of "snd (dominant axes trends)"] show ?thesis
    by (auto simp: stored_ok_def stored_state verdict_parts)
qed

lemma cycle_mem:
  assumes "stored_ok p" "quiet_cycle i p"
  shows "rank_of (pv_last p) \<le> rank_of (pv_last (health_cycle i p))"
proof -
  obtain axes bt trends evs cohort where i: "i = (axes, bt, trends, evs, cohort)" by (cases i)
  let ?h = "held_state axes trends evs cohort (Some p)"
  have last: "pv_last (health_cycle i p) = (if ?h \<noteq> HUnknown then Some ?h else pv_last p)"
    by (simp add: health_cycle_def i stored_state verdict_parts)
  show ?thesis
  proof (cases "?h = HUnknown")
    case False
    have q: "\<not> recovery_evidence axes trends (Some p)" using assms(2) by (simp add: quiet_cycle_def i)
    have "rank_at_least ?h (remembered p)"
      using q unfolding held_state_def by (intro ratchet_holds) (auto simp: recovery_evidence_def)
    moreover obtain n where "STATE_ORDER ?h = Some n" using False state_known by (metis not_None_eq)
    moreover have "rank_of (pv_last p) \<le> rank_of (remembered p)"
      using assms(1) by (auto simp: stored_ok_def remembered_def rank_of_def split: option.splits Option.bind_splits)
    ultimately show ?thesis using False by (auto simp: last rank_of_def rank_at_least_def split: option.splits)
  qed (simp add: last)
qed

interpretation health: ratcheted "\<lambda>p. rank_of (pv_last p)" "\<lambda>p. Option.bind (pv_state p) STATE_ORDER" health_cycle stored_ok quiet_cycle
proof
  show "stored_ok (health_cycle i p)" if "stored_ok p" for p i
  proof -
    obtain axes bt trends evs cohort where i: "i = (axes, bt, trends, evs, cohort)" by (cases i)
    show ?thesis unfolding i health_cycle_def prod.case
      by (rule stored_ok_step) (use that in \<open>simp add: stored_ok_def\<close>)
  qed
  show "rank_of (pv_last p) \<le> rank_of (pv_last (health_cycle i p))" if "stored_ok p" "quiet_cycle i p" for p i
    using that by (rule cycle_mem)
  show "rank_of (pv_last p) \<le> n" if "stored_ok p" "Option.bind (pv_state p) STATE_ORDER = Some n" for p n
    using that by (auto simp: stored_ok_def rank_of_def)
qed

definition health_run :: "cycle_inputs list \<Rightarrow> prev_health option \<Rightarrow> prev_health option" where
  \<comment> \<open>the block that is stored after these cycles\<close>
  "health_run is p = fold (\<lambda>(axes, bt, trends, evs, cohort) p. Some (stored_health (compute_health axes bt trends evs cohort p) axes)) is p"

lemma health_run_Some: "health_run is (Some p) = Some (fold health_cycle is p)"
  by (induction "is" arbitrary: p) (auto simp: health_run_def health_cycle_def)

lemma health_run_ok: "health_run is None = Some p \<Longrightarrow> stored_ok p"
proof (cases "is")
  case (Cons i rest)
  assume r: "health_run is None = Some p"
  obtain axes bt trends evs cohort where i: "i = (axes, bt, trends, evs, cohort)" by (cases i)
  let ?p = "stored_health (compute_health axes bt trends evs cohort None) axes"
  have "p = fold health_cycle rest ?p" using r health_run_Some[of rest ?p] by (simp add: Cons health_run_def i)
  then show ?thesis using health.run_ok[of ?p rest] stored_ok_step[of None] by simp
qed (simp add: health_run_def)

definition seen_cycle :: "cycle_inputs \<Rightarrow> prev_health \<Rightarrow> bool" where
  \<comment> \<open>a cycle that is not blind and brings no evidence of recovery\<close>
  "seen_cycle i p \<longleftrightarrow> quiet_cycle i p \<and> pv_state (health_cycle i p) \<noteq> Some HUnknown"

lemma seen_cycle_holds:
  assumes "seen_cycle i p"
  shows "rank_of (pv_state p) \<le> rank_of (pv_state (health_cycle i p))"
proof (cases "pv_state p = Some HUnknown")
  case False
  obtain axes bt trends evs cohort where i: "i = (axes, bt, trends, evs, cohort)" by (cases i)
  let ?h = "held_state axes trends evs cohort (Some p)"
  have s: "pv_state (health_cycle i p) = Some (floor_state (snd (dominant axes trends)) ?h)"
    by (simp add: health_cycle_def i stored_state verdict_parts)
  then have "?h \<noteq> HUnknown" using assms by (auto simp: seen_cycle_def floor_state_def)
  then obtain n where n: "STATE_ORDER ?h = Some n" using state_known by (metis not_None_eq)
  have "rank_at_least ?h (remembered p)"
    using assms unfolding held_state_def seen_cycle_def quiet_cycle_def i by (intro ratchet_holds) (auto simp: recovery_evidence_def)
  then have "rank_of (pv_state p) \<le> n" using False n
    by (auto simp: rank_at_least_def remembered_def rank_of_def split: option.splits)
  then show ?thesis using floor_rank[OF n, of "snd (dominant axes trends)"] by (auto simp: s rank_of_def)
qed (simp add: rank_of_def)

interpretation shown: ratcheted "\<lambda>p. rank_of (pv_state p)" "\<lambda>p. Option.bind (pv_state p) STATE_ORDER" health_cycle stored_ok seen_cycle
proof
  show "stored_ok (health_cycle i p)" if "stored_ok p" for p i using that by (rule health.keeps_ok)
  show "rank_of (pv_state p) \<le> rank_of (pv_state (health_cycle i p))" if "stored_ok p" "seen_cycle i p" for p i
    using that(2) by (rule seen_cycle_holds)
  show "rank_of (pv_state p) \<le> n" if "stored_ok p" "Option.bind (pv_state p) STATE_ORDER = Some n" for p n
    using that(2) by (simp add: rank_of_def)
qed

text \<open>C2: What a cycle knew outlives any number of cycles without evidence of recovery, blind ones among them.  After any earlier cycles, when
  a state is shown again it is no better than the last known state was, which is the one before the floor for several mechanisms at work
  at once.  When none of the cycles in between is blind, it is no better than the state that was shown either, floor included; a blind
  cycle keeps the first promise only.\<close>
theorem memory_outlives_blind_cycles:
  assumes "health_run before None = Some p" "health.all_quiet is p"
    "pv_state (fold health_cycle is p) = Some s" "s \<noteq> HUnknown"
  shows "rank_of (pv_last p) \<le> rank_of (Some s) \<and> (shown.all_quiet is p \<longrightarrow> rank_of (pv_state p) \<le> rank_of (Some s))"
proof -
  have ok: "stored_ok p" by (rule health_run_ok[OF assms(1)])
  obtain n where n: "STATE_ORDER s = Some n" using assms(4) state_known by (metis not_None_eq)
  have "rank_of (pv_last p) \<le> n" by (rule health.run_shown[OF ok assms(2)]) (simp add: assms(3) n)
  moreover have "rank_of (pv_state p) \<le> n" if "shown.all_quiet is p"
    by (rule shown.run_shown[OF ok that]) (simp add: assms(3) n)
  ultimately show ?thesis by (simp add: rank_of_def n)
qed


subsection \<open>Samples\<close>

definition sample_axis :: "band \<Rightarrow> string list \<Rightarrow> haxis" where
  "sample_axis b flags = \<lparr>hx_value = Some (Fin 0), hx_band = b, hx_confidence = ConfHigh, hx_factors = [], hx_damage = None,
     hx_loss = None, hx_flags = flags, hx_disk = None\<rparr>"

definition disk_only :: "string list \<Rightarrow> axes" where
  "disk_only flags = [(''storage_risk'', sample_axis Good flags)]"

definition three_mechanisms :: axes where
  "three_mechanisms = [(''storage_risk'', sample_axis Watch []), (''disk_fill_risk'', sample_axis Watch []),
     (''network_risk'', sample_axis Watch [])]"

lemmas sample_defs = sample_axis_def disk_only_def three_mechanisms_def ax_def no_axis_def or_zero_def

lemma sample_percent:
  "seen_percent (snd (observability (disk_only flags) [] None None)) = 45"
  "seen_percent (snd (observability three_mechanisms [] None None)) = 45"
  "seen_percent (snd (observability [] [] None None)) = 0"
  by (simp_all add: observability_def obs_channels_def sample_defs points_of_def KEY_TRENDS_def MATURE_POINTS_def COHORT_MIN_def
    cohort_size_def seen_percent_def channel_percents_def Let_def)

lemma fround_zero: "fround (Suc 0) (Fin 0) = Fin 0"
  using fround_near[of "Fin 0" 0 0] by (simp add: near_def)

lemma fround_100: "fround (Suc 0) (fsub (Fin 100) (Fin 0)) = Fin 100"
  using fround_near[of "Fin 100" 100 0] rnd64_of_int[of 100] by (simp add: near_def fsub_def)

lemma dedup_singleton [simp]: "dedup [] = []" "dedup [x] = [x]"
  by (simp_all add: dedup_def)

lemma sample_damage:
  "cd_value (damage (disk_only flags)) = Some (Fin 0)" "cd_value (damage three_mechanisms) = Some (Fin 0)"
  "damage [] = no_coordinate" "cd_flags (damage (disk_only [])) = []" "cd_flags (damage three_mechanisms) = []"
  "cd_flags (damage (disk_only [''predict_fail''])) = [''predict_fail'']"
  by (simp_all add: damage_def damage_channels_def sample_defs fround_zero Let_def HARD_D_FLAGS_def)

lemma sample_resilience:
  "cd_value (fst (resilience (disk_only flags) [])) = Some (Fin 100)" "cd_value (fst (resilience three_mechanisms [])) = Some (Fin 100)"
  "cd_flags (fst (resilience (disk_only []) [])) = []" "cd_flags (fst (resilience three_mechanisms [])) = []"
  by (simp_all add: resilience_def resilience_channels_def storage_resilience_def worsens_def sample_defs py_min_def fround_100 Let_def)

lemma sample_raw:
  "raw_state (disk_only []) [] None None = H0" "raw_state three_mechanisms [] None None = H0" "raw_state [] [] None None = HUnknown"
  by (simp_all add: raw_state_def state_of_def all_flags_def o_value_percent sample_percent sample_damage sample_resilience
    any_flag_def at_most_def no_coordinate_def)

lemma sample_dominant: "snd (dominant three_mechanisms [])" "\<not> snd (dominant (disk_only flags) [])"
  by (simp_all add: dominant_def is_systemic_def raised_def material_mechanisms_def AXIS_TO_DOMINANT_def AXIS_MECHANISM_def
    get_or_key_def sample_defs)

lemma sample_flags: "all_flags (disk_only []) [] = []" "all_flags three_mechanisms [] = []" "all_flags [] [] = []"
  by (simp_all add: all_flags_def sample_damage sample_resilience)
    (simp add: resilience_def resilience_channels_def ax_def no_axis_def no_coordinate_def)

lemma sample_disk: "hx_disk (ax (disk_only flags) ''storage_risk'') = None" "hx_disk (ax three_mechanisms ''storage_risk'') = None"
  "hx_disk (ax [] ''storage_risk'') = None" "\<not> counters_flat []"
  by (simp_all add: sample_defs counters_flat_def FLAT_COUNTER_TRENDS_def)

lemma sample_quiet: "\<not> recovery_evidence (disk_only []) [] (Some p)" "\<not> recovery_evidence [] [] (Some p)"
  by (simp_all add: recovery_evidence_def replaced_def sample_flags sample_disk)

theorem hard_evidence_is_final_witness:
  "ve_state (compute_health (disk_only [''predict_fail'']) None [] None None None) = H4"
proof -
  have "any_flag (all_flags (disk_only [''predict_fail'']) []) H4_FLAGS"
    by (simp add: any_flag_def all_flags_def sample_damage H4_FLAGS_def)
  from hard_evidence_is_final[OF this _ refl] show ?thesis
    by (simp add: sample_damage verdict_observability sample_percent)
qed

theorem recovery_is_slow_witness:
  "the (STATE_ORDER (ve_state (compute_health (disk_only [''predict_fail'']) None [] None None None))) \<le>
   the (STATE_ORDER (ve_state (compute_health (disk_only []) None [] None None
     (Some (stored_health (compute_health (disk_only [''predict_fail'']) None [] None None None) (disk_only [''predict_fail''])))))) + 1"
proof -
  have r: "raw_state (disk_only [''predict_fail'']) [] None None \<noteq> HUnknown"
    by (simp add: raw_unknown o_value_percent sample_percent sample_damage)
  show ?thesis
    using recovery_is_slow[OF refl _ refl, where axes = "disk_only []" and trends = "[]" and bt = None and evs = None and cohort = None
      and ?v0.0 = "compute_health (disk_only [''predict_fail'']) None [] None None None" and ?axes0.0 = "disk_only [''predict_fail'']"] r
    by (simp add: verdict_parts floor_unknown held_state_def ratchet_unknown sample_raw replaced_def sample_disk)
qed

theorem memory_outlives_blind_cycles_witness:
  "\<exists>p s. health_run [(disk_only [], None, [], None, None)] None = Some p \<and>
    pv_state (fold health_cycle [([], None, [], None, None), (disk_only [], None, [], None, None)] p) = Some s \<and> s \<noteq> HUnknown \<and>
    rank_of (pv_last p) \<le> rank_of (Some s)"
proof -
  let ?p = "stored_health (compute_health (disk_only []) None [] None None None) (disk_only [])"
  let ?is = "[([], None, [], None, None), (disk_only [], None, [], None, None)] :: cycle_inputs list"
  have p: "health_run [(disk_only [], None, [], None, None)] None = Some ?p" by (simp add: health_run_def)
  have q: "health.all_quiet ?is ?p" by (simp add: quiet_cycle_def sample_quiet)
  obtain s where s: "pv_state (fold health_cycle ?is ?p) = Some s" by (simp add: health_cycle_def stored_state)
  have "s \<noteq> HUnknown" using s
    by (auto simp: health_cycle_def stored_state verdict_parts floor_unknown held_state_def ratchet_unknown sample_raw)
  with memory_outlives_blind_cycles[OF p q s] s p show ?thesis by blast
qed

text \<open>One memory is lost: a state that was raised because several mechanisms were at work at once is not the last known one. After a
  single blind cycle the device that was held at h2 is healthy again, with no evidence of recovery.\<close>
theorem blind_cycle_forgets_systemic_state:
  "(let v1 = compute_health three_mechanisms None [] None None None;
       v2 = compute_health [] None [] None None (Some (stored_health v1 three_mechanisms))
    in ve_state v1 = H2 \<and> ve_state v2 = HUnknown \<and>
       ve_state (compute_health (disk_only []) None [] None None (Some (stored_health v1 three_mechanisms))) = H2 \<and>
       ve_state (compute_health (disk_only []) None [] None None (Some (stored_health v2 []))) = H0)"
proof -
  define v1 where "v1 = compute_health three_mechanisms None [] None None None"
  have v1: "ve_state v1 = H2" "ve_last_known v1 = Some H0"
    by (simp_all add: v1_def verdict_parts held_state_def sample_raw ratchet_def floor_state_def sample_dominant)
  define v2 where "v2 = compute_health [] None [] None None (Some (stored_health v1 three_mechanisms))"
  have v2: "ve_state v2 = HUnknown" "ve_last_known v2 = Some H0"
    by (simp_all add: v2_def verdict_parts held_state_def sample_raw ratchet_def floor_state_def stored_state v1)
  show ?thesis unfolding v1_def[symmetric] Let_def v2_def[symmetric] using v1 v2
    by (simp add: verdict_parts held_state_def sample_raw ratchet_def floor_state_def stored_health_def remembered_def sample_dominant
      replaced_def sample_disk sample_flags)
qed

subsection \<open>The defensive clamp\<close>

definition not_above :: "pyfloat \<Rightarrow> int \<Rightarrow> bool" where
  \<comment> \<open>not above, or no number\<close>
  "not_above x b \<longleftrightarrow> x = NaN \<or> fle x (Fin (of_int b))"

lemma not_above_fround: "not_above x b \<Longrightarrow> \<bar>b\<bar> < 2 ^ 53 \<Longrightarrow> not_above (fround n x) b"
  unfolding not_above_def using fround_weight[of x b n] by (auto simp: fround_def)

lemma not_above_rnd64: "q \<le> of_int b \<Longrightarrow> \<bar>b\<bar> < 2 ^ 53 \<Longrightarrow> not_above (rnd64 q) b"
  using rnd64_fle[of q "of_int b"] rnd64_of_int[of b] by (simp add: not_above_def)

lemma not_above_fadd: "not_above x a \<Longrightarrow> not_above y b \<Longrightarrow> \<bar>a + b\<bar> < 2 ^ 53 \<Longrightarrow> not_above (fadd x y) (a + b)"
  by (cases x; cases y) (auto simp: not_above_def[of "Fin _"] intro!: not_above_rnd64, auto simp: not_above_def)

lemma not_above_fmul: "not_above x a \<Longrightarrow> 0 < c \<Longrightarrow> of_int a * c \<le> of_int b \<Longrightarrow> \<bar>b\<bar> < 2 ^ 53 \<Longrightarrow> not_above (fmul x (Fin c)) b"
proof (cases x)
  case (Fin q)
  assume "not_above x a" "0 < c" "of_int a * c \<le> of_int b" "\<bar>b\<bar> < 2 ^ 53"
  then have "q * c \<le> of_int b" using Fin by (auto simp: not_above_def intro: order_trans[OF mult_right_mono])
  then show ?thesis using Fin \<open>\<bar>b\<bar> < 2 ^ 53\<close> by (simp add: not_above_rnd64)
qed (auto simp: not_above_def sign_inf_def)

lemma not_above_fdiv: "not_above x a \<Longrightarrow> 0 < c \<Longrightarrow> of_int a / c \<le> of_int b \<Longrightarrow> \<bar>b\<bar> < 2 ^ 53 \<Longrightarrow> not_above (fdiv_by x c) b"
proof (cases x)
  case (Fin q)
  assume "not_above x a" "0 < c" "of_int a / c \<le> of_int b" "\<bar>b\<bar> < 2 ^ 53"
  then have "q / c \<le> of_int b" using Fin by (auto simp: not_above_def intro: order_trans[OF divide_right_mono])
  then show ?thesis using Fin \<open>\<bar>b\<bar> < 2 ^ 53\<close> by (simp add: not_above_rnd64)
qed (auto simp: not_above_def sign_inf_def)

lemma not_above_max: "not_above x b \<Longrightarrow> not_above y b \<Longrightarrow> not_above (py_max x y) b"
  by (simp add: py_max_def)

lemma not_above_mono: "not_above x a \<Longrightarrow> a \<le> b \<Longrightarrow> not_above x b"
  unfolding not_above_def using fle_trans[of x "Fin (of_int a)" "Fin (of_int b)"] by auto

lemma decimal_weights: "\<exists>c. rnd64 (7 / 10) = Fin c \<and> 0 < c \<and> c \<le> 23 / 32" "\<exists>c. rnd64 (3 / 10) = Fin c \<and> 0 < c \<and> c \<le> 10 / 32"
proof -
  show "\<exists>c. rnd64 (7 / 10) = Fin c \<and> 0 < c \<and> c \<le> 23 / 32"
    using rnd64_pos[of "7 / 10"] rnd64_fle[of "7 / 10" "23 / 32"] rnd64_fraction[of 23 5] by auto
  show "\<exists>c. rnd64 (3 / 10) = Fin c \<and> 0 < c \<and> c \<le> 10 / 32"
    using rnd64_pos[of "3 / 10"] rnd64_fle[of "3 / 10" "10 / 32"] rnd64_fraction[of 10 5] by auto
qed

lemma fmul_commute: "fmul x y = fmul y x"
  by (cases x; cases y) (auto simp: sign_inf_def mult.commute)

lemma fround_atleast: "fle (Fin (of_int a)) x \<Longrightarrow> \<bar>a\<bar> < 2 ^ 53 \<Longrightarrow> fle (Fin (of_int a)) (fround n x)"
proof (cases x)
  case (Fin q)
  assume x: "fle (Fin (of_int a)) x" and a: "\<bar>a\<bar> < 2 ^ 53"
  then have "half_even (of_int (a * 10 ^ n)) \<le> half_even (q * 10 ^ n)" using Fin by (intro half_even_mono) simp
  then have "(of_int (a * 10 ^ n) :: rat) \<le> of_int (half_even (q * 10 ^ n))" unfolding half_even_of_int by (simp only: of_int_le_iff)
  then have "fle (rnd64 (of_int a)) (rnd64 (of_int (half_even (q * 10 ^ n)) / 10 ^ n))" by (intro rnd64_fle) (simp add: pos_le_divide_eq)
  then show ?thesis using Fin rnd64_of_int[OF a] by (simp add: fround_def)
qed (simp_all add: fround_def)

lemma clamp_above:
  assumes "y = NaN \<or> fle (Fin 62) y"
  shows "\<exists>q. clamp y 0 100 = Fin q \<and> 62 \<le> q"
  using assms by (cases y) (auto simp: clamp_def py_max_def py_min_def)

lemma index_of_healthy:
  assumes "not_above d 15" "pred_option (\<lambda>x. not_above x 40) r" "health_index (Some d) r ov = Some i"
  shows "flt (fsub (Fin 100) i) (Fin 40)"
proof -
  obtain c1 c2 where c: "rnd64 (7 / 10) = Fin c1" "0 < c1" "c1 \<le> 23 / 32" "rnd64 (3 / 10) = Fin c2" "0 < c2" "c2 \<le> 10 / 32"
    using decimal_weights by blast
  define known where "known = List.map_filter (\<lambda>x. x) [Some d, r]"
  have zero: "not_above (Fin 0) 0" by (simp add: not_above_def)
  have "not_above (fmax_of known) 40 \<and> not_above (fdiv_by (foldl fadd (Fin 0) known) (of_nat (length known))) 28"
  proof (cases r)
    case None
    have "not_above (fdiv_by (fadd (Fin 0) d) 1) 28"
      using not_above_fdiv[OF not_above_fadd[OF zero assms(1)], of 1 28] by simp
    then show ?thesis using None not_above_mono[OF assms(1)] by (simp add: known_def List.map_filter_simps)
  next
    case (Some x)
    then have x: "not_above x 40" using assms(2) by simp
    have "not_above (fdiv_by (fadd (fadd (Fin 0) d) x) 2) 28"
      using not_above_fdiv[OF not_above_fadd[OF not_above_fadd[OF zero assms(1)] x], of 2 28] by simp
    then show ?thesis using Some not_above_max[OF not_above_mono[OF assms(1)] x] by (simp add: known_def List.map_filter_simps)
  qed
  then have "not_above (fmul (Fin c1) (fmax_of known)) 29" "not_above (fmul (Fin c2) (fdiv_by (foldl fadd (Fin 0) known) (of_nat (length known)))) 9"
    using c not_above_fmul[of "fmax_of known" 40 c1 29] not_above_fmul[of "fdiv_by (foldl fadd (Fin 0) known) (of_nat (length known))" 28 c2 9]
    by (simp_all add: fmul_commute[of "Fin _"])
  from not_above_fround[OF not_above_fadd[OF this], of 1] have l: "not_above (fround 1 (fadd (fmul (Fin c1) (fmax_of known))
      (fmul (Fin c2) (fdiv_by (foldl fadd (Fin 0) known) (of_nat (length known)))))) 38" (is "not_above ?l 38") by simp
  have i: "i = clamp (fround 1 (fsub (Fin 100) ?l)) 0 100"
  proof -
    have "known \<noteq> []" by (simp add: known_def List.map_filter_simps)
    then show ?thesis using assms(3) unfolding health_index_def known_def[symmetric] Let_def c(1,4) by (simp split: if_splits)
  qed
  have "fround 1 (fsub (Fin 100) ?l) = NaN \<or> fle (Fin 62) (fround 1 (fsub (Fin 100) ?l))"
  proof (cases "?l = NaN")
    case False
    then have "fle (Fin (of_int 62)) (fsub (Fin 100) ?l)"
      using l rnd64_fle[of "of_int 62"] rnd64_of_int[of 62] by (cases ?l) (auto simp: not_above_def fsub_def)
    from fround_atleast[OF this, of 1] show ?thesis by simp
  qed (simp add: fsub_def fround_def)
  from clamp_above[OF this] obtain q where "i = Fin q" "62 \<le> q" unfolding i by blast
  then have "fle (rnd64 (100 - q)) (rnd64 (of_int 38))" by (intro rnd64_fle) simp
  then show ?thesis using \<open>i = Fin q\<close> rnd64_of_int[of 38] by (cases "rnd64 (100 - q)") (simp_all add: fsub_def)
qed

lemma healthy_raw:
  assumes "raw_state axes trends evs cohort = H0"
  shows "\<exists>d. cd_value (damage axes) = Some d \<and> not_above d 15 \<and>
    pred_option (\<lambda>x. not_above x 40) (map_option (\<lambda>v. fround 1 (fsub (Fin 100) v)) (cd_value (fst (resilience axes trends))))"
proof -
  from assms obtain d where d: "cd_value (damage axes) = Some d" "\<not> fle (Fin 15) d" "\<not> at_most (cd_value (fst (resilience axes trends))) 60"
    by (auto simp: raw_state_def state_of_def Let_def split: if_splits)
  have "not_above (fsub (Fin 100) v) 40" if "\<not> fle v (Fin 60)" for v
    using that by (cases v) (auto simp: fsub_def not_above_def[of NaN] not_above_def[of NInf] intro: not_above_rnd64)
  then have "pred_option (\<lambda>x. not_above x 40) (map_option (\<lambda>v. fround 1 (fsub (Fin 100) v)) (cd_value (fst (resilience axes trends))))"
    using d(3) by (auto simp: at_most_def option.pred_map intro!: not_above_fround split: option.splits)
  moreover have "not_above d 15" using d(2) by (cases d) (auto simp: not_above_def)
  ultimately show ?thesis using d(1) by blast
qed

lemma rank_healthy: "RANK_STATE k = H0 \<longleftrightarrow> k = 0"
  by simp

lemma ratchet_healthy:
  assumes "ratchet s prev flags trends disk = H0"
  shows "s = H0"
proof (cases "STATE_ORDER s")
  case (Some n)
  have "s = H0 \<or> n = 0"
    using assms Some rank_healthy by (auto simp: ratchet_def simp del: RANK_STATE.simps split: option.splits if_splits)
  then show ?thesis using rank_state[OF Some] by auto
qed (use assms in \<open>simp add: ratchet_def\<close>)

lemma held_healthy:
  assumes "held_state axes trends evs cohort prev = H0"
  shows "raw_state axes trends evs cohort = H0"
  using assms ratchet_healthy unfolding held_state_def by metis

text \<open>The clamp against a bad colour on a healthy device never fires: a healthy state leaves an index of 62 or more.\<close>
theorem healthy_clamp_never_fires:
  "HL_Clamp \<notin> set (map hf_label (snd (reconcile_band (ve_state (compute_health axes bt trends evs cohort prev))
     (ve_index (compute_health axes bt trends evs cohort prev)) (o_value axes trends evs cohort))))"
proof -
  let ?v = "compute_health axes bt trends evs cohort prev"
  have "band_for_risk_score (Some (fsub (Fin 100) i)) \<noteq> Bad" if h: "ve_state ?v = H0" and i: "ve_index ?v = Some i" for i
  proof -
    have "held_state axes trends evs cohort prev = H0"
      using h by (auto simp: verdict_parts floor_state_def split: if_splits)
    from healthy_raw[OF held_healthy[OF this]] obtain d where "cd_value (damage axes) = Some d" "not_above d 15"
      "pred_option (\<lambda>x. not_above x 40) (map_option (\<lambda>v. fround 1 (fsub (Fin 100) v)) (cd_value (fst (resilience axes trends))))" by blast
    then have "flt (fsub (Fin 100) i) (Fin 40)"
      using i by (intro index_of_healthy[of d _ "o_value axes trends evs cohort"]) (simp_all add: verdict_parts)
    then show ?thesis by (simp add: band_for_risk_score_def)
  qed
  then show ?thesis by (auto simp: reconcile_band_def Let_def split: option.splits if_splits)
qed

subsection \<open>Aged verdicts\<close>

text \<open>Age only takes confidence away: after ten days nothing is claimed, after three nothing with more than low confidence, and before
  that the verdict is shown as it was stored; the coordinates never change.  Only a stamp without a zone raises.\<close>
theorem aged_verdicts_lose_confidence:
  assumes "parse_dt ts = Some t" "ts \<noteq> ''''"
  shows "(utc_offset t = None \<longleftrightarrow> apply_health_staleness h (Some ts) now = Inl TypeError) \<and>
    (\<forall>h'. apply_health_staleness h (Some ts) now = Inr h' \<longrightarrow>
      ve_damage h' = ve_damage h \<and> ve_resilience h' = ve_resilience h \<and> ve_observability h' = ve_observability h \<and>
      (if 10 * day_us < now - as_utc t then ve_state h' = HUnknown \<and> ve_band h' = NoBand \<and> ve_confidence h' = NoConf
       else if 3 * day_us < now - as_utc t then ve_confidence h' = ConfLow \<and> ve_state h' = ve_state h
       else h' = h))"
  using assms by (auto simp: apply_health_staleness_def health_staleness_def Let_def split: if_splits)

theorem aged_verdicts_lose_confidence_witness:
  "apply_health_staleness (compute_health [] None [] None None None) (Some ''1970-01-01T00:00:00'') 0 = Inl TypeError"
proof -
  have "fromisoformat (replace_Z (strip ''1970-01-01T00:00:00'')) = Inr (Stamp 0 None)" by (rule second_stamps)
  then have "parse_dt ''1970-01-01T00:00:00'' = Some (Stamp 0 None)" by (simp add: parse_dt_def)
  from aged_verdicts_lose_confidence[OF this, of "compute_health [] None [] None None None" 0] show ?thesis by simp
qed

end
