(* ===== verification/ErrChain.thy ===== *)
theory ErrChain imports Trends begin

text \<open>
  The event chain of \<open>server/analytics/errchain.py\<close>: how far the disk errors in a machine's event log have
  escalated (retries, damage, damage and then a crash), whether they come in clusters, and in how many calendar
  weeks they came.  Events are rows of the database; time is the stamp the server gave them on receipt.
  \<open>statistics.stdev\<close> is a parameter: its last bit differs between the versions of the interpreter.
\<close>

subsection \<open>Calendar weeks\<close>

definition jan1 :: "int \<Rightarrow> int" where
  "jan1 y = epoch_day y 1 1"

definition year_of_day :: "int \<Rightarrow> int" where
  \<comment> \<open>the year of a day counted from 1970, by cycles of 400, 100, 4 and 1 years, as \<open>datetime\<close> computes it\<close>
  "year_of_day d =
     (let n = d + 719162; a = n div 146097; n = n mod 146097; b = n div 36524; n = n mod 36524;
          c = n div 1461; n = n mod 1461; e = n div 365; y = 400 * a + 100 * b + 4 * c + e + 1
      in if e = 4 \<or> b = 4 then y - 1 else y)"

definition week1_monday :: "int \<Rightarrow> int" where
  \<comment> \<open>the Monday of the week that has the first Thursday of the year\<close>
  "week1_monday y = (let f = jan1 y; wd = (f + 3) mod 7; m = f - wd in if 3 < wd then m + 7 else m)"

definition iso_week :: "int \<Rightarrow> int \<times> int" where
  \<comment> \<open>\<open>date.isocalendar()[0]\<close> and \<open>[1]\<close>\<close>
  "iso_week d =
     (let y = year_of_day d; week = (d - week1_monday y) div 7
      in if week < 0 then (y - 1, (d - week1_monday (y - 1)) div 7 + 1)
         else if 52 \<le> week \<and> week1_monday (y + 1) \<le> d then (y + 1, 1)
         else (y, week + 1))"

subsection \<open>Events\<close>

definition STORAGE_EARLY :: "int list" where "STORAGE_EARLY = [153, 129]"
definition STORAGE_DAMAGE :: "int list" where "STORAGE_DAMAGE = [55, 7, 51]"
definition CRASH :: "int list" where "CRASH = [41, 1001, 6008]"
definition STORAGE_SOURCES :: "string list" where "STORAGE_SOURCES = [''disk'', ''storahci'', ''stornvme'', ''Ntfs'']"
definition APP_HANG_ID :: int where "APP_HANG_ID = 1002"
definition WINDOW_DAYS :: int where "WINDOW_DAYS = 30"
definition RECURRENCE_MAX_GAP_DAYS :: int where "RECURRENCE_MAX_GAP_DAYS = 7"
definition MIN_BURSTINESS_EVENTS :: nat where "MIN_BURSTINESS_EVENTS = 4"

datatype event_kind = EvEarly | EvDamage | EvCrash | EvHang

definition aware :: "stamp \<Rightarrow> stamp" where
  \<comment> \<open>\<open>dt if dt.tzinfo else dt.replace(tzinfo=timezone.utc)\<close>\<close>
  "aware t = Stamp (local_us t) (Some (case utc_offset t of None \<Rightarrow> 0 | Some z \<Rightarrow> z))"

definition parse_received_at :: "jval \<Rightarrow> stamp option" where
  "parse_received_at v = (case v of
       JStr s \<Rightarrow> if s = [] then None else (case fromisoformat (replace_Z s) of Inr t \<Rightarrow> Some (aware t) | Inl _ \<Rightarrow> None)
     | _ \<Rightarrow> None)"

definition in_sources :: "jval \<Rightarrow> bool res" where
  \<comment> \<open>\<open>source in _STORAGE_SOURCES\<close>, which hashes the value\<close>
  "in_sources v = (case v of JStr s \<Rightarrow> Inr (s \<in> set STORAGE_SOURCES) | JList _ \<Rightarrow> Inl TypeError | JObj _ \<Rightarrow> Inl TypeError
     | _ \<Rightarrow> Inr False)"

definition event_kind_of :: "int \<Rightarrow> jval \<Rightarrow> event_kind option res" where
  "event_kind_of eid source =
     (if eid \<in> set CRASH then Inr (Some EvCrash)
      else if eid = APP_HANG_ID then Inr (Some EvHang)
      else bindE (in_sources source) (\<lambda>b. Inr (if b \<and> eid \<in> set STORAGE_EARLY then Some EvEarly
        else if b \<and> eid \<in> set STORAGE_DAMAGE then Some EvDamage else None)))"

definition read_event :: "int \<Rightarrow> jobj \<Rightarrow> (event_kind \<times> stamp) option res" where
  \<comment> \<open>one round of the loop: None for an event that is skipped\<close>
  "read_event now e =
     (case parse_received_at (jget e ''received_at'') of None \<Rightarrow> Inr None
      | Some ts \<Rightarrow>
          if as_utc ts < now - WINDOW_DAYS * day_us then Inr None
          else if jget e ''event_id'' = JNull then Inr None
          else (case int_of_raw (jget e ''event_id'') of
              Inl err \<Rightarrow> if err = TypeError \<or> err = ValueError then Inr None else Inl err
            | Inr eid \<Rightarrow> bindE (event_kind_of eid (jget e ''source'')) (\<lambda>k. Inr (map_option (\<lambda>k. (k, ts)) k))))"

definition read_events :: "int \<Rightarrow> jobj list \<Rightarrow> (event_kind \<times> stamp) list res" where
  "read_events now events = bindE (mapE (read_event now) events) (\<lambda>ks. Inr (List.map_filter (\<lambda>k. k) ks))"

definition stamps_of :: "event_kind \<Rightarrow> (event_kind \<times> stamp) list \<Rightarrow> stamp list" where
  "stamps_of k ks = map snd (filter (\<lambda>e. fst e = k) ks)"

subsection \<open>Stage, clusters, weeks\<close>

datatype chain_fact = CF_DamageThenCrash | CF_Damage nat | CF_Early nat | CF_Clustered pyfloat | CF_Weeks nat

record err_chain =
  ec_stage :: nat
  ec_burstiness :: "pyfloat option"
  ec_weeks :: nat
  ec_counts :: "(string, nat) dict"
  ec_factors :: "chain_fact list"

definition soon_after :: "stamp \<Rightarrow> stamp \<Rightarrow> bool" where
  \<comment> \<open>\<open>0 <= (c - d).total_seconds() <= 7 * 86400\<close>\<close>
  "soon_after d c \<longleftrightarrow> (let gap = total_seconds (as_utc c - as_utc d)
     in fle (Fin 0) gap \<and> fle gap (Fin (of_int (RECURRENCE_MAX_GAP_DAYS * 86400))))"

definition stage_of :: "stamp list \<Rightarrow> stamp list \<Rightarrow> stamp list \<Rightarrow> nat \<times> chain_fact list" where
  "stage_of early damage crash =
     (if damage \<noteq> [] \<and> list_ex (\<lambda>d. list_ex (soon_after d) crash) damage then (3, [CF_DamageThenCrash])
      else if damage \<noteq> [] then (2, [CF_Damage (length damage)])
      else if early \<noteq> [] then (1, [CF_Early (length early)])
      else (0, []))"

fun gaps_of :: "stamp list \<Rightarrow> pyfloat list" where
  "gaps_of (a # b # ts) = total_seconds (as_utc b - as_utc a) # gaps_of (b # ts)"
| "gaps_of _ = []"

definition exact :: "pyfloat \<Rightarrow> rat" where
  "exact x = (case x of Fin q \<Rightarrow> q | _ \<Rightarrow> 0)"

definition fmean :: "pyfloat list \<Rightarrow> pyfloat" where
  \<comment> \<open>\<open>math.fsum(xs) / n\<close> of finite numbers: the exact sum, rounded once\<close>
  "fmean xs = fdiv_by (rnd64 (sum_list (map exact xs))) (of_nat (length xs))"

definition burstiness_of :: "(pyfloat list \<Rightarrow> pyfloat) \<Rightarrow> stamp list \<Rightarrow> pyfloat option" where
  "burstiness_of stdev ts =
     (if length ts < MIN_BURSTINESS_EVENTS then None
      else let gaps = gaps_of ts; mean_gap = fmean gaps
        in if flt (Fin 0) mean_gap then Some (fdiv (stdev gaps) mean_gap) else None)"

definition week_of :: "stamp \<Rightarrow> int \<times> int" where
  \<comment> \<open>in the zone of the stamp\<close>
  "week_of t = iso_week (local_us t div day_us)"

definition rollup_week :: "jobj \<Rightarrow> (int \<times> int) option res" where
  \<comment> \<open>one round of \<open>_iso_weeks_from_rollups\<close>\<close>
  "rollup_week row =
     (let key = jget row ''event_key''; day = jget row ''day''
      in if \<not> truthy key \<or> \<not> truthy day \<or> \<not> truthy (jget row ''n'') then Inr None
      else case key of
        JStr s \<Rightarrow>
          if takeWhile (\<lambda>c. c \<noteq> CHR '':'') s \<notin> set STORAGE_SOURCES then Inr None
          else (case py_int (drop 1 (dropWhile (\<lambda>c. c \<noteq> CHR '':'') s)) of
              Inl _ \<Rightarrow> Inr None
            | Inr eid \<Rightarrow>
                if eid \<notin> set STORAGE_EARLY \<and> eid \<notin> set STORAGE_DAMAGE then Inr None
                else (case day of
                    JStr d \<Rightarrow> (case fromisoformat d of Inl _ \<Rightarrow> Inr None | Inr t \<Rightarrow> Inr (Some (week_of t)))
                  | _ \<Rightarrow> Inl TypeError))
      | _ \<Rightarrow> Inl AttributeError)"

definition rollup_weeks :: "jobj list \<Rightarrow> (int \<times> int) list res" where
  "rollup_weeks rows = bindE (mapE rollup_week rows) (\<lambda>ws. Inr (List.map_filter (\<lambda>w. w) ws))"

definition chain_of :: "(pyfloat list \<Rightarrow> pyfloat) \<Rightarrow> (event_kind \<times> stamp) list \<Rightarrow> (int \<times> int) list \<Rightarrow> err_chain" where
  "chain_of stdev ks rolled =
     (let early = stamps_of EvEarly ks; damage = stamps_of EvDamage ks; crash = stamps_of EvCrash ks;
          (stage, fs) = stage_of early damage crash;
          ts = sort_key as_utc (early @ damage);
          burst = burstiness_of stdev ts;
          weeks = length (remdups (map week_of ts @ rolled))
      in \<lparr>ec_stage = stage, ec_burstiness = burst, ec_weeks = weeks,
          ec_counts = [(''early'', length early), (''damage'', length damage), (''crash'', length crash),
            (''app_hang'', length (stamps_of EvHang ks))],
          ec_factors = fs @ (case burst of None \<Rightarrow> [] | Some b \<Rightarrow> if flt (Fin 2) b then [CF_Clustered b] else [])
            @ (if 2 \<le> weeks then [CF_Weeks weeks] else [])\<rparr>)"

definition analyze_events :: "(pyfloat list \<Rightarrow> pyfloat) \<Rightarrow> jobj list \<Rightarrow> int \<Rightarrow> jobj list option \<Rightarrow> err_chain res" where
  "analyze_events stdev events now rollups =
     bindE (read_events now events) (\<lambda>ks.
     bindE (case rollups of None \<Rightarrow> Inr [] | Some rows \<Rightarrow> rollup_weeks rows) (\<lambda>rolled.
     Inr (chain_of stdev ks rolled)))"

subsection \<open>The calendar\<close>

lemma jan1_def2: "jan1 y = 365 * (y - 1) + (y - 1) div 4 - (y - 1) div 100 + (y - 1) div 400 - 719162"
  by (simp add: jan1_def epoch_day_def days_before_year_def days_before_month_def)

lemma jan1_next: "jan1 y + 365 \<le> jan1 (y + 1)"
proof -
  define m where "m = y - 1"
  have y: "jan1 (y + 1) - jan1 y = 365 + ((m + 1) div 4 - m div 4) - ((m + 1) div 100 - m div 100) + ((m + 1) div 400 - m div 400)"
    by (simp add: jan1_def2 m_def)
  have up: "m div 400 \<le> (m + 1) div 400" "m div 4 \<le> (m + 1) div 4" by (rule zdiv_mono1; simp)+
  show ?thesis
  proof (cases "(m + 1) div 100 = m div 100")
    case False
    define q r where "q = m div 100" and "r = m mod 100"
    then have m: "m = 100 * q + r" "0 \<le> r" "r < 100" by simp_all
    have "r = 99"
    proof (rule ccontr)
      assume "r \<noteq> 99"
      then have "(m + 1) div 100 = q" using m by (intro int_div_pos_eq[of _ _ _ "r + 1"]) auto
      then show False using False q_def by simp
    qed
    then have "m = 4 * (25 * q + 24) + 3" "m + 1 = 4 * (25 * q + 25) + 0" "m + 1 = 100 * (q + 1) + 0" using m by simp_all
    then have "m div 4 = 25 * q + 24" "(m + 1) div 4 = 25 * q + 25" "(m + 1) div 100 = q + 1"
      using int_div_pos_eq[of m 4 "25 * q + 24" 3] int_div_pos_eq[of "m + 1" 4 "25 * q + 25" 0]
        int_div_pos_eq[of "m + 1" 100 "q + 1" 0] by simp_all
    then show ?thesis using y up q_def by simp
  qed (use y up in simp)
qed

lemma jan1_split:
  assumes "0 \<le> b" "b \<le> 3" "0 \<le> c" "c \<le> 24" "0 \<le> e" "e \<le> 3"
  shows "jan1 (400 * a + 100 * b + 4 * c + e + 1) = 146097 * a + 36524 * b + 1461 * c + 365 * e - 719162"
proof -
  let ?y = "400 * a + 100 * b + 4 * c + e"
  have "?y div 4 = 100 * a + 25 * b + c" "?y div 100 = 4 * a + b" "?y div 400 = a"
    using assms by (auto intro!: int_div_pos_eq[of _ _ _ e] int_div_pos_eq[of _ _ _ "4 * c + e"] int_div_pos_eq[of _ _ _ "100 * b + 4 * c + e"])
  then show ?thesis by (simp add: jan1_def2)
qed

lemma year_of_day: "jan1 (year_of_day d) \<le> d \<and> d < jan1 (year_of_day d + 1)"
proof -
  define n where "n = d + 719162"
  define a r1 where "a = n div 146097" and "r1 = n mod 146097"
  define b r2 where "b = r1 div 36524" and "r2 = r1 mod 36524"
  define c r3 where "c = r2 div 1461" and "r3 = r2 mod 1461"
  define e r4 where "e = r3 div 365" and "r4 = r3 mod 365"
  have n: "n = 146097 * a + 36524 * b + 1461 * c + 365 * e + r4"
    by (simp add: a_def r1_def b_def r2_def c_def r3_def e_def r4_def)
  have r: "0 \<le> r1" "r1 \<le> 146096" "0 \<le> r2" "r2 \<le> 36523" "0 \<le> r3" "r3 \<le> 1460" "0 \<le> r4" "r4 \<le> 364"
    by (simp_all add: r1_def r2_def r3_def r4_def)
  have eqs: "r1 = 36524 * b + r2" "r2 = 1461 * c + r3" "r3 = 365 * e + r4"
    by (simp_all add: b_def r2_def c_def r3_def e_def r4_def)
  have bounds: "0 \<le> b" "b \<le> 4" "0 \<le> c" "c \<le> 24" "0 \<le> e" "e \<le> 4" using eqs r by linarith+
  let ?y = "400 * a + 100 * b + 4 * c + e + 1"
  have y: "year_of_day d = (if e = 4 \<or> b = 4 then ?y - 1 else ?y)"
    by (simp add: year_of_day_def Let_def n_def a_def r1_def b_def r2_def c_def r3_def e_def)
  have d: "d = n - 719162" by (simp add: n_def)
  consider "b = 4" | "b \<le> 3" "e = 4" | "b \<le> 3" "e \<le> 3" using bounds by linarith
  then show ?thesis
  proof cases
    case 1
    then have z: "r2 = 0" "c = 0" "e = 0" "r4 = 0" using eqs r bounds by linarith+
    have "jan1 (400 * a + 400) = 146097 * a + 145731 - 719162"
      using jan1_split[of 3 24 3 a] by (simp add: algebra_simps)
    moreover have "jan1 (400 * a + 400 + 1) = 146097 * a + 146097 - 719162" using jan1_split[of 0 0 0 "a + 1"] by (simp add: algebra_simps)
    moreover have "year_of_day d = 400 * a + 400" "d = 146097 * a + 146096 - 719162" using y 1 z n d by simp_all
    ultimately show ?thesis by simp
  next
    case 2
    then have "c \<le> 23" using eqs r bounds by linarith
    have "r4 = 0" using eqs r 2 by linarith
    have "jan1 (400 * a + 100 * b + 4 * c + 3 + 1) = 146097 * a + 36524 * b + 1461 * c + 1095 - 719162"
      "jan1 (400 * a + 100 * b + 4 * (c + 1) + 0 + 1) = 146097 * a + 36524 * b + 1461 * (c + 1) - 719162"
      using 2 \<open>c \<le> 23\<close> bounds jan1_split[of b c 3 a] jan1_split[of b "c + 1" 0 a] by simp_all
    moreover have "year_of_day d = 400 * a + 100 * b + 4 * c + 3 + 1" "d = 146097 * a + 36524 * b + 1461 * c + 1460 - 719162"
      using y 2 n d \<open>r4 = 0\<close> by simp_all
    moreover have next_year: "400 * a + 100 * b + 4 * c + 3 + 1 + 1 = 400 * a + 100 * b + 4 * (c + 1) + 0 + 1" by simp
    ultimately show ?thesis by (simp only: next_year) simp
  next
    case 3
    then have "jan1 ?y = 146097 * a + 36524 * b + 1461 * c + 365 * e - 719162" using bounds by (intro jan1_split) auto
    then show ?thesis using y 3 n d r jan1_next[of ?y] by simp
  qed
qed

lemma week1_monday: "week1_monday y mod 7 = 4" "jan1 y - 3 \<le> week1_monday y" "week1_monday y \<le> jan1 y + 3"
  unfolding week1_monday_def Let_def by (simp_all split: if_splits) presburger+

lemma week1_multiple: "\<exists>j. week1_monday y = 7 * j + 4"
  by (rule exI[of _ "week1_monday y div 7"]) (use week1_monday(1)[of y] mult_div_mod_eq[of 7 "week1_monday y"] in linarith)

lemma week1_next: "week1_monday y + 364 \<le> week1_monday (y + 1)"
  
proof -
  obtain j k where jk: "week1_monday y = 7 * j + 4" "week1_monday (y + 1) = 7 * k + 4" using week1_multiple by meson
  have "week1_monday y + 359 \<le> week1_monday (y + 1)"
    using week1_monday(3)[of y] week1_monday(2)[of "y + 1"] jan1_next[of y] by simp
  then have "7 * j + 359 \<le> 7 * k" by (simp add: jk)
  then have "j + 52 \<le> k" by arith
  then show ?thesis by (simp add: jk)
qed

lemma iso_week_spec:
  "\<exists>y. iso_week d = (y, (d - week1_monday y) div 7 + 1) \<and> week1_monday y \<le> d \<and> d < week1_monday (y + 1)"
proof -
  define y where "y = year_of_day d"
  have d: "jan1 y \<le> d" "d < jan1 (y + 1)" using year_of_day[of d] by (simp_all add: y_def)
  let ?w = "(d - week1_monday y) div 7"
  consider "?w < 0" | "52 \<le> ?w" "week1_monday (y + 1) \<le> d" | "0 \<le> ?w" "\<not> (52 \<le> ?w \<and> week1_monday (y + 1) \<le> d)" by linarith
  then show ?thesis
  proof cases
    case 1
    then have "d < week1_monday y" "week1_monday (y - 1) \<le> d"
      using d week1_monday(3)[of "y - 1"] jan1_next[of "y - 1"] by (auto simp: div_less_iff_less_mult)
    then show ?thesis using 1 by (intro exI[of _ "y - 1"]) (simp add: iso_week_def y_def[symmetric] Let_def)
  next
    case 2
    have "d < week1_monday (y + 1) + 7" using d(2) week1_monday(2)[of "y + 1"] by simp
    moreover from this have "(d - week1_monday (y + 1)) div 7 = 0" using 2 by simp
    moreover have "week1_monday (y + 1) + 364 \<le> week1_monday (y + 1 + 1)" by (rule week1_next)
    ultimately show ?thesis using 2 by (intro exI[of _ "y + 1"]) (simp add: iso_week_def y_def[symmetric] Let_def)
  next
    case 3
    have "d < week1_monday (y + 1)"
    proof (rule ccontr)
      assume "\<not> d < week1_monday (y + 1)"
      then have "week1_monday (y + 1) \<le> d" by simp
      moreover from this have "52 * 7 \<le> d - week1_monday y" using week1_next[of y] by simp
      then have "52 \<le> (d - week1_monday y) div 7" using zdiv_mono1[of "52 * 7" "d - week1_monday y" 7] by simp
      ultimately show False using 3(2) by simp
    qed
    moreover have "week1_monday y \<le> d" using 3(1) by (simp add: pos_imp_zdiv_nonneg_iff)
    ultimately show ?thesis using 3 by (intro exI[of _ y]) (auto simp: iso_week_def y_def[symmetric] Let_def)
  qed
qed

lemma week1_mono: "x < y \<Longrightarrow> week1_monday (x + 1) \<le> week1_monday y"
proof (induction "nat (y - x)" arbitrary: y)
  case (Suc k)
  show ?case
  proof (cases "y = x + 1")
    case False
    then have "week1_monday (x + 1) \<le> week1_monday (y - 1)" using Suc by (intro Suc.hyps) auto
    then show ?thesis using week1_next[of "y - 1"] by simp
  qed simp
qed simp

lemma week_shift: "(k - week1_monday y) div 7 = (k + 3) div 7 - (week1_monday y + 3) div 7"
proof -
  obtain j where j: "week1_monday y = 7 * j + 4" using week1_multiple by blast
  have "k - (7 * j + 4) = (k + 3) + 7 * (- (j + 1))" by simp
  then have "(k - (7 * j + 4)) div 7 = (k + 3) div 7 - (j + 1)" by (simp only: div_mult_self2)
  moreover have "(7 * j + 4 + 3) div 7 = j + 1" by simp
  ultimately show ?thesis by (simp add: j)
qed

lemma week_apart:
  assumes "d < week1_monday y" "week1_monday y \<le> d'"
  shows "(d + 3) div 7 < (d' + 3) div 7"
proof -
  obtain j where "week1_monday y = 7 * j + 4" using week1_multiple by blast
  with assms have "d + 3 < (j + 1) * 7" "(j + 1) * 7 \<le> d' + 3" by simp_all
  then have "(d + 3) div 7 < j + 1" "j + 1 \<le> (d' + 3) div 7" using zdiv_mono1[of "(j + 1) * 7" "d' + 3" 7] by (simp_all add: div_less_iff_less_mult)
  then show ?thesis by simp
qed

lemma same_week: "iso_week d = iso_week d' \<longleftrightarrow> (d + 3) div 7 = (d' + 3) div 7"
proof -
  obtain y y' where w: "iso_week d = (y, (d - week1_monday y) div 7 + 1)" "week1_monday y \<le> d" "d < week1_monday (y + 1)"
    "iso_week d' = (y', (d' - week1_monday y') div 7 + 1)" "week1_monday y' \<le> d'" "d' < week1_monday (y' + 1)"
    using iso_week_spec by meson
  have "y = y'" if "(d + 3) div 7 = (d' + 3) div 7"
    using that w week1_mono[of y y'] week1_mono[of y' y] week_apart[of d y' d'] week_apart[of d' y d]
    by (cases y y' rule: linorder_cases) auto
  then show ?thesis unfolding w(1,4) by (auto simp: week_shift)
qed

lemma card_image_cong:
  assumes "\<And>x y. f x = f y \<longleftrightarrow> g x = g y"
  shows "card (f ` A) = card (g ` A)"
proof -
  let ?h = "\<lambda>x. (f x, g x)"
  have "inj_on fst (?h ` A)" "inj_on snd (?h ` A)" using assms by (auto simp: inj_on_def)
  then show ?thesis using card_image[of fst "?h ` A"] card_image[of snd "?h ` A"] by (simp add: image_image)
qed

text \<open>The weeks of \<open>date.isocalendar\<close> are the weeks that begin on a Monday: two days have the same year and number exactly when the
  same Monday is the last one before them, over the turn of a year too, so the recurrence count is the number of weeks with a disk error.\<close>
theorem weeks_are_counted_once:
  assumes "analyze_events stdev events now None = Inr c" "read_events now events = Inr ks"
  shows "ec_weeks c = card ((\<lambda>t. (local_us t div day_us + 3) div 7) ` set (stamps_of EvEarly ks @ stamps_of EvDamage ks))"
proof -
  let ?m = "\<lambda>t. (local_us t div day_us + 3) div 7"
  let ?ts = "stamps_of EvEarly ks @ stamps_of EvDamage ks"
  have "ec_weeks c = card (week_of ` set ?ts)"
    using assms by (auto simp: analyze_events_def chain_of_def Let_def length_remdups_card_conv simp del: set_append split: prod.splits)
  also have "\<dots> = card (?m ` set ?ts)"
    by (rule card_image_cong) (simp add: week_of_def same_week)
  finally show ?thesis .
qed

subsection \<open>Stages\<close>

lemma total_seconds_sign: "fle (Fin 0) (total_seconds us) \<longleftrightarrow> 0 \<le> us"
proof
  assume "0 \<le> us"
  then show "fle (Fin 0) (total_seconds us)"
    using rnd64_fle[of "of_int 0" "of_int us / 1000000"] rnd64_of_int[of 0] by (simp add: total_seconds_def)
next
  assume le: "fle (Fin 0) (total_seconds us)"
  show "0 \<le> us"
  proof (rule ccontr)
    assume "\<not> 0 \<le> us"
    then have "of_int us \<le> (of_int (- 1) :: rat)" by (simp only: of_int_le_iff)
    then have "fle (total_seconds us) (rnd64 (- (1 / 2 ^ 20)))" unfolding total_seconds_def by (intro rnd64_fle) simp
    also have "rnd64 (- (1 / 2 ^ 20)) = Fin (- (1 / 2 ^ 20))" using rnd64_fraction[of 1 20] by (simp add: rnd64_minus)
    finally have "fle (Fin 0) (Fin (- (1 / 2 ^ 20)))" using le fle_trans by blast
    then show False by simp
  qed
qed

lemma total_seconds_week: "fle (total_seconds us) (Fin 604800) \<longleftrightarrow> us \<le> 604800 * 1000000"
proof
  assume "us \<le> 604800 * 1000000"
  then have "of_int us \<le> (of_int (604800 * 1000000) :: rat)" by (simp only: of_int_le_iff)
  then show "fle (total_seconds us) (Fin 604800)"
    using rnd64_fle[of "of_int us / 1000000" "of_int 604800"] rnd64_of_int[of 604800] by (simp add: total_seconds_def)
next
  assume le: "fle (total_seconds us) (Fin 604800)"
  show "us \<le> 604800 * 1000000"
  proof (rule ccontr)
    assume "\<not> us \<le> 604800 * 1000000"
    then have "(of_int (604800 * 1000000 + 1) :: rat) \<le> of_int us" by (simp only: of_int_le_iff)
    then have "fle (rnd64 (of_int (604800 * 2 ^ 20 + 1) / 2 ^ 20)) (total_seconds us)" unfolding total_seconds_def by (intro rnd64_fle) simp
    also have "rnd64 (of_int (604800 * 2 ^ 20 + 1) / 2 ^ 20) = Fin (of_int (604800 * 2 ^ 20 + 1) / 2 ^ 20)" by (rule rnd64_fraction) simp_all
    finally have "fle (Fin (of_int (604800 * 2 ^ 20 + 1) / 2 ^ 20)) (Fin 604800)" using le fle_trans by blast
    then show False by simp
  qed
qed

lemma soon_after_iff: "soon_after d c \<longleftrightarrow> 0 \<le> as_utc c - as_utc d \<and> as_utc c - as_utc d \<le> 7 * day_us"
  using total_seconds_sign total_seconds_week by (simp add: soon_after_def Let_def RECURRENCE_MAX_GAP_DAYS_def day_us_def)

lemma in_stamps_of: "t \<in> set (stamps_of k ks) \<longleftrightarrow> (k, t) \<in> set ks"
  by (force simp: stamps_of_def)

lemma chain_stage:
  "ec_stage (chain_of stdev ks rolled) = fst (stage_of (stamps_of EvEarly ks) (stamps_of EvDamage ks) (stamps_of EvCrash ks))"
  by (simp add: chain_of_def Let_def split: prod.split)

text \<open>C27: The stage is the furthest escalation in the window: three exactly when some crash follows some damage by at most seven days (not
  merely the last damage, nor the last crash), two when damage has no such crash, one when there are retries only.\<close>
theorem stage_is_furthest_escalation:
  assumes "analyze_events stdev events now rollups = Inr c" "read_events now events = Inr ks"
  shows "ec_stage c = (if \<exists>d k. (EvDamage, d) \<in> set ks \<and> (EvCrash, k) \<in> set ks \<and> as_utc d \<le> as_utc k \<and> as_utc k - as_utc d \<le> 7 * day_us then 3
    else if \<exists>d. (EvDamage, d) \<in> set ks then 2 else if \<exists>e. (EvEarly, e) \<in> set ks then 1 else 0)"
proof -
  have "(stamps_of k ks \<noteq> []) \<longleftrightarrow> (\<exists>t. (k, t) \<in> set ks)" for k
    using in_stamps_of[of _ k ks] by (cases "stamps_of k ks") force+
  moreover have "list_ex (\<lambda>d. list_ex (soon_after d) (stamps_of EvCrash ks)) (stamps_of EvDamage ks) \<longleftrightarrow>
      (\<exists>d k. (EvDamage, d) \<in> set ks \<and> (EvCrash, k) \<in> set ks \<and> as_utc d \<le> as_utc k \<and> as_utc k - as_utc d \<le> 7 * day_us)"
    by (simp add: list_ex_iff Bex_def in_stamps_of soon_after_iff)
  moreover obtain rolled where "c = chain_of stdev ks rolled" using assms by (auto simp: analyze_events_def)
  ultimately show ?thesis by (auto simp: chain_stage stage_of_def)
qed

subsection \<open>The order of the events\<close>

lemma mset_map_filter: "mset (List.map_filter f xs) = image_mset (\<lambda>x. the (f x)) (filter_mset (\<lambda>x. f x \<noteq> None) (mset xs))"
  by (induction xs) (auto simp: List.map_filter_simps split: option.split)

lemma mapE_permuted:
  assumes "mapE f xs = Inr ys" "mset xs = mset xs'"
  shows "\<exists>ys'. mapE f xs' = Inr ys' \<and> mset ys' = mset ys"
proof -
  have all: "\<forall>x\<in>set xs. \<exists>y. f x = Inr y"
    using assms(1) by (auto simp: mapE_Inr_conv list_all2_conv_all_nth in_set_conv_nth)
  define g where "g = (\<lambda>x. case f x of Inr y \<Rightarrow> y)"
  have g: "\<forall>x\<in>set xs. f x = Inr (g x)" using all by (auto simp: g_def)
  have "mapE f xs = Inr (map g xs)" using g by (intro mapE_Inr_map) auto
  moreover have "mapE f xs' = Inr (map g xs')" using g assms(2) mset_eq_setD[OF assms(2)] by (intro mapE_Inr_map) auto
  ultimately show ?thesis using assms by auto
qed

lemma filtered_permuted:
  assumes "bindE (mapE f xs) (\<lambda>ys. Inr (List.map_filter (\<lambda>y. y) ys)) = Inr zs" "mset xs = mset xs'"
  shows "\<exists>zs'. bindE (mapE f xs') (\<lambda>ys. Inr (List.map_filter (\<lambda>y. y) ys)) = Inr zs' \<and> mset zs' = mset zs"
proof -
  from assms(1) obtain ys where "mapE f xs = Inr ys" "zs = List.map_filter (\<lambda>y. y) ys" by auto
  with mapE_permuted[OF this(1) assms(2)] show ?thesis by (auto simp: mset_map_filter)
qed

lemma gaps_of_keys: "map as_utc ts = map as_utc ts' \<Longrightarrow> gaps_of ts = gaps_of ts'"
proof (induction ts arbitrary: ts')
  case (Cons a ts)
  from Cons.prems obtain a' us where ts': "ts' = a' # us" "as_utc a = as_utc a'" "map as_utc ts = map as_utc us"
    by (auto simp: Cons_eq_map_conv)
  from Cons.IH[OF ts'(3)] show ?case using ts' by (cases ts; cases us) auto
qed simp

lemma sort_key_keys: "map k (sort_key k xs) = sort (map k xs)"
  by (rule properties_for_sort[symmetric]) simp_all

text \<open>The order in which the database hands the events and the rollups over does not matter.\<close>
theorem chain_ignores_event_order:
  assumes "analyze_events stdev events now (Some rows) = Inr c" "mset events = mset events'" "mset rows = mset rows'"
  shows "analyze_events stdev events' now (Some rows') = Inr c"
proof -
  from assms(1) obtain ks rolled where r: "read_events now events = Inr ks" "rollup_weeks rows = Inr rolled" "c = chain_of stdev ks rolled"
    by (auto simp: analyze_events_def)
  obtain ks' where ks: "read_events now events' = Inr ks'" "mset ks' = mset ks"
    using filtered_permuted[OF r(1)[unfolded read_events_def] assms(2)] unfolding read_events_def by blast
  obtain rolled' where rolled: "rollup_weeks rows' = Inr rolled'" "mset rolled' = mset rolled"
    using filtered_permuted[OF r(2)[unfolded rollup_weeks_def] assms(3)] unfolding rollup_weeks_def by blast
  have st: "mset (stamps_of k ks') = mset (stamps_of k ks)" for k
    using ks(2) by (simp add: stamps_of_def)
  have sets: "set (stamps_of k ks') = set (stamps_of k ks)" and len: "length (stamps_of k ks') = length (stamps_of k ks)" for k
    using mset_eq_setD[OF st] mset_eq_length[OF st] by blast+
  have "stamps_of k ks' = [] \<longleftrightarrow> stamps_of k ks = []" for k using len[of k] by (metis length_0_conv)
  then have stage: "stage_of (stamps_of EvEarly ks') (stamps_of EvDamage ks') (stamps_of EvCrash ks')
      = stage_of (stamps_of EvEarly ks) (stamps_of EvDamage ks) (stamps_of EvCrash ks)"
    by (simp add: stage_of_def list_ex_iff sets len)
  have m: "mset (stamps_of EvEarly ks' @ stamps_of EvDamage ks') = mset (stamps_of EvEarly ks @ stamps_of EvDamage ks)" by (simp add: st)
  then have keys: "map as_utc (sort_key as_utc (stamps_of EvEarly ks' @ stamps_of EvDamage ks'))
      = map as_utc (sort_key as_utc (stamps_of EvEarly ks @ stamps_of EvDamage ks))"
    unfolding sort_key_keys by (intro properties_for_sort) (simp_all add: st)
  have "burstiness_of stdev (sort_key as_utc (stamps_of EvEarly ks' @ stamps_of EvDamage ks'))
      = burstiness_of stdev (sort_key as_utc (stamps_of EvEarly ks @ stamps_of EvDamage ks))"
    using gaps_of_keys[OF keys] arg_cong[OF keys, of length] unfolding burstiness_of_def by (simp only: length_map)
  moreover have "length (remdups (map week_of (sort_key as_utc (stamps_of EvEarly ks' @ stamps_of EvDamage ks')) @ rolled'))
      = length (remdups (map week_of (sort_key as_utc (stamps_of EvEarly ks @ stamps_of EvDamage ks)) @ rolled))"
    using mset_eq_setD[OF rolled(2)] by (simp add: length_remdups_card_conv sets)
  ultimately have "chain_of stdev ks' rolled' = chain_of stdev ks rolled"
    by (simp add: chain_of_def Let_def stage len)
  then show ?thesis using ks(1) rolled(1) r(3) by (simp add: analyze_events_def)
qed

subsection \<open>Samples\<close>

definition storage_event :: "string \<Rightarrow> int \<Rightarrow> jobj" where
  "storage_event s i = [(''received_at'', JStr s), (''event_id'', JInt i), (''source'', JStr ''disk'')]"

lemma log_stamps:
  "parse_received_at (JStr ''1969-12-31T23:00:00'') = Some (Stamp (- 3600000000) (Some 0))"
  "parse_received_at (JStr ''1970-01-01T01:00:00+01:00'') = Some (Stamp 3600000000 (Some 3600000000))"
  by code_simp+

definition log_sample :: "jobj list" where
  "log_sample = [storage_event ''1970-01-01T01:00:00+01:00'' 41, storage_event ''1969-12-31T23:00:00'' 7,
     storage_event ''1970-01-01T01:00:00+01:00'' 153, storage_event ''1970-01-01T01:00:00+01:00'' 9, storage_event ''yesterday'' 7]"

lemma log_read:
  "read_events 0 log_sample = Inr [(EvCrash, Stamp 3600000000 (Some 3600000000)), (EvDamage, Stamp (- 3600000000) (Some 0)),
     (EvEarly, Stamp 3600000000 (Some 3600000000))]"
proof -
  have "parse_received_at (JStr ''yesterday'') = None" by code_simp
  then show ?thesis
    by (simp add: read_events_def log_sample_def read_event_def storage_event_def jget_def log_stamps as_utc_def day_us_def WINDOW_DAYS_def
        event_kind_of_def in_sources_def CRASH_def APP_HANG_ID_def STORAGE_EARLY_def STORAGE_DAMAGE_def STORAGE_SOURCES_def List.map_filter_simps)
qed

lemma log_analyzed: "analyze_events stdev log_sample 0 None = Inr (chain_of stdev [(EvCrash, Stamp 3600000000 (Some 3600000000)),
     (EvDamage, Stamp (- 3600000000) (Some 0)), (EvEarly, Stamp 3600000000 (Some 3600000000))] [])"
  by (simp add: analyze_events_def log_read)

theorem weeks_are_counted_once_witness:
  "ec_weeks (chain_of (\<lambda>_. Fin 0) [(EvCrash, Stamp 3600000000 (Some 3600000000)), (EvDamage, Stamp (- 3600000000) (Some 0)),
     (EvEarly, Stamp 3600000000 (Some 3600000000))] []) = 1"
  using weeks_are_counted_once[OF log_analyzed log_read] by (simp add: stamps_of_def day_us_def)

theorem stage_is_furthest_escalation_witness:
  "ec_stage (chain_of (\<lambda>_. Fin 0) [(EvCrash, Stamp 3600000000 (Some 3600000000)), (EvDamage, Stamp (- 3600000000) (Some 0)),
     (EvEarly, Stamp 3600000000 (Some 3600000000))] []) = 3"
  using stage_is_furthest_escalation[OF log_analyzed log_read] by (simp add: as_utc_def day_us_def)

theorem chain_ignores_event_order_witness:
  "analyze_events (\<lambda>_. Fin 0) (rev log_sample) 0 (Some []) = analyze_events (\<lambda>_. Fin 0) log_sample 0 (Some [])"
proof -
  have a: "analyze_events (\<lambda>_. Fin 0) log_sample 0 (Some []) = Inr (chain_of (\<lambda>_. Fin 0) [(EvCrash, Stamp 3600000000 (Some 3600000000)),
     (EvDamage, Stamp (- 3600000000) (Some 0)), (EvEarly, Stamp 3600000000 (Some 3600000000))] [])"
    by (simp add: analyze_events_def log_read rollup_weeks_def List.map_filter_simps)
  show ?thesis using chain_ignores_event_order[OF a, of "rev log_sample" "[]"] a by simp
qed

end
