(* ===== verification/RuleStats.thy ===== *)
theory RuleStats imports Trends begin

text \<open>
  How the fleet's own outcomes reinforce or mute a rule (\<open>server/analytics/rulestats.py\<close>).  A run of stored scores
  that carries a rule's flag is an episode; what the machine did in the weeks after it confirms or refutes the
  rule, and the counts over the fleet give the rule a multiplier.  Rows are stored score rows, oldest first.
\<close>

definition RULE_KEYS :: "string list" where "RULE_KEYS = [''pending_high'', ''media_recurrence'', ''early_chain'']"

definition CONFIRM_WINDOW :: int where "CONFIRM_WINDOW = 45 * day_us"
definition REFUTE_WINDOW :: int where "REFUTE_WINDOW = 60 * day_us"

definition BOOST_MIN_CONFIRMED :: nat where "BOOST_MIN_CONFIRMED = 5"
definition CEILING_MIN_CONFIRMED :: nat where "CEILING_MIN_CONFIRMED = 15"
definition BOOST_MIN_RATIO :: pyfloat where "BOOST_MIN_RATIO = rnd64 (7 / 10)"
definition MUTE_MIN_REFUTED :: nat where "MUTE_MIN_REFUTED = 10"
definition MUTE_MAX_RATIO :: pyfloat where "MUTE_MAX_RATIO = rnd64 (3 / 10)"
definition BOOST_MULT :: pyfloat where "BOOST_MULT = rnd64 (6 / 5)"
definition CEILING_MULT :: pyfloat where "CEILING_MULT = Fin (3 / 2)"
definition MUTE_MULT :: pyfloat where "MUTE_MULT = rnd64 (4 / 5)"
definition NEUTRAL_MULT :: pyfloat where "NEUTRAL_MULT = Fin 1"

subsection \<open>Rows\<close>

definition parse_ts :: "jval \<Rightarrow> stamp option" where
  \<comment> \<open>the rendering of a value that is no string is no stamp\<close>
  "parse_ts v = (case v of JStr s \<Rightarrow> (case fromisoformat (replace_Z (strip s)) of
       Inr t \<Rightarrow> Some (Stamp (local_us t) (Some (case utc_offset t of None \<Rightarrow> 0 | Some z \<Rightarrow> z))) | Inl _ \<Rightarrow> None) | _ \<Rightarrow> None)"

definition sub_object :: "jval \<Rightarrow> string \<Rightarrow> jval res" where
  \<comment> \<open>\<open>x.get(k) or {}\<close>\<close>
  "sub_object x k = bindE (obj_get x k) (\<lambda>v. Inr (if truthy v then v else JObj []))"

definition row_flags :: "jobj \<Rightarrow> jval list res" where
  "row_flags row =
     bindE (sub_object (JObj row) ''risk'') (\<lambda>risk. bindE (sub_object risk ''score100'') (\<lambda>score100.
     bindE (sub_object score100 ''storage_risk'') (\<lambda>storage. bindE (sub_object storage ''coords'') (\<lambda>coords.
     bindE (obj_get coords ''flags'') (\<lambda>flags. Inr (case flags of JList fs \<Rightarrow> fs | _ \<Rightarrow> []))))))"

definition has_flag :: "string \<Rightarrow> jobj \<Rightarrow> bool res" where
  \<comment> \<open>\<open>flag in _row_flags(row)\<close>\<close>
  "has_flag flag row = bindE (row_flags row) (\<lambda>fs. Inr (list_ex (\<lambda>f. py_eq f (JStr flag)) fs))"

definition confirms :: "jobj \<Rightarrow> bool res" where
  "confirms row =
     bindE (sub_object (JObj row) ''risk'') (\<lambda>risk. bindE (sub_object risk ''errchain'') (\<lambda>chain.
     bindE (case chain of JObj d \<Rightarrow> Inr (case dict_get d ''stage'' of None \<Rightarrow> JInt 0 | Some s \<Rightarrow> s) | _ \<Rightarrow> Inl AttributeError) (\<lambda>stage.
     bindE (sub_object risk ''score100'') (\<lambda>score100. bindE (sub_object score100 ''storage_risk'') (\<lambda>storage.
     bindE (case raw_num stage of Inr x \<Rightarrow> Inr (fle (Fin 2) x) | Inl _ \<Rightarrow> Inr False) (\<lambda>stage_ok.
     if stage_ok then Inr True else bindE (obj_get storage ''band'') (\<lambda>b. Inr (py_eq b (JStr ''bad'')))))))))"

definition refutation_blocked :: "string \<Rightarrow> jobj \<Rightarrow> bool res" where
  \<comment> \<open>\<open>_confirms(r) or flag in _row_flags(r)\<close>\<close>
  "refutation_blocked flag row = bindE (confirms row) (\<lambda>c. if c then Inr True else has_flag flag row)"

definition last_moment :: "stamp \<Rightarrow> int \<Rightarrow> int res" where
  \<comment> \<open>\<open>end_ts + window\<close>, which may leave the calendar\<close>
  "last_moment t w = (if local_us t + w < MAX_STAMP then Inr (as_utc t + w) else Inl OverflowError)"

fun any_row :: "(stamp \<Rightarrow> bool) \<Rightarrow> (jobj \<Rightarrow> bool res) \<Rightarrow> jobj list \<Rightarrow> bool res" where
  "any_row within_window P [] = Inr False"
| "any_row within_window P (row # rows) =
     (case parse_ts (jget row ''ts'') of None \<Rightarrow> any_row within_window P rows
      | Some ts \<Rightarrow> if within_window ts then bindE (P row) (\<lambda>b. if b then Inr True else any_row within_window P rows)
          else any_row within_window P rows)"

definition has_row_in_window :: "jobj list \<Rightarrow> stamp \<Rightarrow> int \<Rightarrow> (jobj \<Rightarrow> bool res) \<Rightarrow> bool res" where
  "has_row_in_window rows end_ts window P =
     bindE (last_moment end_ts window) (\<lambda>upper. any_row (\<lambda>ts. as_utc end_ts < as_utc ts \<and> as_utc ts \<le> upper) P rows)"

subsection \<open>Episodes\<close>

datatype verdict_on_rule = Confirmed | Refuted

definition resolve_episode :: "jobj list \<Rightarrow> stamp \<Rightarrow> string \<Rightarrow> int \<Rightarrow> verdict_on_rule option res" where
  "resolve_episode rows end_ts flag now =
     bindE (has_row_in_window rows end_ts CONFIRM_WINDOW confirms) (\<lambda>confirmed.
     if confirmed then Inr (Some Confirmed)
     else if REFUTE_WINDOW \<le> now - as_utc end_ts
     then bindE (has_row_in_window rows end_ts REFUTE_WINDOW (refutation_blocked flag)) (\<lambda>blocked.
       Inr (if blocked then None else Some Refuted))
     else Inr None)"

type_synonym rule_outcome = "string \<times> verdict_on_rule \<times> stamp"

fun scan_loop :: "jobj list \<Rightarrow> string \<Rightarrow> string \<Rightarrow> int \<Rightarrow> stamp option \<Rightarrow> jobj list \<Rightarrow> rule_outcome list res" where
  \<comment> \<open>the run is the stamp of its last row so far\<close>
  "scan_loop rows key flag now run [] = Inr []"
| "scan_loop rows key flag now run (row # rest) =
     (let ts = parse_ts (jget row ''ts'')
      in bindE (case ts of None \<Rightarrow> Inr False | Some _ \<Rightarrow> has_flag flag row) (\<lambda>present.
         if present then scan_loop rows key flag now ts rest
         else case run of None \<Rightarrow> scan_loop rows key flag now None rest
          | Some end_ts \<Rightarrow>
              bindE (resolve_episode rows end_ts flag now) (\<lambda>v.
              bindE (scan_loop rows key flag now None rest) (\<lambda>outs.
                Inr (case v of None \<Rightarrow> outs | Some x \<Rightarrow> (key, x, end_ts) # outs)))))"

definition scan_rule :: "jobj list \<Rightarrow> string \<Rightarrow> string \<Rightarrow> int \<Rightarrow> rule_outcome list res" where
  "scan_rule rows key flag now = scan_loop rows key flag now None rows"

definition flag_for_rule :: "string \<Rightarrow> string" where
  "flag_for_rule key = (if key = ''pending_high'' then ''pending_gt10'' else if key = ''media_recurrence'' then ''recurrence'' else ''early_events'')"

definition scan_device :: "jobj list \<Rightarrow> int \<Rightarrow> rule_outcome list res" where
  "scan_device rows now = bindE (mapE (\<lambda>key. scan_rule rows key (flag_for_rule key) now) RULE_KEYS) (\<lambda>os. Inr (concat os))"

subsection \<open>Reinforcement\<close>

definition confirm_ratio :: "nat \<Rightarrow> nat \<Rightarrow> pyfloat" where
  "confirm_ratio confirmed refuted =
     (if 0 < confirmed + refuted then rnd64 (of_nat confirmed / of_nat (confirmed + refuted)) else Fin 0)"

definition stat :: "(string, nat) dict \<Rightarrow> string \<Rightarrow> nat" where
  "stat d k = (case dict_get d k of None \<Rightarrow> 0 | Some n \<Rightarrow> n)"

definition reinforcement :: "(string, nat) dict \<Rightarrow> pyfloat" where
  "reinforcement stats =
     (let confirmed = stat stats ''confirmed''; refuted = stat stats ''refuted''; ratio = confirm_ratio confirmed refuted
      in if CEILING_MIN_CONFIRMED \<le> confirmed \<and> fle BOOST_MIN_RATIO ratio then CEILING_MULT
         else if BOOST_MIN_CONFIRMED \<le> confirmed \<and> fle BOOST_MIN_RATIO ratio then BOOST_MULT
         else if MUTE_MIN_REFUTED \<le> refuted \<and> flt ratio MUTE_MAX_RATIO then MUTE_MULT
         else NEUTRAL_MULT)"

subsection \<open>Windows\<close>

lemma any_row_none:
  "any_row W P rows = Inr False \<Longrightarrow> row \<in> set rows \<Longrightarrow> parse_ts (jget row ''ts'') = Some ts \<Longrightarrow> W ts \<Longrightarrow> P row = Inr False"
  by (induction rows) (auto split: option.splits if_splits)

lemma any_row_some:
  "any_row W P rows = Inr True \<Longrightarrow> \<exists>row\<in>set rows. \<exists>ts. parse_ts (jget row ''ts'') = Some ts \<and> W ts \<and> P row = Inr True"
  by (induction rows) (auto split: option.splits if_splits)

lemma any_row_append: "any_row W P (xs @ ys) = bindE (any_row W P xs) (\<lambda>b. if b then Inr True else any_row W P ys)"
proof (induction xs)
  case (Cons row xs)
  then show ?case by (cases "P row") (auto split: option.split)
qed simp

lemma any_row_outside:
  "(\<And>row ts. row \<in> set rows \<Longrightarrow> parse_ts (jget row ''ts'') = Some ts \<Longrightarrow> \<not> W ts) \<Longrightarrow> any_row W P rows = Inr False"
  by (induction rows) (auto split: option.split)

definition after :: "int \<Rightarrow> jobj list \<Rightarrow> bool" where
  \<comment> \<open>rows that were stored later than \<open>now\<close>\<close>
  "after now rows \<longleftrightarrow> list_all (\<lambda>row. case parse_ts (jget row ''ts'') of None \<Rightarrow> True | Some ts \<Rightarrow> now < as_utc ts) rows"

lemma window_closed:
  assumes "after now new" "as_utc t + w \<le> now" "has_row_in_window rows t w P = Inr False"
  shows "has_row_in_window (rows @ new) t w P = Inr False"
proof -
  from assms(3) obtain u where u: "last_moment t w = Inr u" "u = as_utc t + w"
    "any_row (\<lambda>ts. as_utc t < as_utc ts \<and> as_utc ts \<le> u) P rows = Inr False"
    by (auto simp: has_row_in_window_def last_moment_def split: if_splits)
  have "any_row (\<lambda>ts. as_utc t < as_utc ts \<and> as_utc ts \<le> u) P new = Inr False"
    by (rule any_row_outside) (use assms(1,2) u(2) in \<open>auto simp: after_def list_all_iff split: option.splits\<close>)
  then show ?thesis using u by (simp add: has_row_in_window_def any_row_append)
qed

subsection \<open>Outcomes\<close>

lemma resolve_stable:
  assumes "resolve_episode rows t flag now = Inr (Some x)" "after now new" "now \<le> now'"
  shows "resolve_episode (rows @ new) t flag now' = Inr (Some x)"
proof (cases x)
  case Confirmed
  then have "has_row_in_window rows t CONFIRM_WINDOW confirms = Inr True"
    using assms(1) by (auto simp: resolve_episode_def split: if_splits)
  then have "has_row_in_window (rows @ new) t CONFIRM_WINDOW confirms = Inr True"
    by (auto simp: has_row_in_window_def any_row_append)
  then show ?thesis using Confirmed by (simp add: resolve_episode_def)
next
  case Refuted
  then have h: "has_row_in_window rows t CONFIRM_WINDOW confirms = Inr False" "REFUTE_WINDOW \<le> now - as_utc t"
    "has_row_in_window rows t REFUTE_WINDOW (refutation_blocked flag) = Inr False"
    using assms(1) by (auto simp: resolve_episode_def split: if_splits)
  have "CONFIRM_WINDOW \<le> REFUTE_WINDOW" by (simp add: CONFIRM_WINDOW_def REFUTE_WINDOW_def day_us_def)
  then have "has_row_in_window (rows @ new) t CONFIRM_WINDOW confirms = Inr False"
    using h by (intro window_closed[OF assms(2)]) auto
  moreover have "has_row_in_window (rows @ new) t REFUTE_WINDOW (refutation_blocked flag) = Inr False"
    using h by (intro window_closed[OF assms(2)]) auto
  ultimately show ?thesis using h assms(3) Refuted by (simp add: resolve_episode_def)
qed

lemma scan_loop_grows:
  assumes "after now new" "now \<le> now'"
  shows "scan_loop rows key flag now run rest = Inr outs \<Longrightarrow>
    scan_loop (rows @ new) key flag now' run (rest @ new) = Inr outs' \<Longrightarrow> set outs \<subseteq> set outs'"
proof (induction rest arbitrary: run outs outs')
  case (Cons row rest)
  from Cons.prems show ?case
    using Cons.IH resolve_stable[OF _ assms]
    by (fastforce simp: Let_def split: option.splits if_splits)
qed simp

lemma scan_rule_grows:
  "after now new \<Longrightarrow> now \<le> now' \<Longrightarrow> scan_rule rows key flag now = Inr outs \<Longrightarrow> scan_rule (rows @ new) key flag now' = Inr outs' \<Longrightarrow>
    set outs \<subseteq> set outs'"
  unfolding scan_rule_def by (rule scan_loop_grows)

text \<open>C26: An outcome is final: rows that are stored after a scan neither undo nor turn round what it resolved, so a later scan reports
  the same outcome for the same episode, under the same key, and counting it once is safe.\<close>
theorem resolved_episodes_are_final:
  assumes "scan_device rows now = Inr outs" "scan_device (rows @ new) now' = Inr outs'" "after now new" "now \<le> now'"
  shows "set outs \<subseteq> set outs'"
proof -
  let ?scan = "\<lambda>rows now key. scan_rule rows key (flag_for_rule key) now"
  have grows: "set a \<subseteq> set b" if "?scan rows now key = Inr a" "?scan (rows @ new) now' key = Inr b" for key a b
    using scan_rule_grows[OF assms(3,4) that] .
  have all: "set (concat xs) \<subseteq> set (concat ys)"
    if "mapE (?scan rows now) keys = Inr xs" "mapE (?scan (rows @ new) now') keys = Inr ys" for keys xs ys
    using that
  proof (induction keys arbitrary: xs ys)
    case (Cons key keys)
    then obtain x xs0 y ys0 where "?scan rows now key = Inr x" "?scan (rows @ new) now' key = Inr y" "xs = x # xs0" "ys = y # ys0"
      "mapE (?scan rows now) keys = Inr xs0" "mapE (?scan (rows @ new) now') keys = Inr ys0" by auto
    with grows Cons.IH show ?case by (simp add: le_supI1 le_supI2)
  qed simp
  from assms(1,2) obtain xs ys where "mapE (?scan rows now) RULE_KEYS = Inr xs" "outs = concat xs"
    "mapE (?scan (rows @ new) now') RULE_KEYS = Inr ys" "outs' = concat ys" by (auto simp: scan_device_def)
  then show ?thesis using all by simp
qed

lemma scan_loop_outcome:
  "scan_loop rows key flag now run rest = Inr outs \<Longrightarrow> (k, x, t) \<in> set outs \<Longrightarrow>
     k = key \<and> resolve_episode rows t flag now = Inr (Some x) \<and>
     (run = Some t \<or> (\<exists>row\<in>set rest. parse_ts (jget row ''ts'') = Some t \<and> has_flag flag row = Inr True))"
proof (induction rest arbitrary: run outs)
  case (Cons row rest)
  from Cons.prems show ?case
    using Cons.IH by (fastforce simp: Let_def split: option.splits if_splits)
qed simp

text \<open>Every outcome is earned.  A rule is confirmed by a bad row at most 45 days after the last row of the episode; it is refuted only
  when 60 days have gone by in which no row was bad or carried the flag again.\<close>
theorem every_outcome_is_earned:
  assumes "scan_rule rows key flag now = Inr outs" "(k, x, t) \<in> set outs"
  shows "(\<exists>row\<in>set rows. parse_ts (jget row ''ts'') = Some t \<and> has_flag flag row = Inr True) \<and>
    (case x of
       Confirmed \<Rightarrow> \<exists>row\<in>set rows. \<exists>ts. parse_ts (jget row ''ts'') = Some ts \<and> as_utc t < as_utc ts \<and>
         as_utc ts \<le> as_utc t + CONFIRM_WINDOW \<and> confirms row = Inr True
     | Refuted \<Rightarrow> REFUTE_WINDOW \<le> now - as_utc t \<and> (\<forall>row\<in>set rows. \<forall>ts. parse_ts (jget row ''ts'') = Some ts \<and>
         as_utc t < as_utc ts \<and> as_utc ts \<le> as_utc t + REFUTE_WINDOW \<longrightarrow> confirms row = Inr False \<and> has_flag flag row = Inr False))"
proof -
  have r: "resolve_episode rows t flag now = Inr (Some x)"
    "\<exists>row\<in>set rows. parse_ts (jget row ''ts'') = Some t \<and> has_flag flag row = Inr True"
    using scan_loop_outcome[OF assms(1)[unfolded scan_rule_def] assms(2)] by auto
  show ?thesis
  proof (cases x)
    case Confirmed
    then have "has_row_in_window rows t CONFIRM_WINDOW confirms = Inr True"
      using r(1) by (auto simp: resolve_episode_def split: if_splits)
    then show ?thesis using r(2) Confirmed any_row_some
      by (fastforce simp: has_row_in_window_def last_moment_def split: if_splits)
  next
    case Refuted
    then have "has_row_in_window rows t REFUTE_WINDOW (refutation_blocked flag) = Inr False" "REFUTE_WINDOW \<le> now - as_utc t"
      using r(1) by (auto simp: resolve_episode_def split: if_splits)
    moreover from this have "refutation_blocked flag row = Inr False"
      if "row \<in> set rows" "parse_ts (jget row ''ts'') = Some ts" "as_utc t < as_utc ts" "as_utc ts \<le> as_utc t + REFUTE_WINDOW" for row ts
      using that any_row_none[of _ _ rows row ts] by (auto simp: has_row_in_window_def last_moment_def split: if_splits)
    then have "confirms row = Inr False \<and> has_flag flag row = Inr False"
      if "row \<in> set rows" "parse_ts (jget row ''ts'') = Some ts" "as_utc t < as_utc ts" "as_utc ts \<le> as_utc t + REFUTE_WINDOW" for row ts
      using that by (fastforce simp: refutation_blocked_def split: if_splits)
    ultimately show ?thesis using r(2) Refuted by simp
  qed
qed

subsection \<open>The multiplier\<close>

lemma fle_flt_trans: "fle x y \<Longrightarrow> flt y z \<Longrightarrow> flt x z"
  by (cases x; cases y; cases z) auto

lemma fle_between: "fle (Fin a) x \<Longrightarrow> fle x (Fin b) \<Longrightarrow> \<exists>q. x = Fin q \<and> a \<le> q \<and> q \<le> b"
  by (cases x) auto

lemma multipliers: "\<exists>a b. MUTE_MULT = Fin a \<and> BOOST_MULT = Fin b \<and> 3 / 4 \<le> a \<and> a \<le> 1 \<and> 1 \<le> b \<and> b \<le> 3 / 2"
proof -
  have "fle (rnd64 (of_int 3 / 2 ^ 2)) MUTE_MULT" "fle MUTE_MULT (rnd64 (of_int 1))"
    "fle (rnd64 (of_int 1)) BOOST_MULT" "fle BOOST_MULT (rnd64 (of_int 3 / 2 ^ 1))"
    unfolding MUTE_MULT_def BOOST_MULT_def by (rule rnd64_fle; simp)+
  then show ?thesis using rnd64_fraction[of 3 2] rnd64_fraction[of 3 1] rnd64_of_int[of 1] fle_between[of "3 / 4" MUTE_MULT 1] fle_between[of 1 BOOST_MULT "3 / 2"] by auto
qed

lemma ladder_mono:
  assumes "p \<longrightarrow> p'" "q \<longrightarrow> q'" "s' \<longrightarrow> s" "a \<le> 1" "1 \<le> b" "b \<le> c"
  shows "fle (if p then Fin c else if q then Fin b else if s then Fin a else Fin 1)
    (if p' then Fin c else if q' then Fin b else if s' then Fin a else Fin 1)"
  using assms by auto

lemma confirm_ratio_mono:
  assumes "c \<le> c'" "r' \<le> r"
  shows "fle (confirm_ratio c r) (confirm_ratio c' r')"
proof (cases "0 < c + r")
  case True
  show ?thesis
  proof (cases "0 < c' + r'")
    case True
    have "(of_nat c :: rat) * of_nat (c' + r') \<le> of_nat c' * of_nat (c + r)"
      unfolding of_nat_mult[symmetric] of_nat_le_iff using assms by (simp add: add_mult_distrib2 mult_le_mono mult.commute)
    then have "(of_nat c :: rat) / of_nat (c + r) \<le> of_nat c' / of_nat (c' + r')"
      using True \<open>0 < c + r\<close> by (simp add: divide_le_eq pos_le_divide_eq mult.commute del: of_nat_add)
    then show ?thesis using True \<open>0 < c + r\<close> by (simp add: confirm_ratio_def rnd64_fle del: of_nat_add)
  next
    case False
    then show ?thesis using assms by (simp add: confirm_ratio_def rnd64_def)
  qed
next
  case False
  then show ?thesis using rnd64_fle[of "of_int 0"] rnd64_of_int[of 0] by (simp add: confirm_ratio_def)
qed

text \<open>The fleet moves a rule within fixed bounds and in the right direction: the multiplier lies between the muted and the ceiling value,
  stays neutral under 5 confirmed and 10 refuted episodes, and neither another confirmation lowers it nor another refutation raises it.\<close>
theorem reinforcement_follows_the_fleet:
  shows "fle MUTE_MULT (reinforcement stats) \<and> fle (reinforcement stats) CEILING_MULT \<and>
    (stat stats ''confirmed'' < 5 \<and> stat stats ''refuted'' < 10 \<longrightarrow> reinforcement stats = Fin 1) \<and>
    (stat stats ''confirmed'' \<le> stat stats' ''confirmed'' \<and> stat stats' ''refuted'' \<le> stat stats ''refuted'' \<longrightarrow>
       fle (reinforcement stats) (reinforcement stats'))"
proof (intro conjI impI)
  obtain a b where m: "MUTE_MULT = Fin a" "BOOST_MULT = Fin b" "3 / 4 \<le> a" "a \<le> 1" "1 \<le> b" "b \<le> 3 / 2" using multipliers by blast
  note defs = reinforcement_def Let_def CEILING_MULT_def NEUTRAL_MULT_def m(1,2)
  show "fle MUTE_MULT (reinforcement stats)" "fle (reinforcement stats) CEILING_MULT" using m by (simp_all add: defs)
  show "reinforcement stats = Fin 1" if "stat stats ''confirmed'' < 5 \<and> stat stats ''refuted'' < 10"
    using that by (simp add: defs CEILING_MIN_CONFIRMED_def BOOST_MIN_CONFIRMED_def MUTE_MIN_REFUTED_def)
  assume le: "stat stats ''confirmed'' \<le> stat stats' ''confirmed'' \<and> stat stats' ''refuted'' \<le> stat stats ''refuted''"
  define r r' where "r = confirm_ratio (stat stats ''confirmed'') (stat stats ''refuted'')"
    and "r' = confirm_ratio (stat stats' ''confirmed'') (stat stats' ''refuted'')"
  have "fle r r'" unfolding r_def r'_def using le by (intro confirm_ratio_mono) auto
  have up: "fle BOOST_MIN_RATIO r \<Longrightarrow> fle BOOST_MIN_RATIO r'" using \<open>fle r r'\<close> fle_trans by blast
  have down: "flt r' MUTE_MAX_RATIO \<Longrightarrow> flt r MUTE_MAX_RATIO"
    using \<open>fle r r'\<close> fle_flt_trans by blast
  show "fle (reinforcement stats) (reinforcement stats')"
    unfolding defs r_def[symmetric] r'_def[symmetric]
    by (rule ladder_mono) (use up down le m(3-) in \<open>auto intro: order_trans\<close>)
qed

subsection \<open>Samples\<close>

definition score_row :: "string \<Rightarrow> string list \<Rightarrow> string \<Rightarrow> jobj" where
  "score_row day flags b = [(''ts'', JStr day), (''risk'', JObj [(''score100'', JObj [(''storage_risk'',
     JObj [(''band'', JStr b), (''coords'', JObj [(''flags'', JList (map JStr flags))])])])])]"

lemma score_row_ts:
  "parse_ts (jget (score_row ''1970-01-01'' fs b) ''ts'') = Some (Stamp 0 (Some 0))"
  "parse_ts (jget (score_row ''1970-01-02'' fs b) ''ts'') = Some (Stamp day_us (Some 0))"
  "parse_ts (jget (score_row ''1970-05-01'' fs b) ''ts'') = Some (Stamp (120 * day_us) (Some 0))"
proof -
  have "fromisoformat (replace_Z (strip ''1970-01-01'')) = Inr (Stamp 0 None)"
    "fromisoformat (replace_Z (strip ''1970-01-02'')) = Inr (Stamp day_us None)"
    "fromisoformat (replace_Z (strip ''1970-05-01'')) = Inr (Stamp (120 * day_us) None)" by code_simp+
  then show "parse_ts (jget (score_row ''1970-01-01'' fs b) ''ts'') = Some (Stamp 0 (Some 0))"
    "parse_ts (jget (score_row ''1970-01-02'' fs b) ''ts'') = Some (Stamp day_us (Some 0))"
    "parse_ts (jget (score_row ''1970-05-01'' fs b) ''ts'') = Some (Stamp (120 * day_us) (Some 0))"
    by (simp_all add: parse_ts_def score_row_def jget_def)
qed

lemma score_row_reads:
  "has_flag flag (score_row day fs b) = Inr (flag \<in> set fs)"
  "confirms (score_row day fs b) = Inr (b = ''bad'')"
  by (auto simp: has_flag_def row_flags_def confirms_def sub_object_def score_row_def jget_def list_ex_iff)

lemmas score_row_simps = score_row_ts score_row_reads scan_rule_def resolve_episode_def has_row_in_window_def last_moment_def
  as_utc_def CONFIRM_WINDOW_def REFUTE_WINDOW_def day_us_def MAX_STAMP_def refutation_blocked_def flag_for_rule_def

lemma far_stamp: "epoch_day 10000 1 1 = 2932897"
  by (simp add: epoch_day_def days_before_year_def days_before_month_def)

definition quiet_rows :: "jobj list" where
  "quiet_rows = [score_row ''1970-01-01'' [''pending_gt10''] ''watch'', score_row ''1970-01-02'' [] ''good'']"

lemma quiet_scan:
  "scan_rule quiet_rows ''pending_high'' ''pending_gt10'' (60 * day_us) = Inr [(''pending_high'', Refuted, Stamp 0 (Some 0))]"
  "scan_device quiet_rows (60 * day_us) = Inr [(''pending_high'', Refuted, Stamp 0 (Some 0))]"
  by (simp_all add: scan_device_def RULE_KEYS_def quiet_rows_def score_row_simps far_stamp Let_def)

theorem every_outcome_is_earned_witness:
  "REFUTE_WINDOW \<le> 60 * day_us - as_utc (Stamp 0 (Some 0))"
  using every_outcome_is_earned[OF quiet_scan(1), of "''pending_high''" Refuted "Stamp 0 (Some 0)"] by simp

theorem resolved_episodes_are_final_witness:
  "\<exists>outs'. scan_device (quiet_rows @ [score_row ''1970-05-01'' [''pending_gt10''] ''bad'']) (121 * day_us) = Inr outs' \<and>
     (''pending_high'', Refuted, Stamp 0 (Some 0)) \<in> set outs'"
proof -
  have "scan_device (quiet_rows @ [score_row ''1970-05-01'' [''pending_gt10''] ''bad'']) (121 * day_us)
      = Inr [(''pending_high'', Refuted, Stamp 0 (Some 0))]"
    by (simp add: scan_device_def RULE_KEYS_def quiet_rows_def score_row_simps far_stamp Let_def)
  note later = this
  have "after (60 * day_us) [score_row ''1970-05-01'' [''pending_gt10''] ''bad'']"
    by (simp add: after_def score_row_ts as_utc_def day_us_def)
  from resolved_episodes_are_final[OF quiet_scan(2) later this] later show ?thesis by (simp add: day_us_def)
qed

theorem reinforcement_follows_the_fleet_witness:
  "reinforcement [(''confirmed'', 4), (''refuted'', 9)] = Fin 1 \<and>
   fle (reinforcement [(''confirmed'', 4), (''refuted'', 9)]) (reinforcement [(''confirmed'', 9), (''refuted'', 3)])"
  using reinforcement_follows_the_fleet[of "[(''confirmed'', 4), (''refuted'', 9)]" "[(''confirmed'', 9), (''refuted'', 3)]"]
  by (auto simp: stat_def)

end
