(* ===== verification/Storage.thy ===== *)
theory Storage imports ErrChain RuleStats begin

text \<open>
  The storage engine of \<open>server/analytics/storage.py\<close>: one disk is scored by a list of rules, each of which may add
  to the risk and to one of the two coordinates (accumulated damage, lost resilience) and may set a flag; the
  worst disk of a machine gives the axis.  A disk, a heartbeat and a row of a disk's history are decoded JSON.
  Each rule of the program's long function is one definition; a rule reads the fields it needs itself.
\<close>

subsection \<open>The tally of a disk\<close>

datatype st_label = ST_Realloc int | ST_IoErrors int | ST_Wear pyfloat | ST_Hot int | ST_Warm int | ST_PowerOn pyfloat
  | ST_Firmware | ST_SpareWarning | ST_TempWarning | ST_ReliabilityWarning | ST_ReadOnly | ST_BackupPower
  | ST_Pending int | ST_Uncorrectable int | ST_Media int | ST_SpareBelow pyfloat pyfloat | ST_Attr5 int | ST_Attr187 int
  | ST_Attr188 int | ST_Uncorrected int | ST_Attr196 int | ST_Worn pyfloat | ST_Unsafe int | ST_Recurrence | ST_Accel
  | ST_Masking | ST_Synergy | ST_Stage3 | ST_Stage2 | ST_Bursts | ST_Early | ST_Age | ST_Latency pyfloat
  | ST_RuleConfirmed string nat | ST_RuleMuted string

datatype st_coord = NoCoord | DamageCoord | LossCoord

record st_factor =
  sf_label :: st_label
  sf_delta :: pyfloat

record st_tally =
  st_value :: pyfloat
  st_damage :: pyfloat
  st_loss :: pyfloat
  st_factors :: "st_factor list"
  st_flags :: "string list"
  st_mults :: "pyfloat list"
  st_other :: bool

definition empty_tally :: st_tally where
  "empty_tally = \<lparr>st_value = Fin 0, st_damage = Fin 0, st_loss = Fin 0, st_factors = [], st_flags = [], st_mults = [], st_other = False\<rparr>"

definition add_coord :: "st_coord \<Rightarrow> pyfloat \<Rightarrow> string option \<Rightarrow> st_tally \<Rightarrow> st_tally" where
  "add_coord c pts flag t = t\<lparr>
     st_damage := (if c = DamageCoord then fadd (st_damage t) pts else st_damage t),
     st_loss := (if c = LossCoord then fadd (st_loss t) pts else st_loss t),
     st_flags := st_flags t @ (case flag of None \<Rightarrow> [] | Some f \<Rightarrow> [f])\<rparr>"

definition st_hit :: "st_label \<Rightarrow> pyfloat \<Rightarrow> st_coord \<Rightarrow> pyfloat \<Rightarrow> string option \<Rightarrow> st_tally \<Rightarrow> st_tally" where
  "st_hit l delta c pts flag t = add_coord c pts flag (t\<lparr>st_value := fadd (st_value t) delta,
     st_factors := st_factors t @ [\<lparr>sf_label = l, sf_delta = fround 1 delta\<rparr>], st_other := True\<rparr>)"

definition legacy_hit :: "st_label \<Rightarrow> pyfloat \<Rightarrow> string option \<Rightarrow> st_tally \<Rightarrow> st_tally" where
  "legacy_hit l delta flag t = add_coord NoCoord (Fin 0) flag (t\<lparr>st_value := fadd (st_value t) delta,
     st_factors := st_factors t @ [\<lparr>sf_label = l, sf_delta = fround 1 delta\<rparr>]\<rparr>)"

definition hit_mult :: "st_label \<Rightarrow> pyfloat \<Rightarrow> st_coord \<Rightarrow> pyfloat \<Rightarrow> string option \<Rightarrow> st_tally \<Rightarrow> st_tally" where
  "hit_mult l m c pts flag t = add_coord c pts flag (t\<lparr>st_mults := st_mults t @ [m],
     st_factors := st_factors t @ [\<lparr>sf_label = l, sf_delta = fround 1 pts\<rparr>], st_other := True\<rparr>)"

subsection \<open>What a rule looks at\<close>

record st_context =
  \<comment> \<open>no series, no trends and no statistics are the empty ones\<close>
  cx_hb :: "jobj option"
  cx_series :: "jobj list"
  cx_chain :: "err_chain option"
  cx_trends :: "(string, trend) dict"
  cx_stats :: "(string, (string, nat) dict) dict"

definition no_context :: st_context where
  "no_context = \<lparr>cx_hb = None, cx_series = [], cx_chain = None, cx_trends = [], cx_stats = []\<rparr>"

type_synonym st_rule = "st_context \<Rightarrow> jobj \<Rightarrow> st_tally \<Rightarrow> st_tally res"

definition disk_num :: "jobj \<Rightarrow> string \<Rightarrow> pyfloat option res" where
  "disk_num disk key = to_num (jget disk key)"

definition attrs_of :: "jobj \<Rightarrow> jobj" where
  "attrs_of disk = (case jget disk ''smart_attrs'' of JObj a \<Rightarrow> a | _ \<Rightarrow> [])"

definition attr_num :: "jobj \<Rightarrow> string \<Rightarrow> pyfloat option res" where
  "attr_num disk key = to_num (jget (attrs_of disk) key)"

definition when_num :: "pyfloat option res \<Rightarrow> (pyfloat \<Rightarrow> st_tally \<Rightarrow> st_tally res) \<Rightarrow> st_tally \<Rightarrow> st_tally res" where
  \<comment> \<open>\<open>if x is not None\<close>\<close>
  "when_num r f t = bindE r (\<lambda>x. case x of None \<Rightarrow> Inr t | Some v \<Rightarrow> f v t)"

definition whole :: "pyfloat \<Rightarrow> (int \<Rightarrow> st_tally \<Rightarrow> st_tally) \<Rightarrow> st_tally \<Rightarrow> st_tally res" where
  \<comment> \<open>a hit whose text holds \<open>int(x)\<close>\<close>
  "whole x f t = bindE (int_of_float x) (\<lambda>i. Inr (f i t))"

definition or_zero_num :: "pyfloat option res \<Rightarrow> pyfloat res" where
  "or_zero_num r = bindE r (\<lambda>x. Inr (case x of None \<Rightarrow> Fin 0 | Some v \<Rightarrow> v))"

definition positive :: "pyfloat option res \<Rightarrow> bool res" where
  \<comment> \<open>\<open>(x or 0) > 0\<close>\<close>
  "positive r = bindE r (\<lambda>x. Inr (case x of None \<Rightarrow> False | Some v \<Rightarrow> flt (Fin 0) v))"

definition is_target_disk :: "st_context \<Rightarrow> jobj \<Rightarrow> bool" where
  "is_target_disk cx disk = (case cx_series cx of [] \<Rightarrow> False
     | row # _ \<Rightarrow> py_eq (jget row ''serial_hash'') (jget disk ''serial_hash''))"

subsection \<open>The history of a disk\<close>

definition RECURRENCE_MIN_GAP :: int where "RECURRENCE_MIN_GAP = 7 * day_us"
definition UNSAFE_SHUTDOWNS_HIGH :: pyfloat where "UNSAFE_SHUTDOWNS_HIGH = Fin 10"
definition MIN_HIGH_CONF_SAMPLES :: nat where "MIN_HIGH_CONF_SAMPLES = 3"
definition LATENCY_HIGH_SEC :: pyfloat where "LATENCY_HIGH_SEC = rnd64 (5 / 100)"

definition grew :: "pyfloat option \<Rightarrow> pyfloat option \<Rightarrow> bool" where
  "grew a b \<longleftrightarrow> (case (a, b) of (Some x, Some y) \<Rightarrow> flt x y | _ \<Rightarrow> False)"

definition pair_grew :: "jobj \<Rightarrow> jobj \<Rightarrow> bool res" where
  \<comment> \<open>the three pairs are read before any of them is compared\<close>
  "pair_grew earlier newer =
     bindE (disk_num earlier ''nvme_media_errors'') (\<lambda>a. bindE (disk_num newer ''nvme_media_errors'') (\<lambda>a'.
     bindE (attr_num earlier ''197'') (\<lambda>b. bindE (attr_num newer ''197'') (\<lambda>b'.
     bindE (attr_num earlier ''5'') (\<lambda>c. bindE (attr_num newer ''5'') (\<lambda>c'.
     Inr (grew a a' \<or> grew b b' \<or> grew c c')))))))"

fun later_grew :: "int \<Rightarrow> jobj \<Rightarrow> (int \<times> jobj) list \<Rightarrow> bool res" where
  \<comment> \<open>the inner loop\<close>
  "later_grew t earlier [] = Inr False"
| "later_grew t earlier ((u, newer) # ps) =
     (if u - t < RECURRENCE_MIN_GAP then later_grew t earlier ps
      else bindE (pair_grew earlier newer) (\<lambda>b. if b then Inr True else later_grew t earlier ps))"

fun any_later_grew :: "(int \<times> jobj) list \<Rightarrow> bool res" where
  "any_later_grew [] = Inr False"
| "any_later_grew ((t, earlier) # ps) = bindE (later_grew t earlier ps) (\<lambda>g. if g then Inr True else any_later_grew ps)"

definition dated_rows :: "jobj list \<Rightarrow> (int \<times> jobj) list" where
  "dated_rows series = sort_key fst (List.map_filter (\<lambda>row. map_option (\<lambda>t. (t, row)) (row_time row)) series)"

definition has_recurrence :: "jobj list \<Rightarrow> bool res" where
  "has_recurrence series = any_later_grew (dated_rows series)"

definition temp_sustained_high :: "jobj \<Rightarrow> st_context \<Rightarrow> bool res" where
  "temp_sustained_high disk cx =
     (if \<not> is_target_disk cx disk then Inr False
      else bindE (mapE (\<lambda>row. disk_num row ''temperature_c'') (cx_series cx)) (\<lambda>ts.
        let temps = List.map_filter (\<lambda>t. t) ts
        in Inr (MIN_HIGH_CONF_SAMPLES \<le> length temps \<and> flt (Fin 70) (median temps))))"

subsection \<open>The rules of the first version\<close>

definition realloc_risk :: st_rule where
  "realloc_risk cx disk = when_num (disk_num disk ''reallocated_sectors'') (\<lambda>x t.
     if flt (Fin 0) x
     then whole x (\<lambda>i. legacy_hit (ST_Realloc i) (if flt (Fin 100) x then Fin 60 else Fin 35) None) t else Inr t)"

definition io_error_risk :: st_rule where
  "io_error_risk cx disk t =
     bindE (or_zero_num (disk_num disk ''read_errors_total'')) (\<lambda>r.
     bindE (or_zero_num (disk_num disk ''write_errors_total'')) (\<lambda>w.
     let x = fadd r w
     in if flt (Fin 0) x
        then whole x (\<lambda>i. legacy_hit (ST_IoErrors i) (if flt (Fin 100) x then Fin 60 else Fin 40) None) t else Inr t))"

definition wear_risk :: st_rule where
  "wear_risk cx disk = when_num (disk_num disk ''wear_pct'') (\<lambda>x t. Inr
     (if flt (Fin 95) x then legacy_hit (ST_Wear x) (Fin 40) None t
      else if flt (Fin 85) x then legacy_hit (ST_Wear x) (Fin 25) None t
      else if flt (Fin 70) x then legacy_hit (ST_Wear x) (Fin 12) None t else t))"

definition heat_risk :: st_rule where
  "heat_risk cx disk = when_num (disk_num disk ''temperature_c'') (\<lambda>x t.
     if flt (Fin 70) x
     then bindE (temp_sustained_high disk cx) (\<lambda>stable.
       whole x (\<lambda>i. legacy_hit (ST_Hot i) (Fin 15) (if stable then None else Some ''temp_unstable'')) t)
     else if flt (Fin 60) x then whole x (\<lambda>i. legacy_hit (ST_Warm i) (Fin 8) None) t else Inr t)"

definition power_on_risk :: st_rule where
  "power_on_risk cx disk = when_num (disk_num disk ''power_on_hours'') (\<lambda>x t. Inr
     (if flt (Fin 40000) x then legacy_hit (ST_PowerOn x) (Fin 8) None t
      else if flt (Fin 25000) x then legacy_hit (ST_PowerOn x) (Fin 4) None t else t))"

definition legacy_rules :: "st_rule list" where
  "legacy_rules = [realloc_risk, io_error_risk, wear_risk, heat_risk, power_on_risk]"

subsection \<open>Rules that judge a coordinate\<close>

definition firmware_risk :: st_rule where
  "firmware_risk cx disk t = Inr (if truthy (jget disk ''smart_predict_fail'')
     then st_hit ST_Firmware (Fin 70) DamageCoord (Fin 70) (Some ''predict_fail'') t else t)"

definition critical_warning :: "jobj \<Rightarrow> int option res" where
  "critical_warning disk = (case jget disk ''nvme_critical_warning'' of
       JBool b \<Rightarrow> Inr (Some (if b then 1 else 0)) | JInt i \<Rightarrow> Inr (Some i)
     | JFloat x \<Rightarrow> bindE (int_of_float x) (\<lambda>i. Inr (Some i)) | _ \<Rightarrow> Inr None)"

definition hit_bit :: "int \<Rightarrow> nat \<Rightarrow> (st_tally \<Rightarrow> st_tally) \<Rightarrow> st_tally \<Rightarrow> st_tally" where
  \<comment> \<open>\<open>if cw & 2 ** n\<close>\<close>
  "hit_bit cw n f t = (if odd (cw div 2 ^ n) then f t else t)"

definition critical_warning_risk :: st_rule where
  "critical_warning_risk cx disk t = bindE (critical_warning disk) (\<lambda>w. Inr (case w of None \<Rightarrow> t
     | Some cw \<Rightarrow>
        hit_bit cw 4 (st_hit ST_BackupPower (Fin 40) DamageCoord (Fin 40) None)
       (hit_bit cw 3 (st_hit ST_ReadOnly (Fin 80) DamageCoord (Fin 80) (Some ''cw_readonly''))
       (hit_bit cw 2 (st_hit ST_ReliabilityWarning (Fin 70) DamageCoord (Fin 70) (Some ''cw_reliability''))
       (hit_bit cw 1 (st_hit ST_TempWarning (Fin 30) LossCoord (Fin 30) None)
       (hit_bit cw 0 (st_hit ST_SpareWarning (Fin 70) LossCoord (Fin 70) (Some ''cw_spare'')) t))))))"

definition rule_multiplier :: "st_context \<Rightarrow> string \<Rightarrow> pyfloat" where
  "rule_multiplier cx key = reinforcement (case dict_get (cx_stats cx) key of None \<Rightarrow> [] | Some s \<Rightarrow> s)"

definition reinforced :: "st_context \<Rightarrow> string \<Rightarrow> st_tally \<Rightarrow> st_tally" where
  \<comment> \<open>the note beside a rule that the fleet has moved, worth nothing itself\<close>
  "reinforced cx key t =
     (let stats = (case dict_get (cx_stats cx) key of None \<Rightarrow> [] | Some s \<Rightarrow> s); m = reinforcement stats
      in if flt (Fin 1) m then st_hit (ST_RuleConfirmed key (stat stats ''confirmed'')) (Fin 0) NoCoord (Fin 0) None t
         else if flt m (Fin 1) then st_hit (ST_RuleMuted key) (Fin 0) NoCoord (Fin 0) None t else t)"

definition pending_risk :: st_rule where
  "pending_risk cx disk = when_num (attr_num disk ''197'') (\<lambda>x t.
     if flt (Fin 10) x
     then (let pts = fmul (Fin 60) (rule_multiplier cx ''pending_high'')
       in whole x (\<lambda>i. st_hit (ST_Pending i) pts DamageCoord pts (Some ''pending_gt10'')) (reinforced cx ''pending_high'' t))
     else if flt (Fin 0) x
     then whole x (\<lambda>i. st_hit (ST_Pending i) (Fin 45) DamageCoord (Fin 45) (Some ''damage_present'')) t else Inr t)"

definition counter_risk :: "pyfloat option res \<Rightarrow> (int \<Rightarrow> st_label) \<Rightarrow> rat \<Rightarrow> st_coord \<Rightarrow> string option \<Rightarrow> st_tally \<Rightarrow> st_tally res" where
  \<comment> \<open>\<open>if n is not None and n > 0: hit(...)\<close>\<close>
  "counter_risk r l pts c flag = when_num r (\<lambda>x t.
     if flt (Fin 0) x then whole x (\<lambda>i. st_hit (l i) (Fin pts) c (Fin pts) flag) t else Inr t)"

definition uncorrectable_risk :: st_rule where
  "uncorrectable_risk cx disk = counter_risk (attr_num disk ''198'') ST_Uncorrectable 60 DamageCoord (Some ''uncorrectable_198'')"

definition media_risk :: st_rule where
  "media_risk cx disk = counter_risk (disk_num disk ''nvme_media_errors'') ST_Media 45 DamageCoord (Some ''damage_present'')"

definition spare_risk :: st_rule where
  "spare_risk cx disk t =
     bindE (disk_num disk ''nvme_spare_pct'') (\<lambda>a. bindE (disk_num disk ''nvme_spare_threshold_pct'') (\<lambda>b.
     Inr (case (a, b) of
         (Some x, Some y) \<Rightarrow> if flt x y then st_hit (ST_SpareBelow x y) (Fin 70) LossCoord (Fin 70) (Some ''spare_below_threshold'') t else t
       | _ \<Rightarrow> t)))"

definition attr5_risk :: st_rule where
  "attr5_risk cx disk = when_num (attr_num disk ''5'') (\<lambda>x t.
     if flt (Fin 100) x then whole x (\<lambda>i. st_hit (ST_Attr5 i) (Fin 50) DamageCoord (Fin 50) (Some ''damage_present'')) t
     else if flt (Fin 0) x then whole x (\<lambda>i. st_hit (ST_Attr5 i) (Fin 30) DamageCoord (Fin 30) (Some ''damage_present'')) t
     else Inr t)"

definition attr187_risk :: st_rule where
  "attr187_risk cx disk = counter_risk (attr_num disk ''187'') ST_Attr187 35 DamageCoord (Some ''damage_present'')"

definition attr188_risk :: st_rule where
  "attr188_risk cx disk = counter_risk (attr_num disk ''188'') ST_Attr188 20 LossCoord None"

definition uncorrected_risk :: st_rule where
  "uncorrected_risk cx disk t =
     bindE (or_zero_num (disk_num disk ''read_errors_uncorrected'')) (\<lambda>r.
     bindE (or_zero_num (disk_num disk ''write_errors_uncorrected'')) (\<lambda>w.
     let x = fadd r w
     in if flt (Fin 0) x
        then whole x (\<lambda>i. st_hit (ST_Uncorrected i) (Fin 40) DamageCoord (Fin 40) (Some ''damage_present'')) t else Inr t))"

definition attr196_risk :: st_rule where
  "attr196_risk cx disk = counter_risk (attr_num disk ''196'') ST_Attr196 25 DamageCoord (Some ''damage_present'')"

definition worn_risk :: st_rule where
  "worn_risk cx disk t =
     bindE (disk_num disk ''wear_pct'') (\<lambda>wear. when_num (disk_num disk ''nvme_percentage_used'') (\<lambda>used t.
       let lv = (case wear of None \<Rightarrow> used | Some w \<Rightarrow> py_max used w)
       in Inr (if flt (Fin 95) lv then st_hit (ST_Worn lv) (Fin 40) DamageCoord (Fin 40) None t
               else if flt (Fin 85) lv then st_hit (ST_Worn lv) (Fin 25) DamageCoord (Fin 25) None t else t)) t)"

definition unsafe_shutdown_risk :: st_rule where
  "unsafe_shutdown_risk cx disk = when_num (disk_num disk ''nvme_unsafe_shutdowns'') (\<lambda>x t.
     bindE (positive (disk_num disk ''nvme_media_errors'')) (\<lambda>m. bindE (positive (attr_num disk ''197'')) (\<lambda>p.
     if flt UNSAFE_SHUTDOWNS_HIGH x \<and> (m \<or> p) then whole x (\<lambda>i. st_hit (ST_Unsafe i) (Fin 10) LossCoord (Fin 10) None) t else Inr t)))"

subsection \<open>Rules on dynamics\<close>

definition recurrence_risk :: st_rule where
  "recurrence_risk cx disk t =
     (if \<not> is_target_disk cx disk then Inr t
      else bindE (has_recurrence (cx_series cx)) (\<lambda>b. Inr (if b
        then let m = rule_multiplier cx ''media_recurrence''
          in hit_mult ST_Recurrence (fmul (rnd64 (13 / 10)) m) LossCoord (fmul (Fin 30) m) (Some ''recurrence'') (reinforced cx ''media_recurrence'' t)
        else t)))"

definition trend_turns :: "st_context \<Rightarrow> string \<Rightarrow> trend_direction \<Rightarrow> bool" where
  "trend_turns cx key d \<longleftrightarrow> (case dict_get (cx_trends cx) key of None \<Rightarrow> False | Some t \<Rightarrow> tn_direction t = d)"

definition trend_accelerates :: "st_context \<Rightarrow> string \<Rightarrow> bool" where
  "trend_accelerates cx key \<longleftrightarrow> (case dict_get (cx_trends cx) key of None \<Rightarrow> False | Some t \<Rightarrow> tn_accelerating t = Some True)"

definition trend_risk :: st_rule where
  "trend_risk cx disk t = Inr
     (if \<not> is_target_disk cx disk then t
      else let t = (if list_ex (trend_accelerates cx) [''smart_pending'', ''smart_media_errors'', ''smart_realloc'']
             then hit_mult ST_Accel (rnd64 (14 / 10)) LossCoord (Fin 40) (Some ''accel'') t else t)
        in if trend_turns cx ''smart_realloc'' Worsening \<and> trend_turns cx ''smart_pending'' Improving
           then st_hit ST_Masking (Fin 25) LossCoord (Fin 25) (Some ''remap_masking'') t else t)"

definition chain_stage :: "st_context \<Rightarrow> nat" where
  "chain_stage cx = (case cx_chain cx of None \<Rightarrow> 0 | Some c \<Rightarrow> ec_stage c)"

definition synergy_risk :: st_rule where
  "synergy_risk cx disk t =
     bindE (positive (attr_num disk ''197'')) (\<lambda>p. bindE (positive (attr_num disk ''5'')) (\<lambda>a.
     bindE (disk_num disk ''nvme_percentage_used'') (\<lambda>used.
     let first = (if (p \<or> a) \<and> 1 \<le> chain_stage cx then [Fin (3 / 2)] else []);
         second = (if is_target_disk cx disk \<and> trend_turns cx ''nvme_spare'' Worsening \<and>
             (case used of None \<Rightarrow> False | Some u \<Rightarrow> flt (Fin 85) u) then [rnd64 (13 / 10)] else [])
     in Inr (case first @ second of [] \<Rightarrow> t
        | m # ms \<Rightarrow> hit_mult ST_Synergy (foldl py_max m ms) LossCoord (Fin 25) (Some ''compensation_breach'') t))))"

definition chain_risk :: st_rule where
  "chain_risk cx disk t = Inr
     (if 3 \<le> chain_stage cx then st_hit ST_Stage3 (Fin 25) LossCoord (Fin 45) (Some ''chain_stage3'') t
      else if chain_stage cx = 2 then hit_mult ST_Stage2 (Fin (5 / 4)) LossCoord (Fin 30) (Some ''chain_stage2'') t else t)"

definition burst_risk :: st_rule where
  "burst_risk cx disk t = Inr
     (case cx_chain cx of None \<Rightarrow> t
      | Some c \<Rightarrow> (case ec_burstiness c of None \<Rightarrow> t
          | Some b \<Rightarrow> if flt (Fin 2) b then st_hit ST_Bursts (Fin 10) LossCoord (Fin 10) None t else t))"

definition early_risk :: st_rule where
  "early_risk cx disk t = Inr
     (case cx_chain cx of None \<Rightarrow> t
      | Some c \<Rightarrow>
          if 0 < stat (ec_counts c) ''early'' \<and> stat (ec_counts c) ''damage'' = 0
          then let m = rule_multiplier cx ''early_chain''
            in st_hit ST_Early (fmul (Fin 0) m) LossCoord (fmul (Fin 15) m) (Some ''early_events'') (reinforced cx ''early_chain'' t)
          else t)"

definition age_risk :: st_rule where
  "age_risk cx disk t =
     bindE (disk_num disk ''power_on_hours'') (\<lambda>poh. bindE (disk_num disk ''nvme_power_cycles'') (\<lambda>cycles.
     Inr (if st_other t \<and> ((case poh of None \<Rightarrow> False | Some x \<Rightarrow> flt (Fin 40000) x) \<or>
            (case cycles of None \<Rightarrow> False | Some x \<Rightarrow> flt (Fin 10000) x))
          then st_hit ST_Age (Fin 5) DamageCoord (Fin 5) None t else t)))"

definition latency_risk :: st_rule where
  "latency_risk cx disk t =
     (if \<not> flt (Fin 0) (st_value t) then Inr t
      else bindE (or_zero_num (num_field (cx_hb cx) ''disk_read_sec'')) (\<lambda>r.
           bindE (or_zero_num (num_field (cx_hb cx) ''disk_write_sec'')) (\<lambda>w.
           let x = py_max r w
           in Inr (if flt LATENCY_HIGH_SEC x then st_hit (ST_Latency x) (Fin 10) NoCoord (Fin 0) None t else t))))"

definition coord_rules :: "st_rule list" where
  "coord_rules = [firmware_risk, critical_warning_risk, pending_risk, uncorrectable_risk, media_risk, spare_risk, attr5_risk,
     attr187_risk, attr188_risk, uncorrected_risk, attr196_risk, worn_risk, unsafe_shutdown_risk, recurrence_risk, trend_risk,
     synergy_risk, chain_risk, burst_risk, early_risk, age_risk]"

subsection \<open>A disk, and the worst disk\<close>

fun run_rules :: "st_rule list \<Rightarrow> st_context \<Rightarrow> jobj \<Rightarrow> st_tally \<Rightarrow> st_tally res" where
  "run_rules [] cx disk t = Inr t"
| "run_rules (r # rs) cx disk t = bindE (r cx disk t) (run_rules rs cx disk)"

record st_coords =
  co_damage :: pyfloat
  co_loss :: pyfloat
  co_flags :: "string list"

definition close_tally :: "st_tally \<Rightarrow> pyfloat \<times> st_factor list \<times> st_coords" where
  "close_tally t =
     (clamp (fmul (clamp (st_value t) 0 100) (case st_mults t of [] \<Rightarrow> Fin 1 | m # ms \<Rightarrow> foldl py_max m ms)) 0 100,
      st_factors t, \<lparr>co_damage = clamp (st_damage t) 0 100, co_loss = clamp (st_loss t) 0 100, co_flags = st_flags t\<rparr>)"

definition score_disk :: "st_context \<Rightarrow> jobj \<Rightarrow> (pyfloat \<times> st_factor list \<times> st_coords) res" where
  "score_disk cx disk = bindE (run_rules (legacy_rules @ coord_rules @ [latency_risk]) cx disk empty_tally) (\<lambda>t. Inr (close_tally t))"

definition SMART_FIELDS :: "string list" where
  "SMART_FIELDS = [''reallocated_sectors'', ''read_errors_total'', ''write_errors_total'', ''wear_pct'', ''temperature_c'',
     ''power_on_hours'', ''smart_predict_fail'', ''nvme_critical_warning'', ''nvme_media_errors'', ''nvme_spare_pct'',
     ''nvme_percentage_used'', ''read_errors_uncorrected'', ''write_errors_uncorrected'']"

definition has_smart :: "jobj \<Rightarrow> bool" where
  "has_smart disk \<longleftrightarrow> list_ex (\<lambda>f. jget disk f \<noteq> JNull) SMART_FIELDS \<or> truthy (jget disk ''smart_attrs'')"

definition disks_of :: "jobj option \<Rightarrow> jval list res" where
  "disks_of hist = (case hist of None \<Rightarrow> Inr [] | Some h \<Rightarrow> iterate (jget h ''storage''))"

fun worst_key_loop :: "jval list \<Rightarrow> (jval \<times> pyfloat) option \<Rightarrow> (jval \<times> pyfloat) option res" where
  "worst_key_loop [] best = Inr best"
| "worst_key_loop (d # ds) best = (case d of
       JObj disk \<Rightarrow>
         if \<not> truthy (jget disk ''serial_hash'') then worst_key_loop ds best
         else bindE (score_disk no_context disk) (\<lambda>(_, _, coords).
           worst_key_loop ds (if (case best of None \<Rightarrow> True | Some (_, b) \<Rightarrow> flt b (co_damage coords))
             then Some (jget disk ''serial_hash'', co_damage coords) else best))
     | _ \<Rightarrow> worst_key_loop ds best)"

definition worst_disk_key :: "jobj option \<Rightarrow> jval option res" where
  "worst_disk_key hist = bindE (disks_of hist) (\<lambda>ds. bindE (worst_key_loop ds None) (\<lambda>b. Inr (map_option fst b)))"

record worst_disk =
  wd_value :: pyfloat
  wd_factors :: "st_factor list"
  wd_disk :: jval
  wd_coords :: st_coords

fun worst_loop :: "st_context \<Rightarrow> jval list \<Rightarrow> nat \<times> worst_disk option \<Rightarrow> (nat \<times> worst_disk option) res" where
  "worst_loop cx [] acc = Inr acc"
| "worst_loop cx (d # ds) (n, worst) = (case d of
       JObj disk \<Rightarrow>
         if \<not> has_smart disk then worst_loop cx ds (n, worst)
         else bindE (score_disk cx disk) (\<lambda>(v, fs, coords).
           worst_loop cx ds (Suc n, if (case worst of None \<Rightarrow> True | Some w \<Rightarrow> flt (wd_value w) v)
             then Some \<lparr>wd_value = v, wd_factors = fs, wd_disk = jget disk ''disk'', wd_coords = coords\<rparr> else worst))
     | _ \<Rightarrow> worst_loop cx ds (n, worst))"

datatype st_lineage = SL_None | SL_Identity | SL_Domain | SL_Disk jval nat nat st_coords
datatype st_reason = SN_Clean | SN_None | SN_Identity | SN_NoSmart | SN_Domain
datatype st_missing = SM_Identity | SM_NoSmart | SM_Domain

record storage_axis =
  sa_value :: "pyfloat option"
  sa_band :: band
  sa_confidence :: confidence
  sa_factors :: "st_factor list"
  sa_missing :: "st_missing list"
  sa_lineage :: st_lineage
  sa_reason :: st_reason

definition axis_withheld :: "st_missing \<Rightarrow> st_lineage \<Rightarrow> st_reason \<Rightarrow> storage_axis" where
  "axis_withheld m l r = \<lparr>sa_value = None, sa_band = NoBand, sa_confidence = NoConf, sa_factors = [], sa_missing = [m],
     sa_lineage = l, sa_reason = r\<rparr>"

definition storage_confidence :: "st_coords \<Rightarrow> confidence" where
  "storage_confidence c = (if ''temp_unstable'' \<in> set (co_flags c) then ConfMedium else ConfHigh)"

definition compute_storage_risk :: "jobj option \<Rightarrow> st_context \<Rightarrow> bool \<Rightarrow> domain_state option \<Rightarrow> storage_axis res" where
  "compute_storage_risk hist cx untrusted domain =
     (if untrusted then Inr (axis_withheld SM_Identity SL_Identity SN_Identity)
      else bindE (disks_of hist) (\<lambda>ds. bindE (worst_loop cx ds (0, None)) (\<lambda>(n, worst). Inr (case worst of
          None \<Rightarrow> axis_withheld SM_NoSmart SL_None SN_NoSmart
        | Some w \<Rightarrow>
            if domain = Some D_UNKNOWN then axis_withheld SM_Domain SL_Domain SN_Domain
            else \<lparr>sa_value = Some (wd_value w), sa_band = band_for_risk_score (Some (wd_value w)),
              sa_confidence = storage_confidence (wd_coords w), sa_factors = wd_factors w, sa_missing = [],
              sa_lineage = SL_Disk (wd_disk w) n (length ds) (wd_coords w),
              sa_reason = (if flt (Fin 0) (wd_value w) then SN_None else SN_Clean)\<rparr>))))"

subsection \<open>What every rule keeps\<close>

text \<open>The flags that state accumulated damage are the ones the health verdict calls hard; each of them comes with at least 25 points of
  damage, and each flag of lost resilience with at least 11 points of that coordinate.\<close>

definition D_FLAGS :: "string list" where
  "D_FLAGS = [''predict_fail'', ''cw_reliability'', ''cw_readonly'', ''pending_gt10'', ''uncorrectable_198'', ''damage_present'']"

definition R_FLAGS :: "string list" where
  "R_FLAGS = [''cw_spare'', ''spare_below_threshold'', ''recurrence'', ''accel'', ''remap_masking'', ''compensation_breach'',
     ''chain_stage3'', ''chain_stage2'', ''early_events'']"

definition amount :: "pyfloat \<Rightarrow> bool" where
  \<comment> \<open>a double that is not negative\<close>
  "amount x \<longleftrightarrow> double x \<and> fle (Fin 0) x"

definition backed :: "string \<Rightarrow> pyfloat \<Rightarrow> pyfloat \<Rightarrow> bool" where
  "backed f d r \<longleftrightarrow> (f \<in> set D_FLAGS \<longrightarrow> fle (Fin 25) d) \<and> (f \<in> set R_FLAGS \<longrightarrow> fle (Fin 11) r)"

definition sound :: "st_tally \<Rightarrow> bool" where
  "sound t \<longleftrightarrow> amount (st_value t) \<and> amount (st_damage t) \<and> amount (st_loss t) \<and>
     (st_value t = Fin 0 \<or> fle (Fin 1) (st_value t)) \<and> list_all (\<lambda>m. fle (Fin 1) m) (st_mults t) \<and>
     list_all (\<lambda>f. backed f (st_damage t) (st_loss t)) (st_flags t)"

lemma fadd_grows: "amount x \<Longrightarrow> fle (Fin 0) y \<Longrightarrow> fle x (fadd x y)"
  using rnd64_fle by (cases x; cases y) (auto simp: amount_def double_def, metis add.commute add.right_neutral add_left_mono)

lemma fadd_over: "amount x \<Longrightarrow> amount y \<Longrightarrow> fle y (fadd x y)"
  using rnd64_fle by (cases x; cases y) (auto simp: amount_def double_def, metis add.left_neutral add_right_mono)

lemma amount_fadd: "amount x \<Longrightarrow> fle (Fin 0) y \<Longrightarrow> amount (fadd x y)"
  using fadd_grows[of x y] fle_trans by (auto simp: amount_def)

lemma amount_refl: "amount x \<Longrightarrow> fle x x"
  by (cases x) (auto simp: amount_def)

lemma amount_small [simp]: "amount (Fin (numeral n)) \<longleftrightarrow> rnd64 (numeral n) = Fin (numeral n)" "amount (Fin 0)" "amount (Fin 1)"
  using rnd64_of_int[of 1] by (simp_all add: amount_def double_def rnd64_def)

lemma backed_mono: "backed f d r \<Longrightarrow> fle d d' \<Longrightarrow> fle r r' \<Longrightarrow> backed f d' r'"
  unfolding backed_def using fle_trans by blast

lemma sound_coord:
  assumes "sound t" "amount pts"
    "case flag of None \<Rightarrow> True | Some f \<Rightarrow> backed f (if c = DamageCoord then pts else Fin 0) (if c = LossCoord then pts else Fin 0)"
  shows "sound (add_coord c pts flag t)"
proof -
  let ?d = "st_damage (add_coord c pts flag t)" and ?r = "st_loss (add_coord c pts flag t)"
  have a: "amount (st_damage t)" "amount (st_loss t)" using assms(1) by (simp_all add: sound_def)
  have p: "fle (Fin 0) pts" using assms(2) by (simp add: amount_def)
  have grow: "fle (st_damage t) ?d" "fle (st_loss t) ?r" "amount ?d" "amount ?r"
    using a fadd_grows[OF _ p] amount_fadd[OF _ p] amount_refl by (simp_all add: add_coord_def)
  have over: "fle (if c = DamageCoord then pts else Fin 0) ?d" "fle (if c = LossCoord then pts else Fin 0) ?r"
    using a fadd_over[OF _ assms(2)] by (auto simp: add_coord_def amount_def)
  show ?thesis
    using assms(1,3) grow over backed_mono
    by (auto simp: sound_def list_all_iff add_coord_def split: option.splits)
qed

lemma sound_value:
  assumes "sound t" "amount d" "d = Fin 0 \<or> fle (Fin 1) d"
  shows "sound (t\<lparr>st_value := fadd (st_value t) d, st_factors := fs, st_other := b\<rparr>)"
proof -
  have v: "amount (st_value t)" "st_value t = Fin 0 \<or> fle (Fin 1) (st_value t)" using assms(1) by (simp_all add: sound_def)
  have d: "fle (Fin 0) d" using assms(2) by (simp add: amount_def)
  have "fadd (st_value t) d = Fin 0 \<or> fle (Fin 1) (fadd (st_value t) d)"
    using v assms(3) fle_trans[OF _ fadd_grows[OF v(1) d]] fle_trans[OF _ fadd_over[OF v(1) assms(2)]] by (auto simp: rnd64_def)
  then show ?thesis using assms(1) amount_fadd[OF v(1) d] by (simp add: sound_def)
qed

lemma whole_points: "rnd64 (numeral n) = Fin (numeral n)" if "(numeral n :: int) < 2 ^ 53"
  using rnd64_of_int[of "numeral n"] that by simp

lemma sound_hit:
  assumes "sound t" "amount delta" "delta = Fin 0 \<or> fle (Fin 1) delta" "amount pts"
    "case flag of None \<Rightarrow> True | Some f \<Rightarrow> backed f (if c = DamageCoord then pts else Fin 0) (if c = LossCoord then pts else Fin 0)"
  shows "sound (st_hit l delta c pts flag t)"
  unfolding st_hit_def by (rule sound_coord[OF sound_value[OF assms(1,2,3)] assms(4,5)])

lemma sound_legacy:
  assumes "sound t" "amount delta" "fle (Fin 1) delta" "case flag of None \<Rightarrow> True | Some f \<Rightarrow> backed f (Fin 0) (Fin 0)"
  shows "sound (legacy_hit l delta flag t)"
proof -
  have "sound (t\<lparr>st_value := fadd (st_value t) delta, st_factors := fs, st_other := st_other t\<rparr>)" for fs
    using assms by (intro sound_value) auto
  then have "sound (t\<lparr>st_value := fadd (st_value t) delta, st_factors := fs\<rparr>)" for fs by simp
  then show ?thesis unfolding legacy_hit_def by (rule sound_coord) (use assms(4) in \<open>simp_all split: option.splits\<close>)
qed

lemma sound_mult:
  assumes "sound t" "fle (Fin 1) m" "amount pts"
    "case flag of None \<Rightarrow> True | Some f \<Rightarrow> backed f (if c = DamageCoord then pts else Fin 0) (if c = LossCoord then pts else Fin 0)"
  shows "sound (hit_mult l m c pts flag t)"
  unfolding hit_mult_def by (rule sound_coord) (use assms in \<open>auto simp: sound_def\<close>)

definition keeps_sound :: "st_rule \<Rightarrow> bool" where
  "keeps_sound r \<longleftrightarrow> (\<forall>cx disk t t'. sound t \<longrightarrow> r cx disk t = Inr t' \<longrightarrow> sound t')"

lemma keeps_soundI: "(\<And>cx disk t t'. sound t \<Longrightarrow> r cx disk t = Inr t' \<Longrightarrow> sound t') \<Longrightarrow> keeps_sound r"
  by (auto simp: keeps_sound_def)

lemma when_sound: "sound t \<Longrightarrow> (\<And>x. f x t = Inr t' \<Longrightarrow> sound t') \<Longrightarrow> when_num r f t = Inr t' \<Longrightarrow> sound t'"
  by (auto simp: when_num_def split: option.splits)

lemma whole_sound: "whole x f t = Inr t' \<Longrightarrow> (\<And>i. sound (f i t)) \<Longrightarrow> sound t'"
  by (auto simp: whole_def)

lemmas flag_sets = backed_def D_FLAGS_def R_FLAGS_def

lemma legacy_sound: "list_all keeps_sound legacy_rules"
proof -
  have "keeps_sound realloc_risk"
    by (rule keeps_soundI, simp only: realloc_risk_def, erule when_sound[rotated 2])
      (auto split: if_splits elim!: whole_sound intro!: sound_legacy simp: whole_points)
  moreover have "keeps_sound io_error_risk"
    by (rule keeps_soundI) (auto simp: io_error_risk_def Let_def whole_points split: if_splits elim!: whole_sound intro!: sound_legacy)
  moreover have "keeps_sound wear_risk"
    by (rule keeps_soundI, simp only: wear_risk_def, erule when_sound[rotated 2])
      (auto split: if_splits intro!: sound_legacy simp: whole_points)
  moreover have "keeps_sound heat_risk"
    by (rule keeps_soundI, simp only: heat_risk_def, erule when_sound[rotated 2])
      (auto split: if_splits elim!: whole_sound intro!: sound_legacy simp: whole_points flag_sets)
  moreover have "keeps_sound power_on_risk"
    by (rule keeps_soundI, simp only: power_on_risk_def, erule when_sound[rotated 2])
      (auto split: if_splits intro!: sound_legacy simp: whole_points)
  ultimately show ?thesis by (simp add: legacy_rules_def)
qed

lemma rule_mult: "\<exists>q. rule_multiplier cx key = Fin q \<and> 51 / 64 \<le> q \<and> q \<le> 3 / 2"
proof -
  have "fle (rnd64 (of_int 51 / 2 ^ 6)) MUTE_MULT" "fle MUTE_MULT (rnd64 (of_int 1))"
    "fle (rnd64 (of_int 1)) BOOST_MULT" "fle BOOST_MULT (rnd64 (of_int 3 / 2 ^ 1))"
    unfolding MUTE_MULT_def BOOST_MULT_def by (rule rnd64_fle; simp)+
  then have "\<exists>q. MUTE_MULT = Fin q \<and> 51 / 64 \<le> q \<and> q \<le> 1" "\<exists>q. BOOST_MULT = Fin q \<and> 1 \<le> q \<and> q \<le> 3 / 2"
    using rnd64_fraction[of 51 6] rnd64_fraction[of 3 1] rnd64_of_int[of 1] 
      fle_between[of "51 / 64" MUTE_MULT 1] fle_between[of 1 BOOST_MULT "3 / 2"] by simp_all
  then obtain a b where ab: "MUTE_MULT = Fin a" "BOOST_MULT = Fin b" "51 / 64 \<le> a" "a \<le> 1" "1 \<le> b" "b \<le> 3 / 2" by blast
  have "rule_multiplier cx key \<in> {Fin (3 / 2), Fin b, Fin a, Fin 1}"
    by (simp add: rule_multiplier_def reinforcement_def Let_def CEILING_MULT_def NEUTRAL_MULT_def ab(1,2))
  then obtain q where "rule_multiplier cx key = Fin q" "q \<in> {3 / 2, b, a, 1}" by blast
  then show ?thesis using ab(3-) by auto
qed

lemma reinforced_points:
  "amount (fmul (Fin 60) (rule_multiplier cx key)) \<and> fle (Fin 25) (fmul (Fin 60) (rule_multiplier cx key))"
  "amount (fmul (Fin 30) (rule_multiplier cx key)) \<and> fle (Fin 11) (fmul (Fin 30) (rule_multiplier cx key))"
  "amount (fmul (Fin 15) (rule_multiplier cx key)) \<and> fle (Fin 11) (fmul (Fin 15) (rule_multiplier cx key))"
  "fmul (Fin 0) (rule_multiplier cx key) = Fin 0"
  "fle (Fin 1) (fmul (rnd64 (13 / 10)) (rule_multiplier cx key))"
proof -
  obtain q where q: "rule_multiplier cx key = Fin q" "51 / 64 \<le> q" "q \<le> 3 / 2" using rule_mult by blast
  have up: "fle (Fin (of_int i)) (rnd64 x)" if "of_int i \<le> x" "\<bar>i\<bar> < 2 ^ 53" for i :: int and x
    using rnd64_fle[OF that(1)] rnd64_of_int[OF that(2)] by simp
  have "amount (rnd64 x) \<and> fle (Fin (of_int i)) (rnd64 x)" if "of_int i \<le> x" "0 \<le> i" "\<bar>i\<bar> < 2 ^ 53" for i :: int and x
    using up[OF that(1,3)] up[of 0 x] that order_trans[of 0 "of_int i" x] by (simp add: amount_def)
  from this[of 25 "60 * q"] this[of 11 "30 * q"] this[of 11 "15 * q"] q
  show "amount (fmul (Fin 60) (rule_multiplier cx key)) \<and> fle (Fin 25) (fmul (Fin 60) (rule_multiplier cx key))"
    "amount (fmul (Fin 30) (rule_multiplier cx key)) \<and> fle (Fin 11) (fmul (Fin 30) (rule_multiplier cx key))"
    "amount (fmul (Fin 15) (rule_multiplier cx key)) \<and> fle (Fin 11) (fmul (Fin 15) (rule_multiplier cx key))" by simp_all
  show "fmul (Fin 0) (rule_multiplier cx key) = Fin 0" by (simp add: q(1) rnd64_def)
  have "fle (rnd64 (of_int 83 / 2 ^ 6)) (rnd64 (13 / 10))" "fle (rnd64 (13 / 10)) (rnd64 (of_int 2))" by (rule rnd64_fle; simp)+
  then obtain c where c: "rnd64 (13 / 10) = Fin c" "83 / 64 \<le> c"
    using fle_between[of "83 / 64" "rnd64 (13 / 10)" 2] rnd64_fraction[of 83 6] rnd64_of_int[of 2] by auto
  then have "(83 / 64) * (51 / 64) \<le> c * q" using q by (intro mult_mono) auto
  then show "fle (Fin 1) (fmul (rnd64 (13 / 10)) (rule_multiplier cx key))" using up[of 1 "c * q"] by (simp add: c(1) q(1))
qed

lemma sound_reinforced: "sound t \<Longrightarrow> sound (reinforced cx key t)"
  by (auto simp: reinforced_def Let_def intro!: sound_hit)

lemma sound_bit: "sound t \<Longrightarrow> (\<And>t. sound t \<Longrightarrow> sound (f t)) \<Longrightarrow> sound (hit_bit cw n f t)"
  by (simp add: hit_bit_def)

lemma counter_sound:
  assumes "sound t" "counter_risk r l pts c flag t = Inr t'" "amount (Fin pts)" "1 \<le> pts"
    "case flag of None \<Rightarrow> True | Some f \<Rightarrow> backed f (if c = DamageCoord then Fin pts else Fin 0) (if c = LossCoord then Fin pts else Fin 0)"
  shows "sound t'"
  using assms(2) unfolding counter_risk_def
  by (rule when_sound[OF assms(1), rotated]) (use assms in \<open>auto split: if_splits elim!: whole_sound intro!: sound_hit\<close>)

lemmas sound_points = whole_points flag_sets reinforced_points

lemma coord_sound1: "list_all keeps_sound [firmware_risk, critical_warning_risk, pending_risk, uncorrectable_risk, media_risk,
  spare_risk, attr5_risk, attr187_risk, attr188_risk]"
proof -
  have "keeps_sound firmware_risk"
    by (rule keeps_soundI) (auto simp: firmware_risk_def sound_points split: if_splits intro!: sound_hit)
  moreover have "keeps_sound critical_warning_risk"
    by (rule keeps_soundI) (auto simp: critical_warning_risk_def sound_points split: option.splits intro!: sound_hit sound_bit)
  moreover have "keeps_sound pending_risk"
    by (rule keeps_soundI, simp only: pending_risk_def, erule when_sound[rotated 2])
      (auto simp: Let_def sound_points split: if_splits elim!: whole_sound intro!: sound_hit sound_reinforced
        intro: fle_trans[of _ "Fin 25"])
  moreover have "keeps_sound uncorrectable_risk" "keeps_sound media_risk" "keeps_sound attr187_risk" "keeps_sound attr188_risk"
    unfolding uncorrectable_risk_def media_risk_def attr187_risk_def attr188_risk_def
    by (rule keeps_soundI, erule (1) counter_sound, simp_all add: sound_points)+
  moreover have "keeps_sound spare_risk"
    by (rule keeps_soundI) (simp only: spare_risk_def bindE_Inr_iff, elim exE conjE, auto simp: sound_points split: option.splits if_splits intro!: sound_hit)
  moreover have "keeps_sound attr5_risk"
    by (rule keeps_soundI, simp only: attr5_risk_def, erule when_sound[rotated 2])
      (auto simp: sound_points split: if_splits elim!: whole_sound intro!: sound_hit)
  ultimately show ?thesis by simp
qed

lemma fle_refl_Fin: "fle x x \<longleftrightarrow> x \<noteq> NaN"
  by (cases x) simp_all

lemma fle_py_max: "fle a x \<Longrightarrow> fle a y \<Longrightarrow> fle a (py_max x y)"
  by (simp add: py_max_def)

lemma foldl_max_over: "fle a m \<Longrightarrow> list_all (fle a) ms \<Longrightarrow> fle a (foldl py_max m ms)"
  by (induction ms arbitrary: m) (auto simp: py_max_def)

lemma coord_sound2: "list_all keeps_sound [uncorrected_risk, attr196_risk, worn_risk, unsafe_shutdown_risk, recurrence_risk, trend_risk,
     synergy_risk, chain_risk, burst_risk, early_risk, age_risk, latency_risk]"
proof -
  have mults: "fle (Fin 1) (rnd64 (13 / 10))" "fle (Fin 1) (rnd64 (7 / 5))"
    using rnd64_fle[of "of_int 1" "13 / 10"] rnd64_fle[of "of_int 1" "7 / 5"] rnd64_of_int[of 1] by simp_all
  have "keeps_sound uncorrected_risk"
    by (rule keeps_soundI) (auto simp: uncorrected_risk_def Let_def sound_points split: if_splits elim!: whole_sound intro!: sound_hit)
  moreover have "keeps_sound attr196_risk"
    unfolding attr196_risk_def by (rule keeps_soundI, erule (1) counter_sound) (simp_all add: sound_points)
  moreover have "keeps_sound worn_risk"
    by (rule keeps_soundI) (auto simp: worn_risk_def Let_def sound_points split: if_splits elim!: when_sound[rotated 2] intro!: sound_hit)
  moreover have "keeps_sound unsafe_shutdown_risk"
    by (rule keeps_soundI, simp only: unsafe_shutdown_risk_def, erule when_sound[rotated 2])
      (auto simp: sound_points split: if_splits elim!: whole_sound intro!: sound_hit)
  moreover have "keeps_sound recurrence_risk"
    by (rule keeps_soundI) (auto simp: recurrence_risk_def Let_def sound_points split: if_splits intro!: sound_mult sound_reinforced)
  moreover have "keeps_sound trend_risk"
    by (rule keeps_soundI) (auto simp: trend_risk_def Let_def sound_points mults split: if_splits intro!: sound_hit sound_mult)
  moreover have "keeps_sound synergy_risk"
    by (rule keeps_soundI) (auto simp: synergy_risk_def Let_def sound_points mults split: list.splits if_splits
        intro!: sound_mult foldl_max_over fle_py_max)
  moreover have "keeps_sound chain_risk"
    by (rule keeps_soundI) (auto simp: chain_risk_def sound_points split: if_splits intro!: sound_hit sound_mult)
  moreover have "keeps_sound burst_risk"
    by (rule keeps_soundI) (auto simp: burst_risk_def sound_points split: option.splits if_splits intro!: sound_hit)
  moreover have "keeps_sound early_risk"
    by (rule keeps_soundI) (auto simp: early_risk_def Let_def sound_points split: option.splits if_splits intro!: sound_hit sound_reinforced)
  moreover have "keeps_sound age_risk"
    by (rule keeps_soundI) (simp only: age_risk_def bindE_Inr_iff, elim exE conjE, auto simp: sound_points split: option.splits if_splits intro!: sound_hit)
  moreover have "keeps_sound latency_risk"
    by (rule keeps_soundI) (auto simp: latency_risk_def Let_def sound_points split: if_splits intro!: sound_hit)
  ultimately show ?thesis by simp
qed

subsection \<open>Invariants of a run\<close>

text \<open>What every rule of a book keeps, a run of any part of the book keeps; \<open>I\<close> relates the tally a run began with to the one at hand.\<close>

locale kept_by_rules =
  fixes rules :: "st_rule list"
    and I :: "st_tally \<Rightarrow> st_tally \<Rightarrow> bool"
  assumes keeps: "r \<in> set rules \<Longrightarrow> I a t \<Longrightarrow> r cx disk t = Inr t' \<Longrightarrow> I a t'"
begin

lemma part: "set rs \<subseteq> set rules \<Longrightarrow> I a t \<Longrightarrow> run_rules rs cx disk t = Inr t' \<Longrightarrow> I a t'"
proof (induction rs arbitrary: t)
  case (Cons r rs)
  then obtain u where "r cx disk t = Inr u" "run_rules rs cx disk u = Inr t'" by auto
  moreover from this have "I a u" using Cons.prems keeps[of r a t cx disk u] by simp
  ultimately show ?case using Cons by simp
qed simp

lemma whole_run: "I a t \<Longrightarrow> run_rules rules cx disk t = Inr t' \<Longrightarrow> I a t'"
  by (rule part) simp_all

end

lemma keeps_soundD: "keeps_sound r \<Longrightarrow> sound t \<Longrightarrow> r cx disk t = Inr t' \<Longrightarrow> sound t'"
  by (auto simp: keeps_sound_def)

lemma all_keep_sound: "list_all keeps_sound (legacy_rules @ coord_rules @ [latency_risk])"
  using legacy_sound coord_sound1 coord_sound2 by (simp add: coord_rules_def)

interpretation sound_run: kept_by_rules "legacy_rules @ coord_rules @ [latency_risk]" "\<lambda>a t. sound t"
proof
  fix r cx disk t t' assume "r \<in> set (legacy_rules @ coord_rules @ [latency_risk])" "sound t" "r cx disk t = Inr t'"
  moreover from this have "keeps_sound r" using all_keep_sound unfolding list_all_iff by blast
  ultimately show "sound t'" using keeps_soundD by blast
qed

lemma empty_sound: "sound empty_tally"
  by (simp add: sound_def empty_tally_def)

subsection \<open>A scored disk\<close>

lemma run_rules_append: "run_rules (rs @ ss) cx disk t = bindE (run_rules rs cx disk t) (run_rules ss cx disk)"
proof (induction rs arbitrary: t)
  case (Cons r rs)
  then show ?case by (cases "r cx disk t") simp_all
qed simp

lemma clamp_keeps: "fle (Fin (of_int i)) x \<Longrightarrow> 0 \<le> i \<Longrightarrow> i \<le> 100 \<Longrightarrow> fle (Fin (of_int i)) (clamp x 0 100)"
  using clamp_mono[of "Fin (of_int i)" x 0 100] by (simp add: clamp_id ranged_def)

lemma score_bounds:
  assumes "score_disk cx disk = Inr (v, fs, co)"
  shows "ranged 0 100 v \<and> ranged 0 100 (co_damage co) \<and> ranged 0 100 (co_loss co) \<and>
    list_all (\<lambda>f. backed f (co_damage co) (co_loss co)) (co_flags co)"
proof -
  from assms obtain t where t: "run_rules (legacy_rules @ coord_rules @ [latency_risk]) cx disk empty_tally = Inr t" "close_tally t = (v, fs, co)"
    by (auto simp: score_disk_def)
  have "sound t" by (rule sound_run.whole_run[OF empty_sound t(1)])
  then have "list_all (\<lambda>f. backed f (st_damage t) (st_loss t)) (st_flags t)" by (simp add: sound_def)
  then show ?thesis using t(2) clamp_keeps[of 25] clamp_keeps[of 11]
    by (auto simp: close_tally_def backed_def list_all_iff intro!: clamp_ranged)
qed

text \<open>A scored disk keeps its numbers between 0 and 100, and no flag stands without its points: a flag of accumulated damage comes with 25
  points of damage or more, a flag of lost resilience with 11 or more.\<close>
theorem flags_are_backed:
  assumes "score_disk cx disk = Inr (v, fs, co)"
  shows "ranged 0 100 v \<and> ranged 0 100 (co_damage co) \<and> ranged 0 100 (co_loss co) \<and>
    list_all (\<lambda>f. backed f (co_damage co) (co_loss co)) (co_flags co)"
  using assms by (rule score_bounds)

subsection \<open>What a rule does not look at\<close>

lemma context_parts [simp]:
  "is_target_disk (cx\<lparr>cx_hb := h\<rparr>) = is_target_disk cx" "rule_multiplier (cx\<lparr>cx_hb := h\<rparr>) = rule_multiplier cx"
  "reinforced (cx\<lparr>cx_hb := h\<rparr>) = reinforced cx" "trend_turns (cx\<lparr>cx_hb := h\<rparr>) = trend_turns cx"
  "trend_accelerates (cx\<lparr>cx_hb := h\<rparr>) = trend_accelerates cx" "chain_stage (cx\<lparr>cx_hb := h\<rparr>) = chain_stage cx"
  "temp_sustained_high disk (cx\<lparr>cx_hb := h\<rparr>) = temp_sustained_high disk cx"
  by (simp_all add: fun_eq_iff is_target_disk_def rule_multiplier_def reinforced_def trend_turns_def trend_accelerates_def chain_stage_def
      temp_sustained_high_def)

lemmas coord_rule_defs = firmware_risk_def critical_warning_risk_def pending_risk_def uncorrectable_risk_def media_risk_def
  spare_risk_def attr5_risk_def attr187_risk_def attr188_risk_def uncorrected_risk_def attr196_risk_def worn_risk_def
  unsafe_shutdown_risk_def recurrence_risk_def trend_risk_def synergy_risk_def chain_risk_def burst_risk_def early_risk_def age_risk_def
lemmas legacy_rule_defs = realloc_risk_def io_error_risk_def wear_risk_def heat_risk_def power_on_risk_def

lemma rules_ignore_heartbeat: "list_all (\<lambda>r. r (cx\<lparr>cx_hb := h\<rparr>) disk = r cx disk) (legacy_rules @ coord_rules)"
  unfolding legacy_rules_def coord_rules_def append.simps list.pred_inject fun_eq_iff
  unfolding legacy_rule_defs coord_rule_defs context_parts by simp

lemma run_cong: "list_all (\<lambda>r. r cx disk = r cx' disk) rs \<Longrightarrow> run_rules rs cx disk t = run_rules rs cx' disk t"
proof (induction rs arbitrary: t)
  case (Cons r rs)
  then show ?case by (cases "r cx' disk t") simp_all
qed simp

lemma mult_at_least_one: "sound t \<Longrightarrow> fle (Fin 1) (case st_mults t of [] \<Rightarrow> Fin 1 | m # ms \<Rightarrow> foldl py_max m ms)"
  by (auto simp: sound_def foldl_max_over split: list.split)

lemma one_times: "fle (Fin 1) x \<Longrightarrow> fle (Fin 1) m \<Longrightarrow> fle (Fin 1) (fmul x m)"
proof (cases x; cases m)
  fix a b assume "fle (Fin 1) x" "fle (Fin 1) m" "x = Fin a" "m = Fin b"
  then have "of_int 1 \<le> a * b" using mult_mono[of 1 a 1 b] by simp
  from rnd64_fle[OF this] show "fle (Fin 1) (fmul x m)" using rnd64_of_int[of 1] \<open>x = Fin a\<close> \<open>m = Fin b\<close> by simp
qed (auto simp: sign_inf_def)

lemma run_Nil: "run_rules [] cx disk = Inr"
  by (simp add: fun_eq_iff)

lemma score_split:
  assumes "score_disk cx disk = Inr (v, fs, co)"
  shows "\<exists>t u. run_rules (legacy_rules @ coord_rules) cx disk empty_tally = Inr t \<and> latency_risk cx disk t = Inr u \<and> close_tally u = (v, fs, co)"
proof -
  have "run_rules (legacy_rules @ coord_rules @ [latency_risk]) cx disk empty_tally
      = bindE (run_rules (legacy_rules @ coord_rules) cx disk empty_tally) (\<lambda>t. bindE (latency_risk cx disk t) Inr)"
    using run_rules_append[of "legacy_rules @ coord_rules" "[latency_risk]" cx disk empty_tally]
    by (cases "run_rules (legacy_rules @ coord_rules) cx disk empty_tally") (simp_all add: run_Nil)
  then show ?thesis using assms unfolding score_disk_def by auto
qed

lemma latency_limit: "\<not> flt LATENCY_HIGH_SEC (Fin 0)"
  using rnd64_fle[of "of_int 0" "5 / 100"] rnd64_of_int[of 0] by (cases LATENCY_HIGH_SEC) (auto simp: LATENCY_HIGH_SEC_def)

text \<open>Latency confirms and never accuses: the heartbeat moves neither a coordinate nor a flag, and where the disk's own readings give no risk
  it changes nothing at all; it can only raise a risk that is there.\<close>
theorem latency_only_confirms:
  assumes "score_disk (cx\<lparr>cx_hb := None\<rparr>) disk = Inr (v, fs, co)" "score_disk cx disk = Inr (v', fs', co')"
  shows "co' = co \<and> (v = Fin 0 \<longrightarrow> v' = Fin 0 \<and> fs' = fs)"
proof -
  have quiet: "latency_risk (cx\<lparr>cx_hb := None\<rparr>) disk t = Inr t" for t
    by (simp add: latency_risk_def num_field_def or_zero_num_def Let_def py_max_def latency_limit)
  have same: "run_rules (legacy_rules @ coord_rules) (cx\<lparr>cx_hb := None\<rparr>) disk empty_tally = run_rules (legacy_rules @ coord_rules) cx disk empty_tally"
    by (rule run_cong[OF rules_ignore_heartbeat])
  obtain t u where t: "run_rules (legacy_rules @ coord_rules) cx disk empty_tally = Inr t" "latency_risk cx disk t = Inr u" "close_tally u = (v', fs', co')"
    using score_split[OF assms(2)] by blast
  have v: "close_tally t = (v, fs, co)" using score_split[OF assms(1)] same t(1) quiet by auto
  have s: "sound t" by (rule sound_run.part[OF _ empty_sound t(1)]) auto
  have "co' = co" using t(2,3) v
    by (auto simp: latency_risk_def Let_def close_tally_def st_hit_def add_coord_def split: if_splits)
  moreover have "u = t" if "v = Fin 0"
  proof -
    have "\<not> flt (Fin 0) (st_value t)"
    proof
      assume "flt (Fin 0) (st_value t)"
      then have "fle (Fin 1) (clamp (st_value t) 0 100)" using s clamp_keeps[of 1] by (auto simp: sound_def)
      then have "fle (Fin 1) v" using v one_times[OF _ mult_at_least_one[OF s]] clamp_keeps[of 1] by (auto simp: close_tally_def)
      then show False using that by simp
    qed
    then show ?thesis using t(2) by (simp add: latency_risk_def)
  qed
  ultimately show ?thesis using t(3) v by auto
qed

lemma sibling_parts:
  assumes "\<not> is_target_disk cx disk"
  shows "list_all (\<lambda>r. r cx disk = r (cx\<lparr>cx_series := [], cx_trends := []\<rparr>) disk) (legacy_rules @ coord_rules @ [latency_risk])"
proof -
  let ?c = "cx\<lparr>cx_series := [], cx_trends := []\<rparr>"
  have p: "\<not> is_target_disk ?c disk" "rule_multiplier ?c = rule_multiplier cx" "reinforced ?c = reinforced cx"
    "chain_stage ?c = chain_stage cx" "temp_sustained_high disk cx = Inr False" "temp_sustained_high disk ?c = Inr False"
    "cx_chain ?c = cx_chain cx" "cx_hb ?c = cx_hb cx"
    using assms by (simp_all add: fun_eq_iff is_target_disk_def rule_multiplier_def reinforced_def chain_stage_def temp_sustained_high_def)
  show ?thesis
    unfolding legacy_rules_def coord_rules_def append.simps list.pred_inject fun_eq_iff
    unfolding legacy_rule_defs coord_rule_defs latency_risk_def p using assms p(1) by simp
qed

text \<open>A history is never held against a sibling: the rules on a disk's series and on its trends see only the disk the series belongs to,
  and every other disk of the machine is scored as if there were no history.\<close>
theorem history_never_blamed_on_sibling:
  assumes "\<not> is_target_disk cx disk"
  shows "score_disk cx disk = score_disk (cx\<lparr>cx_series := [], cx_trends := []\<rparr>) disk"
  unfolding score_disk_def run_cong[OF sibling_parts[OF assms]] by (rule refl)

subsection \<open>The first version of the engine\<close>

definition DEEP_FIELDS :: "string list" where
  \<comment> \<open>what only the later agents send\<close>
  "DEEP_FIELDS = [''smart_predict_fail'', ''nvme_critical_warning'', ''smart_attrs'', ''nvme_media_errors'', ''nvme_spare_pct'',
     ''nvme_spare_threshold_pct'', ''read_errors_uncorrected'', ''write_errors_uncorrected'', ''nvme_percentage_used'',
     ''nvme_unsafe_shutdowns'', ''nvme_power_cycles'']"

definition legacy_only :: "jobj \<Rightarrow> bool" where
  "legacy_only disk \<longleftrightarrow> list_all (\<lambda>k. jget disk k = JNull) DEEP_FIELDS"

definition score_disk_v1 :: "st_context \<Rightarrow> jobj \<Rightarrow> (pyfloat \<times> st_factor list) res" where
  \<comment> \<open>the five first rules and the confirmation by latency\<close>
  "score_disk_v1 cx disk = bindE (run_rules (legacy_rules @ [latency_risk]) cx disk empty_tally) (\<lambda>t. Inr (clamp (st_value t) 0 100, st_factors t))"

definition value_only :: "st_tally \<Rightarrow> st_tally \<Rightarrow> bool" where
  \<comment> \<open>the second moves the value alone\<close>
  "value_only a b \<longleftrightarrow> st_other b = st_other a \<and> st_mults b = st_mults a \<and> st_damage b = st_damage a \<and> st_loss b = st_loss a \<and>
     set (st_flags b) \<subseteq> insert ''temp_unstable'' (set (st_flags a))"

lemma value_only_refl [simp]: "value_only a a"
  by (auto simp: value_only_def)

lemma value_only_hit [simp]: "f = None \<or> f = Some ''temp_unstable'' \<Longrightarrow> value_only a (legacy_hit l d f a)"
  by (auto simp: value_only_def legacy_hit_def add_coord_def)

lemma value_only_when: "(\<And>x. f x t = Inr t' \<Longrightarrow> value_only t t') \<Longrightarrow> when_num r f t = Inr t' \<Longrightarrow> value_only t t'"
  by (auto simp: when_num_def split: option.splits)

lemma value_only_whole: "(\<And>i. value_only t (f i t)) \<Longrightarrow> whole x f t = Inr t' \<Longrightarrow> value_only t t'"
  by (auto simp: whole_def)

lemma legacy_value_only: "list_all (\<lambda>r. \<forall>a b. r cx disk a = Inr b \<longrightarrow> value_only a b) legacy_rules"
proof -
  have "realloc_risk cx disk a = Inr b \<Longrightarrow> value_only a b" for a b
    unfolding realloc_risk_def by (erule value_only_when[rotated]) (auto split: if_splits elim!: value_only_whole[rotated])
  moreover have "io_error_risk cx disk a = Inr b \<Longrightarrow> value_only a b" for a b
    by (auto simp: io_error_risk_def Let_def split: if_splits elim!: value_only_whole[rotated])
  moreover have "wear_risk cx disk a = Inr b \<Longrightarrow> value_only a b" for a b
    unfolding wear_risk_def by (erule value_only_when[rotated]) (auto split: if_splits)
  moreover have "heat_risk cx disk a = Inr b \<Longrightarrow> value_only a b" for a b
    unfolding heat_risk_def by (erule value_only_when[rotated]) (auto split: if_splits elim!: value_only_whole[rotated])
  moreover have "power_on_risk cx disk a = Inr b \<Longrightarrow> value_only a b" for a b
    unfolding power_on_risk_def by (erule value_only_when[rotated]) (auto split: if_splits)
  ultimately show ?thesis by (simp add: legacy_rules_def)
qed

interpretation legacy_run: kept_by_rules legacy_rules value_only
proof
  fix r a t cx disk t' assume "r \<in> set legacy_rules" "value_only a t" "r cx disk t = Inr t'"
  then have "value_only a t" "value_only t t'" using legacy_value_only[of cx disk] by (auto simp: list_all_iff)
  then show "value_only a t'" by (auto simp: value_only_def)
qed

lemma deep_rules_silent:
  assumes "legacy_only disk" "\<not> is_target_disk cx disk" "cx_chain cx = None" "\<not> st_other t"
    "disk_num disk ''wear_pct'' = Inr w" "disk_num disk ''power_on_hours'' = Inr p"
  shows "run_rules coord_rules cx disk t = Inr t"
proof -
  have d: "list_all (\<lambda>k. jget disk k = JNull) DEEP_FIELDS" using assms(1) by (simp add: legacy_only_def)
  then have "list_all (\<lambda>k. disk_num disk k = Inr None) DEEP_FIELDS" by (simp add: disk_num_def list_all_iff)
  note no = this[unfolded DEEP_FIELDS_def list.pred_inject]
  have "attrs_of disk = []" using d by (simp add: attrs_of_def DEEP_FIELDS_def)
  then have attr: "attr_num disk k = Inr None" for k by (simp add: attr_num_def jget_def)
  have "list_all (\<lambda>r. r cx disk t = Inr t) coord_rules"
    unfolding coord_rules_def list.pred_inject coord_rule_defs counter_risk_def when_num_def positive_def or_zero_num_def
    using d no attr assms(2-)
    by (simp add: DEEP_FIELDS_def critical_warning_def chain_stage_def Let_def rnd64_def)
  moreover have "list_all (\<lambda>r. r cx disk t = Inr t) rs \<Longrightarrow> run_rules rs cx disk t = Inr t" for rs
    by (induction rs) auto
  ultimately show ?thesis by blast
qed

lemma legacy_reads:
  assumes "run_rules legacy_rules cx disk t = Inr t'"
  shows "\<exists>w. disk_num disk ''wear_pct'' = Inr w" "\<exists>p. disk_num disk ''power_on_hours'' = Inr p"
  using assms by (auto simp: legacy_rules_def wear_risk_def power_on_risk_def when_num_def)

lemma times_one: "double x \<Longrightarrow> fle (Fin 0) x \<Longrightarrow> clamp (fmul (clamp x 0 100) (Fin 1)) 0 100 = clamp x 0 100"
  using rnd64_of_int[of 0] rnd64_of_int[of 100]
  by (cases x) (auto simp: double_def clamp_def py_max_def py_min_def sign_inf_def)

text \<open>What the later rules promise the older agents: a disk with none of the deep fields, without a history and without an event chain, is
  scored as the first version of the engine scored it, with no coordinate touched.\<close>
theorem legacy_payload_scored_as_before:
  assumes "legacy_only disk" "\<not> is_target_disk cx disk" "cx_chain cx = None"
  shows "bindE (score_disk cx disk) (\<lambda>(v, fs, co). Inr (v, fs)) = score_disk_v1 cx disk \<and>
    (case score_disk cx disk of Inl _ \<Rightarrow> True
     | Inr (v, fs, co) \<Rightarrow> co_damage co = Fin 0 \<and> co_loss co = Fin 0 \<and> set (co_flags co) \<subseteq> {''temp_unstable''})"
proof (cases "run_rules legacy_rules cx disk empty_tally")
  case (Inl e)
  then show ?thesis by (simp add: score_disk_def score_disk_v1_def run_rules_append)
next
  case (Inr t)
  have t: "value_only empty_tally t" by (rule legacy_run.whole_run[OF value_only_refl Inr])
  obtain w p where "disk_num disk ''wear_pct'' = Inr w" "disk_num disk ''power_on_hours'' = Inr p" using legacy_reads[OF Inr] by blast
  then have "run_rules coord_rules cx disk t = Inr t"
    using t by (intro deep_rules_silent[OF assms]) (simp_all add: value_only_def empty_tally_def)
  then have run: "run_rules (legacy_rules @ coord_rules @ [latency_risk]) cx disk empty_tally = run_rules [latency_risk] cx disk t"
    "run_rules (legacy_rules @ [latency_risk]) cx disk empty_tally = run_rules [latency_risk] cx disk t"
    using Inr by (simp_all add: run_rules_append)
  show ?thesis
  proof (cases "run_rules [latency_risk] cx disk t")
    case (Inr u)
    have "sound t" by (rule sound_run.part[OF _ empty_sound \<open>run_rules legacy_rules cx disk empty_tally = Inr t\<close>]) auto
    then have "sound u" using sound_run.part[OF _ _ Inr] by simp
    then have one: "clamp (fmul (clamp (st_value u) 0 100) (Fin 1)) 0 100 = clamp (st_value u) 0 100"
      by (intro times_one) (simp_all add: sound_def amount_def)
    have "st_mults u = st_mults t \<and> st_damage u = st_damage t \<and> st_loss u = st_loss t \<and> st_flags u = st_flags t"
      using Inr by (auto simp: latency_risk_def Let_def st_hit_def add_coord_def run_Nil split: if_splits)
    then show ?thesis
      using t one run Inr by (auto simp: score_disk_def score_disk_v1_def close_tally_def value_only_def empty_tally_def clamp_id ranged_def)
  qed (simp add: score_disk_def score_disk_v1_def run)
qed

subsection \<open>The worst disk\<close>

definition smart_disks :: "jval list \<Rightarrow> jobj list" where
  "smart_disks ds = List.map_filter (\<lambda>d. case d of JObj disk \<Rightarrow> if has_smart disk then Some disk else None | _ \<Rightarrow> None) ds"

lemma smart_disks_simps [simp]:
  "smart_disks [] = []"
  "smart_disks (d # ds) = (case d of JObj disk \<Rightarrow> if has_smart disk then disk # smart_disks ds else smart_disks ds | _ \<Rightarrow> smart_disks ds)"
  by (simp_all add: smart_disks_def List.map_filter_simps split: jval.split)

definition risk_of :: "st_context \<Rightarrow> jobj \<Rightarrow> pyfloat" where
  "risk_of cx disk = (case score_disk cx disk of Inr (v, _, _) \<Rightarrow> v | Inl _ \<Rightarrow> NaN)"

definition better :: "worst_disk option \<Rightarrow> jobj \<Rightarrow> pyfloat \<times> st_factor list \<times> st_coords \<Rightarrow> worst_disk option" where
  "better worst disk r = (case r of (v, fs, co) \<Rightarrow>
     if (case worst of None \<Rightarrow> True | Some w \<Rightarrow> flt (wd_value w) v)
     then Some \<lparr>wd_value = v, wd_factors = fs, wd_disk = jget disk ''disk'', wd_coords = co\<rparr> else worst)"

fun take_worst :: "st_context \<Rightarrow> jobj list \<Rightarrow> worst_disk option \<Rightarrow> worst_disk option res" where
  \<comment> \<open>the loop over the disks that have a reading\<close>
  "take_worst cx [] worst = Inr worst"
| "take_worst cx (disk # disks) worst = bindE (score_disk cx disk) (\<lambda>r. take_worst cx disks (better worst disk r))"

lemma bindE_assoc: "bindE (bindE m f) g = bindE m (\<lambda>x. bindE (f x) g)"
  by (cases m) simp_all

lemma worst_loop_take: "worst_loop cx ds (n, worst) = bindE (take_worst cx (smart_disks ds) worst) (\<lambda>w. Inr (n + length (smart_disks ds), w))"
proof (induction ds arbitrary: n worst)
  case (Cons d ds)
  show ?case
  proof (cases "\<exists>disk. d = JObj disk \<and> has_smart disk")
    case False
    then show ?thesis using Cons.IH by (cases d) simp_all
  next
    case True
    then obtain disk where "d = JObj disk" "has_smart disk" by blast
    then show ?thesis using Cons.IH by (cases "score_disk cx disk") (auto simp: better_def)
  qed
qed simp

lemma score_not_NaN: "score_disk cx disk = Inr (v, fs, co) \<Longrightarrow> v \<noteq> NaN"
  using score_bounds by (fastforce simp: ranged_Fin)

definition is_score :: "st_context \<Rightarrow> jobj list \<Rightarrow> worst_disk \<Rightarrow> bool" where
  "is_score cx disks w \<longleftrightarrow> (\<exists>disk\<in>set disks. score_disk cx disk = Inr (wd_value w, wd_factors w, wd_coords w) \<and> wd_disk w = jget disk ''disk'')"

lemma better_worst:
  assumes "score_disk cx disk = Inr (v, fs, co)" "v \<noteq> NaN" "\<And>w. worst = Some w \<Longrightarrow> wd_value w \<noteq> NaN"
  shows "\<exists>w1. better worst disk (v, fs, co) = Some w1 \<and> wd_value w1 \<noteq> NaN \<and> fle v (wd_value w1) \<and>
    (\<forall>w0. worst = Some w0 \<longrightarrow> fle (wd_value w0) (wd_value w1)) \<and> (worst = Some w1 \<or> is_score cx (disk # disks) w1)"
proof (cases "\<exists>w. worst = Some w \<and> \<not> flt (wd_value w) v")
  case True
  then obtain w where w: "worst = Some w" "\<not> flt (wd_value w) v" by blast
  then have "fle v (wd_value w)" "wd_value w \<noteq> NaN" using not_flt_fle assms(2,3) by auto
  then show ?thesis using w by (simp add: better_def fle_refl)
next
  case False
  then have "fle (wd_value w) v" if "worst = Some w" for w using that flt_fle by blast
  then show ?thesis using False assms(1,2) by (auto simp: better_def is_score_def fle_refl split: option.splits)
qed

lemma take_worst_result:
  assumes "take_worst cx disks worst = Inr best" "\<And>w. worst = Some w \<Longrightarrow> wd_value w \<noteq> NaN"
  shows "(best = None \<longleftrightarrow> worst = None \<and> disks = []) \<and>
    (\<forall>w. best = Some w \<longrightarrow> wd_value w \<noteq> NaN \<and> (worst = best \<or> is_score cx disks w) \<and>
      (\<forall>w0. worst = Some w0 \<longrightarrow> fle (wd_value w0) (wd_value w)) \<and> list_all (\<lambda>disk. fle (risk_of cx disk) (wd_value w)) disks)"
  using assms
proof (induction disks arbitrary: worst)
  case Nil
  then show ?case by (auto simp: fle_refl)
next
  case (Cons disk disks)
  from Cons.prems(1) obtain v fs co where s: "score_disk cx disk = Inr (v, fs, co)" "take_worst cx disks (better worst disk (v, fs, co)) = Inr best"
    by auto
  have v: "v \<noteq> NaN" by (rule score_not_NaN[OF s(1)])
  obtain w1 where w1: "better worst disk (v, fs, co) = Some w1" "wd_value w1 \<noteq> NaN" "fle v (wd_value w1)"
    "\<forall>w0. worst = Some w0 \<longrightarrow> fle (wd_value w0) (wd_value w1)" "worst = Some w1 \<or> is_score cx (disk # disks) w1"
    using better_worst[OF s(1) v Cons.prems(2)] by blast
  have IH: "best \<noteq> None" "\<forall>w. best = Some w \<longrightarrow> wd_value w \<noteq> NaN \<and> (Some w1 = best \<or> is_score cx disks w) \<and>
      fle (wd_value w1) (wd_value w) \<and> list_all (\<lambda>disk. fle (risk_of cx disk) (wd_value w)) disks"
    using Cons.IH[OF s(2)] w1(1,2) by auto
  then obtain w where w: "best = Some w" "wd_value w \<noteq> NaN" "w = w1 \<or> is_score cx disks w" "fle (wd_value w1) (wd_value w)"
    "list_all (\<lambda>disk. fle (risk_of cx disk) (wd_value w)) disks" by auto
  have "risk_of cx disk = v" by (simp add: risk_of_def s(1))
  then have "fle (risk_of cx disk) (wd_value w)" using w(4) w1(3) fle_trans by blast
  moreover have "is_score cx disks w \<Longrightarrow> is_score cx (disk # disks) w" by (auto simp: is_score_def)
  moreover have "\<forall>w0. worst = Some w0 \<longrightarrow> fle (wd_value w0) (wd_value w)" using w1(4) w(4) fle_trans by blast
  ultimately show ?case using w w1(5) by auto
qed

text \<open>C22: The worst disk speaks for the machine: the axis is the risk of a disk that has it, with that disk's factors and coordinates, and no disk
  with a reading is worse.  It is withheld exactly when the identity fails, no disk has a reading, or the domain fails its gate: never a zero.\<close>
theorem worst_disk_speaks:
  assumes "compute_storage_risk hist cx untrusted domain = Inr a" "disks_of hist = Inr ds"
  shows "(sa_value a = None \<longleftrightarrow> untrusted \<or> smart_disks ds = [] \<or> domain = Some D_UNKNOWN) \<and>
    (\<forall>v. sa_value a = Some v \<longrightarrow> ranged 0 100 v \<and> list_all (\<lambda>disk. fle (risk_of cx disk) v) (smart_disks ds) \<and>
      (\<exists>disk\<in>set (smart_disks ds). \<exists>co. score_disk cx disk = Inr (v, sa_factors a, co) \<and>
        sa_lineage a = SL_Disk (jget disk ''disk'') (length (smart_disks ds)) (length ds) co))"
proof (cases untrusted)
  case True
  then show ?thesis using assms(1) by (auto simp: compute_storage_risk_def axis_withheld_def)
next
  case False
  with assms obtain best where b: "take_worst cx (smart_disks ds) None = Inr best" "worst_loop cx ds (0, None) = Inr (length (smart_disks ds), best)"
    by (auto simp: compute_storage_risk_def worst_loop_take)
  note r = take_worst_result[OF b(1)]
  show ?thesis
  proof (cases best)
    case None
    then show ?thesis using r assms False b(2) by (auto simp: compute_storage_risk_def axis_withheld_def)
  next
    case (Some w)
    then obtain disk where d: "disk \<in> set (smart_disks ds)" "score_disk cx disk = Inr (wd_value w, wd_factors w, wd_coords w)"
      "wd_disk w = jget disk ''disk''" using r by (auto simp: is_score_def)
    moreover have "ranged 0 100 (wd_value w)" using score_bounds[OF d(2)] by simp
    moreover have "list_all (\<lambda>disk. fle (risk_of cx disk) (wd_value w)) (smart_disks ds)" "smart_disks ds \<noteq> []" using r Some by auto
    ultimately show ?thesis using assms False b(2) Some
      by (cases "domain = Some D_UNKNOWN") (auto simp: compute_storage_risk_def axis_withheld_def)
  qed
qed

subsection \<open>Samples\<close>

definition doomed_disk :: jobj where
  \<comment> \<open>the firmware predicts its failure\<close>
  "doomed_disk = [(''disk'', JStr ''B''), (''smart_predict_fail'', JBool True)]"

definition worn_out_disk :: jobj where
  \<comment> \<open>known by the older fields alone\<close>
  "worn_out_disk = [(''disk'', JStr ''A''), (''reallocated_sectors'', JInt 200), (''read_errors_total'', JInt 200)]"

lemma jget_Cons: "jget ((k, v) # d) key = (if k = key then v else jget d key)"
  and jget_Nil: "jget [] key = JNull"
  by (auto simp: jget_def)

lemmas sample_disk_defs = doomed_disk_def worn_out_disk_def jget_Cons jget_Nil disk_num_def attr_num_def attrs_of_def
lemmas sample_rule_defs = legacy_rules_def coord_rules_def legacy_rule_defs coord_rule_defs counter_risk_def when_num_def whole_def
  or_zero_num_def positive_def no_context_def is_target_disk_def chain_stage_def critical_warning_def num_field_def latency_risk_def

lemma zero_sum: "rnd64 0 = Fin 0"
  by (simp add: rnd64_def)

lemma float_of_200: "float_of_int 200 = Inr (Fin 200)"
  by (simp add: float_of_int_def whole_points)

lemma doomed_run: "run_rules (legacy_rules @ coord_rules @ [latency_risk]) no_context doomed_disk empty_tally =
    Inr (st_hit ST_Firmware (Fin 70) DamageCoord (Fin 70) (Some ''predict_fail'') empty_tally)"
proof -
  have "run_rules legacy_rules no_context doomed_disk empty_tally = Inr empty_tally"
    by (simp add: sample_rule_defs sample_disk_defs zero_sum)
  moreover have "firmware_risk no_context doomed_disk empty_tally = Inr (st_hit ST_Firmware (Fin 70) DamageCoord (Fin 70) (Some ''predict_fail'') empty_tally)"
    by (simp add: firmware_risk_def sample_disk_defs)
  moreover have "run_rules (tl coord_rules) no_context doomed_disk t = Inr t" for t
    by (simp add: sample_rule_defs sample_disk_defs zero_sum)
  moreover have "latency_risk no_context doomed_disk t = Inr t" for t
    by (simp add: latency_risk_def no_context_def num_field_def or_zero_num_def Let_def py_max_def latency_limit)
  moreover have "coord_rules = firmware_risk # tl coord_rules" by (simp add: coord_rules_def)
  ultimately show ?thesis by (simp add: run_rules_append) (metis bindE.simps(2) run_rules.simps(2))
qed

lemma doomed_score: "score_disk no_context doomed_disk = Inr (Fin 70, [\<lparr>sf_label = ST_Firmware, sf_delta = fround 1 (Fin 70)\<rparr>],
    \<lparr>co_damage = Fin 70, co_loss = Fin 0, co_flags = [''predict_fail'']\<rparr>)"
  unfolding score_disk_def doomed_run
  by (simp add: close_tally_def st_hit_def add_coord_def empty_tally_def whole_points zero_sum clamp_def py_max_def py_min_def)

lemma worn_out_score: "\<exists>fs. score_disk no_context worn_out_disk = Inr (Fin 100, fs, \<lparr>co_damage = Fin 0, co_loss = Fin 0, co_flags = []\<rparr>)"
proof -
  define t where "t = legacy_hit (ST_IoErrors 200) (Fin 60) None (legacy_hit (ST_Realloc 200) (Fin 60) None empty_tally)"
  have t: "st_value t = Fin 120" "\<not> st_other t" "st_mults t = []" "st_damage t = Fin 0" "st_loss t = Fin 0" "st_flags t = []"
    by (simp_all add: t_def legacy_hit_def add_coord_def empty_tally_def whole_points)
  have "run_rules legacy_rules no_context worn_out_disk empty_tally = Inr t"
    by (simp add: t_def sample_rule_defs sample_disk_defs float_of_200 int_of_float_def whole_points Let_def)
  moreover have "run_rules coord_rules no_context worn_out_disk t = Inr t"
    using t by (simp add: sample_rule_defs sample_disk_defs zero_sum)
  moreover have "latency_risk no_context worn_out_disk t = Inr t"
    using t by (simp add: latency_risk_def no_context_def num_field_def or_zero_num_def Let_def py_max_def latency_limit)
  ultimately show ?thesis using t
    by (simp add: score_disk_def run_rules_append close_tally_def clamp_def py_max_def py_min_def whole_points)
qed

lemma sample_smart: "has_smart doomed_disk" "has_smart worn_out_disk"
  by (simp_all add: has_smart_def SMART_FIELDS_def sample_disk_defs)

definition two_disks :: "jobj option" where
  "two_disks = Some [(''storage'', JList [JObj worn_out_disk, JObj doomed_disk])]"

lemma two_disks_list: "disks_of two_disks = Inr [JObj worn_out_disk, JObj doomed_disk]"
  by (simp add: disks_of_def two_disks_def jget_Cons)

lemma two_disks_axis: "\<exists>a. compute_storage_risk two_disks no_context False None = Inr a \<and> sa_value a = Some (Fin 100) \<and>
    sa_lineage a = SL_Disk (JStr ''A'') 2 2 \<lparr>co_damage = Fin 0, co_loss = Fin 0, co_flags = []\<rparr>"
proof -
  obtain fs where "score_disk no_context worn_out_disk = Inr (Fin 100, fs, \<lparr>co_damage = Fin 0, co_loss = Fin 0, co_flags = []\<rparr>)"
    using worn_out_score by blast
  then show ?thesis
    by (simp add: compute_storage_risk_def two_disks_list sample_smart doomed_score) (simp add: worn_out_disk_def jget_Cons)
qed

text \<open>The worst disk speaks alone: next to a disk with old errors, which has the higher number and no coordinates, a disk whose firmware predicts
  its failure leaves neither its flag nor its damage on the axis.\<close>
theorem sibling_masks_predicted_failure:
  "(\<exists>a. compute_storage_risk two_disks no_context False None = Inr a \<and>
      sa_lineage a = SL_Disk (JStr ''A'') 2 2 \<lparr>co_damage = Fin 0, co_loss = Fin 0, co_flags = []\<rparr>) \<and>
   (\<exists>v fs co. score_disk no_context doomed_disk = Inr (v, fs, co) \<and> co_damage co = Fin 70 \<and> co_flags co = [''predict_fail''])"
  using two_disks_axis doomed_score by auto

theorem flags_are_backed_witness:
  "ranged 0 100 (Fin 70) \<and> backed ''predict_fail'' (Fin 70) (Fin 0)"
  using flags_are_backed[OF doomed_score] by simp

theorem worst_disk_speaks_witness:
  "\<exists>a v. compute_storage_risk two_disks no_context False None = Inr a \<and> sa_value a = Some v \<and> fle (risk_of no_context doomed_disk) v"
proof -
  obtain a where a: "compute_storage_risk two_disks no_context False None = Inr a" "sa_value a = Some (Fin 100)" using two_disks_axis by blast
  from worst_disk_speaks[OF a(1) two_disks_list] a show ?thesis by (auto simp: sample_smart)
qed

theorem legacy_payload_scored_as_before_witness:
  "bindE (score_disk no_context worn_out_disk) (\<lambda>(v, fs, co). Inr (v, fs)) = score_disk_v1 no_context worn_out_disk"
  using legacy_payload_scored_as_before[of worn_out_disk no_context]
  by (simp add: legacy_only_def DEEP_FIELDS_def sample_disk_defs is_target_disk_def no_context_def)

definition slow_heartbeat :: "jobj option" where
  "slow_heartbeat = Some [(''disk_read_sec'', JFloat (Fin 1))]"

theorem latency_only_confirms_witness:
  "\<exists>co. score_disk (no_context\<lparr>cx_hb := slow_heartbeat\<rparr>) [] = Inr (Fin 0, [], co)"
proof -
  have run: "run_rules (legacy_rules @ coord_rules @ [latency_risk]) (no_context\<lparr>cx_hb := h\<rparr>) [] empty_tally = Inr empty_tally" for h
  proof -
    have "run_rules legacy_rules (no_context\<lparr>cx_hb := h\<rparr>) [] empty_tally = Inr empty_tally"
      "run_rules coord_rules (no_context\<lparr>cx_hb := h\<rparr>) [] empty_tally = Inr empty_tally"
      by (simp_all add: sample_rule_defs sample_disk_defs zero_sum empty_tally_def Let_def)
    then show ?thesis by (simp add: run_rules_append latency_risk_def) (simp add: empty_tally_def)
  qed
  have s: "\<exists>co. score_disk (no_context\<lparr>cx_hb := h\<rparr>) [] = Inr (Fin 0, [], co)" for h
    by (simp add: score_disk_def run close_tally_def) (simp add: empty_tally_def clamp_def py_max_def py_min_def zero_sum)
  obtain co co' where "score_disk (no_context\<lparr>cx_hb := None\<rparr>) [] = Inr (Fin 0, [], co)"
    "score_disk (no_context\<lparr>cx_hb := slow_heartbeat\<rparr>) [] = Inr (Fin 0, [], co')" using s by blast
  from latency_only_confirms[of "no_context\<lparr>cx_hb := slow_heartbeat\<rparr>" "[]"] this show ?thesis by simp
qed

definition sibling_context :: st_context where
  "sibling_context = no_context\<lparr>cx_series := [[(''serial_hash'', JStr ''x'')]],
     cx_trends := [(''smart_realloc'', insufficient 0 None TR_Empty)]\<rparr>"

theorem history_never_blamed_on_sibling_witness:
  "score_disk sibling_context doomed_disk = score_disk no_context doomed_disk"
proof -
  have "\<not> is_target_disk sibling_context doomed_disk"
    by (simp add: is_target_disk_def sibling_context_def sample_disk_defs no_context_def)
  from history_never_blamed_on_sibling[OF this] show ?thesis by (simp add: sibling_context_def no_context_def)
qed

text \<open>The event chain moves disks that send none of the deep fields, although the rules are said to look at those fields only: a disk without
  a fault gets 25 points from a chain that has reached stage three.\<close>
theorem chain_moves_legacy_disk:
  "legacy_only [(''power_on_hours'', JInt 200)] \<and>
   (\<exists>fs co. score_disk no_context [(''power_on_hours'', JInt 200)] = Inr (Fin 0, fs, co)) \<and>
   (\<exists>fs co. score_disk (no_context\<lparr>cx_chain := Some \<lparr>ec_stage = 3, ec_burstiness = None, ec_weeks = 1, ec_counts = [], ec_factors = []\<rparr>\<rparr>)
      [(''power_on_hours'', JInt 200)] = Inr (Fin 25, fs, co))"
proof (intro conjI)
  show "legacy_only [(''power_on_hours'', JInt 200)]" by (simp add: legacy_only_def DEEP_FIELDS_def jget_def)
  show "\<exists>fs co. score_disk no_context [(''power_on_hours'', JInt 200)] = Inr (Fin 0, fs, co)"
    by (simp add: score_disk_def sample_rule_defs sample_disk_defs float_of_200 zero_sum empty_tally_def close_tally_def clamp_def py_max_def py_min_def Let_def)
  let ?cx = "no_context\<lparr>cx_chain := Some \<lparr>ec_stage = 3, ec_burstiness = None, ec_weeks = 1, ec_counts = [], ec_factors = []\<rparr>\<rparr>"
  show "\<exists>fs co. score_disk ?cx [(''power_on_hours'', JInt 200)] = Inr (Fin 25, fs, co)"
    by (simp add: score_disk_def sample_rule_defs sample_disk_defs float_of_200 zero_sum empty_tally_def close_tally_def clamp_def py_max_def py_min_def
        Let_def stat_def whole_points st_hit_def add_coord_def latency_limit)
qed

end
