(* ===== verification/Diagnosis.thy ===== *)
theory Diagnosis imports Health Storage begin

text \<open>
  How \<open>recompute_scores\<close> of \<open>server/pipeline.py\<close> hands the storage engine's result to the health verdict: the axis
  as it is stored, with the coordinates promoted beside it.  The properties run from the readings of a disk to
  the state of the machine.
\<close>

definition coords_of :: "st_lineage \<Rightarrow> st_coords" where
  \<comment> \<open>\<open>source_lineage.get("coords", ...)\<close>\<close>
  "coords_of l = (case l of SL_Disk _ _ _ c \<Rightarrow> c | _ \<Rightarrow> \<lparr>co_damage = Fin 0, co_loss = Fin 0, co_flags = []\<rparr>)"

definition storage_haxis :: "(st_label \<Rightarrow> string) \<Rightarrow> storage_axis \<Rightarrow> haxis" where
  \<comment> \<open>\<open>render\<close> stands for the text of a factor; the name of a disk is text\<close>
  "storage_haxis render a = (let c = coords_of (sa_lineage a) in
     \<lparr>hx_value = sa_value a, hx_band = sa_band a, hx_confidence = sa_confidence a,
      hx_factors = map (\<lambda>f. \<lparr>hf_label = HL_Axis (render (sf_label f)), hf_delta = Some (sf_delta f)\<rparr>) (sa_factors a),
      hx_damage = Some (co_damage c), hx_loss = Some (co_loss c), hx_flags = co_flags c,
      hx_disk = (case sa_lineage a of SL_Disk (JStr s) _ _ _ \<Rightarrow> Some s | _ \<Rightarrow> None)\<rparr>)"

definition chain_view_of :: "err_chain \<Rightarrow> chain_view" where
  "chain_view_of c = \<lparr>cv_counts = ec_counts c, cv_factors = (ec_factors c \<noteq> [])\<rparr>"

lemma set_dedup [simp]: "set (dedup xs) = set xs"
proof -
  have "set (dedup_from seen xs) = set seen \<union> set xs" for seen
    by (induction xs arbitrary: seen) auto
  then show ?thesis by (simp add: dedup_def)
qed

lemma storage_flags:
  assumes "hx_value (ax axes ''storage_risk'') \<noteq> None" "f \<in> set (hx_flags (ax axes ''storage_risk''))"
  shows "f \<in> set (all_flags axes trends)"
proof (cases "f \<in> set HARD_D_FLAGS")
  case True
  then have "f \<in> set (cd_flags (damage axes))" using assms
    by (auto simp: damage_def damage_channels_def Let_def)
  then show ?thesis by (simp add: all_flags_def)
next
  case False
  then have "f \<in> set (cd_flags (fst (resilience axes trends)))" using assms
    by (auto simp: resilience_def resilience_channels_def storage_resilience_def Let_def)
  then show ?thesis by (simp add: all_flags_def)
qed

subsection \<open>From a disk to the machine\<close>

text \<open>What no hit undoes, no rule of the coordinates undoes.\<close>

locale kept_by_hits =
  fixes P :: "st_tally \<Rightarrow> bool"
  assumes hit: "P t \<Longrightarrow> P (st_hit l d c pts flag t)" and mult: "P t \<Longrightarrow> P (hit_mult l m c pts flag t)"
begin

lemma when_keeps: "P t \<Longrightarrow> (\<And>x. f x t = Inr t' \<Longrightarrow> P t') \<Longrightarrow> when_num r f t = Inr t' \<Longrightarrow> P t'"
  by (auto simp: when_num_def split: option.splits)

lemma whole_keeps: "whole x f t = Inr t' \<Longrightarrow> (\<And>i. P (f i t)) \<Longrightarrow> P t'"
  by (auto simp: whole_def)

lemma counter_keeps: "P t \<Longrightarrow> counter_risk r l pts c flag t = Inr t' \<Longrightarrow> P t'"
  unfolding counter_risk_def by (erule when_keeps[rotated 2]) (auto split: if_splits elim!: whole_keeps intro!: hit)

lemma bit_keeps: "P t \<Longrightarrow> (\<And>t. P t \<Longrightarrow> P (f t)) \<Longrightarrow> P (hit_bit cw n f t)"
  by (simp add: hit_bit_def)

lemma reinforced_keeps: "P t \<Longrightarrow> P (reinforced cx key t)"
  by (simp add: reinforced_def Let_def hit)

lemma counters: "r \<in> {uncorrectable_risk, media_risk, attr187_risk, attr188_risk, attr196_risk} \<Longrightarrow> P t \<Longrightarrow> r cx disk t = Inr t' \<Longrightarrow> P t'"
  by (auto simp: uncorrectable_risk_def media_risk_def attr187_risk_def attr188_risk_def attr196_risk_def elim: counter_keeps[rotated])

lemma steps: "r \<in> {firmware_risk, critical_warning_risk, pending_risk, spare_risk, attr5_risk, uncorrected_risk} \<Longrightarrow> P t \<Longrightarrow> r cx disk t = Inr t' \<Longrightarrow> P t'"
proof (elim insertE emptyE; hypsubst)
  assume P: "P t"
  show "firmware_risk cx disk t = Inr t' \<Longrightarrow> P t'" using P by (auto simp: firmware_risk_def hit split: if_splits)
  show "critical_warning_risk cx disk t = Inr t' \<Longrightarrow> P t'"
    using P by (auto simp: critical_warning_risk_def split: option.splits intro!: bit_keeps hit)
  show "pending_risk cx disk t = Inr t' \<Longrightarrow> P t'"
    unfolding pending_risk_def by (rule when_keeps[OF P]) (use P in \<open>auto simp: Let_def split: if_splits elim!: whole_keeps intro!: hit reinforced_keeps\<close>)
  show "spare_risk cx disk t = Inr t' \<Longrightarrow> P t'"
    by (simp only: spare_risk_def bindE_Inr_iff, elim exE conjE) (use P in \<open>auto split: option.splits if_splits intro!: hit\<close>)
  show "attr5_risk cx disk t = Inr t' \<Longrightarrow> P t'"
    unfolding attr5_risk_def by (rule when_keeps[OF P]) (use P in \<open>auto split: if_splits elim!: whole_keeps intro!: hit\<close>)
  show "uncorrected_risk cx disk t = Inr t' \<Longrightarrow> P t'"
    using P by (auto simp: uncorrected_risk_def Let_def split: if_splits elim!: whole_keeps intro!: hit)
qed

lemma dynamics: "r \<in> {worn_risk, unsafe_shutdown_risk, recurrence_risk, trend_risk, synergy_risk, chain_risk, burst_risk, early_risk,
    age_risk, latency_risk} \<Longrightarrow> P t \<Longrightarrow> r cx disk t = Inr t' \<Longrightarrow> P t'"
proof (elim insertE emptyE; hypsubst)
  assume P: "P t"
  show "worn_risk cx disk t = Inr t' \<Longrightarrow> P t'"
    using P by (auto simp: worn_risk_def Let_def split: if_splits elim!: when_keeps[rotated 2] intro!: hit)
  show "unsafe_shutdown_risk cx disk t = Inr t' \<Longrightarrow> P t'"
    unfolding unsafe_shutdown_risk_def by (rule when_keeps[OF P]) (use P in \<open>auto split: if_splits elim!: whole_keeps intro!: hit\<close>)
  show "recurrence_risk cx disk t = Inr t' \<Longrightarrow> P t'"
    using P by (auto simp: recurrence_risk_def Let_def split: if_splits intro!: mult reinforced_keeps)
  show "trend_risk cx disk t = Inr t' \<Longrightarrow> P t'"
    using P by (auto simp: trend_risk_def Let_def split: if_splits intro!: hit mult)
  show "synergy_risk cx disk t = Inr t' \<Longrightarrow> P t'"
    using P by (auto simp: synergy_risk_def Let_def split: list.splits if_splits intro!: mult)
  show "chain_risk cx disk t = Inr t' \<Longrightarrow> P t'" using P by (auto simp: chain_risk_def split: if_splits intro!: hit mult)
  show "burst_risk cx disk t = Inr t' \<Longrightarrow> P t'" using P by (auto simp: burst_risk_def split: option.splits if_splits intro!: hit)
  show "early_risk cx disk t = Inr t' \<Longrightarrow> P t'"
    using P by (auto simp: early_risk_def Let_def split: option.splits if_splits intro!: hit reinforced_keeps)
  show "age_risk cx disk t = Inr t' \<Longrightarrow> P t'"
    by (simp only: age_risk_def bindE_Inr_iff, elim exE conjE) (use P in \<open>auto split: option.splits if_splits intro!: hit\<close>)
  show "latency_risk cx disk t = Inr t' \<Longrightarrow> P t'" using P by (auto simp: latency_risk_def Let_def split: if_splits intro!: hit)
qed

lemma rule_keeps: "r \<in> set (coord_rules @ [latency_risk]) \<Longrightarrow> P t \<Longrightarrow> r cx disk t = Inr t' \<Longrightarrow> P t'"
  using counters[of r t cx disk t'] steps[of r t cx disk t'] dynamics[of r t cx disk t'] by (simp add: coord_rules_def) blast

end

interpretation flag_kept: kept_by_hits "\<lambda>t. f \<in> set (st_flags t)" for f
  by unfold_locales (auto simp: st_hit_def hit_mult_def add_coord_def)

interpretation flags_run: kept_by_rules "coord_rules @ [latency_risk]" "\<lambda>a t. set (st_flags a) \<subseteq> set (st_flags t)"
  by unfold_locales (use flag_kept.rule_keeps in blast)

lemma predicted_failure_flagged:
  assumes "score_disk cx disk = Inr (v, fs, co)" "truthy (jget disk ''smart_predict_fail'')"
  shows "''predict_fail'' \<in> set (co_flags co)"
proof -
  have "coord_rules = firmware_risk # tl coord_rules" by (simp add: coord_rules_def)
  then have "legacy_rules @ coord_rules @ [latency_risk] = legacy_rules @ firmware_risk # (tl coord_rules @ [latency_risk])" by simp
  with assms(1) obtain t u where r: "firmware_risk cx disk t = Inr u"
    "\<exists>w. run_rules (tl coord_rules @ [latency_risk]) cx disk u = Inr w \<and> close_tally w = (v, fs, co)"
    by (auto simp: score_disk_def run_rules_append)
  then obtain w where w: "run_rules (tl coord_rules @ [latency_risk]) cx disk u = Inr w" "close_tally w = (v, fs, co)" by blast
  have "''predict_fail'' \<in> set (st_flags u)" using r(1) assms(2) by (auto simp: firmware_risk_def st_hit_def add_coord_def)
  moreover have "set (st_flags u) \<subseteq> set (st_flags w)"
    by (rule flags_run.part[OF _ subset_refl w(1)]) (auto simp: coord_rules_def)
  ultimately show ?thesis using w(2) by (auto simp: close_tally_def)
qed

text \<open>C21: A predicted failure reaches the verdict: when the only disk of a machine says through its firmware that it will fail, and nothing fails
  a gate, the machine is in the worst state with a horizon of a week, whatever else the disk, its history and the other axes say.\<close>
theorem predicted_failure_reaches_verdict:
  assumes "compute_storage_risk (Some [(''storage'', JList [JObj disk])]) cx False domain = Inr a" "domain \<noteq> Some D_UNKNOWN"
    "truthy (jget disk ''smart_predict_fail'')" "ax axes ''storage_risk'' = storage_haxis render a"
    "v = compute_health axes bt trends evs cohort prev" "40 \<le> seen_percent (ve_blind v)"
  shows "ve_state v = H4 \<and> ve_band v = Bad \<and> ve_horizon v = Some 7"
proof -
  have smart: "has_smart disk" using assms(3) by (auto simp: has_smart_def SMART_FIELDS_def)
  with assms(1,2) obtain x fs co where s: "score_disk cx disk = Inr (x, fs, co)" "sa_value a = Some x" "coords_of (sa_lineage a) = co"
    by (auto simp: compute_storage_risk_def disks_of_def jget_Cons coords_of_def)
  have "''predict_fail'' \<in> set (hx_flags (ax axes ''storage_risk''))"
    using predicted_failure_flagged[OF s(1) assms(3)] s(3) by (simp add: assms(4) storage_haxis_def Let_def)
  then have "''predict_fail'' \<in> set (all_flags axes trends)"
    using s(2) by (intro storage_flags) (simp_all add: assms(4) storage_haxis_def Let_def)
  then have "any_flag (all_flags axes trends) H4_FLAGS" by (auto simp: any_flag_def H4_FLAGS_def list_ex_iff)
  moreover have "cd_value (damage axes) \<noteq> None" using s(2) by (auto simp: damage_def damage_channels_def assms(4) storage_haxis_def Let_def)
  ultimately show ?thesis using hard_state[OF _ _ assms(5,6)] by blast
qed


definition disk_axes :: "storage_axis \<Rightarrow> axes" where
  "disk_axes a = [(''storage_risk'', storage_haxis (\<lambda>_. []) a)]"

lemma disk_axes_percent: "sa_value a \<noteq> None \<Longrightarrow> seen_percent (snd (observability (disk_axes a) [] None None)) = 45"
  by (simp add: observability_def obs_channels_def disk_axes_def storage_haxis_def ax_def no_axis_def points_of_def KEY_TRENDS_def
    MATURE_POINTS_def COHORT_MIN_def cohort_size_def seen_percent_def channel_percents_def Let_def)

lemma lone_disk: "disks_of (Some [(''storage'', JList [JObj d])]) = Inr [JObj d]"
  by (simp add: disks_of_def jget_Cons)

lemma doomed_axis: "\<exists>a. compute_storage_risk (Some [(''storage'', JList [JObj doomed_disk])]) no_context False None = Inr a \<and>
  sa_value a = Some (Fin 70)"
  by (simp add: compute_storage_risk_def lone_disk sample_smart doomed_score )

theorem predicted_failure_reaches_verdict_witness:
  "\<exists>a. compute_storage_risk (Some [(''storage'', JList [JObj doomed_disk])]) no_context False None = Inr a \<and>
     ve_state (compute_health (disk_axes a) None [] None None None) = H4"
proof -
  obtain a where a: "compute_storage_risk (Some [(''storage'', JList [JObj doomed_disk])]) no_context False None = Inr a"
    "sa_value a = Some (Fin 70)" using doomed_axis by blast
  have "ax (disk_axes a) ''storage_risk'' = storage_haxis (\<lambda>_. []) a" by (simp add: disk_axes_def ax_def)
  from predicted_failure_reaches_verdict[OF a(1) _ _ this refl] a show ?thesis
    by (auto simp: verdict_observability disk_axes_percent doomed_disk_def jget_Cons)
qed

lemma worn_out_axis: "\<exists>a. compute_storage_risk (Some [(''storage'', JList [JObj worn_out_disk])]) no_context False None = Inr a \<and>
  sa_value a = Some (Fin 100) \<and> coords_of (sa_lineage a) = \<lparr>co_damage = Fin 0, co_loss = Fin 0, co_flags = []\<rparr>"
proof -
  obtain fs where "score_disk no_context worn_out_disk = Inr (Fin 100, fs, \<lparr>co_damage = Fin 0, co_loss = Fin 0, co_flags = []\<rparr>)"
    using worn_out_score by blast
  then show ?thesis by (simp add: compute_storage_risk_def lone_disk sample_smart  coords_of_def)
qed

text \<open>The rules of the first version of the engine add to the value of an axis and not to its coordinates, which are all that the verdict reads.
  A machine whose only disk has grown 200 reallocated sectors and 200 read errors, and whose storage risk is the highest there is, is
  healthy.\<close>
theorem failing_legacy_disk_called_healthy:
  "\<exists>a. compute_storage_risk (Some [(''storage'', JList [JObj worn_out_disk])]) no_context False None = Inr a \<and>
     sa_value a = Some (Fin 100) \<and> ve_state (compute_health (disk_axes a) None [] None None None) = H0"
proof -
  obtain a where a: "compute_storage_risk (Some [(''storage'', JList [JObj worn_out_disk])]) no_context False None = Inr a"
    "sa_value a = Some (Fin 100)" "coords_of (sa_lineage a) = \<lparr>co_damage = Fin 0, co_loss = Fin 0, co_flags = []\<rparr>"
    using worn_out_axis by blast
  have d: "cd_value (damage (disk_axes a)) = Some (Fin 0)" "cd_flags (damage (disk_axes a)) = []"
    using a(2,3) by (simp_all add: damage_def damage_channels_def disk_axes_def storage_haxis_def ax_def no_axis_def or_zero_def
      fround_zero Let_def)
  have r: "cd_value (fst (resilience (disk_axes a) [])) = Some (Fin 100)" "cd_flags (fst (resilience (disk_axes a) [])) = []"
    using a(2,3) by (simp_all add: resilience_def resilience_channels_def storage_resilience_def worsens_def disk_axes_def
      storage_haxis_def ax_def no_axis_def or_zero_def py_min_def fround_100 Let_def)
  have raw: "raw_state (disk_axes a) [] None None = H0"
    using a(2) by (simp add: raw_state_def state_of_def all_flags_def o_value_percent disk_axes_percent d r any_flag_def at_most_def)
  have "\<not> snd (dominant (disk_axes a) [])"
    by (simp add: dominant_def is_systemic_def raised_def material_mechanisms_def AXIS_TO_DOMINANT_def AXIS_MECHANISM_def
      get_or_key_def disk_axes_def ax_def no_axis_def)
  then have "ve_state (compute_health (disk_axes a) None [] None None None) = H0"
    by (simp add: verdict_parts held_state_def raw ratchet_def floor_state_def)
  with a show ?thesis by blast
qed

end
