(* ===== verification/RiskAxis.thy ===== *)
theory RiskAxis imports Storage begin

text \<open>
  What the small risk engines of \<open>server/analytics\<close> (operating system, fleet, network, disk space, software ageing)
  share: the shape of their axis, the running value with its factors, and the contract they keep.  The contract is a
  locale; each engine is an interpretation of it, so that what follows from the contract is proved once.
  Texts are constructors.
\<close>

subsection \<open>The axis of an engine\<close>

datatype engine_reason = ER_None | ER_Untrusted | ER_NoData | ER_DomainGate | ER_AllClear | ER_Unmeasured | ER_FewPeers int | ER_FleetEvent

record ('l, 'm, 's) engine_axis =
  ea_value :: "pyfloat option"
  ea_band :: band
  ea_confidence :: confidence
  ea_factors :: "('l \<times> pyfloat) list"
  ea_missing :: "'m list"
  ea_lineage :: 's
  ea_reason :: engine_reason

definition engine_withheld :: "'m list \<Rightarrow> 's \<Rightarrow> engine_reason \<Rightarrow> ('l, 'm, 's) engine_axis" where
  "engine_withheld ms l r = \<lparr>ea_value = None, ea_band = NoBand, ea_confidence = NoConf, ea_factors = [], ea_missing = ms,
     ea_lineage = l, ea_reason = r\<rparr>"

definition engine_scored :: "pyfloat \<Rightarrow> confidence \<Rightarrow> ('l \<times> pyfloat) list \<Rightarrow> 'm list \<Rightarrow> 's \<Rightarrow> engine_reason
    \<Rightarrow> ('l, 'm, 's) engine_axis" where
  "engine_scored x c fs ms l r = \<lparr>ea_value = Some x, ea_band = band_for_risk_score (Some x), ea_confidence = c, ea_factors = fs,
     ea_missing = ms, ea_lineage = l, ea_reason = r\<rparr>"

type_synonym 'l score_tally = "pyfloat \<times> ('l \<times> pyfloat) list"

definition score_hit :: "'l \<Rightarrow> pyfloat \<Rightarrow> 'l score_tally \<Rightarrow> 'l score_tally" where
  \<comment> \<open>the local \<open>hit\<close>, which rounds the delta it shows\<close>
  "score_hit l delta t = (fadd (fst t) delta, snd t @ [(l, fround 1 delta)])"

definition add_part :: "pyfloat \<times> ('l \<times> pyfloat) option \<Rightarrow> 'l score_tally \<Rightarrow> 'l score_tally" where
  \<comment> \<open>\<open>value += delta\<close>, and the factor if there is one\<close>
  "add_part p t = (fadd (fst t) (fst p), snd t @ (case snd p of None \<Rightarrow> [] | Some f \<Rightarrow> [f]))"

definition whole_part :: "'l \<Rightarrow> nat \<Rightarrow> pyfloat \<times> ('l \<times> pyfloat) option" where
  "whole_part l n = (Fin (of_nat n), Some (l, Fin (of_nat n)))"

definition no_part :: "pyfloat \<times> ('l \<times> pyfloat) option" where
  "no_part = (Fin 0, None)"

definition shown_int :: "pyfloat option \<Rightarrow> int option res" where
  \<comment> \<open>\<open>int(x) if x is not None else None\<close>\<close>
  "shown_int x = (case x of None \<Rightarrow> Inr None | Some v \<Rightarrow> bindE (int_of_float v) (\<lambda>i. Inr (Some i)))"

definition hist_num :: "jobj option \<Rightarrow> string \<Rightarrow> pyfloat option res" where
  "hist_num hist key = (case hist of None \<Rightarrow> Inr None | Some h \<Rightarrow> to_num (jget h key))"

subsection \<open>The contract\<close>

definition fsum :: "pyfloat list \<Rightarrow> pyfloat" where
  "fsum xs = foldl fadd (Fin 0) xs"

definition whole_delta :: "pyfloat \<Rightarrow> bool" where
  "whole_delta x \<longleftrightarrow> (\<exists>n. n \<le> 100 \<and> x = Fin (of_nat n))"

definition tally_ok :: "'l score_tally \<Rightarrow> bool" where
  \<comment> \<open>the value is the sum of the factors, each of which is a whole number of points\<close>
  "tally_ok t \<longleftrightarrow> fst t = fsum (map snd (snd t)) \<and> list_all (\<lambda>f. whole_delta (snd f)) (snd t)"

definition sound_axis :: "('l, 'm, 's) engine_axis \<Rightarrow> bool" where
  \<comment> \<open>withheld altogether, or a number that its factors add up to\<close>
  "sound_axis a \<longleftrightarrow> ea_band a = band_for_risk_score (ea_value a) \<and>
     (case ea_value a of
        None \<Rightarrow> ea_confidence a = NoConf \<and> ea_factors a = []
      | Some v \<Rightarrow> ea_confidence a \<noteq> NoConf \<and> (\<exists>x. tally_ok (x, ea_factors a) \<and> v = clamp x 0 100))"

lemma double_fsum [simp]: "double (fsum xs)"
  by (cases xs rule: rev_cases) (simp_all add: fsum_def, simp add: double_def rnd64_def)

lemma fadd_zero: "double x \<Longrightarrow> fadd x (Fin 0) = x"
  by (cases x) (simp_all add: double_def)

lemma fround_whole: "\<bar>i\<bar> < 2 ^ 53 \<Longrightarrow> fround k (Fin (of_int i)) = Fin (of_int i)"
proof -
  assume i: "\<bar>i\<bar> < 2 ^ 53"
  have "half_even (of_int i * 10 ^ k) = i * 10 ^ k" using half_even_of_int[of "i * 10 ^ k"] by simp
  then show ?thesis using i by (simp add: fround_def rnd64_of_int)
qed

lemma fround_points: "n \<le> 100 \<Longrightarrow> fround k (Fin (of_nat n)) = Fin (of_nat n)"
  using fround_whole[of "int n" k] by simp

lemma tally_empty [simp]: "tally_ok (Fin 0, [])"
  by (simp add: tally_ok_def fsum_def)

lemma tally_snoc: "tally_ok t \<Longrightarrow> whole_delta d \<Longrightarrow> tally_ok (fadd (fst t) d, snd t @ [(l, d)])"
  by (simp add: tally_ok_def fsum_def)

lemma tally_hit: "tally_ok t \<Longrightarrow> n \<le> 100 \<Longrightarrow> tally_ok (score_hit l (Fin (of_nat n)) t)"
  using tally_snoc[of t "Fin (of_nat n)" l] by (auto simp: score_hit_def fround_points whole_delta_def)

lemma tally_part: "tally_ok t \<Longrightarrow> n \<le> 100 \<Longrightarrow> tally_ok (add_part (whole_part l n) t)"
  using tally_snoc[of t "Fin (of_nat n)" l] by (auto simp: add_part_def whole_part_def whole_delta_def)

lemma tally_none [simp]: "tally_ok t \<Longrightarrow> add_part no_part t = t"
  by (simp add: add_part_def no_part_def tally_ok_def fadd_zero prod_eq_iff)

lemma whole_sum:
  "list_all whole_delta xs \<Longrightarrow> length xs \<le> 1000 \<Longrightarrow> \<exists>n. n \<le> 100 * length xs \<and> fsum xs = Fin (of_nat n)"
proof (induction xs rule: rev_induct)
  case (snoc x xs)
  then obtain m n where mn: "m \<le> 100" "x = Fin (of_nat m)" "n \<le> 100 * length xs" "fsum xs = Fin (of_nat n)"
    by (auto simp: whole_delta_def)
  have "fsum (xs @ [x]) = rnd64 (of_int (int (n + m)))" using mn by (simp add: fsum_def)
  also have "\<dots> = Fin (of_int (int (n + m)))" using mn snoc.prems by (intro rnd64_of_int) simp
  finally show ?case using mn by (intro exI[of _ "n + m"]) simp
qed (simp add: fsum_def)

lemma fsum_append:
  assumes "list_all whole_delta (xs @ ys)" "length (xs @ ys) \<le> 1000"
  shows "fsum (xs @ ys) = fadd (fsum xs) (fsum ys)"
  using assms
proof (induction ys rule: rev_induct)
  case (snoc y ys)
  from snoc.prems obtain k where k: "y = Fin (of_nat k)" "k \<le> 100" by (auto simp: whole_delta_def)
  obtain m where m: "m \<le> 100 * length xs" "fsum xs = Fin (of_nat m)" using whole_sum[of xs] snoc.prems by auto
  obtain n where n: "n \<le> 100 * length ys" "fsum ys = Fin (of_nat n)" using whole_sum[of ys] snoc.prems by auto
  note p = k m n
  have r: "rnd64 (of_nat j) = Fin (of_nat j)" if "j \<le> 200000" for j using rnd64_of_int[of "int j"] that by simp
  have "fsum (xs @ ys @ [y]) = fadd (fadd (fsum xs) (fsum ys)) y" using snoc by (simp add: fsum_def)
  also have "\<dots> = fadd (fsum xs) (fadd (fsum ys) y)" using p snoc.prems(2) by (simp add: r flip: of_nat_add)
  finally show ?case by (simp add: fsum_def)
qed (simp add: fadd_zero[OF double_fsum, unfolded fsum_def] fsum_def)

lemma tally_join:
  "tally_ok s \<Longrightarrow> tally_ok t \<Longrightarrow> length (snd s @ snd t) \<le> 1000 \<Longrightarrow> tally_ok (fadd (fst s) (fst t), snd s @ snd t)"
  using fsum_append[of "map snd (snd s)" "map snd (snd t)"] by (simp add: tally_ok_def list.pred_map o_def)

lemma sound_withheld [simp]: "sound_axis (engine_withheld ms l r)"
  by (simp add: sound_axis_def engine_withheld_def band_for_risk_score_def)

lemma sound_scored: "tally_ok (x, fs) \<Longrightarrow> c \<noteq> NoConf \<Longrightarrow> sound_axis (engine_scored (clamp x 0 100) c fs ms l r)"
  by (auto simp: sound_axis_def engine_scored_def)

locale risk_engine =
  fixes engine :: "'i \<Rightarrow> bool \<Rightarrow> domain_state option \<Rightarrow> ('l, 'm, 's) engine_axis res"
  assumes identity: "\<exists>ms l r. engine i True d = Inr (engine_withheld ms l r)"
    and sound: "engine i u d = Inr a \<Longrightarrow> sound_axis a"
begin

lemma untrusted_withheld: "engine i True d = Inr a \<Longrightarrow> ea_value a = None"
  using identity[of i d] by (auto simp: engine_withheld_def)

lemma number_in_range: "engine i u d = Inr a \<Longrightarrow> ea_value a = Some v \<Longrightarrow> ranged 0 100 v"
  using sound[of i u d a] by (auto simp: sound_axis_def)

lemma number_explained: "engine i u d = Inr a \<Longrightarrow> ea_value a = Some v \<Longrightarrow> v = clamp (fsum (map snd (ea_factors a))) 0 100"
  using sound[of i u d a] by (auto simp: sound_axis_def tally_ok_def)

lemma withheld_iff: "engine i u d = Inr a \<Longrightarrow> (ea_value a = None) = (ea_band a = NoBand) \<and> (ea_value a = None) = (ea_confidence a = NoConf)"
  using sound[of i u d a] by (auto simp: sound_axis_def band_for_risk_score_def split: option.splits)

lemma alarm_has_factor: "engine i u d = Inr a \<Longrightarrow> ea_band a = Watch \<or> ea_band a = Bad \<Longrightarrow> ea_factors a \<noteq> []"
  using sound[of i u d a]
  by (auto simp: sound_axis_def tally_ok_def fsum_def band_for_risk_score_def clamp_def py_max_def py_min_def split: option.splits)

end

text \<open>Most engines read one source, whose trust domain gates the whole axis.\<close>

locale gated_engine = risk_engine engine
  for engine :: "'i \<Rightarrow> bool \<Rightarrow> domain_state option \<Rightarrow> ('l, 'm, 's) engine_axis res" +
  assumes gate: "engine i u (Some D_UNKNOWN) = Inr a \<Longrightarrow> ea_value a = None"
begin

lemma gated_is_silent: "engine i u (Some D_UNKNOWN) = Inr a \<Longrightarrow> ea_factors a = [] \<and> ea_band a = NoBand"
  using gate[of i u a] sound[of i u "Some D_UNKNOWN" a] by (simp add: sound_axis_def band_for_risk_score_def)

end

end
