(* ===== verification/OsDegradation.thy ===== *)
theory OsDegradation imports RiskAxis begin

text \<open>
  The operating-system engine of \<open>server/analytics/os_degradation.py\<close>: the reliability index leads, the counts of
  system crashes confirm, the boot time adds its own part.  The counts pass \<open>int\<close>, which refuses what is not finite.
\<close>

datatype os_label = OS_RsiCritical pyfloat | OS_RsiSevere pyfloat | OS_RsiHigh pyfloat | OS_RsiWatch pyfloat
  | OS_BsodMany int | OS_Bsod int | OS_DirtyMany int | OS_Dirty int | OS_BootVerySlow pyfloat | OS_BootSlow pyfloat

datatype os_missing = OM_Identity | OM_NoData | OM_Domain | OM_PendingReboot | OM_Cause | OM_NoRsi | OM_NoBsod | OM_NoBoot

record os_lineage =
  ol_rsi :: "pyfloat option"
  ol_bugchecks :: "int option"
  ol_dirty :: "int option"
  ol_boot :: "int option"
  ol_app_crashes :: "int option"

datatype os_origin = OO_None | OO_Identity | OO_Domain | OO_Readings os_lineage

type_synonym os_axis = "(os_label, os_missing, os_origin) engine_axis"

definition RSI_CRITICAL :: pyfloat where "RSI_CRITICAL = Fin 2"
definition RSI_SEVERE :: pyfloat where "RSI_SEVERE = Fin (7 / 2)"
definition RSI_HIGH :: pyfloat where "RSI_HIGH = Fin 5"
definition RSI_WATCH :: pyfloat where "RSI_WATCH = Fin 7"
definition BSOD_SEVERE :: int where "BSOD_SEVERE = 3"
definition BSOD_ONE :: int where "BSOD_ONE = 1"
definition DIRTY_MANY :: int where "DIRTY_MANY = 5"
definition DIRTY_SOME :: int where "DIRTY_SOME = 2"
definition BOOT_SLOW :: pyfloat where "BOOT_SLOW = Fin 60000"
definition BOOT_VERY_SLOW :: pyfloat where "BOOT_VERY_SLOW = Fin 120000"

definition rsi_contribution :: "pyfloat \<Rightarrow> pyfloat \<times> (os_label \<times> pyfloat) option" where
  "rsi_contribution rsi =
     (if flt rsi RSI_CRITICAL then whole_part (OS_RsiCritical rsi) 60
      else if flt rsi RSI_SEVERE then whole_part (OS_RsiSevere rsi) 40
      else if flt rsi RSI_HIGH then whole_part (OS_RsiHigh rsi) 22
      else if flt rsi RSI_WATCH then whole_part (OS_RsiWatch rsi) 10
      else no_part)"

definition bugcheck_part :: "int \<Rightarrow> pyfloat \<times> (os_label \<times> pyfloat) option" where
  "bugcheck_part n = (if BSOD_SEVERE \<le> n then whole_part (OS_BsodMany n) 30
     else if BSOD_ONE \<le> n then whole_part (OS_Bsod n) 15 else no_part)"

definition dirty_part :: "int \<Rightarrow> pyfloat \<times> (os_label \<times> pyfloat) option" where
  "dirty_part n = (if DIRTY_MANY \<le> n then whole_part (OS_DirtyMany n) 12
     else if DIRTY_SOME \<le> n then whole_part (OS_Dirty n) 6 else no_part)"

definition crash_contribution :: "pyfloat option \<Rightarrow> pyfloat option \<Rightarrow> os_label score_tally res" where
  "crash_contribution bugchecks dirty =
     bindE (shown_int bugchecks) (\<lambda>b. bindE (shown_int dirty) (\<lambda>d.
       Inr (add_part (case d of None \<Rightarrow> no_part | Some n \<Rightarrow> dirty_part n)
             (add_part (case b of None \<Rightarrow> no_part | Some n \<Rightarrow> bugcheck_part n) (Fin 0, [])))))"

definition boot_contribution :: "pyfloat option \<Rightarrow> pyfloat \<times> (os_label \<times> pyfloat) option" where
  "boot_contribution boot = (case boot of None \<Rightarrow> no_part
     | Some x \<Rightarrow> if fle BOOT_VERY_SLOW x then whole_part (OS_BootVerySlow x) 12
         else if fle BOOT_SLOW x then whole_part (OS_BootSlow x) 5 else no_part)"

definition os_missing_of :: "pyfloat option \<Rightarrow> pyfloat option \<Rightarrow> pyfloat option \<Rightarrow> os_missing list" where
  "os_missing_of rsi bugchecks boot = [OM_PendingReboot, OM_Cause] @ (if rsi = None then [OM_NoRsi] else []) @
     (if bugchecks = None then [OM_NoBsod] else []) @ (if boot = None then [OM_NoBoot] else [])"

definition os_tally :: "pyfloat option \<Rightarrow> os_label score_tally \<Rightarrow> pyfloat option \<Rightarrow> os_label score_tally" where
  \<comment> \<open>the index, the crashes, the boot time\<close>
  "os_tally rsi crashes boot =
     (let t = add_part (case rsi of None \<Rightarrow> no_part | Some x \<Rightarrow> rsi_contribution x) (Fin 0, []);
          t = (fadd (fst t) (fst crashes), snd t @ snd crashes)
      in add_part (boot_contribution boot) t)"

definition os_reason :: "pyfloat \<Rightarrow> pyfloat option \<Rightarrow> engine_reason" where
  "os_reason v rsi = (if \<not> feq v (Fin 0) then ER_None
     else if (case rsi of None \<Rightarrow> False | Some x \<Rightarrow> fle RSI_WATCH x) then ER_AllClear else ER_Unmeasured)"

definition os_verdict :: "pyfloat option \<Rightarrow> pyfloat option \<Rightarrow> pyfloat option \<Rightarrow> pyfloat option \<Rightarrow> pyfloat option
    \<Rightarrow> os_label score_tally \<Rightarrow> os_axis res" where
  \<comment> \<open>what follows the sum; the readings are shown as whole numbers\<close>
  "os_verdict rsi bugchecks dirty boot crashes t =
     bindE (shown_int bugchecks) (\<lambda>b. bindE (shown_int dirty) (\<lambda>d. bindE (shown_int boot) (\<lambda>bt. bindE (shown_int crashes) (\<lambda>ac.
       Inr (engine_scored (clamp (fst t) 0 100)
         (if rsi \<noteq> None \<and> (bugchecks \<noteq> None \<or> dirty \<noteq> None) then ConfMedium else ConfLow)
         (snd t) (os_missing_of rsi bugchecks boot)
         (OO_Readings \<lparr>ol_rsi = map_option (fround 1) rsi, ol_bugchecks = b, ol_dirty = d, ol_boot = bt, ol_app_crashes = ac\<rparr>)
         (os_reason (fst t) rsi))))))"

definition compute_os_degradation_risk :: "jobj option \<Rightarrow> bool \<Rightarrow> domain_state option \<Rightarrow> os_axis res" where
  "compute_os_degradation_risk hist untrusted domain =
     (if untrusted then Inr (engine_withheld [OM_Identity] OO_Identity ER_Untrusted)
      else bindE (hist_num hist ''reliability_stability_index'') (\<lambda>rsi.
           bindE (hist_num hist ''bugchecks_30d'') (\<lambda>bugchecks.
           bindE (hist_num hist ''dirty_shutdowns_30d'') (\<lambda>dirty.
           bindE (hist_num hist ''avg_boot_ms'') (\<lambda>boot.
           bindE (hist_num hist ''app_crashes_30d'') (\<lambda>crashes.
           if rsi = None \<and> bugchecks = None \<and> dirty = None then Inr (engine_withheld [OM_NoData] OO_None ER_NoData)
           else if domain = Some D_UNKNOWN then Inr (engine_withheld [OM_Domain] OO_Domain ER_DomainGate)
           else bindE (crash_contribution bugchecks dirty) (\<lambda>c.
                os_verdict rsi bugchecks dirty boot crashes (os_tally rsi c boot))))))))"

subsection \<open>The contract\<close>

lemma opt_part: "tally_ok t \<Longrightarrow> (\<And>x. tally_ok (add_part (f x) t)) \<Longrightarrow> tally_ok (add_part (case y of None \<Rightarrow> no_part | Some x \<Rightarrow> f x) t)"
  by (cases y) simp_all

lemmas os_parts = rsi_contribution_def bugcheck_part_def dirty_part_def boot_contribution_def

lemma part_ok: "tally_ok t \<Longrightarrow> tally_ok (add_part (rsi_contribution r) t)" "tally_ok t \<Longrightarrow> tally_ok (add_part (bugcheck_part n) t)"
  "tally_ok t \<Longrightarrow> tally_ok (add_part (dirty_part n) t)" "tally_ok t \<Longrightarrow> tally_ok (add_part (boot_contribution b) t)"
  by (simp_all add: os_parts tally_part split: option.splits)

lemma few_factors: "length (snd (add_part p t)) \<le> Suc (length (snd t))"
  by (simp add: add_part_def split: option.splits)

lemma crash_tally: "crash_contribution b d = Inr c \<Longrightarrow> tally_ok c \<and> length (snd c) \<le> 2"
proof -
  have len: "length (snd (add_part p (add_part q (Fin 0, [])))) \<le> 2" for p q :: "pyfloat \<times> (os_label \<times> pyfloat) option"
    using few_factors[of p "add_part q (Fin 0, [])"] few_factors[of q "(Fin 0, [])"] by simp
  then show "crash_contribution b d = Inr c \<Longrightarrow> tally_ok c \<and> length (snd c) \<le> 2"
    by (auto simp: crash_contribution_def intro!: len opt_part part_ok)
qed

lemma os_tally_ok: "crash_contribution b d = Inr c \<Longrightarrow> tally_ok (os_tally r c bt)"
proof -
  assume c: "crash_contribution b d = Inr c"
  let ?t = "add_part (case r of None \<Rightarrow> no_part | Some x \<Rightarrow> rsi_contribution x) (Fin 0, [])"
  have "tally_ok ?t" by (intro opt_part part_ok tally_empty)
  moreover have "length (snd ?t) \<le> 1" using few_factors[of _ "(Fin 0, [])"] by simp
  ultimately have "tally_ok (fadd (fst ?t) (fst c), snd ?t @ snd c)" using crash_tally[OF c] by (intro tally_join) auto
  then show ?thesis unfolding os_tally_def Let_def by (rule part_ok(4))
qed

lemma os_verdict_sound: "os_verdict r b d bt ac t = Inr a \<Longrightarrow> tally_ok t \<Longrightarrow> sound_axis a"
  unfolding os_verdict_def
  by (elim bindE_Inr_iff[THEN iffD1, elim_format] exE conjE) (simp, erule subst, intro sound_scored, simp, simp)

lemma os_cases:
  assumes "compute_os_degradation_risk h False dm = Inr a"
  shows "(\<exists>ms l r. a = engine_withheld ms l r) \<or> dm \<noteq> Some D_UNKNOWN \<and> (\<exists>r b d bt ac t. os_verdict r b d bt ac t = Inr a \<and> tally_ok t)"
proof -
  from assms obtain r b d bt ac where "(if r = None \<and> b = None \<and> d = None then Inr (engine_withheld [OM_NoData] OO_None ER_NoData)
     else if dm = Some D_UNKNOWN then Inr (engine_withheld [OM_Domain] OO_Domain ER_DomainGate)
     else bindE (crash_contribution b d) (\<lambda>c. os_verdict r b d bt ac (os_tally r c bt))) = Inr a"
    unfolding compute_os_degradation_risk_def by (simp only: if_False bindE_Inr_iff) blast
  then show ?thesis by (simp del: split_paired_Ex split: if_splits) (use os_tally_ok in \<open>blast+\<close>)
qed

interpretation os: gated_engine compute_os_degradation_risk
proof unfold_locales
  show untrusted: "\<exists>ms l r. compute_os_degradation_risk i True d = Inr (engine_withheld ms l r)" for i d
    by (auto simp: compute_os_degradation_risk_def)
  show "sound_axis a" if "compute_os_degradation_risk i u d = Inr a" for i u d a
    using that untrusted[of i d] os_cases[of i d a] os_verdict_sound by (cases u) auto
  show "ea_value a = None" if "compute_os_degradation_risk i u (Some D_UNKNOWN) = Inr a" for i u a
    using that untrusted[of i "Some D_UNKNOWN"] os_cases[of i "Some D_UNKNOWN" a] by (cases u) (auto simp: engine_withheld_def)
qed

end
