(* ===== verification/FleetAnomaly.thy ===== *)
theory FleetAnomaly imports RiskAxis begin

text \<open>
  The aggregates of a fleet in \<open>server/db.py\<close> (the cohort of a model and the machines of a site, over the latest
  stored history of each machine) and the engine of \<open>server/analytics/fleet_anomaly.py\<close> that reads them.  A query is a
  function of the two tables; what SQLite's \<open>CAST(... AS REAL)\<close> makes of a text is a parameter.
\<close>

subsection \<open>The tables\<close>

record device_row =
  dv_id :: string
  dv_model :: "string option"
  dv_site :: "string option"

record history_row =
  hs_id :: nat
  hs_device :: string
  hs_payload :: jobj

definition sql_real :: "(string \<Rightarrow> pyfloat) \<Rightarrow> jobj \<Rightarrow> string \<Rightarrow> pyfloat option" where
  \<comment> \<open>\<open>CAST(json_extract(payload, '$.key') AS REAL)\<close>; the text of a list or an object starts with no digit\<close>
  "sql_real cast payload key = (case jget payload key of
       JNull \<Rightarrow> None
     | JBool b \<Rightarrow> Some (Fin (if b then 1 else 0))
     | JInt i \<Rightarrow> Some (rnd64 (of_int i))
     | JFloat f \<Rightarrow> Some f
     | JStr s \<Rightarrow> Some (cast s)
     | _ \<Rightarrow> Some (Fin 0))"

definition latest_history :: "history_row list \<Rightarrow> string \<Rightarrow> history_row option" where
  \<comment> \<open>\<open>h.id = (SELECT MAX(id) FROM historical WHERE device_id = d.device_id)\<close>\<close>
  "latest_history hs d = (case filter (\<lambda>h. hs_device h = d) hs of [] \<Rightarrow> None | h # rest \<Rightarrow> Some (argmax hs_id h rest))"

definition group_rows :: "(device_row \<Rightarrow> string option) \<Rightarrow> string \<Rightarrow> device_row list \<Rightarrow> history_row list \<Rightarrow> history_row list" where
  \<comment> \<open>the machines with the key, joined with their latest history\<close>
  "group_rows key_of k devs hs = List.map_filter (\<lambda>d. if key_of d = Some k then latest_history hs (dv_id d) else None) devs"

definition sql_avg :: "bool option list \<Rightarrow> pyfloat option" where
  \<comment> \<open>\<open>AVG\<close> of ones and zeros, which skips NULL\<close>
  "sql_avg bs = (let xs = List.map_filter (\<lambda>b. b) bs
     in if xs = [] then None else Some (rnd64 (of_nat (length (filter (\<lambda>b. b) xs)) / of_nat (length xs))))"

definition flagged :: "(string \<Rightarrow> pyfloat) \<Rightarrow> string \<Rightarrow> (pyfloat \<Rightarrow> bool) \<Rightarrow> history_row \<Rightarrow> bool option" where
  \<comment> \<open>\<open>CASE WHEN ... THEN 1.0 WHEN ... IS NOT NULL THEN 0.0 END\<close>\<close>
  "flagged cast key p h = map_option p (sql_real cast (hs_payload h) key)"

definition rate_of :: "(string \<Rightarrow> pyfloat) \<Rightarrow> string \<Rightarrow> (pyfloat \<Rightarrow> bool) \<Rightarrow> history_row list \<Rightarrow> pyfloat" where
  "rate_of cast key p rows = (case sql_avg (map (flagged cast key p) rows) of None \<Rightarrow> Fin 0 | Some r \<Rightarrow> r)"

definition COHORT_BOOT_CAP :: nat where "COHORT_BOOT_CAP = 200"

definition cohort_boot_p90 :: "(string \<Rightarrow> pyfloat) \<Rightarrow> history_row list \<Rightarrow> pyfloat option" where
  \<comment> \<open>the newest rows that have a boot time, at most 200; the nearest rank by whole numbers\<close>
  "cohort_boot_p90 cast rows =
     (let newest = take COHORT_BOOT_CAP (filter (\<lambda>h. sql_real cast (hs_payload h) ''avg_boot_ms'' \<noteq> None)
            (rev (sort_key hs_id rows)));
          values = sort_asc (\<lambda>x. x) (List.map_filter (\<lambda>h. sql_real cast (hs_payload h) ''avg_boot_ms'') newest)
      in if values = [] then None else Some (values ! ((9 * length values + 9) div 10 - 1)))"

record cohort_stats =
  cs_size :: nat
  cs_bsod :: pyfloat
  cs_kp41 :: pyfloat
  cs_rsi_low :: pyfloat
  cs_boot_p90 :: "pyfloat option"
  cs_site_size :: nat
  cs_site_kp41 :: pyfloat

definition named :: "string option \<Rightarrow> string option" where
  \<comment> \<open>\<open>if model:\<close>\<close>
  "named k = (case k of Some (c # s) \<Rightarrow> Some (c # s) | _ \<Rightarrow> None)"

definition get_fleet_cohort_stats :: "(string \<Rightarrow> pyfloat) \<Rightarrow> device_row list \<Rightarrow> history_row list \<Rightarrow> string option \<Rightarrow> string option
    \<Rightarrow> cohort_stats" where
  "get_fleet_cohort_stats cast devs hs model site =
     (let c = (case named model of None \<Rightarrow> [] | Some m \<Rightarrow> group_rows dv_model m devs hs);
          s = (case named site of None \<Rightarrow> [] | Some k \<Rightarrow> group_rows dv_site k devs hs)
      in \<lparr>cs_size = length c,
          cs_bsod = rate_of cast ''bugchecks_30d'' (fle (Fin 1)) c,
          cs_kp41 = rate_of cast ''kernel_power_41_30d'' (fle (Fin 2)) c,
          cs_rsi_low = rate_of cast ''reliability_stability_index'' (\<lambda>x. flt x (Fin 5)) c,
          cs_boot_p90 = cohort_boot_p90 cast c,
          cs_site_size = length s,
          cs_site_kp41 = rate_of cast ''kernel_power_41_30d'' (fle (Fin 2)) s\<rparr>)"

definition get_device_model_site :: "device_row list \<Rightarrow> string \<Rightarrow> string option \<times> string option" where
  "get_device_model_site devs d = (case find (\<lambda>r. dv_id r = d) devs of None \<Rightarrow> (None, None) | Some r \<Rightarrow> (dv_model r, dv_site r))"

subsection \<open>The engine\<close>

datatype fleet_label = FL_SiteCluster pyfloat nat | FL_SitePower pyfloat nat | FL_BsodHigh pyfloat nat | FL_BsodMod pyfloat nat
  | FL_BsodLow pyfloat nat | FL_RsiHigh pyfloat nat | FL_RsiMod pyfloat nat
datatype fleet_missing = FM_Identity | FM_NoData | FM_NoModel | FM_TooFew nat | FM_Build | FM_Cause
datatype fleet_origin = FO_None | FO_Identity | FO_Size nat | FO_Stats cohort_stats

type_synonym fleet_axis = "(fleet_label, fleet_missing, fleet_origin) engine_axis"

definition BSOD_HIGH :: pyfloat where "BSOD_HIGH = rnd64 (40 / 100)"
definition BSOD_MOD :: pyfloat where "BSOD_MOD = rnd64 (25 / 100)"
definition BSOD_LOW :: pyfloat where "BSOD_LOW = rnd64 (10 / 100)"
definition RSI_HIGH_RATE :: pyfloat where "RSI_HIGH_RATE = rnd64 (40 / 100)"
definition RSI_MOD_RATE :: pyfloat where "RSI_MOD_RATE = rnd64 (25 / 100)"
definition KP41_HIGH :: pyfloat where "KP41_HIGH = rnd64 (50 / 100)"
definition KP41_MOD :: pyfloat where "KP41_MOD = rnd64 (30 / 100)"
definition MIN_SITE_FOR_CLUSTER :: nat where "MIN_SITE_FOR_CLUSTER = 3"
definition MIN_COHORT :: nat where "MIN_COHORT = 2"
definition COHORT_MEDIUM :: nat where "COHORT_MEDIUM = 5"

definition site_kp41_contribution :: "pyfloat \<Rightarrow> nat \<Rightarrow> pyfloat \<times> (fleet_label \<times> pyfloat) option" where
  "site_kp41_contribution rate n =
     (if n < MIN_SITE_FOR_CLUSTER then no_part
      else if fle KP41_HIGH rate then whole_part (FL_SiteCluster rate n) 40
      else if fle KP41_MOD rate then whole_part (FL_SitePower rate n) 20
      else no_part)"

definition cohort_bsod_contribution :: "pyfloat \<Rightarrow> nat \<Rightarrow> pyfloat \<times> (fleet_label \<times> pyfloat) option" where
  "cohort_bsod_contribution rate n =
     (if fle BSOD_HIGH rate then whole_part (FL_BsodHigh rate n) 35
      else if fle BSOD_MOD rate then whole_part (FL_BsodMod rate n) 20
      else if fle BSOD_LOW rate then whole_part (FL_BsodLow rate n) 8
      else no_part)"

definition cohort_rsi_contribution :: "pyfloat \<Rightarrow> nat \<Rightarrow> pyfloat \<times> (fleet_label \<times> pyfloat) option" where
  "cohort_rsi_contribution rate n =
     (if fle RSI_HIGH_RATE rate then whole_part (FL_RsiHigh rate n) 20
      else if fle RSI_MOD_RATE rate then whole_part (FL_RsiMod rate n) 10
      else no_part)"

definition fleet_tally :: "cohort_stats \<Rightarrow> fleet_label score_tally" where
  "fleet_tally cs = add_part (cohort_rsi_contribution (cs_rsi_low cs) (cs_size cs))
     (add_part (cohort_bsod_contribution (cs_bsod cs) (cs_size cs))
     (add_part (site_kp41_contribution (cs_site_kp41 cs) (cs_site_size cs)) (Fin 0, [])))"

definition shown_stats :: "cohort_stats \<Rightarrow> cohort_stats" where
  \<comment> \<open>the rates to three places\<close>
  "shown_stats cs = cs\<lparr>cs_bsod := fround 3 (cs_bsod cs), cs_kp41 := fround 3 (cs_kp41 cs), cs_rsi_low := fround 3 (cs_rsi_low cs),
     cs_boot_p90 := None, cs_site_kp41 := fround 3 (cs_site_kp41 cs)\<rparr>"

definition compute_fleet_anomaly_risk :: "cohort_stats option \<Rightarrow> bool \<Rightarrow> fleet_axis" where
  "compute_fleet_anomaly_risk stats untrusted =
     (if untrusted then engine_withheld [FM_Identity] FO_Identity ER_Untrusted
      else case stats of
        None \<Rightarrow> engine_withheld [FM_NoData] FO_None ER_NoData
      | Some cs \<Rightarrow>
          if cs_size cs < MIN_COHORT
          then engine_withheld [if cs_size cs = 0 then FM_NoModel else FM_TooFew (cs_size cs), FM_Build] (FO_Size (cs_size cs))
                 (ER_FewPeers (int (cs_size cs)))
          else let t = fleet_tally cs
            in engine_scored (clamp (fst t) 0 100) (if COHORT_MEDIUM \<le> cs_size cs then ConfMedium else ConfLow) (snd t)
                 [FM_Build, FM_Cause] (FO_Stats (shown_stats cs))
                 (if feq (fst t) (Fin 0) then ER_AllClear else ER_FleetEvent))"

lemmas fleet_parts = site_kp41_contribution_def cohort_bsod_contribution_def cohort_rsi_contribution_def

lemma fleet_tally_ok: "tally_ok (fleet_tally cs)"
  by (simp add: fleet_tally_def fleet_parts tally_part)

interpretation fleet: risk_engine "\<lambda>stats u d. Inr (compute_fleet_anomaly_risk stats u)"
  by unfold_locales (auto simp: compute_fleet_anomaly_risk_def Let_def fleet_tally_ok split: option.splits if_splits intro!: sound_scored)

subsection \<open>Silent machines\<close>

lemma rate_append:
  "list_all (\<lambda>h. sql_real cast (hs_payload h) key = None) new \<Longrightarrow> rate_of cast key p (rows @ new) = rate_of cast key p rows"
proof -
  assume "list_all (\<lambda>h. sql_real cast (hs_payload h) key = None) new"
  then have "List.map_filter (\<lambda>b. b) (map (flagged cast key p) new) = []"
    by (induction new) (simp_all add: flagged_def List.map_filter_simps)
  then show ?thesis by (simp add: rate_of_def sql_avg_def map_filter_def)
qed

lemma latest_other: "\<forall>h\<in>set new. hs_device h \<noteq> d \<Longrightarrow> latest_history (hs @ new) d = latest_history hs d"
proof -
  assume "\<forall>h\<in>set new. hs_device h \<noteq> d"
  then have "filter (\<lambda>h. hs_device h = d) new = []" by (simp add: filter_empty_conv)
  then show ?thesis by (simp add: latest_history_def)
qed

lemma latest_own:
  assumes "\<forall>h\<in>set hs. hs_device h \<noteq> d" "latest_history (hs @ new) d = Some h"
  shows "h \<in> set new"
proof -
  have "filter (\<lambda>h. hs_device h = d) hs = []" using assms(1) by (simp add: filter_empty_conv)
  then obtain x xs where "filter (\<lambda>h. hs_device h = d) new = x # xs" "h = argmax hs_id x xs"
    using assms(2) by (auto simp: latest_history_def split: list.splits)
  then show ?thesis using argmax_in[of hs_id x xs] by (metis filter_is_subset insert_iff list.set(2) subsetD)
qed

lemma group_grows:
  assumes "\<forall>h\<in>set new. hs_device h = dv_id d" "\<forall>h\<in>set hs. hs_device h \<noteq> dv_id d" "\<forall>e\<in>set devs. dv_id e \<noteq> dv_id d"
  shows "\<exists>xs. group_rows key_of k (devs @ [d]) (hs @ new) = group_rows key_of k devs hs @ xs \<and> set xs \<subseteq> set new"
proof -
  have "latest_history (hs @ new) (dv_id e) = latest_history hs (dv_id e)" if "e \<in> set devs" for e
    using assms(1,3) that by (intro latest_other) auto
  then have "List.map_filter (\<lambda>e. if key_of e = Some k then latest_history (hs @ new) (dv_id e) else None) devs = group_rows key_of k devs hs"
    unfolding group_rows_def by (induction devs) (auto simp: List.map_filter_simps split: option.split)
  moreover have "set (List.map_filter (\<lambda>e. if key_of e = Some k then latest_history (hs @ new) (dv_id e) else None) [d]) \<subseteq> set new"
    using latest_own[OF assms(2)] by (auto simp: List.map_filter_simps split: option.splits)
  ultimately show ?thesis by (auto simp: group_rows_def map_filter_def)
qed

definition reports_nothing :: "(string \<Rightarrow> pyfloat) \<Rightarrow> history_row \<Rightarrow> bool" where
  "reports_nothing cast h \<longleftrightarrow> list_all (\<lambda>k. sql_real cast (hs_payload h) k = None)
     [''bugchecks_30d'', ''kernel_power_41_30d'', ''reliability_stability_index'']"

lemma silent_rates:
  assumes "\<forall>h\<in>set new. reports_nothing cast h" "set xs \<subseteq> set new"
    "k \<in> {''bugchecks_30d'', ''kernel_power_41_30d'', ''reliability_stability_index''}"
  shows "rate_of cast k p (rows @ xs) = rate_of cast k p rows"
  by (rule rate_append) (use assms in \<open>auto simp: list_all_iff reports_nothing_def\<close>)

text \<open>A machine that reports no crash counts and no reliability index joins the fleet without diluting it: it is counted in the
  size of its cohort and of its site, and no rate moves, so that silence never passes for health.\<close>
theorem silent_machine_dilutes_nothing:
  assumes "\<forall>h\<in>set new. hs_device h = dv_id d \<and> reports_nothing cast h" "\<forall>h\<in>set hs. hs_device h \<noteq> dv_id d"
    "\<forall>e\<in>set devs. dv_id e \<noteq> dv_id d"
    "cs = get_fleet_cohort_stats cast devs hs model site"
    "cs' = get_fleet_cohort_stats cast (devs @ [d]) (hs @ new) model site"
  shows "cs_bsod cs' = cs_bsod cs \<and> cs_kp41 cs' = cs_kp41 cs \<and> cs_rsi_low cs' = cs_rsi_low cs \<and>
    cs_site_kp41 cs' = cs_site_kp41 cs \<and> cs_size cs \<le> cs_size cs' \<and> cs_site_size cs \<le> cs_site_size cs'"
proof -
  have own: "\<forall>h\<in>set new. hs_device h = dv_id d" and quiet: "\<forall>h\<in>set new. reports_nothing cast h" using assms(1) by auto
  note grown = group_grows[OF own assms(2,3)]
  note rates = silent_rates[OF quiet]
  let ?c = "\<lambda>ds rows. case named model of None \<Rightarrow> [] | Some m \<Rightarrow> group_rows dv_model m ds rows"
  let ?s = "\<lambda>ds rows. case named site of None \<Rightarrow> [] | Some k \<Rightarrow> group_rows dv_site k ds rows"
  obtain xs where xs: "?c (devs @ [d]) (hs @ new) = ?c devs hs @ xs" "set xs \<subseteq> set new"
    using grown[of dv_model] by (cases "named model") force+
  obtain ys where ys: "?s (devs @ [d]) (hs @ new) = ?s devs hs @ ys" "set ys \<subseteq> set new"
    using grown[of dv_site] by (cases "named site") force+
  show ?thesis using rates[OF xs(2)] rates[OF ys(2)] unfolding assms(4,5) get_fleet_cohort_stats_def Let_def xs(1) ys(1) by simp
qed

subsection \<open>The nearest rank\<close>

lemma count_nth:
  assumes "numbers xs" "i < length xs"
  shows "Suc i \<le> length (filter (\<lambda>x. fle x (sort_asc (\<lambda>x. x) xs ! i)) xs)"
    "length (filter (\<lambda>x. flt x (sort_asc (\<lambda>x. x) xs ! i)) xs) \<le> i"
proof -
  let ?s = "sort_asc (\<lambda>x. x) xs"
  have i: "i < length ?s" using assms(2) by simp
  have parts: "length (filter P xs) = length (filter P (take k ?s)) + length (filter P (drop k ?s))" for P k
    using filter_sort_asc[of P "\<lambda>x. x" xs] by (metis append_take_drop_id filter_append length_append)
  have "filter (\<lambda>x. fle x (?s ! i)) (take (Suc i) ?s) = take (Suc i) ?s"
    using sorted_nth[OF assms(1)] assms(2) by (intro filter_True) (auto simp: in_set_conv_nth)
  then show "Suc i \<le> length (filter (\<lambda>x. fle x (?s ! i)) xs)" using i by (simp add: parts[of _ "Suc i"])
  have "\<not> flt (?s ! j) (?s ! i)" if "i \<le> j" "j < length xs" for j
    using sorted_nth[OF assms(1) that] fle_antisym unfolding flt_fle by blast
  then have "filter (\<lambda>x. flt x (?s ! i)) (drop i ?s) = []" using i by (auto simp: filter_empty_conv in_set_conv_nth)
  then show "length (filter (\<lambda>x. flt x (?s ! i)) xs) \<le> i"
    using length_filter_le[of "\<lambda>x. flt x (?s ! i)" "take i ?s"] i by (simp add: parts[of _ i])
qed

definition boot_sample :: "(string \<Rightarrow> pyfloat) \<Rightarrow> history_row list \<Rightarrow> pyfloat list" where
  \<comment> \<open>the boot times the aggregate looks at\<close>
  "boot_sample cast rows = List.map_filter (\<lambda>h. sql_real cast (hs_payload h) ''avg_boot_ms'')
     (take COHORT_BOOT_CAP (filter (\<lambda>h. sql_real cast (hs_payload h) ''avg_boot_ms'' \<noteq> None) (rev (sort_key hs_id rows))))"

text \<open>The ninetieth percentile is one: nine tenths of the sampled machines boot at least as fast, and fewer than nine tenths boot faster.\<close>
theorem boot_p90_is_the_ninth_decile:
  assumes "cohort_boot_p90 cast rows = Some p" "xs = boot_sample cast rows" "numbers xs"
  shows "9 * length xs \<le> 10 * length (filter (\<lambda>x. fle x p) xs) \<and> 10 * length (filter (\<lambda>x. flt x p) xs) < 9 * length xs"
proof -
  define i where "i = (9 * length xs + 9) div 10 - 1"
  have p: "p = sort_asc (\<lambda>x. x) xs ! i" and ne: "xs \<noteq> []"
    using assms(1) set_sort_asc[of "\<lambda>x. x" xs] unfolding cohort_boot_p90_def boot_sample_def[symmetric] assms(2)[symmetric] i_def Let_def
    by (auto split: if_splits simp del: set_sort_asc)
  have i: "i < length xs" "9 * length xs \<le> 10 * Suc i" "10 * i < 9 * length xs" 
    using ne mult_div_mod_eq[of 10 "9 * length xs + 9"] mod_less_divisor[of 10 "9 * length xs + 9"]
    by (cases xs; simp add: i_def; linarith)+
  show ?thesis using count_nth[OF assms(3) i(1)] i(2,3) unfolding p[symmetric] by simp
qed

subsection \<open>Samples\<close>

definition fleet_device :: "string \<Rightarrow> device_row" where
  "fleet_device s = \<lparr>dv_id = s, dv_model = Some ''T14'', dv_site = Some ''1A''\<rparr>"

definition fleet_history :: "nat \<Rightarrow> string \<Rightarrow> jobj \<Rightarrow> history_row" where
  "fleet_history n s p = \<lparr>hs_id = n, hs_device = s, hs_payload = p\<rparr>"

definition silent_fleet :: "device_row list \<times> history_row list" where
  "silent_fleet = (map fleet_device [''a'', ''b'', ''c''], [fleet_history 1 ''a'' [(''kernel_power_41_30d'', JInt 2), (''avg_boot_ms'', JInt 9)],
     fleet_history 2 ''b'' [], fleet_history 3 ''c'' []])"

text \<open>The rates leave silent machines out, but the least sizes count them: of three machines of a site one reports its power losses, and the
  engine sees all of the site in a power cluster.\<close>
lemma silent_stats:
  "get_fleet_cohort_stats (\<lambda>_. NaN) (fst silent_fleet) (snd silent_fleet) (Some ''T14'') (Some ''1A'')
   = \<lparr>cs_size = 3, cs_bsod = Fin 0, cs_kp41 = Fin 1, cs_rsi_low = Fin 0, cs_boot_p90 = Some (Fin 9), cs_site_size = 3, cs_site_kp41 = Fin 1\<rparr>"
proof -
  have one: "rnd64 1 = Fin 1" "rnd64 2 = Fin 2" "rnd64 9 = Fin 9" using rnd64_of_int[of 1] rnd64_of_int[of 2] rnd64_of_int[of 9] by simp_all
  define a b c where abc: "a = fleet_history 1 ''a'' [(''kernel_power_41_30d'', JInt 2), (''avg_boot_ms'', JInt 9)]"
    "b = fleet_history 2 ''b'' []" "c = fleet_history 3 ''c'' []"
  have rows: "group_rows dv_model ''T14'' (fst silent_fleet) (snd silent_fleet) = [a, b, c]"
    "group_rows dv_site ''1A'' (fst silent_fleet) (snd silent_fleet) = [a, b, c]"
    by (simp_all add: group_rows_def silent_fleet_def fleet_device_def fleet_history_def abc latest_history_def List.map_filter_simps)
  have real: "sql_real f (hs_payload b) k = None" "sql_real f (hs_payload c) k = None"
    "sql_real f (hs_payload a) ''kernel_power_41_30d'' = Some (Fin 2)" "sql_real f (hs_payload a) ''bugchecks_30d'' = None"
    "sql_real f (hs_payload a) ''reliability_stability_index'' = None" "sql_real f (hs_payload a) ''avg_boot_ms'' = Some (Fin 9)" for f k
    by (simp_all add: sql_real_def fleet_history_def abc jget_Cons jget_Nil one)
  have rates: "rate_of f ''kernel_power_41_30d'' (fle (Fin 2)) [a, b, c] = Fin 1" "rate_of f ''bugchecks_30d'' p [a, b, c] = Fin 0"
    "rate_of f ''reliability_stability_index'' p [a, b, c] = Fin 0" for f p
    by (simp_all add: rate_of_def sql_avg_def flagged_def real List.map_filter_simps one)
  have "sort_key hs_id [a, b, c] = [a, b, c]" by (simp add: abc fleet_history_def)
  then have "cohort_boot_p90 f [a, b, c] = Some (Fin 9)" for f
    by (simp add: cohort_boot_p90_def real COHORT_BOOT_CAP_def List.map_filter_simps sort_asc_def sort_desc_def Let_def)
  then show ?thesis by (simp add: get_fleet_cohort_stats_def rows named_def rates)
qed

theorem one_report_makes_a_cluster:
  "(let cs = get_fleet_cohort_stats (\<lambda>_. NaN) (fst silent_fleet) (snd silent_fleet) (Some ''T14'') (Some ''1A'')
    in cs_site_size cs = 3 \<and> cs_site_kp41 cs = Fin 1 \<and> ea_band (compute_fleet_anomaly_risk (Some cs) False) = Bad \<and>
       map fst (ea_factors (compute_fleet_anomaly_risk (Some cs) False)) = [FL_SiteCluster (Fin 1) 3])"
proof -
  have half: "KP41_HIGH = Fin (1 / 2)" using rnd64_fraction[of 1 1] by (simp add: KP41_HIGH_def)
  have low: "\<not> fle BSOD_LOW (Fin 0)" "\<not> fle BSOD_MOD (Fin 0)" "\<not> fle BSOD_HIGH (Fin 0)" "\<not> fle RSI_MOD_RATE (Fin 0)" "\<not> fle RSI_HIGH_RATE (Fin 0)"
    using rnd64_pos[of "1 / 10"] rnd64_pos[of "1 / 4"] rnd64_pos[of "2 / 5"]
    by (auto simp: BSOD_LOW_def BSOD_MOD_def BSOD_HIGH_def RSI_MOD_RATE_def RSI_HIGH_RATE_def flt_fle dest: fle_antisym)
  have sums: "rnd64 40 = Fin 40" using rnd64_of_int[of 40] by simp
  have "fleet_tally \<lparr>cs_size = 3, cs_bsod = Fin 0, cs_kp41 = Fin 1, cs_rsi_low = Fin 0, cs_boot_p90 = Some (Fin 9), cs_site_size = 3,
      cs_site_kp41 = Fin 1\<rparr> = (Fin 40, [(FL_SiteCluster (Fin 1) 3, Fin 40)])"
    by (simp add: fleet_tally_def fleet_parts half low MIN_SITE_FOR_CLUSTER_def)
      (simp add: add_part_def whole_part_def no_part_def sums)
  then show ?thesis
    by (simp add: silent_stats compute_fleet_anomaly_risk_def MIN_COHORT_def engine_scored_def band_for_risk_score_def clamp_def
      py_max_def py_min_def)
qed

theorem silent_machine_dilutes_nothing_witness:
  "cs_site_kp41 (get_fleet_cohort_stats (\<lambda>_. NaN) (fst silent_fleet @ [fleet_device ''d'']) (snd silent_fleet @ [fleet_history 4 ''d'' []])
     (Some ''T14'') (Some ''1A'')) = Fin 1"
proof -
  have "\<forall>h\<in>set [fleet_history 4 ''d'' []]. hs_device h = dv_id (fleet_device ''d'') \<and> reports_nothing (\<lambda>_. NaN) h"
    by (simp add: fleet_history_def fleet_device_def reports_nothing_def sql_real_def jget_Nil)
  moreover have "\<forall>h\<in>set (snd silent_fleet). hs_device h \<noteq> dv_id (fleet_device ''d'')"
    "\<forall>e\<in>set (fst silent_fleet). dv_id e \<noteq> dv_id (fleet_device ''d'')"
    by (simp_all add: silent_fleet_def fleet_history_def fleet_device_def)
  ultimately show ?thesis using silent_machine_dilutes_nothing[OF _ _ _ refl refl] by (simp add: silent_stats)
qed

theorem boot_p90_is_the_ninth_decile_witness:
  "9 \<le> 10 * length (filter (\<lambda>x. fle x (Fin 9)) (boot_sample (\<lambda>_. NaN) [fleet_history 1 ''a'' [(''avg_boot_ms'', JInt 9)]]))"
proof -
  let ?rows = "[fleet_history 1 ''a'' [(''avg_boot_ms'', JInt 9)]]"
  have "sql_real f (hs_payload (fleet_history n s [(''avg_boot_ms'', JInt 9)])) ''avg_boot_ms'' = Some (Fin 9)" for f n s
    using rnd64_of_int[of 9] by (simp add: sql_real_def fleet_history_def jget_Cons)
  then have "boot_sample (\<lambda>_. NaN) ?rows = [Fin 9]" "cohort_boot_p90 (\<lambda>_. NaN) ?rows = Some (Fin 9)"
    by (simp_all add: boot_sample_def cohort_boot_p90_def COHORT_BOOT_CAP_def List.map_filter_simps sort_asc_def sort_desc_def Let_def)
  with boot_p90_is_the_ninth_decile[of "\<lambda>_. NaN" ?rows "Fin 9"] show ?thesis by (simp add: numbers_def)
qed

end
