(* ===== verification/NetworkRisk.thy ===== *)
theory NetworkRisk imports RiskAxis begin

text \<open>
  The network engine of \<open>server/analytics/network_risk.py\<close>: losses and delay to the gateway, losses to the name
  servers, adapters without an address, weak radio.  A row of the telemetry is decoded JSON; what an address is
  worth to the engine is only whether its text starts with the link-local prefix, which of all values only a text can.
\<close>

datatype net_label = NF_GatewayDown jval | NF_LossHeavy jval pyfloat | NF_LossLight jval pyfloat | NF_LatencyHigh pyfloat
  | NF_LatencyWarn pyfloat | NF_DnsLoss jval pyfloat | NF_Apipa jval | NF_WifiWeak pyfloat | NF_WifiLow pyfloat

datatype net_missing = NM_Identity | NM_NoData | NM_Domain | NM_BlindSpot | NM_IcmpBlocked | NM_NoGateway

record net_lineage =
  nl_adapters :: nat
  nl_up :: nat
  nl_targets :: nat
  nl_gateway :: bool
  nl_blocked :: bool
  nl_dns_ignored :: nat

datatype net_origin = NO_None | NO_Identity | NO_Domain | NO_Readings net_lineage

type_synonym net_axis = "(net_label, net_missing, net_origin) engine_axis"

definition GW_LOSS_HEAVY_PCT :: pyfloat where "GW_LOSS_HEAVY_PCT = Fin 20"
definition GW_LOSS_LIGHT_PCT :: pyfloat where "GW_LOSS_LIGHT_PCT = Fin 5"
definition GW_LAT_HIGH_MS :: pyfloat where "GW_LAT_HIGH_MS = Fin 100"
definition GW_LAT_WARN_MS :: pyfloat where "GW_LAT_WARN_MS = Fin 30"

definition points :: "'l \<Rightarrow> nat \<Rightarrow> 'l score_tally \<Rightarrow> 'l score_tally" where
  "points l n = score_hit l (Fin (of_nat n))"

definition loss_of :: "jobj \<Rightarrow> pyfloat res" where
  \<comment> \<open>\<open>_f(q.get("loss_pct")) or 0.0\<close>\<close>
  "loss_of q = or_zero_num (to_num (jget q ''loss_pct''))"

fun icmp_all :: "jobj list \<Rightarrow> bool res" where
  \<comment> \<open>\<open>all(...)\<close>, which stops at the first row that answered\<close>
  "icmp_all [] = Inr True"
| "icmp_all (q # qs) = bindE (loss_of q) (\<lambda>x. if fle (Fin 100) x \<and> jget q ''latency_ms'' = JNull then icmp_all qs else Inr False)"

definition icmp_filtered :: "jobj list \<Rightarrow> bool res" where
  "icmp_filtered rows = (if rows = [] then Inr False else icmp_all rows)"

definition objects :: "jval list \<Rightarrow> jobj list" where
  \<comment> \<open>\<open>[a for a in xs if isinstance(a, dict)]\<close>\<close>
  "objects xs = List.map_filter (\<lambda>v. case v of JObj d \<Rightarrow> Some d | _ \<Rightarrow> None) xs"

definition rows_of :: "jobj option \<Rightarrow> string \<Rightarrow> jobj list res" where
  "rows_of hist key = (case hist of None \<Rightarrow> Inr [] | Some h \<Rightarrow> bindE (iterate (jget h key)) (\<lambda>xs. Inr (objects xs)))"

fun keep_worst :: "jobj \<times> pyfloat \<Rightarrow> (jobj \<times> pyfloat) list \<Rightarrow> jobj \<times> pyfloat" where
  \<comment> \<open>\<open>max(rows, key=...)\<close>, the first of the largest\<close>
  "keep_worst b [] = b"
| "keep_worst b (r # rs) = keep_worst (if flt (snd b) (snd r) then r else b) rs"

definition with_loss :: "jobj list \<Rightarrow> (jobj \<times> pyfloat) list res" where
  "with_loss qs = mapE (\<lambda>q. bindE (loss_of q) (\<lambda>x. Inr (q, x))) qs"

definition worst_row :: "jobj list \<Rightarrow> (jobj \<times> pyfloat) option res" where
  "worst_row qs = bindE (with_loss qs) (\<lambda>rs. Inr (case rs of [] \<Rightarrow> None | r # rest \<Rightarrow> Some (keep_worst r rest)))"

definition of_kind :: "string \<Rightarrow> jobj list \<Rightarrow> jobj list" where
  "of_kind k qs = filter (\<lambda>q. jget q ''target_kind'' = JStr k) qs"

definition gateway_hits :: "jval \<Rightarrow> pyfloat \<Rightarrow> pyfloat option \<Rightarrow> net_label score_tally \<Rightarrow> net_label score_tally" where
  "gateway_hits target loss lat t =
     (if fle (Fin 100) loss then points (NF_GatewayDown target) 45 t
      else let t = (if fle GW_LOSS_HEAVY_PCT loss then points (NF_LossHeavy target loss) 30 t
                    else if fle GW_LOSS_LIGHT_PCT loss then points (NF_LossLight target loss) 15 t else t)
        in case lat of None \<Rightarrow> t
           | Some x \<Rightarrow> if fle GW_LAT_HIGH_MS x then points (NF_LatencyHigh x) 15 t
               else if fle GW_LAT_WARN_MS x then points (NF_LatencyWarn x) 8 t else t)"

definition gateway_risk :: "jobj list \<Rightarrow> net_label score_tally \<Rightarrow> (bool \<times> net_label score_tally) res" where
  \<comment> \<open>whether the gateway was measured, and the hits\<close>
  "gateway_risk rows t = bindE (worst_row rows) (\<lambda>w. case w of
       None \<Rightarrow> Inr (False, t)
     | Some (q, loss) \<Rightarrow> bindE (to_num (jget q ''loss_pct'')) (\<lambda>m. case m of None \<Rightarrow> Inr (False, t)
         | Some _ \<Rightarrow> bindE (to_num (jget q ''latency_ms'')) (\<lambda>lat. Inr (True, gateway_hits (jget q ''target'') loss lat t))))"

definition dns_risk :: "jobj list \<Rightarrow> net_label score_tally \<Rightarrow> (nat \<times> net_label score_tally) res" where
  \<comment> \<open>how many silent name servers are ignored, and the hit\<close>
  "dns_risk rows t = bindE (with_loss rows) (\<lambda>rs.
     let partial = filter (\<lambda>r. fle (Fin 5) (snd r) \<and> flt (snd r) (Fin 100)) rs;
         ignored = length (filter (\<lambda>r. fle (Fin 100) (snd r)) rs)
     in Inr (ignored, case partial of [] \<Rightarrow> t
          | r # rest \<Rightarrow> let w = keep_worst r rest in points (NF_DnsLoss (jget (fst w) ''target'') (snd w)) 8 t))"

definition link_local :: "jval \<Rightarrow> bool" where
  \<comment> \<open>\<open>str(ip).startswith("169.254.")\<close>\<close>
  "link_local v = (case v of JStr s \<Rightarrow> take 8 s = ''169.254.'' | _ \<Rightarrow> False)"

fun apipa_risk :: "jobj list \<Rightarrow> net_label score_tally \<Rightarrow> net_label score_tally res" where
  "apipa_risk [] t = Inr t"
| "apipa_risk (a # adapters) t =
     (if \<not> truthy (jget a ''up'') then apipa_risk adapters t
      else bindE (iterate (jget a ''ipv4'')) (\<lambda>ips.
        apipa_risk adapters (if list_ex link_local ips then points (NF_Apipa (jget a ''name'')) 35 t else t)))"

fun wifi_risk :: "jobj list \<Rightarrow> net_label score_tally \<Rightarrow> net_label score_tally res" where
  "wifi_risk [] t = Inr t"
| "wifi_risk (a # adapters) t = bindE (to_num (jget a ''signal_pct'')) (\<lambda>sig.
     wifi_risk adapters (case sig of
         Some x \<Rightarrow> if truthy (jget a ''up'') \<and> jget a ''kind'' = JStr ''wifi''
           then if flt x (Fin 30) then points (NF_WifiWeak x) 12 t else if flt x (Fin 50) then points (NF_WifiLow x) 6 t else t
           else t
       | None \<Rightarrow> t))"

definition network_verdict :: "jobj list \<Rightarrow> jobj list \<Rightarrow> bool \<Rightarrow> bool \<Rightarrow> nat \<Rightarrow> net_label score_tally \<Rightarrow> net_axis" where
  "network_verdict adapters quality blocked measured ignored t =
     (let v = clamp (fst t) 0 100
      in engine_scored v (if measured then ConfMedium else ConfLow) (snd t)
           (NM_BlindSpot # (if blocked then [NM_IcmpBlocked] else if measured then [] else [NM_NoGateway]))
           (NO_Readings \<lparr>nl_adapters = length adapters, nl_up = length (filter (\<lambda>a. truthy (jget a ''up'')) adapters),
              nl_targets = length quality, nl_gateway = measured, nl_blocked = blocked, nl_dns_ignored = ignored\<rparr>)
           (if feq v (Fin 0) then if measured then ER_AllClear else ER_Unmeasured else ER_None))"

definition net_tally :: "jobj list \<Rightarrow> jobj list \<Rightarrow> (bool \<times> nat \<times> net_label score_tally) res" where
  \<comment> \<open>\<open>rows\<close> are the measurements left when blocked probes are dropped\<close>
  "net_tally adapters rows =
     bindE (gateway_risk (of_kind ''gateway'' rows) (Fin 0, [])) (\<lambda>g.
     bindE (dns_risk (of_kind ''dns'' rows) (snd g)) (\<lambda>d.
     bindE (apipa_risk adapters (snd d)) (\<lambda>t. bindE (wifi_risk adapters t) (\<lambda>t. Inr (fst g, fst d, t)))))"

definition compute_network_risk :: "jobj option \<Rightarrow> bool \<Rightarrow> domain_state option \<Rightarrow> net_axis res" where
  "compute_network_risk hist untrusted domain =
     (if untrusted then Inr (engine_withheld [NM_Identity] NO_Identity ER_Untrusted)
      else bindE (rows_of hist ''network_adapters'') (\<lambda>adapters. bindE (rows_of hist ''network_quality'') (\<lambda>quality.
        if adapters = [] \<and> quality = [] then Inr (engine_withheld [NM_NoData] NO_None ER_NoData)
        else if domain = Some D_UNKNOWN then Inr (engine_withheld [NM_Domain] NO_Domain ER_DomainGate)
        else bindE (icmp_filtered quality) (\<lambda>blocked.
          bindE (net_tally adapters (if blocked then [] else quality)) (\<lambda>(measured, ignored, t).
            Inr (network_verdict adapters quality blocked measured ignored t))))))"

subsection \<open>What the hits keep\<close>

locale kept_by_points =
  fixes Q :: "net_label score_tally \<Rightarrow> bool" and L :: "net_label \<Rightarrow> bool"
  assumes points: "Q t \<Longrightarrow> L l \<Longrightarrow> n \<le> 100 \<Longrightarrow> Q (points l n t)"
    and adapters: "L (NF_Apipa v)" "L (NF_WifiWeak x)" "L (NF_WifiLow x)"
    and milder: "L (NF_LossHeavy v x)" "L (NF_LossLight v x)" "L (NF_LatencyHigh x)" "L (NF_LatencyWarn x)"
begin

lemma apipa_keeps: "apipa_risk as t = Inr t' \<Longrightarrow> Q t \<Longrightarrow> Q t'"
proof (induction "as" arbitrary: t)
  case (Cons a rest)
  have "Q (points (NF_Apipa (jget a ''name'')) 35 t)" by (rule points[OF Cons.prems(2) adapters(1)]) simp
  moreover have "apipa_risk rest t = Inr t' \<or> apipa_risk rest (points (NF_Apipa (jget a ''name'')) 35 t) = Inr t'"
    using Cons.prems(1) by (auto split: if_splits)
  ultimately show ?case using Cons.IH Cons.prems(2) by blast
qed simp

lemma wifi_keeps: "wifi_risk as t = Inr t' \<Longrightarrow> Q t \<Longrightarrow> Q t'"
proof (induction "as" arbitrary: t)
  case (Cons a rest)
  from Cons.prems(1) obtain sig where next_t: "wifi_risk rest (case sig of Some x \<Rightarrow> if truthy (jget a ''up'') \<and> jget a ''kind'' = JStr ''wifi''
       then if flt x (Fin 30) then points (NF_WifiWeak x) 12 t else if flt x (Fin 50) then points (NF_WifiLow x) 6 t else t
       else t | None \<Rightarrow> t) = Inr t'" by auto
  show ?case by (rule Cons.IH[OF next_t]) (use Cons.prems(2) in \<open>auto split: option.splits intro: points adapters\<close>)
qed simp

lemma gateway_hits_keep: "Q t \<Longrightarrow> (fle (Fin 100) loss \<Longrightarrow> L (NF_GatewayDown v)) \<Longrightarrow> Q (gateway_hits v loss lat t)"
  by (auto simp: gateway_hits_def Let_def split: option.splits intro!: points milder)

lemma gateway_keeps:
  assumes "gateway_risk rows t = Inr (m, t')" "Q t" "\<And>v. rows \<noteq> [] \<Longrightarrow> L (NF_GatewayDown v)"
  shows "Q t'"
proof (cases rows)
  case Nil
  then show ?thesis using assms(1,2) by (simp add: gateway_risk_def worst_row_def with_loss_def)
next
  case (Cons q qs)
  then have "Q (gateway_hits v loss lat t)" for v loss lat using assms(2,3) by (intro gateway_hits_keep) auto
  then show ?thesis using assms(1,2) by (auto simp: gateway_risk_def split: option.splits)
qed

lemma dns_keeps:
  assumes "dns_risk rows t = Inr (n, t')" "Q t" "\<And>v x. fle (Fin 5) x \<Longrightarrow> flt x (Fin 100) \<Longrightarrow> L (NF_DnsLoss v x)"
  shows "Q t'"
proof -
  have worst: "keep_worst r rs \<in> set (r # rs)" for r rs by (induction rs arbitrary: r) (auto split: if_splits)
  from assms(1) obtain rs where rs: "t' = (case filter (\<lambda>r. fle (Fin 5) (snd r) \<and> flt (snd r) (Fin 100)) rs of [] \<Rightarrow> t
      | r # rest \<Rightarrow> let w = keep_worst r rest in points (NF_DnsLoss (jget (fst w) ''target'') (snd w)) 8 t)"
    by (auto simp: dns_risk_def Let_def)
  show ?thesis
  proof (cases "filter (\<lambda>r. fle (Fin 5) (snd r) \<and> flt (snd r) (Fin 100)) rs")
    case (Cons r rest)
    then have "keep_worst r rest \<in> set (filter (\<lambda>r. fle (Fin 5) (snd r) \<and> flt (snd r) (Fin 100)) rs)" using worst by metis
    then have "fle (Fin 5) (snd (keep_worst r rest))" "flt (snd (keep_worst r rest)) (Fin 100)" by simp_all
    then show ?thesis using Cons assms(2,3) by (simp add: rs Let_def points)
  qed (use rs assms(2) in simp)
qed

lemma tally_keeps:
  assumes "net_tally adapters rows = Inr (m, n, t)" "Q (Fin 0, [])" "\<And>v. rows \<noteq> [] \<Longrightarrow> L (NF_GatewayDown v)"
    "\<And>v x. fle (Fin 5) x \<Longrightarrow> flt x (Fin 100) \<Longrightarrow> L (NF_DnsLoss v x)"
  shows "Q t"
proof -
  from assms(1) obtain t1 t2 t3 where steps: "gateway_risk (of_kind ''gateway'' rows) (Fin 0, []) = Inr (m, t1)"
    "dns_risk (of_kind ''dns'' rows) t1 = Inr (n, t2)" "apipa_risk adapters t2 = Inr t3" "wifi_risk adapters t3 = Inr t"
    by (auto simp: net_tally_def)
  have "Q t1" by (rule gateway_keeps[OF steps(1) assms(2)]) (cases rows; use assms(3) in \<open>simp add: of_kind_def\<close>)
  then show ?thesis using dns_keeps[OF steps(2) _ assms(4)] apipa_keeps[OF steps(3)] wifi_keeps[OF steps(4)] by blast
qed

end

interpretation sums: kept_by_points tally_ok "\<lambda>_. True"
  by unfold_locales (simp_all add: points_def tally_hit)

definition backed_alarm :: "bool \<Rightarrow> net_label \<Rightarrow> bool" where
  "backed_alarm answered l = (case l of NF_GatewayDown _ \<Rightarrow> answered | NF_DnsLoss _ x \<Rightarrow> fle (Fin 5) x \<and> flt x (Fin 100) | _ \<Rightarrow> True)"

interpretation alarms: kept_by_points "\<lambda>t. list_all (\<lambda>f. backed_alarm b (fst f)) (snd t)" "backed_alarm b" for b
  by unfold_locales (simp_all add: points_def score_hit_def backed_alarm_def)

lemma network_cases:
  assumes "compute_network_risk hist u d = Inr a"
  shows "(\<exists>ms l r. a = engine_withheld ms l r) \<or> \<not> u \<and> d \<noteq> Some D_UNKNOWN \<and> (\<exists>adapters quality blocked m n t.
    rows_of hist ''network_quality'' = Inr quality \<and> icmp_filtered quality = Inr blocked \<and>
    net_tally adapters (if blocked then [] else quality) = Inr (m, n, t) \<and> a = network_verdict adapters quality blocked m n t)"
proof (cases "u \<or> d = Some D_UNKNOWN")
  case True
  with assms show ?thesis by (auto simp: compute_network_risk_def split: if_splits)
next
  case False
  then have "u = False" "d \<noteq> Some D_UNKNOWN" by auto
  with assms obtain adapters quality where rows: "rows_of hist ''network_quality'' = Inr quality"
    and rest: "(if adapters = [] \<and> quality = [] then Inr (engine_withheld [NM_NoData] NO_None ER_NoData)
      else bindE (icmp_filtered quality) (\<lambda>blocked. bindE (net_tally adapters (if blocked then [] else quality))
        (\<lambda>(measured, ignored, t). Inr (network_verdict adapters quality blocked measured ignored t)))) = Inr a"
    unfolding compute_network_risk_def by (simp only: if_False bindE_Inr_iff) blast
  show ?thesis
  proof (cases "adapters = [] \<and> quality = []")
    case True
    then show ?thesis using rest by (simp del: split_paired_Ex) blast
  next
    case False
    then obtain blocked m n t where "icmp_filtered quality = Inr blocked" "net_tally adapters (if blocked then [] else quality) = Inr (m, n, t)"
      "a = network_verdict adapters quality blocked m n t" using rest by (simp only: if_False bindE_Inr_iff) auto
    with rows \<open>u = False\<close> \<open>d \<noteq> Some D_UNKNOWN\<close> show ?thesis by blast
  qed
qed

interpretation network: gated_engine compute_network_risk
proof unfold_locales
  show "\<exists>ms l r. compute_network_risk i True d = Inr (engine_withheld ms l r)" for i d
    by (auto simp: compute_network_risk_def)
  have scored: "sound_axis (network_verdict adapters quality b m n t)" if "net_tally adapters rows = Inr (m, n, t)" for adapters quality rows b m n t
    using sums.tally_keeps[OF that] by (simp add: network_verdict_def Let_def sound_scored)
  show "sound_axis a" if "compute_network_risk i u d = Inr a" for i u d a
    using network_cases[OF that] scored by fastforce
  show "ea_value a = None" if "compute_network_risk i u (Some D_UNKNOWN) = Inr a" for i u a
    using network_cases[OF that] by (auto simp: engine_withheld_def)
qed

subsection \<open>Silence is no outage\<close>

definition answered :: "jobj \<Rightarrow> bool" where
  \<comment> \<open>a probe that came back: a loss under 100 % or a delay\<close>
  "answered q \<longleftrightarrow> (case loss_of q of Inr x \<Rightarrow> \<not> fle (Fin 100) x | Inl _ \<Rightarrow> False) \<or> jget q ''latency_ms'' \<noteq> JNull"

lemma unfiltered_answered: "icmp_filtered qs = Inr False \<Longrightarrow> qs \<noteq> [] \<Longrightarrow> \<exists>q\<in>set qs. answered q"
proof -
  have "icmp_all qs = Inr False \<Longrightarrow> \<exists>q\<in>set qs. answered q"
    by (induction qs) (auto simp: answered_def split: if_splits)
  then show "icmp_filtered qs = Inr False \<Longrightarrow> qs \<noteq> [] \<Longrightarrow> \<exists>q\<in>set qs. answered q" by (simp add: icmp_filtered_def)
qed

text \<open>Silence is no outage: a gateway is reported as not answering only when some probe of the machine did come back, so that a firewall
  which drops every probe raises no alarm, and a name server is reported only for a loss it has in part.\<close>
theorem silence_is_no_outage:
  assumes "compute_network_risk hist u d = Inr a" "rows_of hist ''network_quality'' = Inr quality" "(l, p) \<in> set (ea_factors a)"
  shows "case l of NF_GatewayDown v \<Rightarrow> \<exists>q\<in>set quality. answered q
     | NF_DnsLoss v x \<Rightarrow> fle (Fin 5) x \<and> flt x (Fin 100) | _ \<Rightarrow> True"
proof -
  from assms(2,3) obtain adapters blocked m n t where r: "icmp_filtered quality = Inr blocked"
    "net_tally adapters (if blocked then [] else quality) = Inr (m, n, t)" "ea_factors a = snd t"
    using network_cases[OF assms(1)] by (auto simp: engine_withheld_def network_verdict_def engine_scored_def Let_def)
  have "list_all (\<lambda>f. backed_alarm (\<exists>q\<in>set quality. answered q) (fst f)) (snd t)"
    by (rule alarms.tally_keeps[OF r(2)]) (use unfiltered_answered[of quality] r(1) in \<open>auto simp: backed_alarm_def split: if_splits\<close>)
  then show ?thesis using assms(3) r(3) by (auto simp: list_all_iff backed_alarm_def)
qed

definition dead_gateway :: jobj where
  "dead_gateway = [(''target_kind'', JStr ''gateway''), (''target'', JStr ''10.0.0.1''), (''loss_pct'', JFloat (Fin 100))]"

definition live_dns :: jobj where
  "live_dns = [(''target_kind'', JStr ''dns''), (''loss_pct'', JFloat (Fin 0)), (''latency_ms'', JFloat (Fin 4))]"

definition outage :: jobj where
  "outage = [(''network_quality'', JList [JObj dead_gateway, JObj live_dns])]"

lemma outage_rows: "rows_of (Some outage) ''network_quality'' = Inr [dead_gateway, live_dns]" "rows_of (Some outage) ''network_adapters'' = Inr []"
  by (simp_all add: rows_of_def outage_def jget_Cons jget_Nil objects_def List.map_filter_simps)

lemma outage_losses: "loss_of dead_gateway = Inr (Fin 100)" "loss_of live_dns = Inr (Fin 0)"
  by (simp_all add: loss_of_def or_zero_num_def dead_gateway_def live_dns_def jget_Cons)

lemma outage_tally: "net_tally [] [dead_gateway, live_dns] = Inr (True, 0, points (NF_GatewayDown (JStr ''10.0.0.1'')) 45 (Fin 0, []))"
proof -
  have kinds: "of_kind ''gateway'' [dead_gateway, live_dns] = [dead_gateway]" "of_kind ''dns'' [dead_gateway, live_dns] = [live_dns]"
    by (simp_all add: of_kind_def dead_gateway_def live_dns_def jget_Cons)
  have "to_num (jget dead_gateway ''loss_pct'') = Inr (Some (Fin 100))" "to_num (jget dead_gateway ''latency_ms'') = Inr None"
    "jget dead_gateway ''target'' = JStr ''10.0.0.1''" by (simp_all add: dead_gateway_def jget_Cons jget_Nil)
  then show ?thesis
    by (simp add: net_tally_def kinds gateway_risk_def worst_row_def with_loss_def outage_losses dns_risk_def gateway_hits_def)
qed

theorem silence_is_no_outage_witness:
  "\<exists>a. compute_network_risk (Some outage) False None = Inr a \<and> fst (hd (ea_factors a)) = NF_GatewayDown (JStr ''10.0.0.1'') \<and>
     (\<exists>q\<in>set [dead_gateway, live_dns]. answered q)"
proof -
  have "jget dead_gateway ''latency_ms'' = JNull" by (simp add: dead_gateway_def jget_Cons jget_Nil)
  then have "icmp_filtered [dead_gateway, live_dns] = Inr False" by (simp add: icmp_filtered_def outage_losses)
  then have a: "compute_network_risk (Some outage) False None = Inr (network_verdict [] [dead_gateway, live_dns] False True 0
      (points (NF_GatewayDown (JStr ''10.0.0.1'')) 45 (Fin 0, [])))"
    by (simp add: compute_network_risk_def outage_rows outage_tally)
  have "(NF_GatewayDown (JStr ''10.0.0.1''), fround 1 (Fin 45)) \<in> set (ea_factors (network_verdict [] [dead_gateway, live_dns] False True 0
      (points (NF_GatewayDown (JStr ''10.0.0.1'')) 45 (Fin 0, []))))"
    by (simp add: network_verdict_def engine_scored_def points_def score_hit_def Let_def)
  from silence_is_no_outage[OF a outage_rows(1) this] a show ?thesis
    by (simp add: network_verdict_def engine_scored_def points_def score_hit_def Let_def)
qed

end
