(* ===== verification/DiskFill.thy ===== *)
theory DiskFill imports RiskAxis begin

text \<open>
  The disk-space engine of \<open>server/analytics/disk_fill.py\<close>: the median of the recent readings of free space, and the
  failures of Windows Update among the events.  Stamps are server time; a window of fourteen days before the newest
  reading counts as recent.
\<close>

datatype fill_label = DF_Critical pyfloat | DF_Severe pyfloat | DF_High pyfloat | DF_Watch pyfloat | DF_UpdatesLowDisk nat | DF_UpdatesFail nat
datatype fill_missing = DM_Identity | DM_NoData | DM_Domain | DM_SystemDrive | DM_Servicing | DM_Gated | DM_NotSeen | DM_Dip pyfloat

record fill_lineage =
  dl_gated :: bool
  dl_current :: "pyfloat option"
  dl_typical :: "pyfloat option"
  dl_samples :: nat
  dl_failures :: nat
  dl_low :: bool

datatype fill_origin = DO_None | DO_Identity | DO_Domain | DO_Readings fill_lineage

type_synonym fill_axis = "(fill_label, fill_missing, fill_origin) engine_axis"

definition FREE_CRITICAL :: pyfloat where "FREE_CRITICAL = Fin 3"
definition FREE_SEVERE :: pyfloat where "FREE_SEVERE = Fin 8"
definition FREE_HIGH :: pyfloat where "FREE_HIGH = Fin 15"
definition FREE_WATCH :: pyfloat where "FREE_WATCH = Fin 20"
definition SERVICING_MIN_FAILURES :: nat where "SERVICING_MIN_FAILURES = 3"
definition WU_FAILURE_IDS :: "int list" where "WU_FAILURE_IDS = [20, 25, 31]"
definition WU_PROVIDER :: string where "WU_PROVIDER = ''windowsupdateclient''"
definition MIN_HIGH_CONF_READINGS :: nat where "MIN_HIGH_CONF_READINGS = 3"
definition RECENCY :: int where "RECENCY = 14 * day_us"

subsection \<open>Recent readings\<close>

definition reading_stamp :: "jobj \<Rightarrow> stamp option" where
  \<comment> \<open>\<open>_parse_iso(row.get("received_at") or row.get("ts"))\<close>\<close>
  "reading_stamp row = (let r = jget row ''received_at''; v = (if truthy r then r else jget row ''ts'')
     in case v of JStr s \<Rightarrow> if s = [] then None
          else (case fromisoformat (replace_Z (strip s)) of Inr t \<Rightarrow> Some (aware t) | Inl _ \<Rightarrow> None)
        | _ \<Rightarrow> None)"

definition free_rows :: "jobj list \<Rightarrow> (stamp option \<times> pyfloat) list res" where
  "free_rows series = bindE (mapE (\<lambda>row. bindE (to_num (jget row ''free_space_pct'')) (\<lambda>v.
     Inr (map_option (Pair (reading_stamp row)) v))) series) (\<lambda>rs. Inr (List.map_filter (\<lambda>r. r) rs))"

definition dated :: "(stamp option \<times> pyfloat) list \<Rightarrow> (stamp \<times> pyfloat) list" where
  "dated rows = List.map_filter (\<lambda>(w, v). map_option (\<lambda>t. (t, v)) w) rows"

definition newest_stamp :: "(stamp \<times> pyfloat) list \<Rightarrow> stamp" where
  \<comment> \<open>of a list that is not empty\<close>
  "newest_stamp ps = argmax as_utc (fst (hd ps)) (map fst (tl ps))"

definition recent_samples :: "(stamp \<times> pyfloat) list \<Rightarrow> pyfloat list res" where
  \<comment> \<open>newest first; a cutoff before the year 1 is no stamp\<close>
  "recent_samples ps = (let newest = newest_stamp ps
     in if local_us newest - RECENCY < MIN_STAMP then Inl OverflowError
        else Inr (map snd (filter (\<lambda>(w, v). as_utc newest - RECENCY \<le> as_utc w) (sort_key (\<lambda>(w, v). - as_utc w) ps))))"

definition free_space_samples :: "jobj list \<Rightarrow> pyfloat list res" where
  "free_space_samples series = bindE (free_rows series) (\<lambda>rows.
     if dated rows = [] then Inr (map snd rows) else recent_samples (dated rows))"

subsection \<open>Failures of updates\<close>

fun int_or_none :: "jval \<Rightarrow> int option res" where
  \<comment> \<open>\<open>int(eid)\<close> with \<open>TypeError\<close> and \<open>ValueError\<close> caught, and None as it is\<close>
  "int_or_none (JBool b) = Inr (Some (if b then 1 else 0))"
| "int_or_none (JInt i) = Inr (Some i)"
| "int_or_none (JFloat f) = (case int_of_float f of Inr i \<Rightarrow> Inr (Some i) | Inl OverflowError \<Rightarrow> Inl OverflowError | Inl _ \<Rightarrow> Inr None)"
| "int_or_none (JStr s) = Inr (case py_int s of Inr i \<Rightarrow> Some i | Inl _ \<Rightarrow> None)"
| "int_or_none _ = Inr None"

fun servicing_failures :: "jval list \<Rightarrow> nat res" where
  "servicing_failures [] = Inr 0"
| "servicing_failures (ev # evs) = (case ev of
     JObj e \<Rightarrow> (case jget e ''source'' of
         JStr src \<Rightarrow>
           if \<not> is_infix WU_PROVIDER (lower src) then servicing_failures evs
           else bindE (int_or_none (jget e ''event_id'')) (\<lambda>i. bindE (servicing_failures evs) (\<lambda>n.
             Inr (case i of Some k \<Rightarrow> if k \<in> set WU_FAILURE_IDS then Suc n else n | None \<Rightarrow> n)))
       | _ \<Rightarrow> servicing_failures evs)
   | _ \<Rightarrow> servicing_failures evs)"

subsection \<open>The engine\<close>

definition free_space_risk :: "pyfloat \<Rightarrow> pyfloat \<times> (fill_label \<times> pyfloat) option" where
  "free_space_risk typical =
     (if flt typical FREE_CRITICAL then whole_part (DF_Critical typical) 75
      else if flt typical FREE_SEVERE then whole_part (DF_Severe typical) 55
      else if flt typical FREE_HIGH then whole_part (DF_High typical) 30
      else if flt typical FREE_WATCH then whole_part (DF_Watch typical) 18
      else no_part)"

definition space_part :: "pyfloat list \<Rightarrow> pyfloat \<times> (fill_label \<times> pyfloat) option" where
  "space_part samples = (if samples = [] then no_part else free_space_risk (median samples))"

definition disk_low :: "pyfloat list \<Rightarrow> bool" where
  "disk_low samples \<longleftrightarrow> flt (Fin 0) (fst (space_part samples))"

definition servicing_part :: "bool \<Rightarrow> nat \<Rightarrow> pyfloat \<times> (fill_label \<times> pyfloat) option" where
  "servicing_part low n = (if low then whole_part (DF_UpdatesLowDisk n) 20 else whole_part (DF_UpdatesFail n) 28)"

definition fill_confidence :: "nat \<Rightarrow> bool \<Rightarrow> bool \<Rightarrow> confidence" where
  "fill_confidence n low collapse = (if n = 0 then ConfMedium else if collapse \<and> \<not> low then ConfMedium
     else if MIN_HIGH_CONF_READINGS \<le> n then ConfHigh else ConfMedium)"

definition fill_reason :: "pyfloat \<Rightarrow> pyfloat list \<Rightarrow> bool \<Rightarrow> engine_reason" where
  "fill_reason v samples collapse = (if flt (Fin 0) v then ER_None else if samples \<noteq> [] \<and> \<not> collapse then ER_AllClear else ER_None)"

definition fill_notes :: "pyfloat list \<Rightarrow> fill_missing list" where
  \<comment> \<open>a fresh dip below a healthy level is shown\<close>
  "fill_notes samples = (if samples \<noteq> [] \<and> flt (hd samples) FREE_WATCH \<and> fle FREE_WATCH (median samples) then [DM_Dip (hd samples)] else [])"

definition fill_tally :: "pyfloat list \<Rightarrow> nat \<Rightarrow> fill_label score_tally" where
  "fill_tally samples n = (let t = add_part (space_part samples) (Fin 0, [])
     in if SERVICING_MIN_FAILURES \<le> n then add_part (servicing_part (disk_low samples) n) t else t)"

definition fill_verdict :: "pyfloat list \<Rightarrow> nat \<Rightarrow> bool \<Rightarrow> fill_axis" where
  \<comment> \<open>\<open>samples\<close> is empty when the gate has dropped them\<close>
  "fill_verdict samples n gated =
     (let collapse = (SERVICING_MIN_FAILURES \<le> n); low = disk_low samples; t = fill_tally samples n
      in engine_scored (clamp (fst t) 0 100) (fill_confidence (length samples) low collapse) (snd t)
           ([DM_SystemDrive, DM_Servicing] @ (if gated then [DM_Gated] else if samples = [] then [DM_NotSeen] else []) @ fill_notes samples)
           (DO_Readings \<lparr>dl_gated = gated, dl_current = (if samples = [] then None else Some (hd samples)),
              dl_typical = (if samples = [] then None else Some (fround 1 (median samples))), dl_samples = length samples,
              dl_failures = n, dl_low = low\<rparr>)
           (fill_reason (fst t) samples collapse))"

definition compute_disk_fill_risk :: "jobj list \<Rightarrow> jval list \<Rightarrow> bool \<Rightarrow> domain_state option \<Rightarrow> fill_axis res" where
  "compute_disk_fill_risk series events untrusted domain =
     (if untrusted then Inr (engine_withheld [DM_Identity] DO_Identity ER_Untrusted)
      else bindE (free_space_samples series) (\<lambda>samples. bindE (servicing_failures events) (\<lambda>n.
        let collapse = (SERVICING_MIN_FAILURES \<le> n); gated = (domain = Some D_UNKNOWN)
        in Inr (if samples = [] \<and> \<not> collapse then engine_withheld [DM_NoData] DO_None ER_NoData
          else if gated \<and> \<not> collapse then engine_withheld [DM_Domain] DO_Domain ER_DomainGate
          else fill_verdict (if gated then [] else samples) n gated))))"

subsection \<open>The contract\<close>

lemma fill_parts_ok: "tally_ok t \<Longrightarrow> tally_ok (add_part (space_part samples) t)" "tally_ok t \<Longrightarrow> tally_ok (add_part (servicing_part b n) t)"
  by (auto simp: space_part_def free_space_risk_def servicing_part_def intro: tally_part)

lemma fill_tally_ok: "tally_ok (fill_tally samples n)"
  using fill_parts_ok by (simp add: fill_tally_def Let_def)

lemma fill_verdict_sound: "sound_axis (fill_verdict samples n gated)"
  unfolding fill_verdict_def Let_def by (rule sound_scored) (simp_all add: fill_tally_ok fill_confidence_def)

interpretation fill: risk_engine "\<lambda>i. compute_disk_fill_risk (fst i) (snd i)"
proof unfold_locales
  show "\<exists>ms l r. compute_disk_fill_risk (fst i) (snd i) True d = Inr (engine_withheld ms l r)" for i d
    by (auto simp: compute_disk_fill_risk_def)
  show "sound_axis a" if "compute_disk_fill_risk (fst i) (snd i) u d = Inr a" for i u d a
    using that fill_verdict_sound by (auto simp: compute_disk_fill_risk_def Let_def split: if_splits)
qed

subsection \<open>The gate\<close>

text \<open>C24: The gate of the disk domain silences the readings of free space and nothing else: three failures of Windows Update raise the alarm
  that the machine is not patched, with no reading behind it, and it is the same alarm whatever the readings were.\<close>
theorem servicing_alarm_survives_gate:
  assumes "free_space_samples series = Inr samples" "servicing_failures events = Inr n" "SERVICING_MIN_FAILURES \<le> n"
  shows "compute_disk_fill_risk series events False (Some D_UNKNOWN) = Inr (fill_verdict [] n True) \<and>
    ea_value (fill_verdict [] n True) = Some (Fin 28) \<and> ea_factors (fill_verdict [] n True) = [(DF_UpdatesFail n, Fin 28)]"
proof -
  have low: "\<not> disk_low []" by (simp add: disk_low_def space_part_def no_part_def)
  have "rnd64 28 = Fin 28" using rnd64_of_int[of 28] by simp
  then have "fill_tally [] n = (Fin 28, [(DF_UpdatesFail n, Fin 28)])"
    using assms(3) low by (simp add: fill_tally_def space_part_def servicing_part_def)
      (simp add: add_part_def whole_part_def)
  then have "ea_value (fill_verdict [] n True) = Some (Fin 28)" "ea_factors (fill_verdict [] n True) = [(DF_UpdatesFail n, Fin 28)]"
    by (simp_all add: fill_verdict_def engine_scored_def clamp_def py_max_def py_min_def Let_def)
  then show ?thesis using assms by (simp add: compute_disk_fill_risk_def Let_def)
qed

subsection \<open>Most readings decide\<close>

lemma space_healthy: "fle FREE_WATCH (median samples) \<Longrightarrow> space_part samples = no_part"
proof -
  assume m: "fle FREE_WATCH (median samples)"
  have "\<not> flt (median samples) x" if "fle x (Fin 20)" for x
    using m fle_trans[OF that] unfolding FREE_WATCH_def by (metis fle_antisym flt_fle)
  then show ?thesis by (simp add: space_part_def free_space_risk_def FREE_CRITICAL_def FREE_SEVERE_def FREE_HIGH_def FREE_WATCH_def)
qed

lemma space_critical: "fle (median samples) (Fin 2) \<Longrightarrow> samples \<noteq> [] \<Longrightarrow> space_part samples = whole_part (DF_Critical (median samples)) 75"
proof -
  assume "fle (median samples) (Fin 2)" "samples \<noteq> []"
  moreover have "flt x (Fin 3)" if "fle x (Fin 2)" for x using that by (cases x) auto
  ultimately show ?thesis by (simp add: space_part_def free_space_risk_def FREE_CRITICAL_def)
qed

lemma half_ge:
  assumes "fle (Fin (of_int c)) x" "fle (Fin (of_int c)) y" "\<bar>c\<bar> < 2 ^ 52"
  shows "fle (Fin (of_int c)) (fdiv_by (fadd x y) 2)"
proof -
  have c: "rnd64 (of_int (2 * c)) = Fin (of_int (2 * c))" "rnd64 (of_int c) = Fin (of_int c)"
    using assms(3) rnd64_of_int[of "2 * c"] rnd64_of_int[of c] by simp_all
  have "fle (Fin (of_int (2 * c))) (fadd x y)"
    using assms(1,2) rnd64_fle[of "of_int (2 * c)"] c(1) by (cases x; cases y) auto
  then show ?thesis using rnd64_fle[of "of_int c"] c(2) by (cases "fadd x y") (auto simp: sign_inf_def)
qed

lemma half_le:
  assumes "fle x (Fin (of_int c))" "fle y (Fin (of_int c))" "\<bar>c\<bar> < 2 ^ 52"
  shows "fle (fdiv_by (fadd x y) 2) (Fin (of_int c))"
proof -
  have c: "rnd64 (of_int (2 * c)) = Fin (of_int (2 * c))" "rnd64 (of_int c) = Fin (of_int c)"
    using assms(3) rnd64_of_int[of "2 * c"] rnd64_of_int[of c] by simp_all
  have "fle (fadd x y) (Fin (of_int (2 * c)))"
    using assms(1,2) rnd64_fle[of _ "of_int (2 * c)"] c(1) by (cases x; cases y) auto
  then show ?thesis using rnd64_fle[of _ "of_int c"] c(2) by (cases "fadd x y") (auto simp: sign_inf_def)
qed

lemma median_ge:
  assumes "numbers xs" "length xs < 2 * length (filter (fle (Fin (of_int c))) xs)" "\<bar>c\<bar> < 2 ^ 52"
  shows "fle (Fin (of_int c)) (median xs)"
proof (rule median_of_sorted)
  show "xs \<noteq> []" using assms(2) by auto
  show "fle (Fin (of_int c)) (fdiv_by (fadd x y) 2)" if "fle (Fin (of_int c)) x" "fle (Fin (of_int c)) y" for x y
    using that assms(3) by (rule half_ge)
  fix i assume i: "length xs \<le> 2 * Suc i" "i < length xs"
  show "fle (Fin (of_int c)) (sort_asc (\<lambda>x. x) xs ! i)"
    by (rule middle_up) (use fle_trans[OF _ sorted_nth[OF assms(1)]] assms(2) i in \<open>simp_all add: filter_sort_asc\<close>)
qed

lemma median_le:
  assumes "numbers xs" "length xs < 2 * length (filter (\<lambda>x. fle x (Fin (of_int c))) xs)" "\<bar>c\<bar> < 2 ^ 52"
  shows "fle (median xs) (Fin (of_int c))"
proof (rule median_of_sorted[where Q = "\<lambda>x. fle x (Fin (of_int c))"])
  show "xs \<noteq> []" using assms(2) by auto
  show "fle (fdiv_by (fadd x y) 2) (Fin (of_int c))" if "fle x (Fin (of_int c))" "fle y (Fin (of_int c))" for x y
    using that assms(3) by (rule half_le)
  fix i assume i: "2 * i \<le> length xs" "i < length xs"
  show "fle (sort_asc (\<lambda>x. x) xs ! i) (Fin (of_int c))"
    by (rule middle_down[where P = "\<lambda>x. fle x (Fin (of_int c))"])
      (use fle_trans[OF sorted_nth[OF assms(1)]] assms(2) i in \<open>simp_all add: filter_sort_asc\<close>)
qed

lemma fill_alone:
  assumes "compute_disk_fill_risk series events False None = Inr a" "free_space_samples series = Inr samples" "samples \<noteq> []"
    "servicing_failures events = Inr n" "n < SERVICING_MIN_FAILURES"
  shows "a = fill_verdict samples n False" "fill_tally samples n = add_part (space_part samples) (Fin 0, [])"
  using assms by (simp_all add: compute_disk_fill_risk_def fill_tally_def Let_def)

text \<open>The level that lasts decides and not the latest reading: when most of the recent readings leave a fifth of the drive or more free, a dip
  raises no alarm, and when most of them leave two percent or less, no rebound hides it.\<close>
theorem lasting_level_decides:
  assumes "compute_disk_fill_risk series events False None = Inr a" "free_space_samples series = Inr samples" "numbers samples"
    "servicing_failures events = Inr n" "n < SERVICING_MIN_FAILURES"
  shows "(length samples < 2 * length (filter (fle (Fin 20)) samples) \<longrightarrow> ea_value a = Some (Fin 0) \<and> ea_band a = Good) \<and>
    (length samples < 2 * length (filter (\<lambda>x. fle x (Fin 2)) samples) \<longrightarrow> ea_value a = Some (Fin 75) \<and> ea_band a = Bad)"
proof (intro conjI impI)
  note alone = fill_alone[OF assms(1,2) _ assms(4,5)]
  note shapes = fill_verdict_def engine_scored_def band_for_risk_score_def clamp_def py_max_def py_min_def Let_def
  { assume most: "length samples < 2 * length (filter (fle (Fin 20)) samples)"
    then have "samples \<noteq> []" "fle FREE_WATCH (median samples)"
      using median_ge[OF assms(3), of 20] by (auto simp: FREE_WATCH_def)
    then have "a = fill_verdict samples n False" "fill_tally samples n = (Fin 0, [])" using alone space_healthy by simp_all
    then show "ea_value a = Some (Fin 0)" "ea_band a = Good" by (simp_all add: shapes) }
  { assume most: "length samples < 2 * length (filter (\<lambda>x. fle x (Fin 2)) samples)"
    then have ne: "samples \<noteq> []" and "fle (median samples) (Fin 2)" using median_le[OF assms(3), of 2] by auto
    then have "space_part samples = whole_part (DF_Critical (median samples)) 75" by (intro space_critical)
    moreover have "rnd64 75 = Fin 75" using rnd64_of_int[of 75] by simp
    ultimately have "a = fill_verdict samples n False" "fst (fill_tally samples n) = Fin 75"
      using alone[OF ne] by (simp_all add: add_part_def whole_part_def)
    then show "ea_value a = Some (Fin 75)" "ea_band a = Bad" by (simp_all add: shapes) }
qed

text \<open>A reading older than fourteen days before the newest one counts for nothing.\<close>
lemma stale_reading:
  assumes "ps \<noteq> []" "as_utc w < as_utc (newest_stamp ps) - RECENCY"
  shows "recent_samples (ps @ [(w, v)]) = recent_samples ps"
proof -
  have r: "0 \<le> RECENCY" by (simp add: RECENCY_def day_us_def)
  have arg: "argmax f b (xs @ [x]) = argmax f b xs" if "f x \<le> f (argmax f b xs)" for f :: "stamp \<Rightarrow> int" and b xs x
    using that by (induction xs arbitrary: b) auto
  have "newest_stamp (ps @ [(w, v)]) = newest_stamp ps"
    using assms r by (cases ps) (auto simp: newest_stamp_def intro!: arg)
  then show ?thesis using assms(2) by (simp add: recent_samples_def Let_def filter_sort)
qed

subsection \<open>Samples\<close>

definition free_row :: "rat \<Rightarrow> jobj" where
  "free_row q = [(''free_space_pct'', JFloat (Fin q))]"

definition failed_update :: jval where
  "failed_update = JObj [(''source'', JStr ''Microsoft-Windows-WindowsUpdateClient''), (''event_id'', JInt 20)]"

lemma free_rows_read: "free_space_samples (map free_row qs) = Inr (map Fin qs)"
proof -
  have "mapE (\<lambda>row. bindE (to_num (jget row ''free_space_pct'')) (\<lambda>v. Inr (map_option (Pair (reading_stamp row)) v))) (map free_row qs)
    = Inr (map (\<lambda>q. Some (None :: stamp option, Fin q)) qs)"
    by (induction qs) (simp_all add: free_row_def reading_stamp_def jget_Cons jget_Nil Let_def)
  moreover have "List.map_filter (\<lambda>r. r) (map (\<lambda>q. Some (None :: stamp option, Fin q)) qs) = map (\<lambda>q. (None :: stamp option, Fin q)) qs"
    by (induction qs) (simp_all add: List.map_filter_simps)
  moreover have "dated (map (\<lambda>q. (None :: stamp option, Fin q)) qs) = []" by (induction qs) (simp_all add: dated_def List.map_filter_simps)
  ultimately show ?thesis by (simp add: free_space_samples_def free_rows_def o_def)
qed

lemma update_counted: "servicing_failures (failed_update # evs) = bindE (servicing_failures evs) (\<lambda>n. Inr (Suc n))"
proof -
  have "is_infix WU_PROVIDER (lower ''Microsoft-Windows-WindowsUpdateClient'')" by code_simp
  then show ?thesis by (simp add: failed_update_def jget_Cons WU_FAILURE_IDS_def)
qed

theorem lasting_level_decides_witness:
  "\<exists>a. compute_disk_fill_risk (map free_row [1, 50, 60]) [] False None = Inr a \<and> ea_value a = Some (Fin 0)"
proof -
  obtain a where a: "compute_disk_fill_risk (map free_row [1, 50, 60]) [] False None = Inr a"
    unfolding compute_disk_fill_risk_def free_rows_read by (simp add: Let_def)
  have "servicing_failures [] = Inr 0" "0 < SERVICING_MIN_FAILURES" by (simp_all add: SERVICING_MIN_FAILURES_def)
  from lasting_level_decides[OF a free_rows_read _ this] a show ?thesis by (simp add: numbers_def)
qed

theorem servicing_alarm_survives_gate_witness:
  "\<exists>a. compute_disk_fill_risk [free_row 90] [failed_update, failed_update, failed_update] False (Some D_UNKNOWN) = Inr a \<and>
     ea_value a = Some (Fin 28)"
proof -
  have "free_space_samples [free_row 90] = Inr [Fin 90]" using free_rows_read[of "[90]"] by simp
  moreover have "servicing_failures [failed_update, failed_update, failed_update] = Inr 3"
    by (simp only: update_counted servicing_failures.simps(1) bindE.simps) simp
  ultimately show ?thesis using servicing_alarm_survives_gate[of "[free_row 90]" "[Fin 90]" "[failed_update, failed_update, failed_update]" 3]
    by (simp add: SERVICING_MIN_FAILURES_def)
qed

end
