(* ===== verification/SoftwareAging.thy ===== *)
theory SoftwareAging imports RiskAxis begin

text \<open>
  The software-ageing engine of \<open>server/analytics/software_aging.py\<close>: the heartbeats are cut into sessions where the
  uptime falls, and the leak rates of the current session give a risk that touches the resilience only.  The slope is
  that of the trend engine over the uptime.
\<close>

datatype aging_label = SA_HandlesLeak pyfloat | SA_HandlesGrow pyfloat | SA_MemoryFalls pyfloat | SA_LongUptime pyfloat
  | SA_Pagefile | SA_Accelerates | SA_RebootRestores
datatype aging_missing = SM_NotTrusted | SM_YoungSession | SM_NoDamage | SM_NoHandles | SM_NoMemory

record aging_lineage =
  al_points :: nat
  al_sessions :: nat
  al_handles :: "pyfloat option"
  al_memory :: "pyfloat option"
  al_flags :: "string list"

datatype aging_origin = AO_None | AO_Identity | AO_Readings aging_lineage

type_synonym aging_axis = "(aging_label, aging_missing, aging_origin) engine_axis"

definition MIN_SESSION_POINTS :: nat where "MIN_SESSION_POINTS = 4"
definition HIGH_CONF_SESSION :: nat where "HIGH_CONF_SESSION = 6"
definition HANDLES_WATCH :: pyfloat where "HANDLES_WATCH = Fin 100"
definition HANDLES_SEVERE :: pyfloat where "HANDLES_SEVERE = Fin 300"
definition MEM_WATCH :: pyfloat where "MEM_WATCH = Fin (- 50)"
definition UPTIME_TWO_WEEKS_H :: pyfloat where "UPTIME_TWO_WEEKS_H = Fin 336"

subsection \<open>Sessions\<close>

fun with_uptime :: "jobj list \<Rightarrow> (pyfloat \<times> jobj) list res" where
  \<comment> \<open>a row without an uptime is no evidence of a session\<close>
  "with_uptime [] = Inr []"
| "with_uptime (row # rows) = bindE (to_num (jget row ''uptime_hours'')) (\<lambda>u. bindE (with_uptime rows) (\<lambda>rs.
     Inr (case u of None \<Rightarrow> rs | Some x \<Rightarrow> (x, row) # rs)))"

fun cut_sessions :: "pyfloat \<Rightarrow> jobj list \<Rightarrow> (pyfloat \<times> jobj) list \<Rightarrow> jobj list list" where
  \<comment> \<open>the last uptime, the session so far and the rows that follow\<close>
  "cut_sessions u cur [] = [cur]"
| "cut_sessions u cur ((x, row) # rs) = (if flt x u then cur # cut_sessions x [row] rs else cut_sessions x (cur @ [row]) rs)"

definition sessions_of :: "(pyfloat \<times> jobj) list \<Rightarrow> jobj list list" where
  "sessions_of rs = (case rs of [] \<Rightarrow> [] | (x, row) # rest \<Rightarrow> cut_sessions x [row] rest)"

definition split_sessions :: "jobj list \<Rightarrow> jobj list list res" where
  \<comment> \<open>the series comes newest first\<close>
  "split_sessions series = bindE (with_uptime (rev series)) (\<lambda>rs. Inr (sessions_of rs))"

fun session_points :: "jobj list \<Rightarrow> string \<Rightarrow> point list res" where
  "session_points [] field = Inr []"
| "session_points (row # rows) field =
     bindE (to_num (jget row ''uptime_hours'')) (\<lambda>u. bindE (to_num (jget row field)) (\<lambda>v. bindE (session_points rows field) (\<lambda>ps.
       Inr (case (u, v) of (Some x, Some y) \<Rightarrow> (fmul x (Fin 3600), y) # ps | _ \<Rightarrow> ps))))"

definition hourly_slope :: "jobj list \<Rightarrow> string \<Rightarrow> pyfloat option res" where
  "hourly_slope session field = bindE (session_points session field) (\<lambda>ps.
     Inr (if length ps < MIN_SESSION_POINTS then None else map_option (\<lambda>s. fdiv s (Fin 24)) (theil_sen_slope ps)))"

subsection \<open>Pressure and recovery\<close>

definition percentile :: "pyfloat list \<Rightarrow> pyfloat \<Rightarrow> pyfloat option" where
  "percentile xs p = (if xs = [] then None
     else let n = int (length xs);
              rank = (case fmul p (Fin (of_int n)) of Fin q \<Rightarrow> - \<lfloor>- q\<rfloor> | _ \<Rightarrow> 0)
          in Some (sort_asc (\<lambda>x. x) xs ! nat (max 0 (min (n - 1) (rank - 1)))))"

definition P95 :: pyfloat where "P95 = rnd64 (95 / 100)"

definition pagefile_confirms_pressure :: "jobj list \<Rightarrow> bool res" where
  "pagefile_confirms_pressure session = bindE (mapE (\<lambda>r. to_num (jget r ''pagefile_pct'')) session) (\<lambda>vs.
     let vals = List.map_filter (\<lambda>v. v) vs; mid = length vals div 2
     in Inr (length vals \<ge> MIN_SESSION_POINTS \<and> (case (percentile (take mid vals) P95, percentile (drop mid vals) P95) of
          (Some a, Some b) \<Rightarrow> flt a b | _ \<Rightarrow> False)))"

definition leaked_field :: "jobj list \<Rightarrow> string option res" where
  \<comment> \<open>\<open>_prev_session_leaked_field\<close> of a session that exists\<close>
  "leaked_field prev = bindE (hourly_slope prev ''handle_count_total'') (\<lambda>h.
     if (case h of Some x \<Rightarrow> flt HANDLES_WATCH x | None \<Rightarrow> False) then Inr (Some ''handle_count_total'')
     else bindE (hourly_slope prev ''mem_avail_mb'') (\<lambda>m.
       Inr (if (case m of Some x \<Rightarrow> flt x MEM_WATCH | None \<Rightarrow> False) then Some ''mem_avail_mb'' else None)))"

definition reboot_restores :: "jobj list option \<Rightarrow> jobj list \<Rightarrow> bool res" where
  "reboot_restores prev session = (case prev of None \<Rightarrow> Inr False
     | Some p \<Rightarrow> bindE (leaked_field p) (\<lambda>f. case f of None \<Rightarrow> Inr False
         | Some field \<Rightarrow> bindE (to_num (jget (last p) field)) (\<lambda>old. bindE (to_num (jget (hd session) field)) (\<lambda>new.
             Inr (case (old, new) of
                 (Some a, Some b) \<Rightarrow> if field = ''handle_count_total'' then flt b a else flt a b
               | _ \<Rightarrow> False)))))"

subsection \<open>The engine\<close>

type_synonym aging_state = "aging_label score_tally \<times> string list"

definition aging_hit :: "aging_label \<Rightarrow> nat \<Rightarrow> string list \<Rightarrow> aging_state \<Rightarrow> aging_state" where
  "aging_hit l n flags s = (score_hit l (Fin (of_nat n)) (fst s), snd s @ flags)"

definition handles_rule :: "pyfloat option \<Rightarrow> aging_state \<Rightarrow> aging_state" where
  "handles_rule h s = (case h of None \<Rightarrow> s
     | Some x \<Rightarrow> if flt HANDLES_SEVERE x then aging_hit (SA_HandlesLeak x) 45 [] s
         else if flt HANDLES_WATCH x then aging_hit (SA_HandlesGrow x) 25 [] s else s)"

definition free_memory_rule :: "pyfloat option \<Rightarrow> aging_state \<Rightarrow> aging_state" where
  "free_memory_rule m s = (case m of None \<Rightarrow> s | Some x \<Rightarrow> if flt x MEM_WATCH then aging_hit (SA_MemoryFalls x) 20 [] s else s)"

definition uptime_rule :: "jobj list \<Rightarrow> aging_state \<Rightarrow> aging_state res" where
  "uptime_rule session s = bindE (to_num (jget (last session) ''uptime_hours'')) (\<lambda>u. Inr (case u of None \<Rightarrow> s
     | Some x \<Rightarrow> if flt UPTIME_TWO_WEEKS_H x then aging_hit (SA_LongUptime x) 10 [] s else s))"

definition pressure_rule :: "jobj list \<Rightarrow> aging_state \<Rightarrow> aging_state res" where
  "pressure_rule session s = bindE (pagefile_confirms_pressure session) (\<lambda>b. Inr (if b then aging_hit SA_Pagefile 10 [] s else s))"

definition acceleration_rule :: "pyfloat option \<Rightarrow> jobj list option \<Rightarrow> aging_state \<Rightarrow> aging_state res" where
  "acceleration_rule h prev s = (case (h, prev) of
       (Some x, Some p) \<Rightarrow>
         if \<not> flt (Fin 0) x then Inr s
         else bindE (hourly_slope p ''handle_count_total'') (\<lambda>ph. Inr (case ph of
             Some y \<Rightarrow> if flt (Fin 0) y \<and> fle (fmul (Fin 2) y) x then aging_hit SA_Accelerates 10 [''aging_accelerating''] s else s
           | None \<Rightarrow> s))
     | _ \<Rightarrow> Inr s)"

definition restore_rule :: "jobj list option \<Rightarrow> jobj list \<Rightarrow> aging_state \<Rightarrow> aging_state res" where
  \<comment> \<open>a remark of no points\<close>
  "restore_rule prev session s = bindE (reboot_restores prev session) (\<lambda>b.
     Inr (if b then ((fst (fst s), snd (fst s) @ [(SA_RebootRestores, Fin 0)]), snd s @ [''reboot_restores'']) else s))"

definition aging_rules :: "jobj list \<Rightarrow> jobj list option \<Rightarrow> pyfloat option \<Rightarrow> pyfloat option \<Rightarrow> aging_state res" where
  "aging_rules session prev h m =
     bindE (uptime_rule session (free_memory_rule m (handles_rule h ((Fin 0, []), [])))) (\<lambda>s.
     bindE (pressure_rule session s) (\<lambda>s. bindE (acceleration_rule h prev s) (restore_rule prev session)))"

definition aging_verdict :: "jobj list \<Rightarrow> nat \<Rightarrow> pyfloat option \<Rightarrow> pyfloat option \<Rightarrow> aging_state \<Rightarrow> aging_axis" where
  "aging_verdict session seen h m s =
     (let v = clamp (fst (fst s)) 0 100;
          flags = snd s @ (if band_for_risk_score (Some v) \<in> {Watch, Bad} then [''aging_leak''] else [])
      in engine_scored v (if HIGH_CONF_SESSION \<le> length session then ConfHigh else ConfMedium) (snd (fst s))
           (SM_NoDamage # (if h = None then [SM_NoHandles] else []) @ (if m = None then [SM_NoMemory] else []))
           (AO_Readings \<lparr>al_points = length session, al_sessions = seen, al_handles = map_option (fround 1) h,
              al_memory = map_option (fround 1) m, al_flags = flags\<rparr>)
           (if flt (Fin 0) v then ER_None else ER_AllClear))"

definition compute_software_aging_risk :: "jobj list \<Rightarrow> bool \<Rightarrow> aging_axis res" where
  "compute_software_aging_risk series untrusted =
     (if untrusted then Inr (engine_withheld [SM_NotTrusted] AO_Identity ER_Untrusted)
      else bindE (split_sessions series) (\<lambda>sessions.
        let session = (if sessions = [] then [] else last sessions);
            prev = (if 2 \<le> length sessions then Some (sessions ! (length sessions - 2)) else None)
        in if length session < MIN_SESSION_POINTS then Inr (engine_withheld [SM_YoungSession] AO_None ER_NoData)
           else bindE (hourly_slope session ''handle_count_total'') (\<lambda>h. bindE (hourly_slope session ''mem_avail_mb'') (\<lambda>m.
                bindE (aging_rules session prev h m) (\<lambda>s. Inr (aging_verdict session (length sessions) h m s))))))"

subsection \<open>The contract\<close>

lemma aging_hit_ok: "tally_ok (fst s) \<Longrightarrow> n \<le> 100 \<Longrightarrow> tally_ok (fst (aging_hit l n fl s))"
  by (simp add: aging_hit_def tally_hit)

lemma aging_start: "tally_ok (fst (free_memory_rule m (handles_rule h ((Fin 0, []), []))))"
proof -
  have "tally_ok (fst (handles_rule h ((Fin 0, []), [])))"
    by (auto simp: handles_rule_def intro!: aging_hit_ok split: option.splits)
  then show ?thesis by (auto simp: free_memory_rule_def intro!: aging_hit_ok split: option.splits)
qed

lemma aging_rule_ok:
  "uptime_rule session s = Inr s' \<Longrightarrow> tally_ok (fst s) \<Longrightarrow> tally_ok (fst s')"
  "pressure_rule session s = Inr s' \<Longrightarrow> tally_ok (fst s) \<Longrightarrow> tally_ok (fst s')"
  "acceleration_rule h prev s = Inr s' \<Longrightarrow> tally_ok (fst s) \<Longrightarrow> tally_ok (fst s')"
  by (auto simp: uptime_rule_def pressure_rule_def acceleration_rule_def aging_hit_ok split: option.splits if_splits)

lemma restore_ok: "restore_rule prev session s = Inr s' \<Longrightarrow> tally_ok (fst s) \<Longrightarrow> tally_ok (fst s')"
proof -
  have "whole_delta (Fin 0)" unfolding whole_delta_def by (rule exI[of _ 0]) simp
  moreover have "fadd (fsum xs) (Fin 0) = fsum xs" for xs by (rule fadd_zero) simp
  ultimately show "restore_rule prev session s = Inr s' \<Longrightarrow> tally_ok (fst s) \<Longrightarrow> tally_ok (fst s')"
    by (cases s) (auto simp: restore_rule_def tally_ok_def fsum_def split: if_splits)
qed

lemma aging_rules_split:
  assumes "aging_rules session prev h m = Inr s"
  obtains u p q where "uptime_rule session (free_memory_rule m (handles_rule h ((Fin 0, []), []))) = Inr u" "pressure_rule session u = Inr p"
    "acceleration_rule h prev p = Inr q" "restore_rule prev session q = Inr s"
  using assms unfolding aging_rules_def by (simp only: bindE_Inr_iff) blast

lemma aging_rules_ok: "aging_rules session prev h m = Inr s \<Longrightarrow> tally_ok (fst s)"
  by (erule aging_rules_split) (blast intro: aging_rule_ok restore_ok aging_start)

lemma aging_verdict_sound: "aging_rules session prev h m = Inr s \<Longrightarrow> sound_axis (aging_verdict session' n h' m' s)"
  unfolding aging_verdict_def Let_def using aging_rules_ok by (intro sound_scored) (simp_all add: prod_eq_iff)

definition current_session :: "jobj list list \<Rightarrow> jobj list" where
  "current_session ss = (if ss = [] then [] else last ss)"

definition session_before :: "jobj list list \<Rightarrow> jobj list option" where
  "session_before ss = (if 2 \<le> length ss then Some (ss ! (length ss - 2)) else None)"

lemma aging_cases:
  assumes "compute_software_aging_risk series False = Inr a"
  obtains ss where "split_sessions series = Inr ss" "length (current_session ss) < MIN_SESSION_POINTS"
      "a = engine_withheld [SM_YoungSession] AO_None ER_NoData"
  | ss h m s where "split_sessions series = Inr ss" "MIN_SESSION_POINTS \<le> length (current_session ss)"
      "hourly_slope (current_session ss) ''handle_count_total'' = Inr h" "hourly_slope (current_session ss) ''mem_avail_mb'' = Inr m"
      "aging_rules (current_session ss) (session_before ss) h m = Inr s"
      "a = aging_verdict (current_session ss) (length ss) h m s"
proof -
  from assms obtain ss where ss: "split_sessions series = Inr ss"
    and r: "(if length (current_session ss) < MIN_SESSION_POINTS then Inr (engine_withheld [SM_YoungSession] AO_None ER_NoData)
      else bindE (hourly_slope (current_session ss) ''handle_count_total'') (\<lambda>h. bindE (hourly_slope (current_session ss) ''mem_avail_mb'') (\<lambda>m.
        bindE (aging_rules (current_session ss) (session_before ss) h m) (\<lambda>s. Inr (aging_verdict (current_session ss) (length ss) h m s))))) = Inr a"
    unfolding compute_software_aging_risk_def Let_def current_session_def session_before_def by (simp only: if_False bindE_Inr_iff) blast
  show ?thesis
  proof (cases "length (current_session ss) < MIN_SESSION_POINTS")
    case True
    then show ?thesis using that(1)[OF ss True] r by simp
  next
    case False
    then have len: "MIN_SESSION_POINTS \<le> length (current_session ss)" by simp
    from r False obtain h m s where p: "hourly_slope (current_session ss) ''handle_count_total'' = Inr h"
      "hourly_slope (current_session ss) ''mem_avail_mb'' = Inr m" "aging_rules (current_session ss) (session_before ss) h m = Inr s"
      "aging_verdict (current_session ss) (length ss) h m s = a"
      by (simp only: if_False bindE_Inr_iff Inr_inject) blast
    show ?thesis by (rule that(2)[OF ss len p(1-3) p(4)[symmetric]])
  qed
qed

interpretation aging: risk_engine "\<lambda>series u d. compute_software_aging_risk series u"
proof unfold_locales
  show untrusted: "\<exists>ms l r. compute_software_aging_risk i True = Inr (engine_withheld ms l r)" for i
    by (auto simp: compute_software_aging_risk_def)
  show "sound_axis a" if a: "compute_software_aging_risk i u = Inr a" for i u a
  proof (cases u)
    case True
    then show ?thesis using a untrusted[of i] by auto
  next
    case False
    with a show ?thesis using aging_verdict_sound by (auto elim: aging_cases)
  qed
qed

subsection \<open>Sessions partition the series\<close>

definition uptime_of :: "jobj \<Rightarrow> pyfloat" where
  "uptime_of row = (case to_num (jget row ''uptime_hours'') of Inr (Some x) \<Rightarrow> x | _ \<Rightarrow> NaN)"

definition steady :: "jobj list \<Rightarrow> bool" where
  \<comment> \<open>the uptime never falls\<close>
  "steady s \<longleftrightarrow> successively (\<lambda>a b. \<not> flt (uptime_of b) (uptime_of a)) s"

definition reboots :: "jobj list list \<Rightarrow> bool" where
  \<comment> \<open>the uptime falls from each session to the next\<close>
  "reboots ss \<longleftrightarrow> successively (\<lambda>s t. flt (uptime_of (hd t)) (uptime_of (last s))) ss"

lemma cut_ne: "cut_sessions u cur rs \<noteq> []"
  by (induction u cur rs rule: cut_sessions.induct) auto

lemma cut_concat: "concat (cut_sessions u cur rs) = cur @ map snd rs"
  by (induction u cur rs rule: cut_sessions.induct) auto

lemma cut_sessions_parts:
  "cur \<noteq> [] \<Longrightarrow> u = uptime_of (last cur) \<Longrightarrow> steady cur \<Longrightarrow> list_all (\<lambda>(x, r). x = uptime_of r) rs \<Longrightarrow>
   list_all (\<lambda>s. s \<noteq> [] \<and> steady s) (cut_sessions u cur rs) \<and> reboots (cut_sessions u cur rs) \<and> hd (hd (cut_sessions u cur rs)) = hd cur"
proof (induction u cur rs rule: cut_sessions.induct)
  case (1 u cur)
  then show ?case by (simp add: reboots_def)
next
  case (2 u cur x row rs)
  have x: "x = uptime_of row" using 2(6) by simp
  show ?case
  proof (cases "flt x u")
    case True
    with 2(1)[OF True] x cut_ne[of x "[row]" rs] 2(3-6) show ?thesis by (auto simp: reboots_def steady_def successively_Cons)
  next
    case False
    with 2(3-5) x have "steady (cur @ [row])" by (simp add: steady_def successively_append_iff)
    with 2(2)[OF False] x False 2(3,6) show ?thesis by simp
  qed
qed

lemma with_uptime_parts: "with_uptime rows = Inr rs \<Longrightarrow> list_all (\<lambda>(x, r). x = uptime_of r) rs \<and>
  map snd rs = filter (\<lambda>r. to_num (jget r ''uptime_hours'') \<noteq> Inr None) rows"
  by (induction rows arbitrary: rs) (auto simp: uptime_of_def split: option.splits)

lemma sessions_cut:
  assumes "split_sessions series = Inr ss"
  shows "concat ss = filter (\<lambda>r. to_num (jget r ''uptime_hours'') \<noteq> Inr None) (rev series) \<and>
    list_all (\<lambda>s. s \<noteq> [] \<and> steady s) ss \<and> reboots ss"
proof -
  from assms obtain rs where rs: "with_uptime (rev series) = Inr rs" "ss = sessions_of rs" by (auto simp: split_sessions_def)
  note parts = with_uptime_parts[OF rs(1)]
  show ?thesis
  proof (cases rs)
    case Nil
    then show ?thesis using parts by (simp add: rs(2) sessions_of_def reboots_def)
  next
    case (Cons p rest)
    obtain x row where p: "p = (x, row)" by (cases p)
    have "steady [row]" by (simp add: steady_def)
    with cut_sessions_parts[of "[row]" x rest] parts show ?thesis
      by (simp add: rs(2) sessions_of_def Cons p cut_concat)
  qed
qed

text \<open>The sessions are the series cut at its reboots: in order, nothing of the rows with an uptime is lost, the uptime never falls within a
  session, and falls from each session to the next.\<close>
theorem sessions_are_cut_at_reboots:
  assumes "split_sessions series = Inr ss"
  shows "concat ss = filter (\<lambda>r. to_num (jget r ''uptime_hours'') \<noteq> Inr None) (rev series) \<and>
    list_all (\<lambda>s. s \<noteq> [] \<and> steady s) ss \<and> reboots ss"
  using assms by (rule sessions_cut)

subsection \<open>A reboot cures\<close>

lemma steady_uncut:
  "steady (cur @ map snd rs) \<Longrightarrow> cur \<noteq> [] \<Longrightarrow> u = uptime_of (last cur) \<Longrightarrow> list_all (\<lambda>(x, r). x = uptime_of r) rs \<Longrightarrow>
   cut_sessions u cur rs = [cur @ map snd rs]"
proof (induction u cur rs rule: cut_sessions.induct)
  case (2 u cur x row rs)
  then have "\<not> flt x u" by (auto simp: steady_def successively_append_iff)
  with 2 show ?case by simp
qed simp

lemma with_uptime_all: "\<forall>r\<in>set rows. \<exists>x. to_num (jget r ''uptime_hours'') = Inr (Some x) \<Longrightarrow>
  with_uptime rows = Inr (map (\<lambda>r. (uptime_of r, r)) rows)"
  by (induction rows) (auto simp: uptime_of_def)

lemma with_uptime_in: "with_uptime rows = Inr rs \<Longrightarrow> r \<in> snd ` set rs \<Longrightarrow> \<exists>x. to_num (jget r ''uptime_hours'') = Inr (Some x)"
  by (induction rows arbitrary: rs) (force split: option.splits)+

lemma session_alone:
  assumes "split_sessions series = Inr ss" "s \<in> set ss"
  shows "split_sessions (rev s) = Inr [s]"
proof -
  from assms obtain rs where rs: "with_uptime (rev series) = Inr rs" "ss = sessions_of rs" by (auto simp: split_sessions_def)
  note cuts = sessions_cut[OF assms(1)]
  have "steady s" "s \<noteq> []" using cuts assms(2) by (auto simp: list_all_iff)
  have "set s \<subseteq> set (concat ss)" using assms(2) by auto
  also have "concat ss = map snd rs" using rs by (auto simp: sessions_of_def cut_concat split: list.splits)
  finally have "\<forall>r\<in>set s. r \<in> snd ` set rs" by auto
  then have up: "with_uptime s = Inr (map (\<lambda>r. (uptime_of r, r)) s)" using with_uptime_in[OF rs(1)] by (intro with_uptime_all) blast
  obtain r t where t: "s = r # t" using \<open>s \<noteq> []\<close> by (cases s) auto
  then have "sessions_of (map (\<lambda>r. (uptime_of r, r)) s) = [s]"
    using steady_uncut[of "[r]" "map (\<lambda>r. (uptime_of r, r)) t" "uptime_of r"] \<open>steady s\<close> by (simp add: sessions_of_def list_all_iff o_def)
  with up show ?thesis by (simp add: split_sessions_def)
qed

lemma unaccelerated:
  assumes "acceleration_rule h prev p = Inr q" "restore_rule prev session q = Inr s" "SA_Accelerates \<notin> fst ` set (snd (fst s))"
  shows "fst (fst s) = fst (fst p)"
  using assms by (auto simp: acceleration_rule_def restore_rule_def aging_hit_def score_hit_def split: option.splits if_splits)

text \<open>A reboot cures: the number depends on the current session alone.  Unless the leak of handles is at least twice that of the session
  before, which is a factor of its own, a machine with a history has the value it would have if the history began with its last boot.\<close>
theorem reboot_cures:
  assumes "compute_software_aging_risk series False = Inr a" "split_sessions series = Inr ss" "ss \<noteq> []"
    "compute_software_aging_risk (rev (last ss)) False = Inr b" "SA_Accelerates \<notin> fst ` set (ea_factors a)"
  shows "ea_value a = ea_value b \<and> ea_band a = ea_band b"
proof -
  have alone: "split_sessions (rev (last ss)) = Inr [last ss]" using assms(2,3) by (intro session_alone) auto
  have cur: "current_session ss = last ss" "current_session [last ss] = last ss" "session_before [last ss] = None"
    using assms(3) by (simp_all add: current_session_def session_before_def)
  show ?thesis using assms(1)
  proof (cases rule: aging_cases)
    case (1 ss')
    with assms(2,4) alone cur show ?thesis by (auto elim!: aging_cases)
  next
    case (2 ss' h m s)
    then have ss': "ss' = ss" using assms(2) by simp
    from assms(4) show ?thesis
    proof (cases rule: aging_cases)
      case (1 tt)
      with 2 alone cur ss' show ?thesis by auto
    next
      case (2 tt h' m' s')
      note other = this
      from \<open>aging_rules (current_session ss') _ h m = Inr s\<close> obtain u p q where
        r: "uptime_rule (last ss) (free_memory_rule m (handles_rule h ((Fin 0, []), []))) = Inr u" "pressure_rule (last ss) u = Inr p"
          "acceleration_rule h (session_before ss) p = Inr q" "restore_rule (session_before ss) (last ss) q = Inr s"
        unfolding ss' cur by (elim aging_rules_split)
      have "fst (fst s) = fst (fst p)" using unaccelerated[OF r(3,4)] assms(5) \<open>a = _\<close> by (simp add: aging_verdict_def engine_scored_def Let_def)
      moreover have "fst (fst s') = fst (fst p)"
      proof -
        have "tt = [last ss]" using other(1) alone by simp
        with other(3-5) 2(3,4) have "h' = h" "m' = m" "aging_rules (last ss) None h m = Inr s'"
          using \<open>hourly_slope (current_session ss') _ = Inr h\<close> \<open>hourly_slope (current_session ss') _ = Inr m\<close> by (simp_all add: ss' cur)
        then show ?thesis using r(1,2) by (auto simp: aging_rules_def acceleration_rule_def restore_rule_def reboot_restores_def split: option.splits)
      qed
      ultimately show ?thesis using \<open>a = _\<close> other(6) by (simp add: aging_verdict_def engine_scored_def Let_def)
    qed
  qed
qed

subsection \<open>Samples\<close>

definition up_row :: "rat \<Rightarrow> jobj" where
  "up_row q = [(''uptime_hours'', JFloat (Fin q))]"

lemma up_row_reads [simp]: "to_num (jget (up_row q) ''uptime_hours'') = Inr (Some (Fin q))" "uptime_of (up_row q) = Fin q"
  "k \<noteq> ''uptime_hours'' \<Longrightarrow> jget (up_row q) k = JNull"
  by (simp_all add: up_row_def uptime_of_def jget_Cons jget_Nil)

definition rebooted :: "jobj list" where
  \<comment> \<open>newest first\<close>
  "rebooted = map up_row [4, 3, 2, 1, 9]"

lemma rebooted_sessions: "split_sessions rebooted = Inr [[up_row 9], map up_row [1, 2, 3, 4]]"
  by (simp add: rebooted_def split_sessions_def sessions_of_def)

lemma quiet_points: "k \<noteq> ''uptime_hours'' \<Longrightarrow> hourly_slope (map up_row qs) k = Inr None"
proof -
  assume "k \<noteq> ''uptime_hours''"
  then have "session_points (map up_row qs) k = Inr []" by (induction qs) simp_all
  then show ?thesis by (simp add: hourly_slope_def MIN_SESSION_POINTS_def)
qed

lemma quiet_pages: "pagefile_confirms_pressure (map up_row qs) = Inr False"
proof -
  have "mapE (\<lambda>r. to_num (jget r ''pagefile_pct'')) (map up_row qs) = Inr (map (\<lambda>_. None) qs)" by (induction qs) simp_all
  moreover have "List.map_filter (\<lambda>v. v) (map (\<lambda>_. None :: pyfloat option) qs) = []" by (induction qs) (simp_all add: List.map_filter_simps)
  ultimately show ?thesis by (simp add: pagefile_confirms_pressure_def MIN_SESSION_POINTS_def Let_def)
qed

lemma rebooted_rules:
  assumes "prev = None \<or> prev = Some (map up_row [9])"
  shows "aging_rules (map up_row [1, 2, 3, 4]) prev None None = Inr ((Fin 0, []), [])"
proof -
  have p: "pagefile_confirms_pressure (map up_row [1, 2, 3, 4]) = Inr False" by (rule quiet_pages)
  have "leaked_field (map up_row [9]) = Inr None" using quiet_points[of "''handle_count_total''" "[9]"] quiet_points[of "''mem_avail_mb''" "[9]"] by (simp add: leaked_field_def)
  then have restores: "reboot_restores prev (map up_row [1, 2, 3, 4]) = Inr False" using assms by (auto simp: reboot_restores_def)
  have "free_memory_rule None t = t" "handles_rule None t = t" "uptime_rule (map up_row [1, 2, 3, 4]) t = Inr t"
    "pressure_rule (map up_row [1, 2, 3, 4]) t = Inr t" "acceleration_rule None prev t = Inr t"
    "restore_rule prev (map up_row [1, 2, 3, 4]) t = Inr t" for t
    using p restores by (simp_all add: free_memory_rule_def handles_rule_def uptime_rule_def pressure_rule_def acceleration_rule_def
      restore_rule_def UPTIME_TWO_WEEKS_H_def)
  then show ?thesis by (simp only: aging_rules_def bindE.simps)
qed

lemma rebooted_axis:
  "compute_software_aging_risk rebooted False = Inr (aging_verdict (map up_row [1, 2, 3, 4]) 2 None None ((Fin 0, []), []))"
  "compute_software_aging_risk (rev (map up_row [1, 2, 3, 4])) False = Inr (aging_verdict (map up_row [1, 2, 3, 4]) 1 None None ((Fin 0, []), []))"
proof -
  note slopes = quiet_points[of "''handle_count_total''" "[1, 2, 3, 4]"] quiet_points[of "''mem_avail_mb''" "[1, 2, 3, 4]"]
  note rules = rebooted_rules[of None] rebooted_rules[of "Some (map up_row [9])"]
  show "compute_software_aging_risk rebooted False = Inr (aging_verdict (map up_row [1, 2, 3, 4]) 2 None None ((Fin 0, []), []))"
    using slopes rules by (simp add: compute_software_aging_risk_def rebooted_sessions MIN_SESSION_POINTS_def numeral_2_eq_2)
  have "split_sessions (rev (map up_row [1, 2, 3, 4])) = Inr [map up_row [1, 2, 3, 4]]"
    by (rule session_alone[OF rebooted_sessions]) simp
  then show "compute_software_aging_risk (rev (map up_row [1, 2, 3, 4])) False = Inr (aging_verdict (map up_row [1, 2, 3, 4]) 1 None None ((Fin 0, []), []))"
    using slopes rules by (simp add: compute_software_aging_risk_def MIN_SESSION_POINTS_def)
qed

theorem sessions_are_cut_at_reboots_witness: "concat [[up_row 9], map up_row [1, 2, 3, 4]] = rev rebooted"
  using sessions_are_cut_at_reboots[OF rebooted_sessions] by (simp add: rebooted_def)

theorem reboot_cures_witness:
  "ea_value (aging_verdict (map up_row [1, 2, 3, 4]) 2 None None ((Fin 0, []), [])) =
   ea_value (aging_verdict (map up_row [1, 2, 3, 4]) 1 None None ((Fin 0, []), []))"
proof -
  have "SA_Accelerates \<notin> fst ` set (ea_factors (aging_verdict (map up_row [1, 2, 3, 4]) 2 None None ((Fin 0, []), [])))"
    by (simp add: aging_verdict_def engine_scored_def Let_def)
  moreover have "last [[up_row 9], map up_row [1, 2, 3, 4]] = map up_row [1, 2, 3, 4]" by simp
  ultimately show ?thesis using reboot_cures[OF rebooted_axis(1) rebooted_sessions _ _] rebooted_axis(2) by (simp only: list.simps not_False_eq_True)
qed

end
