(* ===== verification/Recompute.thy ===== *)
theory Recompute imports Diagnosis OsDegradation FleetAnomaly NetworkRisk DiskFill SoftwareAging begin

text \<open>
  \<open>recompute_scores\<close> of \<open>server/pipeline.py\<close> as a whole: every engine on what the database holds for a machine, the axes side
  by side, the health verdict over them and the block that is stored.  What is read from the database is a record; the clock is
  read several times and is a function of the reading; the texts of factors are given by a parameter.
\<close>

subsection \<open>What the database holds\<close>

record stored_device =
  sd_inventory :: "jobj option"
  sd_historical :: "jobj option"
  sd_heartbeat :: "jobj option"
  sd_trust :: "trust_blob option"
  sd_history :: "jobj list"
  sd_heartbeats :: "jobj list"
  sd_disk_series :: "jval \<Rightarrow> jobj list"
  sd_events :: "jobj list"
  sd_rollups :: "jobj list"
  sd_rule_stats :: "(string, (string, nat) dict) dict"
  sd_cohort :: cohort_stats
  sd_prev_health :: "prev_health option"
  sd_scores :: "jobj list"

definition TREND_HISTORY_LIMIT :: nat where "TREND_HISTORY_LIMIT = 200"
definition HEALTH_DELTA :: int where "HEALTH_DELTA = 7 * day_us"

subsection \<open>The axes as they are stored\<close>

datatype any_label = AL_Day1 factor | AL_Observability obs_factor | AL_Trend tj_factor | AL_Storage st_label | AL_Fill fill_label
  | AL_Os os_label | AL_Fleet fleet_label | AL_Net net_label | AL_Aging aging_label

type_synonym texts = "any_label \<Rightarrow> string"

definition plain_axis :: "pyfloat option \<Rightarrow> band \<Rightarrow> confidence \<Rightarrow> fact list \<Rightarrow> haxis" where
  \<comment> \<open>an axis without coordinates\<close>
  "plain_axis v b c fs = \<lparr>hx_value = v, hx_band = b, hx_confidence = c, hx_factors = fs, hx_damage = None, hx_loss = None,
     hx_flags = [], hx_disk = None\<rparr>"

definition day1_haxis :: "('f \<Rightarrow> fact) \<Rightarrow> 'f score100 \<Rightarrow> haxis" where
  "day1_haxis fact_of s = plain_axis (sc_value s) (sc_band s) (sc_confidence s) (map fact_of (sc_factors s))"

definition day1_fact :: "texts \<Rightarrow> factor \<Rightarrow> fact" where
  "day1_fact txt f = \<lparr>hf_label = HL_Axis (txt (AL_Day1 f)), hf_delta = Some (fa_delta f)\<rparr>"

definition obs_delta :: "obs_factor \<Rightarrow> pyfloat" where
  "obs_delta f = (case f of OF_NoSourceHealth \<Rightarrow> Fin (- 80) | OF_Coverage a b d \<Rightarrow> d | OF_Regressed n d \<Rightarrow> d | OF_ClockDrift \<Rightarrow> Fin (- 10))"

definition obs_fact :: "texts \<Rightarrow> obs_factor \<Rightarrow> fact" where
  "obs_fact txt f = \<lparr>hf_label = HL_Axis (txt (AL_Observability f)), hf_delta = Some (obs_delta f)\<rparr>"

definition trend_fact :: "texts \<Rightarrow> tj_factor \<Rightarrow> fact" where
  "trend_fact txt f = \<lparr>hf_label = HL_Axis (txt (AL_Trend f)), hf_delta = Some (tf_delta f)\<rparr>"

definition trajectory_haxis :: "texts \<Rightarrow> trajectory \<Rightarrow> haxis" where
  "trajectory_haxis txt t = plain_axis (ty_value t) (ty_band t) (ty_confidence t) (map (trend_fact txt) (ty_factors t))"

definition engine_haxis :: "('l \<Rightarrow> string) \<Rightarrow> ('l, 'm, 's) engine_axis \<Rightarrow> haxis" where
  "engine_haxis txt a = plain_axis (ea_value a) (ea_band a) (ea_confidence a)
     (map (\<lambda>(l, d). \<lparr>hf_label = HL_Axis (txt l), hf_delta = Some d\<rparr>) (ea_factors a))"

definition aging_flags :: "aging_axis \<Rightarrow> string list" where
  \<comment> \<open>\<open>source_lineage.get("coords", {"flags": []})\<close>\<close>
  "aging_flags a = (case ea_lineage a of AO_Readings l \<Rightarrow> al_flags l | _ \<Rightarrow> [])"

definition aging_haxis :: "texts \<Rightarrow> aging_axis \<Rightarrow> haxis" where
  "aging_haxis txt a = (engine_haxis (txt \<circ> AL_Aging) a)\<lparr>hx_flags := aging_flags a\<rparr>"

record engine_results =
  er_day1 :: day1_axes
  er_trajectory :: trajectory
  er_storage :: storage_axis
  er_fill :: fill_axis
  er_os :: os_axis
  er_fleet :: fleet_axis
  er_network :: net_axis
  er_aging :: aging_axis

definition score100_axes :: "texts \<Rightarrow> engine_results \<Rightarrow> axes" where
  \<comment> \<open>\<open>risk_block["score100"]\<close>\<close>
  "score100_axes txt r =
     [(''performance'', day1_haxis (day1_fact txt) (ax_performance (er_day1 r))),
      (''reliability'', day1_haxis (day1_fact txt) (ax_reliability (er_day1 r))),
      (''wear'', day1_haxis (day1_fact txt) (ax_wear (er_day1 r))),
      (''risk_exposure'', day1_haxis (day1_fact txt) (ax_risk_exposure (er_day1 r))),
      (''observability'', day1_haxis (obs_fact txt) (ax_observability (er_day1 r))),
      (''trajectory_risk'', trajectory_haxis txt (er_trajectory r)),
      (''storage_risk'', storage_haxis (txt \<circ> AL_Storage) (er_storage r)),
      (''disk_fill_risk'', engine_haxis (txt \<circ> AL_Fill) (er_fill r)),
      (''os_degradation_risk'', engine_haxis (txt \<circ> AL_Os) (er_os r)),
      (''fleet_anomaly_risk'', engine_haxis (txt \<circ> AL_Fleet) (er_fleet r)),
      (''network_risk'', engine_haxis (txt \<circ> AL_Net) (er_network r)),
      (''software_aging_risk'', aging_haxis txt (er_aging r))]"

subsection \<open>The engines in their order\<close>

definition domain_of :: "stored_device \<Rightarrow> string \<Rightarrow> domain_state option" where
  "domain_of sd n = (case sd_trust sd of None \<Rightarrow> None | Some t \<Rightarrow> domain_state_of (tb_domains t) n)"

definition is_untrusted :: "stored_device \<Rightarrow> bool" where
  "is_untrusted sd = (case sd_trust sd of None \<Rightarrow> False | Some t \<Rightarrow> device_untrusted t)"

definition storage_context :: "stored_device \<Rightarrow> jobj list option \<Rightarrow> err_chain \<Rightarrow> (string, trend) dict \<Rightarrow> st_context" where
  "storage_context sd disk ch trends = \<lparr>cx_hb = sd_heartbeat sd, cx_series = (case disk of None \<Rightarrow> [] | Some rows \<Rightarrow> rows),
     cx_chain = Some ch, cx_trends = trends, cx_stats = sd_rule_stats sd\<rparr>"

definition run_engines :: "(pyfloat list \<Rightarrow> pyfloat) \<Rightarrow> (nat \<Rightarrow> int) \<Rightarrow> stored_device \<Rightarrow> day1_axes
    \<Rightarrow> (engine_results \<times> err_chain \<times> (string, trend) dict) res" where
  \<comment> \<open>from the worst disk's key to the ageing engine\<close>
  "run_engines stdev clock sd day1 =
     bindE (worst_disk_key (sd_historical sd)) (\<lambda>key.
     let disk = map_option (sd_disk_series sd) key; untrusted = is_untrusted sd
     in bindE (compute_trends (sd_history sd) (sd_heartbeats sd) disk (clock 1)) (\<lambda>trends.
        bindE (analyze_events stdev (sd_events sd) (clock 2) (Some (sd_rollups sd))) (\<lambda>ch.
        bindE (compute_storage_risk (sd_historical sd) (storage_context sd disk ch trends) untrusted (domain_of sd ''storage'')) (\<lambda>storage.
        bindE (compute_disk_fill_risk (sd_heartbeats sd) (map JObj (take TREND_HISTORY_LIMIT (sd_events sd))) untrusted
            (domain_of sd ''disk_fill'')) (\<lambda>fill.
        bindE (compute_os_degradation_risk (sd_historical sd) untrusted (domain_of sd ''os_stability'')) (\<lambda>os.
        bindE (compute_network_risk (sd_historical sd) untrusted (domain_of sd ''network'')) (\<lambda>network.
        bindE (compute_software_aging_risk (sd_heartbeats sd) untrusted) (\<lambda>aging.
        Inr (\<lparr>er_day1 = day1, er_trajectory = trajectory_risk_score trends untrusted, er_storage = storage, er_fill = fill,
               er_os = os, er_fleet = compute_fleet_anomaly_risk (Some (sd_cohort sd)) untrusted, er_network = network,
               er_aging = aging\<rparr>, ch, trends)))))))))"

definition prioritizer_values :: "engine_results \<Rightarrow> domain_values" where
  \<comment> \<open>\<open>domain_values\<close>\<close>
  "prioritizer_values r = [(''storage_risk'', sa_value (er_storage r)), (''os_degradation_risk'', ea_value (er_os r)),
     (''disk_fill_risk'', ea_value (er_fill r)), (''software_aging_risk'', ea_value (er_aging r))]"

definition hang_count :: "err_chain \<Rightarrow> int" where
  "hang_count c = (case dict_get (ec_counts c) ''app_hang'' of None \<Rightarrow> 0 | Some n \<Rightarrow> int n)"

subsection \<open>The block that is stored\<close>

definition health_index_of :: "jobj \<Rightarrow> jval res" where
  "health_index_of row = bindE (sub_object (JObj row) ''risk'') (\<lambda>risk. bindE (sub_object risk ''health'') (\<lambda>h. obj_get h ''index''))"

fun health_delta_7d :: "jobj list \<Rightarrow> pyfloat option \<Rightarrow> int \<Rightarrow> pyfloat option res" where
  \<comment> \<open>\<open>cutoff\<close>: seven days before now; the newest row before it gives the difference\<close>
  "health_delta_7d [] index cutoff = Inr None"
| "health_delta_7d (row # rows) index cutoff = (case index of None \<Rightarrow> Inr None
     | Some i \<Rightarrow> (case parse_iso (jget row ''ts'') of
         None \<Rightarrow> health_delta_7d rows index cutoff
       | Some t \<Rightarrow> if cutoff \<le> t then health_delta_7d rows index cutoff
           else bindE (health_index_of row) (\<lambda>older. if older = JNull then Inr None
             else bindE (raw_num older) (\<lambda>x. Inr (Some (fround 1 (fsub i x)))))))"

definition class_tag :: "stored_device \<Rightarrow> string \<Rightarrow> domain_state option" where
  \<comment> \<open>\<open>_annotate_class_trust\<close>, and every class unknown when the identity is\<close>
  "class_tag sd name = (if is_untrusted sd then Some D_UNKNOWN
     else case dict_get CLASS_DOMAIN name of None \<Rightarrow> None | Some dm \<Rightarrow> domain_of sd dm)"

record recomputed =
  rp_columns :: "(string \<times> pyfloat option) list"
  rp_engines :: engine_results
  rp_trends :: "(string, trend) dict"
  rp_chain :: err_chain
  rp_risk :: risk
  rp_tags :: "(string \<times> domain_state option) list"
  rp_regressed :: "string list"
  rp_verdict :: health_verdict
  rp_snapshot :: prev_health
  rp_delta :: "pyfloat option"

definition score_columns :: "day1_axes \<Rightarrow> (string \<times> pyfloat option) list" where
  \<comment> \<open>\<open>scores\<close>: the numbers of the older columns\<close>
  "score_columns d = [(''performance'', legacy_value (ax_performance d)), (''reliability'', legacy_value (ax_reliability d)),
     (''wear'', legacy_value (ax_wear d)), (''risk_exposure'', legacy_value (ax_risk_exposure d))]"

definition assemble :: "texts \<Rightarrow> (nat \<Rightarrow> int) \<Rightarrow> stored_device \<Rightarrow> engine_results \<Rightarrow> err_chain \<Rightarrow> (string, trend) dict \<Rightarrow> risk
    \<Rightarrow> recomputed res" where
  "assemble txt clock sd r ch trends risk =
     (let axes = score100_axes txt r;
          cohort = \<lparr>ct_size = Some (cs_size (sd_cohort sd)), ct_boot_p90 = cs_boot_p90 (sd_cohort sd)\<rparr>;
          verdict = compute_health axes (rk_top risk) trends (Some (chain_view_of ch)) (Some cohort) (sd_prev_health sd)
      in bindE (health_delta_7d (take TREND_HISTORY_LIMIT (sd_scores sd)) (ve_index verdict) (clock 4 - HEALTH_DELTA)) (\<lambda>delta.
         Inr \<lparr>rp_columns = score_columns (er_day1 r), rp_engines = r, rp_trends = trends, rp_chain = ch, rp_risk = risk,
           rp_tags = (if sd_trust sd = None then [] else map (\<lambda>c. (rc_name c, class_tag sd (rc_name c))) (rk_classes risk)),
           rp_regressed = (case sd_trust sd of None \<Rightarrow> [] | Some t \<Rightarrow> regressed_sources t),
           rp_verdict = verdict, rp_snapshot = stored_health verdict axes, rp_delta = delta\<rparr>))"

definition recompute_scores :: "(pyfloat \<Rightarrow> pyfloat) \<Rightarrow> (pyfloat \<Rightarrow> pyfloat) \<Rightarrow> (pyfloat list \<Rightarrow> pyfloat) \<Rightarrow> texts \<Rightarrow> (nat \<Rightarrow> int)
    \<Rightarrow> stored_device \<Rightarrow> recomputed option res" where
  "recompute_scores mexp mlog stdev txt clock sd =
     bindE (day1_part (clock 0) (sd_trust sd) (sd_inventory sd) (sd_historical sd) (sd_heartbeat sd)) (\<lambda>d. case d of
       None \<Rightarrow> Inr None
     | Some day1 \<Rightarrow> bindE (run_engines stdev clock sd day1) (\<lambda>(r, ch, trends).
         bindE (compute_risk mexp mlog (clock 3) (sd_inventory sd) (sd_historical sd) (sd_heartbeat sd) (Some (prioritizer_values r))
            (Some (hang_count ch)) (map_option class_trust (sd_trust sd)) (is_untrusted sd)) (\<lambda>risk.
         bindE (assemble txt clock sd r ch trends risk) (\<lambda>out. Inr (Some out)))))"

subsection \<open>What a stored block is made of\<close>

lemma recompute_parts:
  assumes "recompute_scores mexp mlog stdev txt clock sd = Inr (Some out)"
  obtains day1 r ch trends rk where
    "day1_part (clock 0) (sd_trust sd) (sd_inventory sd) (sd_historical sd) (sd_heartbeat sd) = Inr (Some day1)"
    "run_engines stdev clock sd day1 = Inr (r, ch, trends)"
    "compute_risk mexp mlog (clock 3) (sd_inventory sd) (sd_historical sd) (sd_heartbeat sd) (Some (prioritizer_values r))
       (Some (hang_count ch)) (map_option class_trust (sd_trust sd)) (is_untrusted sd) = Inr rk"
    "assemble txt clock sd r ch trends rk = Inr out"
  using assms unfolding recompute_scores_def by (auto split: option.splits)

definition stored_cohort :: "stored_device \<Rightarrow> cohort" where
  "stored_cohort sd = \<lparr>ct_size = Some (cs_size (sd_cohort sd)), ct_boot_p90 = cs_boot_p90 (sd_cohort sd)\<rparr>"

lemma assemble_parts:
  assumes "assemble txt clock sd r ch trends rk = Inr out"
  shows "rp_engines out = r" "rp_columns out = score_columns (er_day1 r)" "rp_risk out = rk" "rp_trends out = trends"
    "rp_verdict out = compute_health (score100_axes txt r) (rk_top rk) trends (Some (chain_view_of ch)) (Some (stored_cohort sd)) (sd_prev_health sd)"
    "rp_snapshot out = stored_health (rp_verdict out) (score100_axes txt r)"
  using assms by (auto simp: assemble_def stored_cohort_def Let_def)

lemma engines_parts:
  assumes "run_engines stdev clock sd day1 = Inr (r, ch, trends)"
  obtains cx where "er_day1 r = day1" "er_trajectory r = trajectory_risk_score trends (is_untrusted sd)"
    "compute_storage_risk (sd_historical sd) cx (is_untrusted sd) (domain_of sd ''storage'') = Inr (er_storage r)"
    "compute_disk_fill_risk (sd_heartbeats sd) (map JObj (take TREND_HISTORY_LIMIT (sd_events sd))) (is_untrusted sd)
       (domain_of sd ''disk_fill'') = Inr (er_fill r)"
    "compute_os_degradation_risk (sd_historical sd) (is_untrusted sd) (domain_of sd ''os_stability'') = Inr (er_os r)"
    "er_fleet r = compute_fleet_anomaly_risk (Some (sd_cohort sd)) (is_untrusted sd)"
    "compute_network_risk (sd_historical sd) (is_untrusted sd) (domain_of sd ''network'') = Inr (er_network r)"
    "compute_software_aging_risk (sd_heartbeats sd) (is_untrusted sd) = Inr (er_aging r)"
proof -
  from assms obtain key storage fill os network aging where parts:
    "compute_storage_risk (sd_historical sd) (storage_context sd (map_option (sd_disk_series sd) key) ch trends) (is_untrusted sd)
       (domain_of sd ''storage'') = Inr storage"
    "compute_disk_fill_risk (sd_heartbeats sd) (map JObj (take TREND_HISTORY_LIMIT (sd_events sd))) (is_untrusted sd)
       (domain_of sd ''disk_fill'') = Inr fill"
    "compute_os_degradation_risk (sd_historical sd) (is_untrusted sd) (domain_of sd ''os_stability'') = Inr os"
    "compute_network_risk (sd_historical sd) (is_untrusted sd) (domain_of sd ''network'') = Inr network"
    "compute_software_aging_risk (sd_heartbeats sd) (is_untrusted sd) = Inr aging"
    "r = \<lparr>er_day1 = day1, er_trajectory = trajectory_risk_score trends (is_untrusted sd), er_storage = storage, er_fill = fill,
       er_os = os, er_fleet = compute_fleet_anomaly_risk (Some (sd_cohort sd)) (is_untrusted sd), er_network = network, er_aging = aging\<rparr>"
    unfolding run_engines_def Let_def bindE_Inr_iff by (elim exE conjE) (simp only: Inr_inject prod.inject, blast)
  then show ?thesis by (intro that) simp_all
qed

lemma axis_lookup:
  "ax (score100_axes txt r) ''storage_risk'' = storage_haxis (txt \<circ> AL_Storage) (er_storage r)"
  "ax (score100_axes txt r) ''os_degradation_risk'' = engine_haxis (txt \<circ> AL_Os) (er_os r)"
  "ax (score100_axes txt r) ''software_aging_risk'' = aging_haxis txt (er_aging r)"
  "ax (score100_axes txt r) ''trajectory_risk'' = trajectory_haxis txt (er_trajectory r)"
  by (simp_all add: score100_axes_def ax_def)

lemma haxis_values [simp]: "hx_value (engine_haxis f a) = ea_value a" "hx_value (aging_haxis txt g) = ea_value g"
  "hx_value (storage_haxis h s) = sa_value s" "hx_value (trajectory_haxis txt t) = ty_value t" "hx_value (day1_haxis ff d) = sc_value d"
  by (simp_all add: engine_haxis_def aging_haxis_def storage_haxis_def trajectory_haxis_def day1_haxis_def plain_axis_def Let_def)

lemma storage_silent:
  assumes "compute_storage_risk hist cx u d = Inr a" "u \<or> d = Some D_UNKNOWN"
  shows "sa_value a = None"
  using assms by (auto simp: compute_storage_risk_def axis_withheld_def split: if_splits option.splits)

subsection \<open>No verdict without a trusted source\<close>

lemma damage_silent:
  assumes "sa_value (er_storage r) = None" "ea_value (er_os r) = None"
  shows "ve_state (compute_health (score100_axes txt r) b trends evs cohort prev) = HUnknown"
  using assms by (simp add: known_iff damage_def damage_channels_def axis_lookup no_coordinate_def Let_def)

lemma day1_axes_of:
  assumes "day1_part now trust inventory hist hb = Inr (Some day1)"
  obtains d cd where "day1 = compute_day1_score100 d (inventory \<noteq> None) (hist \<noteq> None) (hb \<noteq> None) trust
    (case trust of None \<Rightarrow> False | Some t \<Rightarrow> device_untrusted t) cd"
  using assms unfolding day1_part_def Let_def case_prod_unfold by (auto simp: bindE_Inr_iff split: if_splits)

lemma untrusted_day1:
  assumes "day1_part now (sd_trust sd) i h b = Inr (Some day1)" "is_untrusted sd"
  shows "sc_value (ax_performance day1) = None" "sc_value (ax_reliability day1) = None" "sc_value (ax_wear day1) = None"
    "sc_value (ax_risk_exposure day1) = None"
proof -
  from assms(2) obtain t where t: "sd_trust sd = Some t" "device_untrusted t" by (auto simp: is_untrusted_def split: option.splits)
  obtain d cd where d: "day1 = compute_day1_score100 d (i \<noteq> None) (h \<noteq> None) (b \<noteq> None) (Some t) True cd"
    using assms(1) t by (auto elim!: day1_axes_of)
  show "sc_value (ax_performance day1) = None" "sc_value (ax_reliability day1) = None" "sc_value (ax_wear day1) = None"
    "sc_value (ax_risk_exposure day1) = None" by (simp_all add: d compute_day1_score100_def gate_axis_value)
qed

lemma untrusted_axes:
  assumes "day1_part (clock 0) (sd_trust sd) i h b = Inr (Some day1)" "run_engines stdev clock sd day1 = Inr (r, ch, trends)" "is_untrusted sd"
  shows "list_all (\<lambda>(n, a). hx_value a \<noteq> None \<longrightarrow> n = ''observability'') (score100_axes txt r)"
    "list_all (\<lambda>(n, v). v = None) (score_columns (er_day1 r))"
proof -
  from assms(2) obtain cx where e: "er_day1 r = day1" "er_trajectory r = trajectory_risk_score trends True"
    "compute_storage_risk (sd_historical sd) cx True (domain_of sd ''storage'') = Inr (er_storage r)"
    "compute_disk_fill_risk (sd_heartbeats sd) (map JObj (take TREND_HISTORY_LIMIT (sd_events sd))) True (domain_of sd ''disk_fill'') = Inr (er_fill r)"
    "compute_os_degradation_risk (sd_historical sd) True (domain_of sd ''os_stability'') = Inr (er_os r)"
    "er_fleet r = compute_fleet_anomaly_risk (Some (sd_cohort sd)) True"
    "compute_network_risk (sd_historical sd) True (domain_of sd ''network'') = Inr (er_network r)"
    "compute_software_aging_risk (sd_heartbeats sd) True = Inr (er_aging r)"
    using assms(3) by (auto elim: engines_parts)
  have v: "sa_value (er_storage r) = None" "ea_value (er_fill r) = None" "ea_value (er_os r) = None" "ea_value (er_fleet r) = None"
    "ea_value (er_network r) = None" "ea_value (er_aging r) = None" "ty_value (er_trajectory r) = None"
    using storage_silent[OF e(3)] os.untrusted_withheld[OF e(5)] network.untrusted_withheld[OF e(7)] aging.untrusted_withheld[OF e(8)]
      fill.untrusted_withheld[of "(sd_heartbeats sd, map JObj (take TREND_HISTORY_LIMIT (sd_events sd)))"] e(4)
      fleet.untrusted_withheld[of "Some (sd_cohort sd)"] e(6)
    by (simp_all add: e(2) trajectory_risk_score_def)
  note d = untrusted_day1[OF assms(1,3)]
  show "list_all (\<lambda>(n, a). hx_value a \<noteq> None \<longrightarrow> n = ''observability'') (score100_axes txt r)"
    unfolding score100_axes_def e(1) list.pred_inject prod.case haxis_values v d by simp
  show "list_all (\<lambda>(n, v). v = None) (score_columns (er_day1 r))" by (simp add: score_columns_def legacy_value_def e(1) d)
qed

text \<open>C4: There is no verdict without a trusted source.  When the identity of a machine fails its gate, no axis shows a number except the one
  that says how much is seen, the older columns hold none, no class of the prioritizer has a probability and the state is unknown; it is unknown too when the
  domains of the disk and of the operating system fail theirs, whatever the other engines say.\<close>
theorem no_verdict_without_trust:
  assumes "recompute_scores mexp mlog stdev txt clock sd = Inr (Some out)"
  shows "(is_untrusted sd \<or> domain_of sd ''storage'' = Some D_UNKNOWN \<and> domain_of sd ''os_stability'' = Some D_UNKNOWN \<longrightarrow>
      ve_state (rp_verdict out) = HUnknown) \<and>
    (is_untrusted sd \<longrightarrow> list_all (\<lambda>(n, a). hx_value a \<noteq> None \<longrightarrow> n = ''observability'') (score100_axes txt (rp_engines out)) \<and>
      list_all (\<lambda>(n, v). v = None) (rp_columns out) \<and> list_all (\<lambda>c. rc_probability c = None) (rk_classes (rp_risk out)))"
proof -
  from assms obtain day1 r ch trends rk where p:
    "day1_part (clock 0) (sd_trust sd) (sd_inventory sd) (sd_historical sd) (sd_heartbeat sd) = Inr (Some day1)"
    "run_engines stdev clock sd day1 = Inr (r, ch, trends)"
    "compute_risk mexp mlog (clock 3) (sd_inventory sd) (sd_historical sd) (sd_heartbeat sd) (Some (prioritizer_values r))
       (Some (hang_count ch)) (map_option class_trust (sd_trust sd)) (is_untrusted sd) = Inr rk"
    "assemble txt clock sd r ch trends rk = Inr out" by (rule recompute_parts)
  note out = assemble_parts[OF p(4)]
  from p(2) obtain cx where e: "compute_storage_risk (sd_historical sd) cx (is_untrusted sd) (domain_of sd ''storage'') = Inr (er_storage r)"
    "compute_os_degradation_risk (sd_historical sd) (is_untrusted sd) (domain_of sd ''os_stability'') = Inr (er_os r)"
    by (auto elim: engines_parts)
  have "ve_state (rp_verdict out) = HUnknown"
    if "is_untrusted sd \<or> domain_of sd ''storage'' = Some D_UNKNOWN \<and> domain_of sd ''os_stability'' = Some D_UNKNOWN"
    using that storage_silent[OF e(1)] e(2) os.untrusted_withheld os.gate unfolding out(5) by (intro damage_silent) auto
  moreover have "list_all (\<lambda>(n, a). hx_value a \<noteq> None \<longrightarrow> n = ''observability'') (score100_axes txt r)" if "is_untrusted sd"
    using untrusted_axes(1)[OF p(1,2) that] .
  moreover have "list_all (\<lambda>c. rc_probability c = None) (rk_classes rk)" if "is_untrusted sd"
    using p(3) that by (simp add: compute_risk_def withheld_def list_all_iff) auto
  ultimately show ?thesis using untrusted_axes(2)[OF p(1,2)] by (simp add: out(1-3))
qed

definition identity_ok :: "(string, source_trust) dict \<Rightarrow> bool" where
  \<comment> \<open>a machine none of whose messages has judged the identity is let through\<close>
  "identity_ok m \<longleftrightarrow> dict_get m ''identity'' = None \<or> source_ok m ''identity''"

lemma built_identity: "device_untrusted (build_trust_blob m lg) \<longleftrightarrow> \<not> identity_ok m"
proof -
  have "dict_get (map (\<lambda>(src, st). (src, f src st)) m) k = map_option (f k) (dict_get m k)" for f :: "string \<Rightarrow> source_trust \<Rightarrow> source_out" and k
    by (induction m) (auto simp: dict_simps)
  then show ?thesis
    by (auto simp: device_untrusted_def build_trust_blob_def identity_ok_def source_ok_def passes_gate_def split: option.split)
qed

text \<open>C28: In the stored scores a class names a probability just when what it rests on is trusted.  With a record of trust, every class needs
  the identity of the machine, which passes too while nothing has judged it, and next to it storage needs the disk's reliability counters,
  power and heat the throttling reading, and stability the reliability records to pass their gates; memory rests on the identity alone.
  Without a record of trust every class names one.\<close>
theorem class_withheld_unless_trusted:
  assumes "recompute_scores mexp mlog stdev txt clock sd = Inr (Some out)" "exp_ok mexp" "log_ok mlog"
    "sd_trust sd = map_option (\<lambda>(m, lg). build_trust_blob m lg) verdicts"
  shows "case verdicts of
      None \<Rightarrow> list_all (\<lambda>c. probability_of (rp_risk out) c \<noteq> None) ALL_CLASS_NAMES
    | Some (m, lg) \<Rightarrow>
       (probability_of (rp_risk out) ''storage'' \<noteq> None \<longleftrightarrow> identity_ok m \<and> source_ok m ''storage_reliability'') \<and>
       (probability_of (rp_risk out) ''power_thermal'' \<noteq> None \<longleftrightarrow> identity_ok m \<and> source_ok m ''throttle'') \<and>
       (probability_of (rp_risk out) ''stability'' \<noteq> None \<longleftrightarrow> identity_ok m \<and> source_ok m ''reliability'') \<and>
       (probability_of (rp_risk out) ''memory'' \<noteq> None \<longleftrightarrow> identity_ok m)"
proof -
  from assms(1) obtain day1 r ch trends rk where p:
    "compute_risk mexp mlog (clock 3) (sd_inventory sd) (sd_historical sd) (sd_heartbeat sd) (Some (prioritizer_values r))
       (Some (hang_count ch)) (map_option class_trust (sd_trust sd)) (is_untrusted sd) = Inr rk"
    "assemble txt clock sd r ch trends rk = Inr out" by (rule recompute_parts)
  note numbers = class_numbers[OF p(1) assms(2,3)]
  have rk: "rp_risk out = rk" by (rule assemble_parts(3)[OF p(2)])
  show ?thesis
  proof (cases verdicts)
    case None
    then have "sd_trust sd = None" using assms(4) by simp
    then show ?thesis using numbers None by (auto simp: rk list_all_iff is_untrusted_def ungated)
  next
    case (Some v)
    obtain m lg where v: "v = (m, lg)" by (cases v)
    have t: "sd_trust sd = Some (build_trust_blob m lg)" using assms(4) Some v by simp
    then have u: "is_untrusted sd \<longleftrightarrow> \<not> identity_ok m" by (simp add: is_untrusted_def built_identity)
    have g: "class_gated ''storage'' (Some (class_trust (build_trust_blob m lg))) \<longleftrightarrow> \<not> source_ok m ''storage_reliability''"
      "class_gated ''power_thermal'' (Some (class_trust (build_trust_blob m lg))) \<longleftrightarrow> \<not> source_ok m ''throttle''"
      "class_gated ''stability'' (Some (class_trust (build_trust_blob m lg))) \<longleftrightarrow> \<not> source_ok m ''reliability''"
      using class_gated_domain[OF class_domains(1) domain_sources(2)] class_gated_domain[OF class_domains(2) domain_sources(4)]
        class_gated_domain[OF class_domains(3) domain_sources(1)] by blast+
    show ?thesis using numbers[of "''storage''"] numbers[of "''power_thermal''"] numbers[of "''stability''"] numbers[of "''memory''"] g
      by (simp add: Some v rk t u ALL_CLASS_NAMES_def)
  qed
qed


definition accounted :: "('l, 'm, 's) engine_axis \<Rightarrow> bool" where
  \<comment> \<open>a number is the clamped sum of its factors, an alarm has one, and what is withheld shows nothing\<close>
  "accounted a \<longleftrightarrow> (case ea_value a of
       None \<Rightarrow> ea_factors a = [] \<and> ea_band a = NoBand
     | Some v \<Rightarrow> ranged 0 100 v \<and> v = clamp (fsum (map snd (ea_factors a))) 0 100 \<and> ea_band a = band_for_risk_score (Some v))"

lemma sound_accounted: "sound_axis a \<Longrightarrow> accounted a"
  by (auto simp: sound_axis_def accounted_def tally_ok_def band_for_risk_score_def split: option.splits)

text \<open>C20: Every number of the five smaller engines can be accounted for: it is the sum of the points of the factors that are shown with it, cut
  off at 0 and at 100, so that the breakdown an operator reads is complete even where the points shown add up to more than 100; its colour is
  the one of the number, and an axis that is withheld shows no factor and no colour.\<close>
theorem engines_account_for_their_numbers:
  assumes "recompute_scores mexp mlog stdev txt clock sd = Inr (Some out)"
  shows "accounted (er_fill (rp_engines out)) \<and> accounted (er_os (rp_engines out)) \<and> accounted (er_fleet (rp_engines out)) \<and>
    accounted (er_network (rp_engines out)) \<and> accounted (er_aging (rp_engines out))"
proof -
  from assms obtain day1 r ch trends rk where p: "run_engines stdev clock sd day1 = Inr (r, ch, trends)"
    "assemble txt clock sd r ch trends rk = Inr out" by (rule recompute_parts)
  have "sound_axis (er_fill r)" "sound_axis (er_os r)" "sound_axis (er_fleet r)" "sound_axis (er_network r)" "sound_axis (er_aging r)"
    using p(1) fill.sound[of "(sd_heartbeats sd, map JObj (take TREND_HISTORY_LIMIT (sd_events sd)))"] os.sound fleet.sound network.sound aging.sound
    by (auto elim!: engines_parts)
  then show ?thesis by (simp add: assemble_parts(1)[OF p(2)] sound_accounted)
qed

subsection \<open>A machine known only by its inventory\<close>

definition silent_cohort :: cohort_stats where
  "silent_cohort = \<lparr>cs_size = 0, cs_bsod = Fin 0, cs_kp41 = Fin 0, cs_rsi_low = Fin 0, cs_boot_p90 = None, cs_site_size = 0,
     cs_site_kp41 = Fin 0\<rparr>"

definition quiet_device :: "jobj option \<Rightarrow> jobj option \<Rightarrow> trust_blob option \<Rightarrow> stored_device" where
  "quiet_device i b t = \<lparr>sd_inventory = i, sd_historical = None, sd_heartbeat = b, sd_trust = t, sd_history = [], sd_heartbeats = [],
     sd_disk_series = \<lambda>_. [], sd_events = [], sd_rollups = [], sd_rule_stats = [], sd_cohort = silent_cohort,
     sd_prev_health = None, sd_scores = []\<rparr>"

definition blank :: "jobj option \<Rightarrow> bool" where
  \<comment> \<open>no packet, or one without a reading\<close>
  "blank p \<longleftrightarrow> p = None \<or> p = Some []"

definition stranger :: trust_blob where
  \<comment> \<open>a machine whose identity has failed\<close>
  "stranger = build_trust_blob [(''identity'', \<lparr>st_source = ''identity'', st_state = S_UNAVAILABLE, st_weight = 0,
     st_collector = C_BLOCKED, st_semantic = UNCHECKED, st_reason = RNone\<rparr>)] []"

lemma stranger_untrusted: "device_untrusted stranger"
  by (simp add: device_untrusted_def stranger_def build_trust_blob_def GATE_PASS_def dict_simps)

lemma quiet_day1:
  assumes "t = None \<or> t = Some stranger" "blank i" "blank b" "i \<noteq> None \<or> b \<noteq> None"
  shows "\<exists>d. day1_part now t i None b = Inr (Some d)"
proof -
  define p where "p = blank_untrusted_inputs (case t of None \<Rightarrow> [] | Some t \<Rightarrow> tb_domains t) b None"
  have "snd p = [] \<or> snd p = [(''storage'', JNull)]" "fst p = [] \<or> fst p = [(''free_space_pct'', JNull)]" "i = None \<or> i = Some []"
    using assms(2,3) by (auto simp: p_def blank_def blank_untrusted_inputs_def)
  then have "contract_readings i (Some (snd p)) (Some (fst p))"
    by (elim disjE) (simp_all add: contract_readings_def reading_def date_text_def jget_def)
  then obtain d where "compute_day1_scores now i (Some (snd p)) (Some (fst p)) = Inr d" using day1_total by blast
  moreover have "clock_drift_of b = Inr False" using assms(3) by (auto simp: blank_def clock_drift_of_def jget_def)
  ultimately show ?thesis using assms(4) by (auto simp: day1_part_def Let_def p_def case_prod_unfold)
qed

lemma quiet_field: "blank p \<Longrightarrow> num_field p k = Inr None"
  by (auto simp: blank_def num_field_def jget_def)

lemma quiet_risk:
  assumes "blank i" "blank b"
  shows "\<exists>r. compute_risk mexp mlog now i None b dv h trust u = Inr r"
proof -
  have none: "num_field None k = Inr None" for k by (simp add: num_field_def)
  note fields = none quiet_field[OF assms(1)] quiet_field[OF assms(2)]
  have age: "device_age_years now i = Inr None"
    using assms(1) by (auto simp: blank_def device_age_years_def older_def jget_def parse_date_def)
  have "\<exists>c. storage_class mexp mlog None b None dv trust = Inr c"
    by (cases "class_gated ''storage'' trust") (simp_all add: storage_class_def first_disk_def disk_values_def
      wear_evidence_def realloc_evidence_def power_on_evidence_def fields Let_def)
  moreover have "\<exists>c. power_class mexp mlog None b trust = Inr c"
    by (cases "class_gated ''power_thermal'' trust") (simp_all add: power_class_def fields per_event_def)
  moreover have "\<exists>c. memory_class mexp mlog None b = Inr c"
    by (simp add: memory_class_def fields Let_def)
  moreover have "\<exists>c. stability_class mexp mlog i None dv h trust = Inr c"
    by (cases "class_gated ''stability'' trust") (simp_all add: stability_class_def fields per_event_def crash_evidence_def Let_def)
  ultimately show ?thesis by (cases u) (auto simp: compute_risk_def age)
qed

lemma quiet_trends: "\<exists>t. compute_trends [] [] None now = Inr t"
  by (simp add: compute_trends_def build_trend_def to_points_def trend_of_points_def MIN_POINTS_def anchor_recent_segment_def sort_asc_def sort_desc_def Let_def)

lemma quiet_events: "\<exists>c. analyze_events stdev [] now (Some []) = Inr c"
  by (simp add: analyze_events_def read_events_def rollup_weeks_def)

lemma quiet_key: "worst_disk_key None = Inr None"
  by (simp add: worst_disk_key_def disks_of_def)

lemma quiet_axes: "\<exists>a. compute_storage_risk None cx u d = Inr a" "\<exists>a. compute_disk_fill_risk [] [] u d = Inr a"
  "\<exists>a. compute_os_degradation_risk None u d = Inr a" "\<exists>a. compute_network_risk None u d = Inr a"
  "\<exists>a. compute_software_aging_risk [] u = Inr a"
  subgoal by (simp add: compute_storage_risk_def disks_of_def)
  subgoal by (simp add: compute_disk_fill_risk_def free_space_samples_def free_rows_def dated_def Let_def)
  subgoal by (simp add: compute_os_degradation_risk_def hist_num_def Let_def)
  subgoal by (simp add: compute_network_risk_def rows_of_def Let_def)
  subgoal by (simp add: compute_software_aging_risk_def split_sessions_def sessions_of_def MIN_SESSION_POINTS_def Let_def)
  done

lemma quiet_scored:
  assumes "t = None \<or> t = Some stranger" "blank i" "blank b" "i \<noteq> None \<or> b \<noteq> None"
  shows "\<exists>out. recompute_scores mexp mlog stdev txt clock (quiet_device i b t) = Inr (Some out)"
proof -
  let ?sd = "quiet_device i b t"
  obtain d where d: "day1_part (clock 0) (sd_trust ?sd) (sd_inventory ?sd) (sd_historical ?sd) (sd_heartbeat ?sd) = Inr (Some d)"
    using quiet_day1[OF assms] by (auto simp: quiet_device_def)
  have "\<exists>r. run_engines stdev clock ?sd d = Inr r"
    unfolding run_engines_def Let_def quiet_device_def stored_device.simps list.map take_Nil quiet_key bindE.simps option.map
    by (intro total_bind quiet_trends quiet_events quiet_axes) simp_all
  then obtain r ch trends where e: "run_engines stdev clock ?sd d = Inr (r, ch, trends)" by auto
  obtain rk where k: "compute_risk mexp mlog (clock 3) (sd_inventory ?sd) (sd_historical ?sd) (sd_heartbeat ?sd) (Some (prioritizer_values r))
       (Some (hang_count ch)) (map_option class_trust (sd_trust ?sd)) (is_untrusted ?sd) = Inr rk"
    using quiet_risk[OF assms(2,3)] by (simp add: quiet_device_def) blast
  show ?thesis unfolding recompute_scores_def d bindE.simps option.case e prod.case k assemble_def Let_def
    by (simp add: quiet_device_def)
qed


theorem no_verdict_without_trust_witness:
  "\<exists>out. recompute_scores (\<lambda>_. Fin 1) (\<lambda>_. Fin 0) (\<lambda>_. Fin 0) (\<lambda>_. []) (\<lambda>_. 0) (quiet_device (Some []) None (Some stranger)) = Inr (Some out) \<and>
     ve_state (rp_verdict out) = HUnknown \<and> list_all (\<lambda>c. rc_probability c = None) (rk_classes (rp_risk out))"
proof -
  obtain out where o1: "recompute_scores (\<lambda>_. Fin 1) (\<lambda>_. Fin 0) (\<lambda>_. Fin 0) (\<lambda>_. []) (\<lambda>_. 0) (quiet_device (Some []) None (Some stranger)) = Inr (Some out)"
    using quiet_scored[of "Some stranger" "Some []" None] by (simp add: blank_def) blast
  moreover have "is_untrusted (quiet_device (Some []) None (Some stranger))" by (simp add: is_untrusted_def quiet_device_def stranger_untrusted)
  ultimately show ?thesis using no_verdict_without_trust[OF o1] by blast
qed

theorem class_withheld_unless_trusted_witness:
  "(\<exists>out. recompute_scores (\<lambda>_. Fin 1) (\<lambda>_. Fin 0) (\<lambda>_. Fin 0) (\<lambda>_. []) (\<lambda>_. 0) (quiet_device (Some []) None None) = Inr (Some out) \<and>
      list_all (\<lambda>c. probability_of (rp_risk out) c \<noteq> None) ALL_CLASS_NAMES) \<and>
   (\<exists>out. recompute_scores (\<lambda>_. Fin 1) (\<lambda>_. Fin 0) (\<lambda>_. Fin 0) (\<lambda>_. []) (\<lambda>_. 0) (quiet_device (Some []) None (Some stranger)) = Inr (Some out) \<and>
      probability_of (rp_risk out) ''memory'' = None)"
proof -
  have ok: "exp_ok (\<lambda>_. Fin 1)" "log_ok (\<lambda>_. Fin 0)" by (simp_all add: exp_ok_def log_ok_def ranged_def)
  have scored: "\<exists>out. recompute_scores (\<lambda>_. Fin 1) (\<lambda>_. Fin 0) (\<lambda>_. Fin 0) (\<lambda>_. []) (\<lambda>_. 0) (quiet_device (Some []) None t) = Inr (Some out)"
    if "t = None \<or> t = Some stranger" for t using quiet_scored[OF that, of "Some []" None] by (simp add: blank_def)
  from scored[of None] obtain o1 where o1: "recompute_scores (\<lambda>_. Fin 1) (\<lambda>_. Fin 0) (\<lambda>_. Fin 0) (\<lambda>_. []) (\<lambda>_. 0)
    (quiet_device (Some []) None None) = Inr (Some o1)" by blast
  from scored[of "Some stranger"] obtain o2 where o2: "recompute_scores (\<lambda>_. Fin 1) (\<lambda>_. Fin 0) (\<lambda>_. Fin 0) (\<lambda>_. []) (\<lambda>_. 0)
    (quiet_device (Some []) None (Some stranger)) = Inr (Some o2)" by blast
  let ?m = "[(''identity'', \<lparr>st_source = ''identity'', st_state = S_UNAVAILABLE, st_weight = 0,
     st_collector = C_BLOCKED, st_semantic = UNCHECKED, st_reason = RNone\<rparr>)]"
  have "\<not> identity_ok ?m" by (simp add: identity_ok_def source_ok_def passes_gate_def GATE_PASS_def dict_simps)
  then have "probability_of (rp_risk o2) ''memory'' = None"
    using class_withheld_unless_trusted[OF o2 ok, of "Some (?m, [])"] by (simp add: quiet_device_def stranger_def)
  moreover have "list_all (\<lambda>c. probability_of (rp_risk o1) c \<noteq> None) ALL_CLASS_NAMES"
    using class_withheld_unless_trusted[OF o1 ok, of None] by (simp add: quiet_device_def)
  ultimately show ?thesis using o1 o2 by blast
qed

theorem engines_account_for_their_numbers_witness:
  "\<exists>out. recompute_scores (\<lambda>_. Fin 1) (\<lambda>_. Fin 0) (\<lambda>_. Fin 0) (\<lambda>_. []) (\<lambda>_. 0) (quiet_device (Some []) None None) = Inr (Some out) \<and>
     accounted (er_fleet (rp_engines out))"
proof -
  obtain out where o1: "recompute_scores (\<lambda>_. Fin 1) (\<lambda>_. Fin 0) (\<lambda>_. Fin 0) (\<lambda>_. []) (\<lambda>_. 0) (quiet_device (Some []) None None) = Inr (Some out)"
    using quiet_scored[of None "Some []" None] by (simp add: blank_def) blast
  with engines_account_for_their_numbers[OF o1] show ?thesis by blast
qed

text \<open>C25: The channel for the inventory is meant to say whether the machine has sent one, but it looks for a number on any axis, and the axis
  that measures the visibility itself always has one: no machine without a record of trust is ever told that its inventory is missing.\<close>
theorem inventory_never_blind:
  assumes "recompute_scores mexp mlog stdev txt clock sd = Inr (Some out)" "sd_trust sd = None"
  shows "B_Inventory \<notin> set (ve_blind (rp_verdict out))"
proof -
  from assms(1) obtain day1 r ch trends rk where p:
    "day1_part (clock 0) (sd_trust sd) (sd_inventory sd) (sd_historical sd) (sd_heartbeat sd) = Inr (Some day1)"
    "run_engines stdev clock sd day1 = Inr (r, ch, trends)" "assemble txt clock sd r ch trends rk = Inr out" by (rule recompute_parts)
  have "sc_value (ax_observability day1) = Some (Fin 20)"
    using p(1) assms(2) by (auto elim!: day1_axes_of simp: compute_day1_score100_def compute_observability_score_def make_score100_def)
  moreover have "er_day1 r = day1" using p(2) by (auto elim: engines_parts)
  ultimately have "list_ex (\<lambda>(n, a). hx_value a \<noteq> None) (score100_axes txt r)" by (simp add: score100_axes_def)
  then show ?thesis
    unfolding assemble_parts(5)[OF p(3)] verdict_observability by (simp add: observability_def obs_channels_def Let_def)
qed


theorem inventory_never_blind_witness:
  "\<exists>out. recompute_scores (\<lambda>_. Fin 1) (\<lambda>_. Fin 0) (\<lambda>_. Fin 0) (\<lambda>_. []) (\<lambda>_. 0) (quiet_device None (Some []) None) = Inr (Some out) \<and>
     B_Inventory \<notin> set (ve_blind (rp_verdict out))"
proof -
  obtain out where o1: "recompute_scores (\<lambda>_. Fin 1) (\<lambda>_. Fin 0) (\<lambda>_. Fin 0) (\<lambda>_. []) (\<lambda>_. 0) (quiet_device None (Some []) None) = Inr (Some out)"
    using quiet_scored[of None None "Some []"] by (simp add: blank_def) blast
  with inventory_never_blind[OF o1] show ?thesis by (simp add: quiet_device_def)
qed

end
