(* ===== verification/ScoreHistory.thy ===== *)
theory ScoreHistory imports RowLog Recompute begin

text \<open>
  The history of scores in \<open>server/db.py\<close>: a verdict is kept whole for the newest rows of a machine and cut down to what the readers of
  old rows use for the rest.  The readers are the scan of the rules' outcomes (\<open>rulestats.py\<close>) and the seven-day difference of the
  health index (\<open>pipeline.py\<close>).
\<close>

subsection \<open>Rows\<close>

datatype risk_json = RJ_Null | RJ_Broken | RJ jval
  \<comment> \<open>the text of the column: missing, no JSON, or JSON\<close>

record stored_score =
  ss_ts :: string
  ss_performance :: "pyfloat option"
  ss_reliability :: "pyfloat option"
  ss_wear :: "pyfloat option"
  ss_risk_exposure :: "pyfloat option"
  ss_risk :: risk_json

type_synonym score_log = "(string, stored_score) log"

definition SCORES_KEEP_FULL :: nat where "SCORES_KEEP_FULL = 10"

definition only_obj :: "jval \<Rightarrow> jobj" where
  \<comment> \<open>\<open>_d\<close>\<close>
  "only_obj v = (case v of JObj d \<Rightarrow> d | _ \<Rightarrow> [])"

definition slim_risk :: "jobj \<Rightarrow> jobj" where
  "slim_risk risk =
     (let storage = only_obj (jget (only_obj (jget risk ''score100'')) ''storage_risk'')
      in [(''slim'', JInt 1), (''health'', jget risk ''health''),
          (''score100'', JObj [(''storage_risk'', JObj [(''band'', jget storage ''band''),
             (''coords'', JObj [(''flags'', jget (only_obj (jget storage ''coords'')) ''flags'')])])]),
          (''errchain'', JObj [(''stage'', case dict_get (only_obj (jget risk ''errchain'')) ''stage'' of None \<Rightarrow> JInt 0 | Some s \<Rightarrow> s)])])"

definition slim_row :: "stored_score \<Rightarrow> stored_score" where
  \<comment> \<open>a row without a readable verdict, or one cut already, stays\<close>
  "slim_row s = (case ss_risk s of
       RJ (JObj d) \<Rightarrow> if py_eq (jget d ''slim'') (JInt 1) then s else s\<lparr>ss_risk := RJ (JObj (slim_risk d))\<rparr>
     | _ \<Rightarrow> s)"

definition slim_stale_scores :: "string \<Rightarrow> score_log \<Rightarrow> score_log" where
  "slim_stale_scores did t = modify_newest SCORES_KEEP_FULL did slim_row t"

definition store_scores :: "nat \<Rightarrow> string \<Rightarrow> stored_score \<Rightarrow> score_log \<Rightarrow> score_log" where
  "store_scores cap did s t = slim_stale_scores did (append_row cap did s t)"

definition load_risk :: "risk_json \<Rightarrow> jobj" where
  "load_risk r = (case r of RJ (JObj d) \<Rightarrow> d | _ \<Rightarrow> [])"

definition score_obj :: "stored_score \<Rightarrow> jobj" where
  "score_obj s = (let num = (\<lambda>x. case x of None \<Rightarrow> JNull | Some f \<Rightarrow> JFloat f)
     in [(''ts'', JStr (ss_ts s)), (''performance'', num (ss_performance s)), (''reliability'', num (ss_reliability s)),
         (''wear'', num (ss_wear s)), (''risk_exposure'', num (ss_risk_exposure s)), (''risk'', JObj (load_risk (ss_risk s)))])"

definition get_score_series :: "nat \<Rightarrow> string option \<Rightarrow> string \<Rightarrow> score_log \<Rightarrow> jobj list" where
  "get_score_series limit since_ts did t =
     map score_obj (take limit (filter (\<lambda>s. case since_ts of None \<Rightarrow> True | Some x \<Rightarrow> x \<le> ss_ts s) (newest did t)))"

subsection \<open>What the readers see\<close>

definition same_reading :: "jobj \<Rightarrow> jobj \<Rightarrow> bool" where
  \<comment> \<open>where the first row can be read the second reads the same\<close>
  "same_reading a b \<longleftrightarrow> jget b ''ts'' = jget a ''ts'' \<and> (\<forall>fs. row_flags a = Inr fs \<longrightarrow> row_flags b = Inr fs) \<and>
     (\<forall>x. confirms a = Inr x \<longrightarrow> confirms b = Inr x) \<and> (\<forall>h. health_index_of a = Inr h \<longrightarrow> health_index_of b = Inr h)"

lemma same_reading_refl: "same_reading a a"
  by (simp add: same_reading_def)

lemma sub_object_obj: "sub_object (JObj d) k = Inr (let v = jget d k in if truthy v then v else JObj [])"
  by (simp add: sub_object_def Let_def)

lemma falsy_obj: "\<not> truthy v \<Longrightarrow> only_obj v = []"
  by (cases v) (simp_all add: only_obj_def)

lemma obj_get_truthy: "bindE (obj_get (if truthy v then v else JObj []) k) f = Inr x \<Longrightarrow> f (jget (only_obj v) k) = Inr x"
  by (cases v) (auto simp: only_obj_def jget_def split: if_splits)

lemma sub_truthy: "bindE (sub_object (if truthy v then v else JObj []) k) f = Inr x \<Longrightarrow>
    f (let w = jget (only_obj v) k in if truthy w then w else JObj []) = Inr x"
  by (cases v) (auto simp: only_obj_def jget_def sub_object_def Let_def split: if_splits)


definition storage_part :: "jobj \<Rightarrow> jobj" where
  "storage_part d = only_obj (jget (only_obj (jget d ''score100'')) ''storage_risk'')"

definition flags_part :: "jobj \<Rightarrow> jval list" where
  "flags_part d = (case jget (only_obj (jget (storage_part d) ''coords'')) ''flags'' of JList fs \<Rightarrow> fs | _ \<Rightarrow> [])"

definition stage_part :: "jobj \<Rightarrow> jval" where
  "stage_part d = (case dict_get (only_obj (jget d ''errchain'')) ''stage'' of None \<Rightarrow> JInt 0 | Some x \<Rightarrow> x)"

definition confirms_part :: "jobj \<Rightarrow> bool" where
  "confirms_part d \<longleftrightarrow> (case raw_num (stage_part d) of Inr x \<Rightarrow> fle (Fin 2) x | Inl _ \<Rightarrow> False) \<or>
     py_eq (jget (storage_part d) ''band'') (JStr ''bad'')"

lemma risk_of_row: "sub_object (JObj (score_obj s)) ''risk'' = Inr (JObj (load_risk (ss_risk s)))"
  by (cases "load_risk (ss_risk s)") (simp_all add: sub_object_obj score_obj_def jget_def Let_def)

lemma flags_read: "row_flags (score_obj s) = Inr fs \<Longrightarrow> fs = flags_part (load_risk (ss_risk s))"
  unfolding row_flags_def risk_of_row bindE.simps unfolding sub_object_obj bindE.simps Let_def
  by (drule sub_truthy, unfold Let_def, drule sub_truthy, unfold Let_def, drule obj_get_truthy)
    (simp add: flags_part_def storage_part_def)

lemma chain_stage_read: "(case if truthy v then v else JObj [] of JObj d \<Rightarrow> Inr (case dict_get d ''stage'' of None \<Rightarrow> JInt 0 | Some s \<Rightarrow> s) | _ \<Rightarrow> Inl AttributeError) = Inr x
    \<Longrightarrow> x = (case dict_get (only_obj v) ''stage'' of None \<Rightarrow> JInt 0 | Some s \<Rightarrow> s)"
  by (cases v) (auto simp: only_obj_def split: if_splits)

lemma stage_ok: "(case raw_num g of Inr x \<Rightarrow> Inr (fle (Fin 2) x) | Inl _ \<Rightarrow> Inr False) =
    Inr (case raw_num g of Inr x \<Rightarrow> fle (Fin 2) x | Inl _ \<Rightarrow> False)"
  by (simp split: sum.split)

lemma confirms_read:
  assumes "confirms (score_obj s) = Inr x"
  shows "x = confirms_part (load_risk (ss_risk s))"
proof -
  let ?d = "load_risk (ss_risk s)"
  let ?ok = "\<lambda>stage. case raw_num stage of Inr x \<Rightarrow> fle (Fin 2) x | Inl _ \<Rightarrow> False"
  from assms obtain stage where stage: "stage = stage_part ?d"
    "bindE (sub_object (if truthy (jget ?d ''score100'') then jget ?d ''score100'' else JObj []) ''storage_risk'') (\<lambda>storage.
       if ?ok stage then Inr True else bindE (obj_get storage ''band'') (\<lambda>b. Inr (py_eq b (JStr ''bad'')))) = Inr x"
    unfolding confirms_def risk_of_row bindE.simps unfolding sub_object_obj bindE.simps Let_def stage_ok
    by (auto simp only: bindE_Inr_iff stage_part_def dest!: chain_stage_read)
  note b = sub_truthy[OF stage(2), unfolded Let_def]
  show ?thesis
  proof (cases "?ok stage")
    case True
    with b show ?thesis by (simp add: confirms_part_def stage(1))
  next
    case False
    with b have "x = py_eq (jget (storage_part ?d) ''band'') (JStr ''bad'')"
      unfolding storage_part_def by (simp only: if_False) (drule obj_get_truthy, simp)
    with False show ?thesis by (simp add: confirms_part_def stage(1))
  qed
qed

lemma health_read: "health_index_of (score_obj s) = Inr h \<Longrightarrow>
    h = jget (only_obj (jget (load_risk (ss_risk s)) ''health'')) ''index''"
  unfolding health_index_of_def risk_of_row bindE.simps unfolding sub_object_obj bindE.simps Let_def
  by (cases "jget (load_risk (ss_risk s)) ''health''") (auto simp: only_obj_def jget_def split: if_splits)

lemma slim_reads:
  "row_flags (score_obj (s\<lparr>ss_risk := RJ (JObj (slim_risk d))\<rparr>)) = Inr (flags_part d)"
  "confirms (score_obj (s\<lparr>ss_risk := RJ (JObj (slim_risk d))\<rparr>)) = Inr (confirms_part d)"
proof -
  let ?s = "s\<lparr>ss_risk := RJ (JObj (slim_risk d))\<rparr>"
  have l: "load_risk (ss_risk ?s) = slim_risk d" by (simp add: load_risk_def)
  show "row_flags (score_obj ?s) = Inr (flags_part d)"
    unfolding row_flags_def risk_of_row l bindE.simps unfolding sub_object_obj
    by (simp add: slim_risk_def jget_def[of "_ # _"] Let_def sub_object_obj flags_part_def storage_part_def)
  show "confirms (score_obj ?s) = Inr (confirms_part d)"
    unfolding confirms_def risk_of_row l bindE.simps stage_ok unfolding sub_object_obj
    by (simp add: slim_risk_def jget_def[of "_ # _"] Let_def sub_object_obj confirms_part_def storage_part_def stage_part_def split: sum.split)
qed

lemma slim_same: "same_reading (score_obj s) (score_obj (slim_row s))"
proof (cases "slim_row s = s")
  case False
  then obtain d where d: "ss_risk s = RJ (JObj d)" "slim_row s = s\<lparr>ss_risk := RJ (JObj (slim_risk d))\<rparr>"
    by (auto simp: slim_row_def split: risk_json.splits jval.splits if_splits)
  have l: "load_risk (ss_risk s) = d" by (simp add: d(1) load_risk_def)
  have "health_index_of (score_obj (slim_row s)) = Inr h" if "health_index_of (score_obj s) = Inr h" for h
    using that unfolding health_index_of_def risk_of_row bindE.simps unfolding sub_object_obj l d(2)
    by (simp add: load_risk_def slim_risk_def jget_def[of "_ # _"] Let_def)
  then show ?thesis using flags_read[of s] confirms_read[of s] slim_reads[where s = s and d = d]
    by (auto simp: same_reading_def d(2) l) (simp_all add: score_obj_def jget_def Let_def)
qed (simp add: same_reading_refl)


subsection \<open>The readers on cut rows\<close>

lemma same_readingD:
  assumes "same_reading a b"
  shows "jget b ''ts'' = jget a ''ts''" "row_flags a = Inr fs \<Longrightarrow> row_flags b = Inr fs" "confirms a = Inr x \<Longrightarrow> confirms b = Inr x"
    "health_index_of a = Inr h \<Longrightarrow> health_index_of b = Inr h"
  using assms unfolding same_reading_def by blast+

lemma any_row_same:
  assumes "list_all2 same_reading rows rows'" "\<And>a b x. same_reading a b \<Longrightarrow> P a = Inr x \<Longrightarrow> Q b = Inr x" "any_row W P rows = Inr y"
  shows "any_row W Q rows' = Inr y"
  using assms(1,3)
proof (induction arbitrary: y rule: list_all2_induct)
  case (Cons a rows b rows')
  note ts = same_readingD(1)[OF Cons(1)]
  show ?case
  proof (cases "case parse_ts (jget a ''ts'') of None \<Rightarrow> False | Some t \<Rightarrow> W t")
    case True
    with Cons(4) obtain x where "P a = Inr x" "(if x then Inr True else any_row W P rows) = Inr y" by (auto split: option.splits)
    then show ?thesis using True Cons(3) assms(2)[OF Cons(1)] by (auto simp: ts split: option.splits if_splits)
  next
    case False
    then show ?thesis using Cons(3,4) by (simp add: ts split: option.splits)
  qed
qed simp

lemma same_flag:
  assumes "same_reading a b" "has_flag k a = Inr x"
  shows "has_flag k b = Inr x"
proof -
  from assms(2) obtain fs where "row_flags a = Inr fs" "list_ex (\<lambda>f. py_eq f (JStr k)) fs = x" by (auto simp only: has_flag_def bindE_Inr_iff sum.inject)
  then show ?thesis using same_readingD(2)[OF assms(1)] by (simp add: has_flag_def)
qed

lemma same_blocked:
  assumes "same_reading a b" "refutation_blocked k a = Inr x"
  shows "refutation_blocked k b = Inr x"
proof -
  from assms(2) obtain c where "confirms a = Inr c" "(if c then Inr True else has_flag k a) = Inr x"
    unfolding refutation_blocked_def bindE_Inr_iff by blast
  then show ?thesis using same_readingD(3)[OF assms(1)] same_flag[OF assms(1)] by (simp add: refutation_blocked_def split: if_splits)
qed

lemma window_same:
  assumes "list_all2 same_reading rows rows'" "\<And>a b x. same_reading a b \<Longrightarrow> P a = Inr x \<Longrightarrow> P b = Inr x" "has_row_in_window rows t w P = Inr y"
  shows "has_row_in_window rows' t w P = Inr y"
proof -
  from assms(3) obtain u where "last_moment t w = Inr u" "any_row (\<lambda>ts. as_utc t < as_utc ts \<and> as_utc ts \<le> u) P rows = Inr y"
    unfolding has_row_in_window_def bindE_Inr_iff by blast
  then show ?thesis using any_row_same[OF assms(1,2)] by (simp add: has_row_in_window_def)
qed

lemma resolve_same:
  assumes "list_all2 same_reading rows rows'" "resolve_episode rows t k now = Inr x"
  shows "resolve_episode rows' t k now = Inr x"
proof -
  from assms(2) obtain c where c: "has_row_in_window rows t CONFIRM_WINDOW confirms = Inr c"
    "(if c then Inr (Some Confirmed)
      else if REFUTE_WINDOW \<le> now - as_utc t
      then bindE (has_row_in_window rows t REFUTE_WINDOW (refutation_blocked k)) (\<lambda>blocked. Inr (if blocked then None else Some Refuted))
      else Inr None) = Inr x"
    unfolding resolve_episode_def bindE_Inr_iff by blast
  note c' = window_same[OF assms(1) same_readingD(3) c(1)]
  show ?thesis
  proof (cases "\<not> c \<and> REFUTE_WINDOW \<le> now - as_utc t")
    case True
    then obtain b where "has_row_in_window rows t REFUTE_WINDOW (refutation_blocked k) = Inr b" "(if b then None else Some Refuted) = x"
      using c(2) by auto
    with True window_same[OF assms(1) same_blocked] c' show ?thesis by (simp add: resolve_episode_def)
  next
    case False
    with c(2) c' show ?thesis by (auto simp: resolve_episode_def)
  qed
qed

lemma scan_same:
  assumes "list_all2 same_reading rows rows'" "list_all2 same_reading rest rest'" "scan_loop rows key k now r rest = Inr outs"
  shows "scan_loop rows' key k now r rest' = Inr outs"
  using assms(2,3)
proof (induction arbitrary: r outs rule: list_all2_induct)
  case (Cons a rest b rest')
  note ts = same_readingD(1)[OF Cons(1)]
  from Cons(4) obtain p where p: "(case parse_ts (jget a ''ts'') of None \<Rightarrow> Inr False | Some _ \<Rightarrow> has_flag k a) = Inr p"
    "(if p then scan_loop rows key k now (parse_ts (jget a ''ts'')) rest
      else case r of None \<Rightarrow> scan_loop rows key k now None rest
       | Some e \<Rightarrow> bindE (resolve_episode rows e k now) (\<lambda>v. bindE (scan_loop rows key k now None rest) (\<lambda>outs.
           Inr (case v of None \<Rightarrow> outs | Some x \<Rightarrow> (key, x, e) # outs)))) = Inr outs"
    unfolding scan_loop.simps Let_def bindE_Inr_iff by blast
  have q: "(case parse_ts (jget b ''ts'') of None \<Rightarrow> Inr False | Some _ \<Rightarrow> has_flag k b) = Inr p"
    using p(1) same_flag[OF Cons(1)] by (simp add: ts split: option.splits)
  show ?case
  proof (cases "p \<or> r = None")
    case True
    with p(2) q Cons(3) show ?thesis by (auto simp: Let_def ts)
  next
    case False
    then obtain e where e: "r = Some e" by auto
    with p(2) False obtain v os where v: "resolve_episode rows e k now = Inr v" "scan_loop rows key k now None rest = Inr os"
      "(case v of None \<Rightarrow> os | Some x \<Rightarrow> (key, x, e) # os) = outs" by auto
    show ?thesis using q False e v(3) resolve_same[OF assms(1) v(1)] Cons(3)[OF v(2)] by (simp add: Let_def)
  qed
qed simp

lemma mapE_mono: "(\<And>x y. x \<in> set xs \<Longrightarrow> f x = Inr y \<Longrightarrow> g x = Inr y) \<Longrightarrow> mapE f xs = Inr ys \<Longrightarrow> mapE g xs = Inr ys"
  by (induction xs arbitrary: ys) auto

lemma scan_device_same:
  assumes "list_all2 same_reading rows rows'" "scan_device rows now = Inr outs"
  shows "scan_device rows' now = Inr outs"
proof -
  from assms(2) obtain os where os: "mapE (\<lambda>key. scan_rule rows key (flag_for_rule key) now) RULE_KEYS = Inr os" "outs = concat os"
    by (auto simp: scan_device_def)
  have "mapE (\<lambda>key. scan_rule rows' key (flag_for_rule key) now) RULE_KEYS = Inr os"
    by (rule mapE_mono[OF _ os(1)]) (use scan_same[OF assms(1,1)] in \<open>simp add: scan_rule_def\<close>)
  then show ?thesis by (simp add: scan_device_def os(2))
qed

lemma delta_same:
  assumes "list_all2 same_reading rows rows'" "health_delta_7d rows index cutoff = Inr x"
  shows "health_delta_7d rows' index cutoff = Inr x"
  using assms
proof (induction arbitrary: x rule: list_all2_induct)
  case (Cons a rows b rows')
  note ts = same_readingD(1)[OF Cons(1)]
  show ?case
  proof (cases "index = None \<or> (case parse_iso (jget a ''ts'') of None \<Rightarrow> True | Some t \<Rightarrow> cutoff \<le> t)")
    case True
    then show ?thesis using Cons(3,4) by (auto simp: ts split: option.splits)
  next
    case False
    then obtain i t where i: "index = Some i" "parse_iso (jget a ''ts'') = Some t" "\<not> cutoff \<le> t" by (auto split: option.splits)
    with Cons(4) obtain h where h: "health_index_of a = Inr h"
      "(if h = JNull then Inr None else bindE (raw_num h) (\<lambda>x. Inr (Some (fround 1 (fsub i x))))) = Inr x" by auto
    show ?thesis using i h(2) same_readingD(4)[OF Cons(1) h(1)] by (simp add: ts)
  qed
qed simp

subsection \<open>What is kept\<close>

definition store_run :: "nat \<Rightarrow> (string \<times> stored_score) list \<Rightarrow> score_log" where
  "store_run cap ms = foldl (\<lambda>t (d, s). store_scores cap d s t) [] ms"

definition slimmed :: "stored_score list \<Rightarrow> stored_score list" where
  "slimmed ss = take SCORES_KEEP_FULL ss @ map slim_row (drop SCORES_KEEP_FULL ss)"

lemma slim_twice: "slim_row (slim_row s) = slim_row s"
proof (cases "slim_row s = s")
  case False
  then obtain d where d: "slim_row s = s\<lparr>ss_risk := RJ (JObj (slim_risk d))\<rparr>"
    by (auto simp: slim_row_def split: risk_json.splits jval.splits if_splits)
  show ?thesis unfolding d by (simp add: slim_row_def slim_risk_def jget_def Let_def)
qed simp

lemma slimmed_Cons: "slimmed (s # ss) = (case drop SCORES_KEEP_FULL (s # slimmed ss) of [] \<Rightarrow> s # slimmed ss
    | x # _ \<Rightarrow> (s # slimmed ss)[SCORES_KEEP_FULL := slim_row x])"
proof (cases "length ss \<le> 9")
  case True
  then show ?thesis by (simp add: slimmed_def SCORES_KEEP_FULL_def)
next
  case False
  define u where "u = take 9 ss"
  obtain x rest where "drop 9 ss = x # rest" using False by (cases "drop 9 ss") auto
  then have ss: "ss = u @ x # rest" "length u = 9" using False append_take_drop_id[of 9 ss] by (simp_all add: u_def)
  show ?thesis by (simp add: ss slimmed_def SCORES_KEEP_FULL_def list_update_append)
qed


lemma newest_store_scores: "newest k (store_scores cap did s t) =
    (if k = did then (let xs = take cap (s # newest did t) in case drop SCORES_KEEP_FULL xs of [] \<Rightarrow> xs | x # _ \<Rightarrow> xs[SCORES_KEEP_FULL := slim_row x])
     else newest k t)"
  unfolding store_scores_def slim_stale_scores_def newest_modify newest_append Let_def by simp

lemma take_modified: "(case drop k (take n xs) of [] \<Rightarrow> take n xs | x # _ \<Rightarrow> (take n xs)[k := f x]) =
    take n (case drop k xs of [] \<Rightarrow> xs | x # _ \<Rightarrow> xs[k := f x])"
proof (cases "drop k xs")
  case Nil
  then show ?thesis by (simp add: drop_take)
next
  case (Cons x rest)
  show ?thesis
  proof (cases "n \<le> k")
    case True
    then show ?thesis by (simp add: Cons drop_take take_update_cancel)
  next
    case False
    then obtain m where "n - k = Suc m" by (metis Suc_diff_Suc not_le)
    then show ?thesis using False by (simp add: Cons drop_take take_update_swap)
  qed
qed

lemma newest_run: "newest did (store_run cap ms) = take cap (slimmed (rev (own_rows did ms)))"
proof (induction ms rule: rev_induct)
  case Nil
  then show ?case by (simp add: store_run_def newest_def slimmed_def)
next
  case (snoc m ms)
  obtain d s where m: "m = (d, s)" by (cases m)
  have r: "store_run cap (ms @ [m]) = store_scores cap d s (store_run cap ms)" by (simp add: store_run_def m)
  define xs where "xs = s # slimmed (rev (own_rows did ms))"
  have t: "take cap (s # take cap (slimmed (rev (own_rows did ms)))) = take cap xs" by (simp add: xs_def take_Cons' min_def)
  show ?case
  proof (cases "d = did")
    case True
    have "newest did (store_run cap (ms @ [m])) = (case drop SCORES_KEEP_FULL (take cap xs) of [] \<Rightarrow> take cap xs
        | x # _ \<Rightarrow> (take cap xs)[SCORES_KEEP_FULL := slim_row x])"
      by (simp add: r True newest_store_scores snoc t Let_def)
    also have "\<dots> = take cap (case drop SCORES_KEEP_FULL xs of [] \<Rightarrow> xs | x # _ \<Rightarrow> xs[SCORES_KEEP_FULL := slim_row x])"
      by (rule take_modified)
    finally have n: "newest did (store_run cap (ms @ [m])) =
        take cap (case drop SCORES_KEEP_FULL xs of [] \<Rightarrow> xs | x # _ \<Rightarrow> xs[SCORES_KEEP_FULL := slim_row x])" .
    have "rev (own_rows did (ms @ [m])) = s # rev (own_rows did ms)" by (simp add: m True)
    with n show ?thesis by (simp only: slimmed_Cons xs_def)
  next
    case False
    then show ?thesis using snoc by (simp add: r newest_store_scores) (simp add: m)
  qed
qed

lemma slim_ts: "ss_ts (slim_row s) = ss_ts s"
  by (simp add: slim_row_def split: risk_json.split jval.split)

definition same_score :: "stored_score \<Rightarrow> stored_score \<Rightarrow> bool" where
  "same_score s s' \<longleftrightarrow> ss_ts s' = ss_ts s \<and> same_reading (score_obj s) (score_obj s')"

lemma slimmed_same: "list_all2 same_score ss (slimmed ss)"
proof -
  have slim: "list_all2 same_score xs (map slim_row xs)" for xs
    by (induction xs) (simp_all add: same_score_def slim_ts slim_same)
  have refl: "list_all2 same_score xs xs" for xs
    by (induction xs) (simp_all add: same_score_def same_reading_refl)
  from list_all2_appendI[OF refl slim, of "take SCORES_KEEP_FULL ss" "drop SCORES_KEEP_FULL ss"]
  show ?thesis unfolding slimmed_def append_take_drop_id .
qed

lemma filter_same:
  assumes "list_all2 same_score ss ss'"
  shows "list_all2 same_reading (map score_obj (take n (filter (\<lambda>s. P (ss_ts s)) ss))) (map score_obj (take n (filter (\<lambda>s. P (ss_ts s)) ss')))"
proof -
  have "list_all2 same_reading (map score_obj (filter (\<lambda>s. P (ss_ts s)) ss)) (map score_obj (filter (\<lambda>s. P (ss_ts s)) ss'))"
    using assms by (induction rule: list_all2_induct) (simp_all add: same_score_def)
  then show ?thesis using list_all2_takeI by (metis take_map)
qed

definition whole_series :: "nat \<Rightarrow> nat \<Rightarrow> string option \<Rightarrow> string \<Rightarrow> (string \<times> stored_score) list \<Rightarrow> jobj list" where
  \<comment> \<open>the series a machine would have if no verdict were ever cut\<close>
  "whole_series cap limit since_ts did ms = map score_obj (take limit (filter (\<lambda>s. case since_ts of None \<Rightarrow> True | Some x \<Rightarrow> x \<le> ss_ts s)
     (take cap (rev (own_rows did ms)))))"

lemma series_same: "list_all2 same_reading (whole_series cap limit since_ts did ms) (get_score_series limit since_ts did (store_run cap ms))"
proof -
  have "list_all2 same_score
      (take cap (rev (own_rows did ms))) (take cap (slimmed (rev (own_rows did ms))))"
    by (rule list_all2_takeI[OF slimmed_same])
  from filter_same[OF this, of limit "\<lambda>x. case since_ts of None \<Rightarrow> True | Some y \<Rightarrow> y \<le> x"]
  show ?thesis by (simp add: whole_series_def get_score_series_def newest_run)
qed

text \<open>C10: Cutting old verdicts down is invisible to their readers.  After any scores of a fleet, the outcomes of the rules that the scan finds
  in a machine's series and the seven-day difference of its health index are those of the series that was never cut, wherever that
  series can be read; and the rows the machine's page reads, the newest ten, are whole.\<close>
theorem slimming_is_invisible:
  assumes "scan_device (rev (whole_series cap limit since_ts did ms)) now = Inr outs"
    "health_delta_7d (whole_series cap limit since_ts did ms) index cutoff = Inr delta"
  shows "scan_device (rev (get_score_series limit since_ts did (store_run cap ms))) now = Inr outs \<and>
    health_delta_7d (get_score_series limit since_ts did (store_run cap ms)) index cutoff = Inr delta \<and>
    take SCORES_KEEP_FULL (newest did (store_run cap ms)) = take SCORES_KEEP_FULL (take cap (rev (own_rows did ms)))"
proof -
  have "list_all2 same_reading (rev (whole_series cap limit since_ts did ms)) (rev (get_score_series limit since_ts did (store_run cap ms)))"
    using series_same by simp
  moreover have "take SCORES_KEEP_FULL (slimmed xs) = take SCORES_KEEP_FULL xs" for xs
    by (cases "length xs \<le> SCORES_KEEP_FULL") (simp_all add: slimmed_def)
  then have "take SCORES_KEEP_FULL (newest did (store_run cap ms)) = take SCORES_KEEP_FULL (take cap (rev (own_rows did ms)))"
    unfolding newest_run by (metis min.commute take_take)
  ultimately show ?thesis using scan_device_same assms(1) delta_same[OF series_same assms(2)] by blast
qed

definition plain_score :: "string \<times> stored_score" where
  "plain_score = (''d1'', \<lparr>ss_ts = ''2026-01-01T00:00:00+00:00'', ss_performance = None, ss_reliability = None, ss_wear = None,
     ss_risk_exposure = None, ss_risk = RJ (JObj [(''top'', JNull), (''health'', JObj [(''index'', JInt 80)])])\<rparr>)"

lemma plain_scan: "scan_device (rev (whole_series 5000 200 None ''d1'' (replicate 11 plain_score))) 0 = Inr []"
  by code_simp

theorem slimming_is_invisible_witness:
  "health_delta_7d (get_score_series 200 None ''d1'' (store_run 5000 (replicate 11 plain_score))) None 0 = Inr None"
proof -
  have "health_delta_7d (whole_series 5000 200 None ''d1'' (replicate 11 plain_score)) None 0 = Inr None"
    by (simp add: whole_series_def eval_nat_numeral plain_score_def)
  with plain_scan show ?thesis using slimming_is_invisible by blast
qed

end
