(* ===== verification/DeviceTable.thy ===== *)
theory DeviceTable imports Guards Trends begin

text \<open>
  The table of machines of \<open>server/db.py\<close>: what a message writes into a machine's row, which agent version is believed when
  buffered messages come late, and the status of the agent's own update.  Columns that a later message may fill in but not erase are a
  record of optional texts; a stamp is kept as the text that is stored.
\<close>

subsection \<open>Rows\<close>

record profile =
  pf_hostname :: "string option"
  pf_manufacturer :: "string option"
  pf_model :: "string option"
  pf_chassis :: "string option"
  pf_site_code :: "string option"
  pf_site_name :: "string option"
  pf_org_code :: "string option"
  pf_dept_code :: "string option"
  pf_comment :: "string option"
  pf_owner_full_name :: "string option"
  pf_owner_position :: "string option"
  pf_owner_phone :: "string option"

record device_entry =
  de_profile :: profile
  de_version :: "string option"
  de_first_seen :: string
  de_last_seen :: string
  de_reported :: string
  de_drift :: "pyfloat option"
  de_version_changed :: "string option"
  de_update_state :: "string option"
  de_update_error :: "string option"
  de_update_checked :: "string option"
  de_update_available :: "string option"

type_synonym device_table = "(string, device_entry) dict"

record device_report =
  \<comment> \<open>the arguments of \<open>upsert_device\<close> and \<open>touch_device\<close>\<close>
  dr_ts :: string
  dr_version :: string
  dr_profile :: profile
  dr_received :: "string option"
  dr_reported :: "string option"
  dr_drift :: "pyfloat option"
  dr_envelope :: "string option"

record wall_clock =
  wc_iso :: string
  wc_us :: int

definition or_text :: "string option \<Rightarrow> string \<Rightarrow> string" where
  \<comment> \<open>\<open>value or default\<close>\<close>
  "or_text s d = (case s of Some (c # cs) \<Rightarrow> c # cs | _ \<Rightarrow> d)"

definition coalesce :: "'a option \<Rightarrow> 'a option \<Rightarrow> 'a option" where
  "coalesce new old = (case new of None \<Rightarrow> old | Some _ \<Rightarrow> new)"

definition coalesce_profile :: "profile \<Rightarrow> profile \<Rightarrow> profile" where
  "coalesce_profile n old = \<lparr>pf_hostname = coalesce (pf_hostname n) (pf_hostname old),
     pf_manufacturer = coalesce (pf_manufacturer n) (pf_manufacturer old), pf_model = coalesce (pf_model n) (pf_model old),
     pf_chassis = coalesce (pf_chassis n) (pf_chassis old), pf_site_code = coalesce (pf_site_code n) (pf_site_code old),
     pf_site_name = coalesce (pf_site_name n) (pf_site_name old), pf_org_code = coalesce (pf_org_code n) (pf_org_code old),
     pf_dept_code = coalesce (pf_dept_code n) (pf_dept_code old), pf_comment = coalesce (pf_comment n) (pf_comment old),
     pf_owner_full_name = coalesce (pf_owner_full_name n) (pf_owner_full_name old),
     pf_owner_position = coalesce (pf_owner_position n) (pf_owner_position old),
     pf_owner_phone = coalesce (pf_owner_phone n) (pf_owner_phone old)\<rparr>"

subsection \<open>The version of the agent\<close>

definition stamp_of :: "string option \<Rightarrow> int option" where
  \<comment> \<open>\<open>_parse_iso\<close>\<close>
  "stamp_of s = (case s of None \<Rightarrow> None | Some x \<Rightarrow> parse_iso (JStr x))"

definition VERSION_STALENESS_ESCAPE :: int where "VERSION_STALENESS_ESCAPE = 3600 * 1000000"

definition resolve_agent_version :: "string option \<Rightarrow> string option \<Rightarrow> string \<Rightarrow> string option \<Rightarrow> int \<Rightarrow> string" where
  "resolve_agent_version stored changed_at incoming envelope_ts now =
     (case parse_version (Some incoming) of
        None \<Rightarrow> (case stored of None \<Rightarrow> incoming | Some s \<Rightarrow> s)
      | Some i \<Rightarrow> (case (stored, parse_version stored) of
          (Some s, Some p) \<Rightarrow>
            if p \<le> i then incoming
            else (case stamp_of changed_at of
                None \<Rightarrow> s
              | Some c \<Rightarrow>
                  if (case stamp_of envelope_ts of None \<Rightarrow> False | Some e \<Rightarrow> c < e) then incoming
                  else if VERSION_STALENESS_ESCAPE < now - c then incoming
                  else s)
        | _ \<Rightarrow> incoming))"

subsection \<open>Writing a row\<close>

definition upsert_device :: "string \<Rightarrow> device_report \<Rightarrow> wall_clock \<Rightarrow> device_table \<Rightarrow> device_table" where
  "upsert_device did r clk tbl =
     (let recv = or_text (dr_received r) (wc_iso clk);
          told = or_text (dr_reported r) (dr_ts r);
          prior = dict_get tbl did;
          version = resolve_agent_version (case prior of None \<Rightarrow> None | Some e \<Rightarrow> de_version e)
            (case prior of None \<Rightarrow> None | Some e \<Rightarrow> de_version_changed e) (dr_version r) (dr_envelope r) (wc_us clk)
      in dict_set tbl did (case prior of
          None \<Rightarrow> \<lparr>de_profile = dr_profile r, de_version = Some version, de_first_seen = recv, de_last_seen = recv, de_reported = told,
            de_drift = dr_drift r, de_version_changed = Some recv, de_update_state = None, de_update_error = None,
            de_update_checked = None, de_update_available = None\<rparr>
        | Some e \<Rightarrow> e\<lparr>de_profile := coalesce_profile (dr_profile r) (de_profile e), de_version := Some version, de_last_seen := recv,
            de_reported := told, de_drift := dr_drift r,
            de_version_changed := (if Some version \<noteq> de_version e then Some recv else de_version_changed e)\<rparr>))"

definition touch_device :: "string \<Rightarrow> device_report \<Rightarrow> wall_clock \<Rightarrow> device_table \<Rightarrow> device_table" where
  \<comment> \<open>the columns of the hardware are not among its arguments\<close>
  "touch_device did r clk tbl =
     upsert_device did (r\<lparr>dr_profile := (dr_profile r)\<lparr>pf_manufacturer := None, pf_model := None, pf_chassis := None\<rparr>\<rparr>) clk tbl"

subsection \<open>The status of an update\<close>

record update_status =
  ur_state :: "string option"
  ur_error :: "string option"
  ur_checked :: "string option"
  ur_available :: "string option"

definition FUTURE_TOLERANCE :: int where "FUTURE_TOLERANCE = 5 * 60 * 1000000"

definition replayed_status :: "device_entry \<Rightarrow> update_status \<Rightarrow> int \<Rightarrow> bool" where
  \<comment> \<open>an older status than the stored one, when the stored one is not from the future\<close>
  "replayed_status e s now \<longleftrightarrow> (case (stamp_of (de_update_checked e), stamp_of (ur_checked s)) of
       (Some c, Some i) \<Rightarrow> c \<le> now + FUTURE_TOLERANCE \<and> i < c
     | _ \<Rightarrow> False)"

definition clipped :: "string option \<Rightarrow> string option" where
  "clipped e = map_option (take 500) e"

definition set_update_status :: "string \<Rightarrow> update_status \<Rightarrow> int \<Rightarrow> device_table \<Rightarrow> device_table" where
  "set_update_status did s now tbl = (case dict_get tbl did of
       None \<Rightarrow> tbl
     | Some e \<Rightarrow> if replayed_status e s now then tbl
         else dict_set tbl did (e\<lparr>de_update_state := ur_state s, de_update_error := clipped (ur_error s),
           de_update_checked := ur_checked s, de_update_available := ur_available s\<rparr>))"

subsection \<open>Messages in sequence\<close>

datatype device_write = Upsert string device_report wall_clock | Touch string device_report wall_clock
  | Status string update_status int

fun write_device :: "device_table \<Rightarrow> device_write \<Rightarrow> device_table" where
  "write_device tbl (Upsert did r clk) = upsert_device did r clk tbl"
| "write_device tbl (Touch did r clk) = touch_device did r clk tbl"
| "write_device tbl (Status did s now) = set_update_status did s now tbl"

definition write_devices :: "device_write list \<Rightarrow> device_table \<Rightarrow> device_table" where
  "write_devices ws tbl = foldl write_device tbl ws"

fun reported_profile :: "string \<Rightarrow> device_write \<Rightarrow> profile option" where
  \<comment> \<open>what a message says about a machine\<close>
  "reported_profile did (Upsert d r clk) = (if d = did then Some (dr_profile r) else None)"
| "reported_profile did (Touch d r clk) =
     (if d = did then Some ((dr_profile r)\<lparr>pf_manufacturer := None, pf_model := None, pf_chassis := None\<rparr>) else None)"
| "reported_profile did (Status d s now) = None"

definition PROFILE_COLUMNS :: "(profile \<Rightarrow> string option) list" where
  "PROFILE_COLUMNS = [pf_hostname, pf_manufacturer, pf_model, pf_chassis, pf_site_code, pf_site_name, pf_org_code, pf_dept_code,
     pf_comment, pf_owner_full_name, pf_owner_position, pf_owner_phone]"

definition last_told :: "(profile \<Rightarrow> string option) \<Rightarrow> string option \<Rightarrow> profile list \<Rightarrow> string option" where
  \<comment> \<open>the last report that has a value for a column\<close>
  "last_told f old ps = (case filter (\<lambda>p. f p \<noteq> None) (rev ps) of [] \<Rightarrow> old | p # _ \<Rightarrow> f p)"

lemma last_told_Nil [simp]: "last_told f old [] = old"
  by (simp add: last_told_def)

lemma last_told_Cons: "last_told f old (p # ps) = last_told f (coalesce (f p) old) ps"
  by (auto simp: last_told_def coalesce_def filter_append split: option.split list.split)

lemma column_coalesce: "f \<in> set PROFILE_COLUMNS \<Longrightarrow> f (coalesce_profile n old) = coalesce (f n) (f old)"
  by (auto simp: PROFILE_COLUMNS_def coalesce_profile_def)

lemma upsert_known:
  assumes "dict_get tbl did = Some e"
  shows "\<exists>e'. dict_get (upsert_device d r clk tbl) did = Some e' \<and> de_first_seen e' = de_first_seen e \<and>
    de_profile e' = (if d = did then coalesce_profile (dr_profile r) (de_profile e) else de_profile e)"
  using assms by (auto simp: upsert_device_def Let_def dict_simps)

lemma write_known:
  assumes "dict_get tbl did = Some e"
  shows "\<exists>e'. dict_get (write_device tbl w) did = Some e' \<and> de_first_seen e' = de_first_seen e \<and>
    de_profile e' = (case reported_profile did w of None \<Rightarrow> de_profile e | Some p \<Rightarrow> coalesce_profile p (de_profile e))"
proof (cases w)
  case (Status d s now)
  then show ?thesis using assms by (auto simp: set_update_status_def dict_simps split: option.split)
next
  case (Upsert d r clk)
  then show ?thesis using upsert_known[OF assms, of d r clk] by (cases "d = did") simp_all
next
  case (Touch d r clk)
  then show ?thesis
    using upsert_known[OF assms, of d "r\<lparr>dr_profile := (dr_profile r)\<lparr>pf_manufacturer := None, pf_model := None, pf_chassis := None\<rparr>\<rparr>" clk]
    by (cases "d = did") (simp_all add: touch_device_def)
qed

lemma writes_known:
  assumes "dict_get tbl did = Some e"
  shows "\<exists>e'. dict_get (write_devices ws tbl) did = Some e' \<and> de_first_seen e' = de_first_seen e \<and>
    list_all (\<lambda>f. f (de_profile e') = last_told f (f (de_profile e)) (List.map_filter (reported_profile did) ws)) PROFILE_COLUMNS"
  using assms
proof (induction ws arbitrary: tbl e)
  case (Cons w ws)
  from write_known[OF Cons.prems] obtain e1 where e1: "dict_get (write_device tbl w) did = Some e1" "de_first_seen e1 = de_first_seen e"
    "de_profile e1 = (case reported_profile did w of None \<Rightarrow> de_profile e | Some p \<Rightarrow> coalesce_profile p (de_profile e))" by blast
  from Cons.IH[OF e1(1)] obtain e2 where e2: "dict_get (write_devices ws (write_device tbl w)) did = Some e2" "de_first_seen e2 = de_first_seen e1"
    "list_all (\<lambda>f. f (de_profile e2) = last_told f (f (de_profile e1)) (List.map_filter (reported_profile did) ws)) PROFILE_COLUMNS" by blast
  have "last_told f (f (de_profile e1)) (List.map_filter (reported_profile did) ws) =
      last_told f (f (de_profile e)) (List.map_filter (reported_profile did) (w # ws))" if "f \<in> set PROFILE_COLUMNS" for f
    using column_coalesce[OF that] by (cases "reported_profile did w") (simp_all add: e1(3) List.map_filter_simps last_told_Cons)
  then show ?case using e1 e2 by (simp add: write_devices_def list_all_iff)
qed (simp add: write_devices_def List.map_filter_simps list_all_iff)

text \<open>What is known of a machine is never lost: after any messages, from this machine or others, every column of its row holds the last
  value some message gave for it, a message that says nothing erases nothing, and the machine was first seen when it was first seen.\<close>
theorem known_identity_survives:
  assumes "dict_get tbl did = Some e"
  shows "\<exists>e'. dict_get (write_devices ws tbl) did = Some e' \<and> de_first_seen e' = de_first_seen e \<and>
    list_all (\<lambda>f. f (de_profile e') = last_told f (f (de_profile e)) (List.map_filter (reported_profile did) ws)) PROFILE_COLUMNS"
  using assms by (rule writes_known)

subsection \<open>Late messages and the version\<close>

definition version_held :: "int \<times> int \<times> int \<Rightarrow> int \<Rightarrow> device_entry \<Rightarrow> bool" where
  "version_held v c e \<longleftrightarrow> (\<exists>v' c'. parse_version (de_version e) = Some v' \<and> v \<le> v' \<and> stamp_of (de_version_changed e) = Some c' \<and> c \<le> c')"

definition created_late :: "int \<Rightarrow> device_report \<Rightarrow> wall_clock \<Rightarrow> bool" where
  \<comment> \<open>created before the version changed, received within the hour after\<close>
  "created_late c r clk \<longleftrightarrow> (case stamp_of (dr_envelope r) of None \<Rightarrow> True | Some t \<Rightarrow> t \<le> c) \<and>
     wc_us clk \<le> c + VERSION_STALENESS_ESCAPE \<and>
     (case stamp_of (Some (or_text (dr_received r) (wc_iso clk))) of None \<Rightarrow> False | Some t \<Rightarrow> c \<le> t)"

fun late_report :: "string \<Rightarrow> int \<Rightarrow> device_write \<Rightarrow> bool" where
  "late_report did c (Upsert d r clk) \<longleftrightarrow> (d = did \<longrightarrow> created_late c r clk)"
| "late_report did c (Touch d r clk) \<longleftrightarrow> (d = did \<longrightarrow> created_late c r clk)"
| "late_report did c (Status d s now) \<longleftrightarrow> True"

lemma resolve_late:
  assumes "parse_version (Some s) = Some v'" "stamp_of changed = Some c'"
    "case stamp_of env of None \<Rightarrow> True | Some t \<Rightarrow> t \<le> c'" "now \<le> c' + VERSION_STALENESS_ESCAPE"
  shows "resolve_agent_version (Some s) changed incoming env now = s \<or>
    (\<exists>i. parse_version (Some (resolve_agent_version (Some s) changed incoming env now)) = Some i \<and> v' \<le> i)"
  using assms by (auto simp: resolve_agent_version_def split: option.split option.splits)

lemma upsert_late:
  assumes "dict_get tbl did = Some e" "version_held v c e" "late_report did c (Upsert d r clk)"
  shows "\<exists>e'. dict_get (upsert_device d r clk tbl) did = Some e' \<and> version_held v c e'"
proof (cases "d = did")
  case True
  from assms(2) obtain v' c' where h: "parse_version (de_version e) = Some v'" "v \<le> v'" "stamp_of (de_version_changed e) = Some c'" "c \<le> c'"
    by (auto simp: version_held_def)
  from h(1) obtain s where s: "de_version e = Some s" by (cases "de_version e") (simp_all add: parse_version_def)
  let ?n = "resolve_agent_version (Some s) (de_version_changed e) (dr_version r) (dr_envelope r) (wc_us clk)"
  have "?n = s \<or> (\<exists>i. parse_version (Some ?n) = Some i \<and> v' \<le> i)"
    by (rule resolve_late[OF _ h(3)]) (use assms(3) True h s in \<open>auto simp: created_late_def split: option.splits\<close>)
  moreover obtain t where "stamp_of (Some (or_text (dr_received r) (wc_iso clk))) = Some t" "c \<le> t"
    using assms(3) True by (auto simp: created_late_def split: option.splits)
  ultimately have "version_held v c (the (dict_get (upsert_device d r clk tbl) did))"
    using h s True assms(1) unfolding version_held_def
    by (auto simp: upsert_device_def Let_def dict_simps simp del: split_paired_Ex)
  then show ?thesis using True assms(1) by (auto simp: upsert_device_def Let_def dict_simps)
qed (use assms in \<open>auto simp: upsert_device_def Let_def dict_simps\<close>)

lemma write_late:
  assumes "dict_get tbl did = Some e" "version_held v c e" "late_report did c w"
  shows "\<exists>e'. dict_get (write_device tbl w) did = Some e' \<and> version_held v c e'"
proof (cases w)
  case (Upsert d r clk)
  with assms upsert_late show ?thesis by auto
next
  case (Touch d r clk)
  with assms upsert_late[OF assms(1,2), of d "r\<lparr>dr_profile := (dr_profile r)\<lparr>pf_manufacturer := None, pf_model := None, pf_chassis := None\<rparr>\<rparr>" clk]
  show ?thesis by (simp add: touch_device_def created_late_def)
next
  case (Status d s now)
  with assms show ?thesis by (auto simp: set_update_status_def version_held_def dict_simps split: option.split)
qed

text \<open>C11: Late messages do not roll a version back.  Once a row holds version \<open>v\<close> since the instant \<open>c\<close>, any messages that were created no later
  than \<open>c\<close> and are received within the hour after it, from the buffer of the agent and in any order, leave a version that is not lower
  than \<open>v\<close>, whatever versions they carry.\<close>
theorem late_messages_keep_version:
  assumes "dict_get tbl did = Some e" "parse_version (de_version e) = Some v" "stamp_of (de_version_changed e) = Some c"
    "list_all (late_report did c) ws"
  shows "\<exists>e' v'. dict_get (write_devices ws tbl) did = Some e' \<and> parse_version (de_version e') = Some v' \<and> v \<le> v'"
proof -
  have "version_held v c e" using assms(2,3) by (simp add: version_held_def)
  with assms(1,4) have "\<exists>e'. dict_get (write_devices ws tbl) did = Some e' \<and> version_held v c e'"
  proof (induction ws arbitrary: tbl e)
    case (Cons w ws)
    then have "list_all (late_report did c) ws" "late_report did c w" by simp_all
    with write_late[OF Cons.prems(1,3)] obtain e1 where "dict_get (write_device tbl w) did = Some e1" "version_held v c e1" by blast
    from Cons.IH[OF this(1) _ this(2)] \<open>list_all (late_report did c) ws\<close> show ?case by (simp add: write_devices_def)
  qed (simp add: write_devices_def)
  then show ?thesis by (auto simp: version_held_def)
qed

subsection \<open>The newest status of an update\<close>

definition status_of :: "device_entry \<Rightarrow> update_status" where
  "status_of e = \<lparr>ur_state = de_update_state e, ur_error = de_update_error e, ur_checked = de_update_checked e,
     ur_available = de_update_available e\<rparr>"

definition clip_status :: "update_status \<Rightarrow> update_status" where
  "clip_status s = s\<lparr>ur_error := clipped (ur_error s)\<rparr>"

definition write_statuses :: "string \<Rightarrow> (update_status \<times> int) list \<Rightarrow> device_table \<Rightarrow> device_table" where
  "write_statuses did ss tbl = write_devices (map (\<lambda>(s, now). Status did s now) ss) tbl"

lemma write_status:
  assumes "dict_get tbl did = Some e"
  shows "\<exists>e'. dict_get (set_update_status did s now tbl) did = Some e' \<and>
    status_of e' = (if replayed_status e s now then status_of e else clip_status s)"
  using assms by (auto simp: set_update_status_def dict_simps status_of_def clip_status_def)

lemma statuses_newest:
  assumes "dict_get tbl did = Some e" "status_of e = clip_status w" "stamp_of (ur_checked w) = Some t"
    "\<forall>(s, now) \<in> set ss. \<exists>i. stamp_of (ur_checked s) = Some i" "\<forall>s \<in> insert w (fst ` set ss). \<forall>now \<in> snd ` set ss. \<forall>i. stamp_of (ur_checked s) = Some i \<longrightarrow> i \<le> now + FUTURE_TOLERANCE"
  shows "\<exists>e' x. dict_get (write_statuses did ss tbl) did = Some e' \<and> x \<in> insert w (fst ` set ss) \<and> status_of e' = clip_status x \<and>
    (\<forall>s \<in> insert w (fst ` set ss). stamp_of (ur_checked s) \<le> stamp_of (ur_checked x))"
  using assms
proof (induction ss arbitrary: tbl e w t)
  case Nil
  then show ?case by (auto simp: write_statuses_def write_devices_def)
next
  case (Cons p ss)
  obtain s now where p: "p = (s, now)" by (cases p)
  from Cons.prems(4) p obtain i where i: "stamp_of (ur_checked s) = Some i" by auto
  have c: "de_update_checked e = ur_checked w" using arg_cong[OF Cons.prems(2), of ur_checked] by (simp add: status_of_def clip_status_def)
  have t: "t \<le> now + FUTURE_TOLERANCE" using Cons.prems(3,5) p by auto
  from write_status[OF Cons.prems(1)] obtain e1 where e1: "dict_get (set_update_status did s now tbl) did = Some e1"
    "status_of e1 = (if replayed_status e s now then status_of e else clip_status s)" by blast
  have r: "replayed_status e s now \<longleftrightarrow> i < t" using t by (simp add: replayed_status_def c Cons.prems(3) i)
  define w1 where "w1 = (if i < t then w else s)"
  have w1: "status_of e1 = clip_status w1" "stamp_of (ur_checked w1) = Some (max i t)" "w1 \<in> {w, s}"
    using e1(2) r Cons.prems(2,3) i by (auto simp: w1_def max_def)
  have f: "\<forall>(s, now) \<in> set ss. \<exists>i. stamp_of (ur_checked s) = Some i" using Cons.prems(4) by simp
  have g: "\<forall>s \<in> insert w1 (fst ` set ss). \<forall>now \<in> snd ` set ss. \<forall>i. stamp_of (ur_checked s) = Some i \<longrightarrow> i \<le> now + FUTURE_TOLERANCE"
    using Cons.prems(5) w1(3) p by auto
  from Cons.IH[OF e1(1) w1(1,2) f g] obtain e' x where x: "dict_get (write_statuses did ss (set_update_status did s now tbl)) did = Some e'"
    "x \<in> insert w1 (fst ` set ss)" "status_of e' = clip_status x" "\<forall>s \<in> insert w1 (fst ` set ss). stamp_of (ur_checked s) \<le> stamp_of (ur_checked x)"
    by blast
  have "stamp_of (ur_checked w1) \<le> stamp_of (ur_checked x)" using x(4) by simp
  then have "stamp_of (ur_checked s) \<le> stamp_of (ur_checked x)" "stamp_of (ur_checked w) \<le> stamp_of (ur_checked x)"
    using w1(2) i Cons.prems(3) by (auto simp: less_eq_option_def split: option.splits)
  then show ?case using x w1(3) p by (auto simp: write_statuses_def write_devices_def)
qed


text \<open>The newest status wins.  Whatever the order in which the reports on the agent's own update arrive, the row of a machine that had
  none ends with the report that was made last, as long as no report is dated past the tolerance for the future.\<close>
theorem newest_status_wins:
  assumes "dict_get tbl did = Some e" "de_update_checked e = None" "ss \<noteq> []"
    "list_all (\<lambda>(s, now). stamp_of (ur_checked s) \<noteq> None) ss"
    "list_all (\<lambda>(s, now). list_all (\<lambda>(s', now'). case stamp_of (ur_checked s) of None \<Rightarrow> True | Some i \<Rightarrow> i \<le> now' + FUTURE_TOLERANCE) ss) ss"
  shows "\<exists>e' x. dict_get (write_statuses did ss tbl) did = Some e' \<and> x \<in> fst ` set ss \<and> status_of e' = clip_status x \<and>
    list_all (\<lambda>(s, now). stamp_of (ur_checked s) \<le> stamp_of (ur_checked x)) ss"
proof -
  obtain s now ss' where ss: "ss = (s, now) # ss'" using assms(3) by (cases ss) auto
  have "\<not> replayed_status e s now" using assms(2) by (simp add: replayed_status_def stamp_of_def)
  with write_status[OF assms(1), of s now] obtain e1 where e1: "dict_get (set_update_status did s now tbl) did = Some e1"
    "status_of e1 = clip_status s" by auto
  obtain t where t: "stamp_of (ur_checked s) = Some t" using assms(4) ss by auto
  have "\<forall>(s, now) \<in> set ss'. \<exists>i. stamp_of (ur_checked s) = Some i" using assms(4) ss by (auto simp: list_all_iff)
  moreover have "\<forall>x \<in> insert s (fst ` set ss'). \<forall>now \<in> snd ` set ss'. \<forall>i. stamp_of (ur_checked x) = Some i \<longrightarrow> i \<le> now + FUTURE_TOLERANCE"
    using assms(5) unfolding ss by (fastforce simp: list_all_iff split: option.splits)
  ultimately obtain e' x where x: "dict_get (write_statuses did ss' (set_update_status did s now tbl)) did = Some e'"
    "x \<in> insert s (fst ` set ss')" "status_of e' = clip_status x"
    "\<forall>s \<in> insert s (fst ` set ss'). stamp_of (ur_checked s) \<le> stamp_of (ur_checked x)"
    using statuses_newest[OF e1 t] by blast
  have "list_all (\<lambda>(s, now). stamp_of (ur_checked s) \<le> stamp_of (ur_checked x)) ss"
    using x(4) by (auto simp: ss list_all_iff)
  moreover have "dict_get (write_statuses did ss tbl) did = Some e'" using x(1) by (simp add: ss write_statuses_def write_devices_def)
  moreover have "x \<in> fst ` set ss" using x(2) by (simp add: ss)
  ultimately show ?thesis using x(3) by blast
qed

subsection \<open>A machine\<close>

definition new_year :: string where "new_year = ''2026-01-01T00:00:00+00:00''"
definition half_past :: string where "half_past = ''2026-01-01T00:30:00+00:00''"

definition no_profile :: profile where
  "no_profile = \<lparr>pf_hostname = None, pf_manufacturer = None, pf_model = None, pf_chassis = None, pf_site_code = None, pf_site_name = None,
     pf_org_code = None, pf_dept_code = None, pf_comment = None, pf_owner_full_name = None, pf_owner_position = None,
     pf_owner_phone = None\<rparr>"

definition updated_machine :: device_entry where
  "updated_machine = \<lparr>de_profile = no_profile\<lparr>pf_hostname := Some ''pc-1''\<rparr>, de_version = Some ''1.3.0'', de_first_seen = new_year,
     de_last_seen = new_year, de_reported = new_year, de_drift = None, de_version_changed = Some new_year, de_update_state = None,
     de_update_error = None, de_update_checked = None, de_update_available = None\<rparr>"

definition old_report :: device_report where
  \<comment> \<open>what the buffer still holds from before the update\<close>
  "old_report = \<lparr>dr_ts = new_year, dr_version = ''1.2.0'', dr_profile = no_profile\<lparr>pf_site_code := Some ''S7''\<rparr>, dr_received = Some half_past,
     dr_reported = Some new_year, dr_drift = None, dr_envelope = Some new_year\<rparr>"

definition half_past_clock :: wall_clock where
  "half_past_clock = \<lparr>wc_iso = half_past, wc_us = 1767227400000000\<rparr>"

lemma machine_stamps: "stamp_of (Some new_year) = Some 1767225600000000" "stamp_of (Some half_past) = Some 1767227400000000"
  by code_simp+

lemma received_text: "or_text (Some half_past) d = half_past"
  by (simp add: or_text_def half_past_def)

lemma machine_versions: "parse_version (Some ''1.3.0'') = Some (1, 3, 0)"
  by code_simp

theorem known_identity_survives_witness:
  "\<exists>e'. dict_get (write_devices [Touch ''d1'' old_report half_past_clock] [(''d1'', updated_machine)]) ''d1'' = Some e' \<and>
     pf_hostname (de_profile e') = Some ''pc-1'' \<and> pf_site_code (de_profile e') = Some ''S7'' \<and> de_first_seen e' = new_year"
  using known_identity_survives[of "[(''d1'', updated_machine)]" "''d1''" updated_machine "[Touch ''d1'' old_report half_past_clock]"]
  by (auto simp: PROFILE_COLUMNS_def last_told_def List.map_filter_simps updated_machine_def old_report_def no_profile_def)

theorem late_messages_keep_version_witness:
  "\<exists>e' v'. dict_get (write_devices [Touch ''d1'' old_report half_past_clock] [(''d1'', updated_machine)]) ''d1'' = Some e' \<and>
     parse_version (de_version e') = Some v' \<and> (1, 3, 0) \<le> v'"
proof -
  have "late_report ''d1'' 1767225600000000 (Touch ''d1'' old_report half_past_clock)"
    by (simp add: created_late_def old_report_def received_text half_past_clock_def machine_stamps VERSION_STALENESS_ESCAPE_def)
  then show ?thesis
    by (intro late_messages_keep_version[where e = updated_machine and c = 1767225600000000])
      (simp_all add: updated_machine_def machine_stamps machine_versions)
qed

definition status_at :: "string \<Rightarrow> string \<Rightarrow> update_status" where
  "status_at st t = \<lparr>ur_state = Some st, ur_error = None, ur_checked = Some t, ur_available = None\<rparr>"

theorem newest_status_wins_witness:
  "\<exists>e'. dict_get (write_statuses ''d1'' [(status_at ''ok'' half_past, 1767227400000000), (status_at ''failed'' new_year, 1767227400000000)]
       [(''d1'', updated_machine)]) ''d1'' = Some e' \<and> de_update_state e' = Some ''ok''"
proof -
  let ?ss = "[(status_at ''ok'' half_past, 1767227400000000 :: int), (status_at ''failed'' new_year, 1767227400000000)]"
  have "\<exists>e' x. dict_get (write_statuses ''d1'' ?ss [(''d1'', updated_machine)]) ''d1'' = Some e' \<and> x \<in> fst ` set ?ss \<and>
      status_of e' = clip_status x \<and> list_all (\<lambda>(s, now). stamp_of (ur_checked s) \<le> stamp_of (ur_checked x)) ?ss"
    by (rule newest_status_wins[where e = updated_machine])
      (simp_all add: updated_machine_def status_at_def machine_stamps FUTURE_TOLERANCE_def)
  then show ?thesis by (auto simp: status_at_def machine_stamps status_of_def clip_status_def)
qed

end
