(* ===== verification/Telemetry.thy ===== *)
theory Telemetry imports RowLog DeviceTable ErrChain begin

text \<open>
  The telemetry tables of \<open>server/db.py\<close>: inventory, history, heartbeats and events, the readers the scoring uses, and the daily counts
  of events, which are taken before the cap trims a storm.  Stored JSON is the value that was stored; an event carries the fields the
  message contract gives it.
\<close>

subsection \<open>Readings\<close>

record telemetry_row =
  rd_ts :: string
  rd_payload :: jobj
  rd_received :: string
  rd_drift :: "pyfloat option"

type_synonym telemetry_log = "(string, telemetry_row) log"

definition store_inventory :: "string \<Rightarrow> string \<Rightarrow> jobj \<Rightarrow> (string, string \<times> jobj) dict \<Rightarrow> (string, string \<times> jobj) dict" where
  "store_inventory did ts payload t = dict_set t did (ts, payload)"

definition store_historical :: "nat \<Rightarrow> string \<Rightarrow> telemetry_row \<Rightarrow> telemetry_log \<Rightarrow> telemetry_log" where
  "store_historical cap did r t = append_row cap did r t"

definition store_heartbeat :: "nat \<Rightarrow> string \<Rightarrow> telemetry_row \<Rightarrow> telemetry_log \<Rightarrow> telemetry_log" where
  "store_heartbeat cap did r t = append_row cap did r t"

definition merge_obj :: "jobj \<Rightarrow> jobj \<Rightarrow> jobj" where
  \<comment> \<open>\<open>{**a, **b}\<close>\<close>
  "merge_obj a b = foldl (\<lambda>d (k, v). dict_set d k v) a b"

definition jfloat :: "pyfloat option \<Rightarrow> jval" where
  "jfloat x = (case x of None \<Rightarrow> JNull | Some f \<Rightarrow> JFloat f)"

definition jtext :: "string option \<Rightarrow> jval" where
  "jtext x = (case x of None \<Rightarrow> JNull | Some s \<Rightarrow> JStr s)"

definition series_row :: "telemetry_row \<Rightarrow> jobj" where
  "series_row r = merge_obj [(''ts'', JStr (rd_ts r)), (''received_at'', JStr (rd_received r)), (''clock_drift_sec'', jfloat (rd_drift r))]
     (rd_payload r)"

definition get_inventory :: "string \<Rightarrow> (string, string \<times> jobj) dict \<Rightarrow> jobj option" where
  "get_inventory did t = map_option (\<lambda>(ts, p). merge_obj [(''ts'', JStr ts)] p) (dict_get t did)"

definition get_historical :: "string \<Rightarrow> telemetry_log \<Rightarrow> jobj option" where
  "get_historical did t = (case newest did t of [] \<Rightarrow> None | r # _ \<Rightarrow> Some (merge_obj [(''ts'', JStr (rd_ts r))] (rd_payload r)))"

definition get_historical_series :: "nat \<Rightarrow> string \<Rightarrow> telemetry_log \<Rightarrow> jobj list" where
  "get_historical_series limit did t = map series_row (take limit (newest did t))"

definition get_recent_heartbeats :: "nat \<Rightarrow> string \<Rightarrow> telemetry_log \<Rightarrow> jobj list" where
  "get_recent_heartbeats limit did t = map series_row (take limit (newest did t))"

interpretation heartbeats: capped_log "store_heartbeat n" newest "\<lambda>r. r" n for n :: nat
  by unfold_locales (simp_all add: store_heartbeat_def log_simps)

interpretation history: capped_log "store_historical n" newest "\<lambda>r. r" n for n :: nat
  by unfold_locales (simp_all add: store_historical_def log_simps)

text \<open>The engines read what the agents sent: after any heartbeats of a fleet, the newest-first series of a machine is made of its own last
  heartbeats, as many as the table keeps and the reader asks for, and of nothing else.\<close>
theorem series_is_what_was_sent:
  "get_recent_heartbeats limit did (foldl (\<lambda>t (d, r). store_heartbeat cap d r t) [] ms) =
     map series_row (take (min limit cap) (rev (own_rows did ms)))"
proof -
  have "newest did (foldl (\<lambda>t (d, r). store_heartbeat cap d r t) [] ms) = take cap (rev (own_rows did ms))"
    using heartbeats.stored_last[of did cap ms "[]"] by (simp add: heartbeats.store_all_def newest_def split: if_splits)
  then show ?thesis by (simp add: get_recent_heartbeats_def min.commute)
qed

lemma merge_get: "wf_dict b \<Longrightarrow> dict_get (merge_obj a b) k = (case dict_get b k of None \<Rightarrow> dict_get a k | Some v \<Rightarrow> Some v)"
proof (induction b arbitrary: a)
  case (Cons kv b)
  then have "wf_dict b" "dict_get b (fst kv) = None" by (auto simp: wf_dict_def map_of_eq_None_iff)
  with Cons.IH[of "dict_set a (fst kv) (snd kv)"] show ?case
    by (cases kv) (auto simp: merge_obj_def dict_simps split: option.split)
qed (simp add: merge_obj_def)

text \<open>C40: The receipt stamp of the server is not safe from the agent: a heartbeat whose payload has a field \<open>received_at\<close> (extra fields are let
  through) replaces it in the series the engines read, so the agent's own clock decides where the telemetry_row lies in time.\<close>
theorem payload_overrides_receipt:
  assumes "wf_dict (rd_payload r)" "dict_get (rd_payload r) ''received_at'' = Some (JStr s)" "s \<noteq> []"
  shows "row_time (series_row r) = parse_iso (JStr s)"
  using assms by (simp add: row_time_def series_row_def jget_def merge_get)

subsection \<open>Events\<close>

record event_item =
  ei_ts :: "string option"
  ei_log :: "string option"
  ei_source :: "string option"
  ei_id :: "int option"
  ei_level :: "string option"
  ei_message :: "string option"

record event_row =
  ev_ts :: "string option"
  ev_log :: "string option"
  ev_source :: "string option"
  ev_id :: "int option"
  ev_level :: "string option"
  ev_message :: string
  ev_received :: string
  ev_drift :: "pyfloat option"

type_synonym event_log = "(string, event_row) log"
type_synonym rollups = "(string \<times> string \<times> string, nat) dict"

definition event_row_of :: "string \<Rightarrow> pyfloat option \<Rightarrow> event_item \<Rightarrow> event_row" where
  "event_row_of recv drift e = \<lparr>ev_ts = ei_ts e, ev_log = ei_log e, ev_source = ei_source e, ev_id = ei_id e, ev_level = ei_level e,
     ev_message = take 500 (case ei_message e of None \<Rightarrow> '''' | Some m \<Rightarrow> m), ev_received = recv, ev_drift = drift\<rparr>"

definition EVENT_SOURCE_MAX_LEN :: nat where "EVENT_SOURCE_MAX_LEN = 64"
definition MAX_EVENT_KEYS :: nat where "MAX_EVENT_KEYS = 64"

definition utc_day :: "string \<Rightarrow> string" where
  "utc_day s = take 10 s"

definition event_key :: "event_row \<Rightarrow> string option" where
  "event_key r = (case ev_id r of None \<Rightarrow> None
     | Some i \<Rightarrow> Some (take EVENT_SOURCE_MAX_LEN (case ev_source r of None \<Rightarrow> '''' | Some s \<Rightarrow> s) @ '':'' @ int_str i))"

definition count_event :: "(string \<times> string, nat) dict \<Rightarrow> string \<times> event_row \<Rightarrow> (string \<times> string, nat) dict" where
  "count_event c p = (case event_key (snd p) of None \<Rightarrow> c
     | Some k \<Rightarrow> dict_set c (fst p, k) (Suc (case dict_get c (fst p, k) of None \<Rightarrow> 0 | Some n \<Rightarrow> n)))"

definition cap_event_keys :: "(string \<times> string, nat) dict \<Rightarrow> (string \<times> string, nat) dict" where
  \<comment> \<open>per machine the keys with the highest counts, earlier ones first among equals\<close>
  "cap_event_keys counts = concat (map (\<lambda>(d, ps). take MAX_EVENT_KEYS (sort_key (\<lambda>e. - int (snd e)) ps))
     (group_by (\<lambda>e. Some (fst (fst e))) counts))"

definition held_count :: "('k, nat) dict \<Rightarrow> 'k \<Rightarrow> nat" where
  "held_count d k = (case dict_get d k of None \<Rightarrow> 0 | Some n \<Rightarrow> n)"

definition rollup_events :: "string \<Rightarrow> string option \<Rightarrow> event_log \<Rightarrow> rollups \<Rightarrow> rollups" where
  \<comment> \<open>\<open>_rollup_events_daily_conn\<close>: of one machine, or of all\<close>
  "rollup_events day dev t ro =
     (let ps = filter (\<lambda>(d, r). (dev = None \<or> dev = Some d) \<and> utc_day (ev_received r) = day) t
      in foldl (\<lambda>ro ((d, k), n). dict_set ro (d, day, k) (max (held_count ro (d, day, k)) n)) ro (cap_event_keys (foldl count_event [] ps)))"

definition store_events :: "nat \<Rightarrow> string \<Rightarrow> event_item list \<Rightarrow> string \<Rightarrow> pyfloat option \<Rightarrow> event_log \<times> rollups \<Rightarrow> event_log \<times> rollups" where
  \<comment> \<open>the counts are taken before the cap\<close>
  "store_events cap did events recv drift w =
     (if events = [] then w
      else let t = fst w @ map (\<lambda>e. (did, event_row_of recv drift e)) events
           in (keep_newest cap did t, rollup_events (utc_day recv) (Some did) t (snd w)))"

definition rollup_events_daily :: "string \<Rightarrow> event_log \<times> rollups \<Rightarrow> event_log \<times> rollups" where
  "rollup_events_daily day w = (fst w, rollup_events day None (fst w) (snd w))"

definition event_obj :: "event_row \<Rightarrow> jobj" where
  "event_obj r = [(''ts'', jtext (ev_ts r)), (''received_at'', JStr (ev_received r)), (''source'', jtext (ev_source r)),
     (''event_id'', case ev_id r of None \<Rightarrow> JNull | Some i \<Rightarrow> JInt i), (''level'', jtext (ev_level r))]"

definition get_recent_events :: "nat \<Rightarrow> string \<Rightarrow> event_log \<Rightarrow> jobj list" where
  "get_recent_events limit did t = map event_obj (take limit (newest did t))"

definition get_event_rollups :: "string \<Rightarrow> string \<Rightarrow> rollups \<Rightarrow> jobj list" where
  \<comment> \<open>from a day on, newest first\<close>
  "get_event_rollups did since_day ro = map (\<lambda>((d, day, k), n). [(''day'', JStr day), (''event_key'', JStr k), (''n'', JInt (int n))])
     (rev (sort_key (\<lambda>((d, day, k), n). day) (filter (\<lambda>((d, day, k), n). d = did \<and> since_day \<le> day) ro)))"

subsection \<open>Counting\<close>

definition event_tally :: "string \<Rightarrow> string \<Rightarrow> string \<Rightarrow> (string \<times> event_row) list \<Rightarrow> nat" where
  \<comment> \<open>the events of a machine, a day and a key\<close>
  "event_tally did day k ps = length (filter (\<lambda>(d, r). d = did \<and> utc_day (ev_received r) = day \<and> event_key r = Some k) ps)"

definition key_count :: "string \<times> string \<Rightarrow> (string \<times> event_row) list \<Rightarrow> nat" where
  "key_count dk ps = length (filter (\<lambda>(d, r). d = fst dk \<and> event_key r = Some (snd dk)) ps)"

lemma key_count_snoc: "key_count dk (ps @ [(d, r)]) = key_count dk ps + (if d = fst dk \<and> event_key r = Some (snd dk) then 1 else 0)"
  by (simp add: key_count_def)

lemma count_events: "dict_get (foldl count_event [] ps) dk = (if key_count dk ps = 0 then None else Some (key_count dk ps))"
proof (induction ps rule: rev_induct)
  case Nil
  then show ?case by (simp add: key_count_def)
next
  case (snoc p ps)
  obtain d r where p: "p = (d, r)" by (cases p)
  obtain d1 k1 where dk: "dk = (d1, k1)" by (cases dk)
  show ?case using snoc by (cases "event_key r") (auto simp: p dk key_count_snoc count_event_def dict_simps)
qed

lemma wf_count_events: "wf_dict (foldl count_event [] ps)"
  by (induction ps rule: rev_induct) (auto simp: count_event_def split: option.split)

lemma mset_concat_take: "mset (concat (map (\<lambda>(d, ps). take m (sort_key f ps)) gs)) \<subseteq># mset (concat (map snd gs))"
proof (induction gs)
  case (Cons g gs)
  obtain d ps where g: "g = (d, ps)" by (cases g)
  have "mset (take m (sort_key f ps)) \<subseteq># mset ps" by (metis append_take_drop_id mset_append mset_sort mset_subset_eq_add_left)
  with Cons show ?case by (simp add: g subset_mset.add_mono)
qed simp

lemma cap_sub: "mset (cap_event_keys c) \<subseteq># mset c"
proof -
  have "mset (concat (map snd (group_by (\<lambda>e. Some (fst (fst e))) c))) = mset c"
    by (simp add: mset_group_by)
  then show ?thesis unfolding cap_event_keys_def using mset_concat_take by metis
qed

lemma distinct_sub:
  assumes "distinct xs" "mset ys \<subseteq># mset xs"
  shows "distinct ys"
  unfolding distinct_count_atmost_1
proof
  fix a
  have "count (mset ys) a \<le> count (mset xs) a" by (rule mset_subset_eq_count[OF assms(2)])
  moreover have "count (mset xs) a \<le> 1" using assms(1) by (simp add: distinct_count_atmost_1)
  ultimately show "count (mset ys) a = (if a \<in> set ys then 1 else 0)" by (auto simp: count_eq_zero_iff)
    (metis One_nat_def Suc_leI count_greater_zero_iff le_antisym le_trans set_mset_mset)
qed

lemma wf_cap: "wf_dict c \<Longrightarrow> wf_dict (cap_event_keys c)"
  unfolding wf_dict_def by (rule distinct_sub, assumption) (metis cap_sub image_mset_subseteq_mono mset_map)

lemma cap_get: "wf_dict c \<Longrightarrow> dict_get (cap_event_keys c) dk = Some n \<Longrightarrow> dict_get c dk = Some n"
  using mset_subset_eqD[OF cap_sub[of c]] by (metis map_of_SomeD map_of_is_SomeI set_mset_mset wf_dict_def)

lemma cap_inert:
  assumes "wf_dict c" "length (filter (\<lambda>e. fst (fst e) = d) c) \<le> MAX_EVENT_KEYS"
  shows "dict_get (cap_event_keys c) (d, k) = dict_get c (d, k)"
proof (cases "dict_get c (d, k)")
  case None
  then show ?thesis using cap_get[OF assms(1), of "(d, k)"] by (cases "dict_get (cap_event_keys c) (d, k)") auto
next
  case (Some n)
  let ?ps = "filter (\<lambda>e. fst (fst e) = d) c"
  have m: "((d, k), n) \<in> set ?ps" using map_of_SomeD[OF Some] by simp
  then have "?ps \<noteq> []" by (metis empty_iff list.set(1))
  then have "(d, ?ps) \<in> set (group_by (\<lambda>e. Some (fst (fst e))) c)" by (simp add: group_by_iff)
  moreover have "((d, k), n) \<in> set (take MAX_EVENT_KEYS (sort_key (\<lambda>e. - int (snd e)) ?ps))" using m assms(2) by simp
  ultimately have "((d, k), n) \<in> set (cap_event_keys c)" unfolding cap_event_keys_def set_concat set_map by force
  then show ?thesis using Some wf_cap[OF assms(1)] by (simp add: wf_dict_def)
qed

lemma rollup_fold:
  assumes "wf_dict c"
  shows "held_count (foldl (\<lambda>ro ((d, k), n). dict_set ro (d, day, k) (max (held_count ro (d, day, k)) n)) ro c) (did, dy, k) =
    (if dy = day then max (held_count ro (did, dy, k)) (held_count c (did, k)) else held_count ro (did, dy, k))"
  using assms
proof (induction c arbitrary: ro)
  case Nil
  then show ?case by (simp add: held_count_def)
next
  case (Cons e c)
  obtain d1 k1 n1 where e: "e = ((d1, k1), n1)" by (metis prod.exhaust)
  from Cons.prems have w: "wf_dict c" "dict_get c (d1, k1) = None" by (auto simp: wf_dict_def e map_of_eq_None_iff)
  show ?case unfolding e foldl_Cons prod.case Cons.IH[OF w(1)] using w(2) by (auto simp: held_count_def dict_simps)
qed

definition day_events :: "string \<Rightarrow> string option \<Rightarrow> event_log \<Rightarrow> event_log" where
  "day_events day dev t = filter (\<lambda>(d, r). (dev = None \<or> dev = Some d) \<and> utc_day (ev_received r) = day) t"

lemma rollup_count: "held_count (rollup_events day dev t ro) (did, dy, k) =
    (if dy = day then max (held_count ro (did, dy, k)) (held_count (cap_event_keys (foldl count_event [] (day_events day dev t))) (did, k))
     else held_count ro (did, dy, k))"
  by (simp add: rollup_events_def day_events_def Let_def rollup_fold wf_cap wf_count_events)

lemma key_count_event_tally: "key_count (did, k) (day_events day dev t) = (if dev = None \<or> dev = Some did then event_tally did day k t else 0)"
  unfolding key_count_def day_events_def event_tally_def by (auto simp: filter_empty_conv intro!: arg_cong[of _ _ length] filter_cong)

lemma capped_count_le: "held_count (cap_event_keys (foldl count_event [] (day_events day dev t))) (did, k) \<le> event_tally did day k t"
proof (cases "dict_get (cap_event_keys (foldl count_event [] (day_events day dev t))) (did, k)")
  case (Some n)
  then have "dict_get (foldl count_event [] (day_events day dev t)) (did, k) = Some n" by (rule cap_get[OF wf_count_events])
  then have "n \<le> event_tally did day k t" by (auto simp: count_events key_count_event_tally split: if_splits)
  then show ?thesis using Some by (simp add: held_count_def)
qed (simp add: held_count_def)

lemma tally_mono: "mset t \<subseteq># mset u \<Longrightarrow> event_tally did day k t \<le> event_tally did day k u"
  unfolding event_tally_def size_mset[symmetric] mset_filter by (intro size_mset_mono multiset_filter_mono)


subsection \<open>A storm of events\<close>

record event_batch =
  eb_device :: string
  eb_events :: "event_item list"
  eb_received :: string
  eb_drift :: "pyfloat option"

definition batch_rows :: "event_batch \<Rightarrow> (string \<times> event_row) list" where
  "batch_rows b = map (\<lambda>e. (eb_device b, event_row_of (eb_received b) (eb_drift b) e)) (eb_events b)"

definition all_rows :: "event_batch list \<Rightarrow> (string \<times> event_row) list" where
  "all_rows bs = concat (map batch_rows bs)"

definition event_run :: "nat \<Rightarrow> event_batch list \<Rightarrow> event_log \<times> rollups" where
  "event_run cap bs = foldl (\<lambda>w b. store_events cap (eb_device b) (eb_events b) (eb_received b) (eb_drift b) w) ([], []) bs"

lemma event_run_snoc: "event_run cap (bs @ [b]) =
    (if eb_events b = [] then event_run cap bs
     else let t = fst (event_run cap bs) @ batch_rows b
          in (keep_newest cap (eb_device b) t, rollup_events (utc_day (eb_received b)) (Some (eb_device b)) t (snd (event_run cap bs))))"
  by (simp add: event_run_def store_events_def batch_rows_def Let_def)

lemma all_rows_snoc [simp]: "all_rows (bs @ [b]) = all_rows bs @ batch_rows b"
  by (simp add: all_rows_def)

lemma batch_rows_Nil [simp]: "eb_events b = [] \<Longrightarrow> batch_rows b = []"
  by (simp add: batch_rows_def)

lemma table_sub: "mset (fst (event_run cap bs)) \<subseteq># mset (all_rows bs)"
proof (induction bs rule: rev_induct)
  case (snoc b bs)
  have "mset (fst (event_run cap bs) @ batch_rows b) \<subseteq># mset (all_rows (bs @ [b]))" using snoc by (simp add: subset_mset.add_mono)
  then show ?case using snoc by (auto simp: event_run_snoc Let_def intro: subset_mset.order_trans[OF mset_keep_newest])
qed (simp add: event_run_def)

lemma tally_append: "event_tally did day k (t @ u) = event_tally did day k t + event_tally did day k u"
  by (simp add: event_tally_def)

lemma rollup_le: "held_count (snd (event_run cap bs)) (did, day, k) \<le> event_tally did day k (all_rows bs)"
proof (induction bs rule: rev_induct)
  case Nil
  then show ?case by (simp add: event_run_def held_count_def)
next
  case (snoc b bs)
  have "event_tally did day k (fst (event_run cap bs) @ batch_rows b) \<le> event_tally did day k (all_rows (bs @ [b]))"
    by (rule tally_mono) (simp add: table_sub subset_mset.add_mono)
  then have "held_count (cap_event_keys (foldl count_event [] (day_events day (Some (eb_device b)) (fst (event_run cap bs) @ batch_rows b)))) (did, k)
      \<le> event_tally did day k (all_rows (bs @ [b]))"
    by (rule order_trans[OF capped_count_le])
  then show ?case using snoc by (auto simp: event_run_snoc Let_def rollup_count tally_append)
qed

lemma untrimmed:
  assumes "length (own_rows did (all_rows bs)) \<le> cap"
  shows "own_rows did (fst (event_run cap bs)) = own_rows did (all_rows bs)"
  using assms
proof (induction bs rule: rev_induct)
  case (snoc b bs)
  then have r: "own_rows did (fst (event_run cap bs)) = own_rows did (all_rows bs)" by simp
  have "own_rows did (keep_newest cap d t) = own_rows did t" if "length (own_rows did t) \<le> cap" for d and t :: event_log
    using that newest_keep[of did cap d t] by (cases "did = d") (simp_all add: newest_def)
  with r snoc.prems show ?case by (auto simp: event_run_snoc Let_def)
qed (simp add: event_run_def all_rows_def)

lemma rows_event_tally: "event_tally did day k t = length (filter (\<lambda>r. utc_day (ev_received r) = day \<and> event_key r = Some k) (own_rows did t))"
proof (induction t)
  case (Cons p t)
  then show ?case by (cases p) (simp add: event_tally_def)
qed (simp add: event_tally_def)

lemma keys_bound:
  assumes "mset t \<subseteq># mset u"
  shows "length (filter (\<lambda>e. fst (fst e) = did) (foldl count_event [] (day_events day (Some did) t)))
    \<le> length (remdups (map event_key (own_rows did u)))"
proof -
  let ?c = "foldl count_event [] (day_events day (Some did) t)"
  let ?f = "filter (\<lambda>e. fst (fst e) = did) ?c"
  have d: "distinct (map fst ?c)" using wf_count_events[of "day_events day (Some did) t"] by (simp add: wf_dict_def)
  have "Some (snd (fst e)) \<in> set (map event_key (own_rows did u))" if "e \<in> set ?f" for e
  proof -
    from that have "dict_get ?c (fst e) = Some (snd e)" "fst (fst e) = did" using d by auto
    then have "key_count (did, snd (fst e)) (day_events day (Some did) t) \<noteq> 0"
      by (cases e) (auto simp: count_events split: if_splits)
    then have "0 < event_tally did day (snd (fst e)) u"
      using tally_mono[OF assms, of did day "snd (fst e)"] by (simp add: key_count_event_tally)
    then obtain r where "r \<in> set (own_rows did u)" "event_key r = Some (snd (fst e))" by (auto simp: rows_event_tally filter_empty_conv)
    then show ?thesis by (metis image_eqI set_map)
  qed
  then have s: "(\<lambda>e. Some (snd (fst e))) ` set ?f \<subseteq> set (map event_key (own_rows did u))" by blast
  have "inj_on (\<lambda>e. Some (snd (fst e))) (set ?f)"
    using d by (auto simp: inj_on_def distinct_map) (metis (no_types, lifting) fst_conv inj_on_def prod.expand prod.sel)+
  moreover have "distinct ?f" using d by (simp add: distinct_map)
  ultimately have "length ?f \<le> card (set (map event_key (own_rows did u)))"
    using card_mono[OF _ s] by (simp add: card_image flip: distinct_card)
  then show ?thesis by (simp add: length_remdups_card_conv)
qed


lemma batch_counted:
  assumes "eb_device b = did" "eb_events b \<noteq> []" "length (remdups (map event_key (own_rows did (all_rows (bs @ [b]))))) \<le> MAX_EVENT_KEYS"
  shows "event_tally did (utc_day (eb_received b)) k (fst (event_run cap bs) @ batch_rows b) \<le>
    held_count (snd (event_run cap (bs @ [b]))) (did, utc_day (eb_received b), k)"
proof -
  let ?t = "fst (event_run cap bs) @ batch_rows b" and ?day = "utc_day (eb_received b)"
  let ?c = "foldl count_event [] (day_events ?day (Some did) ?t)"
  have "mset ?t \<subseteq># mset (all_rows (bs @ [b]))" by (simp add: table_sub subset_mset.add_mono)
  then have "length (filter (\<lambda>e. fst (fst e) = did) ?c) \<le> MAX_EVENT_KEYS" using keys_bound assms(3) order_trans by blast
  then have "dict_get (cap_event_keys ?c) (did, k) = dict_get ?c (did, k)" by (rule cap_inert[OF wf_count_events])
  then have "held_count (cap_event_keys ?c) (did, k) = event_tally did ?day k ?t"
    by (simp add: held_count_def count_events key_count_event_tally)
  then show ?thesis using assms(1,2) by (simp add: event_run_snoc Let_def rollup_count)
qed

text \<open>C12: A storm is counted before it is trimmed.  For a machine with at most 64 kinds of events, the daily count of a kind is at least what the
  last batch brought, even when the batch overflows the table; it never exceeds what has been received that day, and it is exact as long
  as the machine has sent no more events than the table keeps.\<close>
theorem storm_is_counted_before_trimming:
  assumes "eb_device b = did" "eb_events b \<noteq> []" "length (remdups (map event_key (own_rows did (all_rows (bs @ [b]))))) \<le> MAX_EVENT_KEYS"
  shows "event_tally did (utc_day (eb_received b)) k (batch_rows b) \<le> held_count (snd (event_run cap (bs @ [b]))) (did, utc_day (eb_received b), k) \<and>
    held_count (snd (event_run cap (bs @ [b]))) (did, utc_day (eb_received b), k) \<le> event_tally did (utc_day (eb_received b)) k (all_rows (bs @ [b])) \<and>
    (length (own_rows did (all_rows (bs @ [b]))) \<le> cap \<longrightarrow>
      held_count (snd (event_run cap (bs @ [b]))) (did, utc_day (eb_received b), k) = event_tally did (utc_day (eb_received b)) k (all_rows (bs @ [b])))"
proof -
  let ?day = "utc_day (eb_received b)"
  note counted = batch_counted[OF assms, of k cap]
  have "event_tally did ?day k (all_rows (bs @ [b])) = event_tally did ?day k (fst (event_run cap bs) @ batch_rows b)"
    if "length (own_rows did (all_rows (bs @ [b]))) \<le> cap"
    using untrimmed[of did bs cap] that by (simp add: rows_event_tally)
  then show ?thesis using counted rollup_le[of cap "bs @ [b]" did ?day k] by (auto simp: tally_append)
qed

subsection \<open>Three heartbeats and a storm\<close>

definition disk_event :: event_item where
  "disk_event = \<lparr>ei_ts = None, ei_log = Some ''System'', ei_source = Some ''disk'', ei_id = Some 7, ei_level = Some ''Error'', ei_message = None\<rparr>"

definition disk_storm :: event_batch where
  "disk_storm = \<lparr>eb_device = ''d1'', eb_events = [disk_event, disk_event, disk_event], eb_received = new_year, eb_drift = None\<rparr>"

theorem storm_is_counted_before_trimming_witness:
  "3 \<le> held_count (snd (event_run 2 ([] @ [disk_storm]))) (''d1'', utc_day new_year, ''disk:7'')"
proof -
  have "length (remdups (map event_key (own_rows ''d1'' (all_rows ([] @ [disk_storm]))))) \<le> MAX_EVENT_KEYS" by code_simp
  moreover have "event_tally ''d1'' (utc_day new_year) ''disk:7'' (batch_rows disk_storm) = 3" by code_simp
  moreover have "eb_device disk_storm = ''d1''" "eb_events disk_storm \<noteq> []" "eb_received disk_storm = new_year" by (simp_all add: disk_storm_def)
  ultimately show ?thesis using storm_is_counted_before_trimming[of disk_storm "''d1''" "[]" "''disk:7''" 2] by simp
qed

definition postdated :: telemetry_row where
  "postdated = \<lparr>rd_ts = new_year, rd_payload = [(''received_at'', JStr half_past)], rd_received = new_year, rd_drift = None\<rparr>"

theorem payload_overrides_receipt_witness: "row_time (series_row postdated) = Some 1767227400000000"
proof -
  have "parse_iso (JStr half_past) = Some 1767227400000000" using machine_stamps(2) by (simp add: stamp_of_def)
  then show ?thesis using payload_overrides_receipt[of postdated half_past] by (simp add: postdated_def wf_dict_def half_past_def)
qed

end
