(* ===== verification/DiskReadings.thy ===== *)
theory DiskReadings imports RowLog PyFloat begin

text \<open>
  The readings of physical disks (\<open>server/db.py\<close>): one series per disk, named by the hash of its serial number, with a cap on the rows of a
  series and on the number of series a machine may open.  \<open>hashlib.sha256\<close> and the rendering of a value that is no text are parameters;
  stamps are compared as texts, as SQLite compares them.
\<close>

subsection \<open>Keys\<close>

record disk_row =
  dk_ts :: "string option"
  dk_received :: string
  dk_media :: jval
  dk_payload :: jobj

type_synonym disk_log = "(string \<times> string, disk_row) log"

definition key_text :: "(jval \<Rightarrow> string) \<Rightarrow> jval \<Rightarrow> string" where
  \<comment> \<open>\<open>f"{v or ''}"\<close>\<close>
  "key_text render v = (if truthy v then (case v of JStr s \<Rightarrow> s | _ \<Rightarrow> render v) else '''')"

definition disk_key :: "(string \<Rightarrow> string) \<Rightarrow> (jval \<Rightarrow> string) \<Rightarrow> jobj \<Rightarrow> nat \<Rightarrow> string" where
  "disk_key sha render disk i =
     (if truthy (jget disk ''serial_hash'') then key_text render (jget disk ''serial_hash'')
      else take 16 (sha (key_text render (jget disk ''disk'') @ ''|'' @ key_text render (jget disk ''media_type'') @ ''|'' @ nat_str i)))"

definition MAX_DISK_KEYS :: nat where "MAX_DISK_KEYS = 32"

fun disk_rows_from :: "(jobj \<Rightarrow> nat \<Rightarrow> string) \<Rightarrow> string option \<Rightarrow> string \<Rightarrow> nat \<Rightarrow> jval list \<Rightarrow> (string \<times> disk_row) list" where
  "disk_rows_from key ts recv i [] = []"
| "disk_rows_from key ts recv i (v # vs) = (case v of
     JObj disk \<Rightarrow> (key disk i, \<lparr>dk_ts = ts, dk_received = recv, dk_media = jget disk ''media_type'', dk_payload = disk\<rparr>) #
       disk_rows_from key ts recv (Suc i) vs
   | _ \<Rightarrow> disk_rows_from key ts recv (Suc i) vs)"

definition device_keys :: "string \<Rightarrow> disk_log \<Rightarrow> string list" where
  "device_keys did t = remdups (map (snd \<circ> fst) (filter (\<lambda>e. fst (fst e) = did) t))"

definition active_keys :: "string \<Rightarrow> string \<Rightarrow> disk_log \<Rightarrow> string list" where
  \<comment> \<open>\<open>SELECT DISTINCT disk_key ... AND received_at >= ?\<close>\<close>
  "active_keys did active_since t = device_keys did (filter (\<lambda>e. active_since \<le> dk_received (snd e)) t)"

definition evict_inactive_disk_keys :: "string \<Rightarrow> string \<Rightarrow> disk_log \<Rightarrow> disk_log" where
  \<comment> \<open>\<open>GROUP BY disk_key HAVING MAX(received_at) < ?\<close>\<close>
  "evict_inactive_disk_keys did active_since t =
     filter (\<lambda>e. fst (fst e) = did \<longrightarrow> snd (fst e) \<in> set (active_keys did active_since t)) t"

definition store_disk_readings :: "(jobj \<Rightarrow> nat \<Rightarrow> string) \<Rightarrow> nat \<Rightarrow> string \<Rightarrow> jval list \<Rightarrow> string option \<Rightarrow> string \<Rightarrow> string \<Rightarrow> disk_log \<Rightarrow> disk_log" where
  "store_disk_readings key cap did storage ts recv active_since t =
     (let rows = disk_rows_from key ts recv 0 storage
      in if did = '''' \<or> rows = [] then t
         else let existing = active_keys did active_since t;
                  new_keys = sort (remdups (filter (\<lambda>k. k \<notin> set existing) (map fst rows)));
                  blocked = drop (MAX_DISK_KEYS - length existing) new_keys;
                  kept = filter (\<lambda>r. fst r \<notin> set blocked) rows;
                  t1 = t @ map (\<lambda>(k, r). ((did, k), r)) kept;
                  t2 = foldl (\<lambda>t k. keep_newest cap (did, k) t) t1 (remdups (map fst kept))
              in if new_keys = [] then t2 else evict_inactive_disk_keys did active_since t2)"

definition disk_obj :: "disk_row \<Rightarrow> jobj" where
  "disk_obj r = foldl (\<lambda>d (k, v). dict_set d k v)
     [(''ts'', case dk_ts r of None \<Rightarrow> JNull | Some s \<Rightarrow> JStr s), (''received_at'', JStr (dk_received r)), (''media_type'', dk_media r)] (dk_payload r)"

definition get_disk_series :: "nat \<Rightarrow> string \<Rightarrow> string \<Rightarrow> disk_log \<Rightarrow> jobj list" where
  "get_disk_series limit did key t = map disk_obj (take limit (newest (did, key) t))"

subsection \<open>The number of series\<close>

lemma device_keys_iff: "k \<in> set (device_keys did t) \<longleftrightarrow> (\<exists>r. ((did, k), r) \<in> set t)"
  by (force simp: device_keys_def)

lemma active_keys_iff: "k \<in> set (active_keys did s t) \<longleftrightarrow> (\<exists>r. ((did, k), r) \<in> set t \<and> s \<le> dk_received r)"
  by (auto simp: active_keys_def device_keys_iff)

lemma set_keep_all: "set (foldl (\<lambda>t k. keep_newest cap (did, k) t) t ks) \<subseteq> set t"
  by (induction ks arbitrary: t) (auto dest: subsetD[OF set_keep_newest])

definition accepted_keys :: "string \<Rightarrow> string \<Rightarrow> string list \<Rightarrow> disk_log \<Rightarrow> string list" where
  \<comment> \<open>the series that a message may write: open ones, and as many new ones as there is room for\<close>
  "accepted_keys did active_since ks t = (let existing = active_keys did active_since t
     in existing @ take (MAX_DISK_KEYS - length existing) (sort (remdups (filter (\<lambda>k. k \<notin> set existing) ks))))"

lemma accepted_bound: "length (active_keys did s t) \<le> MAX_DISK_KEYS \<Longrightarrow> length (accepted_keys did s ks t) \<le> MAX_DISK_KEYS"
  by (simp add: accepted_keys_def Let_def)

lemma accepted_iff:
  assumes "k \<in> set ks" "k \<notin> set (drop (MAX_DISK_KEYS - length (active_keys did s t)) (sort (remdups (filter (\<lambda>k. k \<notin> set (active_keys did s t)) ks))))"
  shows "k \<in> set (accepted_keys did s ks t)"
proof (cases "k \<in> set (active_keys did s t)")
  case False
  let ?new = "sort (remdups (filter (\<lambda>k. k \<notin> set (active_keys did s t)) ks))"
  have "k \<in> set ?new" using assms(1) False by simp
  then have "k \<in> set (take (MAX_DISK_KEYS - length (active_keys did s t)) ?new)"
    using assms(2) by (metis UnE append_take_drop_id set_append)
  then show ?thesis by (simp add: accepted_keys_def Let_def)
qed (simp add: accepted_keys_def Let_def)

lemma card_keys: "length (device_keys did t) = card (set (device_keys did t))"
  unfolding device_keys_def by (rule distinct_card[symmetric]) simp

lemma active_le: "length (active_keys did s t) \<le> length (device_keys did t)"
proof -
  have "set (active_keys did s t) \<subseteq> set (device_keys did t)" by (auto simp: active_keys_iff device_keys_iff)
  then show ?thesis using card_mono[of "set (device_keys did t)"] by (simp add: card_keys active_keys_def)
qed

lemma if_cases: "x = (if a then u else if b then v else w) \<Longrightarrow> x = u \<or> b \<and> x = v \<or> x = w"
  by simp

lemma if_same: "x = (if b then u else w) \<Longrightarrow> f w = f u \<Longrightarrow> f x = f u"
  by simp

lemma fewer_keys:
  assumes "set (device_keys d u) \<subseteq> set (device_keys d t)" "length (device_keys d t) \<le> n"
  shows "length (device_keys d u) \<le> n"
  using card_mono[OF _ assms(1)] assms(2) unfolding card_keys by simp

lemma store_keys:
  assumes "length (device_keys d t) \<le> MAX_DISK_KEYS"
  shows "length (device_keys d (store_disk_readings key cap did storage ts recv s t)) \<le> MAX_DISK_KEYS"
proof -
  let ?rows = "disk_rows_from key ts recv 0 storage"
  let ?ks = "map fst ?rows"
  let ?ex = "active_keys did s t"
  let ?new = "sort (remdups (filter (\<lambda>k. k \<notin> set ?ex) ?ks))"
  let ?kept = "filter (\<lambda>r. fst r \<notin> set (drop (MAX_DISK_KEYS - length ?ex) ?new)) ?rows"
  let ?t1 = "t @ map (\<lambda>(k, r). ((did, k), r)) ?kept"
  let ?t2 = "foldl (\<lambda>t k. keep_newest cap (did, k) t) ?t1 (remdups (map fst ?kept))"
  let ?t3 = "store_disk_readings key cap did storage ts recv s t"
  have sub: "set ?t2 \<subseteq> set ?t1" by (rule set_keep_all)
  have kept: "k \<in> set (accepted_keys did s ?ks t)" if "(k, r) \<in> set ?kept" for k r
    using that by (intro accepted_iff) force+
  have "?t3 = t \<or> ?new = [] \<and> ?t3 = ?t2 \<or> ?t3 = evict_inactive_disk_keys did s ?t2"
    unfolding store_disk_readings_def Let_def by (rule if_cases) (rule refl)
  then consider "?t3 = t" | "?t3 = ?t2" "?new = []" | "?t3 = evict_inactive_disk_keys did s ?t2" by blast
  then show ?thesis
  proof cases
    case 2
    have "set (device_keys d ?t2) \<subseteq> set (device_keys d t)"
    proof
      fix k assume "k \<in> set (device_keys d ?t2)"
      then obtain r where "((d, k), r) \<in> set ?t2" unfolding device_keys_iff by blast
      with sub have "((d, k), r) \<in> set ?t1" by blast
      then consider "((d, k), r) \<in> set t" | "d = did" "(k, r) \<in> set ?kept" by auto
      then show "k \<in> set (device_keys d t)"
      proof cases
        case 2
        from kept[OF 2(2)] \<open>?new = []\<close> have "k \<in> set ?ex" by (simp add: accepted_keys_def Let_def)
        then show ?thesis using 2(1) by (auto simp: active_keys_iff device_keys_iff)
      qed (auto simp: device_keys_iff)
    qed
    then show ?thesis unfolding 2(1) using assms by (rule fewer_keys)
  next
    case 3
    show ?thesis
    proof (cases "d = did")
      case True
      have "set (device_keys did ?t3) \<subseteq> set (accepted_keys did s ?ks t)"
      proof
        fix k assume "k \<in> set (device_keys did ?t3)"
        then have "k \<in> set (active_keys did s ?t2)" unfolding 3 by (auto simp: device_keys_iff evict_inactive_disk_keys_def)
        then obtain r where "((did, k), r) \<in> set ?t2" "s \<le> dk_received r" unfolding active_keys_iff by blast
        with sub have r: "((did, k), r) \<in> set ?t1" "s \<le> dk_received r" by blast+
        then consider "((did, k), r) \<in> set t" | "(k, r) \<in> set ?kept" by auto
        then show "k \<in> set (accepted_keys did s ?ks t)"
        proof cases
          case 1
          with r(2) have "k \<in> set ?ex" by (auto simp: active_keys_iff)
          then show ?thesis by (simp add: accepted_keys_def Let_def)
        qed (rule kept)
      qed
      then have "card (set (device_keys did ?t3)) \<le> length (accepted_keys did s ?ks t)"
        by (meson List.finite_set card_length card_mono le_trans)
      moreover have "length ?ex \<le> MAX_DISK_KEYS" using active_le assms True order_trans by blast
      ultimately show ?thesis using accepted_bound True by (metis card_keys order_trans)
    next
      case False
      have "set (device_keys d ?t3) \<subseteq> set (device_keys d t)"
      proof
        fix k assume "k \<in> set (device_keys d ?t3)"
        then obtain r where "((d, k), r) \<in> set ?t2" unfolding 3 device_keys_iff evict_inactive_disk_keys_def by auto
        with sub have "((d, k), r) \<in> set ?t1" by blast
        with False show "k \<in> set (device_keys d t)" by (auto simp: device_keys_iff)
      qed
      then show ?thesis using assms by (rule fewer_keys)
    qed
  qed (use assms in simp)
qed

record disk_message =
  dm_device :: string
  dm_storage :: "jval list"
  dm_ts :: "string option"
  dm_received :: string
  dm_since :: string

definition store_all_disks :: "(jobj \<Rightarrow> nat \<Rightarrow> string) \<Rightarrow> nat \<Rightarrow> disk_message list \<Rightarrow> disk_log" where
  "store_all_disks key cap ms =
     foldl (\<lambda>t m. store_disk_readings key cap (dm_device m) (dm_storage m) (dm_ts m) (dm_received m) (dm_since m) t) [] ms"

text \<open>C13: No machine opens more than 32 series of disks, whatever keys its messages make up, in whatever order and at whatever times they come:
  the table cannot be grown without bound by a fresh key in every message.\<close>
theorem disk_series_stay_bounded: "length (device_keys did (store_all_disks key cap ms)) \<le> MAX_DISK_KEYS"
proof (induction ms rule: rev_induct)
  case (snoc m ms)
  then show ?case by (simp add: store_all_disks_def store_keys)
qed (simp add: store_all_disks_def device_keys_def)

subsection \<open>A disk that is still there keeps its series\<close>

lemma newest_keep_all: "distinct ks \<Longrightarrow> newest k' (foldl (\<lambda>t k. keep_newest cap (did, k) t) t ks) =
    (if fst k' = did \<and> snd k' \<in> set ks then take cap (newest k' t) else newest k' t)"
proof (induction ks arbitrary: t)
  case (Cons k ks)
  then show ?case by (cases k') (auto simp: newest_keep)
qed simp

lemma own_filtered: "\<forall>r. (k, r) \<in> set t \<longrightarrow> P (k, r) \<Longrightarrow> own_rows k (filter P t) = own_rows k t"
  by (induction t) auto

lemma newest_iff: "r \<in> set (newest k t) \<longleftrightarrow> (k, r) \<in> set t"
  by (simp add: newest_def own_rows_iff)

lemma own_tagged: "own_rows (did, k) (map (\<lambda>(k, r). ((did, k), r)) rows) = own_rows k rows"
  by (induction rows) auto

lemma own_kept: "k \<notin> B \<Longrightarrow> own_rows k (filter (\<lambda>r. fst r \<notin> B) rows) = own_rows k rows"
  by (intro own_filtered) simp

lemma rows_received: "(k, r) \<in> set (disk_rows_from key ts recv i vs) \<Longrightarrow> dk_received r = recv"
  by (induction key ts recv i vs rule: disk_rows_from.induct) (auto split: jval.splits)

definition has_room :: "string \<Rightarrow> string \<Rightarrow> string list \<Rightarrow> string \<Rightarrow> disk_log \<Rightarrow> bool" where
  "has_room did s ks k t \<longleftrightarrow> k \<in> set ks \<and> k \<in> set (accepted_keys did s ks t)"

lemma accepted_kept:
  assumes "k \<in> set (accepted_keys did s ks t)"
  shows "k \<notin> set (drop (MAX_DISK_KEYS - length (active_keys did s t)) (sort (remdups (filter (\<lambda>k. k \<notin> set (active_keys did s t)) ks))))"
proof -
  let ?new = "sort (remdups (filter (\<lambda>k. k \<notin> set (active_keys did s t)) ks))" and ?n = "MAX_DISK_KEYS - length (active_keys did s t)"
  have d: "distinct ?new" by simp
  show ?thesis
  proof (cases "k \<in> set (active_keys did s t)")
    case True
    then have "k \<notin> set ?new" by simp
    then show ?thesis by (meson in_set_dropD)
  next
    case False
    then have "k \<in> set (take ?n ?new)" using assms by (simp add: accepted_keys_def Let_def)
    then show ?thesis using d by (metis append_take_drop_id disjoint_iff distinct_append)
  qed
qed

text \<open>C14: A disk that reports keeps its series.  When a message carries readings of a disk whose series is open, or for which there is room, they are
  appended to what the table had for it, up to the cap, even when the machine had been silent for so long that the series counted as
  inactive; the eviction that the message may start takes only series that it did not write.\<close>
theorem reporting_disk_keeps_its_series:
  assumes "did \<noteq> []" "has_room did s (map fst (disk_rows_from key ts recv 0 storage)) k t" "s \<le> recv" "0 < cap"
  shows "newest (did, k) (store_disk_readings key cap did storage ts recv s t) =
    take cap (rev (own_rows k (disk_rows_from key ts recv 0 storage)) @ newest (did, k) t)"
proof -
  let ?rows = "disk_rows_from key ts recv 0 storage"
  let ?ex = "active_keys did s t"
  let ?new = "sort (remdups (filter (\<lambda>k. k \<notin> set ?ex) (map fst ?rows)))"
  let ?B = "set (drop (MAX_DISK_KEYS - length ?ex) ?new)"
  let ?kept = "filter (\<lambda>r. fst r \<notin> ?B) ?rows"
  let ?t1 = "t @ map (\<lambda>(k, r). ((did, k), r)) ?kept"
  let ?t2 = "foldl (\<lambda>t k. keep_newest cap (did, k) t) ?t1 (remdups (map fst ?kept))"
  let ?t3 = "store_disk_readings key cap did storage ts recv s t"
  have k: "k \<in> set (map fst ?rows)" "k \<notin> ?B" using assms(2) accepted_kept by (simp_all add: has_room_def)
  obtain r where r: "(k, r) \<in> set ?rows" using k(1) by auto
  then have m: "k \<in> set (remdups (map fst ?kept))" using k(2) by force
  have n1: "newest (did, k) ?t1 = rev (own_rows k ?rows) @ newest (did, k) t"
    using k(2) by (simp add: newest_def own_tagged own_kept)
  have n2: "newest (did, k) ?t2 = take cap (newest (did, k) ?t1)"
    using m newest_keep_all[OF distinct_remdups, of "(did, k)" cap did ?t1 "map fst ?kept"] by simp
  have "own_rows k ?rows \<noteq> []" using r by (metis empty_iff list.set(1) own_rows_iff)
  then obtain r' rs where r': "rev (own_rows k ?rows) = r' # rs" by (metis list.exhaust rev_is_Nil_conv)
  then have "r' \<in> set (own_rows k ?rows)" by (metis list.set_intros(1) set_rev)
  then have "dk_received r' = recv" using rows_received by (metis own_rows_iff)
  moreover have "r' \<in> set (newest (did, k) ?t2)" using assms(4) unfolding n2 n1 r' by (cases cap) simp_all
  then have "((did, k), r') \<in> set ?t2" unfolding newest_iff .
  ultimately have a: "k \<in> set (active_keys did s ?t2)" using assms(3) by (auto simp: active_keys_iff)
  have e: "newest (did, k) (evict_inactive_disk_keys did s ?t2) = newest (did, k) ?t2"
    unfolding newest_def evict_inactive_disk_keys_def by (subst own_filtered) (use a in simp_all)
  have "\<not> (did = [] \<or> ?rows = [])" using r assms(1) by auto
  then have "?t3 = (if ?new = [] then ?t2 else evict_inactive_disk_keys did s ?t2)"
    unfolding store_disk_readings_def Let_def by (rule if_not_P)
  then have "newest (did, k) ?t3 = newest (did, k) ?t2" using e by (rule if_same[where f = "newest (did, k)"])
  then show ?thesis unfolding n2 n1 .
qed

subsection \<open>A disk of ten years\<close>

definition old_disk :: jobj where
  "old_disk = [(''serial_hash'', JStr ''ab''), (''media_type'', JStr ''HDD'')]"

definition old_log :: disk_log where
  "old_log = [((''d1'', ''ab''), \<lparr>dk_ts = None, dk_received = ''2020'', dk_media = JNull, dk_payload = old_disk\<rparr>)]"

theorem reporting_disk_keeps_its_series_witness:
  "length (newest (''d1'', ''ab'') (store_disk_readings (disk_key (\<lambda>s. s) (\<lambda>_. [])) 2000 ''d1'' [JObj old_disk] None ''2026'' ''2025'' old_log)) = 2"
proof -
  let ?key = "disk_key (\<lambda>s. s) (\<lambda>_. [])"
  have k: "?key old_disk 0 = ''ab''" by (simp add: disk_key_def old_disk_def jget_def key_text_def)
  have rows: "disk_rows_from ?key None ''2026'' 0 [JObj old_disk] =
      [(''ab'', \<lparr>dk_ts = None, dk_received = ''2026'', dk_media = jget old_disk ''media_type'', dk_payload = old_disk\<rparr>)]" by (simp add: k)
  have "active_keys ''d1'' ''2025'' old_log = []" by code_simp
  then have "has_room ''d1'' ''2025'' (map fst (disk_rows_from ?key None ''2026'' 0 [JObj old_disk])) ''ab'' old_log"
    unfolding rows by (simp add: has_room_def accepted_keys_def MAX_DISK_KEYS_def)
  moreover have "''2025'' \<le> (''2026'' :: string)" by code_simp
  ultimately show ?thesis
    using reporting_disk_keeps_its_series[of "''d1''" "''2025''" ?key None "''2026''" "[JObj old_disk]" "''ab''" old_log 2000]
    unfolding rows by (simp add: newest_def old_log_def)
qed

end
