(* ===== verification/PrintTables.thy ===== *)
theory PrintTables imports RowLog PyFloat "HOL-Library.Word" begin

text \<open>
  What the messages of a machine leave behind for printing and for the map of the network (\<open>server/db.py\<close>): the queue names that a
  machine's spooler resolves to addresses, the narrow copy of its view of the network, and the print jobs, stored once however often a pass
  is delivered.  \<open>ipaddress\<close> is a parameter that yields the address as a machine word; stored lists are the values themselves.
\<close>

unbundle bit_operations_syntax

subsection \<open>Private addresses\<close>

datatype ip_literal = IPv4 "32 word" | IPv6 "128 word"

type_synonym ip_reader = "string \<Rightarrow> ip_literal option"

definition ipv4_mapped :: "128 word \<Rightarrow> 32 word option" where
  \<comment> \<open>\<open>::ffff:a.b.c.d\<close>\<close>
  "ipv4_mapped w = (if drop_bit 32 w = 0xFFFF then Some (ucast w) else None)"

definition RFC1918_NETS :: "(32 word \<times> nat) list" where
  "RFC1918_NETS = [(0x0A000000, 8), (0xAC100000, 12), (0xC0A80000, 16)]"

definition in_net :: "32 word \<Rightarrow> 32 word \<times> nat \<Rightarrow> bool" where
  "in_net a net \<longleftrightarrow> drop_bit (32 - snd net) a = drop_bit (32 - snd net) (fst net)"

definition is_rfc1918 :: "ip_reader \<Rightarrow> string \<Rightarrow> bool" where
  "is_rfc1918 ip_address host \<longleftrightarrow> host \<noteq> '''' \<and> (case ip_address (strip host) of
       None \<Rightarrow> False
     | Some a \<Rightarrow> (case (case a of IPv4 w \<Rightarrow> Some w | IPv6 w \<Rightarrow> ipv4_mapped w) of
         None \<Rightarrow> False
       | Some w \<Rightarrow> list_ex (in_net w) RFC1918_NETS))"

subsection \<open>Queues of the spooler\<close>

definition PRINTER_NAME_CAP :: nat where "PRINTER_NAME_CAP = 256"
definition PRINTER_PORTS_CAP :: nat where "PRINTER_PORTS_CAP = 256"
definition MAX_PRINTER_KEYS :: nat where "MAX_PRINTER_KEYS = 64"

definition clean_port_hint :: "ip_reader \<Rightarrow> jval \<Rightarrow> (string \<times> string) option" where
  "clean_port_hint ip_address hint = (case hint of
     JObj h \<Rightarrow> (case (jget h ''name'', jget h ''ip'') of
         (JStr (c # cs), JStr ip) \<Rightarrow> if is_rfc1918 ip_address (strip ip) then Some (take PRINTER_NAME_CAP (c # cs), strip ip) else None
       | _ \<Rightarrow> None)
   | _ \<Rightarrow> None)"

type_synonym printer_map = "(string \<times> string, string \<times> string) dict"

definition queues_of :: "string \<Rightarrow> printer_map \<Rightarrow> string list" where
  \<comment> \<open>\<open>SELECT printer FROM printer_ip_map WHERE device_id = ?\<close>\<close>
  "queues_of did t = map (snd \<circ> fst) (filter (\<lambda>e. fst (fst e) = did) t)"

definition put_queues :: "string \<Rightarrow> string \<Rightarrow> (string \<times> string) list \<Rightarrow> printer_map \<Rightarrow> printer_map" where
  \<comment> \<open>\<open>executemany(_PIM_UPSERT, rows)\<close>\<close>
  "put_queues did now rows t = foldl (\<lambda>t (p, ip). dict_set t (did, p) (ip, now)) t rows"

definition writable_queues :: "string \<Rightarrow> (string \<times> string) list \<Rightarrow> printer_map \<Rightarrow> (string \<times> string) list" where
  "writable_queues did rows t =
     (let existing = queues_of did t;
          new_keys = sort (remdups (filter (\<lambda>k. k \<notin> set existing) (map fst rows)));
          blocked = drop (MAX_PRINTER_KEYS - length existing) new_keys
      in filter (\<lambda>r. fst r \<notin> set blocked) rows)"

definition store_printer_ip_hints :: "ip_reader \<Rightarrow> string \<Rightarrow> jval \<Rightarrow> string \<Rightarrow> printer_map \<Rightarrow> printer_map \<times> nat" where
  "store_printer_ip_hints ip_address did hints now t = (case hints of
     JList hs \<Rightarrow>
       (let rows = List.map_filter (clean_port_hint ip_address) (take PRINTER_PORTS_CAP hs)
        in if did = '''' \<or> rows = [] then (t, 0)
           else let kept = writable_queues did rows t in (put_queues did now kept t, length kept))
   | _ \<Rightarrow> (t, 0))"

definition get_printer_ip :: "string \<Rightarrow> string \<Rightarrow> printer_map \<Rightarrow> string option" where
  "get_printer_ip did printer t = (if did = '''' \<or> printer = '''' then None else map_option fst (dict_get t (did, printer)))"

subsection \<open>The view of the network\<close>

record net_snapshot =
  ns_ts :: string
  ns_adapters :: jval
  ns_neighbors :: jval
  ns_quality :: jval
  ns_routes :: jval
  ns_lan_hints :: jval

definition NET_ADAPTERS_CAP :: nat where "NET_ADAPTERS_CAP = 64"
definition NET_NEIGHBORS_CAP :: nat where "NET_NEIGHBORS_CAP = 512"
definition NET_QUALITY_CAP :: nat where "NET_QUALITY_CAP = 16"
definition NET_ROUTES_CAP :: nat where "NET_ROUTES_CAP = 64"
definition NET_LAN_HINTS_CAP :: nat where "NET_LAN_HINTS_CAP = 128"

definition first_of :: "nat \<Rightarrow> jval \<Rightarrow> jval res" where
  \<comment> \<open>\<open>(value or [])[:n]\<close>\<close>
  "first_of n v = (if \<not> truthy v then Inr (JList []) else (case v of
     JList vs \<Rightarrow> Inr (JList (take n vs)) | JStr s \<Rightarrow> Inr (JStr (take n s)) | _ \<Rightarrow> Inl TypeError))"

definition net_snapshot_of :: "string \<Rightarrow> jobj \<Rightarrow> net_snapshot res" where
  "net_snapshot_of ts payload =
     bindE (first_of NET_ADAPTERS_CAP (jget payload ''network_adapters'')) (\<lambda>adapters.
     bindE (first_of NET_NEIGHBORS_CAP (jget payload ''network_neighbors'')) (\<lambda>neighbors.
     bindE (first_of NET_QUALITY_CAP (jget payload ''network_quality'')) (\<lambda>quality.
     bindE (first_of NET_ROUTES_CAP (jget payload ''network_routes'')) (\<lambda>routes.
     bindE (first_of NET_LAN_HINTS_CAP (jget payload ''lan_hints'')) (\<lambda>hints.
     Inr \<lparr>ns_ts = ts, ns_adapters = adapters, ns_neighbors = neighbors, ns_quality = quality, ns_routes = routes, ns_lan_hints = hints\<rparr>)))))"

definition store_net_snapshot :: "string \<Rightarrow> string \<Rightarrow> jobj \<Rightarrow> (string, net_snapshot) dict \<Rightarrow> (string, net_snapshot) dict res" where
  "store_net_snapshot did ts payload t =
     (if did = '''' then Inr t else bindE (net_snapshot_of ts payload) (\<lambda>s. Inr (dict_set t did s)))"

subsection \<open>Print jobs\<close>

record print_job =
  pj_id :: "int option"
  pj_ts :: "string option"
  pj_printer :: "string option"
  pj_user :: "string option"
  pj_pages :: "int option"
  pj_size :: "int option"
  pj_source :: "string option"

record job_row =
  jr_device :: string
  jr_received :: string
  jr_job :: print_job

definition job_key :: "string \<Rightarrow> print_job \<Rightarrow> (string \<times> int \<times> string) option" where
  \<comment> \<open>the partial index \<open>idx_print_dedup_day\<close>\<close>
  "job_key did j = (case (pj_id j, pj_ts j) of (Some i, Some ts) \<Rightarrow> Some (did, i, take 10 ts) | _ \<Rightarrow> None)"

definition row_key :: "job_row \<Rightarrow> (string \<times> int \<times> string) option" where
  "row_key r = job_key (jr_device r) (jr_job r)"

definition insert_refused :: "string \<Rightarrow> print_job \<Rightarrow> job_row list \<Rightarrow> bool" where
  \<comment> \<open>\<open>sqlite3.IntegrityError\<close>: \<open>ts TEXT NOT NULL\<close> and the unique index\<close>
  "insert_refused did j t \<longleftrightarrow> pj_ts j = None \<or> job_key did j \<noteq> None \<and> job_key did j \<in> set (map row_key t)"

fun insert_jobs :: "string \<Rightarrow> string \<Rightarrow> print_job list \<Rightarrow> job_row list \<Rightarrow> job_row list \<times> nat" where
  "insert_jobs did recv [] t = (t, 0)"
| "insert_jobs did recv (j # js) t =
     (if insert_refused did j t then insert_jobs did recv js t
      else let (t', n) = insert_jobs did recv js (t @ [\<lparr>jr_device = did, jr_received = recv, jr_job = j\<rparr>]) in (t', Suc n))"

definition or_now :: "string option \<Rightarrow> string \<Rightarrow> string" where
  \<comment> \<open>\<open>received_at or _now_iso()\<close>\<close>
  "or_now received_at now = (case received_at of Some (c # cs) \<Rightarrow> c # cs | _ \<Rightarrow> now)"

definition store_print_jobs :: "string \<Rightarrow> print_job list \<Rightarrow> string option \<Rightarrow> string \<Rightarrow> job_row list \<Rightarrow> job_row list \<times> nat" where
  "store_print_jobs did jobs received_at now t =
     insert_jobs did (or_now received_at now) jobs t"

subsection \<open>The queues of a machine\<close>

lemma queues_iff: "p \<in> set (queues_of did t) \<longleftrightarrow> (did, p) \<in> set (dict_keys t)"
  by (force simp: queues_of_def)

lemma queues_distinct: "wf_dict t \<Longrightarrow> distinct (queues_of did t)"
  by (induction t) (force simp: wf_dict_def queues_of_def)+

lemma wf_put [simp]: "wf_dict t \<Longrightarrow> wf_dict (put_queues did now rows t)"
  by (induction rows arbitrary: t) (auto simp: put_queues_def)

lemma keys_put: "set (dict_keys (put_queues did now rows t)) = Pair did ` set (map fst rows) \<union> set (dict_keys t)"
proof (induction rows arbitrary: t)
  case (Cons r rows)
  have "put_queues did now (r # rows) t = put_queues did now rows (dict_set t (did, fst r) (snd r, now))"
    by (cases r) (simp add: put_queues_def)
  then show ?case using Cons dict_keys_set[of "(did, fst r)" "(snd r, now)" t] by (simp del: set_map)
qed (simp add: put_queues_def)

lemma queues_put: "set (queues_of d (put_queues did now rows t)) = set (queues_of d t) \<union> (if d = did then set (map fst rows) else {})"
proof -
  have "p \<in> set (queues_of d (put_queues did now rows t)) \<longleftrightarrow> p \<in> set (queues_of d t) \<or> d = did \<and> p \<in> set (map fst rows)" for p
    unfolding queues_iff keys_put by blast
  then show ?thesis by (simp only: set_eq_iff) simp
qed

lemma writable_keys: "set (map fst (writable_queues did rows t)) \<subseteq> set (queues_of did t) \<union>
    set (take (MAX_PRINTER_KEYS - length (queues_of did t)) (sort (remdups (filter (\<lambda>k. k \<notin> set (queues_of did t)) (map fst rows)))))"
  (is "_ \<subseteq> ?ex \<union> set (take ?n ?new)")
proof
  fix k assume "k \<in> set (map fst (writable_queues did rows t))"
  then have k: "k \<in> set (map fst rows)" "k \<notin> set (drop ?n ?new)" by (auto simp: writable_queues_def Let_def)
  show "k \<in> ?ex \<union> set (take ?n ?new)"
  proof (cases "k \<in> ?ex")
    case False
    then have "k \<in> set ?new" using k(1) by simp
    then show ?thesis using k(2) by (metis UnE UnI2 append_take_drop_id set_append)
  qed simp
qed

lemma store_hints_bound:
  assumes "wf_dict t" "length (queues_of d t) \<le> MAX_PRINTER_KEYS"
  shows "length (queues_of d (fst (store_printer_ip_hints ip did hints now t))) \<le> MAX_PRINTER_KEYS"
proof -
  let ?t' = "fst (store_printer_ip_hints ip did hints now t)"
  have "?t' = t \<or> (\<exists>rows. ?t' = put_queues did now (writable_queues did rows t) t)"
    by (auto simp: store_printer_ip_hints_def Let_def split: jval.split)
  moreover have "length (queues_of d (put_queues did now (writable_queues did rows t) t)) \<le> MAX_PRINTER_KEYS" for rows
  proof (cases "d = did")
    case False
    let ?u = "put_queues did now (writable_queues did rows t) t"
    have "set (queues_of d ?u) = set (queues_of d t)" using False by (simp add: queues_put)
    then show ?thesis using assms(2) distinct_card[OF queues_distinct[OF assms(1), of d]]
        distinct_card[OF queues_distinct[OF wf_put[OF assms(1), of did now "writable_queues did rows t"], of d]] by simp
  next
    case True
    let ?u = "put_queues did now (writable_queues did rows t) t" and ?n = "MAX_PRINTER_KEYS - length (queues_of d t)"
    let ?new = "sort (remdups (filter (\<lambda>k. k \<notin> set (queues_of did t)) (map fst rows)))"
    have "set (queues_of d ?u) \<subseteq> set (queues_of d t @ take ?n ?new)" using writable_keys[of did rows t] True by (auto simp: queues_put)
    then have "card (set (queues_of d ?u)) \<le> length (queues_of d t @ take ?n ?new)" by (meson List.finite_set card_length card_mono le_trans)
    moreover have "length (queues_of d t @ take ?n ?new) \<le> MAX_PRINTER_KEYS" using assms(2) by simp
    ultimately show ?thesis using distinct_card[OF queues_distinct[OF wf_put[OF assms(1), of did now "writable_queues did rows t"], of d]] by linarith
  qed
  ultimately show ?thesis using assms(2) by auto
qed

lemma wf_store_hints: "wf_dict t \<Longrightarrow> wf_dict (fst (store_printer_ip_hints ip did hints now t))"
  by (auto simp: store_printer_ip_hints_def Let_def split: jval.split)

definition hint_run :: "ip_reader \<Rightarrow> (string \<times> jval \<times> string) list \<Rightarrow> printer_map" where
  "hint_run ip ms = foldl (\<lambda>t (did, hints, now). fst (store_printer_ip_hints ip did hints now t)) [] ms"

text \<open>However many names its messages make up, a machine keeps at most 64 queues.\<close>
theorem queues_stay_bounded: "length (queues_of did (hint_run ip ms)) \<le> MAX_PRINTER_KEYS"
proof -
  have "wf_dict (hint_run ip ms) \<and> length (queues_of did (hint_run ip ms)) \<le> MAX_PRINTER_KEYS"
    by (induction ms rule: rev_induct)
      (auto simp: hint_run_def queues_of_def[of did "[]"] wf_store_hints store_hints_bound split: prod.split)
  then show ?thesis by simp
qed

lemma get_put: "dict_get (put_queues did now rows t) (did, p) =
    (case filter (\<lambda>r. fst r = p) (rev rows) of [] \<Rightarrow> dict_get t (did, p) | r # _ \<Rightarrow> Some (snd r, now))"
  by (induction rows arbitrary: t) (auto simp: put_queues_def dict_simps filter_append split: list.split)

lemma known_writable: "p \<in> set (queues_of did t) \<Longrightarrow> filter (\<lambda>r. fst r = p) (writable_queues did rows t) = filter (\<lambda>r. fst r = p) rows"
  by (auto simp: writable_queues_def Let_def intro!: filter_cong dest: in_set_dropD)

text \<open>A queue that the machine already has is never shut out by the limit on new names: it follows the last usable address that the
  spooler reports for it, and only a private one is usable.\<close>
theorem known_queue_follows_spooler:
  assumes "p \<in> set (queues_of did t)" "did \<noteq> []" "p \<noteq> []"
  shows "get_printer_ip did p (fst (store_printer_ip_hints ip did (JList hs) now t)) =
    (case filter (\<lambda>r. fst r = p) (rev (List.map_filter (clean_port_hint ip) (take PRINTER_PORTS_CAP hs))) of
       [] \<Rightarrow> get_printer_ip did p t | r # _ \<Rightarrow> Some (snd r))"
proof -
  let ?rows = "List.map_filter (clean_port_hint ip) (take PRINTER_PORTS_CAP hs)"
  have "filter (\<lambda>r. fst r = p) (rev (writable_queues did ?rows t)) = filter (\<lambda>r. fst r = p) (rev ?rows)"
    unfolding rev_filter[symmetric] known_writable[OF assms(1)] by (rule refl)
  then have g: "get_printer_ip did p (put_queues did now (writable_queues did ?rows t) t) =
      (case filter (\<lambda>r. fst r = p) (rev ?rows) of [] \<Rightarrow> get_printer_ip did p t | r # _ \<Rightarrow> Some (snd r))"
    using assms(2,3) by (simp add: get_printer_ip_def get_put split: list.split)
  show ?thesis
  proof (cases "?rows = []")
    case False
    then show ?thesis using g assms(2) by (simp add: store_printer_ip_hints_def Let_def)
  qed (simp add: store_printer_ip_hints_def)
qed

definition lan_reader :: ip_reader where
  "lan_reader s = (if s = ''10.0.0.7'' then Some (IPv4 0x0A000007) else if s = ''8.8.8.8'' then Some (IPv4 0x08080808) else None)"

definition office_queue :: printer_map where
  "office_queue = [((''d1'', ''HP''), (''10.0.0.5'', ''2026''))]"

definition spooler_hint :: "string \<Rightarrow> jval" where
  "spooler_hint ip = JObj [(''name'', JStr ''HP''), (''ip'', JStr ip)]"

theorem known_queue_follows_spooler_witness:
  "get_printer_ip ''d1'' ''HP'' (fst (store_printer_ip_hints lan_reader ''d1''
     (JList [spooler_hint '' 10.0.0.7'', spooler_hint ''8.8.8.8'']) ''2027'' office_queue)) = Some ''10.0.0.7''"
proof -
  have "''HP'' \<in> set (queues_of ''d1'' office_queue)" by (simp add: queues_of_def office_queue_def)
  moreover have "filter (\<lambda>r. fst r = ''HP'') (rev (List.map_filter (clean_port_hint lan_reader)
      (take PRINTER_PORTS_CAP [spooler_hint '' 10.0.0.7'', spooler_hint ''8.8.8.8'']))) = [(''HP'', ''10.0.0.7'')]" by code_simp
  ultimately show ?thesis using known_queue_follows_spooler[of "''HP''" "''d1''" office_queue lan_reader] by simp
qed

subsection \<open>Jobs are stored once\<close>

lemma settled_jobs:
  assumes "\<forall>j \<in> set jobs. job_key did j \<noteq> None \<longrightarrow> job_key did j \<in> set (map row_key t)"
  shows "insert_jobs did recv jobs t =
    (t @ map (\<lambda>j. \<lparr>jr_device = did, jr_received = recv, jr_job = j\<rparr>) (filter (\<lambda>j. pj_id j = None \<and> pj_ts j \<noteq> None) jobs),
     length (filter (\<lambda>j. pj_id j = None \<and> pj_ts j \<noteq> None) jobs))"
  using assms
proof (induction jobs arbitrary: t)
  case (Cons j js)
  show ?case
  proof (cases "insert_refused did j t")
    case True
    then have "\<not> (pj_id j = None \<and> pj_ts j \<noteq> None)" by (auto simp: insert_refused_def job_key_def split: option.splits)
    moreover have "insert_jobs did recv (j # js) t = insert_jobs did recv js t" using True by simp
    ultimately show ?thesis using Cons by (auto simp del: insert_jobs.simps)
  next
    case False
    then have "job_key did j = None" "pj_ts j \<noteq> None" using Cons.prems by (auto simp: insert_refused_def simp del: not_None_eq)
    then have "pj_id j = None \<and> pj_ts j \<noteq> None" by (auto simp: job_key_def split: option.splits)
    moreover have "insert_jobs did recv js (t @ [\<lparr>jr_device = did, jr_received = recv, jr_job = j\<rparr>]) =
        (t @ [\<lparr>jr_device = did, jr_received = recv, jr_job = j\<rparr>] @ map (\<lambda>j. \<lparr>jr_device = did, jr_received = recv, jr_job = j\<rparr>)
           (filter (\<lambda>j. pj_id j = None \<and> pj_ts j \<noteq> None) js), length (filter (\<lambda>j. pj_id j = None \<and> pj_ts j \<noteq> None) js))"
      using Cons.prems by (subst Cons.IH) auto
    ultimately show ?thesis using False by simp
  qed
qed simp

lemma jobs_kept: "set t \<subseteq> set (fst (insert_jobs did recv jobs t))"
proof (induction did recv jobs t rule: insert_jobs.induct)
  case (2 did recv j js t)
  then show ?case by (cases "insert_refused did j t") (auto simp: Let_def split: prod.split)
qed simp

lemma jobs_stored: "j \<in> set jobs \<Longrightarrow> job_key did j \<noteq> None \<Longrightarrow> job_key did j \<in> set (map row_key (fst (insert_jobs did recv jobs t)))"
proof (induction did recv jobs t rule: insert_jobs.induct)
  case (2 did recv i js t)
  let ?r = "\<lparr>jr_device = did, jr_received = recv, jr_job = i\<rparr>"
  show ?case
  proof (cases "insert_refused did i t")
    case True
    have "pj_ts i \<noteq> None" if "j = i" using 2(4) that by (auto simp: job_key_def split: option.splits)
    then have "job_key did j \<in> set (map row_key t)" if "j = i" using True that 2(4) by (auto simp: insert_refused_def)
    then show ?thesis using 2(1)[OF True] 2(3,4) True jobs_kept[of t did recv js] by (cases "j = i") auto
  next
    case False
    have "row_key ?r = job_key did i" by (simp add: row_key_def)
    moreover have "?r \<in> set (fst (insert_jobs did recv js (t @ [?r])))" using jobs_kept[of "t @ [?r]" did recv js] by simp
    ultimately have "job_key did i \<in> set (map row_key (fst (insert_jobs did recv js (t @ [?r]))))" by (metis (no_types) image_eqI set_map)
    then show ?thesis using 2(2)[OF False] 2(3,4) False by (auto simp: Let_def split: prod.split)
  qed
qed simp

text \<open>When a pass of the print log is delivered again, under whatever idempotency key and at whatever time, it adds nothing but its jobs
  without a number, which carry nothing to recognise them by.\<close>
theorem redelivered_pass_adds_only_anonymous:
  "let t' = fst (store_print_jobs did jobs r1 n1 t); again = filter (\<lambda>j. pj_id j = None \<and> pj_ts j \<noteq> None) jobs
   in fst (store_print_jobs did jobs r2 n2 t') = t' @ map (\<lambda>j. \<lparr>jr_device = did, jr_received = or_now r2 n2, jr_job = j\<rparr>) again \<and>
      snd (store_print_jobs did jobs r2 n2 t') = length again"
  unfolding Let_def store_print_jobs_def by (subst settled_jobs, use jobs_stored in blast)+ simp

text \<open>A pass over the spool of a machine: the jobs, and the two stamps of its delivery.\<close>
type_synonym print_pass = "string \<times> print_job list \<times> string option \<times> string"

definition job_run :: "print_pass list \<Rightarrow> job_row list" where
  "job_run ps = foldl (\<lambda>t (did, jobs, recv, now). fst (store_print_jobs did jobs recv now t)) [] ps"

definition of_day :: "int \<Rightarrow> string \<Rightarrow> print_job \<Rightarrow> bool" where
  \<comment> \<open>the job with this number on this day\<close>
  "of_day n day j \<longleftrightarrow> pj_id j = Some n \<and> (case pj_ts j of None \<Rightarrow> False | Some ts \<Rightarrow> take 10 ts = day)"

definition anonymous :: "print_job \<Rightarrow> bool" where
  \<comment> \<open>stamped, without a number\<close>
  "anonymous j \<longleftrightarrow> pj_id j = None \<and> pj_ts j \<noteq> None"

definition rows_with :: "string \<Rightarrow> (print_job \<Rightarrow> bool) \<Rightarrow> job_row list \<Rightarrow> nat" where
  "rows_with did P t = length (filter (\<lambda>r. jr_device r = did \<and> P (jr_job r)) t)"

definition sent_with :: "string \<Rightarrow> (print_job \<Rightarrow> bool) \<Rightarrow> print_pass list \<Rightarrow> nat" where
  "sent_with did P ps = sum_list (map (\<lambda>(d, jobs, _). if d = did then length (filter P jobs) else 0) ps)"

lemma key_of_day: "job_key did j = Some (d, n, day) \<longleftrightarrow> did = d \<and> of_day n day j"
  by (auto simp: job_key_def of_day_def split: option.splits)

lemma refused_of_day: "of_day n day j \<Longrightarrow> insert_refused did j t \<longleftrightarrow> rows_with did (of_day n day) t \<noteq> 0"
proof -
  assume j: "of_day n day j"
  then have "job_key did j = Some (did, n, day)" "pj_ts j \<noteq> None" by (auto simp: key_of_day of_day_def split: option.splits)
  moreover have "Some (did, n, day) \<in> set (map row_key t) \<longleftrightarrow> (\<exists>r \<in> set t. jr_device r = did \<and> of_day n day (jr_job r))"
    by (auto simp: row_key_def key_of_day image_iff eq_commute[of "Some _"])
  ultimately show ?thesis by (auto simp: insert_refused_def rows_with_def filter_empty_conv)
qed

lemma insert_of_day:
  "rows_with d (of_day n day) t \<le> 1 \<Longrightarrow> rows_with d (of_day n day) (fst (insert_jobs did recv jobs t)) =
     (if rows_with d (of_day n day) t = 1 \<or> did = d \<and> list_ex (of_day n day) jobs then 1 else 0)"
proof (induction did recv jobs t rule: insert_jobs.induct)
  case (2 did recv j js t)
  let ?r = "\<lparr>jr_device = did, jr_received = recv, jr_job = j\<rparr>"
  have a: "rows_with d P (t @ [?r]) = rows_with d P t + (if did = d \<and> P j then 1 else 0)" for P by (simp add: rows_with_def)
  show ?case
  proof (cases "insert_refused did j t")
    case True
    then show ?thesis using 2 refused_of_day[of n day j did t] by auto
  next
    case False
    then have "did = d \<and> of_day n day j \<Longrightarrow> rows_with d (of_day n day) t = 0" using refused_of_day[of n day j did t] by auto
    then have "rows_with d (of_day n day) (t @ [?r]) \<le> 1" using 2(3) by (auto simp: a)
    from 2(2)[OF False this] show ?thesis using False \<open>_ \<Longrightarrow> rows_with d (of_day n day) t = 0\<close> by (auto simp: Let_def split_beta a)
  qed
qed simp

lemma insert_anonymous:
  "rows_with d anonymous (fst (insert_jobs did recv jobs t)) =
     rows_with d anonymous t + (if did = d then length (filter anonymous jobs) else 0)"
proof (induction did recv jobs t rule: insert_jobs.induct)
  case (2 did recv j js t)
  have "insert_refused did j t \<Longrightarrow> \<not> anonymous j" by (auto simp: insert_refused_def anonymous_def job_key_def split: option.splits)
  then show ?case using 2 by (cases "insert_refused did j t") (auto simp: Let_def split_beta rows_with_def)
qed simp

text \<open>C15: A numbered job is stored once, in whatever order and however often the passes of the machines are delivered: a machine has exactly
  one row for the job with a number on a day when one of its passes has carried it, and none otherwise.  A job with a time stamp but no
  number is stored each time it is delivered, and so twice when its pass is delivered twice.\<close>
theorem numbered_job_stored_once:
  "rows_with did (of_day n day) (job_run ps) = (if sent_with did (of_day n day) ps = 0 then 0 else 1) \<and>
   rows_with did anonymous (job_run ps) = sent_with did anonymous ps"
proof (induction ps rule: rev_induct)
  case Nil
  then show ?case by (simp add: job_run_def rows_with_def sent_with_def)
next
  case (snoc p ps)
  obtain d jobs recv now where p: "p = (d, jobs, recv, now)" by (cases p)
  have r: "job_run (ps @ [p]) = fst (insert_jobs d (or_now recv now) jobs (job_run ps))"
    by (simp add: job_run_def p store_print_jobs_def)
  have s: "sent_with did P (ps @ [p]) = sent_with did P ps + (if d = did then length (filter P jobs) else 0)" for P
    by (simp add: sent_with_def p)
  have "list_ex P jobs \<longleftrightarrow> filter P jobs \<noteq> []" for P by (induction jobs) auto
  then show ?case using snoc insert_of_day[of did n day "job_run ps" d "or_now recv now" jobs] insert_anonymous[of did d "or_now recv now" jobs "job_run ps"]
    unfolding r s by auto
qed

end
