(* ===== verification/Ingestion.thy ===== *)
theory Ingestion imports Recompute Telemetry DiskReadings PrintTables TrustStore RescoreQueue begin

text \<open>
  The pipeline of \<open>server/pipeline.py\<close>: what one message writes, in which order, when its sources are judged, and when the scores are
  computed again.  The tables are those of the component theories; a failed step leaves the writes before it in place.  Validation
  of payloads, the rendering of values and the mathematical library are parameters.
\<close>

subsection \<open>Messages and tables\<close>

datatype msg_type = M_Inventory | M_Historical | M_Heartbeat | M_Events | M_PrintJobs | M_Liveness | M_UpdateStatus

record message =
  ms_device :: string
  ms_version :: string
  ms_type :: msg_type
  ms_ts :: string
  ms_payload :: jobj
  ms_health :: "(string \<times> string) list"
  ms_identity :: profile

record ingest_db =
  \<comment> \<open>the tables that messages write\<close>
  ib_devices :: device_table
  ib_inventory :: "(string, string \<times> jobj) dict"
  ib_historical :: telemetry_log
  ib_heartbeats :: telemetry_log
  ib_disks :: disk_log
  ib_printers :: printer_map
  ib_network :: "(string, net_snapshot) dict"
  ib_events :: "event_log \<times> rollups"
  ib_jobs :: "job_row list"
  ib_trust :: trust_db

record contract =
  \<comment> \<open>what the validation library makes of a payload\<close>
  co_valid :: "msg_type \<Rightarrow> jobj \<Rightarrow> bool"
  co_events :: "jobj \<Rightarrow> event_item list"
  co_jobs :: "jobj \<Rightarrow> print_job list"

record retention =
  rt_historical :: nat
  rt_heartbeats :: nat
  rt_events :: nat
  rt_disks :: nat

record libraries =
  \<comment> \<open>the libraries\<close>
  ou_render :: "jval \<Rightarrow> string"
  ou_sha :: "string \<Rightarrow> string"
  ou_ip :: ip_reader
  ou_cast :: "string \<Rightarrow> pyfloat"
  ou_exp :: "pyfloat \<Rightarrow> pyfloat"
  ou_log :: "pyfloat \<Rightarrow> pyfloat"
  ou_stdev :: "pyfloat list \<Rightarrow> pyfloat"
  ou_texts :: texts

record moments =
  \<comment> \<open>the readings of the clock in one call\<close>
  mo_received :: string
  mo_device :: wall_clock
  mo_status :: int
  mo_active_since :: string
  mo_queues :: string
  mo_scores :: "nat \<Rightarrow> int"
  mo_rollup_day :: string

subsection \<open>The writes of a message\<close>

definition clock_drift_sec :: "string \<Rightarrow> string \<Rightarrow> pyfloat option" where
  "clock_drift_sec received reported = (case (stamp_of (Some received), stamp_of (Some reported)) of
     (Some r, Some t) \<Rightarrow> Some (total_seconds (r - t)) | _ \<Rightarrow> None)"

definition text_field :: "jobj \<Rightarrow> string \<Rightarrow> string option" where
  \<comment> \<open>a field that is validated as text or null\<close>
  "text_field p k = (case jget p k of JStr s \<Rightarrow> Some s | _ \<Rightarrow> None)"

definition list_field :: "jobj \<Rightarrow> string \<Rightarrow> jval" where
  \<comment> \<open>\<open>payload.get(key, [])\<close>\<close>
  "list_field p k = (case dict_get p k of None \<Rightarrow> JList [] | Some v \<Rightarrow> v)"

definition device_report_of :: "message \<Rightarrow> profile \<Rightarrow> moments \<Rightarrow> device_report" where
  "device_report_of m p mo = \<lparr>dr_ts = ms_ts m, dr_version = ms_version m, dr_profile = p, dr_received = Some (mo_received mo),
     dr_reported = Some (ms_ts m), dr_drift = clock_drift_sec (mo_received mo) (ms_ts m), dr_envelope = Some (ms_ts m)\<rparr>"

definition inventory_profile :: "message \<Rightarrow> profile" where
  "inventory_profile m = (ms_identity m)\<lparr>pf_hostname := text_field (ms_payload m) ''hostname'',
     pf_manufacturer := text_field (ms_payload m) ''manufacturer'', pf_model := text_field (ms_payload m) ''model'',
     pf_chassis := text_field (ms_payload m) ''chassis''\<rparr>"

definition touch :: "message \<Rightarrow> moments \<Rightarrow> ingest_db \<Rightarrow> ingest_db" where
  "touch m mo db = db\<lparr>ib_devices := touch_device (ms_device m) (device_report_of m (ms_identity m) mo) (mo_device mo) (ib_devices db)\<rparr>"

definition telemetry_of :: "message \<Rightarrow> moments \<Rightarrow> telemetry_row" where
  "telemetry_of m mo = \<lparr>rd_ts = ms_ts m, rd_payload = ms_payload m, rd_received = mo_received mo,
     rd_drift = clock_drift_sec (mo_received mo) (ms_ts m)\<rparr>"

definition store_storage :: "libraries \<Rightarrow> retention \<Rightarrow> message \<Rightarrow> moments \<Rightarrow> disk_log \<Rightarrow> disk_log" where
  \<comment> \<open>nothing is stored when the field is no list\<close>
  "store_storage ou rt m mo t = (case list_field (ms_payload m) ''storage'' of
     JList disks \<Rightarrow> store_disk_readings (disk_key (ou_sha ou) (ou_render ou)) (rt_disks rt) (ms_device m) disks (Some (ms_ts m))
       (mo_received mo) (mo_active_since mo) t
   | _ \<Rightarrow> t)"

definition store_history :: "libraries \<Rightarrow> retention \<Rightarrow> message \<Rightarrow> moments \<Rightarrow> ingest_db \<Rightarrow> ingest_db \<times> unit res" where
  \<comment> \<open>the branch of \<open>historical\<close>\<close>
  "store_history ou rt m mo db =
     (let did = ms_device m; p = ms_payload m; db1 = touch m mo db;
          db2 = db1\<lparr>ib_historical := store_historical (rt_historical rt) did (telemetry_of m mo) (ib_historical db1)\<rparr>;
          db3 = db2\<lparr>ib_disks := store_storage ou rt m mo (ib_disks db2)\<rparr>;
          db4 = db3\<lparr>ib_printers := fst (store_printer_ip_hints (ou_ip ou) did (list_field p ''printer_ports'') (mo_queues mo) (ib_printers db3))\<rparr>
      in case store_net_snapshot did (ms_ts m) p (ib_network db4) of
           Inl e \<Rightarrow> (db4, Inl e)
         | Inr net \<Rightarrow> (db4\<lparr>ib_network := net\<rparr>, Inr ()))"

definition update_status_of :: "jobj \<Rightarrow> update_status" where
  "update_status_of p = \<lparr>ur_state = text_field p ''state'', ur_error = text_field p ''error'', ur_checked = text_field p ''checked_at'',
     ur_available = text_field p ''available_version''\<rparr>"

definition store_message :: "contract \<Rightarrow> libraries \<Rightarrow> retention \<Rightarrow> message \<Rightarrow> moments \<Rightarrow> ingest_db \<Rightarrow> ingest_db \<times> unit res" where
  "store_message co ou rt m mo db = (let did = ms_device m; p = ms_payload m in case ms_type m of
     M_Inventory \<Rightarrow> (db\<lparr>ib_devices := upsert_device did (device_report_of m (inventory_profile m) mo) (mo_device mo) (ib_devices db),
        ib_inventory := store_inventory did (ms_ts m) p (ib_inventory db)\<rparr>, Inr ())
   | M_Historical \<Rightarrow> store_history ou rt m mo db
   | M_Heartbeat \<Rightarrow> let db1 = touch m mo db
       in (db1\<lparr>ib_heartbeats := store_heartbeat (rt_heartbeats rt) did (telemetry_of m mo) (ib_heartbeats db1)\<rparr>, Inr ())
   | M_Events \<Rightarrow> let db1 = touch m mo db
       in (db1\<lparr>ib_events := store_events (rt_events rt) did (co_events co p) (mo_received mo)
            (clock_drift_sec (mo_received mo) (ms_ts m)) (ib_events db1)\<rparr>, Inr ())
   | M_PrintJobs \<Rightarrow> let db1 = touch m mo db
       in (db1\<lparr>ib_jobs := fst (store_print_jobs did (co_jobs co p) (Some (mo_received mo)) (mo_received mo) (ib_jobs db1))\<rparr>, Inr ())
   | M_Liveness \<Rightarrow> (touch m mo db, Inr ())
   | M_UpdateStatus \<Rightarrow> let db1 = touch m mo db
       in (db1\<lparr>ib_devices := set_update_status did (update_status_of p) (mo_status mo) (ib_devices db1)\<rparr>, Inr ()))"

subsection \<open>Trust and scores\<close>

definition NO_TRUST_MSG_TYPES :: "msg_type list" where "NO_TRUST_MSG_TYPES = [M_Liveness, M_UpdateStatus]"
definition NO_RESCORE :: "msg_type list" where "NO_RESCORE = [M_Events, M_PrintJobs, M_Liveness, M_UpdateStatus]"

definition judge_message :: "libraries \<Rightarrow> message \<Rightarrow> moments \<Rightarrow> ingest_db \<Rightarrow> ingest_db \<times> unit res" where
  "judge_message ou m mo db =
     (if ms_type m \<in> set NO_TRUST_MSG_TYPES \<or> ms_health m = [] then (db, Inr ())
      else case evaluate_trust (ou_render ou) (ms_device m) (ms_payload m) (ms_health m) (ms_ts m) (mo_received mo) (ib_trust db) of
        (tr, r) \<Rightarrow> (db\<lparr>ib_trust := tr\<rparr>, r))"

definition write_message :: "contract \<Rightarrow> libraries \<Rightarrow> retention \<Rightarrow> message \<Rightarrow> moments \<Rightarrow> ingest_db \<Rightarrow> ingest_db \<times> unit res" where
  \<comment> \<open>everything up to the scores\<close>
  "write_message co ou rt m mo db =
     (if \<not> co_valid co (ms_type m) (ms_payload m) then (db, Inl ValueError)
      else case store_message co ou rt m mo db of
        (db1, Inl e) \<Rightarrow> (db1, Inl e)
      | (db1, Inr _) \<Rightarrow> judge_message ou m mo db1)"

definition ERRCHAIN_EVENT_LIMIT :: nat where "ERRCHAIN_EVENT_LIMIT = 1000"

record score_memory =
  \<comment> \<open>what \<open>recompute_scores\<close> reads of its own earlier results\<close>
  sm_rule_stats :: "(string, (string, nat) dict) dict"
  sm_prev :: "prev_health option"
  sm_scores :: "jobj list"

definition cohort_devices :: "ingest_db \<Rightarrow> device_row list" where
  "cohort_devices db = map (\<lambda>(d, e). \<lparr>dv_id = d, dv_model = pf_model (de_profile e), dv_site = pf_site_code (de_profile e)\<rparr>) (ib_devices db)"

definition cohort_history :: "ingest_db \<Rightarrow> history_row list" where
  \<comment> \<open>identifiers grow with the order of the rows\<close>
  "cohort_history db = map (\<lambda>(i, (d, r)). \<lparr>hs_id = i, hs_device = d, hs_payload = rd_payload r\<rparr>) (enumerate 0 (ib_historical db))"

definition load_device :: "libraries \<Rightarrow> string \<Rightarrow> score_memory \<Rightarrow> ingest_db \<Rightarrow> string \<Rightarrow> stored_device" where
  \<comment> \<open>the reads of \<open>recompute_scores\<close>\<close>
  "load_device ou since_day sm db did =
     (let (model, site) = get_device_model_site (cohort_devices db) did in
      \<lparr>sd_inventory = get_inventory did (ib_inventory db),
       sd_historical = get_historical did (ib_historical db),
       sd_heartbeat = (case get_recent_heartbeats 1 did (ib_heartbeats db) of [] \<Rightarrow> None | h # _ \<Rightarrow> Some h),
       sd_trust = map_option snd (dict_get (td_trust (ib_trust db)) did),
       sd_history = get_historical_series TREND_HISTORY_LIMIT did (ib_historical db),
       sd_heartbeats = get_recent_heartbeats TREND_HISTORY_LIMIT did (ib_heartbeats db),
       sd_disk_series = (\<lambda>k. get_disk_series TREND_HISTORY_LIMIT did (key_text (ou_render ou) k) (ib_disks db)),
       sd_events = get_recent_events ERRCHAIN_EVENT_LIMIT did (fst (ib_events db)),
       sd_rollups = get_event_rollups did since_day (snd (ib_events db)),
       sd_rule_stats = sm_rule_stats sm,
       sd_cohort = get_fleet_cohort_stats (ou_cast ou) (cohort_devices db) (cohort_history db) model site,
       sd_prev_health = sm_prev sm,
       sd_scores = sm_scores sm\<rparr>)"

definition rescore :: "libraries \<Rightarrow> moments \<Rightarrow> score_memory \<Rightarrow> ingest_db \<Rightarrow> string \<Rightarrow> recomputed option res" where
  "rescore ou mo sm db did =
     recompute_scores (ou_exp ou) (ou_log ou) (ou_stdev ou) (ou_texts ou) (mo_scores mo) (load_device ou (mo_rollup_day mo) sm db did)"

definition ingest_envelope :: "contract \<Rightarrow> libraries \<Rightarrow> retention \<Rightarrow> score_memory \<Rightarrow> message \<Rightarrow> moments \<Rightarrow> ingest_db \<times> rqueue option
    \<Rightarrow> (ingest_db \<times> rqueue option) \<times> recomputed option res" where
  \<comment> \<open>the value is \<open>scores\<close>\<close>
  "ingest_envelope co ou rt sm m mo w = (case w of (db, pend) \<Rightarrow>
     (case write_message co ou rt m mo db of
        (db1, Inl e) \<Rightarrow> ((db1, pend), Inl e)
      | (db1, Inr _) \<Rightarrow>
          if ms_type m \<in> set NO_RESCORE then ((db1, pend), Inr None)
          else (case pend of
              Some q \<Rightarrow> ((db1, Some (submit (ms_device m) q)), Inr None)
            | None \<Rightarrow> ((db1, None), rescore ou mo sm db1 (ms_device m)))))"

subsection \<open>Tables that a machine owns a part of\<close>

locale machine_owned =
  fixes store :: "'x \<Rightarrow> 't \<Rightarrow> 't" and owner :: "'x \<Rightarrow> string" and part :: "string \<Rightarrow> 't \<Rightarrow> 't"
  assumes store_part: "part d (store x t) = (if owner x = d then store x (part d t) else part d t)"
begin

definition write_run :: "'x list \<Rightarrow> 't \<Rightarrow> 't" where
  "write_run xs t = foldl (\<lambda>t x. store x t) t xs"

lemma write_run_part: "part d (write_run xs t) = write_run (filter (\<lambda>x. owner x = d) xs) (part d t)"
  by (induction xs arbitrary: t) (simp_all add: write_run_def store_part)

end

definition own_part :: "('k \<Rightarrow> bool) \<Rightarrow> ('k \<times> 'v) list \<Rightarrow> ('k \<times> 'v) list" where
  "own_part P t = filter (\<lambda>e. P (fst e)) t"

named_theorems part_simps \<open>a part of a table after a statement\<close>

lemma part_set [part_simps]: "own_part P (dict_set t k v) = (if P k then dict_set (own_part P t) k v else own_part P t)"
  by (induction t) (auto simp: own_part_def)

lemma part_get [part_simps]: "P k \<Longrightarrow> dict_get (own_part P t) k = dict_get t k"
  by (induction t) (auto simp: own_part_def)

lemma part_append [part_simps]: "own_part P (t @ u) = own_part P t @ own_part P u"
  by (simp add: own_part_def)

lemma part_rows [part_simps]: "P k \<Longrightarrow> own_rows k (own_part P t) = own_rows k t"
  unfolding own_part_def by (intro own_filtered) simp

lemma part_drop: "own_part P (drop_first n k t) = (if P k then drop_first n k (own_part P t) else own_part P t)"
  by (induction n k t rule: drop_first.induct) (auto simp: own_part_def split: nat.split)

lemma part_keep [part_simps]: "own_part P (keep_newest n k t) = (if P k then keep_newest n k (own_part P t) else own_part P t)"
  by (simp add: keep_newest_def part_drop part_rows)

lemma part_append_row [part_simps]: "own_part P (append_row n k r t) = (if P k then append_row n k r (own_part P t) else own_part P t)"
  by (simp add: append_row_def part_keep part_append) (simp add: own_part_def)

definition device_part :: "string \<Rightarrow> (string \<times> 'v) list \<Rightarrow> (string \<times> 'v) list" where
  "device_part did = own_part (\<lambda>k. k = did)"

definition keyed_part :: "string \<Rightarrow> ((string \<times> 'k) \<times> 'v) list \<Rightarrow> ((string \<times> 'k) \<times> 'v) list" where
  "keyed_part did = own_part (\<lambda>k. fst k = did)"

subsection \<open>The tables one by one\<close>

lemma upsert_part: "device_part d (upsert_device did r clk t) = (if did = d then upsert_device did r clk (device_part d t) else device_part d t)"
  by (cases "did = d") (simp_all add: upsert_device_def Let_def device_part_def part_simps)

lemma status_part: "device_part d (set_update_status did s now t) = (if did = d then set_update_status did s now (device_part d t) else device_part d t)"
  by (auto simp: set_update_status_def device_part_def part_simps split: option.split)

interpretation devices: machine_owned "\<lambda>(did, r, clk). upsert_device did r clk" fst device_part
  by unfold_locales (simp add: upsert_part split: prod.split)

interpretation touched: machine_owned "\<lambda>(did, r, clk). touch_device did r clk" fst device_part
  by unfold_locales (simp add: touch_device_def upsert_part split: prod.split)

interpretation statuses: machine_owned "\<lambda>(did, s, now). set_update_status did s now" fst device_part
  by unfold_locales (simp add: status_part split: prod.split)

interpretation inventories: machine_owned "\<lambda>(did, ts, p). store_inventory did ts p" fst device_part
  by unfold_locales (simp add: store_inventory_def device_part_def part_simps split: prod.split)

interpretation histories: machine_owned "\<lambda>(did, r). store_historical n did r" fst device_part for n
  by unfold_locales (simp add: store_historical_def device_part_def part_simps split: prod.split)

interpretation beats: machine_owned "\<lambda>(did, r). store_heartbeat n did r" fst device_part for n
  by unfold_locales (simp add: store_heartbeat_def device_part_def part_simps split: prod.split)

lemma part_keep_all: "keyed_part d (foldl (\<lambda>t k. keep_newest cap (did, k) t) t ks) =
    (if did = d then foldl (\<lambda>t k. keep_newest cap (did, k) t) (keyed_part d t) ks else keyed_part d t)"
  by (induction ks arbitrary: t) (simp_all add: keyed_part_def part_simps)

lemma part_tagged: "keyed_part d (map (\<lambda>(k, r). ((did, k), r)) rows) = (if did = d then map (\<lambda>(k, r). ((did, k), r)) rows else [])"
  by (induction rows) (auto simp: keyed_part_def own_part_def)

lemma active_part: "active_keys did s (keyed_part did t) = active_keys did s t"
  by (simp add: active_keys_def device_keys_def keyed_part_def own_part_def conj_commute)

lemma evict_part: "keyed_part d (evict_inactive_disk_keys did s t) =
    (if did = d then evict_inactive_disk_keys did s (keyed_part d t) else keyed_part d t)"
proof (cases "did = d")
  case True
  then show ?thesis by (simp add: evict_inactive_disk_keys_def active_part) (simp add: keyed_part_def own_part_def conj_commute)
qed (auto simp: evict_inactive_disk_keys_def keyed_part_def own_part_def intro!: filter_cong)

lemma disks_part: "keyed_part d (store_disk_readings key cap did vs ts recv s t) =
    (if did = d then store_disk_readings key cap did vs ts recv s (keyed_part d t) else keyed_part d t)"
proof (cases "did = d")
  case True
  then show ?thesis
    by (simp add: store_disk_readings_def Let_def active_part evict_part part_keep_all)
      (simp add: keyed_part_def part_append part_tagged[unfolded keyed_part_def])
next
  case False
  then show ?thesis
    by (simp add: store_disk_readings_def Let_def evict_part part_keep_all)
      (simp add: keyed_part_def part_append part_tagged[unfolded keyed_part_def])
qed

interpretation disks: machine_owned "\<lambda>(did, vs, ts, recv, s). store_disk_readings key cap did vs ts recv s" fst keyed_part for key cap
  by unfold_locales (simp add: disks_part split: prod.split)

lemma queues_part: "queues_of did (keyed_part did t) = queues_of did t"
  by (simp add: queues_of_def keyed_part_def own_part_def)

lemma put_part: "keyed_part d (put_queues did now rows t) = (if did = d then put_queues did now rows (keyed_part d t) else keyed_part d t)"
  by (induction rows arbitrary: t) (auto simp: put_queues_def keyed_part_def part_simps)

lemma hints_part: "keyed_part d (fst (store_printer_ip_hints ip did hints now t)) =
    (if did = d then fst (store_printer_ip_hints ip did hints now (keyed_part d t)) else keyed_part d t)"
  by (simp add: store_printer_ip_hints_def Let_def put_part writable_queues_def queues_part split: jval.split)

interpretation printers: machine_owned "\<lambda>(did, hints, now) t. fst (store_printer_ip_hints ip did hints now t)" fst keyed_part for ip
  by unfold_locales (simp add: hints_part split: prod.split)

definition snapshot_write :: "string \<Rightarrow> string \<Rightarrow> jobj \<Rightarrow> (string, net_snapshot) dict \<Rightarrow> (string, net_snapshot) dict" where
  "snapshot_write did ts p t = (case store_net_snapshot did ts p t of Inl e \<Rightarrow> t | Inr t' \<Rightarrow> t')"

lemma snapshot_part: "device_part d (snapshot_write did ts p t) = (if did = d then snapshot_write did ts p (device_part d t) else device_part d t)"
  by (cases "net_snapshot_of ts p") (simp_all add: snapshot_write_def store_net_snapshot_def device_part_def part_simps)

lemma snapshot_error: "store_net_snapshot did ts p t = Inl e \<longleftrightarrow> store_net_snapshot did ts p u = Inl e"
  by (cases "net_snapshot_of ts p") (simp_all add: store_net_snapshot_def)

interpretation networks: machine_owned "\<lambda>(did, ts, p). snapshot_write did ts p" fst device_part
  by unfold_locales (simp add: snapshot_part split: prod.split)

definition rollup_part :: "string \<Rightarrow> rollups \<Rightarrow> rollups" where
  "rollup_part did = own_part (\<lambda>k. fst k = did)"

definition event_part :: "string \<Rightarrow> event_log \<times> rollups \<Rightarrow> event_log \<times> rollups" where
  "event_part did w = (device_part did (fst w), rollup_part did (snd w))"

lemma max_part:
  assumes "\<forall>e \<in> set c. fst (fst e) = did"
  shows "rollup_part d (foldl (\<lambda>ro ((d, k), n). dict_set ro (d, day, k) (max (held_count ro (d, day, k)) n)) ro c) =
    (if did = d then foldl (\<lambda>ro ((d, k), n). dict_set ro (d, day, k) (max (held_count ro (d, day, k)) n)) (rollup_part d ro) c else rollup_part d ro)"
  using assms
proof (induction c arbitrary: ro)
  case (Cons e c)
  obtain k n where e: "e = ((did, k), n)" using Cons.prems by (cases e) auto
  have c: "\<forall>e \<in> set c. fst (fst e) = did" using Cons.prems by simp
  show ?case unfolding e foldl_Cons prod.case Cons.IH[OF c] by (simp add: rollup_part_def part_simps held_count_def)
qed simp

lemma counts_of_one: "e \<in> set (cap_event_keys (foldl count_event [] (filter (\<lambda>(d, r). d = did \<and> P r) t))) \<Longrightarrow> fst (fst e) = did"
proof -
  let ?ps = "filter (\<lambda>(d, r). d = did \<and> P r) t"
  assume "e \<in> set (cap_event_keys (foldl count_event [] ?ps))"
  then have "e \<in> set (foldl count_event [] ?ps)" using mset_subset_eqD[OF cap_sub] by (metis set_mset_mset)
  then have "dict_get (foldl count_event [] ?ps) (fst e) \<noteq> None" by (metis image_eqI map_of_eq_None_iff)
  then have "key_count (fst e) ?ps \<noteq> 0" by (simp add: count_events split: if_splits)
  then obtain d r where "(d, r) \<in> set ?ps" "d = fst (fst e)" by (auto simp: key_count_def filter_empty_conv)
  then show ?thesis by auto
qed

lemma rollup_events_part: "rollup_part d (rollup_events day (Some did) t ro) =
    (if did = d then rollup_events day (Some did) (device_part d t) (rollup_part d ro) else rollup_part d ro)"
proof -
  have f: "filter (\<lambda>(x, r). x = did \<and> utc_day (ev_received r) = day) (device_part did t) = filter (\<lambda>(x, r). x = did \<and> utc_day (ev_received r) = day) t"
    by (auto simp: device_part_def own_part_def intro!: filter_cong)
  have "\<forall>e \<in> set (cap_event_keys (foldl count_event [] (filter (\<lambda>(x, r). x = did \<and> utc_day (ev_received r) = day) t))). fst (fst e) = did"
    by (intro ballI) (erule counts_of_one)
  from max_part[OF this] show ?thesis by (cases "did = d") (simp_all add: rollup_events_def eq_commute[of did] f)
qed

lemma events_part: "event_part d (store_events cap did evs recv drift w) =
    (if did = d then store_events cap did evs recv drift (event_part d w) else event_part d w)"
proof -
  have a: "device_part d (u @ map (\<lambda>e. (did, event_row_of recv drift e)) evs) =
      device_part d u @ (if did = d then map (\<lambda>e. (did, event_row_of recv drift e)) evs else [])" for u
    by (simp add: device_part_def own_part_def filter_empty_conv)
  have k: "device_part d (keep_newest cap did u) = (if did = d then keep_newest cap did (device_part d u) else device_part d u)" for u :: event_log
    by (simp add: device_part_def part_simps)
  show ?thesis
  proof (cases "did = d")
    case True
    show ?thesis using a k unfolding True by (simp add: store_events_def Let_def event_part_def rollup_events_part)
  next
    case False
    then show ?thesis by (simp add: store_events_def Let_def event_part_def rollup_events_part k a)
  qed
qed

interpretation event_tables: machine_owned "\<lambda>(did, evs, recv, drift). store_events cap did evs recv drift" fst event_part for cap
  by unfold_locales (simp add: events_part split: prod.split)

definition job_part :: "string \<Rightarrow> job_row list \<Rightarrow> job_row list" where
  "job_part did = filter (\<lambda>r. jr_device r = did)"

lemma refused_part: "insert_refused did j (job_part did t) = insert_refused did j t"
  by (force simp: insert_refused_def job_part_def row_key_def job_key_def split: option.splits)

lemma insert_part: "job_part d (fst (insert_jobs did recv js t)) =
    (if did = d then fst (insert_jobs did recv js (job_part d t)) else job_part d t)"
proof (induction did recv js t rule: insert_jobs.induct)
  case (2 did recv j js t)
  let ?r = "\<lparr>jr_device = did, jr_received = recv, jr_job = j\<rparr>"
  have a: "job_part d (t @ [?r]) = job_part d t @ (if did = d then [?r] else [])" by (simp add: job_part_def)
  show ?case
  proof (cases "did = d"; cases "insert_refused did j t")
    assume "did = d" "\<not> insert_refused did j t"
    then show ?thesis using 2(2) a by (simp add: Let_def split_beta refused_part)
  qed (use 2 a in \<open>simp_all add: refused_part Let_def split_beta\<close>)
qed simp

interpretation jobs: machine_owned "\<lambda>(did, js, recv, now) t. fst (store_print_jobs did js recv now t)" fst job_part
  by unfold_locales (simp add: store_print_jobs_def insert_part split: prod.split)

subsection \<open>The trust tables\<close>

definition trust_part :: "string \<Rightarrow> trust_db \<Rightarrow> trust_db" where
  "trust_part did db = \<lparr>td_rows = keyed_part did (td_rows db), td_last_good = keyed_part did (td_last_good db),
     td_trust = device_part did (td_trust db)\<rparr>"

lemma record_part: "trust_part d (record_source did src ts recv j db) =
    (if did = d then record_source did src ts recv j (trust_part d db) else trust_part d db)"
  by (cases j) (auto simp: record_source_def upsert_source_trust_def set_last_good_def trust_part_def Let_def keyed_part_def part_simps
    split: prod.split)

lemma last_good_part: "get_last_good did src (trust_part did db) = get_last_good did src db"
  by (simp add: get_last_good_def trust_part_def keyed_part_def part_simps)

lemma loop_part: "trust_part d (fst (ingest_loop render did p ts recv health db)) =
      (if did = d then fst (ingest_loop render did p ts recv health (trust_part d db)) else trust_part d db)"
    "snd (ingest_loop render did p ts recv health (trust_part did db)) = snd (ingest_loop render did p ts recv health db)"
  by (induction render did p ts recv health db rule: ingest_loop.induct)
    (auto simp: last_good_part record_part split: sum.split)

lemma rebuild_part: "trust_part d (fst (rebuild_domain_blob did ts db)) =
      (if did = d then fst (rebuild_domain_blob did ts (trust_part d db)) else trust_part d db)"
    "snd (rebuild_domain_blob did ts (trust_part did db)) = snd (rebuild_domain_blob did ts db)"
proof -
  have g: "get_source_trusts did (trust_part did db) = get_source_trusts did db"
    "get_last_good_sources did (trust_part did db) = get_last_good_sources did db"
    by (auto simp: get_source_trusts_def get_last_good_sources_def trust_part_def keyed_part_def own_part_def
      intro!: arg_cong[of _ _ "map _"] filter_cong)
  have m: "build_source_trust_map did (trust_part did db) = build_source_trust_map did db" by (simp add: build_source_trust_map_def g)
  show "snd (rebuild_domain_blob did ts (trust_part did db)) = snd (rebuild_domain_blob did ts db)"
    by (simp add: rebuild_domain_blob_def m split: sum.split)
  show "trust_part d (fst (rebuild_domain_blob did ts db)) =
      (if did = d then fst (rebuild_domain_blob did ts (trust_part d db)) else trust_part d db)"
    using m g by (auto simp: rebuild_domain_blob_def store_trust_def split: sum.split)
      (simp_all add: trust_part_def device_part_def part_simps)
qed

lemma evaluate_part: "trust_part d (fst (evaluate_trust render did p health ts recv db)) =
      (if did = d then fst (evaluate_trust render did p health ts recv (trust_part d db)) else trust_part d db)"
    "snd (evaluate_trust render did p health ts recv (trust_part did db)) = snd (evaluate_trust render did p health ts recv db)"
proof -
  obtain db1 r where l: "ingest_loop render did p ts recv health db = (db1, r)" by (cases "ingest_loop render did p ts recv health db")
  have o: "ingest_loop render did p ts recv health (trust_part did db) = (trust_part did db1, r)"
    using loop_part(1)[of did render did p ts recv health db] loop_part(2)[of render did p ts recv health db] l by (simp add: prod_eq_iff)
  show "snd (evaluate_trust render did p health ts recv (trust_part did db)) = snd (evaluate_trust render did p health ts recv db)"
    by (simp add: evaluate_trust_def l o rebuild_part split: sum.split)
  have "trust_part d db1 = trust_part d db" if "did \<noteq> d" using loop_part(1)[of d render did p ts recv health db] that l by simp
  then show "trust_part d (fst (evaluate_trust render did p health ts recv db)) =
      (if did = d then fst (evaluate_trust render did p health ts recv (trust_part d db)) else trust_part d db)"
  proof (cases "did = d")
    case True
    show ?thesis using l o unfolding True by (simp add: evaluate_trust_def rebuild_part split: sum.split)
  next
    case False
    then show ?thesis using \<open>did \<noteq> d \<Longrightarrow> trust_part d db1 = trust_part d db\<close>
      by (simp add: evaluate_trust_def l rebuild_part split: sum.split)
  qed
qed

interpretation trusts: machine_owned "\<lambda>(did, p, health, ts, recv) db. fst (evaluate_trust render did p health ts recv db)" fst trust_part for render
  by unfold_locales (simp add: evaluate_part split: prod.split)

subsection \<open>Machines do not reach each other\<close>

definition restrict :: "string \<Rightarrow> ingest_db \<Rightarrow> ingest_db" where
  \<comment> \<open>what the tables hold of one machine\<close>
  "restrict d db = \<lparr>ib_devices = device_part d (ib_devices db), ib_inventory = device_part d (ib_inventory db),
     ib_historical = device_part d (ib_historical db), ib_heartbeats = device_part d (ib_heartbeats db),
     ib_disks = keyed_part d (ib_disks db), ib_printers = keyed_part d (ib_printers db), ib_network = device_part d (ib_network db),
     ib_events = event_part d (ib_events db), ib_jobs = job_part d (ib_jobs db), ib_trust = trust_part d (ib_trust db)\<rparr>"

lemma storage_part: "keyed_part d (store_storage ou rt m mo t) =
    (if ms_device m = d then store_storage ou rt m mo (keyed_part d t) else keyed_part d t)"
  by (simp add: store_storage_def disks_part split: jval.split)

lemmas table_parts = devices.store_part[of _ "(_, _, _)", simplified] touched.store_part[of _ "(_, _, _)", simplified]
  statuses.store_part[of _ "(_, _, _)", simplified] inventories.store_part[of _ "(_, _, _)", simplified]
  histories.store_part[of _ _ "(_, _)", simplified] beats.store_part[of _ _ "(_, _)", simplified] storage_part hints_part snapshot_part
  events_part jobs.store_part[of _ "(_, _, _, _)", simplified] evaluate_part

lemma history_eq: "store_history ou rt m mo db =
    (let did = ms_device m; p = ms_payload m in
     (db\<lparr>ib_devices := touch_device did (device_report_of m (ms_identity m) mo) (mo_device mo) (ib_devices db),
         ib_historical := store_historical (rt_historical rt) did (telemetry_of m mo) (ib_historical db),
         ib_disks := store_storage ou rt m mo (ib_disks db),
         ib_printers := fst (store_printer_ip_hints (ou_ip ou) did (list_field p ''printer_ports'') (mo_queues mo) (ib_printers db)),
         ib_network := snapshot_write did (ms_ts m) p (ib_network db)\<rparr>,
      case store_net_snapshot did (ms_ts m) p [] of Inl e \<Rightarrow> Inl e | Inr _ \<Rightarrow> Inr ()))"
  by (cases "net_snapshot_of (ms_ts m) (ms_payload m)")
    (simp_all add: store_history_def Let_def touch_def snapshot_write_def store_net_snapshot_def)

lemma message_part: "restrict d (fst (store_message co ou rt m mo db)) =
    (if ms_device m = d then fst (store_message co ou rt m mo (restrict d db)) else restrict d db)"
  by (cases "ms_device m = d"; cases "ms_type m") (simp_all add: store_message_def history_eq Let_def touch_def restrict_def table_parts)

lemma message_result: "snd (store_message co ou rt m mo db) = snd (store_message co ou rt m mo db')"
  by (cases "ms_type m") (simp_all add: store_message_def history_eq Let_def)

lemma judge_part: "restrict d (fst (judge_message ou m mo db)) =
      (if ms_device m = d then fst (judge_message ou m mo (restrict d db)) else restrict d db)"
    "snd (judge_message ou m mo (restrict (ms_device m) db)) = snd (judge_message ou m mo db)"
  by (simp_all add: judge_message_def split_beta restrict_def evaluate_part)

lemma write_part: "restrict d (fst (write_message co ou rt m mo db)) =
    (if ms_device m = d then fst (write_message co ou rt m mo (restrict d db)) else restrict d db)"
proof -
  have r: "snd (store_message co ou rt m mo (restrict d db)) = snd (store_message co ou rt m mo db)" by (rule message_result)
  show ?thesis
    by (cases "store_message co ou rt m mo db" rule: prod.exhaust; cases "store_message co ou rt m mo (restrict d db)" rule: prod.exhaust)
      (use message_part[of d co ou rt m mo db] r in \<open>auto simp: write_message_def judge_part split: sum.split if_splits\<close>)
qed

interpretation writes: machine_owned "\<lambda>(m, mo) db. fst (write_message co ou rt m mo db)" "\<lambda>(m, mo). ms_device m" restrict for co ou rt
  by unfold_locales (simp add: write_part split: prod.split)

definition ingest_all :: "contract \<Rightarrow> libraries \<Rightarrow> retention \<Rightarrow> (message \<times> moments \<times> score_memory) list \<Rightarrow> ingest_db \<times> rqueue option
    \<Rightarrow> ingest_db \<times> rqueue option" where
  "ingest_all co ou rt ms w = foldl (\<lambda>w (m, mo, sm). fst (ingest_envelope co ou rt sm m mo w)) w ms"

lemma ingest_db: "fst (fst (ingest_envelope co ou rt sm m mo w)) = fst (write_message co ou rt m mo (fst w))"
  by (auto simp: ingest_envelope_def split: prod.split sum.split option.split)

lemma ingest_all_db: "fst (ingest_all co ou rt ms w) = writes.write_run co ou rt (map (\<lambda>(m, mo, sm). (m, mo)) ms) (fst w)"
  by (induction ms rule: rev_induct) (auto simp: ingest_all_def writes.write_run_def ingest_db)

lemma load_own: "load_device ou day sm db d = (load_device ou day sm (restrict d db) d)\<lparr>sd_cohort := sd_cohort (load_device ou day sm db d)\<rparr>"
proof -
  have n: "newest d (device_part d t) = newest d t" for t :: "(string \<times> 'r) list" by (simp add: newest_def device_part_def part_simps)
  have k: "newest (d, k) (keyed_part d t) = newest (d, k) t" for k and t :: disk_log by (simp add: newest_def keyed_part_def part_simps)
  have g: "dict_get (device_part d t) d = dict_get t d" for t :: "(string \<times> 'v) list" by (simp add: device_part_def part_simps)
  have r: "get_event_rollups d day (rollup_part d ro) = get_event_rollups d day ro" for ro
    unfolding get_event_rollups_def rollup_part_def own_part_def filter_filter
    by (intro arg_cong[of _ _ "\<lambda>l. map _ (rev (sort_key _ l))"] filter_cong) auto
  show ?thesis
    by (simp add: load_device_def Let_def split_beta restrict_def event_part_def trust_part_def g n k r
      get_inventory_def get_historical_def get_recent_heartbeats_def get_historical_series_def get_disk_series_def get_recent_events_def)
qed

text \<open>C5: Machines do not reach each other through the tables that messages write.  What these tables hold of a machine after any sequence of
  messages is what its own messages alone would have left, whatever the others sent, whether accepted or failed half-way.  What its scores are
  computed from is the same as well, but for three things that are read from elsewhere: the cohort of the fleet, the statistics of the rules,
  which are pooled over the fleet, and the machine's own earlier verdicts.\<close>
theorem machines_are_isolated:
  "let db = fst (ingest_all co ou rt ms w);
       own = fst (ingest_all co ou rt (filter (\<lambda>(m, _). ms_device m = d) ms) (restrict d (fst w), pend))
   in restrict d db = own \<and>
      load_device ou day sm db d = (load_device ou day sm' own d)\<lparr>sd_cohort := sd_cohort (load_device ou day sm db d),
        sd_rule_stats := sm_rule_stats sm, sd_prev_health := sm_prev sm, sd_scores := sm_scores sm\<rparr>"
proof -
  have f: "filter (\<lambda>x. (case x of (m, mo) \<Rightarrow> ms_device m) = d) (map (\<lambda>(m, mo, sm). (m, mo)) ms) =
      map (\<lambda>(m, mo, sm). (m, mo)) (filter (\<lambda>(m, _). ms_device m = d) ms)"
    by (induction ms) auto
  have "restrict d (fst (ingest_all co ou rt ms w)) =
      fst (ingest_all co ou rt (filter (\<lambda>(m, _). ms_device m = d) ms) (restrict d (fst w), pend))"
    using writes.write_run_part[of d co ou rt "map (\<lambda>(m, mo, sm). (m, mo)) ms" "fst w"] by (simp add: ingest_all_db f)
  moreover have "load_device ou day sm db e = (load_device ou day sm' db e)\<lparr>sd_rule_stats := sm_rule_stats sm,
      sd_prev_health := sm_prev sm, sd_scores := sm_scores sm\<rparr>" for db e
    by (simp add: load_device_def Let_def split_beta)
  ultimately show ?thesis using load_own[of ou day sm' "fst (ingest_all co ou rt ms w)" d] by (simp add: Let_def)
qed

subsection \<open>What each message does to the scores\<close>

lemma judge_keeps: "fst (judge_message ou m mo db) = db\<lparr>ib_trust := ib_trust (fst (judge_message ou m mo db))\<rparr>"
  by (simp add: judge_message_def split_beta)

lemma written_parts:
  assumes "write_message co ou rt m mo db = (db', Inr ())"
  obtains db1 where "store_message co ou rt m mo db = (db1, Inr ())" "ib_inventory db' = ib_inventory db1"
    "ib_historical db' = ib_historical db1" "ib_heartbeats db' = ib_heartbeats db1" "ib_events db' = ib_events db1"
proof -
  obtain db1 r where s: "store_message co ou rt m mo db = (db1, r)" by (cases "store_message co ou rt m mo db")
  then have "r = Inr ()" "judge_message ou m mo db1 = (db', Inr ())" using assms by (auto simp: write_message_def split: if_splits sum.splits)
  moreover from this(2) have "db' = db1\<lparr>ib_trust := ib_trust db'\<rparr>" using judge_keeps[of ou m mo db1] by simp
  then have "ib_inventory db' = ib_inventory db1" "ib_historical db' = ib_historical db1" "ib_heartbeats db' = ib_heartbeats db1"
    "ib_events db' = ib_events db1" by (metis ingest_db.select_convs ingest_db.surjective ingest_db.update_convs)+
  ultimately show thesis using that[of db1] s by simp
qed

text \<open>C6: A reading that changes the scores is in them.  When an inventory, a history or a heartbeat has been written, the scores are computed
  again, at once or through the queue, and what they are computed from then begins with the reading that has just come.\<close>
theorem fresh_reading_is_scored:
  assumes "write_message co ou rt m mo db = (db', Inr ())" "ms_type m \<in> {M_Inventory, M_Historical, M_Heartbeat}"
    "0 < rt_historical rt" "0 < rt_heartbeats rt"
  shows "ingest_envelope co ou rt sm m mo (db, pend) =
      ((db', map_option (submit (ms_device m)) pend), if pend = None then rescore ou mo sm db' (ms_device m) else Inr None) \<and>
    (let sd = load_device ou day sm db' (ms_device m); reading = merge_obj [(''ts'', JStr (ms_ts m))] (ms_payload m) in
     case ms_type m of
       M_Inventory \<Rightarrow> sd_inventory sd = Some reading
     | M_Historical \<Rightarrow> sd_historical sd = Some reading \<and> hd (sd_history sd) = series_row (telemetry_of m mo)
     | _ \<Rightarrow> sd_heartbeat sd = Some (series_row (telemetry_of m mo)) \<and> hd (sd_heartbeats sd) = series_row (telemetry_of m mo))"
proof -
  obtain db1 where db1: "store_message co ou rt m mo db = (db1, Inr ())" "ib_inventory db' = ib_inventory db1"
    "ib_historical db' = ib_historical db1" "ib_heartbeats db' = ib_heartbeats db1" "ib_events db' = ib_events db1"
    using assms(1) by (rule written_parts)
  have "ms_type m \<notin> set NO_RESCORE" using assms(2) by (auto simp: NO_RESCORE_def)
  then have i: "ingest_envelope co ou rt sm m mo (db, pend) =
      ((db', map_option (submit (ms_device m)) pend), if pend = None then rescore ou mo sm db' (ms_device m) else Inr None)"
    using assms(1) by (simp add: ingest_envelope_def split: option.split)
  obtain n where n: "rt_historical rt = Suc n" using assms(3) by (metis not0_implies_Suc not_gr0)
  obtain k where k: "rt_heartbeats rt = Suc k" using assms(4) by (metis not0_implies_Suc not_gr0)
  from assms(2) consider "ms_type m = M_Inventory" | "ms_type m = M_Historical" | "ms_type m = M_Heartbeat" by blast
  then show ?thesis
  proof cases
    case 1
    then have "ib_inventory db' = dict_set (ib_inventory db) (ms_device m) (ms_ts m, ms_payload m)"
      using db1 by (auto simp: store_message_def store_inventory_def Let_def)
    then show ?thesis using 1 i by (simp add: load_device_def Let_def split_beta get_inventory_def dict_simps)
  next
    case 2
    then have "ib_historical db' = append_row (Suc n) (ms_device m) (telemetry_of m mo) (ib_historical db)"
      using db1 n by (auto simp: store_message_def history_eq Let_def store_historical_def split: sum.splits)
    then show ?thesis using 2 i
      by (simp add: load_device_def Let_def split_beta get_historical_def get_historical_series_def log_simps TREND_HISTORY_LIMIT_def telemetry_of_def)
  next
    case 3
    then have "ib_heartbeats db' = append_row (Suc k) (ms_device m) (telemetry_of m mo) (ib_heartbeats db)"
      using db1 k by (auto simp: store_message_def Let_def store_heartbeat_def touch_def)
    then show ?thesis using 3 i
      by (simp add: load_device_def Let_def split_beta get_recent_heartbeats_def log_simps TREND_HISTORY_LIMIT_def)
  qed
qed

text \<open>C7: A sign of life and a report about an update change the row of the machine that sent them and nothing else, whatever they carry: no
  reading is stored, no source is judged even when the message claims that its sources are fine, and no score is computed.\<close>
theorem sign_of_life_is_no_evidence:
  assumes "ms_type m \<in> {M_Liveness, M_UpdateStatus}"
  shows "\<exists>devs r. ingest_envelope co ou rt sm m mo (db, pend) = ((db\<lparr>ib_devices := devs\<rparr>, pend), r) \<and> r \<in> {Inr None, Inl ValueError} \<and>
    (\<forall>d. d = ms_device m \<or> dict_get devs d = dict_get (ib_devices db) d)"
proof -
  have t: "d = did \<or> dict_get (touch_device did r clk tbl) d = dict_get tbl d" for did r clk tbl d
    by (simp add: touch_device_def upsert_device_def Let_def dict_simps)
  have "d = did \<or> dict_get (set_update_status did s now tbl) d = dict_get tbl d" for did s now tbl d
    by (simp add: set_update_status_def dict_simps split: option.split)
  then have u: "d = did \<or> dict_get (set_update_status did s now (touch_device did r clk tbl)) d = dict_get tbl d" for did s now r clk tbl d
    using t by metis
  note w = write_message_def store_message_def judge_message_def NO_TRUST_MSG_TYPES_def NO_RESCORE_def Let_def
  consider "\<not> co_valid co (ms_type m) (ms_payload m)" | "co_valid co (ms_type m) (ms_payload m)" "ms_type m = M_Liveness"
    | "co_valid co (ms_type m) (ms_payload m)" "ms_type m = M_UpdateStatus" using assms by blast
  then show ?thesis
  proof cases
    case 1
    then show ?thesis by (intro exI[of _ "ib_devices db"]) (simp add: ingest_envelope_def write_message_def)
  next
    case 2
    then show ?thesis
      by (intro exI[of _ "ib_devices (touch m mo db)"] exI[of _ "Inr None"])
        (simp add: w touch_def t ingest_envelope_def)
  next
    case 3
    then show ?thesis
      by (intro exI[of _ "set_update_status (ms_device m) (update_status_of (ms_payload m)) (mo_status mo) (ib_devices (touch m mo db))"] exI[of _ "Inr None"])
        (simp add: w touch_def u ingest_envelope_def)
  qed
qed

text \<open>C16: A batch of events is not scored when it comes, although the chain of a machine's disk errors is read from the events: once written,
  they are the first of what the next computation will read, but no computation is asked for.  The comment in the code says that the scores
  never read the table of events.\<close>
theorem events_wait_for_the_next_reading:
  assumes "write_message co ou rt m mo db = (db', Inr ())" "ms_type m = M_Events" "co_events co (ms_payload m) \<noteq> []"
  shows "ingest_envelope co ou rt sm m mo (db, pend) = ((db', pend), Inr None) \<and>
    sd_events (load_device ou day sm db' (ms_device m)) = take ERRCHAIN_EVENT_LIMIT (map event_obj (take (rt_events rt)
      (rev (map (event_row_of (mo_received mo) (clock_drift_sec (mo_received mo) (ms_ts m))) (co_events co (ms_payload m))) @
       newest (ms_device m) (fst (ib_events db)))))"
proof -
  obtain db1 where db1: "store_message co ou rt m mo db = (db1, Inr ())" "ib_inventory db' = ib_inventory db1"
    "ib_historical db' = ib_historical db1" "ib_heartbeats db' = ib_heartbeats db1" "ib_events db' = ib_events db1"
    using assms(1) by (rule written_parts)
  let ?rows = "map (event_row_of (mo_received mo) (clock_drift_sec (mo_received mo) (ms_ts m))) (co_events co (ms_payload m))"
  have o: "own_rows d (map (Pair d \<circ> f) xs) = map f xs" for d :: string and f :: "event_item \<Rightarrow> event_row" and xs by (induction xs) auto
  have "fst (ib_events db') = keep_newest (rt_events rt) (ms_device m) (fst (ib_events db) @ map (Pair (ms_device m) \<circ>
      event_row_of (mo_received mo) (clock_drift_sec (mo_received mo) (ms_ts m))) (co_events co (ms_payload m)))"
    using db1 assms(2,3) by (auto simp: store_message_def store_events_def Let_def touch_def comp_def)
  then have "newest (ms_device m) (fst (ib_events db')) = take (rt_events rt) (rev ?rows @ newest (ms_device m) (fst (ib_events db)))"
    by (simp add: newest_keep) (simp add: newest_def o)
  then show ?thesis using assms(1,2)
    by (simp add: ingest_envelope_def NO_RESCORE_def load_device_def Let_def split_beta get_recent_events_def take_map)
qed

subsection \<open>A machine that says one thing of each kind\<close>

definition empty_db :: ingest_db where
  "empty_db = \<lparr>ib_devices = [], ib_inventory = [], ib_historical = [], ib_heartbeats = [], ib_disks = [], ib_printers = [], ib_network = [],
     ib_events = ([], []), ib_jobs = [], ib_trust = \<lparr>td_rows = [], td_last_good = [], td_trust = []\<rparr>\<rparr>"

definition plain_contract :: contract where
  "plain_contract = \<lparr>co_valid = (\<lambda>_ _. True), co_events = (\<lambda>_. [disk_event]), co_jobs = (\<lambda>_. [])\<rparr>"

definition plain_libraries :: libraries where
  "plain_libraries = \<lparr>ou_render = (\<lambda>_. []), ou_sha = (\<lambda>s. s), ou_ip = (\<lambda>_. None), ou_cast = (\<lambda>_. Fin 0), ou_exp = (\<lambda>x. x),
     ou_log = (\<lambda>x. x), ou_stdev = (\<lambda>_. Fin 0), ou_texts = (\<lambda>_. [])\<rparr>"

definition plain_retention :: retention where
  "plain_retention = \<lparr>rt_historical = 500, rt_heartbeats = 500, rt_events = 1000, rt_disks = 2000\<rparr>"

definition plain_moments :: moments where
  "plain_moments = \<lparr>mo_received = half_past, mo_device = half_past_clock, mo_status = 0, mo_active_since = [], mo_queues = half_past,
     mo_scores = (\<lambda>_. 0), mo_rollup_day = []\<rparr>"

definition plain_memory :: score_memory where
  "plain_memory = \<lparr>sm_rule_stats = [], sm_prev = None, sm_scores = []\<rparr>"

definition plain_message :: "msg_type \<Rightarrow> message" where
  "plain_message k = \<lparr>ms_device = ''d1'', ms_version = ''1.0.0'', ms_type = k, ms_ts = new_year, ms_payload = [(''cpu_pct'', JInt 7)],
     ms_health = (if k = M_Liveness then [(''storage_reliability'', ''ok'')] else []), ms_identity = no_profile\<rparr>"

definition plain_write :: "msg_type \<Rightarrow> ingest_db" where
  "plain_write k = fst (write_message plain_contract plain_libraries plain_retention (plain_message k) plain_moments empty_db)"

lemma plain_written: "k \<in> {M_Heartbeat, M_Events} \<Longrightarrow>
    write_message plain_contract plain_libraries plain_retention (plain_message k) plain_moments empty_db = (plain_write k, Inr ())"
  by (auto simp: prod_eq_iff plain_write_def write_message_def store_message_def judge_message_def Let_def plain_contract_def plain_message_def)

theorem fresh_reading_is_scored_witness:
  "sd_heartbeat (load_device plain_libraries [] plain_memory (plain_write M_Heartbeat) ''d1'') =
    Some (series_row (telemetry_of (plain_message M_Heartbeat) plain_moments))"
  using fresh_reading_is_scored[OF plain_written[of M_Heartbeat], of plain_memory None "[]"]
  by (simp add: plain_message_def plain_retention_def Let_def)

theorem sign_of_life_is_no_evidence_witness:
  "\<exists>devs r. ingest_envelope plain_contract plain_libraries plain_retention plain_memory (plain_message M_Liveness) plain_moments (empty_db, None) =
    ((empty_db\<lparr>ib_devices := devs\<rparr>, None), r)"
  using sign_of_life_is_no_evidence[of "plain_message M_Liveness" plain_contract plain_libraries plain_retention plain_memory plain_moments empty_db None]
  by (auto simp: plain_message_def)

theorem events_wait_for_the_next_reading_witness:
  "length (sd_events (load_device plain_libraries [] plain_memory (plain_write M_Events) ''d1'')) = 1"
  using events_wait_for_the_next_reading[OF plain_written[of M_Events], of plain_memory None "[]"]
  by (simp add: plain_message_def plain_contract_def plain_retention_def ERRCHAIN_EVENT_LIMIT_def newest_def empty_db_def)

end
