(* ===== verification/Spec2Isabelle.thy ===== *)
theory Spec2Isabelle
  imports Snmp TrustStore Guards RescoreQueue NetGraph NetFusion Transport Updater ZabbixExport ScoreHistory Telemetry DiskReadings Ingestion
begin

text \<open>
  SRP collects telemetry from a fleet of Windows machines, printers and network devices, judges how far each piece of it can be trusted,
  scores the machines and tells operators which one will fail and why.  This library models the parts of the program that decide
  something, translated from the Python sources under \<open>src/\<close>, and proves what makes them right.  It is organised the way the program runs.

  \<^bold>\<open>How a message travels.\<close>  The agent (\<open>client/transport.py\<close>, theory Transport) posts envelopes or buffers them; the server's endpoint
  (\<open>server/api.py\<close>, \<open>ingest_guards.py\<close>, theory Guards) accepts, limits or rejects them; the pipeline (\<open>ingest_envelope\<close>,
  theory Ingestion) writes the machine's row (DeviceTable), what it prints and sees of the network (PrintTables) and its telemetry (Telemetry and DiskReadings, over the capped tables of RowLog), judges every source (\<open>server/trust\<close>: TrustValidators, Trust, TrustStore) and
  recomputes the scores, at once or through a queue (RescoreQueue).  A recomputation (\<open>recompute_scores\<close>, theory Recompute) runs the day-one
  scores (DayOne) behind the gates of Score100, the trends (Trends), the event chain (ErrChain), the engines (Storage, DiskFill,
  OsDegradation, FleetAnomaly, NetworkRisk, SoftwareAging), the prioritizer (Bayes) and the verdict (Health), and stores a block whose older
  copies are cut down (ScoreHistory) and read again by the next verdict and by the scan that learns which rules hold (RuleStats).  A
  separate cycle (\<open>staleness.py\<close>, in TrustStore) marks sources that have gone silent.

  \<^bold>\<open>The other parts.\<close>  The agent updates itself (Updater); the server polls printers over SNMP (Ber, Utf8, Snmp), maps the network
  (NetIdentity, NetEvidence, NetFusion, NetGraph) and exports to Zabbix (ZabbixProtocol, ZabbixExport).

  \<^bold>\<open>Python in HOL.\<close>  Prelude holds exceptions as values of a sum type with its bind, dictionaries as association lists in insertion order and
  grouping; PyText the decimal and splitting operations of strings; PyFloat binary64 as rationals rounded half to even with infinities and
  NaN, and JSON values of any shape; PyArith its arithmetic, \<open>round\<close>, \<open>min\<close> and \<open>max\<close>; PyTime \<open>datetime.fromisoformat\<close> with the grammar of
  Python 3.9.  A sum is taken from the left, as Python does it up to 3.11.  An instant is an integer of microseconds; a stored stamp is the
  text that is stored.  Octets are 8-bit words.

  \<^bold>\<open>Correspondence.\<close>
  \<^item> Trust, TrustValidators, TrustStore: states, gate and domains (\<open>trust/states.py\<close>, \<open>gate.py\<close>, \<open>domains.py\<close>), validators, \<open>evaluate_trust\<close> of
    \<open>pipeline.py\<close>, the trust tables of \<open>db.py\<close>, \<open>run_staleness_cycle\<close>; ingest and cycle interleave as the step relation \<open>trust_step\<close>.
  \<^item> Guards, RescoreQueue: the guards in their order, the sliding window against its specification by the whole history; the worker and the
    threads of the endpoint as a step relation, with the abstract promise that no submitted machine is forgotten.
  \<^item> DeviceTable, RowLog, Telemetry, ScoreHistory: rows of machines, capped logs (a locale, instantiated for heartbeats and history), event
    counts, series and verdicts of \<open>db.py\<close>.
  \<^item> DayOne, Score100, Trends, ErrChain, RuleStats, Bayes, Health: \<open>scoring/scores.py\<close>, \<open>score100.py\<close>, \<open>bayesian.py\<close> and
    \<open>analytics/trends.py\<close>, \<open>errchain.py\<close>, \<open>rulestats.py\<close>, \<open>health.py\<close>.
  \<^item> Storage, OsDegradation, FleetAnomaly, NetworkRisk, DiskFill, SoftwareAging: the engines of \<open>analytics/\<close>; RiskAxis is the axis they share and
    the locales \<open>risk_engine\<close> and \<open>gated_engine\<close> their contract: an untrusted machine gets no number, a failed domain withholds, and a number is
    the clamped sum of the factors shown.  Each engine is an interpretation.
  \<^item> Diagnosis: how the storage axis and the chain are handed to the verdict; Recompute: the recomputation as a whole.
  \<^item> NetGraph, NetIdentity, NetEvidence, NetFusion: \<open>netdisco/graph.py\<close>, \<open>correlation.py\<close>, \<open>identity.py\<close>, \<open>classify.py\<close>, \<open>evidence.py\<close>,
    \<open>l2.py\<close>, \<open>wireless.py\<close>, \<open>fusion.py\<close>.
  \<^item> Transport, Updater: \<open>client/transport.py\<close>, \<open>client/updater.py\<close>; Ber, Utf8, Snmp: \<open>printers/ber.py\<close>, \<open>snmp.py\<close>; ZabbixProtocol,
    ZabbixExport: \<open>server/zabbix\<close>.

  \<^bold>\<open>What is shown.\<close>  Safety of the verdict: no number and no state without a trusted source, trust is never revived by the cycle, a failing
  disk's flag reaches the verdict, hard evidence is final, recovery is a step at a time, memory outlives blind cycles, late messages roll no
  version back.  No message changes a row of another machine, though the cohort and the statistics of the rules are the fleet's; a fresh reading is what the
  next scores are computed from; the pipeline runs exactly when every guard of the endpoint lets the request through.
  Functional behaviour of every engine, of trends against a single bad reading (where the series is not cut below it), of the choice of the worst disk.  Invariants of
  stored state; equivalence of cut and whole verdicts, of the graph search and of observability with their definitions; refinement of the
  rate limiter and of the rescore queue; round trips of BER, SNMP and Zabbix frames; bounds of counts and probabilities; termination of SNMP
  walks and delivery of the buffer while the server's answers settle it.  Some theorems record what the program does against its own comments;
  they are the findings of the manifest.

  \<^bold>\<open>Bounds.\<close>  Loops are structural or have a measure.  The SNMP walk terminates by a measure on the rows it may still collect, and a theorem
  bounds its transactions; breadth-first search counts down the nodes not yet seen; the length of an encoded number is cut at the number of
  octets it needs.

  \<^bold>\<open>Parameters.\<close>  Code that is not in the repository is an argument of the definitions that use it, with its documented behaviour as a named
  hypothesis where a proof needs it: \<open>math.exp\<close>, \<open>math.log\<close>, \<open>statistics.stdev\<close>, SHA-256, HMAC and zip, \<open>zlib\<close>, \<open>ipaddress\<close>, the cast of text to a
  number in SQLite, sockets, clocks and file faults as streams, and \<open>str()\<close> of a value that is no text.  Texts shown to operators are
  constructors with the values they are built from.

  \<^bold>\<open>Not modelled.\<close>  Sorting a list with NaN (Python's order there depends on its algorithm); text beyond ASCII where only ASCII is read;
  declarations of the message payloads, which the validation library interprets; the dashboard, the remaining routes and statements of
  \<open>db.py\<close> that only read and format rows; collectors, tray, backup and start-up, which are input and output; scanning and scheduling of printers and
  network devices, whose logic is calls to sockets and to drivers; the search for cut vertices of the topology.
\<close>

end
